(* ===== verification/Prelude.thy ===== *)
theory Prelude
  imports Main "HOL-Library.Word"
begin

text \<open>
  The vocabulary every component of the development shares: the machine integer
  types of the C sources, the flat 32-bit address space, C characters and
  strings as byte lists, the collections of rewrite rules the component proofs
  draw on, and generic lemmas about words, regions of memory, lists and options.
\<close>

unbundle bit_operations_syntax

subsection \<open>Machine types\<close>

type_synonym u8 = "8 word"
type_synonym u16 = "16 word"
type_synonym u32 = "32 word"
type_synonym u64 = "64 word"

text \<open>An address of the flat, identity mapped address space and the bytes it holds.\<close>

type_synonym addr = "32 word"
type_synonym mem = "addr \<Rightarrow> u8"

text \<open>The contents of a C string: its bytes, without the terminating NUL.\<close>

type_synonym cstring = "u8 list"

text \<open>
  The value of a C \<^verbatim>\<open>int\<close> is a mathematical integer; where the code computes a
  value that can leave the 32-bit range the two's complement wrap-around of the
  target is written out with \<open>s32\<close>. A \<^verbatim>\<open>char\<close> is signed on this target.
\<close>

definition s32 :: "int \<Rightarrow> int" where
  "s32 x = signed_take_bit 31 x"

definition char_int :: "u8 \<Rightarrow> int" where
  "char_int c = sint c"

text \<open>A string literal of the source as bytes.\<close>

definition lit :: "string \<Rightarrow> cstring" where
  "lit s = map of_char s"

named_theorems word_nat \<open>words read as natural numbers\<close>
named_theorems region \<open>membership in a region of the address space\<close>

subsection \<open>Integers\<close>

lemma s32_id [simp]: "- 2147483648 \<le> x \<Longrightarrow> x < 2147483648 \<Longrightarrow> s32 x = x"
  unfolding s32_def by (rule signed_take_bit_int_eq_self) simp_all

lemma s32_range: "- 2147483648 \<le> s32 x \<and> s32 x < 2147483648"
  using signed_take_bit_int_greater_eq_minus_exp [of 31 x] signed_take_bit_int_less_exp [of 31 x]
  by (simp add: s32_def)

lemma char_int_range: "- 128 \<le> char_int c \<and> char_int c < 128"
  using sint_greater_eq [of c] sint_less [of c] by (simp add: char_int_def)

lemma char_int_inj [simp]: "char_int a = char_int b \<longleftrightarrow> a = b"
  by (metis char_int_def signed_word_eqI)

subsection \<open>Words as natural numbers\<close>

lemma unat_of_nat_lt [word_nat]:
  "n < 2 ^ LENGTH('a) \<Longrightarrow> unat (of_nat n :: 'a::len word) = n"
  by (simp add: unat_of_nat take_bit_nat_eq_self_iff)

lemma unat_pow2 [word_nat]: "k < LENGTH('a) \<Longrightarrow> unat (2 ^ k :: 'a::len word) = 2 ^ k"
proof -
  assume "k < LENGTH('a)"
  then have "(2::nat) ^ k < 2 ^ LENGTH('a)" by (intro power_strict_increasing) simp_all
  then show ?thesis using unat_of_nat_lt [of "2 ^ k", where 'a = 'a] by simp
qed

lemma unat_lt_32: "unat (a :: u32) < 4294967296"
  using unsigned_less [of a] by simp

lemma unat_lt_16: "unat (a :: u16) < 65536"
  using unsigned_less [of a] by simp

lemma unat_lt_8: "unat (a :: u8) < 256"
  using unsigned_less [of a] by simp

lemma unat_plus_lt: "unat x + unat y < 4294967296 \<Longrightarrow> unat (x + y :: u32) = unat x + unat y"
  by (simp add: unat_word_ariths)

lemma unat_mult_lt: "unat x * unat y < 4294967296 \<Longrightarrow> unat (x * y :: u32) = unat x * unat y"
  by (simp add: unat_word_ariths)

lemma unat_widen [simp]:
  "unat (ucast (x :: u16) :: u32) = unat x" "unat (ucast (y :: u8) :: u32) = unat y"
  using unat_lt_16 [of x] unat_lt_8 [of y] by (simp_all add: unsigned_ucast_eq take_bit_nat_eq_self)

subsection \<open>Regions of the address space\<close>

text \<open>
  The \<open>n\<close> bytes from \<open>p\<close>. The offset \<open>a - p\<close> is computed modulo the size of the
  address space, so a region may wrap around its end, as pointer arithmetic does.
\<close>

definition in_region :: "addr \<Rightarrow> nat \<Rightarrow> addr \<Rightarrow> bool" where
  "in_region p n a \<longleftrightarrow> unat (a - p) < n"

lemma in_region_0 [simp]: "\<not> in_region p 0 a"
  by (simp add: in_region_def)

lemma unat_diff_self_Suc:
  fixes a p :: addr
  assumes "a \<noteq> p"
  shows "unat (a - p) = Suc (unat (a - (p + 1)))"
proof -
  have nz: "a - p \<noteq> 0" using assms by simp
  then have "unat (a - (p + 1)) = unat (a - p) - 1"
    using unat_minus_one [OF nz] by (simp add: algebra_simps)
  moreover have "0 < unat (a - p)" using nz by (simp add: unat_gt_0)
  ultimately show ?thesis by simp
qed

lemma in_region_Suc [region]:
  "in_region p (Suc n) a \<longleftrightarrow> a = p \<or> in_region (p + 1) n a"
  by (cases "a = p") (simp_all add: in_region_def unat_diff_self_Suc)

lemma in_region_nth [region]:
  assumes "i < n" and "n \<le> 4294967296"
  shows "in_region p n (p + of_nat i)"
  using assms by (simp add: in_region_def unat_of_nat_lt)

lemma in_region_snoc [region]:
  assumes "n < 4294967296"
  shows "in_region p (Suc n) a \<longleftrightarrow> in_region p n a \<or> a = p + of_nat n"
proof -
  have "unat (a - p) = n \<longleftrightarrow> a = p + of_nat n"
  proof
    assume "unat (a - p) = n"
    then have "of_nat n = a - p" by auto
    then show "a = p + of_nat n" by simp
  next
    assume "a = p + of_nat n"
    with assms show "unat (a - p) = n" by (simp add: unat_of_nat_lt)
  qed
  then show ?thesis by (auto simp: in_region_def less_Suc_eq)
qed

lemma unat_add_no_wrap:
  "unat p + n < 4294967296 \<Longrightarrow> unat (p + of_nat n :: addr) = unat p + n"
  by (simp add: unat_word_ariths unat_of_nat take_bit_nat_def)

lemma not_in_region_next:
  assumes "n < 4294967296"
  shows "\<not> in_region (p + 1) n p"
proof -
  have "p - (p + 1) = (- 1 :: addr)" by simp
  then have "unat (p - (p + 1)) = 4294967295"
    by (simp add: unsigned_minus_1_eq_mask mask_eq_exp_minus_1)
  with assms show ?thesis by (simp add: in_region_def)
qed

lemma not_in_region_shift:
  "in_region (p + 1) n a \<Longrightarrow> n < 4294967296 \<Longrightarrow> a \<noteq> p"
  using not_in_region_next by auto

subsection \<open>Bytes and strings in memory\<close>

primrec bytes_at :: "mem \<Rightarrow> addr \<Rightarrow> u8 list \<Rightarrow> bool" where
  "bytes_at m p [] \<longleftrightarrow> True"
| "bytes_at m p (b # bs) \<longleftrightarrow> m p = b \<and> bytes_at m (p + 1) bs"

text \<open>Memory holds the NUL terminated string \<open>s\<close> at \<open>p\<close>.\<close>

primrec cstr :: "mem \<Rightarrow> addr \<Rightarrow> cstring \<Rightarrow> bool" where
  "cstr m p [] \<longleftrightarrow> m p = 0"
| "cstr m p (c # s) \<longleftrightarrow> c \<noteq> 0 \<and> m p = c \<and> cstr m (p + 1) s"

fun write_bytes :: "addr \<Rightarrow> u8 list \<Rightarrow> mem \<Rightarrow> mem" where
  "write_bytes p [] m = m"
| "write_bytes p (b # bs) m = write_bytes (p + 1) bs (m(p := b))"

lemma cstr_iff: "cstr m p s \<longleftrightarrow> bytes_at m p (s @ [0]) \<and> 0 \<notin> set s"
  by (induction s arbitrary: p) auto

lemma bytes_at_nth: "bytes_at m p bs \<longleftrightarrow> (\<forall>i<length bs. m (p + of_nat i) = bs ! i)"
proof (induction bs arbitrary: p)
  case (Cons b bs)
  have "(\<forall>i<length (b # bs). m (p + of_nat i) = (b # bs) ! i)
     \<longleftrightarrow> m p = b \<and> (\<forall>i<length bs. m (p + of_nat (Suc i)) = bs ! i)"
    by (auto simp: less_Suc_eq_0_disj simp del: of_nat_Suc)
  then show ?case using Cons by (simp add: add.assoc)
qed simp

lemma bytes_at_append:
  "bytes_at m p (xs @ ys) \<longleftrightarrow> bytes_at m p xs \<and> bytes_at m (p + of_nat (length xs)) ys"
  by (induction xs arbitrary: p) (auto simp: add.assoc)

lemma bytes_at_cong:
  "(\<And>a. in_region p (length bs) a \<Longrightarrow> m a = m' a) \<Longrightarrow> bytes_at m p bs = bytes_at m' p bs"
  by (induction bs arbitrary: p) (auto simp: in_region_Suc)

lemma bytes_at_upd [simp]:
  "\<not> in_region p (length bs) a \<Longrightarrow> bytes_at (m(a := v)) p bs = bytes_at m p bs"
  by (rule bytes_at_cong) auto

lemma cstr_cong:
  "(\<And>a. in_region p (Suc (length s)) a \<Longrightarrow> m a = m' a) \<Longrightarrow> cstr m p s = cstr m' p s"
  using bytes_at_cong [of p "s @ [0]" m m'] by (simp add: cstr_iff)

lemma cstr_upd [simp]:
  "\<not> in_region p (Suc (length s)) a \<Longrightarrow> cstr (m(a := v)) p s = cstr m p s"
  by (rule cstr_cong) auto

lemma cstr_drop: "cstr m p (s @ t) \<Longrightarrow> cstr m (p + of_nat (length s)) t"
  by (auto simp: cstr_iff bytes_at_append add.assoc)

lemma cstr_nz: "cstr m p s \<Longrightarrow> 0 \<notin> set s"
  by (simp add: cstr_iff)

lemma cstr_nth: "cstr m p s \<Longrightarrow> i < length s \<Longrightarrow> m (p + of_nat i) = s ! i"
  by (auto simp: cstr_iff bytes_at_nth nth_append)

lemma cstr_end: "cstr m p s \<Longrightarrow> m (p + of_nat (length s)) = 0"
  by (simp add: cstr_iff bytes_at_append)

lemma cstr_unique: "cstr m p s \<Longrightarrow> cstr m p t \<Longrightarrow> s = t"
proof (induction s arbitrary: p t)
  case Nil
  then show ?case by (cases t) auto
next
  case (Cons c s)
  then show ?case by (cases t) auto
qed

lemma write_bytes_outside: "\<not> in_region p (length bs) a \<Longrightarrow> write_bytes p bs m a = m a"
  by (induction bs arbitrary: p m) (auto simp: in_region_Suc)

lemma bytes_at_write: "length bs \<le> 4294967296 \<Longrightarrow> bytes_at (write_bytes p bs m) p bs"
  by (induction bs arbitrary: p m) (auto simp: write_bytes_outside not_in_region_next)

lemma write_bytes_append:
  "write_bytes p (xs @ ys) m = write_bytes (p + of_nat (length xs)) ys (write_bytes p xs m)"
  by (induction xs arbitrary: p m) (auto simp: add.assoc)

lemma cstr_write:
  "0 \<notin> set s \<Longrightarrow> length s < 4294967296 \<Longrightarrow> cstr (write_bytes p (s @ [0]) m) p s"
  using bytes_at_write [of "s @ [0]" p m] by (simp add: cstr_iff)

subsection \<open>Little endian loads and stores\<close>

definition bytes32 :: "u32 \<Rightarrow> u8 list" where
  "bytes32 v = [ucast v, ucast (drop_bit 8 v), ucast (drop_bit 16 v), ucast (drop_bit 24 v)]"

definition word32 :: "u8 \<Rightarrow> u8 \<Rightarrow> u8 \<Rightarrow> u8 \<Rightarrow> u32" where
  "word32 a b c d = ucast a OR push_bit 8 (ucast b) OR push_bit 16 (ucast c) OR push_bit 24 (ucast d)"

definition word16 :: "u8 \<Rightarrow> u8 \<Rightarrow> u16" where
  "word16 a b = ucast a OR push_bit 8 (ucast b)"

definition bytes16 :: "u16 \<Rightarrow> u8 list" where
  "bytes16 v = [ucast v, ucast (drop_bit 8 v)]"

text \<open>Little endian fields of a sector.\<close>

definition get32 :: "u8 list \<Rightarrow> nat \<Rightarrow> u32" where
  "get32 b i = word32 (b ! i) (b ! (i + 1)) (b ! (i + 2)) (b ! (i + 3))"

definition get16 :: "u8 list \<Rightarrow> nat \<Rightarrow> u16" where
  "get16 b i = word16 (b ! i) (b ! (i + 1))"

definition load32 :: "mem \<Rightarrow> addr \<Rightarrow> u32" where
  "load32 m p = word32 (m p) (m (p + 1)) (m (p + 2)) (m (p + 3))"

definition load16 :: "mem \<Rightarrow> addr \<Rightarrow> u16" where
  "load16 m p = word16 (m p) (m (p + 1))"

definition store32 :: "addr \<Rightarrow> u32 \<Rightarrow> mem \<Rightarrow> mem" where
  "store32 p v m = write_bytes p (bytes32 v) m"

lemma bit_byte_of:
  fixes v :: u32
  assumes "n < 32"
  shows "bit (push_bit k (ucast (ucast (drop_bit k v) :: u8)) :: u32) n \<longleftrightarrow> k \<le> n \<and> n < k + 8 \<and> bit v n"
  using assms by (cases "k \<le> n") (auto simp: bit_push_bit_iff bit_unsigned_iff bit_drop_bit_eq)

lemma word32_bytes: "word32 (ucast v) (ucast (drop_bit 8 v)) (ucast (drop_bit 16 v)) (ucast (drop_bit 24 v)) = v"
proof (rule bit_word_eqI)
  fix n
  assume "n < LENGTH(32)"
  then have n: "n < 32" by simp
  have "bit (ucast (ucast v :: u8) :: u32) n \<longleftrightarrow> n < 8 \<and> bit v n"
    using bit_byte_of [OF n, of 0 v] by simp
  moreover have "bit v n \<longleftrightarrow> n < 8 \<and> bit v n \<or> 8 \<le> n \<and> n < 16 \<and> bit v n \<or> 16 \<le> n \<and> n < 24 \<and> bit v n
      \<or> 24 \<le> n \<and> n < 32 \<and> bit v n" using n by linarith
  ultimately show "bit (word32 (ucast v) (ucast (drop_bit 8 v)) (ucast (drop_bit 16 v)) (ucast (drop_bit 24 v))) n
      \<longleftrightarrow> bit v n"
    by (simp only: word32_def bit_or_iff bit_byte_of [OF n]) simp
qed

lemma word16_bytes: "word16 (ucast v) (ucast (drop_bit 8 v)) = v"
proof (rule bit_word_eqI)
  fix n
  assume n: "n < LENGTH(16)"
  then have "n < 8 \<or> 8 \<le> n \<and> n < 16" by auto
  then show "bit (word16 (ucast v) (ucast (drop_bit 8 v))) n \<longleftrightarrow> bit v n"
    by (auto simp: word16_def bit_or_iff bit_push_bit_iff bit_unsigned_iff bit_drop_bit_eq)
qed

lemma load_store32 [simp]: "load32 (store32 p v m) p = v"
  by (simp add: load32_def store32_def bytes32_def word32_bytes)

lemma store32_outside: "\<not> in_region p 4 a \<Longrightarrow> store32 p v m a = m a"
proof -
  assume a: "\<not> in_region p 4 a"
  have "length (bytes32 v) = 4" by (simp add: bytes32_def)
  with a show ?thesis by (simp add: store32_def write_bytes_outside)
qed

lemma filter_split_at:
  assumes "i < length xs"
  shows "filter P xs = filter P (take i xs) @ (if P (xs ! i) then [xs ! i] else []) @ filter P (drop (Suc i) xs)"
    and "filter P (xs[i := x]) = filter P (take i xs) @ (if P x then [x] else []) @ filter P (drop (Suc i) xs)"
proof -
  show "filter P (xs[i := x]) = filter P (take i xs) @ (if P x then [x] else []) @ filter P (drop (Suc i) xs)"
    using upd_conv_take_nth_drop [OF assms, of x] by simp
  have "xs = take i xs @ xs ! i # drop (Suc i) xs" using assms by (rule id_take_nth_drop)
  then have "filter P xs = filter P (take i xs @ xs ! i # drop (Suc i) xs)" by (rule arg_cong)
  then show "filter P xs = filter P (take i xs) @ (if P (xs ! i) then [xs ! i] else []) @ filter P (drop (Suc i) xs)"
    by simp
qed

end
