(* ===== verification/Libc_Memory.thy ===== *)
theory Libc_Memory
  imports Prelude
begin

text \<open>
  The byte routines of the kernel's C library (\<^verbatim>\<open>lib/libc/string.c\<close>,
  \<^verbatim>\<open>lib/libc/stdlib.c\<close>): \<open>memcpy\<close>, \<open>memcmp\<close>, \<open>memset\<close> and \<open>memmove\<close> over the flat
  address space. Each operation takes the memory and returns the new one with
  the C return value; the null pointer is address 0.
\<close>

subsection \<open>The routines\<close>

text \<open>\<^verbatim>\<open>while (n--) *d++ = *s++\<close>\<close>

fun copy_fwd :: "nat \<Rightarrow> addr \<Rightarrow> addr \<Rightarrow> mem \<Rightarrow> mem" where
  "copy_fwd 0 d s m = m"
| "copy_fwd (Suc n) d s m = copy_fwd n (d + 1) (s + 1) (m(d := m s))"

text \<open>The count of \<^verbatim>\<open>memcpy\<close> is a \<^verbatim>\<open>uint16_t\<close>.\<close>

definition memcpy :: "addr \<Rightarrow> addr \<Rightarrow> u16 \<Rightarrow> mem \<Rightarrow> mem \<times> addr" where
  "memcpy dest src n m =
     (if dest = 0 \<or> src = 0 then (m, 0) else (copy_fwd (unat n) dest src m, dest))"

fun memcmp_loop :: "nat \<Rightarrow> addr \<Rightarrow> addr \<Rightarrow> mem \<Rightarrow> int" where
  "memcmp_loop 0 p1 p2 m = 0"
| "memcmp_loop (Suc n) p1 p2 m =
     (if m p1 \<noteq> m p2 then uint (m p1) - uint (m p2) else memcmp_loop n (p1 + 1) (p2 + 1) m)"

definition memcmp :: "addr \<Rightarrow> addr \<Rightarrow> u32 \<Rightarrow> mem \<Rightarrow> int" where
  "memcmp s1 s2 n m = (if s1 = 0 \<or> s2 = 0 then - 1 else memcmp_loop (unat n) s1 s2 m)"

fun fill :: "nat \<Rightarrow> addr \<Rightarrow> u8 \<Rightarrow> mem \<Rightarrow> mem" where
  "fill 0 p v m = m"
| "fill (Suc n) p v m = fill n (p + 1) v (m(p := v))"

definition memset :: "addr \<Rightarrow> int \<Rightarrow> u32 \<Rightarrow> mem \<Rightarrow> mem \<times> addr" where
  "memset ptr value num m =
     (if ptr = 0 then (m, 0) else (fill (unat num) ptr (word_of_int value) m, ptr))"

text \<open>\<^verbatim>\<open>for (i = n; i > 0; i--) d[i - 1] = s[i - 1]\<close>\<close>

fun copy_bwd :: "nat \<Rightarrow> addr \<Rightarrow> addr \<Rightarrow> mem \<Rightarrow> mem" where
  "copy_bwd 0 d s m = m"
| "copy_bwd (Suc n) d s m = copy_bwd n d s (m(d + of_nat n := m (s + of_nat n)))"

definition memmove :: "addr \<Rightarrow> addr \<Rightarrow> u32 \<Rightarrow> mem \<Rightarrow> mem \<times> addr" where
  "memmove dest src n m =
     (if dest = src \<or> n = 0 then (m, dest)
      else if dest < src \<or> dest \<ge> src + n then (copy_fwd (unat n) dest src m, dest)
      else (copy_bwd (unat n) dest src m, dest))"

text \<open>What a copy of a block is meant to do: read the whole source, then write it.\<close>

definition block_copy :: "nat \<Rightarrow> addr \<Rightarrow> addr \<Rightarrow> mem \<Rightarrow> mem" where
  "block_copy n d s m = (\<lambda>a. if in_region d n a then m (s + (a - d)) else m a)"

subsection \<open>Closed forms\<close>

lemma fill_eq:
  "n \<le> 4294967296 \<Longrightarrow> fill n p v m = (\<lambda>a. if in_region p n a then v else m a)"
  by (induction n arbitrary: p m) (auto simp: in_region_Suc fun_eq_iff)

text \<open>A byte outside the destination is never written, whatever the overlap.\<close>

lemma copy_fwd_outside: "\<not> in_region d n a \<Longrightarrow> copy_fwd n d s m a = m a"
  by (induction n arbitrary: d s m) (auto simp: in_region_Suc)

lemma copy_bwd_outside: "\<not> in_region d n a \<Longrightarrow> n \<le> 4294967296 \<Longrightarrow> copy_bwd n d s m a = m a"
proof (induction n arbitrary: m)
  case (Suc n)
  have "a \<noteq> d + of_nat n" using Suc.prems by (auto simp: in_region_nth)
  moreover have "\<not> in_region d n a" using Suc.prems by (simp add: in_region_def)
  ultimately show ?case using Suc by simp
qed simp

lemma copy_fwd_block:
  assumes "n \<le> unat (d - s)" and "n < 4294967296"
  shows "copy_fwd n d s m = block_copy n d s m"
  using assms
proof (induction n arbitrary: d s m)
  case 0
  then show ?case by (simp add: block_copy_def fun_eq_iff)
next
  case (Suc n)
  let ?m = "m(d := m s)"
  have IH: "copy_fwd n (d + 1) (s + 1) ?m = block_copy n (d + 1) (s + 1) ?m"
    using Suc by simp
  have next_byte: "a \<noteq> d \<and> s + (a - d) \<noteq> d" if "in_region (d + 1) n a" for a
  proof
    show "a \<noteq> d" using that Suc.prems not_in_region_next [of n d] by auto
    show "s + (a - d) \<noteq> d"
    proof
      assume "s + (a - d) = d"
      then have "a - d = d - s" by (simp add: algebra_simps)
      with Suc.prems have "Suc n \<le> unat (a - d)" by simp
      with \<open>a \<noteq> d\<close> have "n \<le> unat (a - (d + 1))" by (simp add: unat_diff_self_Suc)
      with that show False by (simp add: in_region_def)
    qed
  qed
  have shift: "s + 1 + (a - (d + 1)) = s + (a - d)" for a by simp
  show ?case
  proof
    fix a
    show "copy_fwd (Suc n) d s m a = block_copy (Suc n) d s m a"
      using next_byte [of a]
      by (simp only: copy_fwd.simps IH) (auto simp: block_copy_def in_region_Suc shift)
  qed
qed

text \<open>Copying backwards never reads a byte it has already written.\<close>

lemma copy_bwd_block:
  assumes "unat s < unat d" and "unat d + n \<le> 4294967296"
  shows "copy_bwd n d s m = block_copy n d s m"
  using assms(2)
proof (induction n arbitrary: m)
  case 0
  then show ?case by (simp add: block_copy_def fun_eq_iff)
next
  case (Suc n)
  let ?m = "m(d + of_nat n := m (s + of_nat n))"
  have IH: "copy_bwd n d s ?m = block_copy n d s ?m" using Suc by simp
  have unread: "s + (a - d) \<noteq> d + of_nat n" if "in_region d n a" for a
  proof
    assume eq: "s + (a - d) = d + of_nat n"
    define k where "k = unat (a - d)"
    have k: "k < n" "a - d = of_nat k" using that by (simp_all add: in_region_def k_def)
    have "unat (s + of_nat k) = unat s + k"
      using k Suc.prems assms(1) by (intro unat_add_no_wrap) simp
    moreover have "unat (d + of_nat n) = unat d + n"
      using Suc.prems by (intro unat_add_no_wrap) simp
    ultimately show False using eq k assms(1) by simp
  qed
  have "n < 4294967296" using Suc.prems assms(1) by simp
  then show ?case
    using unread by (simp add: IH block_copy_def in_region_snoc fun_eq_iff)
qed

subsection \<open>Overlapping forward copies\<close>

text \<open>
  A forward copy to a higher overlapping address repeats the first
  \<open>unat (d - s)\<close> bytes of the source through the destination.
\<close>

lemma copy_fwd_nth:
  assumes "unat (d - s) + n \<le> 4294967296" and "i < n"
  shows "copy_fwd n d s m (d + of_nat i) = m (s + of_nat (i mod unat (d - s)))"
  using assms
proof (induction i arbitrary: n d s m rule: less_induct)
  case (less i)
  obtain n' where n: "n = Suc n'" using less.prems by (cases n) auto
  let ?m = "m(d := m s)" and ?k = "unat (d - s)"
  show ?case
  proof (cases "d = s")
    case True
    have "copy_fwd n s s m a = m a" for a
      by (induction n arbitrary: s) simp_all
    then show ?thesis using True by simp
  next
    case False
    then have k: "0 < ?k" by (simp add: unat_gt_0)
    have lt: "n' < 4294967296" using less.prems n k by simp
    show ?thesis
    proof (cases i)
      case 0
      with n lt show ?thesis
        by (simp add: copy_fwd_outside not_in_region_next)
    next
      case (Suc j)
      have "copy_fwd n' (d + 1) (s + 1) ?m (d + 1 + of_nat j)
          = ?m (s + 1 + of_nat (j mod unat (d + 1 - (s + 1))))"
        using less.prems n Suc by (intro less.IH) auto
      then have step: "copy_fwd n d s m (d + of_nat i) = ?m (s + of_nat (Suc (j mod ?k)))"
        using n Suc by (simp add: algebra_simps)
      have bnd: "j mod ?k < ?k" using k by simp
      show ?thesis
      proof (cases "Suc (j mod ?k) = ?k")
        case True
        then have "s + of_nat (Suc (j mod ?k)) = d" by (simp only: True) simp
        moreover have "i mod ?k = 0" using True Suc by (simp add: mod_Suc)
        ultimately show ?thesis using step by simp
      next
        case False
        have "of_nat (Suc (j mod ?k)) \<noteq> d - s"
        proof
          assume "of_nat (Suc (j mod ?k)) = d - s"
          then have "unat (of_nat (Suc (j mod ?k)) :: addr) = ?k" by simp
          moreover have "Suc (j mod ?k) < 4294967296"
            using bnd unat_lt_32 [of "d - s"] by linarith
          ultimately show False
            using False unat_of_nat_lt [of "Suc (j mod ?k)", where 'a = 32]
            by (simp del: of_nat_Suc)
        qed
        then have "s + of_nat (Suc (j mod ?k)) \<noteq> d" by (auto simp: algebra_simps)
        moreover have "i mod ?k = Suc (j mod ?k)" using False Suc by (simp add: mod_Suc)
        ultimately show ?thesis using step by simp
      qed
    qed
  qed
qed

lemma memcmp_loop_eq: "\<forall>i<n. m (p + of_nat i) = m (q + of_nat i) \<Longrightarrow> memcmp_loop n p q m = 0"
proof (induction n arbitrary: p q)
  case (Suc n)
  have "m p = m q" using Suc.prems by (auto dest: spec [of _ 0])
  moreover have "\<forall>i<n. m (p + 1 + of_nat i) = m (q + 1 + of_nat i)"
    using Suc.prems by (auto simp: add.assoc simp flip: of_nat_Suc)
  ultimately show ?case using Suc.IH by simp
qed simp

lemma memcmp_loop_diff:
  assumes "i < n" and "m (p + of_nat i) \<noteq> m (q + of_nat i)"
    and "\<forall>j<i. m (p + of_nat j) = m (q + of_nat j)"
  shows "memcmp_loop n p q m = uint (m (p + of_nat i)) - uint (m (q + of_nat i))"
  using assms
proof (induction i arbitrary: n p q)
  case 0
  then show ?case by (cases n) simp_all
next
  case (Suc i)
  obtain n' where n: "n = Suc n'" using Suc.prems by (cases n) auto
  have "m p = m q" using Suc.prems(3) by (auto dest: spec [of _ 0])
  moreover have "memcmp_loop n' (p + 1) (q + 1) m
      = uint (m (p + 1 + of_nat i)) - uint (m (q + 1 + of_nat i))"
    using Suc.prems n by (intro Suc.IH) (auto simp: add.assoc simp flip: of_nat_Suc)
  ultimately show ?case using n by (simp add: add.assoc)
qed

subsection \<open>The direction of memmove is always safe\<close>

lemma memmove_block:
  assumes "unat src + unat n < 4294967296" and "unat dest + unat n \<le> 4294967296"
  shows "memmove dest src n m = (block_copy (unat n) dest src m, dest)"
proof (cases "dest = src \<or> n = 0")
  case True
  then have "block_copy (unat n) dest src m = m"
    by (auto simp: block_copy_def fun_eq_iff)
  with True show ?thesis by (simp add: memmove_def)
next
  case False
  have end_: "unat (src + n) = unat src + unat n"
    using unat_add_no_wrap [of src "unat n"] assms by simp
  have nlt: "unat n < 4294967296" by (rule unat_lt_32)
  show ?thesis
  proof (cases "dest < src \<or> dest \<ge> src + n")
    case True
    have "unat n \<le> unat (dest - src)"
    proof (cases "dest < src")
      case True
      then have "unat (dest - src) + unat (src - dest) = 4294967296"
        using unat_lt_32 [of src] False
        by (simp add: unat_sub_if_size word_less_nat_alt word_size)
      moreover have "unat (src - dest) \<le> unat src"
        using True by (simp add: unat_sub word_less_nat_alt word_le_nat_alt)
      ultimately show ?thesis using assms by linarith
    next
      case ge: False
      with True have "src + n \<le> dest" by simp
      then have "unat src + unat n \<le> unat dest" by (simp add: word_le_nat_alt end_)
      then show ?thesis by (simp add: unat_sub word_le_nat_alt)
    qed
    then show ?thesis
      using True False nlt by (simp add: memmove_def copy_fwd_block)
  next
    case overlap: False
    then have "unat src < unat dest"
      using False by (auto simp: word_less_nat_alt word_le_nat_alt not_less order_le_less
          simp del: word_unat_eq_iff simp flip: word_unat_eq_iff)
    then show ?thesis
      using overlap False assms by (simp add: memmove_def copy_bwd_block)
  qed
qed

subsection \<open>Properties\<close>

text \<open>
  C9. \<^verbatim>\<open>memmove\<close> moves the block as if through a temporary copy, whatever the overlap
  of source and destination: exactly the \<open>n\<close> bytes at the destination change, to
  what the source held before the call. Both regions have to lie below the end
  of the address space, as every pair of C objects does.
\<close>

theorem memmove_correct:
  assumes "unat src + unat n < 4294967296" and "unat dest + unat n \<le> 4294967296"
  shows "memmove dest src n m = (block_copy (unat n) dest src m, dest)"
  using assms by (rule memmove_block)

theorem memmove_correct_witness:
  "memmove 102 100 4 (\<lambda>a. ucast a) = (block_copy 4 102 100 (\<lambda>a. ucast a), 102)"
  using memmove_correct [of 100 4 102 "\<lambda>a. ucast a"] by simp

text \<open>
  \<^verbatim>\<open>memcpy\<close> copies forwards: byte \<open>i\<close> of the destination becomes byte
  \<open>i mod (d - s)\<close> of the source, hence the source itself when the regions are
  disjoint and a repetition of its first bytes when the destination overlaps
  above it, which is what the self test \<^verbatim>\<open>test_copy_overlapping\<close> observes;
  no other byte changes.
\<close>

theorem memcpy_forward:
  assumes "dest \<noteq> 0" and "src \<noteq> 0" and "unat (dest - src) + unat n \<le> 4294967296"
  shows "snd (memcpy dest src n m) = dest
    \<and> (\<forall>i<unat n. fst (memcpy dest src n m) (dest + of_nat i)
          = m (src + of_nat (i mod unat (dest - src))))
    \<and> (\<forall>a. \<not> in_region dest (unat n) a \<longrightarrow> fst (memcpy dest src n m) a = m a)"
  using assms by (simp add: memcpy_def copy_fwd_nth copy_fwd_outside)

theorem memcpy_forward_witness:
  "fst (memcpy 104 100 10 (\<lambda>a. ucast a)) 113 = 101"
  using memcpy_forward [of 104 100 10 "\<lambda>a. ucast a"] by (auto dest!: spec [of _ 9])

text \<open>
  \<^verbatim>\<open>memset\<close> writes the low byte of the value to exactly the \<open>n\<close> bytes at a
  non-null pointer and returns the pointer; a null pointer is refused.
\<close>

theorem memset_correct:
  "memset ptr value n m =
     ((\<lambda>a. if ptr \<noteq> 0 \<and> in_region ptr (unat n) a then word_of_int value else m a), ptr)"
  using unat_lt_32 [of n] by (auto simp: memset_def fill_eq fun_eq_iff)

text \<open>
  \<^verbatim>\<open>memcmp\<close> of two non-null pointers is 0 when no offset below \<open>n\<close> has different
  bytes and otherwise the difference of the first two bytes that differ; a null
  pointer gives -1.
\<close>

theorem memcmp_correct:
  "memcmp p q n m =
     (if p = 0 \<or> q = 0 then - 1
      else case find (\<lambda>i. m (p + of_nat i) \<noteq> m (q + of_nat i)) [0..<unat n] of
             None \<Rightarrow> 0
           | Some i \<Rightarrow> uint (m (p + of_nat i)) - uint (m (q + of_nat i)))"
proof (cases "find (\<lambda>i. m (p + of_nat i) \<noteq> m (q + of_nat i)) [0..<unat n]")
  case None
  then have "memcmp_loop (unat n) p q m = 0"
    by (simp add: find_None_iff memcmp_loop_eq)
  with None show ?thesis by (simp add: memcmp_def)
next
  case (Some i)
  then have "memcmp_loop (unat n) p q m = uint (m (p + of_nat i)) - uint (m (q + of_nat i))"
    by (auto simp: find_Some_iff intro!: memcmp_loop_diff)
  with Some show ?thesis by (simp add: memcmp_def)
qed

end
