(* ===== verification/Libc_String.thy ===== *)
theory Libc_String
  imports Libc_Memory "HOL-Library.Monad_Syntax"
begin

text \<open>
  The string routines of \<^verbatim>\<open>lib/libc/string.c\<close> over the flat memory. A loop that
  only ends at a NUL byte is a \<open>partial_function (option)\<close>, so that running off
  through the address space for ever is the value \<open>None\<close>; a loop bounded by a
  count recurses on the count. An out-parameter that the caller keeps in a local
  variable (\<^verbatim>\<open>saveptr\<close>, \<^verbatim>\<open>endptr\<close>) is returned instead of stored. The predicate
  \<open>cstr m p s\<close> says that memory holds the string \<open>s\<close> at \<open>p\<close>, and the lemmas refine
  each routine to a function on byte lists.
\<close>

subsection \<open>Character classes\<close>

definition tolower :: "int \<Rightarrow> int" where
  "tolower ch = (if ch \<ge> 65 \<and> ch \<le> 90 then ch - 65 + 97 else ch)"

definition toupper :: "int \<Rightarrow> int" where
  "toupper ch = (if ch \<ge> 97 \<and> ch \<le> 122 then ch - 97 + 65 else ch)"

definition isalnum :: "int \<Rightarrow> bool" where
  "isalnum c \<longleftrightarrow> (c \<ge> 65 \<and> c \<le> 90) \<or> (c \<ge> 97 \<and> c \<le> 122) \<or> (c \<ge> 48 \<and> c \<le> 57)"

definition isdigit :: "int \<Rightarrow> bool" where
  "isdigit c \<longleftrightarrow> c \<ge> 48 \<and> c \<le> 57"

definition isspace :: "int \<Rightarrow> bool" where
  "isspace c \<longleftrightarrow> c = 32 \<or> c = 9 \<or> c = 10 \<or> c = 13"

definition isalpha :: "int \<Rightarrow> bool" where
  "isalpha c \<longleftrightarrow> (c \<ge> 65 \<and> c \<le> 90) \<or> (c \<ge> 97 \<and> c \<le> 122)"

subsection \<open>Length, copy and concatenation\<close>

partial_function (option) strlen_loop :: "mem \<Rightarrow> addr \<Rightarrow> u32 \<Rightarrow> u32 option" where
  "strlen_loop m str len = (if m (str + len) \<noteq> 0 then strlen_loop m str (len + 1) else Some len)"

definition strlen :: "mem \<Rightarrow> addr \<Rightarrow> u32 option" where
  "strlen m str = strlen_loop m str 0"

partial_function (option) copy_string :: "addr \<Rightarrow> addr \<Rightarrow> mem \<Rightarrow> mem option" where
  "copy_string dest src m =
     (if m src \<noteq> 0 then copy_string (dest + 1) (src + 1) (m(dest := m src))
      else Some (m(dest := 0)))"

definition strcpy :: "addr \<Rightarrow> addr \<Rightarrow> mem \<Rightarrow> (mem \<times> addr) option" where
  "strcpy dest src m = do { m' \<leftarrow> copy_string dest src m; Some (m', dest) }"

text \<open>The first loop of \<^verbatim>\<open>strncpy\<close> copies, the second pads with NUL.\<close>

fun strncpy_loop :: "nat \<Rightarrow> addr \<Rightarrow> addr \<Rightarrow> mem \<Rightarrow> mem" where
  "strncpy_loop 0 d s m = m"
| "strncpy_loop (Suc k) d s m =
     (if m s \<noteq> 0 then strncpy_loop k (d + 1) (s + 1) (m(d := m s)) else fill (Suc k) d 0 m)"

definition strncpy :: "addr \<Rightarrow> addr \<Rightarrow> u32 \<Rightarrow> mem \<Rightarrow> mem \<times> addr" where
  "strncpy dest src num m = (strncpy_loop (unat num) dest src m, dest)"

partial_function (option) find_end :: "mem \<Rightarrow> addr \<Rightarrow> addr option" where
  "find_end m p = (if m p \<noteq> 0 then find_end m (p + 1) else Some p)"

definition strcat :: "addr \<Rightarrow> addr \<Rightarrow> mem \<Rightarrow> (mem \<times> addr) option" where
  "strcat dest src m = do {
     e \<leftarrow> find_end m dest;
     m' \<leftarrow> copy_string e src m;
     Some (m', dest) }"

fun strncat_loop :: "nat \<Rightarrow> addr \<Rightarrow> addr \<Rightarrow> mem \<Rightarrow> mem" where
  "strncat_loop 0 p s m = m(p := 0)"
| "strncat_loop (Suc k) p s m =
     (if m s \<noteq> 0 then strncat_loop k (p + 1) (s + 1) (m(p := m s)) else m(p := 0))"

definition strncat :: "addr \<Rightarrow> addr \<Rightarrow> u32 \<Rightarrow> mem \<Rightarrow> (mem \<times> addr) option" where
  "strncat dest src n m = do {
     len \<leftarrow> strlen m dest;
     Some (strncat_loop (unat n) (dest + len) src m, dest) }"

subsection \<open>Comparison and search\<close>

partial_function (option) strcmp_loop :: "mem \<Rightarrow> addr \<Rightarrow> addr \<Rightarrow> (addr \<times> addr) option" where
  "strcmp_loop m str1 str2 =
     (if m str1 \<noteq> 0 \<and> m str1 = m str2 then strcmp_loop m (str1 + 1) (str2 + 1)
      else Some (str1, str2))"

definition strcmp :: "mem \<Rightarrow> addr \<Rightarrow> addr \<Rightarrow> int option" where
  "strcmp m str1 str2 = do {
     (p, q) \<leftarrow> strcmp_loop m str1 str2;
     Some (uint (m p) - uint (m q)) }"

text \<open>
  \<^verbatim>\<open>while (n-- && ...)\<close>: the loop leaves \<open>n\<close> at -1 when the count ran out; \<open>eq\<close> is
  the comparison of the two bytes.
\<close>

fun strn_loop :: "(u8 \<Rightarrow> u8 \<Rightarrow> bool) \<Rightarrow> mem \<Rightarrow> nat \<Rightarrow> addr \<Rightarrow> addr \<Rightarrow> u32 \<times> addr \<times> addr" where
  "strn_loop eq m 0 p q = (- 1, p, q)"
| "strn_loop eq m (Suc n) p q =
     (if m p \<noteq> 0 \<and> eq (m p) (m q) then strn_loop eq m n (p + 1) (q + 1) else (of_nat n, p, q))"

definition strncmp :: "mem \<Rightarrow> addr \<Rightarrow> addr \<Rightarrow> u32 \<Rightarrow> int" where
  "strncmp m str1 str2 n =
     (let (n', p, q) = strn_loop (=) m (unat n) str1 str2
      in if n' = - 1 then 0 else uint (m p) - uint (m q))"

definition strncasecmp :: "mem \<Rightarrow> addr \<Rightarrow> addr \<Rightarrow> u32 \<Rightarrow> int" where
  "strncasecmp m str1 str2 n =
     (let (n', p, q) = strn_loop (\<lambda>a b. tolower (uint a) = tolower (uint b)) m (unat n) str1 str2
      in if n' = - 1 then 0 else tolower (uint (m p)) - tolower (uint (m q)))"

partial_function (option) strchr :: "mem \<Rightarrow> addr \<Rightarrow> int \<Rightarrow> addr option" where
  "strchr m str c =
     (if m str \<noteq> 0 then (if char_int (m str) = c then Some str else strchr m (str + 1) c)
      else Some (if c = 0 then str else 0))"

partial_function (option) map_string :: "(int \<Rightarrow> int) \<Rightarrow> addr \<Rightarrow> u32 \<Rightarrow> mem \<Rightarrow> mem option" where
  "map_string f str i m =
     (if m (str + i) \<noteq> 0
      then map_string f str (i + 1) (m(str + i := word_of_int (f (char_int (m (str + i))))))
      else Some m)"

definition str_to_lower :: "addr \<Rightarrow> mem \<Rightarrow> mem option" where
  "str_to_lower str m = (if str = 0 then Some m else map_string tolower str 0 m)"

definition str_to_upper :: "addr \<Rightarrow> mem \<Rightarrow> mem option" where
  "str_to_upper str m = (if str = 0 then Some m else map_string toupper str 0 m)"

text \<open>The inner loops of \<^verbatim>\<open>strspn\<close> and \<^verbatim>\<open>strcspn\<close>: is the byte in the set?\<close>

partial_function (option) in_set :: "mem \<Rightarrow> addr \<Rightarrow> u8 \<Rightarrow> bool option" where
  "in_set m a c =
     (if m a \<noteq> 0 then (if c = m a then Some True else in_set m (a + 1) c) else Some False)"

partial_function (option) strspn_loop :: "mem \<Rightarrow> addr \<Rightarrow> addr \<Rightarrow> addr \<Rightarrow> u32 option" where
  "strspn_loop m str1 str2 p =
     (if m p \<noteq> 0
      then do {
        b \<leftarrow> in_set m str2 (m p);
        (if b then strspn_loop m str1 str2 (p + 1) else Some (p - str1)) }
      else Some (p - str1))"

definition strspn :: "mem \<Rightarrow> addr \<Rightarrow> addr \<Rightarrow> u32 option" where
  "strspn m str1 str2 = strspn_loop m str1 str2 str1"

partial_function (option) strcspn_loop :: "mem \<Rightarrow> addr \<Rightarrow> addr \<Rightarrow> addr \<Rightarrow> u32 option" where
  "strcspn_loop m str1 str2 p =
     (if m p \<noteq> 0
      then do {
        b \<leftarrow> in_set m str2 (m p);
        (if b then Some (p - str1) else strcspn_loop m str1 str2 (p + 1)) }
      else Some (p - str1))"

definition strcspn :: "mem \<Rightarrow> addr \<Rightarrow> addr \<Rightarrow> u32 option" where
  "strcspn m str1 str2 = strcspn_loop m str1 str2 str1"

text \<open>The result pairs the token with the new value of \<^verbatim>\<open>*saveptr\<close>.\<close>

definition strtok_r :: "addr \<Rightarrow> addr \<Rightarrow> addr \<Rightarrow> mem \<Rightarrow> (mem \<times> addr \<times> addr) option" where
  "strtok_r str delim saveptr m = do {
     let str = (if str = 0 then saveptr else str);
     k \<leftarrow> strspn m str delim;
     let str = str + k;
     if m str = 0 then Some (m, 0, str)
     else do {
       l \<leftarrow> strcspn m str delim;
       let e = str + l;
       if m e = 0 then Some (m, str, e)
       else Some (m(e := 0), str, e + 1) } }"

partial_function (option) match_loop :: "mem \<Rightarrow> addr \<Rightarrow> addr \<Rightarrow> addr option" where
  "match_loop m h n =
     (if m h \<noteq> 0 \<and> m n \<noteq> 0 \<and> m h = m n then match_loop m (h + 1) (n + 1) else Some n)"

partial_function (option) strstr_loop :: "mem \<Rightarrow> addr \<Rightarrow> addr \<Rightarrow> addr option" where
  "strstr_loop m h needle =
     (if m h \<noteq> 0
      then do {
        n \<leftarrow> match_loop m h needle;
        (if m n = 0 then Some h else strstr_loop m (h + 1) needle) }
      else Some 0)"

definition strstr :: "mem \<Rightarrow> addr \<Rightarrow> addr \<Rightarrow> addr option" where
  "strstr m haystack needle =
     (if m needle = 0 then Some haystack else strstr_loop m haystack needle)"

text \<open>
  \<^verbatim>\<open>strtok\<close> keeps \<^verbatim>\<open>last\<close> in a static variable, passed and returned here. Its two
  scans ask \<^verbatim>\<open>strchr\<close> whether the byte is a delimiter.
\<close>

partial_function (option) strtok_scan :: "mem \<Rightarrow> addr \<Rightarrow> bool \<Rightarrow> addr \<Rightarrow> addr option" where
  "strtok_scan m delimiters skip lst =
     (if m lst \<noteq> 0
      then do {
        c \<leftarrow> strchr m delimiters (char_int (m lst));
        (if (c \<noteq> 0) = skip then strtok_scan m delimiters skip (lst + 1) else Some lst) }
      else Some lst)"

definition strtok :: "addr \<Rightarrow> addr \<Rightarrow> addr \<Rightarrow> mem \<Rightarrow> (mem \<times> addr \<times> addr) option" where
  "strtok str delimiters lst m =
     (if str = 0 \<and> lst = 0 then Some (m, 0, lst)
      else do {
        lst \<leftarrow> strtok_scan m delimiters True (if str \<noteq> 0 then str else lst);
        if m lst = 0 then Some (m, 0, 0)
        else do {
          e \<leftarrow> strtok_scan m delimiters False lst;
          if m e \<noteq> 0 then Some (m(e := 0), lst, e + 1) else Some (m, lst, 0) } })"

subsection \<open>Trimming\<close>

fun trim_back :: "(u8 \<Rightarrow> bool) \<Rightarrow> addr \<Rightarrow> nat \<Rightarrow> mem \<Rightarrow> mem" where
  "trim_back P str 0 m = m"
| "trim_back P str (Suc k) m =
     (if P (m (str + of_nat k)) then trim_back P str k (m(str + of_nat k := 0)) else m)"

definition trim_trailing_spaces :: "addr \<Rightarrow> mem \<Rightarrow> mem option" where
  "trim_trailing_spaces str m = do {
     len \<leftarrow> strlen m str;
     Some (trim_back (\<lambda>c. isspace (uint c)) str (nat (s32 (uint len))) m) }"

definition str_trim_end :: "addr \<Rightarrow> u8 \<Rightarrow> mem \<Rightarrow> mem option" where
  "str_trim_end str ch m = do {
     len \<leftarrow> strlen m str;
     Some (trim_back (\<lambda>c. c = ch) str (unat len) m) }"

definition normalize_string :: "addr \<Rightarrow> addr \<Rightarrow> u32 \<Rightarrow> mem \<Rightarrow> mem" where
  "normalize_string dest src len m =
     (let m = copy_fwd (unat len) dest src m;
          m = trim_back (\<lambda>c. c = 32) dest (unat len) m
      in m(dest + len := 0))"

text \<open>\<^verbatim>\<open>str_trim_spaces\<close> drops every space and NUL of the first \<^verbatim>\<open>max_len\<close> bytes.\<close>

fun squeeze :: "nat \<Rightarrow> addr \<Rightarrow> addr \<Rightarrow> mem \<Rightarrow> mem" where
  "squeeze 0 inp out m = m(out := 0)"
| "squeeze (Suc k) inp out m =
     (if m inp \<noteq> 32 \<and> m inp \<noteq> 0 then squeeze k (inp + 1) (out + 1) (m(out := m inp))
      else squeeze k (inp + 1) out m)"

definition str_trim_spaces :: "addr \<Rightarrow> addr \<Rightarrow> int \<Rightarrow> mem \<Rightarrow> mem" where
  "str_trim_spaces input output max_len m = squeeze (nat max_len) input output m"

subsection \<open>Numbers\<close>

text \<open>
  The digits of \<^verbatim>\<open>strtoul\<close>: \<^verbatim>\<open>result\<close>, \<^verbatim>\<open>cutoff\<close> and \<^verbatim>\<open>cutlim\<close> are signed \<^verbatim>\<open>int\<close>s although the
  function returns an \<^verbatim>\<open>unsigned long\<close>.
\<close>

partial_function (option) strtoul_loop ::
    "mem \<Rightarrow> int \<Rightarrow> int \<Rightarrow> int \<Rightarrow> addr \<Rightarrow> int \<Rightarrow> (int \<times> addr) option" where
  "strtoul_loop m base cutoff cutlim str result =
     (let c = uint (m str);
          digit = (if isdigit c then char_int (m str) - 48 else toupper c - 65 + 10)
      in if m str = 0 \<or> \<not> (isdigit c \<or> isalpha c) \<or> digit \<ge> base then Some (result, str)
         else if result > cutoff \<or> (result = cutoff \<and> digit > cutlim) then Some (s32 4294967295, str)
         else strtoul_loop m base cutoff cutlim (str + 1) (s32 (result * base + digit)))"

partial_function (option) skip_space :: "mem \<Rightarrow> addr \<Rightarrow> addr option" where
  "skip_space m str = (if isspace (uint (m str)) then skip_space m (str + 1) else Some str)"

text \<open>
  The result pairs the value with \<^verbatim>\<open>*endptr\<close>. The limits are computed by dividing
  by \<^verbatim>\<open>base\<close> before a base of 0 is replaced by 8, 10 or 16, so that base 0 raises
  the processor's divide error, \<open>None\<close> here.
\<close>

definition strtoul :: "mem \<Rightarrow> addr \<Rightarrow> int \<Rightarrow> (u32 \<times> addr) option" where
  "strtoul m str base =
     (if base \<noteq> 0 \<and> (base < 2 \<or> base > 36) then Some (0, str)
      else if base = 0 then None
      else do {
        let cutoff = s32 (4294967295 div base);
        let cutlim = s32 (4294967295 mod base);
        str \<leftarrow> skip_space m str;
        (result, e) \<leftarrow> strtoul_loop m base cutoff cutlim str 0;
        Some (word_of_int result, e) })"

subsection \<open>Reference functions on byte lists\<close>

fun cmp :: "cstring \<Rightarrow> cstring \<Rightarrow> int" where
  "cmp [] [] = 0"
| "cmp [] (y # ys) = - uint y"
| "cmp (x # xs) [] = uint x"
| "cmp (x # xs) (y # ys) = (if x = y then cmp xs ys else uint x - uint y)"

text \<open>The next token of a string and what is left after its delimiter.\<close>

definition next_token :: "u8 set \<Rightarrow> cstring \<Rightarrow> (cstring \<times> cstring) option" where
  "next_token D s =
     (let s' = dropWhile (\<lambda>c. c \<in> D) s;
          t = takeWhile (\<lambda>c. c \<notin> D) s'
      in if s' = [] then None else Some (t, drop (Suc (length t)) s'))"

subsection \<open>Refinement of the routines\<close>

lemmas string_loops = strlen_loop.simps find_end.simps copy_string.simps strcmp_loop.simps
  strchr.simps in_set.simps strspn_loop.simps strcspn_loop.simps match_loop.simps

lemma strlen_loop_cstr:
  "cstr m (p + l) s \<Longrightarrow> strlen_loop m p l = Some (l + of_nat (length s))"
  by (induction s arbitrary: l) (simp_all add: strlen_loop.simps add.assoc)

lemma strlen_cstr: "cstr m p s \<Longrightarrow> strlen m p = Some (of_nat (length s))"
  by (simp add: strlen_def strlen_loop_cstr)

lemma find_end_cstr: "cstr m p s \<Longrightarrow> find_end m p = Some (p + of_nat (length s))"
  by (induction s arbitrary: p) (simp_all add: find_end.simps add.assoc)

lemma strcmp_loop_cstr:
  "cstr m p s \<Longrightarrow> cstr m q t \<Longrightarrow>
     \<exists>p' q'. strcmp_loop m p q = Some (p', q') \<and> uint (m p') - uint (m q') = cmp s t"
proof (induction s t arbitrary: p q rule: cmp.induct)
  case (4 x xs y ys)
  then show ?case by (auto simp: strcmp_loop.simps [of m p q])
qed (auto simp: strcmp_loop.simps)

lemma strcmp_cstr: "cstr m p s \<Longrightarrow> cstr m q t \<Longrightarrow> strcmp m p q = Some (cmp s t)"
  using strcmp_loop_cstr [of m p s q t] by (auto simp: strcmp_def)

lemma uint_eq_0 [simp]: "uint (a :: u8) = 0 \<longleftrightarrow> a = 0"
  by (simp add: unsigned_eq_0_iff)

lemma uint_inject8 [simp]: "uint (a :: u8) = uint b \<longleftrightarrow> a = b"
  by (simp add: word_uint_eq_iff)

lemma cmp_eq_0: "0 \<notin> set s \<Longrightarrow> 0 \<notin> set t \<Longrightarrow> cmp s t = 0 \<longleftrightarrow> s = t"
  by (induction s t rule: cmp.induct) auto

lemma of_nat_neq_minus_1:
  assumes "Suc n < 4294967296"
  shows "(of_nat n :: u32) \<noteq> - 1"
proof
  assume "(of_nat n :: u32) = - 1"
  then have "unat (of_nat n :: u32) = unat (- 1 :: u32)" by simp
  with assms show False
    by (simp add: unat_of_nat_lt unsigned_minus_1_eq_mask mask_eq_exp_minus_1)
qed

lemma strn_loop_cstr:
  assumes "cstr m p s" and "cstr m q t" and "n < 4294967296"
  shows "\<exists>n' p' q'. strn_loop (=) m n p q = (n', p', q')
    \<and> (if n' = - 1 then 0 else uint (m p') - uint (m q')) = cmp (take n s) (take n t)"
  using assms
proof (induction n arbitrary: p q s t)
  case (Suc n)
  then show ?case
    using of_nat_neq_minus_1 [of n] by (cases s; cases t) auto
qed simp

lemma strncmp_cstr:
  "cstr m p s \<Longrightarrow> cstr m q t \<Longrightarrow>
     strncmp m p q n = cmp (take (unat n) s) (take (unat n) t)"
  using strn_loop_cstr [of m p s q t "unat n"] unat_lt_32 [of n]
  by (auto simp: strncmp_def)

lemma strchr_cstr:
  "cstr m p s \<Longrightarrow> strchr m p c =
     (let k = length (takeWhile (\<lambda>x. char_int x \<noteq> c) s)
      in Some (if k < length s \<or> c = 0 then p + of_nat k else 0))"
proof (induction s arbitrary: p)
  case (Cons x s)
  then show ?case
    by (subst strchr.simps) (auto simp: Let_def add.assoc)
qed (simp add: strchr.simps)

lemma in_set_cstr: "cstr m a d \<Longrightarrow> c \<noteq> 0 \<Longrightarrow> in_set m a c = Some (c \<in> set d)"
  by (induction d arbitrary: a) (auto simp: in_set.simps)

lemma strspn_loop_cstr:
  "cstr m q s \<Longrightarrow> cstr m a d \<Longrightarrow>
     strspn_loop m p a q = Some (q - p + of_nat (length (takeWhile (\<lambda>c. c \<in> set d) s)))"
proof (induction s arbitrary: q)
  case (Cons x s)
  then show ?case
    by (subst strspn_loop.simps) (simp add: in_set_cstr add_diff_eq algebra_simps)
qed (simp add: strspn_loop.simps)

lemma strcspn_loop_cstr:
  "cstr m q s \<Longrightarrow> cstr m a d \<Longrightarrow>
     strcspn_loop m p a q = Some (q - p + of_nat (length (takeWhile (\<lambda>c. c \<notin> set d) s)))"
proof (induction s arbitrary: q)
  case (Cons x s)
  then show ?case
    by (subst strcspn_loop.simps) (simp add: in_set_cstr add_diff_eq algebra_simps)
qed (simp add: strcspn_loop.simps)

lemma strspn_cstr:
  "cstr m p s \<Longrightarrow> cstr m a d \<Longrightarrow>
     strspn m p a = Some (of_nat (length (takeWhile (\<lambda>c. c \<in> set d) s)))"
  by (simp add: strspn_def strspn_loop_cstr)

lemma strcspn_cstr:
  "cstr m p s \<Longrightarrow> cstr m a d \<Longrightarrow>
     strcspn m p a = Some (of_nat (length (takeWhile (\<lambda>c. c \<notin> set d) s)))"
  by (simp add: strcspn_def strcspn_loop_cstr)

text \<open>Writing a NUL over a byte of a string splits it in two.\<close>

lemma cstr_split:
  assumes "cstr m p (t @ c # r)" and "Suc (length (t @ c # r)) \<le> 4294967296"
  defines "e \<equiv> p + of_nat (length t)"
  shows "cstr (m(e := 0)) p t" and "cstr (m(e := 0)) (e + 1) r"
proof -
  have t: "bytes_at m p t" "0 \<notin> set t"
    using assms by (auto simp: cstr_iff bytes_at_append)
  have r: "cstr m (e + 1) r"
    using cstr_drop [of m p "t @ [c]" r] assms(1) by (simp add: e_def ac_simps)
  have "\<not> in_region p (length t) e"
    using assms by (simp add: e_def in_region_def unat_of_nat_lt)
  then have "bytes_at (m(e := 0)) p t"
    using t(1) by simp
  then show "cstr (m(e := 0)) p t"
    using t(2) by (simp add: cstr_iff bytes_at_append e_def)
  have "\<not> in_region (e + 1) (Suc (length r)) e"
    using assms(2) by (intro not_in_region_next) simp
  then show "cstr (m(e := 0)) (e + 1) r" using r by simp
qed

lemma in_region_mono: "in_region p n a \<Longrightarrow> n \<le> n' \<Longrightarrow> in_region p n' a"
  by (simp add: in_region_def)

text \<open>A copy of a string to a place it does not overlap.\<close>

lemma copy_string_cstr:
  "cstr m src s \<Longrightarrow>
   (\<And>a. in_region src (Suc (length s)) a \<Longrightarrow> \<not> in_region dest (Suc (length s)) a) \<Longrightarrow>
   copy_string dest src m = Some (write_bytes dest (s @ [0]) m)"
proof (induction s arbitrary: dest src m)
  case Nil
  then show ?case by (simp add: copy_string.simps fun_upd_def)
next
  case (Cons c s)
  have apart: "\<not> in_region dest (Suc (Suc (length s))) a" if "in_region src (Suc (Suc (length s))) a" for a
    using Cons.prems(2) that by simp
  have "\<not> in_region (src + 1) (Suc (length s)) dest"
    using apart [of dest] by (auto simp: in_region_Suc)
  then have "cstr (m(dest := c)) (src + 1) s" using Cons.prems(1) by simp
  moreover have "\<not> in_region (dest + 1) (Suc (length s)) a" if "in_region (src + 1) (Suc (length s)) a" for a
    using apart [of a] that by (auto simp: in_region_Suc)
  ultimately have "copy_string (dest + 1) (src + 1) (m(dest := c))
      = Some (write_bytes (dest + 1) (s @ [0]) (m(dest := c)))"
    by (rule Cons.IH)
  then show ?case using Cons.prems(1) by (subst copy_string.simps) simp
qed

lemma match_loop_cstr:
  "cstr m h s \<Longrightarrow> cstr m n t \<Longrightarrow>
     \<exists>n'. match_loop m h n = Some n' \<and> (m n' = 0 \<longleftrightarrow> take (length t) s = t)"
proof (induction t arbitrary: h n s)
  case Nil
  then show ?case by (auto simp: match_loop.simps [of m h n])
next
  case (Cons c t)
  then show ?case by (cases s) (auto simp: match_loop.simps [of m h n])
qed

lemma strstr_loop_cstr:
  "cstr m h s \<Longrightarrow> cstr m n t \<Longrightarrow> t \<noteq> [] \<Longrightarrow>
     strstr_loop m h n =
       Some (case find (\<lambda>i. take (length t) (drop i s) = t) [0..<length s] of
               Some i \<Rightarrow> h + of_nat i | None \<Rightarrow> 0)"
proof (induction s arbitrary: h)
  case Nil
  then show ?case by (simp add: strstr_loop.simps)
next
  case (Cons c s)
  obtain n' where n': "match_loop m h n = Some n'" "m n' = 0 \<longleftrightarrow> take (length t) (c # s) = t"
    using match_loop_cstr [OF Cons.prems(1,2)] by blast
  have upt: "[0..<length (c # s)] = 0 # map Suc [0..<length s]"
    by (simp add: upt_conv_Cons map_Suc_upt del: upt_Suc)
  have find_Suc: "find P (map Suc xs) = map_option Suc (find (\<lambda>i. P (Suc i)) xs)" for P xs
    by (induction xs) auto
  have IH: "strstr_loop m (h + 1) n =
      Some (case find (\<lambda>i. take (length t) (drop i s) = t) [0..<length s] of
              Some i \<Rightarrow> h + 1 + of_nat i | None \<Rightarrow> 0)"
    using Cons by simp
  show ?case
    using Cons.prems n' unfolding upt find.simps(2) find_Suc
    by (subst strstr_loop.simps) (simp add: IH add.assoc split: option.splits)
qed

subsection \<open>Properties\<close>

text \<open>
  \<^verbatim>\<open>strcmp\<close> and \<^verbatim>\<open>strncmp\<close> return on every pair of strings; the result is 0 exactly
  for equal strings (for \<^verbatim>\<open>strncmp\<close>, equal in their first \<open>n\<close> bytes), and is
  otherwise the difference of the first unequal bytes read as unsigned.
\<close>

theorem strcmp_strncmp_correct:
  assumes "cstr m p s" and "cstr m q t"
  shows "strcmp m p q = Some (cmp s t)
    \<and> strncmp m p q n = cmp (take (unat n) s) (take (unat n) t)
    \<and> (strcmp m p q = Some 0 \<longleftrightarrow> s = t)
    \<and> (strncmp m p q n = 0 \<longleftrightarrow> take (unat n) s = take (unat n) t)"
proof -
  have "0 \<notin> set s" "0 \<notin> set t" using assms by (auto dest: cstr_nz)
  moreover from this have "0 \<notin> set (take k s)" "0 \<notin> set (take k t)" for k
    by (auto dest: in_set_takeD)
  ultimately show ?thesis
    using assms by (simp add: strcmp_cstr strncmp_cstr cmp_eq_0)
qed

theorem strcmp_strncmp_correct_witness:
  "strncmp (write_bytes 200 (lit ''abd'' @ [0]) (write_bytes 100 (lit ''abc'' @ [0]) (\<lambda>_. 0))) 100 200 2 = 0"
proof -
  let ?m = "write_bytes 200 (lit ''abd'' @ [0]) (write_bytes 100 (lit ''abc'' @ [0]) (\<lambda>_. 0))"
  have "cstr ?m 100 (lit ''abc'')" "cstr ?m 200 (lit ''abd'')" by (simp_all add: lit_def)
  from strcmp_strncmp_correct [OF this, of 2] show ?thesis by (simp add: lit_def)
qed

text \<open>
  \<^verbatim>\<open>strtok_r\<close> cuts the next token off a string: the token is the longest run of
  non-delimiters after any delimiters, it is terminated in place, \<^verbatim>\<open>*saveptr\<close> is
  left at the rest of the string, and no byte outside the string changes. A
  string of delimiters only gives NULL and no write.
\<close>

theorem strtok_r_correct:
  assumes "cstr m str s" and "cstr m delim d" and "str \<noteq> 0"
    and "unat str + length s < 4294967296"
  shows "case next_token (set d) s of
      None \<Rightarrow> \<exists>e. strtok_r str delim sp m = Some (m, 0, e) \<and> cstr m e []
    | Some (t, rest) \<Rightarrow> \<exists>m' p e. strtok_r str delim sp m = Some (m', p, e)
        \<and> p \<noteq> 0 \<and> cstr m' p t \<and> cstr m' e rest
        \<and> (\<forall>a. \<not> in_region str (Suc (length s)) a \<longrightarrow> m' a = m a)"
proof -
  define pre where "pre = takeWhile (\<lambda>c. c \<in> set d) s"
  define s' where "s' = dropWhile (\<lambda>c. c \<in> set d) s"
  define t where "t = takeWhile (\<lambda>c. c \<notin> set d) s'"
  define r where "r = dropWhile (\<lambda>c. c \<notin> set d) s'"
  define p where "p = str + of_nat (length pre)"
  define e where "e = p + of_nat (length t)"
  have s: "s = pre @ s'" "s' = t @ r" by (simp_all add: pre_def s'_def t_def r_def)
  have p: "cstr m p s'" using cstr_drop assms(1) s p_def by simp
  then have e: "cstr m e r" using cstr_drop s e_def by blast
  have p0: "p \<noteq> 0"
  proof -
    have "unat p = unat str + length pre"
      unfolding p_def using assms(4) s by (intro unat_add_no_wrap) simp
    with assms(3) show ?thesis by (auto simp: unat_eq_0)
  qed
  have body: "strtok_r str delim sp m =
      (if m p = 0 then Some (m, 0, p)
       else if m e = 0 then Some (m, p, e) else Some (m(e := 0), p, e + 1))"
    using assms(3) strspn_cstr [OF assms(1,2)] strcspn_cstr [OF p assms(2)]
    by (simp add: strtok_r_def pre_def [symmetric] p_def [symmetric] t_def [symmetric]
        e_def [symmetric] del: unsigned_eq_0_iff)
  have tok: "next_token (set d) s = (if s' = [] then None else Some (t, drop (Suc (length t)) s'))"
    unfolding next_token_def s'_def [symmetric] t_def [symmetric] Let_def ..
  show ?thesis
  proof (cases "s' = []")
    case True
    then show ?thesis using p body tok by simp
  next
    case False
    then have mp: "m p \<noteq> 0" using p by (cases s') auto
    show ?thesis
    proof (cases r)
      case Nil
      have "drop (Suc (length t)) s' = []" using Nil s by simp
      moreover have "cstr m p t" using Nil s p by simp
      moreover have "m e = 0" using e Nil by simp
      ultimately show ?thesis
        using False tok body mp p0 by simp
    next
      case (Cons c r')
      have split: "cstr (m(e := 0)) p t" "cstr (m(e := 0)) (e + 1) r'"
        using cstr_split [of m p t c r'] p s Cons assms(4) by (simp_all add: e_def)
      have "in_region str (Suc (length s)) (str + of_nat (length pre + length t))"
        using s Cons assms(4) by (intro in_region_nth) simp_all
      then have "in_region str (Suc (length s)) e" by (simp add: e_def p_def add.assoc)
      moreover have "m e \<noteq> 0" using e Cons by simp
      moreover have "drop (Suc (length t)) s' = r'" using s Cons by simp
      ultimately show ?thesis
        using False tok body mp p0 split by auto
    qed
  qed
qed

theorem strtok_r_correct_witness:
  "\<exists>m' p e. strtok_r 100 200 0
      (write_bytes 200 (lit '' '' @ [0]) (write_bytes 100 (lit '' ls hd'' @ [0]) (\<lambda>_. 0))) = Some (m', p, e)
     \<and> cstr m' p (lit ''ls'') \<and> cstr m' e (lit ''hd'')"
proof -
  let ?m = "write_bytes 200 (lit '' '' @ [0]) (write_bytes 100 (lit '' ls hd'' @ [0]) (\<lambda>_. 0))"
  have m: "cstr ?m 100 (lit '' ls hd'')" "cstr ?m 200 (lit '' '')" by (simp_all add: lit_def)
  have "next_token (set (lit '' '')) (lit '' ls hd'') = Some (lit ''ls'', lit ''hd'')"
    by (simp add: next_token_def lit_def)
  with strtok_r_correct [OF m, of 0] show ?thesis by (auto simp: lit_def)
qed

text \<open>
  \<^verbatim>\<open>strstr\<close> returns the first position at which the needle occurs in the
  haystack, the haystack for an empty needle, and NULL when there is none.
\<close>

theorem strstr_correct:
  assumes "cstr m h s" and "cstr m n t"
  shows "strstr m h n =
    Some (if t = [] then h
          else case find (\<lambda>i. take (length t) (drop i s) = t) [0..<length s] of
                 Some i \<Rightarrow> h + of_nat i | None \<Rightarrow> 0)"
proof (cases "t = []")
  case True
  then show ?thesis using assms by (simp add: strstr_def)
next
  case False
  then have "m n \<noteq> 0" using assms(2) by (cases t) auto
  then show ?thesis using strstr_loop_cstr [OF assms False] False by (simp add: strstr_def)
qed

theorem strstr_correct_witness:
  "strstr (write_bytes 200 (lit ''b'' @ [0]) (write_bytes 100 (lit ''aab'' @ [0]) (\<lambda>_. 0))) 100 200 = Some 102"
proof -
  let ?m = "write_bytes 200 (lit ''b'' @ [0]) (write_bytes 100 (lit ''aab'' @ [0]) (\<lambda>_. 0))"
  have "cstr ?m 100 (lit ''aab'')" "cstr ?m 200 (lit ''b'')" by (simp_all add: lit_def)
  from strstr_correct [OF this] show ?thesis by (simp add: lit_def upt_rec)
qed

end
