(* ===== verification/Libc_Stdlib.thy ===== *)
theory Libc_Stdlib
  imports Libc_String
begin

text \<open>
  The arithmetic of \<^verbatim>\<open>lib/libc/stdlib.c\<close>: the 64-bit division and remainder the
  compiler calls on a 32-bit target, computed bit by bit on 64-bit words, and
  \<^verbatim>\<open>atoi\<close>. A division by zero spins for ever, which is \<open>None\<close>.
\<close>

subsection \<open>Shift and subtract division\<close>

text \<open>
  The \<^verbatim>\<open>for (i = 63; i >= 0; i--)\<close> loops; the first argument counts the bits that
  are left, so that the bit shifted in is \<open>i\<close> in the clause for \<open>Suc i\<close>.
\<close>

definition shift_in :: "u64 \<Rightarrow> u64 \<Rightarrow> nat \<Rightarrow> u64" where
  "shift_in remainder dividend i = push_bit 1 remainder OR (drop_bit i dividend AND 1)"

fun udiv_loop :: "nat \<Rightarrow> u64 \<Rightarrow> u64 \<Rightarrow> u64 \<Rightarrow> u64 \<Rightarrow> u64" where
  "udiv_loop 0 dividend divisor quot remainder = quot"
| "udiv_loop (Suc i) dividend divisor quot remainder =
     (let r = shift_in remainder dividend i
      in if r \<ge> divisor
         then udiv_loop i dividend divisor (quot OR push_bit i 1) (r - divisor)
         else udiv_loop i dividend divisor quot r)"

definition udivdi3 :: "u64 \<Rightarrow> u64 \<Rightarrow> u64 option" where
  "udivdi3 dividend divisor =
     (if divisor = 0 then None
      else if dividend < divisor then Some 0
      else Some (udiv_loop 64 dividend divisor 0 0))"

fun umod_loop :: "nat \<Rightarrow> u64 \<Rightarrow> u64 \<Rightarrow> u64 \<Rightarrow> u64" where
  "umod_loop 0 dividend divisor remainder = remainder"
| "umod_loop (Suc i) dividend divisor remainder =
     (let r = shift_in remainder dividend i
      in umod_loop i dividend divisor (if r \<ge> divisor then r - divisor else r))"

definition umoddi3 :: "u64 \<Rightarrow> u64 \<Rightarrow> u64 option" where
  "umoddi3 dividend divisor =
     (if divisor = 0 then None
      else if dividend < divisor then Some dividend
      else Some (umod_loop 64 dividend divisor 0))"

subsection \<open>atoi\<close>

text \<open>
  \<^verbatim>\<open>result * 10 + digit\<close> is \<^verbatim>\<open>int\<close> arithmetic with the target's wrap-around; the
  characters are compared as signed \<^verbatim>\<open>char\<close>s.
\<close>

partial_function (option) atoi_skip :: "mem \<Rightarrow> addr \<Rightarrow> addr option" where
  "atoi_skip m p = (if m p = 32 \<or> m p = 9 \<or> m p = 10 then atoi_skip m (p + 1) else Some p)"

partial_function (option) atoi_digits :: "mem \<Rightarrow> addr \<Rightarrow> int \<Rightarrow> int option" where
  "atoi_digits m p result =
     (if char_int (m p) \<ge> 48 \<and> char_int (m p) \<le> 57
      then atoi_digits m (p + 1) (s32 (result * 10 + (char_int (m p) - 48)))
      else Some result)"

definition atoi :: "mem \<Rightarrow> addr \<Rightarrow> int option" where
  "atoi m str =
     (if str = 0 then Some 0
      else do {
        p \<leftarrow> atoi_skip m str;
        let sign = (if m p = 45 then - 1 else 1);
        result \<leftarrow> atoi_digits m (if m p = 45 \<or> m p = 43 then p + 1 else p) 0;
        Some (s32 (sign * result)) })"

subsection \<open>Correctness of the division loop\<close>

lemma unat_lt_64: "unat (a :: u64) < 18446744073709551616"
  using unsigned_less [of a] by simp

lemma unat_shift_in:
  assumes "2 * unat r + 1 < (18446744073709551616::nat)"
  shows "unat (shift_in r n i) = 2 * unat r + unat n div 2 ^ i mod 2"
proof -
  have "push_bit 1 r AND (drop_bit i n AND 1) = 0"
    by (rule bit_eqI) (simp only: bit_and_iff bit_push_bit_iff bit_1_iff, auto)
  then have "shift_in r n i = push_bit 1 r + (drop_bit i n AND 1)"
    by (simp add: shift_in_def disjunctive_add_eq_or)
  moreover have "unat (drop_bit i n AND 1) = unat n div 2 ^ i mod 2"
  proof -
    have "take_bit 64 (unat n) = unat n"
      using unat_lt_64 [of n] by (simp add: take_bit_nat_eq_self_iff)
    then have "unat (drop_bit i n) = unat n div 2 ^ i"
      by (subst unsigned_drop_bit_eq) (simp add: drop_bit_eq_div)
    then show ?thesis
      by (simp add: and_one_eq unat_mod)
  qed
  moreover have "unat (push_bit 1 r) = 2 * unat r"
    using assms by (simp add: push_bit_eq_mult unat_word_ariths)
  ultimately show ?thesis
    using assms by (simp add: unat_word_ariths)
qed

text \<open>One step of long division, over the natural numbers.\<close>

lemma long_div_step:
  fixes A D b :: nat
  assumes "0 < D" and "b < 2"
  defines "r \<equiv> 2 * (A mod D) + b"
  shows "(2 * A + b) mod D = (if D \<le> r then r - D else r)"
    and "(2 * A + b) div D = 2 * (A div D) + (if D \<le> r then 1 else 0)"
proof -
  have "A mod D < D" using assms(1) by simp
  then have r: "r < 2 * D" using assms(2) by (simp add: r_def)
  have "2 * A + b = (2 * (A div D)) * D + r"
  proof -
    have "2 * A + b = 2 * (A div D * D + A mod D) + b" by simp
    then show ?thesis by (simp only: r_def) (simp only: algebra_simps)
  qed
  then have eq: "(2 * A + b) mod D = r mod D" "(2 * A + b) div D = 2 * (A div D) + r div D"
    using assms(1) by simp_all
  have "r div D = (if D \<le> r then 1 else 0)" "r mod D = (if D \<le> r then r - D else r)"
    using r assms(1) by (auto simp: div_nat_eqI mod_if)
  with eq show "(2 * A + b) mod D = (if D \<le> r then r - D else r)"
    and "(2 * A + b) div D = 2 * (A div D) + (if D \<le> r then 1 else 0)"
    by simp_all
qed

lemma unat_set_bit:
  fixes q :: u64
  assumes "unat q = 2 ^ Suc i * k" and "i < 64"
  shows "unat (q OR push_bit i 1) = 2 ^ i * (2 * k + 1)"
proof -
  have "\<not> bit (unat q) i" by (simp add: assms(1) bit_iff_odd)
  then have "\<not> bit q i" by (simp add: bit_unsigned_iff)
  then have "q AND push_bit i 1 = 0"
    by (intro bit_eqI) (simp only: bit_and_iff bit_push_bit_iff bit_1_iff, auto)
  then have "q OR push_bit i 1 = q + 2 ^ i"
    by (simp add: disjunctive_add_eq_or [symmetric] push_bit_eq_mult)
  moreover have "unat (2 ^ i :: u64) = 2 ^ i"
    using assms(2) by (simp add: unat_pow2)
  moreover have "2 ^ Suc i * k + 2 ^ i < (2 :: nat) ^ 64"
  proof -
    have "k < 2 ^ (63 - i)"
    proof (rule ccontr)
      assume "\<not> k < 2 ^ (63 - i)"
      then have "(2::nat) ^ Suc i * 2 ^ (63 - i) \<le> unat q"
        by (simp only: assms(1)) simp
      moreover have "(2::nat) ^ Suc i * 2 ^ (63 - i) = 2 ^ 64"
      proof -
        have "(2::nat) ^ Suc i * 2 ^ (63 - i) = 2 ^ (Suc i + (63 - i))" by (rule power_add [symmetric])
        also have "Suc i + (63 - i) = 64" using assms(2) by simp
        finally show ?thesis .
      qed
      ultimately show False using unat_lt_64 [of q] by simp
    qed
    then have "2 * k + 2 \<le> 2 * 2 ^ (63 - i)" by simp
    then have "2 ^ i * (2 * k + 2) \<le> (2::nat) ^ i * (2 * 2 ^ (63 - i))" by (rule mult_le_mono2)
    also have "\<dots> = 2 ^ Suc (i + (63 - i))" by (simp add: power_add)
    also have "Suc (i + (63 - i)) = 64" using assms(2) by simp
    finally have "2 ^ i * (2 * k + 2) \<le> (2::nat) ^ 64" .
    moreover have "2 ^ Suc i * k + 2 ^ i = (2::nat) ^ i * (2 * k + 1)"
      by (simp only: power_Suc distrib_left mult.assoc mult.left_commute mult_1_right)
    moreover have "(2::nat) ^ i * (2 * k + 1) < 2 ^ i * (2 * k + 2)" by simp
    ultimately show ?thesis by (simp only: less_le_trans)
  qed
  ultimately have "unat (q OR push_bit i 1) = 2 ^ Suc i * k + 2 ^ i"
    using assms(1) by (simp add: unat_word_ariths)
  then show ?thesis by (simp add: distrib_left mult.left_commute)
qed

lemma udiv_loop_correct:
  assumes "0 < unat d" and "i \<le> 64"
    and "unat r = (unat n div 2 ^ i) mod unat d"
    and "unat q = 2 ^ i * (unat n div 2 ^ i div unat d)"
  shows "unat (udiv_loop i n d q r) = unat n div unat d
    \<and> unat (umod_loop i n d r) = unat n mod unat d"
  using assms(2-)
proof (induction i arbitrary: q r)
  case (Suc i)
  define A where "A = unat n div 2 ^ Suc i"
  define b where "b = unat n div 2 ^ i mod 2"
  have A2: "unat n div 2 ^ i = 2 * A + b"
    unfolding A_def b_def power_Suc2 by (simp only: div_mult2_eq mult_div_mod_eq)
  have bnd: "2 * unat r + 1 < (18446744073709551616::nat)"
  proof -
    have "unat r \<le> A" using Suc.prems by (simp add: A_def)
    moreover have "2 * A \<le> unat n" using A2 div_le_dividend [of "unat n" "2 ^ i"] by linarith
    ultimately show ?thesis using unat_lt_64 [of n] by presburger
  qed
  define r' where "r' = shift_in r n i"
  have r': "unat r' = 2 * (A mod unat d) + b"
    using unat_shift_in [OF bnd, of n i] Suc.prems by (simp add: r'_def A_def b_def)
  note step = long_div_step [OF assms(1), of b A, folded A2 r']
  have b2: "b < 2" by (simp add: b_def)
  have sub: "unat (r' - d) = unat r' - unat d" if "unat d \<le> unat r'"
    using that by (simp add: unat_sub word_le_nat_alt)
  have setb: "unat (q OR push_bit i 1) = 2 ^ i * (2 * (A div unat d) + 1)"
    using Suc.prems by (intro unat_set_bit) (simp_all add: A_def)
  have A: "unat n div (2 * 2 ^ i) = A" by (simp add: A_def)
  show ?case
    using Suc.IH [of "if d \<le> r' then r' - d else r'" "if d \<le> r' then q OR push_bit i 1 else q"]
      step [OF b2] Suc.prems sub setb
    by (auto simp: Let_def r'_def [symmetric] word_le_nat_alt A)
qed simp

subsection \<open>Properties\<close>

text \<open>
  C39. The compiler's 64-bit division and remainder routines compute the quotient and the
  remainder of the unsigned numbers for every non-zero divisor, the top half of
  the range included where the shifted remainder comes close to overflowing,
  and do not return exactly when the divisor is zero.
\<close>

theorem udivdi3_umoddi3_correct:
  "udivdi3 n d = (if d = 0 then None else Some (n div d))
   \<and> umoddi3 n d = (if d = 0 then None else Some (n mod d))"
proof (cases "d = 0 \<or> n < d")
  case True
  then have "n div d = 0 \<and> n mod d = n" if "d \<noteq> 0"
    using that by (simp add: word_less_nat_alt word_unat_eq_iff unat_div unat_mod)
  with True show ?thesis by (auto simp: udivdi3_def umoddi3_def)
next
  case False
  have "unat n div 2 ^ 64 = 0" using unat_lt_64 [of n] by simp
  then have "unat (udiv_loop 64 n d 0 0) = unat n div unat d
      \<and> unat (umod_loop 64 n d 0) = unat n mod unat d"
    using False by (intro udiv_loop_correct) (simp_all add: unat_gt_0)
  then show ?thesis
    using False by (simp add: udivdi3_def umoddi3_def word_unat_eq_iff unat_div unat_mod)
qed

end
