(* ===== verification/Libc_Format.thy ===== *)
theory Libc_Format
  imports Libc_Stdlib "HOL-Library.Signed_Division"
begin

text \<open>
  Number conversion and formatted output (\<^verbatim>\<open>lib/libc/stdio.c\<close> and the hexadecimal
  converters of \<^verbatim>\<open>lib/libc/string.c\<close>). A local character buffer is the list of the
  bytes before its NUL; the characters a function prints are the list it returns.
  The variadic arguments are a list of \<open>varg\<close>. \<open>None\<close> stands for undefined
  behaviour of the C code: an argument that is missing or of the wrong kind, a
  format that ends within a conversion (the scanner steps over the NUL), or a
  local buffer that is overrun.
\<close>

subsection \<open>Digits\<close>

definition digit_lower :: "nat \<Rightarrow> u8" where
  "digit_lower d = (if d > 9 then of_nat (d - 10 + 97) else of_nat (d + 48))"

definition hex_upper :: "nat \<Rightarrow> u8" where
  "hex_upper d = lit ''0123456789ABCDEF'' ! d"

definition hex_lower :: "nat \<Rightarrow> u8" where
  "hex_lower d = lit ''0123456789abcdef'' ! d"

text \<open>
  The digits of \<^verbatim>\<open>while (value > 0) { buf[i++] = digit(value % base); value /= base; }\<close>,
  least significant first.
\<close>

function nat_digits :: "nat \<Rightarrow> nat \<Rightarrow> nat list" where
  "nat_digits b n = (if n = 0 \<or> b < 2 then [] else (n mod b) # nat_digits b (n div b))"
  by auto
termination by (relation "measure (\<lambda>(b, n). n)") auto

declare nat_digits.simps [simp del]

text \<open>The \<^verbatim>\<open>do ... while (value != 0)\<close> form writes at least one digit.\<close>

definition do_digits :: "nat \<Rightarrow> nat \<Rightarrow> nat list" where
  "do_digits b n = (n mod b) # nat_digits b (n div b)"

lemma abs_sdiv_less:
  fixes n b :: int
  assumes "n \<noteq> 0" and "\<not> b < 2"
  shows "\<bar>n sdiv b\<bar> < \<bar>n\<bar>"
proof -
  have "\<bar>n sdiv b\<bar> = \<bar>n\<bar> div b"
    using assms by (simp add: signed_divide_int_def abs_mult pos_imp_zdiv_nonneg_iff)
  then show ?thesis using assms int_div_less_self [of "\<bar>n\<bar>" b] by simp
qed

text \<open>The signed loop of \<^verbatim>\<open>int_to_str\<close>; C division truncates, so a remainder may be negative.\<close>

function int_digits :: "int \<Rightarrow> int \<Rightarrow> u8 list" where
  "int_digits base num =
     (if num = 0 \<or> base < 2 then []
      else let rem = num smod base
           in (if rem > 9 then word_of_int (rem - 10 + 97) else word_of_int (rem + 48))
              # int_digits base (num sdiv base))"
  by auto
termination
  by (relation "measure (\<lambda>(b, n). nat \<bar>n\<bar>)") (auto simp: abs_sdiv_less)

declare int_digits.simps [simp del]

text \<open>In-place reversal by swapping from both ends.\<close>

function rev_loop :: "nat \<Rightarrow> nat \<Rightarrow> u8 list \<Rightarrow> u8 list" where
  "rev_loop start e str =
     (if start < e then rev_loop (start + 1) (e - 1) (str[start := str ! e, e := str ! start])
      else str)"
  by auto
termination by (relation "measure (\<lambda>(s, e, _). e - s)") auto

declare rev_loop.simps [simp del]

definition reverse :: "u8 list \<Rightarrow> nat \<Rightarrow> u8 list" where
  "reverse str len = rev_loop 0 (len - 1) str"

subsection \<open>Number conversion\<close>

definition int_to_str :: "int \<Rightarrow> int \<Rightarrow> u8 list" where
  "int_to_str num base =
     (if num = 0 then [48]
      else let is_negative = (num < 0 \<and> base = 10);
               num = (if is_negative then s32 (- num) else num);
               str = int_digits base num @ (if is_negative then [45] else [])
           in reverse str (length str))"

definition unsigned_int_to_str :: "u32 \<Rightarrow> nat \<Rightarrow> u8 list" where
  "unsigned_int_to_str value base =
     (if value = 0 then [48]
      else let buffer = map digit_lower (nat_digits base (unat value))
           in rev_loop 0 (length buffer - 1) buffer)"

text \<open>
  \<^verbatim>\<open>digits[value % base]\<close> of \<^verbatim>\<open>int_to_str2\<close> indexes before its table when the value is
  negative and the base is not 10, or when it is the smallest integer.
\<close>

definition int_to_str2 :: "int \<Rightarrow> nat \<Rightarrow> u8 list option" where
  "int_to_str2 value base =
     (if value = 0 then Some [48]
      else let isNegative = (value < 0 \<and> base = 10);
               value = (if isNegative then s32 (- value) else value);
               temp = map hex_upper (nat_digits base (nat value)) @ (if isNegative then [45] else [])
           in if value < 0 \<or> base < 2 \<or> base > 16 \<or> length temp \<ge> 32 then None
              else Some (rev_loop 0 (length temp - 1) temp))"

definition uint64_t_to_str :: "u64 \<Rightarrow> int \<Rightarrow> u8 list" where
  "uint64_t_to_str value base =
     (if base < 2 \<or> base > 16 then []
      else rev (if value = 0 then [48] else map hex_upper (nat_digits (nat base) (unat value))))"

definition int_to_hex_str2 :: "u32 \<Rightarrow> bool \<Rightarrow> u8 list" where
  "int_to_hex_str2 value uppercase =
     rev (map (if uppercase then hex_upper else hex_lower) (do_digits 16 (unat value)))"

definition int_to_hex_str :: "u32 \<Rightarrow> int \<Rightarrow> bool \<Rightarrow> u8 list" where
  "int_to_hex_str value width zero_padding =
     (let temp = map hex_upper (do_digits 16 (unat value));
          padding = (if width > int (length temp) then width - int (length temp) else 0)
      in replicate (nat padding) (if zero_padding then 48 else 32) @ rev temp)"

subsection \<open>Direct output\<close>

text \<open>\<^verbatim>\<open>for (; value && i; --i, value /= base)\<close> stores at most 30 digits.\<close>

definition print_unsigned :: "u32 \<Rightarrow> nat \<Rightarrow> u8 list" where
  "print_unsigned value base =
     (if value = 0 then [48] else rev (take 30 (map hex_lower (nat_digits base (unat value)))))"

fun nibbles :: "nat \<Rightarrow> ('a::len) word \<Rightarrow> u8 list" where
  "nibbles 0 v = []"
| "nibbles (Suc k) v = nibbles k (drop_bit 4 v) @ [hex_upper (unat (v AND 15))]"

definition print_hex :: "u32 \<Rightarrow> u8 list" where
  "print_hex value = lit ''0x'' @ nibbles 8 value"

definition print_hex64 :: "u64 \<Rightarrow> u8 list" where
  "print_hex64 value = nibbles 16 value"

definition print_hex_padded :: "u32 \<Rightarrow> int \<Rightarrow> u8 list" where
  "print_hex_padded value width =
     (let hex_digit = (\<lambda>d. if d < 10 then of_nat (d + 48) else of_nat (d - 10 + 65));
          digits = rev (map hex_digit (do_digits 16 (unat value)))
      in replicate (nat (width - int (length digits))) 48 @ digits)"

definition pad_out :: "int \<Rightarrow> bool \<Rightarrow> u8 list" where
  "pad_out count zero = replicate (nat count) (if zero then 48 else 32)"

subsection \<open>printf\<close>

datatype varg = VInt u32 | VStr "cstring option"

record fmt_spec =
  left_align :: bool
  zero_padding :: bool
  width_specified :: bool
  width :: int
  precision :: int
  is_ll :: bool

fun scan_number :: "int \<Rightarrow> cstring \<Rightarrow> int \<times> cstring" where
  "scan_number n [] = (n, [])"
| "scan_number n (c # s) =
     (if c \<ge> 48 \<and> c \<le> 57 then scan_number (s32 (n * 10 + (uint c - 48))) s else (n, c # s))"

definition scan_width :: "cstring \<Rightarrow> varg list \<Rightarrow> (bool \<times> int \<times> cstring \<times> varg list) option" where
  "scan_width s args =
     (case s of
        [] \<Rightarrow> Some (False, 0, [], args)
      | c # s' \<Rightarrow>
          if c = 42 then
            (case args of VInt w # args' \<Rightarrow> Some (True, sint w, s', args') | _ \<Rightarrow> None)
          else let (w, r) = scan_number 0 s in Some (r \<noteq> s, w, r, args))"

fun scan_flag :: "u8 \<Rightarrow> bool \<Rightarrow> cstring \<Rightarrow> bool \<times> cstring" where
  "scan_flag f enabled [] = (False, [])"
| "scan_flag f enabled (c # s) = (if c = f \<and> enabled then (True, s) else (False, c # s))"

fun scan_precision :: "cstring \<Rightarrow> int \<times> cstring" where
  "scan_precision [] = (- 1, [])"
| "scan_precision (c # s) = (if c = 46 then scan_number 0 s else (- 1, c # s))"

definition scan_ll :: "cstring \<Rightarrow> bool \<times> cstring" where
  "scan_ll s = (if take 2 s = [108, 108] then (True, drop 2 s) else (False, s))"

definition scan_spec :: "cstring \<Rightarrow> varg list \<Rightarrow> (fmt_spec \<times> cstring \<times> varg list) option" where
  "scan_spec s args = do {
     let (l, s) = scan_flag 45 True s;
     let (z, s) = scan_flag 48 (\<not> l) s;
     (ws, w, s, args) \<leftarrow> scan_width s args;
     let (p, s) = scan_precision s;
     let (ll, s) = scan_ll s;
     Some (\<lparr>left_align = l, zero_padding = z, width_specified = ws, width = w,
            precision = p, is_ll = ll\<rparr>, s, args) }"

text \<open>The padding of a field of \<open>len\<close> characters, and the field padded on the chosen side.\<close>

definition field_pad :: "fmt_spec \<Rightarrow> int \<Rightarrow> int" where
  "field_pad sp len = (if width_specified sp \<and> width sp > len then width sp - len else 0)"

definition put_field :: "fmt_spec \<Rightarrow> u8 list \<Rightarrow> u8 list" where
  "put_field sp txt =
     (let pad = field_pad sp (int (length txt))
      in if left_align sp then txt @ pad_out pad False
         else pad_out pad (zero_padding sp) @ txt)"

text \<open>
  One conversion. The branches for \<^verbatim>\<open>%llX\<close> and \<^verbatim>\<open>%llu\<close> stand in the default case of
  the \<^verbatim>\<open>switch\<close>, behind the cases \<^verbatim>\<open>X\<close> and \<^verbatim>\<open>u\<close>, and are never reached. A negative
  \<^verbatim>\<open>%d\<close> with the zero flag is padded with blanks before and with zeros after the
  minus sign.
\<close>

definition convert :: "fmt_spec \<Rightarrow> u8 \<Rightarrow> varg list \<Rightarrow> (u8 list \<times> varg list) option" where
  "convert sp c args =
     (if c = 99 then
        (case args of
           VInt v # args \<Rightarrow>
             Some ((if \<not> left_align sp \<and> width_specified sp \<and> width sp > 1
                    then pad_out (width sp - 1) (zero_padding sp) else [])
                   @ [ucast v]
                   @ (if left_align sp \<and> width_specified sp \<and> width sp > 1
                      then pad_out (width sp - 1) False else []), args)
         | _ \<Rightarrow> None)
      else if c = 115 then
        (case args of
           VStr s # args \<Rightarrow>
             let s = (case s of None \<Rightarrow> lit ''(null)'' | Some s \<Rightarrow> s)
             in Some (put_field sp (if precision sp \<ge> 0 \<and> precision sp < int (length s)
                                    then take (nat (precision sp)) s else s), args)
         | _ \<Rightarrow> None)
      else if c = 100 then
        (case args of
           VInt v # args \<Rightarrow>
             let neg = (sint v < 0);
                 uv = (if neg then s32 (- sint v) else sint v);
                 buf = int_to_str uv 10;
                 pad = field_pad sp (int (length buf) + (if neg then 1 else 0))
             in Some ((if \<not> left_align sp then pad_out pad (zero_padding sp \<and> \<not> neg) else [])
                  @ (if neg then [45] else [])
                  @ (if zero_padding sp \<and> \<not> left_align sp \<and> pad > 0 \<and> neg then pad_out pad True else [])
                  @ buf
                  @ (if left_align sp then pad_out pad False else []), args)
         | _ \<Rightarrow> None)
      else if c = 117 then
        (case args of
           VInt v # args \<Rightarrow> Some (put_field sp (unsigned_int_to_str v 10), args)
         | _ \<Rightarrow> None)
      else if c = 88 \<or> c = 112 then
        (case args of
           VInt v # args \<Rightarrow>
             let buf = int_to_hex_str v (if width_specified sp then width sp else 0) (zero_padding sp)
             in if length buf \<ge> 32 then None else Some (buf, args)
         | _ \<Rightarrow> None)
      else Some ([37] @ (if is_ll sp then [108, 108] else []) @ [c], args))"

lemma scan_number_length: "length (snd (scan_number n s)) \<le> length s"
  by (induction n s rule: scan_number.induct) auto

lemma scan_width_length:
  "scan_width s args = Some (b, w, r, args') \<Longrightarrow> length r \<le> length s"
  using scan_number_length [of 0 s]
  by (auto simp: scan_width_def split: list.splits if_splits varg.splits prod.splits)

lemma scan_flag_length: "length (snd (scan_flag f e s)) \<le> length s"
  by (induction f e s rule: scan_flag.induct) auto

lemma scan_precision_length: "length (snd (scan_precision s)) \<le> length s"
  using scan_number_length by (induction s rule: scan_precision.induct) (auto intro: le_SucI)

lemma scan_ll_length: "length (snd (scan_ll s)) \<le> length s"
  by (simp add: scan_ll_def)

lemma scan_spec_length:
  assumes "scan_spec s args = Some (sp, r, args')"
  shows "length r \<le> length s"
proof -
  obtain l s1 where 1: "scan_flag 45 True s = (l, s1)" by fastforce
  obtain z s2 where 2: "scan_flag 48 (\<not> l) s1 = (z, s2)" by fastforce
  obtain ws w s3 args3 where 3: "scan_width s2 args = Some (ws, w, s3, args3)"
    using assms 1 2 by (cases "scan_width s2 args") (auto simp: scan_spec_def)
  obtain p s4 where 4: "scan_precision s3 = (p, s4)" by fastforce
  obtain ll s5 where 5: "scan_ll s4 = (ll, s5)" by fastforce
  have "r = s5" using assms 1 2 3 4 5 by (simp add: scan_spec_def)
  moreover have "length s5 \<le> length s4" using scan_ll_length [of s4] 5 by simp
  moreover have "length s4 \<le> length s3" using scan_precision_length [of s3] 4 by simp
  moreover have "length s3 \<le> length s2" using scan_width_length 3 .
  moreover have "length s2 \<le> length s1" using scan_flag_length [of 48 "\<not> l" s1] 2 by simp
  moreover have "length s1 \<le> length s" using scan_flag_length [of 45 True s] 1 by simp
  ultimately show ?thesis by simp
qed

function printf :: "cstring \<Rightarrow> varg list \<Rightarrow> u8 list option" where
  "printf [] args = Some []"
| "printf (c # fmt) args =
     (if c \<noteq> 37 then map_option ((#) c) (printf fmt args)
      else case scan_spec fmt args of
             None \<Rightarrow> None
           | Some (sp, [], args) \<Rightarrow> None
           | Some (sp, d # rest, args) \<Rightarrow>
               if d = 37 then map_option ((#) 37) (printf rest args)
               else (case convert sp d args of
                       None \<Rightarrow> None
                     | Some (out, args) \<Rightarrow> map_option ((@) out) (printf rest args)))"
  by pat_completeness auto
termination
  by (relation "measure (\<lambda>(f, _). length f)") (auto dest!: scan_spec_length)

declare printf.simps(2) [simp del]

subsection \<open>sprintf and snprintf\<close>

fun sprintf :: "cstring \<Rightarrow> varg list \<Rightarrow> u8 list option" where
  "sprintf [] args = Some []"
| "sprintf [c] args = (if c = 37 then None else Some [c])"
| "sprintf (c # d # p) args =
     (if c \<noteq> 37 then map_option ((#) c) (sprintf (d # p) args)
      else if d = 115 then
        (case args of VStr (Some s) # args \<Rightarrow> map_option ((@) s) (sprintf p args) | _ \<Rightarrow> None)
      else if d = 100 then
        (case args of VInt v # args \<Rightarrow> map_option ((@) (int_to_str (sint v) 10)) (sprintf p args) | _ \<Rightarrow> None)
      else if d = 120 then
        (case args of VInt v # args \<Rightarrow> map_option ((@) (int_to_str (sint v) 16)) (sprintf p args) | _ \<Rightarrow> None)
      else map_option (\<lambda>r. 37 # d # r) (sprintf p args))"

text \<open>
  The digits of \<^verbatim>\<open>snprintf\<close>'s own \<^verbatim>\<open>%d\<close>, least significant first, in a buffer of 12:
  \<^verbatim>\<open>do ... while (temp > 0 && num_written < 12)\<close>.
\<close>

fun num_buffer :: "nat \<Rightarrow> int \<Rightarrow> u8 list" where
  "num_buffer 0 temp = []"
| "num_buffer (Suc k) temp =
     word_of_int (temp smod 10 + 48)
     # (if temp sdiv 10 > 0 then num_buffer k (temp sdiv 10) else [])"

text \<open>
  The loop of \<^verbatim>\<open>snprintf\<close>: \<open>out\<close> is what \<^verbatim>\<open>str\<close> holds so far, so that \<^verbatim>\<open>written\<close> is its
  length; \<open>put\<close> appends as long as \<^verbatim>\<open>written < size\<close>.
\<close>

definition put :: "nat \<Rightarrow> u8 list \<Rightarrow> u8 list \<Rightarrow> u8 list" where
  "put sz out txt = out @ take (sz - length out) txt"

fun snprintf_loop :: "nat \<Rightarrow> cstring \<Rightarrow> varg list \<Rightarrow> u8 list \<Rightarrow> u8 list option" where
  "snprintf_loop sz [] args out = Some out"
| "snprintf_loop sz [c] args out =
     (if \<not> length out < sz then Some out
      else if c = 37 then None else Some (put sz out [c]))"
| "snprintf_loop sz (c # d # p) args out =
     (if \<not> length out < sz then Some out
      else if c \<noteq> 37 then snprintf_loop sz (d # p) args (put sz out [c])
      else if d = 115 then
        (case args of VStr (Some s) # args \<Rightarrow> snprintf_loop sz p args (put sz out s) | _ \<Rightarrow> None)
      else if d = 100 then
        (case args of
           VInt v # args \<Rightarrow>
             let num = sint v;
                 out = (if num < 0 then put sz out [45] else out);
                 num = (if num < 0 then s32 (- num) else num)
             in snprintf_loop sz p args (put sz out (rev (num_buffer 12 num)))
         | _ \<Rightarrow> None)
      else snprintf_loop sz p args out)"

text \<open>The bytes of \<^verbatim>\<open>str\<close> after the call, the terminator included, and the return value.\<close>

definition snprintf :: "nat \<Rightarrow> cstring \<Rightarrow> varg list \<Rightarrow> (u8 list \<times> nat) option" where
  "snprintf sz fmt args = do {
     out \<leftarrow> snprintf_loop sz fmt args [];
     Some (if sz = 0 then out
           else if length out < sz then out @ [0]
           else out[sz - 1 := 0], length out) }"

text \<open>
  The string a byte buffer holds, and \<^verbatim>\<open>normalize_path\<close> on it: the 256 byte buffer
  is written by \<^verbatim>\<open>strncpy\<close> with a count of 255 or by \<^verbatim>\<open>snprintf\<close>, and its last byte
  is set to NUL.
\<close>

definition string_of :: "u8 list \<Rightarrow> cstring" where
  "string_of = takeWhile (\<lambda>c. c \<noteq> 0)"

definition normalize_path :: "cstring \<Rightarrow> cstring \<Rightarrow> cstring option" where
  "normalize_path input_path current_path =
     (if take 1 input_path = [47] then Some (take 255 input_path)
      else do {
        (buf, n) \<leftarrow> (if cmp current_path (lit ''/'') = 0
                    then snprintf 256 (lit ''/%s'') [VStr (Some input_path)]
                    else snprintf 256 (lit ''%s/%s'') [VStr (Some current_path), VStr (Some input_path)]);
        Some (string_of (take 255 buf)) })"

subsection \<open>Reversal\<close>

lemma rev_loop_mid:
  "rev_loop (length a) (length a + length xs - 1) (a @ xs @ b) = a @ rev xs @ b"
proof (induction "length xs" arbitrary: a xs b rule: less_induct)
  case less
  show ?case
  proof (cases xs)
    case Nil
    then show ?thesis by (subst rev_loop.simps) auto
  next
    case (Cons x ys)
    show ?thesis
    proof (cases ys rule: rev_cases)
      case Nil
      with Cons show ?thesis by (simp add: rev_loop.simps)
    next
      case (snoc zs z)
      let ?str = "a @ (x # zs @ [z]) @ b"
      have nth: "?str ! (length a + length (x # zs)) = z" "?str ! length a = x"
        by (simp_all add: nth_append)
      have upd: "?str[length a := z, length a + length (x # zs) := x] = (a @ [z]) @ zs @ ([x] @ b)"
        by (simp add: list_update_append)
      have "rev_loop (length a) (length a + length (x # zs)) ?str
          = rev_loop (length (a @ [z])) (length (a @ [z]) + length zs - 1) ((a @ [z]) @ zs @ ([x] @ b))"
        by (subst rev_loop.simps) (simp only: nth upd, simp)
      also have "\<dots> = (a @ [z]) @ rev zs @ ([x] @ b)"
        using Cons snoc by (intro less.hyps) simp
      finally show ?thesis using Cons snoc by simp
    qed
  qed
qed

lemma rev_loop_rev [simp]: "rev_loop 0 (length xs - Suc 0) xs = rev xs"
  using rev_loop_mid [of "[]" xs "[]"] by simp

lemma reverse_rev [simp]: "reverse xs (length xs) = rev xs"
  by (simp add: reverse_def)

subsection \<open>Digits and their value\<close>

lemma nat_digits_do: "0 < n \<Longrightarrow> 2 \<le> b \<Longrightarrow> nat_digits b n = do_digits b n"
  by (subst nat_digits.simps) (simp add: do_digits_def)

lemma nat_digits_lt: "d \<in> set (nat_digits b n) \<Longrightarrow> 2 \<le> b \<Longrightarrow> d < b"
  by (induction b n rule: nat_digits.induct)
    (subst (asm) (2) nat_digits.simps, auto split: if_splits)

lemma do_digits_lt: "d \<in> set (do_digits b n) \<Longrightarrow> 2 \<le> b \<Longrightarrow> d < b"
  by (auto simp: do_digits_def dest: nat_digits_lt)

text \<open>Horner evaluation of the digits, most significant first.\<close>

definition value_of :: "nat \<Rightarrow> nat \<Rightarrow> nat list \<Rightarrow> nat" where
  "value_of b = foldl (\<lambda>r d. r * b + d)"

lemma value_nat_digits: "2 \<le> b \<Longrightarrow> value_of b 0 (rev (nat_digits b n)) = n"
  by (induction b n rule: nat_digits.induct) (subst nat_digits.simps, auto simp: value_of_def)

lemma value_do_digits: "2 \<le> b \<Longrightarrow> value_of b 0 (rev (do_digits b n)) = n"
  using value_nat_digits [of b "n div b"] by (simp add: do_digits_def value_of_def)

lemma value_of_ge: "1 \<le> b \<Longrightarrow> r \<le> value_of b r ds"
proof (induction ds arbitrary: r)
  case (Cons d ds)
  have "r \<le> r * b + d" using Cons.prems by (simp add: trans_le_add1)
  with Cons show ?case by (auto simp: value_of_def intro: le_trans)
qed (simp add: value_of_def)

lemma nat_digits_length: "2 \<le> b \<Longrightarrow> n < b ^ k \<Longrightarrow> length (nat_digits b n) \<le> k"
proof (induction k arbitrary: n)
  case (Suc k)
  then show ?case by (subst nat_digits.simps) (simp add: less_mult_imp_div_less mult.commute)
qed (simp add: nat_digits.simps)

lemma hex_digits_fit: "length (do_digits 16 (unat (v :: u32))) \<le> 8"
  using nat_digits_length [of 16 "unat v div 16" 7] unat_lt_32 [of v]
  by (simp add: do_digits_def less_mult_imp_div_less)

lemma digit_lower_char [simp]:
  assumes "d < 10"
  shows "char_int (digit_lower d) = int d + 48" and "uint (digit_lower d) = int d + 48"
    and "digit_lower d \<noteq> 0" and "word_of_int (int d + 48) = digit_lower d"
proof -
  have "d \<in> {0, 1, 2, 3, 4, 5, 6, 7, 8, 9}" using assms by auto
  then show "char_int (digit_lower d) = int d + 48" "uint (digit_lower d) = int d + 48"
    "digit_lower d \<noteq> 0" "word_of_int (int d + 48) = digit_lower d"
    by (auto simp: digit_lower_def char_int_def)
qed

text \<open>On positive numbers the signed loop of \<^verbatim>\<open>int_to_str\<close> computes the unsigned digits.\<close>

lemma int_digits_10: "0 \<le> n \<Longrightarrow> int_digits 10 n = map digit_lower (nat_digits 10 (nat n))"
proof (induction "nat n" arbitrary: n rule: less_induct)
  case less
  show ?case
  proof (cases "n = 0")
    case True
    then show ?thesis by (simp add: int_digits.simps nat_digits.simps)
  next
    case False
    with less have n: "0 < n" by simp
    have rem: "n smod 10 = int (nat n mod 10)" "n sdiv 10 = int (nat n div 10)"
      using n by (simp_all add: signed_modulo_int_def signed_divide_int_def zmod_int zdiv_int)
    have IH: "int_digits 10 (n sdiv 10) = map digit_lower (nat_digits 10 (nat n div 10))"
      using less.hyps [of "n sdiv 10"] n by (simp add: rem)
    have "nat n mod 10 < 10" by simp
    then have "\<not> 9 < nat n mod 10" "word_of_nat (nat n mod 10) + 48 = digit_lower (nat n mod 10)"
      by (simp_all add: digit_lower_def)
    then show ?thesis
      using n IH by (subst int_digits.simps, subst nat_digits.simps) (simp add: rem Let_def)
  qed
qed

lemma int_to_str_10:
  assumes "- 2147483648 < n" and "n < 2147483648"
  shows "int_to_str n 10 =
    (if n < 0 then [45] else []) @ map digit_lower (rev (do_digits 10 (nat \<bar>n\<bar>)))"
proof (cases "n = 0")
  case True
  then show ?thesis by (simp add: int_to_str_def do_digits_def nat_digits.simps digit_lower_def)
next
  case False
  then have "0 < nat \<bar>n\<bar>" by simp
  then have "nat_digits 10 (nat \<bar>n\<bar>) = do_digits 10 (nat \<bar>n\<bar>)" by (simp add: nat_digits_do)
  then show ?thesis
    using False assms by (auto simp: int_to_str_def Let_def int_digits_10 rev_map)
qed

text \<open>\<^verbatim>\<open>atoi\<close> reads digits back as long as the value stays in range.\<close>

lemma atoi_digits_value:
  assumes "cstr m p (map digit_lower ds)" and "\<forall>d\<in>set ds. d < 10"
    and "value_of 10 r ds < 2147483648"
  shows "atoi_digits m p (int r) = Some (int (value_of 10 r ds))"
  using assms
proof (induction ds arbitrary: p r)
  case Nil
  then show ?case by (subst atoi_digits.simps) (simp add: value_of_def char_int_def)
next
  case (Cons d ds)
  have v: "value_of 10 r (d # ds) = value_of 10 (r * 10 + d) ds" by (simp add: value_of_def)
  have "r * 10 + d \<le> value_of 10 (r * 10 + d) ds" by (rule value_of_ge) simp
  then have "s32 (int r * 10 + int d) = int (r * 10 + d)" using Cons.prems v by simp
  then show ?case
    using Cons.IH [of "p + 1" "r * 10 + d"] Cons.prems v
    by (subst atoi_digits.simps) simp
qed

lemma less_16: "d < (16::nat) \<Longrightarrow> d \<in> {0, 1, 2, 3, 4, 5, 6, 7, 8, 9, 10, 11, 12, 13, 14, 15}"
  unfolding insert_iff empty_iff by presburger

lemma hex_char [simp]:
  assumes "d < 16"
  shows "isspace (uint (hex_upper d)) = False" "isspace (uint (hex_lower d)) = False"
    and "hex_upper d \<noteq> 0" "hex_lower d \<noteq> 0"
proof -
  have "d \<in> {0, 1, 2, 3, 4, 5, 6, 7, 8, 9, 10, 11, 12, 13, 14, 15}" using assms(1) by (rule less_16)
  then show "isspace (uint (hex_upper d)) = False" "isspace (uint (hex_lower d)) = False"
    "hex_upper d \<noteq> 0" "hex_lower d \<noteq> 0"
    by (auto simp: hex_upper_def hex_lower_def lit_def isspace_def)
qed

text \<open>What \<^verbatim>\<open>strtoul\<close> computes for a hexadecimal digit of either case.\<close>

lemma hex_digit_value:
  assumes "d < 16" and "c = hex_upper d \<or> c = hex_lower d"
  shows "(isdigit (uint c) \<or> isalpha (uint c))
    \<and> (if isdigit (uint c) then char_int c - 48 else toupper (uint c) - 65 + 10) = int d"
proof -
  have "d \<in> {0, 1, 2, 3, 4, 5, 6, 7, 8, 9, 10, 11, 12, 13, 14, 15}" using assms(1) by (rule less_16)
  with assms(2) show ?thesis
    by (elim disjE insertE emptyE; hypsubst)
      (simp_all add: hex_upper_def hex_lower_def lit_def isdigit_def isalpha_def toupper_def char_int_def)
qed

lemma strtoul_loop_hex:
  assumes "cstr m p (map f ds)" and "\<forall>d\<in>set ds. d < 16"
    and f: "f = hex_upper \<or> f = hex_lower"
    and "value_of 16 r ds < 4294967296"
  shows "strtoul_loop m 16 268435455 15 p (s32 (int r))
    = Some (s32 (int (value_of 16 r ds)), p + of_nat (length ds))"
  using assms(1,2,4)
proof (induction ds arbitrary: p r)
  case Nil
  then show ?case by (subst strtoul_loop.simps) (simp add: value_of_def)
next
  case (Cons d ds)
  have v: "value_of 16 r (d # ds) = value_of 16 (r * 16 + d) ds" by (simp add: value_of_def)
  have "r * 16 + d \<le> value_of 16 (r * 16 + d) ds" by (rule value_of_ge) simp
  then have r: "int r \<le> 268435455" using Cons.prems v by simp
  have d: "d < 16" and c: "m p = f d" "f d \<noteq> 0" using Cons.prems by auto
  have dv: "isdigit (uint (f d)) \<or> isalpha (uint (f d))"
    "(if isdigit (uint (f d)) then char_int (f d) - 48 else toupper (uint (f d)) - 65 + 10) = int d"
    using hex_digit_value [OF d, of "f d"] f by auto
  have "strtoul_loop m 16 268435455 15 p (s32 (int r))
      = strtoul_loop m 16 268435455 15 (p + 1) (s32 (int (r * 16 + d)))"
    using r d c(2) dv(1) by (subst strtoul_loop.simps) (simp only: Let_def c(1) dv(2), simp)
  also have "\<dots> = Some (s32 (int (value_of 16 (r * 16 + d) ds)), p + 1 + of_nat (length ds))"
    using Cons.prems v by (intro Cons.IH) simp_all
  finally show ?case using v by (simp add: add.assoc)
qed

lemma word_of_int_s32 [simp]: "(word_of_int (s32 x) :: u32) = word_of_int x"
  by (rule bit_word_eqI) (auto simp: s32_def bit_word_of_int_iff bit_signed_take_bit_iff min_def less_Suc_eq_le numeral_eq_Suc dest: le_antisym)

text \<open>The rendering of \<^verbatim>\<open>snprintf\<close>'s \<^verbatim>\<open>%d\<close> agrees with \<^verbatim>\<open>int_to_str\<close>.\<close>

lemma num_buffer_digits:
  "0 \<le> n \<Longrightarrow> nat n < 10 ^ Suc k \<Longrightarrow> num_buffer (Suc k) n = map digit_lower (do_digits 10 (nat n))"
proof (induction k arbitrary: n)
  case 0
  then have "n smod 10 = n" "n sdiv 10 = 0" "nat n mod 10 = nat n" "nat n div 10 = 0"
    by (simp_all add: signed_modulo_int_def signed_divide_int_def sgn_if)
  moreover have "word_of_int (n + 48) = digit_lower (nat n)"
    using 0 digit_lower_char(4) [of "nat n"] by simp
  ultimately show ?case by (simp add: do_digits_def nat_digits.simps)
next
  case (Suc k)
  have q: "n smod 10 = int (nat n mod 10)" "n sdiv 10 = int (nat n div 10)"
    using Suc.prems by (simp_all add: signed_modulo_int_def signed_divide_int_def zmod_int zdiv_int sgn_if)
  have d: "word_of_int (int (nat n mod 10) + 48) = digit_lower (nat n mod 10)"
    by (rule digit_lower_char(4)) simp
  have IH: "num_buffer (Suc k) (int (nat n div 10)) = map digit_lower (do_digits 10 (nat n div 10))"
    using Suc.prems by (subst Suc.IH) (simp_all add: less_mult_imp_div_less)
  have "num_buffer (Suc (Suc k)) n = digit_lower (nat n mod 10)
      # (if int (nat n div 10) > 0 then num_buffer (Suc k) (int (nat n div 10)) else [])"
    by (subst num_buffer.simps) (simp only: q d)
  moreover have "nat_digits 10 (nat n div 10) = (if nat n div 10 > 0 then do_digits 10 (nat n div 10) else [])"
    by (simp add: nat_digits_do nat_digits.simps [of 10 0])
  ultimately show ?case using IH by (simp add: do_digits_def)
qed

lemma put_take: "put sz (take sz out) txt = take sz (out @ txt)"
  by (simp add: put_def min_def)

text \<open>Formats with no conversion but \<^verbatim>\<open>%s\<close> and \<^verbatim>\<open>%d\<close>.\<close>

fun sd_only :: "cstring \<Rightarrow> bool" where
  "sd_only [] = True"
| "sd_only [c] = True"
| "sd_only (c # d # p) = (if c \<noteq> 37 then sd_only (d # p) else (d = 115 \<or> d = 100) \<and> sd_only p)"

lemma s32_uminus_sint:
  assumes "(v :: u32) \<noteq> 2147483648" shows "s32 (- sint v) = - sint v" and "sint v \<noteq> - 2147483648"
proof -
  show "sint v \<noteq> - 2147483648"
  proof
    assume "sint v = - 2147483648"
    then have "sint v = sint (2147483648 :: u32)" by simp
    with assms show False by (metis signed_word_eqI)
  qed
  then show "s32 (- sint v) = - sint v"
    using sint_greater_eq [of v] sint_less [of v] by (intro s32_id) simp_all
qed

lemma int_to_str_num_buffer:
  assumes "(v :: u32) \<noteq> 2147483648"
  shows "int_to_str (sint v) 10 = (if sint v < 0 then [45] else []) @ rev (num_buffer 12 \<bar>sint v\<bar>)"
proof -
  have rng: "- 2147483648 < sint v" "sint v < 2147483648"
    using sint_greater_eq [of v] sint_less [of v] s32_uminus_sint(2) [OF assms] by simp_all
  have "num_buffer (Suc 11) \<bar>sint v\<bar> = map digit_lower (do_digits 10 (nat \<bar>sint v\<bar>))"
    using rng by (intro num_buffer_digits) simp_all
  moreover have "Suc 11 = 12" by simp
  ultimately have "num_buffer 12 \<bar>sint v\<bar> = map digit_lower (do_digits 10 (nat \<bar>sint v\<bar>))"
    by (simp only:)
  with int_to_str_10 [OF rng] show ?thesis by (simp add: rev_map)
qed

lemma snprintf_loop_sprintf:
  assumes "sprintf fmt args = Some f" and "sd_only fmt" and "VInt 2147483648 \<notin> set args"
  shows "snprintf_loop sz fmt args (take sz out) = Some (take sz (out @ f))"
  using assms
proof (induction fmt args arbitrary: f out rule: sprintf.induct)
  case (2 c args)
  then show ?case using put_take [of sz out "[c]"] by (auto split: if_splits simp: min_def)
next
  case (3 c d p args)
  consider (full) "\<not> length (take sz out) < sz" | (lit) "length (take sz out) < sz" "c \<noteq> 37"
    | (str) "length (take sz out) < sz" "c = 37" "d = 115"
    | (int) "length (take sz out) < sz" "c = 37" "d = 100"
    using "3.prems" by (auto split: if_splits)
  then show ?case
  proof cases
    case full
    then show ?thesis by simp
  next
    case lit
    then obtain f' where f': "sprintf (d # p) args = Some f'" "f = c # f'"
      using "3.prems" by auto
    have "snprintf_loop sz (d # p) args (take sz (out @ [c])) = Some (take sz ((out @ [c]) @ f'))"
      using lit "3.prems" f' by (intro "3.IH"(1)) simp_all
    then show ?thesis using lit f' put_take [of sz out "[c]"] by simp
  next
    case str
    then obtain s args' f' where a: "args = VStr (Some s) # args'" and f': "sprintf p args' = Some f'" "f = s @ f'"
      using "3.prems" by (auto split: list.splits varg.splits option.splits)
    have "snprintf_loop sz p args' (take sz (out @ s)) = Some (take sz ((out @ s) @ f'))"
      using str "3.prems" a f' by (intro "3.IH"(2)) simp_all
    then show ?thesis using str a f' put_take [of sz out s] by simp
  next
    case int
    then obtain v args' f' where a: "args = VInt v # args'" and f': "sprintf p args' = Some f'"
      "f = int_to_str (sint v) 10 @ f'"
      using "3.prems" by (auto split: list.splits varg.splits option.splits)
    have v: "v \<noteq> 2147483648" using "3.prems" a by auto
    let ?n = "sint v"
    have tx: "int_to_str ?n 10 = (if ?n < 0 then [45] else []) @ rev (num_buffer 12 \<bar>?n\<bar>)"
      by (rule int_to_str_num_buffer [OF v])
    have IH: "snprintf_loop sz p args' (take sz (out @ int_to_str ?n 10))
        = Some (take sz ((out @ int_to_str ?n 10) @ f'))"
      using int "3.prems" a f' by (intro "3.IH"(3)) simp_all
    have abs: "(if ?n < 0 then s32 (- ?n) else ?n) = \<bar>?n\<bar>"
      using s32_uminus_sint(1) [OF v] by simp
    have "put sz (if ?n < 0 then put sz (take sz out) [45] else take sz out) (rev (num_buffer 12 \<bar>?n\<bar>))
        = take sz (out @ int_to_str ?n 10)"
      by (simp only: put_take tx if_distrib [of "take sz"] append_assoc [symmetric] split: if_split)
        simp
    moreover have "snprintf_loop sz (c # d # p) args o1
        = snprintf_loop sz p args' (put sz (if ?n < 0 then put sz o1 [45] else o1)
            (rev (num_buffer 12 (if ?n < 0 then s32 (- ?n) else ?n))))" if "length o1 < sz" for o1
      using int a that by (simp add: Let_def)
    ultimately show ?thesis using int f' IH abs by (simp only: append_assoc)
  qed
qed simp

subsection \<open>Properties\<close>

text \<open>
  \<^verbatim>\<open>atoi\<close> reads back what \<^verbatim>\<open>int_to_str\<close> writes in base 10, for every \<^verbatim>\<open>int\<close> but the
  smallest, whose negation overflows.
\<close>

theorem atoi_int_to_str:
  assumes "- 2147483648 < n" and "n < 2147483648"
    and "cstr m p (int_to_str n 10)" and "p \<noteq> 0"
  shows "atoi m p = Some n"
proof -
  let ?ds = "rev (do_digits 10 (nat \<bar>n\<bar>))" and ?q = "if n < 0 then p + 1 else p"
  have ds: "\<forall>d\<in>set ?ds. d < 10" using do_digits_lt [of _ 10 "nat \<bar>n\<bar>"] by auto
  have v: "value_of 10 0 ?ds = nat \<bar>n\<bar>" by (simp add: value_do_digits)
  have s: "cstr m p ((if n < 0 then [45] else []) @ map digit_lower ?ds)"
    using assms by (simp add: int_to_str_10)
  then have "cstr m ?q (map digit_lower ?ds)" by (auto split: if_splits)
  then have dig: "atoi_digits m ?q 0 = Some \<bar>n\<bar>"
    using atoi_digits_value [of m ?q ?ds 0] ds v assms by simp
  have first: "m p = (if n < 0 then 45 else digit_lower (hd ?ds))" "hd ?ds < 10"
  proof -
    have "?ds \<noteq> []" by (simp add: do_digits_def)
    then obtain d ds' where "?ds = d # ds'" by (cases ?ds) auto
    then show "m p = (if n < 0 then 45 else digit_lower (hd ?ds))" "hd ?ds < 10"
      using s ds by (auto split: if_splits)
  qed
  have "uint (m p) \<noteq> 32 \<and> uint (m p) \<noteq> 9 \<and> uint (m p) \<noteq> 10 \<and> uint (m p) \<noteq> 43
      \<and> (uint (m p) = 45 \<longleftrightarrow> n < 0)"
    using first by auto
  then have c: "m p \<noteq> 32" "m p \<noteq> 9" "m p \<noteq> 10" "m p \<noteq> 43" "m p = 45 \<longleftrightarrow> n < 0"
    by (auto simp: word_uint_eq_iff)
  then have "atoi_skip m p = Some p" by (simp add: atoi_skip.simps)
  then show ?thesis using assms c dig by (auto simp: atoi_def)
qed

theorem atoi_int_to_str_witness:
  "atoi (write_bytes 100 (lit ''-73'' @ [0]) (\<lambda>_. 0)) 100 = Some (- 73)"
proof -
  have "int_to_str (- 73) 10 = lit ''-73''"
    by (simp add: int_to_str_10 do_digits_def nat_digits.simps digit_lower_def lit_def)
  then show ?thesis
    using atoi_int_to_str [of "- 73" "write_bytes 100 (lit ''-73'' @ [0]) (\<lambda>_. 0)" 100]
    by (simp add: lit_def)
qed

text \<open>
  \<^verbatim>\<open>strtoul\<close> in base 16 reads back every 32-bit number that \<^verbatim>\<open>int_to_hex_str2\<close> writes in
  either case and stops at the end of the string, although it accumulates the
  value in a signed \<^verbatim>\<open>int\<close>; the 32 byte temporary buffer of the converter is never
  overrun.
\<close>

theorem strtoul_hex_roundtrip:
  assumes "cstr m p (int_to_hex_str2 v uppercase)"
  shows "strtoul m p 16 = Some (v, p + of_nat (length (int_to_hex_str2 v uppercase)))
    \<and> length (int_to_hex_str2 v uppercase) \<le> 8"
proof -
  let ?f = "if uppercase then hex_upper else hex_lower"
  let ?ds = "rev (do_digits 16 (unat v))"
  have ds: "\<forall>d\<in>set ?ds. d < 16" using do_digits_lt [of _ 16 "unat v"] by auto
  have s: "cstr m p (map ?f ?ds)" using assms by (simp add: int_to_hex_str2_def rev_map)
  have v: "value_of 16 0 ?ds = unat v" by (simp add: value_do_digits)
  obtain d ds' where cons: "?ds = d # ds'" by (cases ?ds) (auto simp: do_digits_def)
  have "\<not> isspace (uint (m p))" using s ds cons by auto
  then have skip: "skip_space m p = Some p" by (simp add: skip_space.simps)
  have "strtoul_loop m 16 268435455 15 p (s32 (int 0))
      = Some (s32 (int (unat v)), p + of_nat (length ?ds))"
    using strtoul_loop_hex [of m p ?f ?ds 0] s ds v unat_lt_32 [of v] by simp
  then show ?thesis
    using skip hex_digits_fit [of v]
    by (simp add: strtoul_def int_to_hex_str2_def)
qed

theorem strtoul_hex_roundtrip_witness:
  "strtoul (write_bytes 100 (int_to_hex_str2 3735928559 True @ [0]) (\<lambda>_. 0)) 100 16
     = Some (3735928559, 108)"
proof -
  have "int_to_hex_str2 3735928559 True = lit ''DEADBEEF''"
    by (simp add: int_to_hex_str2_def do_digits_def nat_digits.simps hex_upper_def lit_def)
  then show ?thesis
    using strtoul_hex_roundtrip [of "write_bytes 100 (lit ''DEADBEEF'' @ [0]) (\<lambda>_. 0)" 100 3735928559 True]
    by (simp add: lit_def)
qed

text \<open>
  For formats built from text, \<^verbatim>\<open>%s\<close> and \<^verbatim>\<open>%d\<close>, \<^verbatim>\<open>snprintf\<close> renders what \<^verbatim>\<open>sprintf\<close>
  renders, cut to \<open>size - 1\<close> bytes and NUL terminated, and never stores more than
  \<open>size\<close> bytes; the return value is the rendered length capped at \<open>size\<close>.
\<close>

theorem snprintf_truncates_sprintf:
  assumes "sprintf fmt args = Some out" and "sd_only fmt" and "VInt 2147483648 \<notin> set args"
    and "0 < sz"
  shows "snprintf sz fmt args = Some (take (sz - 1) out @ [0], min sz (length out))"
proof -
  have "snprintf_loop sz fmt args [] = Some (take sz out)"
    using snprintf_loop_sprintf [OF assms(1-3), of sz "[]"] by simp
  moreover have "(take sz out)[sz - Suc 0 := 0] = take (sz - 1) out @ [0]" if "sz \<le> length out"
    using that assms(4)
    by (cases sz) (simp_all add: take_Suc_conv_app_nth list_update_append)
  ultimately show ?thesis
    using assms(4) by (auto simp: snprintf_def min_def)
qed

theorem snprintf_truncates_sprintf_witness:
  "snprintf 4 (lit ''%s/%d'') [VStr (Some (lit ''hd'')), VInt 10] = Some (lit ''hd/'' @ [0], 4)"
proof -
  have "int_to_str 10 10 = lit ''10''"
    by (simp add: int_to_str_10 do_digits_def nat_digits.simps digit_lower_def lit_def)
  then have "sprintf (lit ''%s/%d'') [VStr (Some (lit ''hd'')), VInt 10] = Some (lit ''hd/10'')"
    by (simp add: lit_def)
  from snprintf_truncates_sprintf [OF this, of 4] show ?thesis by (simp add: lit_def)
qed

text \<open>
  A negative number printed with the zero flag is padded twice, with blanks before
  the sign and with zeros after it, and overruns the field width.
\<close>

lemma printf_zero_pad_negative:
  "printf (lit ''%05d'') [VInt (- 42)] = Some (lit ''  -0042'')"
  by code_simp

end
