(* ===== verification/Bitmap.thy ===== *)
theory Bitmap
  imports Prelude
begin

text \<open>
  Interfaces of the two bitmap allocators of the kernel, the frame allocator of
  \<^verbatim>\<open>mm/kmalloc.c\<close> and the page allocator of \<^verbatim>\<open>arch/x86/mm/paging.c\<close>. The locale
  \<open>bitmap\<close> is the contract of testing, setting and clearing a bit; the locale
  \<open>bitmap_allocator\<close> adds a search for a clear bit in a range and proves once what
  both allocators owe their callers. Each allocator interprets both.
\<close>

subsection \<open>Bits of a word\<close>

lemma bit_or_exp [simp]:
  "i < LENGTH('a) \<Longrightarrow> bit (w OR 2 ^ i :: 'a::len word) j \<longleftrightarrow> bit w j \<or> j = i"
  by (auto simp: bit_or_iff bit_exp_iff possible_bit_def)

lemma bit_and_not_exp [simp]:
  "i < LENGTH('a) \<Longrightarrow> bit (w AND NOT (2 ^ i) :: 'a::len word) j \<longleftrightarrow> bit w j \<and> j \<noteq> i"
  by (auto simp: bit_and_iff bit_not_iff bit_exp_iff possible_bit_def dest: bit_imp_le_length)

lemma and_exp_eq_0 [simp]:
  "i < LENGTH('a) \<Longrightarrow> (w AND 2 ^ i :: 'a::len word) = 0 \<longleftrightarrow> \<not> bit w i"
proof
  assume "i < LENGTH('a)" and "w AND 2 ^ i = 0"
  then have "\<not> bit (w AND 2 ^ i) i" by simp
  with \<open>i < LENGTH('a)\<close> show "\<not> bit w i" by (simp add: bit_and_iff bit_exp_iff possible_bit_def)
next
  assume "\<not> bit w i"
  then show "w AND 2 ^ i = 0"
    by (intro bit_word_eqI) (auto simp: bit_and_iff bit_exp_iff)
qed

subsection \<open>A bitmap\<close>

locale bitmap =
  fixes test :: "'b \<Rightarrow> nat \<Rightarrow> bool"
    and mark :: "nat \<Rightarrow> 'b \<Rightarrow> 'b"
    and unmark :: "nat \<Rightarrow> 'b \<Rightarrow> 'b"
  assumes test_mark: "test (mark i b) j \<longleftrightarrow> j = i \<or> test b j"
    and test_unmark: "test (unmark i b) j \<longleftrightarrow> j \<noteq> i \<and> test b j"
begin

definition used :: "'b \<Rightarrow> nat set" where
  "used b = {i. test b i}"

lemma in_used [simp]: "i \<in> used b \<longleftrightarrow> test b i"
  by (simp add: used_def)

lemma used_mark: "used (mark i b) = insert i (used b)"
  by (auto simp: test_mark)

lemma used_unmark: "used (unmark i b) = used b - {i}"
  by (auto simp: test_unmark)

end

subsection \<open>Allocation from a range of a bitmap\<close>

text \<open>
  The number of free entries in the range \<open>{lo..<hi}\<close> is the resource: an
  allocation takes one, a release of an entry in use gives one back, and only an
  exhausted range refuses.
\<close>

locale bitmap_allocator = bitmap test mark unmark
  for test :: "'b \<Rightarrow> nat \<Rightarrow> bool" and mark unmark +
  fixes lo hi :: nat
    and find_free :: "'b \<Rightarrow> nat option"
  assumes find_free_Some: "find_free b = Some i \<Longrightarrow> lo \<le> i \<and> i < hi \<and> \<not> test b i"
    and find_free_None: "find_free b = None \<Longrightarrow> lo \<le> i \<Longrightarrow> i < hi \<Longrightarrow> test b i"
begin

definition free_count :: "'b \<Rightarrow> nat" where
  "free_count b = card ({lo..<hi} - used b)"

lemma find_free_iff: "find_free b = None \<longleftrightarrow> free_count b = 0"
proof
  assume "find_free b = None"
  then have "{lo..<hi} - used b = {}" using find_free_None by auto
  then show "free_count b = 0" by (simp add: free_count_def)
next
  assume "free_count b = 0"
  then have none: "{lo..<hi} - used b = {}" by (simp add: free_count_def)
  show "find_free b = None"
  proof (rule ccontr)
    assume "find_free b \<noteq> None"
    then obtain i where "find_free b = Some i" by auto
    with none find_free_Some [of b i] show False by auto
  qed
qed

lemma alloc_takes_one:
  assumes "find_free b = Some i"
  shows "free_count (mark i b) = free_count b - 1" and "0 < free_count b"
proof -
  have i: "i \<in> {lo..<hi} - used b" using find_free_Some [OF assms] by auto
  have "{lo..<hi} - used (mark i b) = ({lo..<hi} - used b) - {i}" by (auto simp: used_mark test_mark)
  with i show "free_count (mark i b) = free_count b - 1" by (simp add: free_count_def)
  from i show "0 < free_count b" by (auto simp: free_count_def card_gt_0_iff)
qed

lemma release_gives_one:
  assumes "test b i" and "lo \<le> i" and "i < hi"
  shows "free_count (unmark i b) = Suc (free_count b)"
proof -
  have "{lo..<hi} - used (unmark i b) = insert i ({lo..<hi} - used b)"
    using assms by (auto simp: test_unmark)
  with assms show ?thesis by (simp add: free_count_def)
qed

lemma release_undoes_alloc:
  "find_free b = Some i \<Longrightarrow> used (unmark i (mark i b)) = used b"
  using find_free_Some [of b i] by (auto simp: used_mark used_unmark)

end

end
