(* ===== verification/Kmalloc.thy ===== *)
theory Kmalloc
  imports Libc_Memory Bitmap "HOL-Library.Monad_Syntax"
begin

text \<open>
  The kernel heap and frame allocator (\<^verbatim>\<open>mm/kmalloc.c\<close>) with the interrupt safe
  spinlock that guards it (\<^verbatim>\<open>include/lib/spinlock.h\<close>). Block headers live in a typed
  heap from addresses to \<open>memory_block\<close>, payload bytes in the flat memory; a header that
  overlaps another one in part, which a page frame inside the heap can cause, is not
  seen by the typed heap. A loop
  over the block list, which ends only if the list does, is a
  \<open>partial_function (option)\<close>; \<open>None\<close> is also the outcome of a read through a pointer
  to no header and of a wait for a lock that is never released.
\<close>

subsection \<open>State\<close>

record memory_block =
  bsize :: u32
  bfree :: bool
  bnext :: addr

record kheap =
  total_memory :: u32
  frame_bitmap :: "nat \<Rightarrow> u8"
  blocks :: "addr \<rightharpoonup> memory_block"
  free_list :: addr
  heap_locked :: bool
  irq_on :: bool
  kmem :: mem

abbreviation BLOCK_SIZE :: u32 where "BLOCK_SIZE \<equiv> 12"
abbreviation FRAME_SIZE :: nat where "FRAME_SIZE \<equiv> 4096"
abbreviation HEAP_END :: u32 where "HEAP_END \<equiv> 0x0f000000"

definition ALIGN_UP :: "u32 \<Rightarrow> u32 \<Rightarrow> u32" where
  "ALIGN_UP a n = (a + (n - 1)) AND NOT (n - 1)"

subsection \<open>The heap lock\<close>

definition spinlock_acquire_irq :: "kheap \<Rightarrow> (bool \<times> kheap) option" where
  "spinlock_acquire_irq h =
     (if heap_locked h then None
      else Some (irq_on h, h\<lparr>heap_locked := True, irq_on := False\<rparr>))"

definition spinlock_release_irq :: "bool \<Rightarrow> kheap \<Rightarrow> kheap" where
  "spinlock_release_irq flags h = h\<lparr>heap_locked := False, irq_on := flags\<rparr>"

subsection \<open>Frames\<close>

definition set_frame :: "nat \<Rightarrow> (nat \<Rightarrow> u8) \<Rightarrow> (nat \<Rightarrow> u8)" where
  "set_frame frame bm = bm(frame div 8 := bm (frame div 8) OR push_bit (frame mod 8) 1)"

definition clear_frame :: "nat \<Rightarrow> (nat \<Rightarrow> u8) \<Rightarrow> (nat \<Rightarrow> u8)" where
  "clear_frame frame bm = bm(frame div 8 := bm (frame div 8) AND NOT (push_bit (frame mod 8) 1))"

definition test_frame :: "(nat \<Rightarrow> u8) \<Rightarrow> nat \<Rightarrow> bool" where
  "test_frame bm frame \<longleftrightarrow> bm (frame div 8) AND push_bit (frame mod 8) 1 \<noteq> 0"

text \<open>The address \<^verbatim>\<open>i * FRAME_SIZE\<close> of a frame.\<close>

definition frame_base :: "nat \<Rightarrow> addr" where
  "frame_base i = of_nat (i * FRAME_SIZE)"

text \<open>The search of \<^verbatim>\<open>allocate_frame\<close> starts at frame 1.\<close>

definition find_frame :: "nat \<Rightarrow> (nat \<Rightarrow> u8) \<Rightarrow> nat option" where
  "find_frame max_frames bm = find (\<lambda>i. \<not> test_frame bm i) [1..<max_frames]"

definition allocate_frame :: "kheap \<Rightarrow> kheap \<times> addr" where
  "allocate_frame h =
     (case find_frame (unat (total_memory h) div FRAME_SIZE) (frame_bitmap h) of
        Some i \<Rightarrow> (h\<lparr>frame_bitmap := set_frame i (frame_bitmap h)\<rparr>, frame_base i)
      | None \<Rightarrow> (h, 0))"

definition free_frame :: "addr \<Rightarrow> kheap \<Rightarrow> kheap" where
  "free_frame a h = h\<lparr>frame_bitmap := clear_frame (unat a div FRAME_SIZE) (frame_bitmap h)\<rparr>"

text \<open>
  The end of the kernel image is the linker's. The bitmap is placed at the start
  of the heap and one free block covers the rest.
\<close>

definition initialize_memory_system :: "addr \<Rightarrow> kheap \<Rightarrow> kheap" where
  "initialize_memory_system kernel_end h =
     (if total_memory h = 0 then h
      else
        let heap_start = ALIGN_UP kernel_end 16;
            bitmap_size = ALIGN_UP ((total_memory h div 4096 + 7) div 8) 16;
            bm = set_frame 0 (\<lambda>i. if i < unat bitmap_size then 0 else frame_bitmap h i);
            freelist_start = heap_start + bitmap_size
        in h\<lparr>frame_bitmap := bm,
             free_list := freelist_start,
             blocks := (blocks h)(freelist_start \<mapsto>
               \<lparr>bsize = HEAP_END - freelist_start - BLOCK_SIZE, bfree = True, bnext = 0\<rparr>)\<rparr>)"

subsection \<open>The block list\<close>

partial_function (option) find_fit ::
    "(addr \<rightharpoonup> memory_block) \<Rightarrow> u32 \<Rightarrow> addr \<Rightarrow> addr option" where
  "find_fit bs sz current =
     (if current = 0 then Some 0
      else do {
        b \<leftarrow> bs current;
        (if bfree b \<and> bsize b \<ge> sz then Some current else find_fit bs sz (bnext b)) })"

definition take_block :: "addr \<Rightarrow> u32 \<Rightarrow> (addr \<rightharpoonup> memory_block) \<Rightarrow> (addr \<rightharpoonup> memory_block)" where
  "take_block current sz bs =
     (case bs current of
        None \<Rightarrow> bs
      | Some b \<Rightarrow>
          if bsize b > sz + BLOCK_SIZE
          then bs(current + BLOCK_SIZE + sz \<mapsto>
                    \<lparr>bsize = bsize b - sz - BLOCK_SIZE, bfree = True, bnext = bnext b\<rparr>,
                  current \<mapsto> \<lparr>bsize = sz, bfree = False, bnext = current + BLOCK_SIZE + sz\<rparr>)
          else bs(current \<mapsto> b\<lparr>bfree := False\<rparr>))"

partial_function (option) find_last :: "(addr \<rightharpoonup> memory_block) \<Rightarrow> addr \<Rightarrow> addr option" where
  "find_last bs lst = do {
     b \<leftarrow> bs lst;
     (if bnext b \<noteq> 0 then find_last bs (bnext b) else Some lst) }"

text \<open>Appending a fresh frame as a free block.\<close>

definition append_frame :: "addr \<Rightarrow> kheap \<Rightarrow> kheap option" where
  "append_frame f h = do {
     let bs = (blocks h)(f \<mapsto> \<lparr>bsize = 4096 - BLOCK_SIZE, bfree = True, bnext = 0\<rparr>);
     l \<leftarrow> find_last bs (free_list h);
     b \<leftarrow> bs l;
     Some (h\<lparr>blocks := bs(l \<mapsto> b\<lparr>bnext := f\<rparr>)\<rparr>) }"

partial_function (option) k_malloc :: "u32 \<Rightarrow> kheap \<Rightarrow> (kheap \<times> addr) option" where
  "k_malloc sz h = do {
     (flags, h) \<leftarrow> spinlock_acquire_irq h;
     current \<leftarrow> find_fit (blocks h) sz (free_list h);
     (if current \<noteq> 0
      then Some (spinlock_release_irq flags (h\<lparr>blocks := take_block current sz (blocks h)\<rparr>),
                 current + BLOCK_SIZE)
      else if snd (allocate_frame h) = 0
      then Some (spinlock_release_irq flags (fst (allocate_frame h)), 0)
      else do {
        h \<leftarrow> append_frame (snd (allocate_frame h)) (fst (allocate_frame h));
        k_malloc sz (spinlock_release_irq flags h) }) }"

partial_function (option) merge_prev ::
    "(addr \<rightharpoonup> memory_block) \<Rightarrow> addr \<Rightarrow> addr \<Rightarrow> (addr \<rightharpoonup> memory_block) option" where
  "merge_prev bs block current =
     (if current = 0 then Some bs
      else do {
        c \<leftarrow> bs current;
        (if bnext c = block \<and> bfree c
         then do {
           b \<leftarrow> bs block;
           Some (bs(current \<mapsto> c\<lparr>bsize := bsize c + (bsize b + BLOCK_SIZE), bnext := bnext b\<rparr>)) }
         else merge_prev bs block (bnext c)) })"

text \<open>Absorbing the next block when it is free.\<close>

definition merge_next_block :: "(addr \<rightharpoonup> memory_block) \<Rightarrow> memory_block \<Rightarrow> memory_block option" where
  "merge_next_block bs b =
     (if bnext b = 0 then Some b
      else do {
        n \<leftarrow> bs (bnext b);
        Some (if bfree n then b\<lparr>bsize := bsize b + (bsize n + BLOCK_SIZE), bnext := bnext n\<rparr> else b) })"

definition k_free :: "addr \<Rightarrow> kheap \<Rightarrow> kheap option" where
  "k_free ptr h =
     (if ptr = 0 then Some h
      else do {
        (flags, h) \<leftarrow> spinlock_acquire_irq h;
        let block = ptr - BLOCK_SIZE;
        b \<leftarrow> blocks h block;
        if bfree b then Some (spinlock_release_irq flags h)
        else do {
          b \<leftarrow> merge_next_block (blocks h) (b\<lparr>bfree := True\<rparr>);
          bs \<leftarrow> merge_prev ((blocks h)(block \<mapsto> b)) block (free_list h);
          Some (spinlock_release_irq flags (h\<lparr>blocks := bs\<rparr>)) } })"

definition k_realloc :: "addr \<Rightarrow> u32 \<Rightarrow> kheap \<Rightarrow> (kheap \<times> addr) option" where
  "k_realloc ptr new_size h =
     (if ptr = 0 then k_malloc new_size h
      else if new_size = 0 then do { h \<leftarrow> k_free ptr h; Some (h, 0) }
      else do {
        b \<leftarrow> blocks h (ptr - BLOCK_SIZE);
        let old_size = bsize b;
        if new_size \<le> old_size then Some (h, ptr)
        else do {
          (h, new_ptr) \<leftarrow> k_malloc new_size h;
          if new_ptr = 0 then Some (h, 0)
          else do {
            let copy_size = (if old_size < new_size then old_size else new_size);
            let h = h\<lparr>kmem := fst (memmove new_ptr ptr copy_size (kmem h))\<rparr>;
            h \<leftarrow> k_free ptr h;
            Some (h, new_ptr) } } })"

end
