(* ===== verification/Kmalloc_Correct.thy ===== *)
theory Kmalloc_Correct
  imports Kmalloc
begin

text \<open>
  Correctness of the kernel heap. The linked list of headers is abstracted to a
  list of chunks; \<open>alloc_chunk\<close> and \<open>free_chunk\<close> are the first fit and coalescing
  specifications, \<open>tiles\<close> is the invariant that the chunks partition the heap
  range without gap or overlap. \<open>k_malloc\<close>, \<open>k_free\<close> and \<open>k_realloc\<close> refine the
  specifications and preserve the invariant.
\<close>

subsection \<open>The two interfaces of the frame bitmap\<close>

interpretation frames: bitmap test_frame set_frame clear_frame
proof
  have eq: "i = j \<longleftrightarrow> i div 8 = j div 8 \<and> i mod 8 = j mod 8" for i j :: nat
    by (metis div_mod_decomp)
  show "test_frame (set_frame i b) j \<longleftrightarrow> j = i \<or> test_frame b j" for i b j
    by (auto simp: test_frame_def set_frame_def eq [of j i])
  show "test_frame (clear_frame i b) j \<longleftrightarrow> j \<noteq> i \<and> test_frame b j" for i b j
    by (auto simp: test_frame_def clear_frame_def eq [of j i])
qed

interpretation frames: bitmap_allocator test_frame set_frame clear_frame 1 max_frames "find_frame max_frames"
  for max_frames
proof
  show "1 \<le> i \<and> i < max_frames \<and> \<not> test_frame b i" if "find_frame max_frames b = Some i" for b i
    using that by (auto simp: find_frame_def find_Some_iff)
  show "test_frame b i" if "find_frame max_frames b = None" "1 \<le> i" "i < max_frames" for b i
    using that by (auto simp: find_frame_def find_None_iff)
qed

subsection \<open>Specification: a list of chunks\<close>

type_synonym chunk = "addr \<times> u32 \<times> bool"

fun heap_list :: "(addr \<rightharpoonup> memory_block) \<Rightarrow> addr \<Rightarrow> chunk list \<Rightarrow> bool" where
  "heap_list bs p [] \<longleftrightarrow> p = 0"
| "heap_list bs p ((a, n, f) # cs) \<longleftrightarrow> p = a \<and> a \<noteq> 0 \<and>
     (\<exists>nx. bs a = Some \<lparr>bsize = n, bfree = f, bnext = nx\<rparr> \<and> heap_list bs nx cs)"

fun tiles :: "nat \<Rightarrow> chunk list \<Rightarrow> nat \<Rightarrow> bool" where
  "tiles s [] e \<longleftrightarrow> s = e"
| "tiles s ((a, n, f) # cs) e \<longleftrightarrow> unat a = s \<and> tiles (s + 12 + unat n) cs e"

text \<open>No two neighbours are free.\<close>

fun coalesced :: "chunk list \<Rightarrow> bool" where
  "coalesced ((a, n, f) # (b, k, g) # cs) \<longleftrightarrow> \<not> (f \<and> g) \<and> coalesced ((b, k, g) # cs)"
| "coalesced _ \<longleftrightarrow> True"

definition heap_inv :: "kheap \<Rightarrow> chunk list \<Rightarrow> bool" where
  "heap_inv h cs \<longleftrightarrow> heap_list (blocks h) (free_list h) cs
     \<and> tiles (unat (free_list h)) cs (unat HEAP_END)
     \<and> cs \<noteq> [] \<and> free_list h \<noteq> 0 \<and> coalesced cs \<and> \<not> heap_locked h"

text \<open>First fit, splitting off the rest when it can hold a header and at least one byte.\<close>

fun alloc_chunk :: "u32 \<Rightarrow> chunk list \<Rightarrow> (addr \<times> chunk list) option" where
  "alloc_chunk sz [] = None"
| "alloc_chunk sz ((a, n, f) # cs) =
     (if f \<and> sz \<le> n
      then Some (a, if sz + 12 < n then (a, sz, False) # (a + 12 + sz, n - sz - 12, True) # cs
                    else (a, n, False) # cs)
      else map_option (\<lambda>(p, cs'). (p, (a, n, f) # cs')) (alloc_chunk sz cs))"

text \<open>Releasing a chunk joins it with a free successor and a free predecessor.\<close>

fun join_next :: "chunk \<Rightarrow> chunk list \<Rightarrow> chunk list" where
  "join_next (a, n, f) ((b, k, g) # cs) =
     (if g then (a, n + (k + 12), f) # cs else (a, n, f) # (b, k, g) # cs)"
| "join_next c [] = [c]"

fun mark_free :: "addr \<Rightarrow> chunk list \<Rightarrow> chunk list" where
  "mark_free p [] = []"
| "mark_free p ((a, n, f) # cs) =
     (if a = p then join_next (a, n, True) cs else (a, n, f) # mark_free p cs)"

fun join_prev :: "addr \<Rightarrow> chunk list \<Rightarrow> chunk list" where
  "join_prev p ((a, n, f) # (b, k, g) # cs) =
     (if b = p \<and> f then (a, n + (k + 12), f) # cs else (a, n, f) # join_prev p ((b, k, g) # cs))"
| "join_prev p cs = cs"

definition free_chunk :: "addr \<Rightarrow> chunk list \<Rightarrow> chunk list" where
  "free_chunk p cs = join_prev p (mark_free p cs)"

subsection \<open>Facts about tilings\<close>

lemma tiles_bounds:
  "tiles s cs e \<Longrightarrow> (a, n, f) \<in> set cs \<Longrightarrow> s \<le> unat a \<and> unat a + 12 + unat n \<le> e"
proof (induction s cs e rule: tiles.induct)
  case (2 s a' n' f' cs e)
  have le: "t \<le> e" if "tiles t cs e" for t
    using that by (induction t cs e rule: tiles.induct) auto
  show ?case using 2 le [of "s + 12 + unat n'"] by fastforce
qed simp

lemma tiles_le: "tiles s cs e \<Longrightarrow> s \<le> e"
  by (induction s cs e rule: tiles.induct) auto

lemma tiles_tail_above:
  "tiles s ((a, n, f) # cs) e \<Longrightarrow> c \<in> set cs \<Longrightarrow> s + 12 + unat n \<le> unat (fst c)"
  using tiles_bounds [of "s + 12 + unat n" cs e "fst c" "fst (snd c)" "snd (snd c)"] by simp

lemma tiles_distinct: "tiles s cs e \<Longrightarrow> distinct (map fst cs)"
proof (induction s cs e rule: tiles.induct)
  case (2 s a n f cs e)
  then have "a \<notin> fst ` set cs" using tiles_tail_above [OF "2.prems"] by fastforce
  with 2 show ?case by simp
qed simp

text \<open>Two different chunks of a tiling do not overlap.\<close>

lemma tiles_disjoint:
  "tiles s cs e \<Longrightarrow> (a, n, f) \<in> set cs \<Longrightarrow> (b, k, g) \<in> set cs \<Longrightarrow> a \<noteq> b \<Longrightarrow>
     unat a + 12 + unat n \<le> unat b \<or> unat b + 12 + unat k \<le> unat a"
proof (induction s cs e rule: tiles.induct)
  case (2 s a' n' f' cs e)
  have rest: "tiles (s + 12 + unat n') cs e" using 2 by simp
  show ?case
    using 2 tiles_bounds [OF rest, of a n f] tiles_bounds [OF rest, of b k g] by auto
qed simp

lemma unat_sub_12:
  assumes "sz \<le> n" and "sz + 12 < n" and "unat n + 12 < 4294967296"
  shows "unat (n - sz - 12 :: u32) = unat n - unat sz - 12" and "unat sz + 12 < unat n"
proof -
  have "unat (sz + 12) = unat sz + 12"
    using unat_add_no_wrap [of sz 12] assms by (simp add: word_le_nat_alt)
  then show lt: "unat sz + 12 < unat n" using assms by (simp add: word_less_nat_alt)
  have "unat (n - sz) = unat n - unat sz" using assms by (simp add: unat_sub)
  then show "unat (n - sz - 12) = unat n - unat sz - 12"
    using lt by (simp add: unat_sub word_le_nat_alt)
qed

lemma unat_offset:
  "unat a + 12 + unat n < 4294967296 \<Longrightarrow> unat (a + 12 + n :: addr) = unat a + 12 + unat n"
  using unat_add_no_wrap [of a 12] unat_add_no_wrap [of "a + 12" "unat n"] by simp

lemma unat_join:
  "unat n + 12 + unat k < 4294967296 \<Longrightarrow> unat (n + (k + 12) :: u32) = unat n + 12 + unat k"
  using unat_add_no_wrap [of k 12] unat_add_no_wrap [of n "unat (k + 12)"] by simp

lemma alloc_chunk_mem:
  "alloc_chunk sz cs = Some (a, cs') \<Longrightarrow> \<exists>n. (a, n, True) \<in> set cs \<and> sz \<le> n"
  by (induction sz cs arbitrary: cs' rule: alloc_chunk.induct) (auto split: if_splits)

lemma alloc_chunk_tiles:
  "alloc_chunk sz cs = Some (a, cs') \<Longrightarrow> tiles s cs e \<Longrightarrow> e < 4294967296 \<Longrightarrow> tiles s cs' e"
proof (induction sz cs arbitrary: s cs' rule: alloc_chunk.induct)
  case (2 sz b n f cs)
  have e: "s + 12 + unat n \<le> e" and b: "unat b = s"
    using "2.prems"(2) tiles_le by auto
  show ?case
  proof (cases "f \<and> sz \<le> n \<and> sz + 12 < n")
    case True
    note sub = unat_sub_12 [of sz n]
    have "unat (b + 12 + sz) = s + 12 + unat sz"
      using unat_offset [of b sz] sub True e b "2.prems"(3) by simp
    then show ?thesis using 2 True sub e by (auto simp: add.commute add.left_commute)
  next
    case False
    then show ?thesis using 2 by (auto split: if_splits)
  qed
qed simp

lemma join_next_tiles:
  "tiles s ((a, n, f) # cs) e \<Longrightarrow> e < 4294967296 \<Longrightarrow> tiles s (join_next (a, n, g) cs) e"
proof (cases cs)
  case (Cons c ds)
  assume t: "tiles s ((a, n, f) # cs) e" and e: "e < 4294967296"
  obtain b k g' where c: "c = (b, k, g')" by (cases c)
  have "s + 12 + unat n + 12 + unat k \<le> e"
    using tiles_bounds [OF t, of b k g'] tiles_tail_above [OF t, of c] Cons c by simp
  then show ?thesis using t e Cons c unat_join [of n k] by (simp add: algebra_simps)
qed simp

lemma mark_free_tiles: "tiles s cs e \<Longrightarrow> e < 4294967296 \<Longrightarrow> tiles s (mark_free p cs) e"
proof (induction p cs arbitrary: s rule: mark_free.induct)
  case (2 p a n f cs)
  then show ?case using join_next_tiles [of s a n f cs e True] by auto
qed simp

lemma join_prev_tiles: "tiles s cs e \<Longrightarrow> e < 4294967296 \<Longrightarrow> tiles s (join_prev p cs) e"
proof (induction p cs arbitrary: s rule: join_prev.induct)
  case (1 p a n f b k g cs)
  have "s + 12 + unat n + 12 + unat k \<le> e"
    using "1.prems"(1) tiles_le [of "s + 12 + unat n + 12 + unat k" cs e] by simp
  then show ?case using 1 unat_join [of n k] by (auto simp: algebra_simps)
qed simp_all

lemma free_chunk_tiles: "tiles s cs e \<Longrightarrow> e < 4294967296 \<Longrightarrow> tiles s (free_chunk p cs) e"
  by (simp add: free_chunk_def join_prev_tiles mark_free_tiles)

subsection \<open>Coalescing\<close>

abbreviation is_free :: "chunk \<Rightarrow> bool" where
  "is_free c \<equiv> snd (snd c)"

lemma coalesced_Cons:
  "coalesced (c # cs) \<longleftrightarrow> (cs = [] \<or> \<not> (is_free c \<and> is_free (hd cs))) \<and> coalesced cs"
  by (cases c; cases cs) auto

lemma coalesced_append:
  "coalesced (xs @ ys) \<longleftrightarrow> coalesced xs \<and> coalesced ys
     \<and> (xs = [] \<or> ys = [] \<or> \<not> (is_free (last xs) \<and> is_free (hd ys)))"
  by (induction xs) (auto simp: coalesced_Cons)

text \<open>Where an allocation cuts the list.\<close>

definition carve :: "u32 \<Rightarrow> addr \<Rightarrow> u32 \<Rightarrow> chunk list" where
  "carve sz a n =
     (if sz + 12 < n then [(a, sz, False), (a + 12 + sz, n - sz - 12, True)] else [(a, n, False)])"

lemma alloc_chunk_split:
  assumes "alloc_chunk sz cs = Some (a, cs')"
  obtains xs n ys where "cs = xs @ (a, n, True) # ys" and "sz \<le> n"
    and "cs' = xs @ carve sz a n @ ys" and "\<forall>(b, k, f)\<in>set xs. \<not> (f \<and> sz \<le> k)"
proof -
  have "\<exists>xs n ys. cs = xs @ (a, n, True) # ys \<and> sz \<le> n \<and> cs' = xs @ carve sz a n @ ys
      \<and> (\<forall>(b, k, f)\<in>set xs. \<not> (f \<and> sz \<le> k))"
    using assms
  proof (induction sz cs arbitrary: cs' rule: alloc_chunk.induct)
    case (2 sz b n f cs)
    show ?case
    proof (cases "f \<and> sz \<le> n")
      case True
      then show ?thesis using "2.prems" by (intro exI [of _ "[]"]) (auto simp: carve_def)
    next
      case False
      then obtain ds where ds: "alloc_chunk sz cs = Some (a, ds)" "cs' = (b, n, f) # ds"
        using "2.prems" by auto
      from "2.IH" [OF False ds(1)] obtain xs k ys where
        "cs = xs @ (a, k, True) # ys" "sz \<le> k" "ds = xs @ carve sz a k @ ys"
        "\<forall>(b, k, f)\<in>set xs. \<not> (f \<and> sz \<le> k)" by blast
      with False ds show ?thesis by (intro exI [of _ "(b, n, f) # xs"]) auto
    qed
  qed simp
  then show ?thesis using that by blast
qed

lemma alloc_chunk_coalesced:
  assumes "alloc_chunk sz cs = Some (a, cs')" and "coalesced cs"
  shows "coalesced cs'"
  using assms(1)
proof (rule alloc_chunk_split)
  fix xs n ys
  assume "cs = xs @ (a, n, True) # ys" "cs' = xs @ carve sz a n @ ys"
  with assms(2) show ?thesis by (auto simp: carve_def coalesced_append coalesced_Cons)
qed

text \<open>Where a release joins: \<open>join_next\<close> yields one chunk whose successor is in use.\<close>

lemma join_next_obtain:
  assumes "coalesced cs"
  obtains n' ds where "join_next (a, n, f) cs = (a, n', f) # ds" and "coalesced ds"
    and "ds = [] \<or> \<not> is_free (hd ds)" and "fst ` set ds \<subseteq> fst ` set cs"
proof (cases cs)
  case Nil
  then show ?thesis using that [of n "[]"] by simp
next
  case (Cons c ds)
  obtain b k g where c: "c = (b, k, g)" by (cases c)
  show ?thesis
  proof (cases g)
    case True
    then show ?thesis using that [of "n + (k + 12)" ds] assms Cons c by (auto simp: coalesced_Cons)
  next
    case False
    then show ?thesis using that [of n cs] assms Cons c by auto
  qed
qed

lemma mark_free_append:
  "p \<notin> fst ` set xs \<Longrightarrow> mark_free p (xs @ (p, n, f) # ys) = xs @ join_next (p, n, True) ys"
  by (induction xs) auto

lemma join_prev_append:
  "p \<notin> fst ` set xs \<Longrightarrow> p \<notin> fst ` set ys \<Longrightarrow>
     join_prev p (xs @ (p, k, g) # ys) =
       (if xs \<noteq> [] \<and> is_free (last xs)
        then butlast xs @ (fst (last xs), fst (snd (last xs)) + (k + 12), True) # ys
        else xs @ (p, k, g) # ys)"
proof (induction xs)
  case Nil
  have "q \<notin> fst ` set (tl cs) \<Longrightarrow> join_prev q cs = cs" for q cs
    by (induction q cs rule: join_prev.induct) auto
  from this [of p "(p, k, g) # ys"] Nil show ?case by simp
next
  case (Cons x xs)
  then show ?case by (cases x; cases xs) auto
qed

lemma free_chunk_coalesced:
  assumes "cs = xs @ (p, n, f) # ys" and "coalesced cs" and "distinct (map fst cs)"
  shows "coalesced (free_chunk p cs)"
proof -
  have ys: "coalesced ys" and xs: "coalesced xs" and p: "p \<notin> fst ` set xs" "p \<notin> fst ` set ys"
    using assms by (auto simp: coalesced_append coalesced_Cons)
  obtain n' ds where j: "join_next (p, n, True) ys = (p, n', True) # ds" "coalesced ds"
    "ds = [] \<or> \<not> is_free (hd ds)" "fst ` set ds \<subseteq> fst ` set ys"
    using join_next_obtain [OF ys] by blast
  have "free_chunk p cs = join_prev p (xs @ (p, n', True) # ds)"
    using assms(1) p j(1) by (simp add: free_chunk_def mark_free_append)
  also have "\<dots> = (if xs \<noteq> [] \<and> is_free (last xs)
        then butlast xs @ (fst (last xs), fst (snd (last xs)) + (n' + 12), True) # ds
        else xs @ (p, n', True) # ds)"
    using p j(4) by (intro join_prev_append) auto
  finally show ?thesis
  proof (cases xs rule: rev_cases)
    case Nil
    assume "free_chunk p cs = (if xs \<noteq> [] \<and> is_free (last xs)
        then butlast xs @ (fst (last xs), fst (snd (last xs)) + (n' + 12), True) # ds
        else xs @ (p, n', True) # ds)"
    with Nil j show ?thesis by (auto simp: coalesced_Cons)
  next
    case (snoc zs z)
    assume "free_chunk p cs = (if xs \<noteq> [] \<and> is_free (last xs)
        then butlast xs @ (fst (last xs), fst (snd (last xs)) + (n' + 12), True) # ds
        else xs @ (p, n', True) # ds)"
    with snoc j xs show ?thesis by (auto simp: coalesced_append coalesced_Cons)
  qed
qed

text \<open>Releasing what was just allocated restores the list.\<close>

lemma free_alloc_chunk:
  assumes "alloc_chunk sz cs = Some (a, cs')" and "coalesced cs" and "distinct (map fst cs)"
  shows "free_chunk a cs' = cs"
  using assms(1)
proof (rule alloc_chunk_split)
  fix xs n ys
  assume cs: "cs = xs @ (a, n, True) # ys" and n: "sz \<le> n" and cs': "cs' = xs @ carve sz a n @ ys"
  have a: "a \<notin> fst ` set xs" "a \<notin> fst ` set ys" using assms(3) cs by auto
  have last: "\<not> (xs \<noteq> [] \<and> is_free (last xs))" and hd: "ys = [] \<or> \<not> is_free (hd ys)"
    using assms(2) cs by (auto simp: coalesced_append coalesced_Cons)
  have "mark_free a cs' = xs @ (a, n, True) # ys"
  proof (cases "sz + 12 < n")
    case True
    then show ?thesis using cs' a by (simp add: carve_def mark_free_append)
  next
    case False
    then show ?thesis using cs' a hd by (cases ys) (auto simp: carve_def mark_free_append)
  qed
  then show ?thesis
    using last cs join_prev_append [OF a, of n True] by (auto simp: free_chunk_def)
qed

subsection \<open>Refinement of the list walks\<close>

lemma heap_list_upd [simp]:
  "a \<notin> fst ` set cs \<Longrightarrow> heap_list (bs(a \<mapsto> b)) p cs \<longleftrightarrow> heap_list bs p cs"
  by (induction bs p cs rule: heap_list.induct) auto

lemma heap_list_upd_if [simp]:
  "a \<notin> fst ` set cs \<Longrightarrow> heap_list (\<lambda>x. if x = a then Some b else bs x) p cs \<longleftrightarrow> heap_list bs p cs"
  using heap_list_upd [of a cs bs b p] by (simp add: fun_upd_def)

lemma heap_list_agree:
  "heap_list bs p cs \<Longrightarrow> (\<And>a. a \<in> fst ` set cs \<Longrightarrow> bs' a = bs a) \<Longrightarrow> heap_list bs' p cs"
  by (induction bs p cs rule: heap_list.induct) auto

lemma heap_list_nonzero: "heap_list bs p cs \<Longrightarrow> c \<in> set cs \<Longrightarrow> fst c \<noteq> 0"
  by (induction bs p cs rule: heap_list.induct) auto

lemma heap_list_hd: "heap_list bs p cs \<Longrightarrow> p = (if cs = [] then 0 else fst (hd cs))"
  by (cases cs) auto

lemma heap_list_lookup:
  "heap_list bs p cs \<Longrightarrow> (a, n, f) \<in> set cs \<Longrightarrow> \<exists>nx. bs a = Some \<lparr>bsize = n, bfree = f, bnext = nx\<rparr>"
  by (induction bs p cs rule: heap_list.induct) auto

lemma find_fit_refines:
  "heap_list bs p cs \<Longrightarrow>
     find_fit bs sz p = Some (case alloc_chunk sz cs of None \<Rightarrow> 0 | Some (a, _) \<Rightarrow> a)"
proof (induction bs p cs rule: heap_list.induct)
  case (2 bs p a n f cs)
  then show ?case
    by (subst find_fit.simps) (auto split: option.splits)
qed (simp add: find_fit.simps)

lemma take_block_refines:
  "heap_list bs p cs \<Longrightarrow> alloc_chunk sz cs = Some (a, cs') \<Longrightarrow> tiles s cs e \<Longrightarrow>
     e < 4294967296 \<Longrightarrow> heap_list (take_block a sz bs) p cs'"
proof (induction bs p cs arbitrary: s cs' rule: heap_list.induct)
  case (2 bs p b n f cs)
  obtain nx where nx: "bs b = Some \<lparr>bsize = n, bfree = f, bnext = nx\<rparr>" "heap_list bs nx cs"
    and b: "p = b" "b \<noteq> 0" "unat b = s"
    using "2.prems" by auto
  have above: "\<And>c. c \<in> set cs \<Longrightarrow> s + 12 + unat n \<le> unat (fst c)"
    using tiles_tail_above [OF "2.prems"(3)] .
  have bound: "s + 12 + unat n \<le> e" using "2.prems"(3) tiles_le by auto
  have bcs: "b \<notin> fst ` set cs" using above b by fastforce
  show ?case
  proof (cases "f \<and> sz \<le> n")
    case fit: True
    then have a: "a = b" using "2.prems" by auto
    show ?thesis
    proof (cases "sz + 12 < n")
      case True
      let ?new = "b + 12 + sz"
      have lt: "unat sz + 12 < unat n"
        using unat_sub_12 [of sz n] fit True bound "2.prems"(4) by simp
      then have new: "unat ?new = s + 12 + unat sz"
        using unat_offset [of b sz] b bound "2.prems"(4) by simp
      then have "?new \<notin> fst ` set cs" using above lt by fastforce
      moreover have "?new \<noteq> b"
      proof
        assume "?new = b"
        then have "unat ?new = unat b" by (rule arg_cong)
        with new b show False by simp
      qed
      moreover have "?new \<noteq> 0" using new by (auto simp: unat_eq_0)
      moreover have "heap_list (take_block b sz bs) nx cs"
      proof (rule heap_list_agree [OF nx(2)])
        fix x
        assume "x \<in> fst ` set cs"
        then have "x \<noteq> b" "x \<noteq> ?new" using bcs \<open>?new \<notin> fst ` set cs\<close> by blast+
        then show "take_block b sz bs x = bs x" using True nx by (simp add: take_block_def)
      qed
      moreover have "take_block b sz bs b = Some \<lparr>bsize = sz, bfree = False, bnext = ?new\<rparr>"
        using True nx by (simp add: take_block_def)
      moreover have "take_block b sz bs ?new =
          Some \<lparr>bsize = n - sz - 12, bfree = True, bnext = nx\<rparr>"
        using True nx \<open>?new \<noteq> b\<close> by (simp add: take_block_def)
      ultimately show ?thesis
        using fit True a b "2.prems" by auto
    next
      case False
      then show ?thesis
        using fit a nx b bcs "2.prems" by (auto simp: take_block_def)
    qed
  next
    case False
    then obtain ds where ds: "alloc_chunk sz cs = Some (a, ds)" "cs' = (b, n, f) # ds"
      using "2.prems" by auto
    obtain k where k: "(a, k, True) \<in> set cs" "sz \<le> k" using alloc_chunk_mem [OF ds(1)] by auto
    have ab: "unat b < unat a" using above [OF k(1)] b by simp
    have ak: "unat a + 12 + unat k \<le> e" using tiles_bounds [of _ cs e a k True] k "2.prems"(3) by auto
    then have "unat (a + 12 + sz) = unat a + 12 + unat sz"
      using unat_offset [of a sz] k(2) "2.prems"(4) by (simp add: word_le_nat_alt)
    then have "a + 12 + sz \<noteq> b" using ab by auto
    then have "take_block a sz bs b = bs b"
      using ab by (auto simp: take_block_def split: option.splits)
    then show ?thesis
      using 2 False ds nx b by auto
  qed
qed simp

lemma merge_next_refines:
  assumes "heap_list bs nx cs" and "b = \<lparr>bsize = n, bfree = True, bnext = nx\<rparr>"
    and "a \<noteq> 0" and "a \<notin> fst ` set cs"
  shows "\<exists>b'. merge_next_block bs b = Some b' \<and> heap_list (bs(a \<mapsto> b')) a (join_next (a, n, True) cs)"
proof (cases cs)
  case Nil
  then show ?thesis using assms by (simp add: merge_next_block_def)
next
  case (Cons c ds)
  then show ?thesis
    using assms by (cases c) (auto simp: merge_next_block_def)
qed

lemma join_next_fst: "fst ` set (join_next c cs) \<subseteq> insert (fst c) (fst ` set cs)"
  by (cases c; cases cs) (auto split: if_splits)

lemma mark_free_fst: "fst ` set (mark_free p cs) \<subseteq> fst ` set cs"
proof (induction p cs rule: mark_free.induct)
  case (2 p a n f cs)
  then show ?case using join_next_fst [of "(a, n, True)" cs] by auto
qed simp

lemma mark_free_refines:
  "heap_list bs q cs \<Longrightarrow> distinct (map fst cs) \<Longrightarrow> (p, n, f) \<in> set cs \<Longrightarrow>
     \<exists>b b'. bs p = Some b \<and> bsize b = n \<and> bfree b = f \<and>
       merge_next_block bs (b\<lparr>bfree := True\<rparr>) = Some b' \<and> heap_list (bs(p \<mapsto> b')) q (mark_free p cs)"
proof (induction bs q cs rule: heap_list.induct)
  case (2 bs q a k g cs)
  obtain nx where nx: "bs a = Some \<lparr>bsize = k, bfree = g, bnext = nx\<rparr>" "heap_list bs nx cs"
    and a: "q = a" "a \<noteq> 0" "a \<notin> fst ` set cs"
    using "2.prems" by auto
  show ?case
  proof (cases "a = p")
    case True
    then have "k = n" "g = f" using "2.prems" a by force+
    then show ?thesis
      using merge_next_refines [OF nx(2), of _ k p] nx a True by (auto simp: fun_upd_def)
  next
    case False
    then show ?thesis using 2 nx a by auto
  qed
qed simp

lemma merge_prev_refines:
  "heap_list bs q cs \<Longrightarrow> distinct (map fst cs) \<Longrightarrow> p \<noteq> 0 \<Longrightarrow>
     \<exists>bs'. merge_prev bs p q = Some bs' \<and> heap_list bs' q (join_prev p cs)
       \<and> (\<forall>a. a \<notin> fst ` set cs \<longrightarrow> bs' a = bs a)"
proof (induction p cs arbitrary: q rule: join_prev.induct)
  case (1 p a n f b k g cs)
  obtain nx where nx: "bs a = Some \<lparr>bsize = n, bfree = f, bnext = b\<rparr>"
      "bs b = Some \<lparr>bsize = k, bfree = g, bnext = nx\<rparr>" "heap_list bs nx cs"
    and a: "q = a" "a \<noteq> 0" "b \<noteq> 0" "a \<notin> fst ` set ((b, k, g) # cs)"
    using "1.prems" by auto
  show ?case
  proof (cases "b = p \<and> f")
    case True
    then show ?thesis using nx a by (subst merge_prev.simps) auto
  next
    case False
    then obtain bs' where bs': "merge_prev bs p b = Some bs'" "heap_list bs' b (join_prev p ((b, k, g) # cs))"
      "\<forall>x. x \<notin> fst ` set ((b, k, g) # cs) \<longrightarrow> bs' x = bs x"
      using "1.IH" [of b] "1.prems" nx a by auto
    have "merge_prev bs p q = Some bs'"
      using False bs'(1) nx a by (subst merge_prev.simps) auto
    moreover have "bs' a = bs a" using bs'(3) a by blast
    ultimately show ?thesis using False bs' nx a by auto
  qed
qed (auto simp: merge_prev.simps)

subsection \<open>The operations on the heap\<close>

lemmas lock_defs = spinlock_acquire_irq_def spinlock_release_irq_def

lemma HEAP_END_lt: "unat HEAP_END < 4294967296"
  by simp

lemma heap_inv_distinct: "heap_inv h cs \<Longrightarrow> distinct (map fst cs)"
  by (auto simp: heap_inv_def dest: tiles_distinct)

lemma k_malloc_refines:
  assumes inv: "heap_inv h cs" and "alloc_chunk sz cs = Some (a, cs')"
  defines "h' \<equiv> h\<lparr>blocks := take_block a sz (blocks h)\<rparr>"
  shows "k_malloc sz h = Some (h', a + 12)" and "heap_inv h' cs'"
proof -
  have hl: "heap_list (blocks h) (free_list h) cs" and t: "tiles (unat (free_list h)) cs (unat HEAP_END)"
    using inv by (auto simp: heap_inv_def)
  obtain n where "(a, n, True) \<in> set cs" using alloc_chunk_mem [OF assms(2)] by auto
  then have "a \<noteq> 0" using heap_list_nonzero [OF hl] by force
  then show "k_malloc sz h = Some (h', a + 12)"
    using inv assms(2) find_fit_refines [OF hl, of sz]
    by (subst k_malloc.simps) (simp add: lock_defs heap_inv_def h'_def)
  have "cs' \<noteq> []" using assms(2) by (rule alloc_chunk_split) (simp add: carve_def)
  then show "heap_inv h' cs'"
    using inv take_block_refines [OF hl assms(2) t] alloc_chunk_tiles [OF assms(2) t]
      alloc_chunk_coalesced [OF assms(2)]
    by (simp add: heap_inv_def h'_def)
qed

lemma join_prev_nonempty: "cs \<noteq> [] \<Longrightarrow> join_prev p cs \<noteq> []"
  by (induction p cs rule: join_prev.induct) auto

lemma mark_free_nonempty: "cs \<noteq> [] \<Longrightarrow> mark_free p cs \<noteq> []"
proof (cases cs)
  case (Cons c ds)
  then show ?thesis by (cases c; cases ds) (auto split: if_splits)
qed simp

lemma k_free_refines:
  assumes inv: "heap_inv h cs" and mem: "(a, n, False) \<in> set cs"
  shows "\<exists>bs'. k_free (a + 12) h = Some (h\<lparr>blocks := bs'\<rparr>)
    \<and> heap_inv (h\<lparr>blocks := bs'\<rparr>) (free_chunk a cs)"
proof -
  have hl: "heap_list (blocks h) (free_list h) cs" and t: "tiles (unat (free_list h)) cs (unat HEAP_END)"
    and unlocked: "\<not> heap_locked h" and co: "coalesced cs" and ne: "cs \<noteq> []"
    using inv by (auto simp: heap_inv_def)
  note dist = heap_inv_distinct [OF inv]
  have a0: "a \<noteq> 0" using heap_list_nonzero [OF hl mem] by simp
  have p0: "a + 12 \<noteq> 0"
  proof -
    have "unat a + 12 + unat n \<le> unat HEAP_END" using tiles_bounds [OF t mem] by simp
    then have "unat (a + 12) = unat a + 12" using unat_add_no_wrap [of a 12] by simp
    then show ?thesis by (auto simp: unat_eq_0)
  qed
  obtain b b' where b: "blocks h a = Some b" "\<not> bfree b"
    "merge_next_block (blocks h) (b\<lparr>bfree := True\<rparr>) = Some b'"
    "heap_list ((blocks h)(a \<mapsto> b')) (free_list h) (mark_free a cs)"
    using mark_free_refines [OF hl dist mem] by auto
  have dist': "distinct (map fst (mark_free a cs))"
    using mark_free_tiles [OF t, of a] by (auto intro: tiles_distinct)
  obtain bs' where bs': "merge_prev ((blocks h)(a \<mapsto> b')) a (free_list h) = Some bs'"
    "heap_list bs' (free_list h) (free_chunk a cs)"
    using merge_prev_refines [OF b(4) dist' a0] by (auto simp: free_chunk_def)
  have "k_free (a + 12) h = Some (h\<lparr>blocks := bs'\<rparr>)"
    using unlocked p0 b bs' by (simp add: k_free_def lock_defs)
  moreover have "heap_inv (h\<lparr>blocks := bs'\<rparr>) (free_chunk a cs)"
  proof -
    obtain xs ys where "cs = xs @ (a, n, False) # ys" using split_list [OF mem] by blast
    then have "coalesced (free_chunk a cs)" using free_chunk_coalesced co dist by blast
    moreover have "free_chunk a cs \<noteq> []"
      using ne by (simp add: free_chunk_def join_prev_nonempty mark_free_nonempty)
    ultimately show ?thesis
      using inv bs'(2) free_chunk_tiles [OF t] by (simp add: heap_inv_def)
  qed
  ultimately show ?thesis by blast
qed

subsection \<open>Running out of blocks\<close>

lemma find_last_refines:
  "heap_list bs p cs \<Longrightarrow> cs \<noteq> [] \<Longrightarrow> find_last bs p = Some (fst (last cs))"
proof (induction bs p cs rule: heap_list.induct)
  case (2 bs p a n f cs)
  then obtain nx where nx: "bs a = Some \<lparr>bsize = n, bfree = f, bnext = nx\<rparr>" "heap_list bs nx cs"
    by auto
  then have "nx = 0 \<longleftrightarrow> cs = []" using heap_list_hd heap_list_nonzero
    by (metis hd_in_set heap_list.simps(1))
  with 2 nx show ?case by (subst find_last.simps) auto
qed simp

lemma heap_list_snoc:
  "heap_list bs p (cs @ [(a, n, f)]) \<Longrightarrow> distinct (map fst (cs @ [(a, n, f)])) \<Longrightarrow>
   b \<notin> fst ` set (cs @ [(a, n, f)]) \<Longrightarrow> b \<noteq> 0 \<Longrightarrow>
   heap_list (bs(b \<mapsto> \<lparr>bsize = k, bfree = g, bnext = 0\<rparr>,
                 a \<mapsto> \<lparr>bsize = n, bfree = f, bnext = b\<rparr>)) p (cs @ [(a, n, f), (b, k, g)])"
proof (induction cs arbitrary: p)
  case (Cons c cs)
  obtain x y z where c: "c = (x, y, z)" by (cases c)
  then show ?case using Cons by (auto simp: fun_upd_def)
qed (auto simp: fun_upd_def)

lemma append_frame_refines:
  assumes hl: "heap_list (blocks h) (free_list h) cs" and ne: "cs \<noteq> []" and "distinct (map fst cs)"
    and "f \<notin> fst ` set cs" and "f \<noteq> 0"
  shows "\<exists>bs. append_frame f h = Some (h\<lparr>blocks := bs\<rparr>)
    \<and> heap_list bs (free_list h) (cs @ [(f, 4084, True)])"
proof -
  obtain ds a n g where cs: "cs = ds @ [(a, n, g)]"
    using ne by (metis rev_exhaust prod_cases3)
  let ?fb = "\<lparr>bsize = 4084, bfree = True, bnext = 0\<rparr>"
  let ?bs = "(blocks h)(f \<mapsto> ?fb)"
  have hl': "heap_list ?bs (free_list h) cs" using hl assms(4) by simp
  have last: "?bs a = Some \<lparr>bsize = n, bfree = g, bnext = 0\<rparr>"
  proof -
    have "heap_list bs p (ds @ [(a, n, g)]) \<Longrightarrow> bs a = Some \<lparr>bsize = n, bfree = g, bnext = 0\<rparr>" for bs p
      by (induction ds arbitrary: p) (auto split: prod.splits)
    with hl' cs show ?thesis by simp
  qed
  have "append_frame f h = Some (h\<lparr>blocks := ?bs(a \<mapsto> \<lparr>bsize = n, bfree = g, bnext = f\<rparr>)\<rparr>)"
    using find_last_refines [OF hl' ne] last cs by (simp add: append_frame_def)
  moreover have "heap_list (?bs(a \<mapsto> \<lparr>bsize = n, bfree = g, bnext = f\<rparr>)) (free_list h) (cs @ [(f, 4084, True)])"
    using heap_list_snoc [of "blocks h" "free_list h" ds a n g f 4084 True] hl assms cs by simp
  ultimately show ?thesis by blast
qed

abbreviation max_frames :: "kheap \<Rightarrow> nat" where
  "max_frames h \<equiv> unat (total_memory h) div FRAME_SIZE"

text \<open>The address of a frame determines the frame.\<close>

lemma frame_addr:
  "i < max_frames h \<Longrightarrow> unat (frame_base i) = i * FRAME_SIZE"
proof -
  assume "i < max_frames h"
  then have "i * FRAME_SIZE < 4294967296" using unat_lt_32 [of "total_memory h"] by simp
  then show ?thesis unfolding frame_base_def by (intro unat_of_nat_lt) simp
qed

lemma allocate_frame_None: "find_frame (max_frames h) (frame_bitmap h) = None \<Longrightarrow> allocate_frame h = (h, 0)"
  by (simp add: allocate_frame_def)

lemma allocate_frame_Some:
  assumes "find_frame (max_frames h) (frame_bitmap h) = Some i"
  shows "allocate_frame h = (h\<lparr>frame_bitmap := set_frame i (frame_bitmap h)\<rparr>, frame_base i)"
    and "frame_base i \<noteq> 0" and "1 \<le> i" "i < max_frames h" "\<not> test_frame (frame_bitmap h) i"
proof -
  show i: "1 \<le> i" "i < max_frames h" "\<not> test_frame (frame_bitmap h) i"
    using frames.find_free_Some [OF assms] by auto
  show "frame_base i \<noteq> 0"
    using frame_addr [OF i(2)] i(1) by auto
  show "allocate_frame h = (h\<lparr>frame_bitmap := set_frame i (frame_bitmap h)\<rparr>, frame_base i)"
    using assms by (simp add: allocate_frame_def)
qed

text \<open>
  Every call returns: each turn of the recursion takes a frame, whatever the size
  asked for. The frames still free must not already hold a header of the list.
\<close>

lemma k_malloc_returns:
  "heap_list (blocks h) (free_list h) cs \<Longrightarrow> cs \<noteq> [] \<Longrightarrow> distinct (map fst cs) \<Longrightarrow> \<not> heap_locked h \<Longrightarrow>
   (\<And>i. 1 \<le> i \<Longrightarrow> i < max_frames h \<Longrightarrow> \<not> test_frame (frame_bitmap h) i \<Longrightarrow>
      frame_base i \<notin> fst ` set cs) \<Longrightarrow>
   \<exists>h' p. k_malloc sz h = Some (h', p) \<and> \<not> heap_locked h' \<and> irq_on h' = irq_on h"
proof (induction "frames.free_count (max_frames h) (frame_bitmap h)" arbitrary: h cs rule: less_induct)
  case less
  let ?l = "h\<lparr>heap_locked := True, irq_on := False\<rparr>"
  have fit: "find_fit (blocks h) sz (free_list h) =
      Some (case alloc_chunk sz cs of None \<Rightarrow> 0 | Some (a, _) \<Rightarrow> a)"
    by (rule find_fit_refines [OF less.prems(1)])
  show ?case
    proof (cases "find_fit (blocks h) sz (free_list h) = Some 0")
      case False
      then show ?thesis using fit less.prems(4)
        by (subst k_malloc.simps) (auto simp: lock_defs)
    next
      case none: True
      show ?thesis
      proof (cases "find_frame (max_frames h) (frame_bitmap h)")
        case None
        then have "allocate_frame ?l = (?l, 0)" by (simp add: allocate_frame_None)
        then show ?thesis using none less.prems(4)
          by (subst k_malloc.simps) (simp add: lock_defs)
      next
        case (Some i)
        note fr = allocate_frame_Some [of ?l i, simplified, OF Some] allocate_frame_Some(3-5) [OF Some]
        let ?f = "frame_base i"
        let ?g = "?l\<lparr>frame_bitmap := set_frame i (frame_bitmap h)\<rparr>"
        have f: "?f \<notin> fst ` set cs" using less.prems(5) fr(6-8) by blast
        obtain bs where bs: "append_frame ?f ?g = Some (?g\<lparr>blocks := bs\<rparr>)"
          "heap_list bs (free_list h) (cs @ [(?f, 4084, True)])"
          using append_frame_refines [of ?g cs ?f] less.prems f fr(2) by auto
        let ?h = "h\<lparr>frame_bitmap := set_frame i (frame_bitmap h), blocks := bs\<rparr>"
        have "?h\<lparr>heap_locked := False\<rparr> = ?h" using less.prems(4) by (cases h) simp
        then have "k_malloc sz (?h\<lparr>heap_locked := False\<rparr>) = k_malloc sz ?h" by (rule arg_cong)
        moreover have "k_malloc sz h = k_malloc sz (?h\<lparr>heap_locked := False\<rparr>)"
          using none less.prems(4) bs(1) fr(1,2)
          by (subst k_malloc.simps) (simp add: lock_defs)
        ultimately have step: "k_malloc sz h = k_malloc sz ?h" by (rule trans [rotated])
        have "\<exists>h' p. k_malloc sz ?h = Some (h', p) \<and> \<not> heap_locked h' \<and> irq_on h' = irq_on ?h"
        proof (rule less.hyps [where cs = "cs @ [(?f, 4084, True)]"])
          show "frames.free_count (max_frames ?h) (frame_bitmap ?h)
              < frames.free_count (max_frames h) (frame_bitmap h)"
            using frames.alloc_takes_one [OF Some] by simp
          show "frame_base j \<notin> fst ` set (cs @ [(?f, 4084, True)])"
            if "1 \<le> j" "j < max_frames ?h" "\<not> test_frame (frame_bitmap ?h) j" for j
          proof -
            have j: "j \<noteq> i" "\<not> test_frame (frame_bitmap h) j"
              using that(3) by (simp_all add: frames.test_mark)
            have "frame_base j \<noteq> ?f"
            proof
              assume "frame_base j = ?f"
              then have "j * FRAME_SIZE = i * FRAME_SIZE"
                using frame_addr [of j h] frame_addr [of i h] that(2) fr(7) by simp
              with j(1) show False by simp
            qed
            then show ?thesis using less.prems(5) that j by simp
          qed
        qed (use less.prems bs(2) f in auto)
        with step show ?thesis by simp
      qed
    qed
qed

subsection \<open>Properties\<close>

text \<open>
  C2. When some free block is large enough \<^verbatim>\<open>k_malloc\<close> returns first fit: the pointer
  past the header of a block of at least the size asked for, which is marked in
  use and overlaps no other block of the heap. The blocks still tile the heap
  range with no two free neighbours, memory contents are untouched, the heap lock
  is released and the interrupt flag restored.
\<close>

theorem k_malloc_correct:
  assumes "heap_inv h cs" and "alloc_chunk sz cs = Some (a, cs')"
  shows "\<exists>h' n. k_malloc sz h = Some (h', a + 12) \<and> heap_inv h' cs'
    \<and> (a, n, False) \<in> set cs' \<and> sz \<le> n
    \<and> (\<forall>(b, k, f)\<in>set cs'. b \<noteq> a \<longrightarrow> unat a + 12 + unat n \<le> unat b \<or> unat b + 12 + unat k \<le> unat a)
    \<and> kmem h' = kmem h \<and> irq_on h' = irq_on h"
proof -
  note ref = k_malloc_refines [OF assms]
  obtain n where n: "(a, n, False) \<in> set cs'" "sz \<le> n"
    using assms(2) by (rule alloc_chunk_split) (auto simp: carve_def split: if_splits)
  have "tiles (unat (free_list (h\<lparr>blocks := take_block a sz (blocks h)\<rparr>))) cs' (unat HEAP_END)"
    using ref(2) by (simp add: heap_inv_def)
  from tiles_disjoint [OF this n(1)]
  have "\<forall>(b, k, f)\<in>set cs'. b \<noteq> a \<longrightarrow> unat a + 12 + unat n \<le> unat b \<or> unat b + 12 + unat k \<le> unat a"
    by blast
  with ref n show ?thesis
    by (intro exI [of _ "h\<lparr>blocks := take_block a sz (blocks h)\<rparr>"] exI [of _ n]) simp
qed

text \<open>
  C6. \<^verbatim>\<open>k_free\<close> of a block in use releases it and joins it with a free successor and a
  free predecessor; the tiling of the heap range, the absence of free neighbours
  and memory contents are kept, and the lock is released.
\<close>

theorem k_free_correct:
  assumes "heap_inv h cs" and "(a, n, False) \<in> set cs"
  shows "\<exists>h'. k_free (a + 12) h = Some h' \<and> heap_inv h' (free_chunk a cs)
    \<and> kmem h' = kmem h \<and> irq_on h' = irq_on h"
  using k_free_refines [OF assms] by fastforce

text \<open>
  A second \<^verbatim>\<open>k_free\<close> of a block that is already free, and a \<^verbatim>\<open>k_free\<close> of NULL, change
  nothing.
\<close>

theorem k_free_double:
  assumes "heap_inv h cs" and "(a, n, True) \<in> set cs"
  shows "k_free (a + 12) h = Some h \<and> k_free 0 h = Some h"
proof -
  obtain nx where "blocks h a = Some \<lparr>bsize = n, bfree = True, bnext = nx\<rparr>"
    using assms heap_list_lookup unfolding heap_inv_def by blast
  then show ?thesis
    using assms by (auto simp: k_free_def lock_defs heap_inv_def)
qed

text \<open>
  Releasing the block that \<^verbatim>\<open>k_malloc\<close> has just returned restores the block list
  exactly, so that asking for the same size again returns the same pointer, as the
  self test \<^verbatim>\<open>test_reset_after_free\<close> expects.
\<close>

theorem k_malloc_k_free_restores:
  assumes "heap_inv h cs" and "alloc_chunk sz cs = Some (a, cs')"
  shows "\<exists>h1 h2 h3. k_malloc sz h = Some (h1, a + 12) \<and> k_free (a + 12) h1 = Some h2
    \<and> heap_inv h2 cs \<and> k_malloc sz h2 = Some (h3, a + 12)"
proof -
  note ref = k_malloc_refines [OF assms]
  obtain n where "(a, n, False) \<in> set cs'"
    using assms(2) by (rule alloc_chunk_split) (auto simp: carve_def split: if_splits)
  from k_free_refines [OF ref(2) this] obtain h2 where
    h2: "k_free (a + 12) (h\<lparr>blocks := take_block a sz (blocks h)\<rparr>) = Some h2"
      "heap_inv h2 (free_chunk a cs')" by blast
  have "free_chunk a cs' = cs"
    using free_alloc_chunk [OF assms(2)] assms(1) heap_inv_distinct [OF assms(1)]
    by (simp add: heap_inv_def)
  with h2 have "heap_inv h2 cs" by simp
  with k_malloc_refines(1) [OF this assms(2)] ref(1) h2(1) show ?thesis by blast
qed

text \<open>
  \<^verbatim>\<open>k_realloc\<close> to a larger size moves the block: the new block holds the old
  contents, the old block is released, and no other byte of memory changes.
\<close>

theorem k_realloc_grows:
  assumes inv: "heap_inv h cs" and mem: "(a, n, False) \<in> set cs" and grow: "n < new"
    and alloc: "alloc_chunk new cs = Some (b, cs')"
  shows "\<exists>h'. k_realloc (a + 12) new h = Some (h', b + 12) \<and> heap_inv h' (free_chunk a cs')
    \<and> (\<forall>i<unat n. kmem h' (b + 12 + of_nat i) = kmem h (a + 12 + of_nat i))
    \<and> (\<forall>x. \<not> in_region (b + 12) (unat n) x \<longrightarrow> kmem h' x = kmem h x)"
proof -
  let ?h1 = "h\<lparr>blocks := take_block b new (blocks h)\<rparr>"
  note ref = k_malloc_refines [OF inv alloc]
  have a_in: "(a, n, False) \<in> set cs'" and "\<exists>k. (b, k, False) \<in> set cs' \<and> new \<le> k"
    using alloc mem by (auto elim!: alloc_chunk_split simp: carve_def split: if_splits)
  then obtain k where k: "(b, k, False) \<in> set cs'" "new \<le> k" by blast
  have t: "tiles (unat (free_list h)) cs' (unat HEAP_END)" using ref(2) by (simp add: heap_inv_def)
  have bnd: "unat a + 12 + unat n \<le> unat HEAP_END" "unat b + 12 + unat k \<le> unat HEAP_END"
    using tiles_bounds [OF t a_in] tiles_bounds [OF t k(1)] by auto
  have n_le: "unat n \<le> unat k" using grow k(2) by (simp add: word_le_nat_alt word_less_nat_alt)
  have ab: "unat (a + 12) = unat a + 12" "unat (b + 12) = unat b + 12"
    using unat_add_no_wrap [of a 12] unat_add_no_wrap [of b 12] bnd by simp_all
  let ?mem = "block_copy (unat n) (b + 12) (a + 12) (kmem h)"
  have move: "memmove (b + 12) (a + 12) n (kmem h) = (?mem, b + 12)"
    using bnd n_le ab by (intro memmove_block) simp_all
  have "heap_inv (?h1\<lparr>kmem := ?mem\<rparr>) cs'" using ref(2) by (simp add: heap_inv_def)
  from k_free_refines [OF this a_in] obtain bs' where
    fr: "k_free (a + 12) (?h1\<lparr>kmem := ?mem\<rparr>) = Some (?h1\<lparr>kmem := ?mem, blocks := bs'\<rparr>)"
      "heap_inv (?h1\<lparr>kmem := ?mem, blocks := bs'\<rparr>) (free_chunk a cs')" by blast
  obtain nx where hd: "blocks h a = Some \<lparr>bsize = n, bfree = False, bnext = nx\<rparr>"
    using inv mem heap_list_lookup unfolding heap_inv_def by blast
  have nz: "a + 12 \<noteq> 0" "b + 12 \<noteq> 0" "new \<noteq> 0" using ab grow by auto
  have "k_realloc (a + 12) new h = Some (?h1\<lparr>kmem := ?mem, blocks := bs'\<rparr>, b + 12)"
    using hd nz grow ref(1) move fr(1) by (simp add: k_realloc_def Let_def not_le [symmetric])
  moreover have "?mem (b + 12 + of_nat i) = kmem h (a + 12 + of_nat i)" if "i < unat n" for i
    using that unat_lt_32 [of n] in_region_nth [of i "unat n" "b + 12"] by (simp add: block_copy_def)
  ultimately show ?thesis using fr(2) by (fastforce simp: block_copy_def)
qed

text \<open>
  \<^verbatim>\<open>k_malloc\<close> returns, also when no block fits and it falls back on page
  frames, as long as the block list is finite and no free frame already carries a
  header: every turn of the recursion takes one frame, so it ends with a block or,
  when the frames run out, with NULL. The lock is released and the interrupt flag
  restored on every path.
\<close>

theorem k_malloc_terminates:
  assumes "heap_list (blocks h) (free_list h) cs" and "cs \<noteq> []" and "distinct (map fst cs)"
    and "\<not> heap_locked h"
    and "\<forall>i. 1 \<le> i \<and> i < unat (total_memory h) div FRAME_SIZE \<and> \<not> test_frame (frame_bitmap h) i
           \<longrightarrow> frame_base i \<notin> fst ` set cs"
  shows "\<exists>h' p. k_malloc sz h = Some (h', p) \<and> \<not> heap_locked h' \<and> irq_on h' = irq_on h"
  using k_malloc_returns [OF assms(1-4)] assms(5) by blast


lemma initialize_heap_inv:
  fixes kernel_end :: addr and h :: kheap
  defines "start \<equiv> ALIGN_UP kernel_end 16 + ALIGN_UP ((total_memory h div 4096 + 7) div 8) 16"
  assumes "total_memory h \<noteq> 0" and "start \<noteq> 0" and "unat start + 12 \<le> unat HEAP_END"
    and "\<not> heap_locked h"
  shows "heap_inv (initialize_memory_system kernel_end h) [(start, HEAP_END - start - 12, True)]"
proof -
  let ?g = "initialize_memory_system kernel_end h"
  have g: "free_list ?g = start" "blocks ?g start = Some \<lparr>bsize = HEAP_END - start - 12, bfree = True, bnext = 0\<rparr>"
    "heap_locked ?g = heap_locked h"
    using assms(2) by (simp_all add: initialize_memory_system_def Let_def start_def)
  have "unat (HEAP_END - start) = unat HEAP_END - unat start"
    using assms(4) by (intro unat_sub) (simp add: word_le_nat_alt)
  then have "unat (HEAP_END - start - 12) = unat HEAP_END - unat start - 12"
    using assms(4) by (simp add: unat_sub word_le_nat_alt)
  then show ?thesis using g assms(3-5) by (simp add: heap_inv_def)
qed

text \<open>
  \<^verbatim>\<open>initialize_memory_system\<close> establishes the heap invariant: one free block from
  behind the frame bitmap to the end of the heap, provided the kernel image and
  the bitmap leave room for it. Frame 0 is reserved; every other frame is free.
\<close>

theorem initialize_memory_system_inv:
  fixes kernel_end :: addr and h :: kheap
  defines "start \<equiv> ALIGN_UP kernel_end 16 + ALIGN_UP ((total_memory h div 4096 + 7) div 8) 16"
  assumes "total_memory h \<noteq> 0" and "start \<noteq> 0" and "unat start + 12 \<le> unat HEAP_END"
    and "\<not> heap_locked h"
  shows "heap_inv (initialize_memory_system kernel_end h) [(start, HEAP_END - start - 12, True)]
    \<and> test_frame (frame_bitmap (initialize_memory_system kernel_end h)) i
      = (i = 0 \<or> \<not> i div 8 < unat (ALIGN_UP ((total_memory h div 4096 + 7) div 8) 16)
                   \<and> test_frame (frame_bitmap h) i)"
proof
  show "heap_inv (initialize_memory_system kernel_end h) [(start, HEAP_END - start - 12, True)]"
    using assms(2-5) unfolding start_def by (rule initialize_heap_inv)
  show "test_frame (frame_bitmap (initialize_memory_system kernel_end h)) i
      = (i = 0 \<or> \<not> i div 8 < unat (ALIGN_UP ((total_memory h div 4096 + 7) div 8) 16)
                   \<and> test_frame (frame_bitmap h) i)"
    using assms(2)
    by (simp add: initialize_memory_system_def Let_def frames.test_mark) (auto simp: test_frame_def)
qed

text \<open>A machine with 16 MB whose kernel image ends at 2 MB, and its first allocations.\<close>

abbreviation boot_heap :: kheap where
  "boot_heap \<equiv> \<lparr>total_memory = 0x1000000, frame_bitmap = \<lambda>_. 0, blocks = Map.empty, free_list = 0,
     heap_locked = False, irq_on = True, kmem = \<lambda>_. 0\<rparr>"

abbreviation init_heap :: kheap where
  "init_heap \<equiv> boot_heap\<lparr>frame_bitmap := set_frame 0 (\<lambda>_. 0), free_list := 0x200200,
     blocks := [0x200200 \<mapsto> \<lparr>bsize = 0xedffdf4, bfree = True, bnext = 0\<rparr>]\<rparr>"

lemma init_heap_inv: "heap_inv init_heap [(0x200200, 0xedffdf4, True)]"
  by (simp add: heap_inv_def)

theorem initialize_memory_system_inv_witness:
  "heap_inv (initialize_memory_system 0x200000 boot_heap) [(0x200200, 0xedffdf4, True)]"
  using initialize_memory_system_inv [of boot_heap "0x200000" 0] by (simp add: ALIGN_UP_def)

theorem k_malloc_correct_witness:
  "\<exists>h' n. k_malloc 10 init_heap = Some (h', 0x20020c)
     \<and> heap_inv h' [(0x200200, 10, False), (0x200216, 0xedffdde, True)]"
  using k_malloc_correct [OF init_heap_inv, of 10] by auto

lemma used_heap_inv:
  "heap_inv (init_heap\<lparr>blocks := [0x200200 \<mapsto> \<lparr>bsize = 10, bfree = False, bnext = 0x200216\<rparr>,
       0x200216 \<mapsto> \<lparr>bsize = 0xedffdde, bfree = True, bnext = 0\<rparr>]\<rparr>)
     [(0x200200, 10, False), (0x200216, 0xedffdde, True)]"
  by (simp add: heap_inv_def)

theorem k_free_correct_witness:
  "\<exists>h'. k_free 0x20020c (init_heap\<lparr>blocks := [0x200200 \<mapsto> \<lparr>bsize = 10, bfree = False, bnext = 0x200216\<rparr>,
       0x200216 \<mapsto> \<lparr>bsize = 0xedffdde, bfree = True, bnext = 0\<rparr>]\<rparr>) = Some h'
     \<and> heap_inv h' [(0x200200, 0xedffdf4, True)]"
  using k_free_correct [OF used_heap_inv, of "0x200200" 10]
  by (auto simp: free_chunk_def)

theorem k_free_double_witness: "k_free 0x20020c init_heap = Some init_heap"
  using k_free_double [OF init_heap_inv, of "0x200200" "0xedffdf4"] by simp

theorem k_malloc_k_free_restores_witness:
  "\<exists>h1 h2 h3. k_malloc 1 init_heap = Some (h1, 0x20020c) \<and> k_free 0x20020c h1 = Some h2
     \<and> k_malloc 1 h2 = Some (h3, 0x20020c)"
  using k_malloc_k_free_restores [OF init_heap_inv, of 1] by auto

theorem k_realloc_grows_witness:
  "\<exists>h'. k_realloc 0x20020c 20 (init_heap\<lparr>blocks := [0x200200 \<mapsto> \<lparr>bsize = 10, bfree = False, bnext = 0x200216\<rparr>,
       0x200216 \<mapsto> \<lparr>bsize = 0xedffdde, bfree = True, bnext = 0\<rparr>]\<rparr>) = Some (h', 0x200222)"
  using k_realloc_grows [OF used_heap_inv, of "0x200200" 10 20] by auto

theorem k_malloc_terminates_witness:
  "\<exists>h' p. k_malloc 5000 (init_heap\<lparr>total_memory := 8192,
       blocks := [0x200200 \<mapsto> \<lparr>bsize = 100, bfree = True, bnext = 0\<rparr>]\<rparr>) = Some (h', p) \<and> \<not> heap_locked h'"
proof -
  let ?h = "init_heap\<lparr>total_memory := 8192,
       blocks := [0x200200 \<mapsto> \<lparr>bsize = 100, bfree = True, bnext = 0\<rparr>]\<rparr>"
  have "\<forall>i. 1 \<le> i \<and> i < unat (total_memory ?h) div FRAME_SIZE \<and> \<not> test_frame (frame_bitmap ?h) i
      \<longrightarrow> frame_base i \<notin> fst ` set [(0x200200, 100 :: u32, True)]"
  proof (intro allI impI)
    fix i
    assume "1 \<le> i \<and> i < unat (total_memory ?h) div FRAME_SIZE \<and> \<not> test_frame (frame_bitmap ?h) i"
    then have "i = 1" by simp
    then show "frame_base i \<notin> fst ` set [(0x200200, 100 :: u32, True)]" by (simp add: frame_base_def)
  qed
  with k_malloc_terminates [of ?h "[(0x200200, 100, True)]" 5000] show ?thesis by auto
qed

text \<open>
  The frame allocator reserves frame 0 only: after initialisation it regards the
  frames that hold the heap as free and can hand them out.
\<close>

lemma heap_frames_not_reserved:
  "\<not> test_frame (frame_bitmap (initialize_memory_system 0x200000 boot_heap)) 0x201
   \<and> in_region 0x200200 (12 + 0xedffdf4) (frame_base 0x201)"
  by (simp add: initialize_memory_system_def frames.test_mark)
    (simp add: ALIGN_UP_def test_frame_def set_frame_def frame_base_def in_region_def)

end
