(* ===== verification/Kmalloc_Safety.thy ===== *)
theory Kmalloc_Safety
  imports Kmalloc_Correct
begin

text \<open>
  Memory safety of the kernel heap: the runs of allocations and releases after boot as a
  transition system, with the list of the blocks the kernel holds. An allocation is either
  satisfied from the block list or refused. The runs do not include the third case, an allocation that
  makes \<^verbatim>\<open>k_malloc\<close> append a page frame to the list: the frames are not kept apart from the heap
  (\<open>heap_frames_not_reserved\<close>), and what follows does not hold then.
\<close>

inductive heap_run :: "kheap \<Rightarrow> (addr \<times> u32) list \<Rightarrow> bool" where
  boot: "total_memory h \<noteq> 0 \<Longrightarrow>
    start = ALIGN_UP kernel_end 16 + ALIGN_UP ((total_memory h div 4096 + 7) div 8) 16 \<Longrightarrow>
    start \<noteq> 0 \<Longrightarrow> unat start + 12 \<le> unat HEAP_END \<Longrightarrow> \<not> heap_locked h \<Longrightarrow>
    heap_run (initialize_memory_system kernel_end h) []"
| alloc: "heap_run h live \<Longrightarrow> find_fit (blocks h) sz (free_list h) \<noteq> Some 0 \<Longrightarrow>
    k_malloc sz h = Some (h', p) \<Longrightarrow> heap_run h' ((p, sz) # live)"
| refuse: "heap_run h live \<Longrightarrow> find_fit (blocks h) sz (free_list h) = Some 0 \<Longrightarrow> snd (allocate_frame h) = 0 \<Longrightarrow>
    k_malloc sz h = Some (h', p) \<Longrightarrow> heap_run h' live"
| release: "heap_run h live \<Longrightarrow> (p, sz) \<in> set live \<Longrightarrow> k_free p h = Some h' \<Longrightarrow>
    heap_run h' (filter (\<lambda>b. fst b \<noteq> p) live)"

text \<open>Every block that is held has a chunk of its own that is in use and large enough.\<close>

definition held :: "chunk list \<Rightarrow> (addr \<times> u32) list \<Rightarrow> bool" where
  "held cs live \<longleftrightarrow> distinct (map fst live) \<and> (\<forall>(p, sz) \<in> set live. \<exists>n. (p - 12, n, False) \<in> set cs \<and> sz \<le> n)"

lemma mark_free_keeps: "(b, k, False) \<in> set cs \<Longrightarrow> b \<noteq> p \<Longrightarrow> (b, k, False) \<in> set (mark_free p cs)"
proof (induction p cs rule: mark_free.induct)
  case (2 p a n f cs)
  have "(b, k, False) \<in> set (join_next (a, n, True) cs)" if "(b, k, False) \<in> set cs"
    using that by (cases cs) auto
  then show ?case using 2 by auto
qed simp

lemma join_prev_keeps: "(b, k, False) \<in> set cs \<Longrightarrow> b \<noteq> p \<Longrightarrow> (b, k, False) \<in> set (join_prev p cs)"
  by (induction p cs rule: join_prev.induct) auto

lemma held_free:
  assumes "held cs live" "(p, sz) \<in> set live"
  shows "held (free_chunk (p - 12) cs) (filter (\<lambda>b. fst b \<noteq> p) live)"
proof -
  have "\<exists>n. (q - 12, n, False) \<in> set (free_chunk (p - 12) cs) \<and> s \<le> n" if live: "(q, s) \<in> set live" "q \<noteq> p" for q s
  proof -
    obtain n where n: "(q - 12, n, False) \<in> set cs" "s \<le> n" using assms(1) live(1) by (fastforce simp: held_def)
    have "q - 12 \<noteq> p - 12" using live(2) by simp
    from join_prev_keeps [OF mark_free_keeps [OF n(1) this] this] n(2) show ?thesis by (auto simp: free_chunk_def)
  qed
  then show ?thesis using assms(1) by (auto simp: held_def distinct_map_filter)
qed

lemma held_alloc:
  assumes "held cs live" "alloc_chunk sz cs = Some (a, cs')" "distinct (map fst cs)"
  shows "held cs' ((a + 12, sz) # live)"
  using assms(2)
proof (rule alloc_chunk_split)
  fix xs n ys
  assume s: "cs = xs @ (a, n, True) # ys" "sz \<le> n" "cs' = xs @ carve sz a n @ ys"
  have "(b, k, False) \<in> set cs'" if "(b, k, False) \<in> set cs" for b k using that s(1,3) by auto
  moreover have "\<exists>k. (a, k, False) \<in> set cs' \<and> sz \<le> k" using s(2,3) by (auto simp: carve_def)
  moreover have "p \<noteq> a + 12" if live: "(p, t) \<in> set live" for p t
  proof
    assume "p = a + 12"
    then obtain k where "(a, k, False) \<in> set cs" using assms(1) live by (fastforce simp: held_def)
    then have "a \<in> fst ` set xs \<or> a \<in> fst ` set ys" using s(1) by force
    then show False using assms(3) s(1) by auto
  qed
  ultimately show ?thesis using assms(1) by (fastforce simp: held_def)
qed

text \<open>A refused allocation returns NULL and changes nothing.\<close>

lemma k_malloc_refused:
  assumes "\<not> heap_locked h" "find_fit (blocks h) sz (free_list h) = Some 0" "snd (allocate_frame h) = 0"
  shows "k_malloc sz h = Some (h, 0)"
proof -
  have none: "find_frame (max_frames h) (frame_bitmap h) = None"
    using assms(3) allocate_frame_Some(1,2) [of h] by (cases "find_frame (max_frames h) (frame_bitmap h)") auto
  let ?l = "h\<lparr>heap_locked := True, irq_on := False\<rparr>"
  have "allocate_frame ?l = (?l, 0)" using none by (intro allocate_frame_None) simp
  then show ?thesis using assms(1,2) by (subst k_malloc.simps) (simp add: lock_defs)
qed

lemma heap_run_inv: "heap_run h live \<Longrightarrow> \<exists>cs. heap_inv h cs \<and> held cs live"
proof (induction rule: heap_run.induct)
  case (boot h start kernel_end)
  then show ?case using initialize_heap_inv [of h kernel_end] by (auto simp: held_def)
next
  case (alloc h live sz h' p)
  then obtain cs where cs: "heap_inv h cs" "held cs live" by blast
  then obtain a cs' where a: "alloc_chunk sz cs = Some (a, cs')"
    using alloc(2) find_fit_refines [of "blocks h" "free_list h" cs sz]
    by (auto simp: heap_inv_def split: option.splits)
  show ?case
    using k_malloc_refines [OF cs(1) a] held_alloc [OF cs(2) a heap_inv_distinct [OF cs(1)]] alloc(3) by auto
next
  case (refuse h live sz h' p)
  then obtain cs where cs: "heap_inv h cs" "held cs live" by blast
  then have "k_malloc sz h = Some (h, 0)" using refuse(2,3) k_malloc_refused by (simp add: heap_inv_def)
  then show ?case using cs refuse(4) by auto
next
  case (release h live p sz h')
  then obtain cs where cs: "heap_inv h cs" "held cs live" by blast
  obtain n where "(p - 12, n, False) \<in> set cs" using cs(2) release(2) by (fastforce simp: held_def)
  from k_free_refines [OF cs(1) this] held_free [OF cs(2) release(2)] release(3) show ?case by auto
qed

text \<open>
  C1. Memory safety: in every state that is reached from boot by releases and by allocations that the block
  list satisfies or that are refused, the blocks handed out lie inside the heap, no two of them overlap, none is
  NULL, each can be released, and the heap lock is free. Runs in which an allocation makes the
  heap grow by a page frame are not included.
\<close>

theorem heap_memory_safe:
  assumes "heap_run h live"
  shows "\<not> heap_locked h
    \<and> (\<forall>(p, sz) \<in> set live. p \<noteq> 0 \<and> unat (free_list h) + 12 \<le> unat p \<and> unat p + unat sz \<le> unat HEAP_END
         \<and> (\<exists>h'. k_free p h = Some h'))
    \<and> (\<forall>(p, sz) \<in> set live. \<forall>(q, t) \<in> set live. p \<noteq> q \<longrightarrow>
         unat p + unat sz \<le> unat q \<or> unat q + unat t \<le> unat p)
    \<and> distinct (map fst live)"
proof -
  obtain cs where cs: "heap_inv h cs" "held cs live" using heap_run_inv [OF assms] by blast
  have t: "tiles (unat (free_list h)) cs (unat HEAP_END)" "\<not> heap_locked h" using cs(1) by (simp_all add: heap_inv_def)
  have c: "\<exists>n. (p - 12, n, False) \<in> set cs \<and> unat p = unat (p - 12) + 12 \<and> unat sz \<le> unat n
      \<and> unat (free_list h) \<le> unat (p - 12) \<and> unat (p - 12) + 12 + unat n \<le> unat HEAP_END"
    if live: "(p, sz) \<in> set live" for p sz
  proof -
    obtain n where n: "(p - 12, n, False) \<in> set cs" "sz \<le> n" using cs(2) live by (fastforce simp: held_def)
    note b = tiles_bounds [OF t(1) n(1)]
    have "unat (p - 12 + 12) = unat (p - 12) + 12" using b by (subst unat_plus_lt) simp_all
    then show ?thesis using n b by (auto simp: word_le_nat_alt)
  qed
  have one: "p \<noteq> 0 \<and> unat (free_list h) + 12 \<le> unat p \<and> unat p + unat sz \<le> unat HEAP_END \<and> (\<exists>h'. k_free p h = Some h')"
    if live: "(p, sz) \<in> set live" for p sz
  proof -
    obtain n where n: "(p - 12, n, False) \<in> set cs" "unat p = unat (p - 12) + 12" "unat sz \<le> unat n"
        "unat (free_list h) \<le> unat (p - 12)" "unat (p - 12) + 12 + unat n \<le> unat HEAP_END" using c [OF live] by blast
    have "\<exists>h'. k_free p h = Some h'" using k_free_refines [OF cs(1) n(1)] by auto
    moreover have "unat p \<noteq> 0" using n(2) by simp
    ultimately show ?thesis using n by auto
  qed
  have two: "unat p + unat sz \<le> unat q \<or> unat q + unat t \<le> unat p"
    if live: "(p, sz) \<in> set live" "(q, t) \<in> set live" "p \<noteq> q" for p sz q t
  proof -
    obtain n k where n: "(p - 12, n, False) \<in> set cs" "unat p = unat (p - 12) + 12" "unat sz \<le> unat n"
        "(q - 12, k, False) \<in> set cs" "unat q = unat (q - 12) + 12" "unat t \<le> unat k"
      using c [OF live(1)] c [OF live(2)] by blast
    have "p - 12 \<noteq> q - 12" using live(3) by simp
    from tiles_disjoint [OF t(1) n(1,4) this] n show ?thesis by auto
  qed
  have "distinct (map fst live)" using cs(2) by (simp add: held_def)
  then show ?thesis using t(2) one two by (intro conjI) (blast | simp)+
qed

lemma boot_run: "heap_run (initialize_memory_system 0x200000 boot_heap) []"
  by (rule heap_run.boot [of _ "0x200200"]) (simp_all add: ALIGN_UP_def)

theorem heap_memory_safe_witness:
  "\<exists>h p. heap_run h [(p, 10)] \<and> p \<noteq> 0 \<and> unat p + 10 \<le> unat HEAP_END"
proof -
  let ?h = "initialize_memory_system 0x200000 boot_heap"
  have inv: "heap_inv ?h [(0x200200, 0xedffdf4, True)]"
    using initialize_heap_inv [of boot_heap "0x200000"] by (simp add: ALIGN_UP_def)
  have a: "alloc_chunk 10 [(0x200200, 0xedffdf4, True)]
      = Some (0x200200, [(0x200200, 10, False), (0x200216, 0xedffdde, True)])" by simp
  obtain h p where m: "k_malloc 10 ?h = Some (h, p)" using k_malloc_refines(1) [OF inv a] by blast
  have "find_fit (blocks ?h) 10 (free_list ?h) \<noteq> Some 0"
    using find_fit_refines [of "blocks ?h" "free_list ?h" "[(0x200200, 0xedffdf4, True)]" 10] inv
    by (simp add: heap_inv_def)
  from heap_run.alloc [OF boot_run this m] have r: "heap_run h [(p, 10)]" .
  show ?thesis using heap_memory_safe [OF r] r by auto
qed

end
