(* ===== verification/Paging.thy ===== *)
theory Paging
  imports Bitmap
begin

text \<open>
  The page allocator and the page tables of \<^verbatim>\<open>arch/x86/mm/paging.c\<close>. The pool of 4096
  pages is tracked by 128 words of 32 bits. A page table or directory is the 1024
  words of its page, kept per page address; the bit-fields of its entries are
  written out at the positions the compiler gives them. The addresses of the pool
  and of the static tables come from the linker and are parameters.
\<close>

subsection \<open>State\<close>

record paging =
  memory_pool :: addr
  free_page_bitmap :: "nat \<Rightarrow> u32"
  tables :: "addr \<Rightarrow> nat \<Rightarrow> u32"
  cr0 :: u32
  cr3 :: u32

abbreviation PAGE_SIZE :: nat where "PAGE_SIZE \<equiv> 4096"
abbreviation POOL_PAGES :: nat where "POOL_PAGES \<equiv> 4096"

subsection \<open>The page allocator\<close>

definition page_used :: "(nat \<Rightarrow> u32) \<Rightarrow> nat \<Rightarrow> bool" where
  "page_used bm i \<longleftrightarrow> bm (i div 32) AND push_bit (i mod 32) 1 \<noteq> 0"

definition mark_page_used :: "nat \<Rightarrow> (nat \<Rightarrow> u32) \<Rightarrow> (nat \<Rightarrow> u32)" where
  "mark_page_used i bm = bm(i div 32 := bm (i div 32) OR push_bit (i mod 32) 1)"

definition mark_page_free :: "nat \<Rightarrow> (nat \<Rightarrow> u32) \<Rightarrow> (nat \<Rightarrow> u32)" where
  "mark_page_free i bm = bm(i div 32 := bm (i div 32) AND NOT (push_bit (i mod 32) 1))"

fun scan_words :: "(nat \<Rightarrow> u32) \<Rightarrow> nat list \<Rightarrow> nat option" where
  "scan_words bm [] = None"
| "scan_words bm (i # is) =
     (if bm i \<noteq> 0xFFFFFFFF
      then (case find (\<lambda>b. bm i AND push_bit b 1 = 0) [0..<32] of
              Some b \<Rightarrow> Some (i * 32 + b)
            | None \<Rightarrow> scan_words bm is)
      else scan_words bm is)"

definition find_free_page :: "(nat \<Rightarrow> u32) \<Rightarrow> nat option" where
  "find_free_page bm = scan_words bm [0..<128]"

definition allocate_page :: "paging \<Rightarrow> paging \<times> addr" where
  "allocate_page s =
     (case find_free_page (free_page_bitmap s) of
        None \<Rightarrow> (s, 0)
      | Some i \<Rightarrow> (s\<lparr>free_page_bitmap := mark_page_used i (free_page_bitmap s)\<rparr>,
                    memory_pool s + of_nat (i * PAGE_SIZE)))"

definition free_page :: "addr \<Rightarrow> paging \<Rightarrow> paging" where
  "free_page page s =
     (if page < memory_pool s \<or> page \<ge> memory_pool s + 0x1000000 then s
      else s\<lparr>free_page_bitmap :=
               mark_page_free (unat ((page - memory_pool s) div 4096)) (free_page_bitmap s)\<rparr>)"

subsection \<open>Page directories and tables\<close>

text \<open>
  The bit-fields \<^verbatim>\<open>present:1, rw:1, user:1, reserved:2, accessed:1, dirty:1, unused:2,
  frame:20\<close> are allocated from bit 0 upwards, so that the last one starts at bit 9.
\<close>

definition get_field :: "nat \<Rightarrow> nat \<Rightarrow> u32 \<Rightarrow> u32" where
  "get_field pos len e = take_bit len (drop_bit pos e)"

definition set_field :: "nat \<Rightarrow> nat \<Rightarrow> u32 \<Rightarrow> u32 \<Rightarrow> u32" where
  "set_field pos len v e = (e AND NOT (push_bit pos (mask len))) OR push_bit pos (take_bit len v)"

definition set_entry :: "u32 \<Rightarrow> u32 \<Rightarrow> u32 \<Rightarrow> u32" where
  "set_entry frame flags e =
     set_field 2 1 (drop_bit 2 (flags AND 4))
      (set_field 1 1 (drop_bit 1 (flags AND 2))
        (set_field 0 1 1
          (set_field 9 20 frame e)))"

definition create_page_directory :: "paging \<Rightarrow> paging \<times> addr" where
  "create_page_directory s =
     (let (s, pd) = allocate_page s
      in if pd = 0 then (s, 0)
         else (s\<lparr>tables := (tables s)(pd := \<lambda>_. 0)\<rparr>, pd))"

definition init_paging :: "addr \<Rightarrow> addr \<Rightarrow> paging \<Rightarrow> paging" where
  "init_paging page_directory page_table s =
     (let pt = (\<lambda>i. if i < 1024 then of_nat (i * PAGE_SIZE) OR 1 OR 2 else 0);
          pd = (\<lambda>i. if i = 0 then page_table OR 1 OR 2 else 0)
      in s\<lparr>tables := (tables s)(page_table := pt, page_directory := pd),
           cr3 := page_directory,
           cr0 := cr0 s OR 0x80000000\<rparr>)"

definition free_page_directory :: "addr \<Rightarrow> paging \<Rightarrow> paging" where
  "free_page_directory pd s =
     (if pd = 0 then s
      else let s = foldl (\<lambda>s i. let entry = tables s pd i
                                in if entry AND 1 \<noteq> 0 then free_page (entry AND NOT 0xFFF) s else s)
                         s [1..<1024]
           in free_page pd s)"

definition dir_index :: "addr \<Rightarrow> nat" where
  "dir_index va = unat (drop_bit 22 va AND 0x3FF)"

definition table_index :: "addr \<Rightarrow> nat" where
  "table_index va = unat (drop_bit 12 va AND 0x3FF)"

text \<open>The table of a directory entry, allocated on demand; 0 when no page is left.\<close>

definition ensure_table :: "addr \<Rightarrow> nat \<Rightarrow> u32 \<Rightarrow> paging \<Rightarrow> paging \<times> addr" where
  "ensure_table pd d flags s =
     (if get_field 0 1 (tables s pd d) = 0
      then let (s, pt) = allocate_page s
           in if pt = 0 then (s, 0)
              else let t = (tables s)(pt := \<lambda>_. 0)
                   in (s\<lparr>tables := t(pd := (t pd)(d := set_entry (drop_bit 12 pt) flags (t pd d)))\<rparr>, pt)
      else (s, push_bit 12 (get_field 9 20 (tables s pd d))))"

definition map_page :: "addr \<Rightarrow> addr \<Rightarrow> addr \<Rightarrow> u32 \<Rightarrow> paging \<Rightarrow> paging" where
  "map_page pd va pa flags s =
     (let present = (get_field 0 1 (tables s pd (dir_index va)) \<noteq> 0);
          (s, pt) = ensure_table pd (dir_index va) flags s
      in if \<not> present \<and> pt = 0 then s
         else let i = table_index va
              in s\<lparr>tables := (tables s)(pt := (tables s pt)(i := set_entry (drop_bit 12 pa) flags (tables s pt i)))\<rparr>)"

text \<open>The translation the entries describe, read with the same bit-fields.\<close>

definition lookup_page :: "addr \<Rightarrow> addr \<Rightarrow> paging \<Rightarrow> u32 option" where
  "lookup_page pd va s =
     (let e = tables s pd (dir_index va);
          pt = push_bit 12 (get_field 9 20 e);
          p = tables s pt (table_index va)
      in if get_field 0 1 e = 0 \<or> get_field 0 1 p = 0 then None
         else Some (get_field 9 20 p))"

text \<open>
  The translation of the processor: without paging an address is its own; with paging the memory management unit takes the
  addresses of the table and of the frame from bits 12 to 31 of the entries. The flags tell whether
  both entries allow writing and both allow user access.
\<close>

definition mmu_walk :: "addr \<Rightarrow> paging \<Rightarrow> (addr \<times> bool \<times> bool) option" where
  "mmu_walk va s =
     (let e = tables s (cr3 s AND NOT 0xFFF) (dir_index va);
          p = tables s (e AND NOT 0xFFF) (table_index va)
      in if cr0 s AND 0x80000000 = 0 then Some (va, True, True)
         else if e AND 1 = 0 \<or> p AND 1 = 0 then None
         else Some ((p AND NOT 0xFFF) OR (va AND 0xFFF), (e AND p) AND 2 \<noteq> 0, (e AND p) AND 4 \<noteq> 0))"

subsection \<open>The page bitmap meets the allocator interface\<close>

interpretation pages: bitmap page_used mark_page_used mark_page_free
proof
  have eq: "i = j \<longleftrightarrow> i div 32 = j div 32 \<and> i mod 32 = j mod 32" for i j :: nat
    by (metis div_mod_decomp)
  show "page_used (mark_page_used i b) j \<longleftrightarrow> j = i \<or> page_used b j" for i b j
    by (auto simp: page_used_def mark_page_used_def eq [of j i])
  show "page_used (mark_page_free i b) j \<longleftrightarrow> j \<noteq> i \<and> page_used b j" for i b j
    by (auto simp: page_used_def mark_page_free_def eq [of j i])
qed

lemma page_used_word: "b < 32 \<Longrightarrow> page_used bm (i * 32 + b) \<longleftrightarrow> bit (bm i) b"
  by (simp add: page_used_def)

text \<open>A word other than \<^verbatim>\<open>0xFFFFFFFF\<close> has a clear bit, so the inner loop always succeeds.\<close>

lemma full_word: "(w :: u32) \<noteq> 0xFFFFFFFF \<Longrightarrow> \<exists>b<32. \<not> bit w b"
proof (rule ccontr)
  assume "w \<noteq> 0xFFFFFFFF" and "\<not> (\<exists>b<32. \<not> bit w b)"
  then have "w = - 1" by (intro bit_word_eqI) simp
  with \<open>w \<noteq> 0xFFFFFFFF\<close> show False by simp
qed

lemma scan_words_Some:
  "scan_words bm is = Some p \<Longrightarrow> p div 32 \<in> set is \<and> \<not> page_used bm p"
  by (induction "is")
    (auto simp: page_used_word find_Some_iff split: if_splits option.splits)

lemma scan_words_None:
  "scan_words bm is = None \<Longrightarrow> i \<in> set is \<Longrightarrow> bm i = 0xFFFFFFFF"
proof (induction "is")
  case (Cons j js)
  have "find (\<lambda>b. bm j AND push_bit b 1 = 0) [0..<32] \<noteq> None" if neq: "bm j \<noteq> 0xFFFFFFFF"
    using full_word [OF neq] by (auto simp: find_None_iff)
  with Cons show ?case by (auto split: if_splits option.splits)
qed simp

interpretation pages: bitmap_allocator page_used mark_page_used mark_page_free 0 POOL_PAGES find_free_page
proof
  show "0 \<le> i \<and> i < POOL_PAGES \<and> \<not> page_used b i" if "find_free_page b = Some i" for b i
    using scan_words_Some [OF that [unfolded find_free_page_def]] by auto
  show "page_used b i" if "find_free_page b = None" "0 \<le> i" "i < POOL_PAGES" for b i
  proof -
    have "i div 32 \<in> set [0..<128]" using that(3) by auto
    then have "b (i div 32) = - 1"
      using scan_words_None [OF that(1) [unfolded find_free_page_def]] by simp
    then show ?thesis by (simp add: page_used_def)
  qed
qed

subsection \<open>Bit-fields\<close>

lemma bit_get_field: "bit (get_field pos len e) k \<longleftrightarrow> k < len \<and> bit e (pos + k)"
  by (simp add: get_field_def bit_take_bit_iff bit_drop_bit_eq)

lemma bit_set_field:
  "bit (set_field pos len v e) k \<longleftrightarrow>
     k < 32 \<and> (if pos \<le> k \<and> k < pos + len then bit v (k - pos) else bit e k)"
  by (auto simp: set_field_def bit_or_iff bit_and_iff bit_not_iff bit_push_bit_iff bit_mask_iff
      bit_take_bit_iff possible_bit_def dest: bit_imp_le_length)

lemma get_set_field_same: "pos + len \<le> 32 \<Longrightarrow> get_field pos len (set_field pos len v e) = take_bit len v"
  by (rule bit_word_eqI) (auto simp: bit_get_field bit_set_field bit_take_bit_iff)

lemma get_set_field_other:
  "pos + len \<le> pos' \<or> pos' + len' \<le> pos \<Longrightarrow> pos + len \<le> 32 \<Longrightarrow>
     get_field pos len (set_field pos' len' v e) = get_field pos len e"
  by (rule bit_word_eqI) (auto simp: bit_get_field bit_set_field)

lemmas field_laws = get_set_field_same get_set_field_other

lemma set_entry_fields:
  "get_field 0 (Suc 0) (set_entry frame flags e) = 1"
  "get_field 9 20 (set_entry frame flags e) = take_bit 20 frame"
  by (simp_all add: set_entry_def field_laws)

subsection \<open>Page addresses\<close>

lemma mask_consts: "(0xFFF :: u32) = mask 12" "(0x3FF :: u32) = mask 10" "(3 :: u32) = mask 2" "(1 :: u32) = mask 1"
  by (simp_all add: mask_numeral mask_Suc_rec)

definition pool_ok :: "paging \<Rightarrow> bool" where
  "pool_ok s \<longleftrightarrow> memory_pool s \<noteq> 0 \<and> unat (memory_pool s) mod PAGE_SIZE = 0
     \<and> unat (memory_pool s) + 0x1000000 < 4294967296"

definition page_addr :: "paging \<Rightarrow> nat \<Rightarrow> addr" where
  "page_addr s i = memory_pool s + of_nat (i * PAGE_SIZE)"

lemma unat_page_addr:
  "pool_ok s \<Longrightarrow> i < POOL_PAGES \<Longrightarrow> unat (page_addr s i) = unat (memory_pool s) + i * PAGE_SIZE"
  unfolding page_addr_def by (intro unat_add_no_wrap) (simp add: pool_ok_def)

lemma page_addr_nonzero: "pool_ok s \<Longrightarrow> i < POOL_PAGES \<Longrightarrow> page_addr s i \<noteq> 0"
  using unat_page_addr [of s i] by (auto simp: pool_ok_def unat_eq_0)

lemma page_addr_inj:
  "pool_ok s \<Longrightarrow> i < POOL_PAGES \<Longrightarrow> j < POOL_PAGES \<Longrightarrow> page_addr s i = page_addr s j \<longleftrightarrow> i = j"
proof -
  assume "pool_ok s" and "i < POOL_PAGES" and "j < POOL_PAGES"
  then have "unat (page_addr s i) = unat (page_addr s j) \<longleftrightarrow> i = j"
    by (simp only: unat_page_addr) simp
  then show ?thesis by (simp only: word_unat_eq_iff)
qed

lemma take_bit_12: "take_bit 12 (p :: u32) = 0 \<longleftrightarrow> unat p mod PAGE_SIZE = 0"
  by (simp add: word_unat_eq_iff take_bit_eq_mod unat_mod)

lemma take_bit_page_addr: "pool_ok s \<Longrightarrow> i < POOL_PAGES \<Longrightarrow> take_bit 12 (page_addr s i) = 0"
  unfolding take_bit_12 by (simp add: unat_page_addr) (simp add: pool_ok_def)

lemma push_frame_of_page:
  assumes "take_bit 12 p = 0"
  shows "push_bit 12 (take_bit 20 (drop_bit 12 p)) = (p :: u32)"
proof (rule bit_word_eqI)
  fix k
  assume k: "k < LENGTH(32)"
  have "\<not> bit p k" if "k < 12"
    using assms that by (metis bit_take_bit_iff bit_0_eq bot_apply bot_bool_def)
  with k show "bit (push_bit 12 (take_bit 20 (drop_bit 12 p))) k \<longleftrightarrow> bit p k"
    by (cases "k < 12") (auto simp: bit_push_bit_iff bit_take_bit_iff bit_drop_bit_eq)
qed

lemma allocate_page_cases:
  assumes "allocate_page s = (s', p)" and "pool_ok s"
  obtains (none) "find_free_page (free_page_bitmap s) = None" "s' = s" "p = 0"
  | (page) i where "find_free_page (free_page_bitmap s) = Some i" "i < POOL_PAGES"
      "\<not> page_used (free_page_bitmap s) i" "p = page_addr s i" "p \<noteq> 0"
      "s' = s\<lparr>free_page_bitmap := mark_page_used i (free_page_bitmap s)\<rparr>"
proof (cases "find_free_page (free_page_bitmap s)")
  case None
  then have "s' = s" "p = 0" using assms(1) by (auto simp: allocate_page_def)
  then show ?thesis by (rule none [OF None])
next
  case (Some i)
  have i: "i < POOL_PAGES" "\<not> page_used (free_page_bitmap s) i"
    using pages.find_free_Some [OF Some] by auto
  have "p = page_addr s i" "s' = s\<lparr>free_page_bitmap := mark_page_used i (free_page_bitmap s)\<rparr>"
    using assms(1) Some by (simp_all add: allocate_page_def page_addr_def)
  moreover from this have "p \<noteq> 0" using page_addr_nonzero [OF assms(2) i(1)] by simp
  ultimately show ?thesis using page [OF Some i] by simp
qed

lemma free_page_index:
  assumes "pool_ok s" and "i < POOL_PAGES"
  shows "free_page (page_addr s i) s = s\<lparr>free_page_bitmap := mark_page_free i (free_page_bitmap s)\<rparr>"
proof -
  note u = unat_page_addr [OF assms]
  have "unat (memory_pool s + 0x1000000) = unat (memory_pool s) + 0x1000000"
    using unat_add_no_wrap [of "memory_pool s" "0x1000000"] assms(1) by (simp add: pool_ok_def)
  then have "\<not> page_addr s i < memory_pool s" "\<not> memory_pool s + 0x1000000 \<le> page_addr s i"
    using u assms(2) by (simp_all add: word_less_nat_alt word_le_nat_alt)
  moreover have "unat ((page_addr s i - memory_pool s) div 4096) = i"
  proof -
    have "unat (page_addr s i - memory_pool s) = i * PAGE_SIZE"
      using u by (simp add: unat_sub word_le_nat_alt)
    then show ?thesis by (simp add: unat_div)
  qed
  ultimately show ?thesis by (simp add: free_page_def)
qed

subsection \<open>Well-formed directories\<close>

abbreviation present :: "paging \<Rightarrow> addr \<Rightarrow> nat \<Rightarrow> bool" where
  "present s pd d \<equiv> get_field 0 1 (tables s pd d) \<noteq> 0"

abbreviation table_of :: "paging \<Rightarrow> addr \<Rightarrow> nat \<Rightarrow> addr" where
  "table_of s pd d \<equiv> push_bit 12 (get_field 9 20 (tables s pd d))"

definition pool_page :: "paging \<Rightarrow> addr \<Rightarrow> bool" where
  "pool_page s a \<longleftrightarrow> (\<exists>i<POOL_PAGES. a = page_addr s i \<and> page_used (free_page_bitmap s) i)"

text \<open>The directory and its tables are different pages of the pool, all in use.\<close>

definition pd_wf :: "addr \<Rightarrow> paging \<Rightarrow> bool" where
  "pd_wf pd s \<longleftrightarrow> pool_ok s \<and> pool_page s pd
     \<and> (\<forall>d. present s pd d \<longrightarrow> pool_page s (table_of s pd d) \<and> table_of s pd d \<noteq> pd
          \<and> (\<forall>d'. present s pd d' \<longrightarrow> d' \<noteq> d \<longrightarrow> table_of s pd d' \<noteq> table_of s pd d))"

text \<open>The table \<open>map_page\<close> writes to, and the state it writes in.\<close>

lemma ensure_table_wf:
  assumes wf: "pd_wf pd s" and e: "ensure_table pd d flags s = (s', pt)" and pt: "pt \<noteq> 0"
  shows "pd_wf pd s'" and "present s' pd d" and "table_of s' pd d = pt"
    and "present s pd d \<Longrightarrow> s' = s"
    and "\<And>d'. d' \<noteq> d \<Longrightarrow> tables s' pd d' = tables s pd d'"
    and "\<not> present s pd d \<Longrightarrow> tables s' pt = (\<lambda>_. 0)"
    and "\<And>t. t \<noteq> pt \<Longrightarrow> t \<noteq> pd \<Longrightarrow> tables s' t = tables s t"
proof -
  have "pd_wf pd s' \<and> present s' pd d \<and> table_of s' pd d = pt \<and> (present s pd d \<longrightarrow> s' = s)
    \<and> (\<forall>d'. d' \<noteq> d \<longrightarrow> tables s' pd d' = tables s pd d') \<and> (\<not> present s pd d \<longrightarrow> tables s' pt = (\<lambda>_. 0))
    \<and> (\<forall>t. t \<noteq> pt \<longrightarrow> t \<noteq> pd \<longrightarrow> tables s' t = tables s t)"
  proof (cases "present s pd d")
    case True
    then show ?thesis using e wf by (auto simp: ensure_table_def)
  next
    case False
    have ok: "pool_ok s" using wf by (simp add: pd_wf_def)
    obtain s1 p1 where a: "allocate_page s = (s1, p1)" by (cases "allocate_page s")
    with False e pt have p1: "p1 = pt" by (auto simp: ensure_table_def split: if_splits)
    from a ok show ?thesis
    proof (cases rule: allocate_page_cases)
      case none
      with p1 pt show ?thesis by simp
    next
      case (page i)
      let ?t = "(tables s)(pt := \<lambda>_. 0)"
      let ?e = "set_entry (drop_bit 12 pt) flags (?t pd d)"
      have s': "s' = s1\<lparr>tables := ?t(pd := (?t pd)(d := ?e))\<rparr>"
        using False e a p1 pt page by (auto simp: ensure_table_def)
      have used: "pool_page s' x \<longleftrightarrow> pool_page s x \<or> x = pt" for x
        using page p1 by (auto simp: s' pool_page_def page_addr_def pages.test_mark)
      have fresh: "\<not> pool_page s pt"
        using page p1 page_addr_inj [OF ok] by (auto simp: pool_page_def)
      have pd: "pool_page s pd" using wf by (simp add: pd_wf_def)
      with fresh have neq: "pt \<noteq> pd" by auto
      have "take_bit 12 pt = 0" using take_bit_page_addr [OF ok] page p1 by simp
      then have ent: "push_bit 12 (get_field 9 20 ?e) = pt" "get_field 0 1 ?e \<noteq> 0"
        by (simp_all add: set_entry_fields push_frame_of_page)
      have tab: "tables s' pd d = ?e" "\<And>d'. d' \<noteq> d \<Longrightarrow> tables s' pd d' = tables s pd d'"
        using neq by (simp_all add: s')
      have "pool_ok s'" using ok page by (simp add: s' pool_ok_def)
      moreover have "\<forall>x. present s' pd x \<longrightarrow> pool_page s' (table_of s' pd x) \<and> table_of s' pd x \<noteq> pd
          \<and> (\<forall>d'. present s' pd d' \<longrightarrow> d' \<noteq> x \<longrightarrow> table_of s' pd d' \<noteq> table_of s' pd x)"
      proof (intro allI impI)
        fix x
        assume x: "present s' pd x"
        have old: "pool_page s (table_of s pd y) \<and> table_of s pd y \<noteq> pd
            \<and> (\<forall>d'. present s pd d' \<longrightarrow> d' \<noteq> y \<longrightarrow> table_of s pd d' \<noteq> table_of s pd y)"
          if "y \<noteq> d" "present s' pd y" for y
          using wf that tab(2) [of y] by (simp add: pd_wf_def)
        show "pool_page s' (table_of s' pd x) \<and> table_of s' pd x \<noteq> pd
            \<and> (\<forall>d'. present s' pd d' \<longrightarrow> d' \<noteq> x \<longrightarrow> table_of s' pd d' \<noteq> table_of s' pd x)"
        proof (cases "x = d")
          case True
          then show ?thesis using ent tab used neq fresh old by fastforce
        next
          case False
          then show ?thesis using ent tab used neq fresh old [OF False x] x by metis
        qed
      qed
      ultimately have "pd_wf pd s'" using used pd by (simp add: pd_wf_def)
      then show ?thesis using False ent tab neq by (simp add: s')
    qed
  qed
  then show "pd_wf pd s'" "present s' pd d" "table_of s' pd d = pt" "present s pd d \<Longrightarrow> s' = s"
    "\<And>d'. d' \<noteq> d \<Longrightarrow> tables s' pd d' = tables s pd d'"
    "\<not> present s pd d \<Longrightarrow> tables s' pt = (\<lambda>_. 0)"
    "\<And>t. t \<noteq> pt \<Longrightarrow> t \<noteq> pd \<Longrightarrow> tables s' t = tables s t"
    by blast+
qed

lemma ensure_table_nonzero:
  assumes wf: "pd_wf pd s"
    and room: "present s pd d \<or> (\<exists>i<POOL_PAGES. \<not> page_used (free_page_bitmap s) i)"
  shows "snd (ensure_table pd d flags s) \<noteq> 0"
proof (cases "present s pd d")
  case True
  then have "pool_page s (table_of s pd d)" using wf by (simp add: pd_wf_def)
  then have "table_of s pd d \<noteq> 0"
    using wf page_addr_nonzero by (auto simp: pool_page_def pd_wf_def)
  then show ?thesis using True by (simp add: ensure_table_def)
next
  case False
  obtain s1 p1 where a: "allocate_page s = (s1, p1)" by (cases "allocate_page s")
  have "pool_ok s" using wf by (simp add: pd_wf_def)
  with a have "p1 \<noteq> 0"
  proof (cases rule: allocate_page_cases)
    case none
    with room False pages.find_free_None show ?thesis by blast
  qed simp
  then show ?thesis using False a by (simp add: ensure_table_def Let_def)
qed

lemma take_bit_20_frame [simp]: "take_bit 20 (drop_bit 12 (pa :: u32)) = drop_bit 12 pa"
  by (rule bit_word_eqI) (auto simp: bit_take_bit_iff bit_drop_bit_eq dest: bit_imp_le_length)

text \<open>What the processor reads from an entry of an identity mapped table.\<close>

lemma entry_address:
  assumes "take_bit 12 (x :: u32) = 0"
  shows "(x OR 1 OR 2) AND NOT 0xFFF = x" and "(x OR 1 OR 2) AND 1 \<noteq> 0"
proof -
  have low: "\<not> bit x k" if "k < 12" for k
    using assms that by (metis bit_take_bit_iff bit_0_eq bot_apply bot_bool_def)
  have "(3 :: int) = mask 2" by (simp add: mask_numeral mask_Suc_rec)
  then have three: "bit (3 :: int) k \<longleftrightarrow> k < 2" for k by (simp only: bit_mask_iff) simp
  show "(x OR 1 OR 2) AND NOT 0xFFF = x"
    unfolding mask_consts(1)
    by (rule bit_word_eqI)
      (auto simp: bit_or_iff bit_and_iff bit_not_iff bit_mask_iff bit_1_iff bit_2_iff low three
        intro: ccontr)
  have "bit ((x OR 1 OR 2) AND 1) 0" by (simp add: bit_or_iff bit_and_iff)
  then show "(x OR 1 OR 2) AND 1 \<noteq> 0" by auto
qed

lemma page_number:
  assumes "unat (va :: u32) < 2 ^ 22"
  shows "dir_index va = 0" and "table_index va < 1024"
    and "of_nat (table_index va * PAGE_SIZE) OR (va AND 0xFFF) = va"
    and "take_bit 12 (of_nat (table_index va * PAGE_SIZE) :: u32) = 0"
proof -
  have high: "\<not> bit va k" if "22 \<le> k" for k
  proof
    assume "bit va k"
    then have "bit (unat va) k" by (simp add: bit_unsigned_iff)
    then have "2 ^ k \<le> unat va" by (metis bit_iff_odd div_less even_zero not_le)
    moreover have "(2::nat) ^ 22 \<le> 2 ^ k" using that by (rule power_increasing) simp
    ultimately show False using assms by simp
  qed
  have "drop_bit 22 va AND 0x3FF = 0"
    by (rule bit_word_eqI) (simp add: bit_and_iff bit_drop_bit_eq high)
  then show "dir_index va = 0" by (simp add: dir_index_def)
  show "table_index va < 1024"
    unfolding table_index_def mask_consts(2)
    by (simp add: take_bit_eq_mask [symmetric] take_bit_eq_mod unat_mod)
  have num: "(of_nat (table_index va * PAGE_SIZE) :: u32) = push_bit 12 (drop_bit 12 va AND mask 10)"
    unfolding table_index_def mask_consts(2) by (simp add: push_bit_eq_mult)
  show "of_nat (table_index va * PAGE_SIZE) OR (va AND 0xFFF) = va"
    unfolding num mask_consts(1)
  proof (rule bit_word_eqI)
    fix k
    assume "k < LENGTH(32)"
    then show "bit (push_bit 12 (drop_bit 12 va AND mask 10) OR va AND mask 12) k \<longleftrightarrow> bit va k"
      using high [of k] by (cases "k < 12"; cases "k < 22")
        (auto simp: bit_or_iff bit_and_iff bit_push_bit_iff bit_drop_bit_eq bit_mask_iff)
  qed
  show "take_bit 12 (of_nat (table_index va * PAGE_SIZE) :: u32) = 0"
    unfolding num by (rule bit_word_eqI) (simp only: bit_take_bit_iff bit_push_bit_iff, simp)
qed

lemma dir_index_high: "\<not> unat (va :: u32) < 2 ^ 22 \<Longrightarrow> dir_index va \<noteq> 0"
proof -
  assume "\<not> unat va < 2 ^ 22"
  then have "unat va div 2 ^ 22 \<noteq> 0" by (simp add: div_eq_0_iff)
  moreover have "drop_bit 22 va AND 0x3FF = drop_bit 22 va"
    unfolding mask_consts(2)
    by (rule bit_word_eqI) (auto simp: bit_and_iff bit_drop_bit_eq bit_mask_iff dest: bit_imp_le_length)
  ultimately show ?thesis
    by (simp add: dir_index_def drop_bit_eq_div unat_div)
qed

subsection \<open>Properties\<close>

text \<open>
  \<^verbatim>\<open>allocate_page\<close> returns NULL exactly when every page of the pool is in use, and
  otherwise a page of the pool that was free, which it marks; \<^verbatim>\<open>free_page\<close> of that
  page restores the bitmap's set of used pages.
\<close>

theorem allocate_page_correct:
  assumes "pool_ok s" and "allocate_page s = (s', p)"
  shows "(p = 0 \<longleftrightarrow> (\<forall>i<POOL_PAGES. page_used (free_page_bitmap s) i))
    \<and> (p \<noteq> 0 \<longrightarrow> (\<exists>i<POOL_PAGES. p = memory_pool s + of_nat (i * PAGE_SIZE)
          \<and> \<not> page_used (free_page_bitmap s) i
          \<and> (\<forall>j. page_used (free_page_bitmap s') j \<longleftrightarrow> j = i \<or> page_used (free_page_bitmap s) j)))
    \<and> (p \<noteq> 0 \<longrightarrow> (\<forall>j. page_used (free_page_bitmap (free_page p s')) j
          \<longleftrightarrow> page_used (free_page_bitmap s) j))"
  using assms(2,1)
proof (cases rule: allocate_page_cases)
  case none
  then show ?thesis using pages.find_free_None by blast
next
  case (page i)
  have "pool_ok s'" using assms(1) page by (simp add: pool_ok_def)
  moreover have "p = page_addr s' i" using page by (simp add: page_addr_def)
  ultimately have "free_page p s' = s'\<lparr>free_page_bitmap := mark_page_free i (free_page_bitmap s')\<rparr>"
    using free_page_index page(2) by blast
  then show ?thesis
    using page by (auto simp: page_addr_def pages.test_mark pages.test_unmark simp del: of_nat_mult)
qed

theorem allocate_page_correct_witness:
  "snd (allocate_page \<lparr>memory_pool = 0x300000, free_page_bitmap = (\<lambda>_. 0)(0 := 1), tables = \<lambda>_ _. 0,
     cr0 = 0, cr3 = 0\<rparr>) \<noteq> 0"
proof -
  let ?s = "\<lparr>memory_pool = 0x300000, free_page_bitmap = (\<lambda>_. 0)(0 := 1), tables = \<lambda>_ _. 0, cr0 = 0, cr3 = 0\<rparr>"
  have "pool_ok ?s" by (simp add: pool_ok_def)
  moreover have "\<not> page_used (free_page_bitmap ?s) 1" by (simp add: page_used_def)
  ultimately show ?thesis
    using allocate_page_correct [of ?s, OF _ prod.collapse [symmetric], THEN conjunct1]
    by (metis one_less_numeral_iff semiring_norm(76))
qed

text \<open>
  \<^verbatim>\<open>map_page\<close> in terms of the bit-fields of its structures, which are not those of the processor
  (\<open>entry_layout_mismatch\<close>): as long as the directory's table exists or a page is left for it, looking the address up
  through the same bit-fields yields the frame, every other entry is as
  before, and the directory stays well formed, its tables distinct pages in use.
\<close>

theorem map_page_correct:
  assumes wf: "pd_wf pd s"
    and room: "get_field 0 1 (tables s pd (dir_index va)) \<noteq> 0
      \<or> (\<exists>i<POOL_PAGES. \<not> page_used (free_page_bitmap s) i)"
  shows "pd_wf pd (map_page pd va pa flags s)
    \<and> lookup_page pd va (map_page pd va pa flags s) = Some (drop_bit 12 pa)
    \<and> (\<forall>va'. (dir_index va', table_index va') \<noteq> (dir_index va, table_index va)
         \<longrightarrow> lookup_page pd va' (map_page pd va pa flags s) = lookup_page pd va' s)"
proof -
  define d i where "d = dir_index va" and "i = table_index va"
  obtain s1 pt where e: "ensure_table pd d flags s = (s1, pt)" by fastforce
  have pt: "pt \<noteq> 0" using ensure_table_nonzero [OF wf, of d flags] room e by (simp add: d_def)
  note et = ensure_table_wf [OF wf e pt]
  define s' where "s' = s1\<lparr>tables := (tables s1)(pt := (tables s1 pt)(i := set_entry (drop_bit 12 pa) flags (tables s1 pt i)))\<rparr>"
  have map: "map_page pd va pa flags s = s'"
    using e pt by (simp add: map_page_def s'_def d_def i_def Let_def)
  have neq: "pt \<noteq> pd" using et(1-3) by (auto simp: pd_wf_def)
  then have dir: "tables s' pd = tables s1 pd" by (simp add: s'_def)
  have wf': "pd_wf pd s'"
    using et(1) dir by (simp add: pd_wf_def pool_page_def pool_ok_def page_addr_def s'_def)
  have other: "tables s' t = tables s t" if "t \<noteq> pt" "t \<noteq> pd" for t
    using et(7) [OF that] that by (simp add: s'_def)
  have "lookup_page pd va s' = Some (drop_bit 12 pa)"
  proof -
    have "tables s' pt i = set_entry (drop_bit 12 pa) flags (tables s1 pt i)" by (simp add: s'_def)
    then show ?thesis
      using et(2,3) by (simp add: lookup_page_def dir set_entry_fields flip: d_def i_def)
  qed
  moreover have "lookup_page pd va' s' = lookup_page pd va' s"
    if "(dir_index va', table_index va') \<noteq> (d, i)" for va'
  proof (cases "dir_index va' = d")
    case False
    then have same: "tables s' pd (dir_index va') = tables s pd (dir_index va')"
      using et(5) dir by simp
    show ?thesis
    proof (cases "present s pd (dir_index va')")
      case True
      have "table_of s1 pd (dir_index va') \<noteq> pt" "table_of s1 pd (dir_index va') \<noteq> pd"
        using et(1-3,5) False True unfolding pd_wf_def by metis+
      then have "tables s' (table_of s pd (dir_index va')) = tables s (table_of s pd (dir_index va'))"
        using other et(5) [OF False] by simp
      then show ?thesis using same by (simp add: lookup_page_def)
    qed (simp add: lookup_page_def same)
  next
    case True
    then have i': "table_index va' \<noteq> i" using that by simp
    then have tab: "tables s' pt (table_index va') = tables s1 pt (table_index va')" by (simp add: s'_def)
    show ?thesis
    proof (cases "present s pd d")
      case pres: True
      then have "s1 = s" by (rule et(4))
      then show ?thesis using True tab dir et(3) by (simp add: lookup_page_def)
    next
      case False
      then have "tables s1 pt = (\<lambda>_. 0)" by (rule et(6))
      then show ?thesis
        using True tab dir et(3) False by (simp add: lookup_page_def get_field_def)
    qed
  qed
  ultimately show ?thesis using wf' map by (simp add: d_def i_def)
qed

theorem map_page_correct_witness:
  "lookup_page 0x300000 0x400000 (map_page 0x300000 0x400000 0x1234000 7
     \<lparr>memory_pool = 0x300000, free_page_bitmap = (\<lambda>_. 0)(0 := 1), tables = \<lambda>_ _. 0, cr0 = 0, cr3 = 0\<rparr>)
   = Some 0x1234"
proof -
  let ?s = "\<lparr>memory_pool = 0x300000, free_page_bitmap = (\<lambda>_. 0)(0 := 1), tables = \<lambda>_ _. 0, cr0 = 0, cr3 = 0\<rparr>"
  have "pool_page ?s 0x300000"
    unfolding pool_page_def by (rule exI [of _ 0]) (simp add: page_addr_def page_used_def)
  then have "pd_wf 0x300000 ?s" by (simp add: pd_wf_def pool_ok_def get_field_def)
  moreover have "\<exists>i<POOL_PAGES. \<not> page_used (free_page_bitmap ?s) i"
    by (rule exI [of _ 1]) (simp add: page_used_def)
  ultimately show ?thesis
    using map_page_correct [of "0x300000" ?s "0x400000" "0x1234000" 7] by (simp add: drop_bit_eq_div)
qed

lemma entry_flags:
  assumes "take_bit 12 (x :: u32) = 0" "take_bit 12 (y :: u32) = 0"
  shows "((x OR 1 OR 2) AND (y OR 1 OR 2)) AND 2 \<noteq> 0" and "((x OR 1 OR 2) AND (y OR 1 OR 2)) AND 4 = 0"
proof -
  have low: "\<not> bit x 2" using assms(1) by (metis bit_take_bit_iff bit_0_eq bot_apply bot_bool_def numeral_less_iff semiring_norm(76) semiring_norm(78))
  have "bit (((x OR 1 OR 2) AND (y OR 1 OR 2)) AND 2) 1" by (simp add: bit_simps)
  then show "((x OR 1 OR 2) AND (y OR 1 OR 2)) AND 2 \<noteq> 0" by auto
  have "((x OR 1 OR 2) AND (y OR 1 OR 2)) AND 2 ^ 2 = 0"
    unfolding and_exp_eq_0_iff_not_bit using low by (simp add: bit_and_iff bit_or_iff)
  then show "((x OR 1 OR 2) AND (y OR 1 OR 2)) AND 4 = 0" by simp
qed

text \<open>
  C7. After \<^verbatim>\<open>init_paging\<close>, with its page aligned tables, paging is on and the processor translates the first 4 MB to
  themselves, for reading and writing by the kernel and not by user programs, and translates nothing else, whatever
  the tables and the control registers held before.
\<close>

theorem init_paging_identity:
  assumes "page_directory \<noteq> page_table" and "take_bit 12 page_directory = 0" and "take_bit 12 page_table = 0"
  shows "mmu_walk va (init_paging page_directory page_table s) = (if va < 0x400000 then Some (va, True, False) else None)"
proof -
  have pg: "(cr0 s OR 0x80000000) AND 0x80000000 \<noteq> 0"
  proof -
    have "(0x80000000 :: u32) = push_bit 31 1" by simp
    then have "bit ((cr0 s OR 0x80000000) AND 0x80000000) 31" by (simp only: bit_simps) simp
    then show ?thesis by auto
  qed
  have pd: "page_directory AND NOT 0xFFF = page_directory"
  proof -
    have "\<not> bit page_directory k" if "k < 12" for k
      using assms(2) that by (metis bit_take_bit_iff bit_0_eq bot_apply bot_bool_def)
    then show ?thesis unfolding mask_consts(1) by (intro bit_word_eqI) (auto simp: bit_and_iff bit_not_iff bit_mask_iff intro: ccontr)
  qed
  show ?thesis
  proof (cases "unat va < 2 ^ 22")
    case True
    note n = page_number [OF True]
    show ?thesis
      using assms(1) pg pd entry_address [OF assms(3)] entry_address [OF n(4)] n(1-3) entry_flags [OF assms(3) n(4)] True
      by (simp add: mmu_walk_def init_paging_def Let_def word_less_nat_alt del: of_nat_mult)
  next
    case False
    then show ?thesis
      using dir_index_high [OF False] pg pd by (simp add: mmu_walk_def init_paging_def word_less_nat_alt)
  qed
qed

theorem init_paging_identity_witness:
  "mmu_walk 0x123456 (init_paging 0x5000 0x6000 \<lparr>memory_pool = 0x300000, free_page_bitmap = \<lambda>_. 0,
     tables = \<lambda>_ _. 0, cr0 = 0, cr3 = 0\<rparr>) = Some (0x123456, True, False)"
  using init_paging_identity [of "0x5000" "0x6000"] by (simp add: take_bit_12)

text \<open>
  The processor reads a frame address from bits 12 to 31, the bit-fields of
  \<^verbatim>\<open>page_table_entry\<close> put it at bit 9: the entry \<open>map_page\<close> writes for the frame at
  4 MB makes the processor use the frame at 512 KB.
\<close>

lemma entry_layout_mismatch: "set_entry (drop_bit 12 0x400000) 7 0 AND NOT 0xFFF = 0x80000"
  by code_simp

end
