(* ===== verification/Scheduler.thy ===== *)
theory Scheduler
  imports Prelude "HOL-Library.Monad_Syntax"
begin

text \<open>
  The round robin scheduler (\<^verbatim>\<open>kernel/sched/scheduler.c\<close>) with the context switch
  it calls (\<^verbatim>\<open>kernel/sched/switch.asm\<close>): the task table, the registers of the
  processor and the 32-bit words of the task stacks. The search for the next task
  is a loop that may run for ever and is a \<open>partial_function (option)\<close>; \<open>None\<close> is
  also a division by zero tasks and the halt of the machine.
\<close>

subsection \<open>State\<close>

datatype task_status = TASK_READY | TASK_RUNNING | TASK_SLEEPING | TASK_FINISHED

record context_t =
  esp :: u32
  ebp :: u32
  ebx :: u32
  esi :: u32
  edi :: u32
  eip :: u32

record task =
  kernel_stack :: addr
  ctx :: context_t
  status :: task_status
  is_started :: bool
  proc :: "nat option"

record sched =
  tasks :: "task list"
  current_task :: nat
  num_tasks :: nat
  cpu :: context_t
  words :: "addr \<Rightarrow> u32"
  interrupts :: bool

abbreviation MAX_TASKS :: nat where "MAX_TASKS \<equiv> 8"
abbreviation STACK_SIZE :: u32 where "STACK_SIZE \<equiv> 8192"

definition zero_task :: task where
  "zero_task = \<lparr>kernel_stack = 0,
     ctx = \<lparr>esp = 0, ebp = 0, ebx = 0, esi = 0, edi = 0, eip = 0\<rparr>,
     status = TASK_READY, is_started = False, proc = None\<rparr>"

subsection \<open>The context switch\<close>

text \<open>
  \<^verbatim>\<open>swtch(old, new)\<close> saves the callee-saved registers unless \<^verbatim>\<open>old\<close> is NULL (\<open>None\<close>),
  loads the new ones and returns to the address on top of the new stack.
\<close>

definition swtch :: "nat option \<Rightarrow> nat \<Rightarrow> sched \<Rightarrow> sched" where
  "swtch old new s =
     (let s = (case old of
                 None \<Rightarrow> s
               | Some i \<Rightarrow> s\<lparr>tasks := (tasks s)[i := (tasks s ! i)\<lparr>ctx := (ctx (tasks s ! i))\<lparr>
                     esp := esp (cpu s), ebp := ebp (cpu s), ebx := ebx (cpu s),
                     esi := esi (cpu s), edi := edi (cpu s)\<rparr>\<rparr>]\<rparr>);
          c = ctx (tasks s ! new)
      in s\<lparr>cpu := c\<lparr>esp := esp c + 4, eip := words s (esp c)\<rparr>\<rparr>)"

subsection \<open>Choosing the next task\<close>

abbreviation finished :: "sched \<Rightarrow> nat \<Rightarrow> bool" where
  "finished s i \<equiv> status (tasks s ! i) = TASK_FINISHED"

text \<open>
  \<^verbatim>\<open>do current_task = (current_task + 1) % num_tasks; while (... == TASK_FINISHED);\<close>
  over the table of states.
\<close>

partial_function (option) next_task :: "task list \<Rightarrow> nat \<Rightarrow> nat \<Rightarrow> nat option" where
  "next_task ts n cur =
     (if n = 0 then None
      else if status (ts ! ((cur + 1) mod n)) = TASK_FINISHED then next_task ts n ((cur + 1) mod n)
      else Some ((cur + 1) mod n))"

text \<open>The stack of a task that runs for the first time: \<^verbatim>\<open>task_exit\<close> below its entry point.\<close>

definition start_task :: "u32 \<Rightarrow> nat \<Rightarrow> sched \<Rightarrow> sched" where
  "start_task task_exit_addr i s =
     (let t = tasks s ! i;
          top = kernel_stack t + 4 * STACK_SIZE
      in s\<lparr>tasks := (tasks s)[i := t\<lparr>is_started := True, status := TASK_RUNNING,
             ctx := (ctx t)\<lparr>esp := top - 8\<rparr>\<rparr>],
           words := (words s)(top - 4 := task_exit_addr, top - 8 := eip (ctx t))\<rparr>)"

text \<open>
  The timer interrupt up to the switch; the \<^verbatim>\<open>sti\<close> behind the switch is executed
  when this task is switched to again. \<open>kernel_stack\<close> is a pointer to 32-bit words,
  so that \<^verbatim>\<open>kernel_stack + STACK_SIZE\<close> lies four times \<^verbatim>\<open>STACK_SIZE\<close> bytes above it.
\<close>

definition scheduler_interrupt_handler :: "u32 \<Rightarrow> sched \<Rightarrow> sched option" where
  "scheduler_interrupt_handler task_exit_addr s = do {
     let s = s\<lparr>interrupts := False\<rparr>;
     let cur = current_task s;
     nxt \<leftarrow> next_task (tasks s) (num_tasks s) cur;
     let s = s\<lparr>current_task := nxt\<rparr>;
     let s = (if \<not> is_started (tasks s ! nxt) then start_task task_exit_addr nxt s else s);
     Some (swtch (Some cur) nxt s) }"

text \<open>The exit of the running task; \<open>None\<close> when no task is left and the machine halts.\<close>

definition task_exit :: "sched \<Rightarrow> sched option" where
  "task_exit s = do {
     let cur = current_task s;
     let s = s\<lparr>tasks := (tasks s)[cur := (tasks s ! cur)\<lparr>status := TASK_FINISHED\<rparr>]\<rparr>;
     let active_tasks = length (filter (\<lambda>i. \<not> finished s i) [0..<num_tasks s]);
     if active_tasks = 0 then None
     else do {
       nxt \<leftarrow> (if finished s cur then next_task (tasks s) (num_tasks s) cur else Some cur);
       Some (swtch None nxt (s\<lparr>current_task := nxt\<rparr>)) } }"

definition create_task :: "u32 \<Rightarrow> addr \<Rightarrow> nat option \<Rightarrow> sched \<Rightarrow> sched" where
  "create_task entry_point stack process s =
     (if num_tasks s \<ge> MAX_TASKS then s
      else s\<lparr>num_tasks := num_tasks s + 1,
             tasks := (tasks s)[num_tasks s := zero_task\<lparr>
               kernel_stack := stack,
               ctx := (ctx zero_task)\<lparr>eip := entry_point, esp := stack + 4 * STACK_SIZE\<rparr>,
               status := TASK_READY, is_started := False, proc := process\<rparr>]\<rparr>)"

subsection \<open>The scheduler as a transition system\<close>

inductive sched_step :: "u32 \<Rightarrow> sched \<Rightarrow> sched \<Rightarrow> bool" for x where
  timer: "scheduler_interrupt_handler x s = Some s' \<Longrightarrow> sched_step x s s'"
| exit: "0 < num_tasks s \<Longrightarrow> task_exit s = Some s' \<Longrightarrow> sched_step x s s'"
| create: "sched_step x s (create_task entry stack p s)"

inductive sched_reachable :: "u32 \<Rightarrow> sched \<Rightarrow> sched \<Rightarrow> bool" for x s0 where
  refl: "sched_reachable x s0 s0"
| step: "sched_reachable x s0 s \<Longrightarrow> sched_step x s s' \<Longrightarrow> sched_reachable x s0 s'"

inductive_cases sched_stepE: "sched_step x s s'"

subsection \<open>The search for the next task\<close>

lemma next_task_steps:
  "0 < n \<Longrightarrow> 1 \<le> k \<Longrightarrow> \<forall>j. 1 \<le> j \<and> j < k \<longrightarrow> status (ts ! ((cur + j) mod n)) = TASK_FINISHED \<Longrightarrow>
   status (ts ! ((cur + k) mod n)) \<noteq> TASK_FINISHED \<Longrightarrow> next_task ts n cur = Some ((cur + k) mod n)"
proof (induction k arbitrary: cur)
  case (Suc k)
  let ?c = "(cur + 1) mod n"
  have shift: "(?c + j) mod n = (cur + Suc j) mod n" for j by (simp add: mod_add_left_eq)
  show ?case
  proof (cases "k = 0")
    case True
    then show ?thesis using Suc.prems by (subst next_task.simps) simp
  next
    case False
    have fin: "status (ts ! ?c) = TASK_FINISHED" using Suc.prems(3) [rule_format, of 1] False by simp
    have "next_task ts n ?c = Some ((?c + k) mod n)"
    proof (rule Suc.IH)
      show "\<forall>j. 1 \<le> j \<and> j < k \<longrightarrow> status (ts ! ((?c + j) mod n)) = TASK_FINISHED"
      proof (intro allI impI)
        fix j
        assume "1 \<le> j \<and> j < k"
        then show "status (ts ! ((?c + j) mod n)) = TASK_FINISHED"
          using Suc.prems(3) [rule_format, of "Suc j"] unfolding shift by simp
      qed
      show "status (ts ! ((?c + k) mod n)) \<noteq> TASK_FINISHED"
        using Suc.prems(4) unfolding shift .
    qed (use Suc.prems False in simp_all)
    then show ?thesis
      using Suc.prems(1) fin unfolding shift by (subst next_task.simps) simp
  qed
qed simp

text \<open>The distance from the current task to task \<open>i\<close> around the table, at least 1.\<close>

definition dist :: "nat \<Rightarrow> nat \<Rightarrow> nat \<Rightarrow> nat" where
  "dist n cur i = (if cur < i then i - cur else i + n - cur)"

lemma dist_bounds: "cur < n \<Longrightarrow> i < n \<Longrightarrow> 1 \<le> dist n cur i \<and> dist n cur i \<le> n"
  by (auto simp: dist_def)

lemma dist_mod: "cur < n \<Longrightarrow> i < n \<Longrightarrow> (cur + dist n cur i) mod n = i"
  by (auto simp: dist_def)

lemma dist_step:
  assumes "cur < n" and "i < n" and "1 \<le> k" and "k < dist n cur i"
  shows "dist n ((cur + k) mod n) i = dist n cur i - k"
proof (cases "cur + k < n")
  case True
  then show ?thesis using assms by (auto simp: dist_def split: if_splits)
next
  case False
  then have "(cur + k) mod n = cur + k - n"
    using assms dist_bounds [OF assms(1,2)] by (simp add: mod_if)
  then show ?thesis using False assms by (auto simp: dist_def split: if_splits)
qed

text \<open>The first task that is not finished, going around from the current one.\<close>

lemma next_task_first:
  assumes "cur < n" and "i < n" and "status (ts ! i) \<noteq> TASK_FINISHED"
  obtains k where "1 \<le> k" and "k \<le> dist n cur i" and "next_task ts n cur = Some ((cur + k) mod n)"
    and "status (ts ! ((cur + k) mod n)) \<noteq> TASK_FINISHED"
    and "\<And>j. 1 \<le> j \<Longrightarrow> j < k \<Longrightarrow> status (ts ! ((cur + j) mod n)) = TASK_FINISHED"
proof -
  define P where "P k \<longleftrightarrow> 1 \<le> k \<and> status (ts ! ((cur + k) mod n)) \<noteq> TASK_FINISHED" for k
  have ex: "P (dist n cur i)"
    using assms dist_mod [OF assms(1,2)] dist_bounds [OF assms(1,2)] by (simp add: P_def)
  define k where "k = (LEAST k. P k)"
  have k: "P k" unfolding k_def using ex by (rule LeastI)
  have le: "k \<le> dist n cur i" unfolding k_def using ex by (rule Least_le)
  have before: "\<not> P j" if "j < k" for j using not_less_Least that unfolding k_def by blast
  have "next_task ts n cur = Some ((cur + k) mod n)"
    using assms(1) k before by (intro next_task_steps) (auto simp: P_def)
  then show ?thesis using that k le before by (auto simp: P_def)
qed

subsection \<open>Invariant\<close>

definition sched_inv :: "sched \<Rightarrow> bool" where
  "sched_inv s \<longleftrightarrow> length (tasks s) = MAX_TASKS \<and> num_tasks s \<le> MAX_TASKS
     \<and> (if num_tasks s = 0 then current_task s = 0 else current_task s < num_tasks s)"

lemma next_task_lt:
  assumes "next_task ts n cur = Some m"
  shows "m < n"
  using assms by (rule next_task.raw_induct [rotated]) (auto split: if_splits)

lemma swtch_simps [simp]:
  "current_task (swtch old new s) = current_task s" "num_tasks (swtch old new s) = num_tasks s"
  "length (tasks (swtch old new s)) = length (tasks s)" "words (swtch old new s) = words s"
  by (auto simp: swtch_def Let_def split: option.splits)

lemma swtch_finished [simp]: "finished (swtch old new s) j \<longleftrightarrow> finished s j"
proof (cases old)
  case (Some i)
  then show ?thesis by (cases "i < length (tasks s)"; cases "i = j") (simp_all add: swtch_def Let_def list_update_beyond)
qed (simp add: swtch_def Let_def)

lemma start_task_simps [simp]:
  "current_task (start_task x i s) = current_task s" "num_tasks (start_task x i s) = num_tasks s"
  "length (tasks (start_task x i s)) = length (tasks s)"
  by (simp_all add: start_task_def Let_def)

lemma start_task_finished [simp]:
  "\<not> finished s i \<Longrightarrow> finished (start_task x i s) j \<longleftrightarrow> finished s j"
  by (cases "i < length (tasks s)"; cases "i = j") (simp_all add: start_task_def Let_def list_update_beyond)

lemma handler_cases:
  assumes "scheduler_interrupt_handler x s = Some s'"
  obtains nxt where "next_task (tasks s) (num_tasks s) (current_task s) = Some nxt"
    and "current_task s' = nxt" and "num_tasks s' = num_tasks s" and "length (tasks s') = length (tasks s)"
    and "\<not> finished s nxt \<Longrightarrow> \<forall>j. finished s' j \<longleftrightarrow> finished s j"
proof -
  obtain nxt where n: "next_task (tasks s) (num_tasks s) (current_task s) = Some nxt"
    using assms by (auto simp: scheduler_interrupt_handler_def bind_eq_Some_conv Let_def)
  let ?s = "s\<lparr>interrupts := False, current_task := nxt\<rparr>"
  have s': "s' = swtch (Some (current_task s)) nxt
      (if \<not> is_started (tasks s ! nxt) then start_task x nxt ?s else ?s)"
    using assms n by (auto simp: scheduler_interrupt_handler_def Let_def)
  have "\<forall>j. finished s' j \<longleftrightarrow> finished s j" if "\<not> finished s nxt"
  proof -
    have "\<not> finished ?s nxt" using that by simp
    then show ?thesis using s' start_task_finished [of ?s nxt x] by simp
  qed
  with that n s' show ?thesis by simp
qed

lemma handler_inv: "scheduler_interrupt_handler x s = Some s' \<Longrightarrow> sched_inv s \<Longrightarrow> sched_inv s'"
  by (erule handler_cases) (auto simp: sched_inv_def dest: next_task_lt)

lemma task_exit_inv: "task_exit s = Some s' \<Longrightarrow> 0 < num_tasks s \<Longrightarrow> sched_inv s \<Longrightarrow> sched_inv s'"
  by (auto simp: task_exit_def Let_def sched_inv_def bind_eq_Some_conv split: if_splits dest: next_task_lt)

lemma create_task_inv: "sched_inv s \<Longrightarrow> sched_inv (create_task e st p s)"
  by (auto simp: create_task_def sched_inv_def split: if_splits)

lemma handler_returns:
  assumes "sched_inv s" and "i < num_tasks s" and "\<not> finished s i"
  shows "\<exists>s' k. scheduler_interrupt_handler x s = Some s' \<and> sched_inv s'
    \<and> 1 \<le> k \<and> k \<le> dist (num_tasks s) (current_task s) i
    \<and> current_task s' = (current_task s + k) mod num_tasks s \<and> num_tasks s' = num_tasks s
    \<and> (\<forall>j. finished s' j \<longleftrightarrow> finished s j) \<and> \<not> finished s (current_task s')
    \<and> (\<forall>j. 1 \<le> j \<and> j < k \<longrightarrow> finished s ((current_task s + j) mod num_tasks s))"
proof -
  have cur: "current_task s < num_tasks s" using assms by (simp add: sched_inv_def split: if_splits)
  obtain k where k: "1 \<le> k" "k \<le> dist (num_tasks s) (current_task s) i"
    "next_task (tasks s) (num_tasks s) (current_task s) = Some ((current_task s + k) mod num_tasks s)"
    "\<not> finished s ((current_task s + k) mod num_tasks s)"
    "\<And>j. 1 \<le> j \<Longrightarrow> j < k \<Longrightarrow> finished s ((current_task s + j) mod num_tasks s)"
    using next_task_first [OF cur assms(2,3)] by blast
  obtain s' where s': "scheduler_interrupt_handler x s = Some s'"
    using k(3) by (simp add: scheduler_interrupt_handler_def Let_def)
  from s' show ?thesis
  proof (rule handler_cases)
    fix nxt
    assume h: "next_task (tasks s) (num_tasks s) (current_task s) = Some nxt" "current_task s' = nxt"
      "num_tasks s' = num_tasks s" "\<not> finished s nxt \<Longrightarrow> \<forall>j. finished s' j \<longleftrightarrow> finished s j"
    then have "nxt = (current_task s + k) mod num_tasks s" using k(3) by simp
    with s' handler_inv [OF s' assms(1)] k h show ?thesis
      by (intro exI [of _ s'] exI [of _ k]) simp
  qed
qed

text \<open>A number of timer interrupts in a row.\<close>

fun ticks :: "u32 \<Rightarrow> nat \<Rightarrow> sched \<Rightarrow> sched option" where
  "ticks x 0 s = Some s"
| "ticks x (Suc n) s = do { s' \<leftarrow> scheduler_interrupt_handler x s; ticks x n s' }"

lemma ticks_reach:
  assumes "sched_inv s" and "i < num_tasks s" and "\<not> finished s i"
  shows "\<exists>m s'. 1 \<le> m \<and> m \<le> dist (num_tasks s) (current_task s) i \<and> ticks x m s = Some s' \<and> current_task s' = i"
  using assms
proof (induction "dist (num_tasks s) (current_task s) i" arbitrary: s rule: less_induct)
  case less
  let ?n = "num_tasks s" and ?c = "current_task s"
  have cur: "?c < ?n" using less.prems by (simp add: sched_inv_def split: if_splits)
  obtain s1 k where h: "scheduler_interrupt_handler x s = Some s1" "sched_inv s1" "1 \<le> k" "k \<le> dist ?n ?c i"
    "current_task s1 = (?c + k) mod ?n" "num_tasks s1 = ?n" "\<forall>j. finished s1 j \<longleftrightarrow> finished s j"
    using handler_returns [OF less.prems, of x] by (elim exE conjE)
  show ?case
  proof (cases "k = dist ?n ?c i")
    case True
    then have "current_task s1 = i" using h(5) dist_mod [OF cur less.prems(2)] by simp
    then show ?thesis using h dist_bounds [OF cur less.prems(2)] by (intro exI [of _ 1] exI [of _ s1]) simp
  next
    case False
    then have d: "dist ?n (current_task s1) i = dist ?n ?c i - k"
      using dist_step [OF cur less.prems(2) h(3)] h(4,5) by simp
    have "dist (num_tasks s1) (current_task s1) i < dist ?n ?c i"
      using d h(3,6) dist_bounds [OF cur less.prems(2)] by simp
    from less.hyps [OF this h(2)] obtain m s' where m: "1 \<le> m" "m \<le> dist ?n ?c i - k"
      "ticks x m s1 = Some s'" "current_task s' = i"
      using h(6,7) d less.prems by auto
    then show ?thesis using h(1,3,4) by (intro exI [of _ "Suc m"] exI [of _ s']) auto
  qed
qed

subsection \<open>Properties\<close>

text \<open>The registers with which a task goes on: those that were saved, at the return address on its stack.\<close>

definition resumed :: "context_t \<Rightarrow> (addr \<Rightarrow> u32) \<Rightarrow> context_t" where
  "resumed c w = c\<lparr>esp := esp c + 4, eip := w (esp c)\<rparr>"

text \<open>
  What a switch from task \<open>cur\<close> to another task \<open>nxt\<close> does: the registers of the interrupted task are in its context;
  a task that has run before goes on where it stopped; a new task is entered at its entry point with \<^verbatim>\<open>task_exit\<close>
  as its return address, on the top of the stack of \<^verbatim>\<open>create_task\<close>; no other task and no other word of memory changes.
\<close>

definition switched :: "u32 \<Rightarrow> nat \<Rightarrow> nat \<Rightarrow> sched \<Rightarrow> sched \<Rightarrow> bool" where
  "switched x cur nxt s s' \<longleftrightarrow>
     tasks s' ! cur = (tasks s ! cur)\<lparr>ctx := (cpu s)\<lparr>eip := eip (ctx (tasks s ! cur))\<rparr>\<rparr>
   \<and> (\<forall>j. j \<noteq> cur \<and> j \<noteq> nxt \<longrightarrow> tasks s' ! j = tasks s ! j)
   \<and> (if is_started (tasks s ! nxt)
      then cpu s' = resumed (ctx (tasks s ! nxt)) (words s) \<and> words s' = words s \<and> tasks s' ! nxt = tasks s ! nxt
      else let top = kernel_stack (tasks s ! nxt) + 4 * STACK_SIZE
           in cpu s' = (ctx (tasks s ! nxt))\<lparr>esp := top - 4\<rparr> \<and> words s' (top - 4) = x
            \<and> (\<forall>a. a \<noteq> top - 4 \<and> a \<noteq> top - 8 \<longrightarrow> words s' a = words s a)
            \<and> tasks s' ! nxt = (tasks s ! nxt)\<lparr>is_started := True, status := TASK_RUNNING, ctx := (ctx (tasks s ! nxt))\<lparr>esp := top - 8\<rparr>\<rparr>)
   \<and> \<not> interrupts s' \<and> num_tasks s' = num_tasks s"

lemma handler_switched:
  assumes "scheduler_interrupt_handler x s = Some s'" "next_task (tasks s) (num_tasks s) (current_task s) = Some nxt"
    and "nxt \<noteq> current_task s" "current_task s < length (tasks s)" "nxt < length (tasks s)"
  shows "switched x (current_task s) nxt s s'"
proof -
  let ?s = "s\<lparr>interrupts := False, current_task := nxt\<rparr>"
  have s': "s' = swtch (Some (current_task s)) nxt (if \<not> is_started (tasks s ! nxt) then start_task x nxt ?s else ?s)"
    using assms(1,2) by (auto simp: scheduler_interrupt_handler_def Let_def)
  show ?thesis
  proof (cases "is_started (tasks s ! nxt)")
    case True
    then have "s' = swtch (Some (current_task s)) nxt ?s" using s' by simp
    then show ?thesis using True assms(3-5) by (auto simp: switched_def swtch_def resumed_def Let_def nth_list_update)
  next
    case False
    then have "s' = swtch (Some (current_task s)) nxt (start_task x nxt ?s)" using s' by simp
    moreover have "kernel_stack (tasks s ! nxt) + 4 * STACK_SIZE - 8 \<noteq> kernel_stack (tasks s ! nxt) + 4 * STACK_SIZE - 4" by simp
    ultimately show ?thesis using False assms(3-5)
      by (auto simp: switched_def swtch_def start_task_def Let_def nth_list_update)
  qed
qed

text \<open>
  C4. The timer interrupt is round robin: when a registered task other than the current one is not finished, the handler
  terminates and switches to the first task after the current one, going around the table, that is not
  finished. The switch saves the registers of the interrupted task, resumes the new task or
  enters it for the first time, and leaves everything else as it is (\<open>switched\<close>); the invariant of the scheduler is
  kept. A task that is alone is not covered, see \<open>single_task_not_entered\<close>.
\<close>

theorem scheduler_round_robin:
  assumes "sched_inv s" and "i < num_tasks s" and "i \<noteq> current_task s" and "status (tasks s ! i) \<noteq> TASK_FINISHED"
  shows "\<exists>s' k. scheduler_interrupt_handler x s = Some s' \<and> sched_inv s' \<and> 1 \<le> k \<and> k < num_tasks s
    \<and> current_task s' = (current_task s + k) mod num_tasks s
    \<and> status (tasks s ! current_task s') \<noteq> TASK_FINISHED
    \<and> (\<forall>j. 1 \<le> j \<and> j < k \<longrightarrow> status (tasks s ! ((current_task s + j) mod num_tasks s)) = TASK_FINISHED)
    \<and> switched x (current_task s) (current_task s') s s'"
proof -
  have cur: "current_task s < num_tasks s" "num_tasks s \<le> length (tasks s)" using assms by (simp_all add: sched_inv_def split: if_splits)
  obtain s' k where h: "scheduler_interrupt_handler x s = Some s'" "sched_inv s'" "1 \<le> k"
    "k \<le> dist (num_tasks s) (current_task s) i"
    "current_task s' = (current_task s + k) mod num_tasks s" "\<not> finished s (current_task s')"
    "\<forall>j. 1 \<le> j \<and> j < k \<longrightarrow> finished s ((current_task s + j) mod num_tasks s)"
    using handler_returns [OF assms(1,2,4), of x] by (elim exE conjE)
  have "dist (num_tasks s) (current_task s) i < num_tasks s" using assms(2,3) cur by (auto simp: dist_def)
  then have k: "k < num_tasks s" using h(4) by simp
  have ne: "current_task s' \<noteq> current_task s"
  proof
    assume "current_task s' = current_task s"
    then have "num_tasks s dvd k" using h(5) cur mod_eq_dvd_iff_nat [of "current_task s" "current_task s + k" "num_tasks s"] by simp
    then show False using h(3) k by (auto dest: dvd_imp_le)
  qed
  have n: "next_task (tasks s) (num_tasks s) (current_task s) = Some (current_task s')" using h(1) by (rule handler_cases) simp
  have "current_task s' < length (tasks s)" using next_task_lt [OF n] cur by simp
  then have "switched x (current_task s) (current_task s') s s'" using handler_switched [OF h(1) n ne] cur by simp
  then show ?thesis using h k by (intro exI [of _ s'] exI [of _ k]) (intro conjI)
qed

abbreviation idle_cpu :: context_t where
  "idle_cpu \<equiv> \<lparr>esp = 0x9000, ebp = 0, ebx = 0, esi = 0, edi = 0, eip = 0\<rparr>"

definition two_tasks :: sched where
  "two_tasks = create_task 0x2000 0x20000 None (create_task 0x1000 0x10000 None
     \<lparr>tasks = replicate 8 zero_task, current_task = 0, num_tasks = 0, cpu = idle_cpu,
      words = \<lambda>_. 0, interrupts = True\<rparr>)"

lemma two_tasks_facts:
  "sched_inv two_tasks" "num_tasks two_tasks = 2" "current_task two_tasks = 0"
  "status (tasks two_tasks ! 0) = TASK_READY" "status (tasks two_tasks ! 1) = TASK_READY"
  by (simp_all add: two_tasks_def create_task_def sched_inv_def zero_task_def nth_list_update)

theorem scheduler_round_robin_witness:
  "\<exists>s'. scheduler_interrupt_handler 0x500 two_tasks = Some s' \<and> current_task s' = 1 \<and> eip (cpu s') = 0x2000 \<and> words s' (esp (cpu s')) = 0x500"
proof -
  obtain s' k where h: "scheduler_interrupt_handler 0x500 two_tasks = Some s'" "1 \<le> k" "k < 2" "current_task s' = k mod 2" "switched 0x500 0 (current_task s') two_tasks s'"
    using scheduler_round_robin [OF two_tasks_facts(1), of 1 "0x500"] two_tasks_facts by auto
  then have "current_task s' = 1" "switched 0x500 0 1 two_tasks s'" by (cases "k = 1"; simp)+
  moreover have "\<not> is_started (tasks two_tasks ! 1)" "eip (ctx (tasks two_tasks ! 1)) = 0x2000"
    by (simp_all add: two_tasks_def create_task_def zero_task_def nth_list_update)
  ultimately show ?thesis using h(1) by (auto simp: switched_def Let_def)
qed

text \<open>
  C8. No task starves: a task that is not finished becomes the current one after at
  most as many timer interrupts as there are tasks, while no task exits.
\<close>

theorem scheduler_no_starvation:
  assumes "sched_inv s" and "i < num_tasks s" and "status (tasks s ! i) \<noteq> TASK_FINISHED"
  shows "\<exists>m s'. 1 \<le> m \<and> m \<le> num_tasks s \<and> ticks x m s = Some s' \<and> current_task s' = i"
proof -
  have cur: "current_task s < num_tasks s" using assms by (simp add: sched_inv_def split: if_splits)
  then show ?thesis using ticks_reach [OF assms, of x] dist_bounds [OF cur assms(2)] by fastforce
qed

theorem scheduler_no_starvation_witness:
  "\<exists>m s'. m \<le> 2 \<and> ticks 0x500 m two_tasks = Some s' \<and> current_task s' = 1"
  using scheduler_no_starvation [OF two_tasks_facts(1), of 1 "0x500"] two_tasks_facts by auto

text \<open>
  C20. In every state reachable from one that satisfies it by timer interrupts, task
  exits and task creations, the table has its 8 slots, at most 8 tasks are
  registered and the current task is one of them.
\<close>

theorem scheduler_invariant:
  assumes "sched_reachable x s0 s" and "sched_inv s0"
  shows "sched_inv s"
  using assms
proof (induction rule: sched_reachable.induct)
  case (step s s')
  then have "sched_inv s" by simp
  with step.hyps(2) show ?case
    by (elim sched_stepE) (auto intro: handler_inv task_exit_inv create_task_inv)
qed

theorem scheduler_invariant_witness: "sched_inv (create_task 0x3000 0x30000 None two_tasks)"
proof -
  have "sched_reachable 0x500 two_tasks (create_task 0x3000 0x30000 None two_tasks)"
    by (rule sched_reachable.step [OF sched_reachable.refl sched_step.create])
  from scheduler_invariant [OF this two_tasks_facts(1)] show ?thesis .
qed

text \<open>
  The first switch to a task enters it at its entry point with \<^verbatim>\<open>task_exit\<close> as its
  return address, and marks it started and running. Later switches are
  transparent: a task that is switched away from and back resumes with its
  callee-saved registers and at the return address on its own stack.
\<close>

theorem context_switch_correct:
  assumes "i < length (tasks s)" and "j < length (tasks s)" and "i \<noteq> j"
  shows "(let s' = swtch (Some i) j (start_task x j s) in
       eip (cpu s') = eip (ctx (tasks s ! j)) \<and> words s' (esp (cpu s')) = x
       \<and> is_started (tasks s' ! j) \<and> status (tasks s' ! j) = TASK_RUNNING)
    \<and> (let s' = swtch (Some j) i (swtch (Some i) j s) in
       cpu s' = (cpu s)\<lparr>esp := esp (cpu s) + 4, eip := words s (esp (cpu s))\<rparr>)"
proof
  let ?top = "kernel_stack (tasks s ! j) + 4 * STACK_SIZE"
  have "?top - 8 \<noteq> ?top - 4" by simp
  then show "let s' = swtch (Some i) j (start_task x j s) in
       eip (cpu s') = eip (ctx (tasks s ! j)) \<and> words s' (esp (cpu s')) = x
       \<and> is_started (tasks s' ! j) \<and> status (tasks s' ! j) = TASK_RUNNING"
    using assms by (simp add: swtch_def start_task_def Let_def)
  show "let s' = swtch (Some j) i (swtch (Some i) j s) in
       cpu s' = (cpu s)\<lparr>esp := esp (cpu s) + 4, eip := words s (esp (cpu s))\<rparr>"
    using assms by (simp add: swtch_def Let_def)
qed

theorem context_switch_correct_witness:
  "eip (cpu (swtch (Some 0) 1 (start_task 0x500 1 two_tasks))) = 0x2000"
  using context_switch_correct [of 0 two_tasks 1 "0x500"]
  by (simp add: Let_def two_tasks_def create_task_def)

text \<open>
  A task that is alone in the table is both the old and the new task of its first
  switch: the interrupted registers are saved over the stack just prepared and
  loaded again, so that it is marked started but never entered.
\<close>

lemma single_task_not_entered:
  assumes "length (tasks s) = MAX_TASKS" and "num_tasks s = 1" and "current_task s = 0"
    and "\<not> finished s 0" and "\<not> is_started (tasks s ! 0)"
    and "scheduler_interrupt_handler x s = Some s'"
  shows "esp (cpu s') = esp (cpu s) + 4 \<and> is_started (tasks s' ! 0)"
proof -
  have "next_task (tasks s) 1 0 = Some 0" using assms(4) by (subst next_task.simps) simp
  then show ?thesis
    using assms by (auto simp: scheduler_interrupt_handler_def swtch_def start_task_def Let_def)
qed

end
