(* ===== verification/Process.thy ===== *)
theory Process
  imports Scheduler Kmalloc_Correct
begin

text \<open>
  The process table (\<^verbatim>\<open>kernel/proc/process.c\<close>) over the scheduler and the kernel
  heap: creation of a process with a stack from \<open>k_malloc\<close> and a task, and
  termination. Loading a program from a file is left to the file system.
\<close>

subsection \<open>State and operations\<close>

record process =
  pid :: int
  pname :: cstring
  is_running :: bool

record ksys =
  sch :: sched
  heap :: kheap
  process_list :: "process list"
  next_pid :: int

abbreviation MAX_PROGRAMS :: nat where "MAX_PROGRAMS \<equiv> 256"

text \<open>The first slot that is not running.\<close>

definition free_slot :: "process list \<Rightarrow> nat option" where
  "free_slot ps = find (\<lambda>i. \<not> is_running (ps ! i)) [0..<MAX_PROGRAMS]"

definition create_process :: "u32 \<Rightarrow> ksys \<Rightarrow> (ksys \<times> int) option" where
  "create_process entry_point s =
     (case free_slot (process_list s) of
        None \<Rightarrow> Some (s, - 1)
      | Some i \<Rightarrow> do {
          let id = next_pid s;
          let p = \<lparr>pid = id, pname = lit ''Unknown'', is_running = True\<rparr>;
          let s = s\<lparr>next_pid := s32 (id + 1), process_list := (process_list s)[i := p]\<rparr>;
          (h, stack) \<leftarrow> k_malloc STACK_SIZE (heap s);
          if stack = 0
          then Some (s\<lparr>heap := h, process_list := (process_list s)[i := p\<lparr>is_running := False\<rparr>]\<rparr>, - 1)
          else Some (s\<lparr>heap := h, sch := create_task entry_point stack (Some i) (sch s)\<rparr>, id) })"

text \<open>The running process with an identifier.\<close>

definition find_pid :: "int \<Rightarrow> process list \<Rightarrow> nat option" where
  "find_pid p ps = find (\<lambda>i. is_running (ps ! i) \<and> pid (ps ! i) = p) [0..<MAX_PROGRAMS]"

text \<open>
  Termination marks the task whose index is the index of the process; the table
  has 8 tasks and 256 processes, and \<open>None\<close> is the write behind its end.
\<close>

definition terminate_process :: "int \<Rightarrow> ksys \<Rightarrow> ksys option" where
  "terminate_process p s =
     (case find_pid p (process_list s) of
        None \<Rightarrow> Some s
      | Some i \<Rightarrow>
          if i < MAX_TASKS
          then Some (s\<lparr>process_list := (process_list s)[i := (process_list s ! i)\<lparr>is_running := False\<rparr>],
                       sch := (sch s)\<lparr>tasks := (tasks (sch s))[i := (tasks (sch s) ! i)\<lparr>status := TASK_FINISHED\<rparr>]\<rparr>\<rparr>)
          else None)"

definition running_pids :: "ksys \<Rightarrow> int list" where
  "running_pids s = map pid (filter is_running (process_list s))"

subsection \<open>Process identifiers\<close>

definition proc_inv :: "ksys \<Rightarrow> bool" where
  "proc_inv s \<longleftrightarrow> length (process_list s) = MAX_PROGRAMS
     \<and> distinct (running_pids s) \<and> (\<forall>p\<in>set (running_pids s). 0 < p \<and> p < next_pid s) \<and> 0 < next_pid s"

lemma free_slot_Some:
  "free_slot ps = Some i \<Longrightarrow> i < MAX_PROGRAMS \<and> \<not> is_running (ps ! i)"
  by (auto simp: free_slot_def find_Some_iff simp del: upt_rec_numeral)

lemma find_pid_Some: "find_pid p ps = Some i \<Longrightarrow> i < MAX_PROGRAMS \<and> is_running (ps ! i) \<and> pid (ps ! i) = p"
  by (auto simp: find_pid_def find_Some_iff simp del: upt_rec_numeral)

lemma find_pid_None: "find_pid p ps = None \<longleftrightarrow> (\<forall>i<MAX_PROGRAMS. is_running (ps ! i) \<longrightarrow> pid (ps ! i) \<noteq> p)"
  by (auto simp: find_pid_def find_None_iff simp del: upt_rec_numeral)

subsection \<open>Properties\<close>

lemma create_process_pids_ok:
  assumes "proc_inv s" and "next_pid s < 2147483647" and "create_process e s = Some (s', r)"
  shows "proc_inv s'
    \<and> (if r = - 1 then set (running_pids s') = set (running_pids s)
       else r \<notin> set (running_pids s) \<and> set (running_pids s') = insert r (set (running_pids s)))"
proof (cases "free_slot (process_list s)")
  case None
  then show ?thesis using assms by (simp add: create_process_def)
next
  case (Some i)
  let ?p = "\<lparr>pid = next_pid s, pname = lit ''Unknown'', is_running = True\<rparr>"
  have inc: "s32 (next_pid s + 1) = next_pid s + 1"
    using assms(1,2) by (intro s32_id) (simp_all add: proc_inv_def)
  have i: "i < length (process_list s)" "\<not> is_running (process_list s ! i)"
    using free_slot_Some [OF Some] assms(1) by (simp_all add: proc_inv_def)
  let ?as = "filter is_running (take i (process_list s))" and ?bs = "filter is_running (drop (Suc i) (process_list s))"
  have ab: "filter is_running (process_list s) = ?as @ ?bs"
    "filter is_running ((process_list s)[i := ?p]) = ?as @ ?p # ?bs"
    "filter is_running ((process_list s)[i := ?p\<lparr>is_running := False\<rparr>]) = ?as @ ?bs"
    using filter_split_at [OF i(1), of is_running] i(2) by simp_all
  obtain h stack where km: "k_malloc STACK_SIZE (heap s) = Some (h, stack)"
    using assms(3) Some by (auto simp: create_process_def Let_def bind_eq_Some_conv)
  show ?thesis
  proof (cases "stack = 0")
    case True
    then have "r = - 1" "running_pids s' = running_pids s" "next_pid s' = next_pid s + 1"
      "length (process_list s') = length (process_list s)"
      using assms(3) Some km ab(1,3) inc
      by (auto simp: create_process_def Let_def running_pids_def)
    then show ?thesis using assms(1) by (auto simp: proc_inv_def)
  next
    case False
    then have r: "r = next_pid s" "running_pids s' = map pid (?as @ ?p # ?bs)" "next_pid s' = next_pid s + 1"
      "length (process_list s') = length (process_list s)"
      using assms(3) Some km ab(2) inc
      by (auto simp: create_process_def Let_def running_pids_def)
    define A B where "A = map pid ?as" and "B = map pid ?bs"
    have old: "running_pids s = A @ B" using ab(1) by (simp add: running_pids_def A_def B_def)
    have new: "running_pids s' = A @ next_pid s # B" using r(2) by (simp add: A_def B_def)
    have inv: "distinct (A @ B)" "\<forall>p\<in>set (A @ B). 0 < p \<and> p < next_pid s" "0 < next_pid s"
      "length (process_list s) = MAX_PROGRAMS"
      using assms(1) old by (simp_all add: proc_inv_def)
    then have fresh: "next_pid s \<notin> set A" "next_pid s \<notin> set B" by auto
    have "\<forall>p\<in>set (A @ next_pid s # B). 0 < p \<and> p < next_pid s + 1"
      using inv(2,3) by (force simp: less_imp_le)
    then have "proc_inv s'" using r(3,4) new inv fresh by (simp add: proc_inv_def)
    then show ?thesis using r(1) old new inv(3) fresh by auto
  qed
qed

text \<open>
  Whatever the heap answers, \<^verbatim>\<open>create_process\<close> keeps the process table consistent:
  running processes have distinct positive identifiers below the counter. When it
  succeeds it returns a fresh identifier, now that of a running process, and when
  it fails it returns -1 and the set of running processes is unchanged.
\<close>

theorem create_process_pids:
  assumes "proc_inv s" and "next_pid s < 2147483647" and "create_process e s = Some (s', r)"
  shows "proc_inv s'
    \<and> (if r = - 1 then set (running_pids s') = set (running_pids s)
       else r \<notin> set (running_pids s) \<and> set (running_pids s') = insert r (set (running_pids s)))"
  by (rule create_process_pids_ok [OF assms])

text \<open>
  \<^verbatim>\<open>terminate_process\<close> of a running process removes exactly its identifier, of any
  other identifier changes nothing, and keeps the table consistent, as far as it
  stays inside the task table.
\<close>

theorem terminate_process_pids:
  assumes "proc_inv s" and "terminate_process p s = Some s'"
  shows "proc_inv s' \<and> set (running_pids s') = set (running_pids s) - {p}"
proof (cases "find_pid p (process_list s)")
  case None
  then have "p \<notin> set (running_pids s)"
    using assms(1) by (auto simp: find_pid_None running_pids_def proc_inv_def in_set_conv_nth)
  then show ?thesis using None assms by (simp add: terminate_process_def)
next
  case (Some i)
  then have i: "i < length (process_list s)" "is_running (process_list s ! i)" "pid (process_list s ! i) = p"
    using find_pid_Some [OF Some] assms(1) by (simp_all add: proc_inv_def)
  let ?q = "(process_list s ! i)\<lparr>is_running := False\<rparr>"
  have s': "process_list s' = (process_list s)[i := ?q]" "next_pid s' = next_pid s"
    using Some assms(2) by (auto simp: terminate_process_def split: if_splits)
  let ?l = "take i (process_list s)" and ?r = "drop (Suc i) (process_list s)"
  have pids: "running_pids s = map pid (filter is_running ?l) @ p # map pid (filter is_running ?r)"
    "running_pids s' = map pid (filter is_running ?l) @ map pid (filter is_running ?r)"
    unfolding running_pids_def s'(1) filter_split_at [OF i(1), of is_running] using i(2,3) by simp_all
  have "distinct (running_pids s)" using assms(1) by (simp add: proc_inv_def)
  then have "set (running_pids s') = set (running_pids s) - {p}" "distinct (running_pids s')"
    unfolding pids by auto
  then show ?thesis using assms(1) s' by (auto simp: proc_inv_def)
qed


text \<open>A system with no process.\<close>

definition empty_sys :: ksys where
  "empty_sys = \<lparr>sch = \<lparr>tasks = replicate 8 zero_task, current_task = 0, num_tasks = 0, cpu = idle_cpu,
       words = \<lambda>_. 0, interrupts = True\<rparr>,
     heap = init_heap, process_list = replicate 256 \<lparr>pid = 0, pname = [], is_running = False\<rparr>, next_pid = 1\<rparr>"

lemma empty_sys_inv: "proc_inv empty_sys"
proof -
  have "running_pids empty_sys = []" by (simp add: running_pids_def empty_sys_def filter_replicate)
  then show ?thesis by (simp add: proc_inv_def empty_sys_def)
qed

lemma free_slot_empty: "free_slot (process_list empty_sys) = Some 0"
  unfolding free_slot_def empty_sys_def find_Some_iff
  by (rule exI [of _ 0]) (simp del: upt_rec_numeral)

lemma create_empty: "\<exists>s'. create_process 0x1000 empty_sys = Some (s', 1)"
proof -
  have "\<exists>h. k_malloc STACK_SIZE (heap empty_sys) = Some (h, 0x20020c)"
    using k_malloc_refines(1) [OF init_heap_inv, of STACK_SIZE "0x200200"] by (simp add: empty_sys_def)
  moreover have "next_pid empty_sys = 1" by (simp add: empty_sys_def)
  ultimately show ?thesis by (auto simp: create_process_def free_slot_empty Let_def)
qed

theorem create_process_pids_witness:
  "\<exists>s'. create_process 0x1000 empty_sys = Some (s', 1) \<and> proc_inv s' \<and> set (running_pids s') = {1}"
proof -
  obtain s' where s': "create_process 0x1000 empty_sys = Some (s', 1)" using create_empty by auto
  have "running_pids empty_sys = []" by (simp add: running_pids_def empty_sys_def filter_replicate)
  with create_process_pids [OF empty_sys_inv _ s'] s' show ?thesis by (auto simp: empty_sys_def)
qed

theorem terminate_process_pids_witness:
  "\<exists>s'. terminate_process 7 empty_sys = Some s' \<and> proc_inv s'"
proof -
  have "find_pid 7 (process_list empty_sys) = None" by (simp add: find_pid_None empty_sys_def)
  then have "terminate_process 7 empty_sys = Some empty_sys" by (simp add: terminate_process_def)
  from terminate_process_pids [OF empty_sys_inv this] show ?thesis
    using \<open>terminate_process 7 empty_sys = Some empty_sys\<close> by blast
qed

text \<open>
  When the task table is full \<^verbatim>\<open>create_task\<close> refuses, but \<^verbatim>\<open>create_process\<close> still
  reports success: the process is running without a task.
\<close>

lemma process_without_task:
  assumes "free_slot (process_list s) = Some i" and "num_tasks (sch s) = MAX_TASKS"
    and "k_malloc STACK_SIZE (heap s) = Some (h, stack)" and "stack \<noteq> 0"
  shows "\<exists>s'. create_process e s = Some (s', next_pid s) \<and> sch s' = sch s"
  using assms by (simp add: create_process_def Let_def create_task_def)

text \<open>
  The index of a process is not the index of its task once a slot is reused:
  terminating the process in slot 0 finishes task 0, whichever process it serves.
\<close>

lemma terminate_hits_slot:
  assumes "is_running (process_list s ! 0)" and "pid (process_list s ! 0) = p"
    and "length (tasks (sch s)) = MAX_TASKS" and "terminate_process p s = Some s'"
  shows "status (tasks (sch s') ! 0) = TASK_FINISHED"
proof -
  have "find_pid p (process_list s) = Some 0"
    unfolding find_pid_def find_Some_iff
    by (rule exI [of _ 0]) (use assms(1,2) in \<open>simp del: upt_rec_numeral\<close>)
  with assms show ?thesis by (auto simp: terminate_process_def)
qed

end
