(* ===== verification/Disk.thy ===== *)
theory Disk
  imports Prelude "HOL-Library.Monad_Syntax"
begin

text \<open>
  Disks, as the file systems see them: a map from sector numbers to the 512 bytes of a sector, with
  sectors that fail to read, fail to write, or drop a write in silence. The interface of a device
  that reads and writes blocks is a locale; what it proves of a change inside a block is used for
  sectors and for the blocks of a file system.
\<close>

subsection \<open>Sectors\<close>

record disk =
  sectors :: "u32 \<Rightarrow> u8 list"
  read_error :: "u32 \<Rightarrow> bool"
  write_error :: "u32 \<Rightarrow> bool"
  dropped :: "u32 \<Rightarrow> bool"

definition dev_read :: "u32 \<Rightarrow> disk \<Rightarrow> u8 list option" where
  "dev_read lba d = (if read_error d lba then None else Some (sectors d lba))"

definition dev_write :: "u32 \<Rightarrow> u8 list \<Rightarrow> disk \<Rightarrow> disk option" where
  "dev_write lba buf d =
     (if write_error d lba then None
      else if dropped d lba then Some d
      else Some (d\<lparr>sectors := (sectors d)(lba := buf)\<rparr>))"

definition healthy :: "disk \<Rightarrow> bool" where
  "healthy d \<longleftrightarrow> (\<forall>l. \<not> read_error d l \<and> \<not> write_error d l \<and> \<not> dropped d l)"

text \<open>Consecutive sectors, as the file systems transfer them: one after the other, until one fails.\<close>

primrec read_run :: "nat list \<Rightarrow> u32 \<Rightarrow> disk \<Rightarrow> u8 list option" where
  "read_run [] start d = Some []"
| "read_run (i # is) start d = do {
     b \<leftarrow> dev_read (start + of_nat i) d;
     bs \<leftarrow> read_run is start d;
     Some (b @ bs) }"

primrec write_run :: "nat list \<Rightarrow> u32 \<Rightarrow> u8 list \<Rightarrow> disk \<Rightarrow> disk \<times> bool" where
  "write_run [] start buf d = (d, True)"
| "write_run (i # is) start buf d =
     (case dev_write (start + of_nat i) (take 512 (drop (i * 512) buf)) d of
        None \<Rightarrow> (d, False)
      | Some d \<Rightarrow> write_run is start buf d)"

definition formatted :: "disk \<Rightarrow> bool" where
  "formatted d \<longleftrightarrow> (\<forall>l. length (sectors d l) = 512)"

lemma read_run_ok: "healthy d \<Longrightarrow> read_run is start d = Some (concat (map (\<lambda>i. sectors d (start + of_nat i)) is))"
  by (induction "is") (auto simp: dev_read_def healthy_def)

lemma read_run_sectors: "read_run is start d = Some b \<Longrightarrow> b = concat (map (\<lambda>i. sectors d (start + of_nat i)) is)"
  by (induction "is" arbitrary: b) (auto simp: dev_read_def Option.bind_eq_Some_conv split: if_splits)

lemma length_sectors: "formatted d \<Longrightarrow> length (concat (map (\<lambda>i. sectors d (start + of_nat i)) is)) = length is * 512"
  by (induction "is") (auto simp: formatted_def)

lemma length_read_run: "read_run is start d = Some b \<Longrightarrow> formatted d \<Longrightarrow> length b = length is * 512"
  using read_run_sectors length_sectors by blast

lemma concat_pieces: "length b = m * 512 \<Longrightarrow> concat (map (\<lambda>i. take 512 (drop (i * 512) b)) [0..<m]) = b"
proof -
  assume l: "length b = m * 512"
  have "concat (map (\<lambda>i. take 512 (drop (i * 512) b)) [0..<k]) = take (k * 512) b" if "k \<le> m" for k
    using that
  proof (induction k)
    case (Suc k)
    then show ?case using take_add [of "k * 512" 512 b] by (simp add: add.commute)
  qed simp
  from this [of m] show ?thesis using l by simp
qed

subsection \<open>Fields of a block\<close>

definition put_at :: "u8 list \<Rightarrow> nat \<Rightarrow> u8 list \<Rightarrow> u8 list" where
  "put_at buf i b = take i buf @ b @ drop (i + length b) buf"

lemma length_put_at: "i + length b \<le> length buf \<Longrightarrow> length (put_at buf i b) = length buf"
  by (simp add: put_at_def)

lemma put_at_same: "i + length b \<le> length buf \<Longrightarrow> take (length b) (drop i (put_at buf i b)) = b"
  by (simp add: put_at_def)

lemma nth_put_at:
  "i + length b \<le> length buf \<Longrightarrow> k < length buf \<Longrightarrow>
   put_at buf i b ! k = (if i \<le> k \<and> k < i + length b then b ! (k - i) else buf ! k)"
  by (auto simp: put_at_def nth_append min_def)

lemma put_at_other:
  assumes "i + length b \<le> length buf" "j + n \<le> length buf" "j + n \<le> i \<or> i + length b \<le> j"
  shows "take n (drop j (put_at buf i b)) = take n (drop j buf)"
  using assms by (intro nth_equalityI) (auto simp: length_put_at nth_put_at)

subsection \<open>Block devices\<close>

text \<open>
  A device with blocks of \<open>bsize\<close> bytes at addresses \<open>valid\<close>: in the states \<open>ok\<close> reads and writes
  succeed, and a write changes the block that it writes and no other.
\<close>

locale block_device =
  fixes rd :: "'a \<Rightarrow> 's \<Rightarrow> u8 list option" and wr :: "'a \<Rightarrow> u8 list \<Rightarrow> 's \<Rightarrow> 's \<times> bool"
    and ok :: "'s \<Rightarrow> bool" and valid :: "'a \<Rightarrow> bool" and block_bytes :: nat
  assumes rd_ok: "ok s \<Longrightarrow> valid a \<Longrightarrow> \<exists>b. rd a s = Some b \<and> length b = block_bytes"
    and wr_ok: "ok s \<Longrightarrow> valid a \<Longrightarrow> length b = block_bytes \<Longrightarrow> snd (wr a b s) \<and> ok (fst (wr a b s))"
    and rd_wr: "ok s \<Longrightarrow> valid a \<Longrightarrow> valid c \<Longrightarrow> length b = block_bytes \<Longrightarrow>
      rd c (fst (wr a b s)) = (if c = a then Some b else rd c s)"
begin

text \<open>A field that is changed by reading its block, replacing the bytes and writing the block back.\<close>

lemma update_field:
  assumes "ok s" "valid a" "i + length x \<le> block_bytes" "rd a s = Some b"
    and "wr a (put_at b i x) s = (s', r)"
  shows "r \<and> ok s' \<and> (\<exists>b'. rd a s' = Some b' \<and> take (length x) (drop i b') = x)"
    and "valid c \<Longrightarrow> rd c s = Some v \<Longrightarrow> j + n \<le> block_bytes \<Longrightarrow> c \<noteq> a \<or> j + n \<le> i \<or> i + length x \<le> j \<Longrightarrow>
      \<exists>v'. rd c s' = Some v' \<and> take n (drop j v') = take n (drop j v)"
proof -
  have l: "length b = block_bytes" using rd_ok [OF assms(1,2)] assms(4) by simp
  then have lp: "length (put_at b i x) = block_bytes" using assms(3) by (simp add: length_put_at)
  have s': "s' = fst (wr a (put_at b i x) s)" "r = snd (wr a (put_at b i x) s)" using assms(5) by simp_all
  show "r \<and> ok s' \<and> (\<exists>b'. rd a s' = Some b' \<and> take (length x) (drop i b') = x)"
    unfolding s' using wr_ok [OF assms(1,2) lp] rd_wr [OF assms(1,2,2) lp] put_at_same [of i x b] assms(3) l by simp
  show "\<exists>v'. rd c s' = Some v' \<and> take n (drop j v') = take n (drop j v)"
    if "valid c" "rd c s = Some v" "j + n \<le> block_bytes" "c \<noteq> a \<or> j + n \<le> i \<or> i + length x \<le> j"
  proof (cases "c = a")
    case True
    then have "v = b" using that(2) assms(4) by simp
    then show ?thesis
      unfolding s' using rd_wr [OF assms(1,2,2) lp] True that put_at_other [of i x b j n] assms(3) l by simp
  next
    case False
    then show ?thesis unfolding s' using rd_wr [OF assms(1,2) that(1) lp] that(2) by simp
  qed
qed

end

definition sound :: "disk \<Rightarrow> bool" where
  "sound d \<longleftrightarrow> healthy d \<and> formatted d"

definition put_sector :: "u32 \<Rightarrow> u8 list \<Rightarrow> disk \<Rightarrow> disk \<times> bool" where
  "put_sector l b d = (case dev_write l b d of None \<Rightarrow> (d, False) | Some d \<Rightarrow> (d, True))"

interpretation sector_device: block_device dev_read put_sector sound "\<lambda>_. True" 512
  by unfold_locales (auto simp: sound_def healthy_def formatted_def dev_read_def dev_write_def put_sector_def)

lemma write_run_ok:
  assumes "healthy d" "distinct (map (\<lambda>i. start + of_nat i) is)"
  shows "write_run is start buf d = (d\<lparr>sectors := (\<lambda>l. case find (\<lambda>i. start + of_nat i = l) is of
      None \<Rightarrow> sectors d l | Some i \<Rightarrow> take 512 (drop (i * 512) buf))\<rparr>, True)"
  using assms
proof (induction "is" arbitrary: d)
  case (Cons i "is")
  let ?d = "d\<lparr>sectors := (sectors d)(start + of_nat i := take 512 (drop (i * 512) buf))\<rparr>"
  have w: "dev_write (start + of_nat i) (take 512 (drop (i * 512) buf)) d = Some ?d" "healthy ?d"
    using Cons.prems(1) by (simp_all add: dev_write_def healthy_def)
  have n: "find (\<lambda>k. start + of_nat k = start + of_nat i) is = None"
    using Cons.prems(2) by (auto simp: find_None_iff image_iff)
  have "write_run is start buf ?d = (?d\<lparr>sectors := (\<lambda>l. case find (\<lambda>i. start + of_nat i = l) is of
      None \<Rightarrow> sectors ?d l | Some i \<Rightarrow> take 512 (drop (i * 512) buf))\<rparr>, True)"
    using Cons.IH [OF w(2)] Cons.prems(2) by simp
  moreover have "(\<lambda>l. case find (\<lambda>i. start + of_nat i = l) is of None \<Rightarrow> sectors ?d l | Some i \<Rightarrow> take 512 (drop (i * 512) buf))
      = (\<lambda>l. case find (\<lambda>i. start + of_nat i = l) (i # is) of None \<Rightarrow> sectors d l | Some i \<Rightarrow> take 512 (drop (i * 512) buf))"
    using n by (intro ext) (auto split: option.splits)
  ultimately show ?case using w(1) by simp
qed simp

end
