(* ===== verification/Fat32.thy ===== *)
theory Fat32
  imports Libc_String Disk
begin

text \<open>
  The FAT32 file system: \<^verbatim>\<open>fs/fat32/fat32.c\<close>, \<^verbatim>\<open>fat32_cluster.c\<close>, \<^verbatim>\<open>fat32_files.c\<close> and
  \<^verbatim>\<open>fat32_dir.c\<close>. The disk is a map from sector numbers to the 512 bytes of a sector, with
  sectors that fail to read, fail to write, or drop a write in silence (what the code's
  verification is for). There is one disk: the code reads from \<^verbatim>\<open>current_drive\<close> and writes to the port
  \<^verbatim>\<open>ata_base_address\<close> that the last mount kept, and the model is of the state in which the drive mounted last
  is the current one; with a current drive on the other channel the code reads one disk and writes another.
  \<open>heap_ok\<close> says that the heap has room for the buffers a call allocates. Structures of the disk
  are their bytes. The result \<open>None\<close> is a loop that does not end or behaviour outside C:
  the sector buffers have \<^verbatim>\<open>bytes_per_sector\<close> bytes, which only fits the 512 bytes a
  transfer moves when the boot sector says 512.
\<close>

subsection \<open>The disk\<close>

text \<open>A write that is read back and compared, as all metadata writes are.\<close>

definition write_verified :: "u32 \<Rightarrow> u8 list \<Rightarrow> disk \<Rightarrow> disk \<times> bool" where
  "write_verified lba buf d =
     (case dev_write lba buf d of
        None \<Rightarrow> (d, False)
      | Some d' \<Rightarrow> (case dev_read lba d' of None \<Rightarrow> (d', False) | Some v \<Rightarrow> (d', v = buf)))"

subsection \<open>State\<close>

record boot_sector =
  bytes_per_sector :: u16
  sectors_per_cluster :: u8
  reserved_sector_count :: u16
  number_of_fats :: u8
  root_entry_count :: u16
  total_sectors_32 :: u32
  fat_size_32 :: u32
  root_cluster :: u32
  fs_info :: u16
  boot_signature :: u8

record fat =
  bs :: boot_sector
  fsinfo :: "u8 list"
  fsinfo_valid :: bool
  partition_lba_offset :: u32
  current_directory_cluster :: u32
  disk :: disk
  heap_ok :: bool

abbreviation FAT32_EOC_MIN :: u32 where "FAT32_EOC_MIN \<equiv> 0x0FFFFFF8"
abbreviation FAT32_EOC_MAX :: u32 where "FAT32_EOC_MAX \<equiv> 0x0FFFFFFF"
abbreviation INVALID_CLUSTER :: u32 where "INVALID_CLUSTER \<equiv> 0xFFFFFFFF"
abbreviation SECTOR_SIZE :: nat where "SECTOR_SIZE \<equiv> 512"
abbreviation ATTR_DIRECTORY :: u8 where "ATTR_DIRECTORY \<equiv> 0x10"

definition put32 :: "u8 list \<Rightarrow> nat \<Rightarrow> u32 \<Rightarrow> u8 list" where
  "put32 b i v = take i b @ bytes32 v @ drop (i + 4) b"

definition boot_sector_of :: "u8 list \<Rightarrow> boot_sector" where
  "boot_sector_of b = \<lparr>bytes_per_sector = get16 b 11, sectors_per_cluster = b ! 13,
     reserved_sector_count = get16 b 14, number_of_fats = b ! 16, root_entry_count = get16 b 17,
     total_sectors_32 = get32 b 32, fat_size_32 = get32 b 36, root_cluster = get32 b 44,
     fs_info = get16 b 48, boot_signature = b ! 66\<rparr>"

subsection \<open>FSInfo\<close>

definition fsinfo_sector :: "fat \<Rightarrow> u32" where
  "fsinfo_sector s = partition_lba_offset s + ucast (fs_info (bs s))"

definition read_fsinfo :: "fat \<Rightarrow> fat \<times> bool" where
  "read_fsinfo s =
     (case dev_read (fsinfo_sector s) (disk s) of
        None \<Rightarrow> (s, False)
      | Some b \<Rightarrow>
          let s = s\<lparr>fsinfo := b\<rparr>
          in if get32 b 0 \<noteq> 0x41615252 \<or> get32 b 484 \<noteq> 0x61417272 \<or> get32 b 508 \<noteq> 0xAA550000
             then (s, False)
             else (s\<lparr>fsinfo_valid := True\<rparr>, True))"

definition write_fsinfo :: "fat \<Rightarrow> fat \<times> bool" where
  "write_fsinfo s =
     (if \<not> fsinfo_valid s then (s, False)
      else case dev_write (fsinfo_sector s) (fsinfo s) (disk s) of
             None \<Rightarrow> (s, False)
           | Some d \<Rightarrow>
               let s = s\<lparr>disk := d\<rparr>
               in case dev_read (fsinfo_sector s) d of
                    None \<Rightarrow> (s, False)
                  | Some v \<Rightarrow> (s, \<forall>i \<in> set [0, 484, 508, 488, 492]. get32 v i = get32 (fsinfo s) i))"

definition update_fsinfo_free_count :: "int \<Rightarrow> fat \<Rightarrow> fat" where
  "update_fsinfo_free_count delta s =
     (if \<not> fsinfo_valid s then s
      else let n = get32 (fsinfo s) 488
           in if n = 0xFFFFFFFF then s
              else if delta < 0 \<and> n < word_of_int (- delta) then s\<lparr>fsinfo := put32 (fsinfo s) 488 0\<rparr>
              else s\<lparr>fsinfo := put32 (fsinfo s) 488 (n + word_of_int delta)\<rparr>)"

text \<open>\<open>strict\<close> is the build option \<^verbatim>\<open>FAT32_STRICT_VALIDATION\<close> of the hardware target.\<close>

definition fat32_init_fs :: "bool \<Rightarrow> fat \<Rightarrow> fat \<times> bool" where
  "fat32_init_fs strict s =
     (case dev_read 0 (disk s) of
        None \<Rightarrow> (s, False)
      | Some b \<Rightarrow>
          let s = s\<lparr>bs := boot_sector_of b\<rparr>; spc = sectors_per_cluster (bs s)
          in if strict \<and> ((ucast (boot_signature (bs s)) :: u32) \<noteq> 0xAA55
                 \<or> bytes_per_sector (bs s) \<notin> {512, 1024, 2048, 4096}
                 \<or> spc = 0 \<or> spc AND (spc - 1) \<noteq> 0 \<or> root_cluster (bs s) < 2)
             then (s, False)
             else let s = s\<lparr>current_directory_cluster := root_cluster (bs s)\<rparr>
                  in if fs_info (bs s) \<noteq> 0 \<and> fs_info (bs s) \<noteq> 0xFFFF then (fst (read_fsinfo s), True)
                     else (s, True))"

subsection \<open>Geometry\<close>

definition get_total_clusters :: "boot_sector \<Rightarrow> u32" where
  "get_total_clusters b =
     (if sectors_per_cluster b = 0 then 2
      else (total_sectors_32 b - ucast (reserved_sector_count b)
              - ucast (number_of_fats b) * fat_size_32 b) div ucast (sectors_per_cluster b))"

definition is_valid_cluster :: "boot_sector \<Rightarrow> u32 \<Rightarrow> bool" where
  "is_valid_cluster b cluster =
     (if cluster < 2 then False
      else if cluster \<ge> FAT32_EOC_MIN then True
      else if cluster \<ge> get_total_clusters b then False
      else True)"

definition get_entries_per_cluster :: "boot_sector \<Rightarrow> nat" where
  "get_entries_per_cluster b =
     (if bytes_per_sector b = 0 \<or> sectors_per_cluster b = 0 then 1
      else unat (bytes_per_sector b) * unat (sectors_per_cluster b) div 32)"

definition get_first_data_sector :: "fat \<Rightarrow> u32" where
  "get_first_data_sector s =
     (let b = bs s;
          root_dir_sectors = (ucast (root_entry_count b) * 32 + (ucast (bytes_per_sector b) - 1))
            div ucast (bytes_per_sector b)
      in partition_lba_offset s + ucast (reserved_sector_count b)
           + ucast (number_of_fats b) * fat_size_32 b + root_dir_sectors)"

definition cluster_to_sector :: "u32 \<Rightarrow> fat \<Rightarrow> u32" where
  "cluster_to_sector cluster s =
     (let b = bs s in
      if \<not> is_valid_cluster b cluster then 0
      else partition_lba_offset s + (cluster - 2) * ucast (sectors_per_cluster b)
             + (ucast (reserved_sector_count b) + ucast (number_of_fats b) * fat_size_32 b))"

definition is_end_of_cluster_chain :: "u32 \<Rightarrow> bool" where
  "is_end_of_cluster_chain cluster \<longleftrightarrow> cluster \<ge> FAT32_EOC_MIN \<and> cluster \<le> FAT32_EOC_MAX"

subsection \<open>The file allocation table\<close>

text \<open>The sector of the first table that holds an entry, and the entry's offset in it.\<close>

definition fat_sector :: "u32 \<Rightarrow> fat \<Rightarrow> u32" where
  "fat_sector cluster s = partition_lba_offset s + ucast (reserved_sector_count (bs s))
     + cluster * 4 div ucast (bytes_per_sector (bs s))"

definition ent_offset :: "u32 \<Rightarrow> fat \<Rightarrow> nat" where
  "ent_offset cluster s = unat (cluster * 4 mod ucast (bytes_per_sector (bs s)))"

definition sector_fits :: "fat \<Rightarrow> bool" where
  "sector_fits s \<longleftrightarrow> bytes_per_sector (bs s) = 512"

definition read_fat_entry :: "u32 \<Rightarrow> fat \<Rightarrow> u32 option" where
  "read_fat_entry cluster s =
     (if cluster < 2 \<or> cluster \<ge> get_total_clusters (bs s) then Some INVALID_CLUSTER
      else if \<not> sector_fits s then None
      else case dev_read (fat_sector cluster s) (disk s) of
             None \<Rightarrow> Some INVALID_CLUSTER
           | Some b \<Rightarrow> Some (get32 b (ent_offset cluster s) AND 0x0FFFFFFF))"

definition get_next_cluster_in_chain :: "u32 \<Rightarrow> fat \<Rightarrow> u32 option" where
  "get_next_cluster_in_chain cluster s =
     (if \<not> sector_fits s then None
      else case dev_read (fat_sector cluster s) (disk s) of
             None \<Rightarrow> Some INVALID_CLUSTER
           | Some b \<Rightarrow> let n = get32 b (ent_offset cluster s) AND FAT32_EOC_MAX
                      in Some (if n \<ge> FAT32_EOC_MIN then INVALID_CLUSTER else n))"

text \<open>The modified sector goes to every copy of the table; the first failure ends the loop.\<close>

primrec write_fat_copies :: "nat list \<Rightarrow> u32 \<Rightarrow> u8 list \<Rightarrow> fat \<Rightarrow> fat \<times> bool" where
  "write_fat_copies [] cluster buf s = (s, True)"
| "write_fat_copies (k # ks) cluster buf s =
     (case write_verified (fat_sector cluster s + of_nat k * fat_size_32 (bs s)) buf (disk s) of
        (d, ok) \<Rightarrow> if ok then write_fat_copies ks cluster buf (s\<lparr>disk := d\<rparr>) else (s\<lparr>disk := d\<rparr>, False))"

definition set_entry_value :: "u8 list \<Rightarrow> nat \<Rightarrow> u32 \<Rightarrow> u8 list" where
  "set_entry_value b i v = put32 b i ((get32 b i AND 0xF0000000) OR (v AND 0x0FFFFFFF))"

definition write_fat_entry :: "u32 \<Rightarrow> u32 \<Rightarrow> fat \<Rightarrow> (fat \<times> bool) option" where
  "write_fat_entry cluster v s =
     (if \<not> sector_fits s then None
      else case dev_read (fat_sector cluster s) (disk s) of
             None \<Rightarrow> Some (s, False)
           | Some b \<Rightarrow> Some (write_fat_copies [0..<unat (number_of_fats (bs s))] cluster
                              (set_entry_value b (ent_offset cluster s) v) s))"

definition mark_cluster_in_fat :: "u32 \<Rightarrow> u32 \<Rightarrow> fat \<Rightarrow> (fat \<times> bool) option" where
  "mark_cluster_in_fat cluster v s =
     (if cluster < 2 \<or> cluster \<ge> get_total_clusters (bs s) then Some (s, False)
      else if \<not> sector_fits s then None
      else case dev_read (fat_sector cluster s) (disk s) of
             None \<Rightarrow> Some (s, False)
           | Some b \<Rightarrow>
               let old_value = get32 b (ent_offset cluster s) AND 0x0FFFFFFF;
                   (s, ok) = write_fat_copies [0..<unat (number_of_fats (bs s))] cluster
                               (set_entry_value b (ent_offset cluster s) v) s
               in Some (if \<not> ok then (s, False)
                        else if old_value = 0 \<and> v \<noteq> 0 then (update_fsinfo_free_count (- 1) s, True)
                        else if old_value \<noteq> 0 \<and> v = 0 then (update_fsinfo_free_count 1 s, True)
                        else (s, True)))"

text \<open>The scan of \<^verbatim>\<open>for (cluster = from; cluster < to; cluster++)\<close> for an entry that is 0.\<close>

fun scan_free :: "nat list \<Rightarrow> fat \<Rightarrow> (u32 option) option" where
  "scan_free [] s = Some None"
| "scan_free (c # cs) s = do {
     v \<leftarrow> read_fat_entry (of_nat c) s;
     if v = 0 then Some (Some (of_nat c)) else scan_free cs s }"

definition find_free_cluster :: "fat \<Rightarrow> (fat \<times> u32) option" where
  "find_free_cluster s =
     (let total_clusters = get_total_clusters (bs s);
          hint = get32 (fsinfo s) 492;
          start_cluster = (if fsinfo_valid s \<and> hint \<noteq> 0xFFFFFFFF \<and> hint \<ge> 2 \<and> hint < total_clusters then hint else 2);
          found = (\<lambda>c. (if fsinfo_valid s then s\<lparr>fsinfo := put32 (fsinfo s) 492 (c + 1)\<rparr> else s, c))
      in do {
        r \<leftarrow> scan_free [unat start_cluster..<unat total_clusters] s;
        case r of
          Some c \<Rightarrow> Some (found c)
        | None \<Rightarrow>
            if start_cluster > 2
            then do {
              r \<leftarrow> scan_free [2..<unat start_cluster] s;
              case r of Some c \<Rightarrow> Some (found c) | None \<Rightarrow> Some (s, INVALID_CLUSTER) }
            else Some (s, INVALID_CLUSTER) })"

definition allocate_new_cluster :: "fat \<Rightarrow> (fat \<times> u32) option" where
  "allocate_new_cluster s = do {
     r \<leftarrow> scan_free [2..<unat (get_total_clusters (bs s))] s;
     case r of
       None \<Rightarrow> Some (s, INVALID_CLUSTER)
     | Some c \<Rightarrow> do {
         (s, ok) \<leftarrow> write_fat_entry c FAT32_EOC_MAX s;
         Some (s, if ok then c else INVALID_CLUSTER) } }"

partial_function (option) chain_end :: "u32 \<Rightarrow> fat \<Rightarrow> u32 option" where
  "chain_end cluster s = do {
     n \<leftarrow> get_next_cluster_in_chain cluster s;
     if n < FAT32_EOC_MIN then chain_end n s else Some cluster }"

definition link_cluster_to_chain :: "u32 \<Rightarrow> u32 \<Rightarrow> fat \<Rightarrow> (fat \<times> bool) option" where
  "link_cluster_to_chain parent_cluster new_cluster s = do {
     cluster \<leftarrow> chain_end parent_cluster s;
     mark_cluster_in_fat cluster new_cluster s }"

partial_function (option) free_chain_loop :: "u32 \<Rightarrow> fat \<Rightarrow> (fat \<times> bool) option" where
  "free_chain_loop cluster s = do {
     n \<leftarrow> get_next_cluster_in_chain cluster s;
     r \<leftarrow> mark_cluster_in_fat cluster 0 s;
     if \<not> snd r then Some r
     else if n = INVALID_CLUSTER \<or> is_end_of_cluster_chain n then Some r
     else if \<not> is_valid_cluster (bs (fst r)) n then Some r
     else free_chain_loop n (fst r) }"

definition free_cluster_chain :: "u32 \<Rightarrow> fat \<Rightarrow> (fat \<times> bool) option" where
  "free_cluster_chain start_cluster s =
     (if \<not> is_valid_cluster (bs s) start_cluster then Some (s, False) else free_chain_loop start_cluster s)"

subsection \<open>Clusters\<close>

text \<open>Sectors that fail to read leave the buffer as it was.\<close>

primrec read_sectors_into :: "nat list \<Rightarrow> u32 \<Rightarrow> u8 list \<Rightarrow> fat \<Rightarrow> u8 list" where
  "read_sectors_into [] start buf s = buf"
| "read_sectors_into (i # is) start buf s =
     (case dev_read (start + of_nat i) (disk s) of
        None \<Rightarrow> read_sectors_into is start buf s
      | Some b \<Rightarrow> read_sectors_into is start
                    (take (i * SECTOR_SIZE) buf @ b @ drop (i * SECTOR_SIZE + length b) buf) s)"

definition read_cluster :: "u32 \<Rightarrow> u8 list \<Rightarrow> fat \<Rightarrow> u8 list" where
  "read_cluster cluster buf s =
     (if \<not> is_valid_cluster (bs s) cluster then buf
      else let start = cluster_to_sector cluster s
           in if start = 0 then buf
              else read_sectors_into [0..<unat (sectors_per_cluster (bs s))] start buf s)"

primrec write_sectors :: "nat list \<Rightarrow> u32 \<Rightarrow> u8 list \<Rightarrow> fat \<Rightarrow> fat \<times> bool" where
  "write_sectors [] start buf s = (s, True)"
| "write_sectors (i # is) start buf s =
     (case write_verified (start + of_nat i) (take SECTOR_SIZE (drop (i * SECTOR_SIZE) buf)) (disk s) of
        (d, ok) \<Rightarrow> if ok then write_sectors is start buf (s\<lparr>disk := d\<rparr>) else (s\<lparr>disk := d\<rparr>, False))"

definition write_cluster :: "u32 \<Rightarrow> u8 list \<Rightarrow> fat \<Rightarrow> (fat \<times> bool) option" where
  "write_cluster cluster buf s =
     (if \<not> sector_fits s then None
      else Some (write_sectors [0..<unat (sectors_per_cluster (bs s))]
             ((cluster - 2) * ucast (sectors_per_cluster (bs s)) + get_first_data_sector s) buf s))"

subsection \<open>Names and times\<close>

fun compare_part :: "bool \<Rightarrow> u8 list \<Rightarrow> cstring \<Rightarrow> cstring option" where
  "compare_part stop_at_dot [] r = Some r"
| "compare_part stop_at_dot (f # fs) r =
     (if r = [] \<or> stop_at_dot \<and> hd r = 46
      then (if f = 32 then compare_part stop_at_dot fs r else None)
      else if toupper (char_int f) \<noteq> toupper (char_int (hd r)) then None
      else compare_part stop_at_dot fs (tl r))"

definition compare_names :: "u8 list \<Rightarrow> cstring \<Rightarrow> int" where
  "compare_names fat_name regular_name =
     (case compare_part True (take 8 fat_name) regular_name of
        None \<Rightarrow> - 1
      | Some r \<Rightarrow>
          (case compare_part False (take 3 (drop 8 fat_name)) (if r \<noteq> [] \<and> hd r = 46 then tl r else r) of
             None \<Rightarrow> - 1
           | Some r \<Rightarrow> if r = [] then 0 else - 1))"

text \<open>Copies up to \<open>n\<close> letters and digits in upper case, up to the end or a dot.\<close>

fun copy_alnum :: "bool \<Rightarrow> nat \<Rightarrow> cstring \<Rightarrow> u8 list \<times> cstring" where
  "copy_alnum stop_at_dot n [] = ([], [])"
| "copy_alnum stop_at_dot n (c # cs) =
     (if stop_at_dot \<and> c = 46 \<or> n = 0 then ([], c # cs)
      else if isalnum (uint c)
      then apfst ((#) (word_of_int (toupper (uint c)))) (copy_alnum stop_at_dot (n - 1) cs)
      else copy_alnum stop_at_dot n cs)"

definition pad :: "nat \<Rightarrow> u8 list \<Rightarrow> u8 list" where
  "pad n xs = xs @ replicate (n - length xs) 32"

definition convert_to_83_format :: "cstring \<Rightarrow> u8 list" where
  "convert_to_83_format src =
     (if src = [46] then pad 11 [46]
      else if src = [46, 46] then pad 11 [46, 46]
      else let (name, rest) = copy_alnum True 8 src;
               rest = dropWhile (\<lambda>c. c \<noteq> 46) rest;
               ext = (if rest \<noteq> [] then fst (copy_alnum False 3 (tl rest)) else [])
           in pad 8 name @ pad 3 ext)"

definition trim_field :: "u8 list \<Rightarrow> cstring" where
  "trim_field f = (let t = takeWhile (\<lambda>c. c \<noteq> 0) f
     in if length t = length f then rev (dropWhile (\<lambda>c. c = 32) (rev t)) else t)"

definition format_filename :: "u8 list \<Rightarrow> cstring" where
  "format_filename name =
     (let filename = trim_field (take 8 name); extension = trim_field (take 3 (drop 8 name))
      in if length extension > 0 then filename @ [46] @ extension else filename)"

record rtc =
  year :: int
  month :: int
  day :: int
  hours :: int
  minutes :: int
  seconds :: int

definition fat32_time :: "rtc \<Rightarrow> u16" where
  "fat32_time r = push_bit 11 (word_of_int (hours r)) OR push_bit 5 (word_of_int (minutes r))
     OR word_of_int (seconds r div 2)"

definition fat32_date :: "rtc \<Rightarrow> u16" where
  "fat32_date r =
     (let fat_year = (if year r - 1980 < 0 then 0 else if year r - 1980 > 127 then 127 else year r - 1980)
      in push_bit 9 (word_of_int fat_year) OR push_bit 5 (word_of_int (month r)) OR word_of_int (day r))"

definition extract_fat32_date :: "u16 \<Rightarrow> int \<times> int \<times> int" where
  "extract_fat32_date d = (uint (d AND 0x1F), uint (drop_bit 5 d AND 0x0F), uint (drop_bit 9 d AND 0x7F) + 1980)"

definition extract_fat32_time :: "u16 \<Rightarrow> int \<times> int \<times> int" where
  "extract_fat32_time t = (uint (drop_bit 11 t AND 0x1F), uint (drop_bit 5 t AND 0x3F), uint (t AND 0x1F) * 2)"

subsection \<open>Directory entries\<close>

definition entry_attr :: "u8 list \<Rightarrow> u8" where
  "entry_attr e = e ! 11"

definition read_start_cluster :: "u8 list \<Rightarrow> u32" where
  "read_start_cluster e = push_bit 16 (ucast (get16 e 20)) OR ucast (get16 e 26)"

definition entry_size :: "u8 list \<Rightarrow> u32" where
  "entry_size e = get32 e 28"

text \<open>The clock is read once; it does not advance while an entry is made.\<close>

definition create_directory_entry :: "rtc \<Rightarrow> cstring \<Rightarrow> u32 \<Rightarrow> u8 \<Rightarrow> u8 list" where
  "create_directory_entry now name cluster attributes =
     convert_to_83_format name @ [attributes, 0, 0]
     @ bytes16 (fat32_time now) @ bytes16 (fat32_date now) @ bytes16 (fat32_date now)
     @ bytes16 (ucast (drop_bit 16 cluster AND 0xFFFF))
     @ bytes16 (fat32_time now) @ bytes16 (fat32_date now)
     @ bytes16 (ucast (cluster AND 0xFFFF)) @ replicate 4 0"

definition entries :: "u8 list \<Rightarrow> u8 list list" where
  "entries b = map (\<lambda>j. take 32 (drop (32 * j) b)) [0..<length b div 32]"

text \<open>
  The scan of a run of entries for one that satisfies \<open>p\<close>: \<open>Some\<close> when the search is
  decided, with the entry or at the end mark.
\<close>

fun scan_entries :: "(u8 list \<Rightarrow> bool) \<Rightarrow> u8 list list \<Rightarrow> (u8 list option) option" where
  "scan_entries p [] = None"
| "scan_entries p (e # es) =
     (if e ! 0 = 0 then Some None
      else if e ! 0 = 0xE5 \<or> entry_attr e AND 0x0F = 0x0F then scan_entries p es
      else if p e then Some (Some e)
      else scan_entries p es)"

primrec find_dir_in_sectors :: "nat list \<Rightarrow> cstring \<Rightarrow> u32 \<Rightarrow> fat \<Rightarrow> u32 option" where
  "find_dir_in_sectors [] dir_name sector s = None"
| "find_dir_in_sectors (i # is) dir_name sector s =
     (case dev_read (sector + of_nat i) (disk s) of
        None \<Rightarrow> Some INVALID_CLUSTER
      | Some b \<Rightarrow>
          (case scan_entries (\<lambda>e. entry_attr e AND 0x10 \<noteq> 0 \<and> compare_names (take 11 e) dir_name = 0) (entries b) of
             None \<Rightarrow> find_dir_in_sectors is dir_name sector s
           | Some None \<Rightarrow> Some INVALID_CLUSTER
           | Some (Some e) \<Rightarrow> Some (read_start_cluster e)))"

partial_function (option) find_next_cluster :: "cstring \<Rightarrow> u32 \<Rightarrow> fat \<Rightarrow> u32 option" where
  "find_next_cluster dir_name cluster s =
     (case find_dir_in_sectors [0..<unat (sectors_per_cluster (bs s))] dir_name (cluster_to_sector cluster s) s of
        Some r \<Rightarrow> Some r
      | None \<Rightarrow> do {
          n \<leftarrow> get_next_cluster_in_chain cluster s;
          if n < FAT32_EOC_MIN then find_next_cluster dir_name n s else Some INVALID_CLUSTER })"

primrec load_sectors :: "nat list \<Rightarrow> u32 \<Rightarrow> fat \<Rightarrow> u8 list option" where
  "load_sectors [] sector s = Some []"
| "load_sectors (i # is) sector s = do {
     b \<leftarrow> dev_read (sector + of_nat i) (disk s);
     bs \<leftarrow> load_sectors is sector s;
     Some (b @ bs) }"

text \<open>The file's entry; \<open>None\<close> is NULL. The search covers the first cluster of the directory.\<close>

definition find_file_in_directory :: "cstring \<Rightarrow> fat \<Rightarrow> u8 list option" where
  "find_file_in_directory filename s =
     (if \<not> heap_ok s then None
      else case load_sectors [0..<unat (sectors_per_cluster (bs s))]
                  (cluster_to_sector (current_directory_cluster s) s) s of
             None \<Rightarrow> None
           | Some b \<Rightarrow>
               (case scan_entries (\<lambda>e. compare_names (take 11 e) filename = 0) (entries b) of
                  None \<Rightarrow> None
                | Some r \<Rightarrow> r))"

subsection \<open>Reading files\<close>

text \<open>
  The sectors of one cluster are appended to what has been read; the flag is a read
  error. The counts stay below the size of a buffer in memory and do not wrap.
\<close>

primrec read_file_sectors :: "nat list \<Rightarrow> u32 \<Rightarrow> nat \<Rightarrow> nat \<Rightarrow> u8 list \<Rightarrow> fat \<Rightarrow> u8 list \<times> bool" where
  "read_file_sectors [] sector buffer_size n acc s = (acc, False)"
| "read_file_sectors (i # is) sector buffer_size n acc s =
     (let now = min (n - length acc) SECTOR_SIZE;
          now = (if length acc + now > buffer_size then buffer_size - length acc else now)
      in if now = 0 then (acc, False)
         else case dev_read (sector + of_nat i) (disk s) of
                None \<Rightarrow> (acc, True)
              | Some b \<Rightarrow>
                  let acc = acc @ take now b
                  in if length acc \<ge> n then (acc, False)
                     else read_file_sectors is sector buffer_size n acc s)"

partial_function (option) read_file_loop :: "u32 \<Rightarrow> nat \<Rightarrow> nat \<Rightarrow> u8 list \<Rightarrow> fat \<Rightarrow> (u8 list) option" where
  "read_file_loop cluster buffer_size n acc s =
     (if length acc < n
      then let r = read_file_sectors [0..<unat (sectors_per_cluster (bs s))] (cluster_to_sector cluster s)
                     buffer_size n acc s
           in if snd r then Some (fst r)
              else do {
                next \<leftarrow> get_next_cluster_in_chain cluster s;
                if is_end_of_cluster_chain next \<or> next = INVALID_CLUSTER then Some (fst r)
                else read_file_loop next buffer_size n (fst r) s }
      else Some acc)"

definition read_file_data :: "u32 \<Rightarrow> nat \<Rightarrow> nat \<Rightarrow> fat \<Rightarrow> (u8 list) option" where
  "read_file_data start_cluster buffer_size bytes_to_read s =
     (if buffer_size = 0 \<or> bytes_to_read = 0 then Some []
      else read_file_loop start_cluster buffer_size bytes_to_read [] s)"

primrec load_file_sectors :: "nat list \<Rightarrow> u32 \<Rightarrow> nat \<Rightarrow> u8 list \<Rightarrow> fat \<Rightarrow> u8 list \<times> bool" where
  "load_file_sectors [] sector file_size acc s = (acc, False)"
| "load_file_sectors (i # is) sector file_size acc s =
     (case dev_read (sector + of_nat i) (disk s) of
        None \<Rightarrow> (acc, True)
      | Some b \<Rightarrow>
          if length (acc @ b) \<ge> file_size then (acc @ b, False)
          else load_file_sectors is sector file_size (acc @ b) s)"

partial_function (option) load_file_loop :: "u32 \<Rightarrow> nat \<Rightarrow> u8 list \<Rightarrow> fat \<Rightarrow> (u8 list) option" where
  "load_file_loop cluster file_size acc s =
     (if length acc < file_size \<and> is_valid_cluster (bs s) cluster
      then let r = load_file_sectors [0..<unat (sectors_per_cluster (bs s))] (cluster_to_sector cluster s)
                     file_size acc s
           in if snd r then Some (fst r)
              else do {
                next \<leftarrow> get_next_cluster_in_chain cluster s;
                if is_end_of_cluster_chain next then Some (fst r)
                else load_file_loop next file_size (fst r) s }
      else Some acc)"

text \<open>The bytes stored at the load address, always whole sectors.\<close>

definition read_file_data_to_address :: "u32 \<Rightarrow> nat \<Rightarrow> fat \<Rightarrow> (u8 list) option" where
  "read_file_data_to_address start_cluster file_size s =
     (if file_size = 0 \<or> sectors_per_cluster (bs s) = 0 then Some []
      else load_file_loop start_cluster file_size [] s)"

definition fat32_load_file :: "cstring \<Rightarrow> fat \<Rightarrow> (u8 list) option" where
  "fat32_load_file filename s =
     (if bytes_per_sector (bs s) = 0 \<or> sectors_per_cluster (bs s) = 0 then Some []
      else case find_file_in_directory filename s of
             None \<Rightarrow> Some []
           | Some e \<Rightarrow>
               if read_start_cluster e < 2 then Some []
               else read_file_data_to_address (read_start_cluster e) (unat (entry_size e)) s)"

record FILE =
  start_cluster :: u32
  fmode :: cstring
  fname :: cstring
  fsize :: u32
  position :: u32

definition fat32_open_file :: "cstring \<Rightarrow> cstring \<Rightarrow> fat \<Rightarrow> FILE option" where
  "fat32_open_file filename mode s =
     (case find_file_in_directory filename s of
        None \<Rightarrow> None
      | Some e \<Rightarrow> Some \<lparr>start_cluster = read_start_cluster e, fmode = mode, fname = filename,
                        fsize = entry_size e, position = 0\<rparr>)"

definition fat32_read_file :: "FILE \<Rightarrow> u32 \<Rightarrow> u32 \<Rightarrow> fat \<Rightarrow> (u8 list) option" where
  "fat32_read_file f buffer_size bytes_to_read s =
     (if fmode f = lit ''w'' then Some []
      else let n = (if position f + bytes_to_read > fsize f then fsize f - position f else bytes_to_read)
           in read_file_data (start_cluster f) (unat buffer_size) (unat n) s)"

subsection \<open>Changing directories\<close>

definition free_index :: "u8 list list \<Rightarrow> nat option" where
  "free_index es = find (\<lambda>i. es ! i ! 0 = 0 \<or> es ! i ! 0 = 0xE5) [0..<length es]"

definition set_entry_at :: "nat \<Rightarrow> u8 list \<Rightarrow> u8 list \<Rightarrow> u8 list" where
  "set_entry_at i e b = take (32 * i) b @ e @ drop (32 * i + 32) b"

text \<open>
  The loop of \<^verbatim>\<open>add_entry_to_directory\<close>; \<open>buf\<close> is the array of entries, one cluster in size,
  and \<open>added\<close> the flag \<^verbatim>\<open>entry_added\<close>.
\<close>

partial_function (option) add_entry_loop ::
  "u8 list \<Rightarrow> u32 \<Rightarrow> bool \<Rightarrow> u32 \<Rightarrow> u8 list \<Rightarrow> fat \<Rightarrow> (fat \<times> bool) option" where
  "add_entry_loop new_entry parent_cluster added cluster buf s =
     (if \<not> cluster < FAT32_EOC_MIN then Some (s, added)
      else let b = read_cluster cluster buf s
           in case free_index (entries b) of
                Some i \<Rightarrow> do {
                  r \<leftarrow> write_cluster cluster (set_entry_at i new_entry b) s;
                  Some (fst r, True) }
              | None \<Rightarrow>
                  if added then Some (s, True)
                  else do {
                    n \<leftarrow> get_next_cluster_in_chain cluster s;
                    if is_end_of_cluster_chain n
                    then do {
                      a \<leftarrow> allocate_new_cluster s;
                      if snd a = INVALID_CLUSTER then Some (fst a, False)
                      else do {
                        m \<leftarrow> mark_cluster_in_fat parent_cluster (snd a) (fst a);
                        if \<not> snd m then Some (fst m, False)
                        else do {
                          w \<leftarrow> write_cluster (snd a) (set_entry_at 0 new_entry (replicate (length b) 0)) (fst m);
                          add_entry_loop new_entry parent_cluster True (snd a)
                            (set_entry_at 0 new_entry (replicate (length b) 0)) (fst w) } } }
                    else add_entry_loop new_entry parent_cluster added n b s })"

text \<open>\<open>junk\<close> is the array on the stack before the first read.\<close>

definition add_entry_to_directory ::
  "rtc \<Rightarrow> u8 list \<Rightarrow> u32 \<Rightarrow> cstring \<Rightarrow> u32 \<Rightarrow> u8 \<Rightarrow> fat \<Rightarrow> (fat \<times> bool) option" where
  "add_entry_to_directory now junk parent_cluster dirname new_cluster attributes s =
     add_entry_loop (create_directory_entry now dirname new_cluster attributes) parent_cluster False
       parent_cluster junk s"

definition entry_index :: "u8 list \<Rightarrow> u8 list list \<Rightarrow> nat option" where
  "entry_index e es = find (\<lambda>i. es ! i = e) [0..<length es]"

partial_function (option) remove_entry_from_directory ::
  "u32 \<Rightarrow> u8 list \<Rightarrow> u8 list \<Rightarrow> fat \<Rightarrow> (fat \<times> bool) option" where
  "remove_entry_from_directory cluster entry buf s =
     (if \<not> cluster < FAT32_EOC_MIN then Some (s, False)
      else let b = read_cluster cluster buf s
           in case entry_index entry (entries b) of
                Some i \<Rightarrow> do {
                  r \<leftarrow> write_cluster cluster (set_entry_at i (replicate 32 0) b) s;
                  Some (fst r, True) }
              | None \<Rightarrow> do {
                  n \<leftarrow> get_next_cluster_in_chain cluster s;
                  remove_entry_from_directory n entry b s })"

definition initialize_new_directory_entries :: "rtc \<Rightarrow> u32 \<Rightarrow> u32 \<Rightarrow> u8 list \<Rightarrow> u8 list" where
  "initialize_new_directory_entries now new_dir_cluster parent_cluster b =
     set_entry_at 1 (create_directory_entry now [46, 46] parent_cluster ATTR_DIRECTORY)
       (set_entry_at 0 (create_directory_entry now [46] new_dir_cluster ATTR_DIRECTORY) b)"

text \<open>The rollback frees the cluster again; its result is ignored.\<close>

definition rollback :: "u32 \<Rightarrow> fat \<Rightarrow> (fat \<times> bool) option" where
  "rollback cluster s = do { r \<leftarrow> mark_cluster_in_fat cluster 0 s; Some (fst r, False) }"

definition fat32_create_file :: "rtc \<Rightarrow> u8 list \<Rightarrow> cstring \<Rightarrow> fat \<Rightarrow> (fat \<times> bool) option" where
  "fat32_create_file now junk filename s = do {
     (s, c) \<leftarrow> find_free_cluster s;
     if c = INVALID_CLUSTER then Some (s, False)
     else do {
       (s, ok) \<leftarrow> mark_cluster_in_fat c FAT32_EOC_MAX s;
       if \<not> ok then Some (s, False)
       else do {
         (s, ok) \<leftarrow> add_entry_to_directory now junk (current_directory_cluster s) filename c 0 s;
         if \<not> ok then rollback c s
         else Some (fst (write_fsinfo s), True) } } }"

definition fat32_create_dir :: "rtc \<Rightarrow> u8 list \<Rightarrow> cstring \<Rightarrow> fat \<Rightarrow> (fat \<times> bool) option" where
  "fat32_create_dir now junk dirname s = do {
     (s, c) \<leftarrow> find_free_cluster s;
     if c = INVALID_CLUSTER then Some (s, False)
     else do {
       (s, ok) \<leftarrow> mark_cluster_in_fat c FAT32_EOC_MAX s;
       if \<not> ok then Some (s, False)
       else do {
         let b = initialize_new_directory_entries now c (current_directory_cluster s)
                   (replicate (32 * get_entries_per_cluster (bs s)) 0);
         (s, ok) \<leftarrow> write_cluster c b s;
         if \<not> ok then rollback c s
         else do {
           (s, ok) \<leftarrow> add_entry_to_directory now junk (current_directory_cluster s) dirname c ATTR_DIRECTORY s;
           if \<not> ok then rollback c s
           else Some (fst (write_fsinfo s), True) } } } }"

definition fat32_delete_file :: "u8 list \<Rightarrow> cstring \<Rightarrow> fat \<Rightarrow> (fat \<times> bool) option" where
  "fat32_delete_file junk filename s =
     (case find_file_in_directory filename s of
        None \<Rightarrow> Some (s, False)
      | Some e \<Rightarrow> do {
          (s, ok) \<leftarrow> free_cluster_chain (read_start_cluster e) s;
          if \<not> ok then Some (s, False)
          else do {
            (s, ok) \<leftarrow> remove_entry_from_directory (current_directory_cluster s) e junk s;
            if \<not> ok then Some (s, False)
            else Some (fst (write_fsinfo s), True) } })"

text \<open>
  The array of \<^verbatim>\<open>is_directory_empty\<close> has the entries of one sector, so that only clusters of
  one sector fit; entries whose second character is a dot are skipped as well.
\<close>

fun only_dots :: "u8 list list \<Rightarrow> bool" where
  "only_dots [] = True"
| "only_dots (e # es) =
     (if e ! 0 = 0 then True
      else if e ! 0 = 0xE5 \<or> entry_attr e AND 0x0F = 0x0F \<or> e ! 0 = 46 \<or> e ! 1 = 46 then only_dots es
      else False)"

definition is_directory_empty :: "u8 list \<Rightarrow> u8 list \<Rightarrow> fat \<Rightarrow> bool option" where
  "is_directory_empty junk entry s =
     (let sector = cluster_to_sector (read_start_cluster entry) s
      in if unat (sectors_per_cluster (bs s)) > 1 then None
         else Some (only_dots (entries
                (read_sectors_into [0..<unat (sectors_per_cluster (bs s))] sector (take SECTOR_SIZE junk) s))))"

definition fat32_delete_dir :: "u8 list \<Rightarrow> cstring \<Rightarrow> fat \<Rightarrow> (fat \<times> bool) option" where
  "fat32_delete_dir junk dirname s =
     (case find_file_in_directory dirname s of
        None \<Rightarrow> Some (s, False)
      | Some e \<Rightarrow> do {
          empty \<leftarrow> is_directory_empty junk e s;
          if \<not> empty then Some (s, False)
          else do {
            (s, ok) \<leftarrow> free_cluster_chain (read_start_cluster e) s;
            if \<not> ok then Some (s, False)
            else do {
              (s, ok) \<leftarrow> remove_entry_from_directory (current_directory_cluster s) e junk s;
              if \<not> ok then Some (s, False)
              else Some (fst (write_fsinfo s), True) } } })"

text \<open>Walking a path: the tokens between slashes of its first 255 characters.\<close>

lemma next_token_shorter:
  assumes "next_token D p = Some (t, rest)"
  shows "length rest < length p"
proof -
  define s' where "s' = dropWhile (\<lambda>c. c \<in> D) p"
  have "s' \<noteq> []" "rest = drop (Suc (length t)) s'"
    using assms by (auto simp: next_token_def s'_def Let_def split: if_splits)
  moreover have "length s' \<le> length p" unfolding s'_def by (rule length_dropWhile_le)
  ultimately show ?thesis by (cases s') auto
qed

function path_tokens :: "cstring \<Rightarrow> cstring list" where
  "path_tokens p = (case next_token {47} p of None \<Rightarrow> [] | Some (t, rest) \<Rightarrow> t # path_tokens rest)"
  by auto
termination
  by (relation "measure length") (auto dest: next_token_shorter)

declare path_tokens.simps [simp del]

fun walk :: "cstring list \<Rightarrow> u32 \<Rightarrow> fat \<Rightarrow> u32 option" where
  "walk [] cluster s = Some cluster"
| "walk (t # ts) cluster s = do {
     c \<leftarrow> find_next_cluster t cluster s;
     if c = INVALID_CLUSTER then Some INVALID_CLUSTER else walk ts c s }"

definition fat32_change_directory :: "cstring \<Rightarrow> fat \<Rightarrow> (fat \<times> bool) option" where
  "fat32_change_directory path s =
     (let p = take 255 path;
          absolute = (p \<noteq> [] \<and> hd p = 47)
      in do {
        c \<leftarrow> walk (path_tokens (if absolute then tl p else p))
                 (if absolute then root_cluster (bs s) else current_directory_cluster s) s;
        Some (if c = INVALID_CLUSTER then (s, False) else (s\<lparr>current_directory_cluster := c\<rparr>, True)) })"

definition fat32_read_dir :: "cstring \<Rightarrow> fat \<Rightarrow> u32 option" where
  "fat32_read_dir path s =
     (let p = take 255 path in walk (path_tokens (if p \<noteq> [] \<and> hd p = 47 then tl p else p)) (root_cluster (bs s)) s)"

end
