(* ===== verification/Program.thy ===== *)
theory Program
  imports Process Fat32
begin

text \<open>
  Loading programs (\<^verbatim>\<open>kernel/init/prg.c\<close> and the loading part of \<^verbatim>\<open>kernel/proc/process.c\<close>): relocation, ELF
  segments, and processes made from a file of the FAT32 volume. Memory is the flat memory of the
  heap; a jump into the program is the entry address that is returned.
\<close>

subsection \<open>Relocation\<close>

primrec relocate :: "nat \<Rightarrow> addr \<Rightarrow> u32 \<Rightarrow> mem \<Rightarrow> mem" where
  "relocate 0 tab offset m = m"
| "relocate (Suc n) tab offset m =
     (let address = load32 m tab in relocate n (tab + 4) offset (store32 address (load32 m address + offset) m))"

definition apply_relocation :: "addr \<Rightarrow> u32 \<Rightarrow> u32 \<Rightarrow> mem \<Rightarrow> mem" where
  "apply_relocation relocation_table relocation_count offset m = relocate (unat relocation_count) relocation_table offset m"

text \<open>The packed header in front of a program.\<close>

definition hdr_entry_point :: "mem \<Rightarrow> addr \<Rightarrow> u32" where "hdr_entry_point m p = load32 m (p + 8)"
definition hdr_relocation_offset :: "mem \<Rightarrow> addr \<Rightarrow> u32" where "hdr_relocation_offset m p = load32 m (p + 20)"
definition hdr_relocation_size :: "mem \<Rightarrow> addr \<Rightarrow> u32" where "hdr_relocation_size m p = load32 m (p + 24)"

subsection \<open>ELF\<close>

definition e_entry :: "mem \<Rightarrow> addr \<Rightarrow> u32" where "e_entry m p = load32 m (p + 24)"
definition e_phoff :: "mem \<Rightarrow> addr \<Rightarrow> u32" where "e_phoff m p = load32 m (p + 28)"
definition e_phnum :: "mem \<Rightarrow> addr \<Rightarrow> u16" where "e_phnum m p = load16 m (p + 44)"

record phdr =
  p_type :: u32
  p_offset :: u32
  p_vaddr :: u32
  p_filesz :: u32
  p_memsz :: u32

definition phdr_at :: "mem \<Rightarrow> addr \<Rightarrow> phdr" where
  "phdr_at m p = \<lparr>p_type = load32 m p, p_offset = load32 m (p + 4), p_vaddr = load32 m (p + 8), p_filesz = load32 m (p + 16),
     p_memsz = load32 m (p + 20)\<rparr>"

text \<open>The size of the segment is cut to the 16 bits of the parameter of \<^verbatim>\<open>memcpy\<close>.\<close>

definition load_segment :: "addr \<Rightarrow> phdr \<Rightarrow> mem \<Rightarrow> mem" where
  "load_segment elf_data ph m =
     (if p_type ph = 1
      then let m = fst (memcpy (p_vaddr ph) (elf_data + p_offset ph) (ucast (p_filesz ph)) m)
           in if p_memsz ph > p_filesz ph then fst (memset (p_vaddr ph + p_filesz ph) 0 (p_memsz ph - p_filesz ph) m) else m
      else m)"

primrec load_segments :: "nat list \<Rightarrow> addr \<Rightarrow> addr \<Rightarrow> mem \<Rightarrow> mem" where
  "load_segments [] elf_data phdrs m = m"
| "load_segments (i # is) elf_data phdrs m = load_segments is elf_data phdrs (load_segment elf_data (phdr_at m (phdrs + 32 * of_nat i)) m)"

definition elf_magic :: "mem \<Rightarrow> addr \<Rightarrow> bool" where
  "elf_magic m p \<longleftrightarrow> bytes_at m p [0x7F, 69, 76, 70]"

definition load_elf :: "addr \<Rightarrow> mem \<Rightarrow> mem \<times> int" where
  "load_elf elf_data m =
     (if elf_data = 0 \<or> \<not> elf_magic m elf_data then (m, - 1)
      else (load_segments [0..<unat (e_phnum m elf_data)] elf_data (elf_data + e_phoff m elf_data) m, 0))"

subsection \<open>Programs from files\<close>

abbreviation PROGRAM_LOAD_ADDRESS :: u32 where "PROGRAM_LOAD_ADDRESS \<equiv> 0x01100000"

text \<open>The result is the memory and whether the number of bytes that were loaded is positive.\<close>

definition load_program_into_memory :: "cstring \<Rightarrow> addr \<Rightarrow> fat \<Rightarrow> mem \<Rightarrow> (mem \<times> bool) option" where
  "load_program_into_memory program_name address s m = do {
     bytes \<leftarrow> fat32_load_file program_name s;
     Some (write_bytes address bytes m, bytes \<noteq> []) }"

text \<open>The address that is called, or \<open>None\<close> inside when there is no such file.\<close>

definition load_and_execute_program :: "cstring \<Rightarrow> fat \<Rightarrow> mem \<Rightarrow> (mem \<times> addr option) option" where
  "load_and_execute_program program_name s m = do {
     (m, ok) \<leftarrow> load_program_into_memory program_name PROGRAM_LOAD_ADDRESS s m;
     if \<not> ok then Some (m, None)
     else let m = apply_relocation (PROGRAM_LOAD_ADDRESS + hdr_relocation_offset m PROGRAM_LOAD_ADDRESS)
                    (hdr_relocation_size m PROGRAM_LOAD_ADDRESS div 4) PROGRAM_LOAD_ADDRESS m
          in Some (m, Some (hdr_entry_point m PROGRAM_LOAD_ADDRESS + PROGRAM_LOAD_ADDRESS)) }"

definition create_process_for_file :: "cstring \<Rightarrow> fat \<Rightarrow> ksys \<Rightarrow> (ksys \<times> int) option" where
  "create_process_for_file filename f s =
     (case free_slot (process_list s) of
        None \<Rightarrow> Some (s, - 1)
      | Some i \<Rightarrow> do {
          let id = next_pid s;
          let p = \<lparr>pid = id, pname = take 31 filename, is_running = True\<rparr>;
          let s = s\<lparr>next_pid := s32 (id + 1), process_list := (process_list s)[i := p]\<rparr>;
          (m, ok) \<leftarrow> load_program_into_memory filename PROGRAM_LOAD_ADDRESS f (kmem (heap s));
          let s = s\<lparr>heap := (heap s)\<lparr>kmem := m\<rparr>\<rparr>;
          (h, stack) \<leftarrow> k_malloc STACK_SIZE (heap s);
          if stack = 0
          then Some (s\<lparr>heap := h, process_list := (process_list s)[i := p\<lparr>is_running := False\<rparr>]\<rparr>, - 1)
          else Some (s\<lparr>heap := h, sch := create_task (hdr_entry_point (kmem h) PROGRAM_LOAD_ADDRESS + PROGRAM_LOAD_ADDRESS) stack (Some i) (sch s)\<rparr>, id) })"

subsection \<open>Relocation is exact\<close>

text \<open>Regions that share no byte.\<close>

definition apart :: "addr \<Rightarrow> nat \<Rightarrow> addr \<Rightarrow> nat \<Rightarrow> bool" where
  "apart p n q k \<longleftrightarrow> (\<forall>a. \<not> (in_region p n a \<and> in_region q k a))"

lemma apartI: "n \<le> unat (q - p) \<Longrightarrow> k \<le> unat (p - q) \<Longrightarrow> apart p n q k"
  unfolding apart_def in_region_def
proof (intro allI notI, elim conjE)
  fix a
  assume h: "n \<le> unat (q - p)" "k \<le> unat (p - q)" "unat (a - p) < n" "unat (a - q) < k"
  have e: "q - p = (a - p) - (a - q)" "p - q = (a - q) - (a - p)" by simp_all
  show False
  proof (cases "a - q \<le> a - p")
    case True
    then have "unat (q - p) = unat (a - p) - unat (a - q)" unfolding e by (rule unat_sub)
    then show False using h by simp
  next
    case False
    then have "unat (p - q) = unat (a - q) - unat (a - p)" unfolding e by (intro unat_sub) simp
    then show False using h by simp
  qed
qed

lemma load32_cong: "(\<And>a. in_region p 4 a \<Longrightarrow> m a = m' a) \<Longrightarrow> load32 m p = load32 m' p"
  by (simp add: load32_def in_region_def)

lemma load32_store32_apart: "apart p 4 q 4 \<Longrightarrow> load32 (store32 p v m) q = load32 m q"
  by (rule load32_cong) (metis apart_def store32_outside)

primrec targets_apart :: "addr list \<Rightarrow> bool" where
  "targets_apart [] \<longleftrightarrow> True"
| "targets_apart (t # ts) \<longleftrightarrow> (\<forall>u \<in> set ts. apart t 4 u 4) \<and> targets_apart ts"

lemma relocate_ok:
  assumes "\<forall>i < length ts. load32 m (tab + 4 * of_nat i) = ts ! i" "targets_apart ts"
    and "\<forall>t \<in> set ts. \<forall>i < length ts. apart t 4 (tab + 4 * of_nat i) 4"
  shows "(\<forall>t \<in> set ts. load32 (relocate (length ts) tab offset m) t = load32 m t + offset)
    \<and> (\<forall>a. (\<forall>t \<in> set ts. \<not> in_region t 4 a) \<longrightarrow> relocate (length ts) tab offset m a = m a)"
  using assms
proof (induction ts arbitrary: tab m)
  case (Cons t ts)
  have t: "load32 m tab = t" using Cons.prems(1) by auto
  define m1 where "m1 = store32 t (load32 m t + offset) m"
  have shift: "tab + 4 + 4 * of_nat i = tab + 4 * of_nat (Suc i)" for i by (simp add: algebra_simps)
  have tab: "\<forall>i < length ts. load32 m1 (tab + 4 + 4 * of_nat i) = ts ! i"
  proof (intro allI impI)
    fix i
    assume "i < length ts"
    then have "apart t 4 (tab + 4 * of_nat (Suc i)) 4" "load32 m (tab + 4 * of_nat (Suc i)) = ts ! i"
      using Cons.prems(1,3) by (auto simp del: of_nat_Suc)
    then show "load32 m1 (tab + 4 + 4 * of_nat i) = ts ! i" unfolding shift m1_def by (simp only: load32_store32_apart)
  qed
  have ap: "\<forall>u \<in> set ts. \<forall>i < length ts. apart u 4 (tab + 4 + 4 * of_nat i) 4"
    unfolding shift using Cons.prems(3) by (auto simp del: of_nat_Suc)
  have r: "relocate (length (t # ts)) tab offset m = relocate (length ts) (tab + 4) offset m1" by (simp add: t m1_def Let_def)
  note IH = Cons.IH [OF tab _ ap]
  have "load32 (relocate (length ts) (tab + 4) offset m1) t = load32 m t + offset"
  proof -
    have "load32 (relocate (length ts) (tab + 4) offset m1) t = load32 m1 t"
      using IH Cons.prems(2) by (intro load32_cong) (auto simp: apart_def)
    then show ?thesis by (simp add: m1_def)
  qed
  moreover have "load32 m1 u = load32 m u" if "u \<in> set ts" for u using Cons.prems(2) that by (simp add: m1_def load32_store32_apart)
  moreover have "m1 a = m a" if "\<not> in_region t 4 a" for a using that by (simp add: m1_def store32_outside)
  ultimately show ?case unfolding r using IH Cons.prems(2) by auto
qed simp

text \<open>
  Relocation adds the load address to exactly the words that the table names: when these words do
  not overlap each other or the table, each one holds its old value plus the offset afterwards, and no
  other byte of memory changes.
\<close>

theorem apply_relocation_correct:
  assumes "ts = map (\<lambda>i. load32 m (tab + 4 * of_nat i)) [0..<unat n]" "targets_apart ts"
    and "\<forall>t \<in> set ts. \<forall>i < unat n. apart t 4 (tab + 4 * of_nat i) 4"
  shows "(\<forall>t \<in> set ts. load32 (apply_relocation tab n offset m) t = load32 m t + offset)
    \<and> (\<forall>a. (\<forall>t \<in> set ts. \<not> in_region t 4 a) \<longrightarrow> apply_relocation tab n offset m a = m a)"
proof -
  have "length ts = unat n" "\<forall>i < length ts. load32 m (tab + 4 * of_nat i) = ts ! i" using assms(1) by simp_all
  then show ?thesis using relocate_ok [of ts m tab offset] assms(2,3) by (simp add: apply_relocation_def)
qed

theorem apply_relocation_correct_witness:
  "let m = write_bytes 0x1000 (bytes32 0x2000 @ bytes32 0x2010) (write_bytes 0x2000 (bytes32 7) (\<lambda>_. 0))
   in load32 (apply_relocation 0x1000 2 0x01100000 m) 0x2000 = 0x01100007 \<and> load32 (apply_relocation 0x1000 2 0x01100000 m) 0x2010 = 0x01100000"
proof -
  let ?m = "write_bytes 0x1000 (bytes32 0x2000 @ bytes32 0x2010) (write_bytes 0x2000 (bytes32 7) (\<lambda>_. 0)) :: mem"
  have l: "load32 ?m 0x1000 = 0x2000" "load32 ?m 0x1004 = 0x2010" "load32 ?m 0x2000 = 7" "load32 ?m 0x2010 = 0" by code_simp+
  let ?ts = "map (\<lambda>i. load32 ?m (0x1000 + 4 * of_nat i)) [0..<unat (2 :: u32)]"
  have ts: "?ts = [0x2000, 0x2010]" using l by (simp add: upt_rec)
  have "targets_apart ?ts" unfolding ts by (simp add: apartI)
  moreover have "\<forall>t \<in> set ?ts. \<forall>i < unat (2 :: u32). apart t 4 (0x1000 + 4 * of_nat i) 4"
  proof (intro ballI allI impI)
    fix t :: addr and i :: nat
    assume "t \<in> set ?ts" "i < unat (2 :: u32)"
    then have "t = 0x2000 \<or> t = 0x2010" "i = 0 \<or> i = 1" unfolding ts by auto
    then show "apart t 4 (0x1000 + 4 * of_nat i) 4" by (auto intro!: apartI)
  qed
  ultimately have "\<forall>t \<in> set ?ts. load32 (apply_relocation 0x1000 2 0x01100000 ?m) t = load32 ?m t + 0x01100000"
    using apply_relocation_correct [of ?ts ?m "0x1000" 2 "0x01100000"] by blast
  then show ?thesis unfolding ts Let_def using l by simp
qed

subsection \<open>ELF segments\<close>

text \<open>A segment that can be loaded: inside the address space, with a size that \<^verbatim>\<open>memcpy\<close> can count, apart from the image.\<close>

definition loadable :: "addr \<Rightarrow> nat \<Rightarrow> phdr \<Rightarrow> bool" where
  "loadable elf len ph \<longleftrightarrow> p_vaddr ph \<noteq> 0 \<and> p_filesz ph \<le> p_memsz ph \<and> unat (p_filesz ph) < 65536
     \<and> unat (p_vaddr ph) + unat (p_memsz ph) < 4294967296 \<and> unat (p_offset ph) + unat (p_filesz ph) \<le> len
     \<and> apart (p_vaddr ph) (unat (p_memsz ph)) elf len"

definition segment_byte :: "mem \<Rightarrow> addr \<Rightarrow> phdr \<Rightarrow> addr \<Rightarrow> u8" where
  "segment_byte m elf ph a = (if a - p_vaddr ph < p_filesz ph then m (elf + p_offset ph + (a - p_vaddr ph)) else 0)"

lemma in_image:
  assumes "unat (x :: u32) < n" "unat off + n \<le> len" "unat elf + len < 4294967296"
  shows "in_region elf len (elf + off + x)"
proof -
  have "unat (off + x) = unat off + unat x" using assms by (intro unat_plus_lt) simp
  then show ?thesis using assms by (simp add: in_region_def add.assoc)
qed

lemma load_segment_ok:
  assumes "p_type ph = 1" "loadable elf len ph" "unat elf + len < 4294967296" "elf \<noteq> 0" "\<And>a. in_region elf len a \<Longrightarrow> m a = m0 a"
  shows "load_segment elf ph m = (\<lambda>a. if in_region (p_vaddr ph) (unat (p_memsz ph)) a then segment_byte m0 elf ph a else m a)"
proof -
  let ?v = "p_vaddr ph" and ?src = "elf + p_offset ph" and ?fs = "p_filesz ph" and ?ms = "p_memsz ph"
  have l: "?v \<noteq> 0" "?fs \<le> ?ms" "unat ?fs < 65536" "unat ?v + unat ?ms < 4294967296" "unat (p_offset ph) + unat ?fs \<le> len" "apart ?v (unat ?ms) elf len"
    using assms(2) by (simp_all add: loadable_def)
  have fm: "unat ?fs \<le> unat ?ms" using l(2) by (simp add: word_le_nat_alt)
  have u16: "unat (ucast ?fs :: u16) = unat ?fs" using l(3) by (simp add: unsigned_ucast_eq take_bit_nat_eq_self)
  have off: "unat ?src = unat elf + unat (p_offset ph)" using l(5) assms(3) by (intro unat_plus_lt) simp
  then have src: "?src \<noteq> 0" using assms(4) by (auto simp: unat_eq_0)
  have img: "in_region elf len (?src + x)" if "unat x < unat ?fs" for x using in_image [OF that l(5) assms(3)] .
  have "unat ?fs \<le> unat (?v - ?src)" if "0 < unat ?fs"
  proof (rule ccontr)
    assume "\<not> ?thesis"
    then have "in_region elf len (?src + (?v - ?src))" by (intro img) simp
    moreover have "in_region ?v (unat ?ms) ?v" using that fm by (simp add: in_region_def)
    ultimately show False using l(6) by (simp add: apart_def)
  qed
  then have cp: "copy_fwd (unat ?fs) ?v ?src m = block_copy (unat ?fs) ?v ?src m"
    using l(3) by (cases "unat ?fs = 0") (simp_all add: copy_fwd_block block_copy_def)
  have val: "m (?src + (a - ?v)) = segment_byte m0 elf ph a" if "in_region ?v (unat ?fs) a" for a
    using that img [of "a - ?v"] assms(5) by (simp add: segment_byte_def in_region_def word_less_nat_alt)
  have "unat (?v + ?fs) = unat ?v + unat ?fs" using l(4) fm by (intro unat_plus_lt) simp
  then have v2: "?v + ?fs \<noteq> 0" using l(1) by (auto simp: unat_eq_0)
  have sub: "in_region (?v + ?fs) (unat (?ms - ?fs)) a \<longleftrightarrow> in_region ?v (unat ?ms) a \<and> \<not> in_region ?v (unat ?fs) a" for a
  proof -
    have d: "unat (?ms - ?fs) = unat ?ms - unat ?fs" using l(2) by (rule unat_sub)
    have s: "a - (?v + ?fs) = (a - ?v) - ?fs" by simp
    show ?thesis
    proof (cases "?fs \<le> a - ?v")
      case True
      then have "unat ((a - ?v) - ?fs) = unat (a - ?v) - unat ?fs" by (rule unat_sub)
      moreover have "unat ?fs \<le> unat (a - ?v)" using True by (simp add: word_le_nat_alt)
      ultimately show ?thesis unfolding in_region_def s d using fm by auto
    next
      case False
      then have lt: "unat (a - ?v) < unat ?fs" by (simp add: word_le_nat_alt)
      have "unat ((a - ?v) - ?fs) = unat (a - ?v) + 4294967296 - unat ?fs"
        using False by (simp add: unat_sub_if_size word_le_nat_alt word_size)
      then show ?thesis unfolding in_region_def s d using lt fm unat_lt_32 [of ?ms] by auto
    qed
  qed
  have zero: "segment_byte m0 elf ph a = 0" if "\<not> in_region ?v (unat ?fs) a" for a
    using that by (simp add: segment_byte_def in_region_def word_less_nat_alt)
  have c: "fst (memcpy ?v ?src (ucast ?fs) m) = block_copy (unat ?fs) ?v ?src m" using cp l(1) src u16 by (simp add: memcpy_def)
  show ?thesis
  proof (cases "?ms > ?fs")
    case True
    have "load_segment elf ph m = fill (unat (?ms - ?fs)) (?v + ?fs) 0 (block_copy (unat ?fs) ?v ?src m)"
      using assms(1) True c v2 by (simp add: load_segment_def memset_def)
    also have "\<dots> = (\<lambda>a. if in_region (?v + ?fs) (unat (?ms - ?fs)) a then 0 else block_copy (unat ?fs) ?v ?src m a)"
      using unat_lt_32 [of "?ms - ?fs"] by (simp add: fill_eq)
    finally have e: "load_segment elf ph m = (\<lambda>a. if in_region (?v + ?fs) (unat (?ms - ?fs)) a then 0 else block_copy (unat ?fs) ?v ?src m a)" .
    have "in_region ?v (unat ?ms) a" if "in_region ?v (unat ?fs) a" for a using that fm by (simp add: in_region_def)
    then show ?thesis unfolding e sub block_copy_def using val zero by (intro ext) auto
  next
    case False
    then have "?ms = ?fs" using l(2) by simp
    then show ?thesis using assms(1) c val by (auto simp: load_segment_def block_copy_def fun_eq_iff)
  qed
qed

definition seg :: "mem \<Rightarrow> addr \<Rightarrow> nat \<Rightarrow> phdr" where
  "seg m phdrs i = phdr_at m (phdrs + 32 * of_nat i)"

text \<open>The indices of the segments to be loaded.\<close>

definition loads :: "mem \<Rightarrow> addr \<Rightarrow> nat list \<Rightarrow> nat list" where
  "loads m phdrs is = filter (\<lambda>i. p_type (seg m phdrs i) = 1) is"

lemma phdr_at_cong: "(\<And>a. in_region p 32 a \<Longrightarrow> m a = m' a) \<Longrightarrow> phdr_at m p = phdr_at m' p"
proof -
  assume h: "\<And>a. in_region p 32 a \<Longrightarrow> m a = m' a"
  have "load32 m (p + k) = load32 m' (p + k)" if "k \<in> {0, 4, 8, 16, 20}" for k
  proof (rule load32_cong)
    fix a
    assume a: "in_region (p + k) 4 a"
    have k: "unat k \<le> 20" using that by auto
    have e: "a - p = k + (a - (p + k))" by simp
    have "unat (a - p) = unat k + unat (a - (p + k))" unfolding e using k a by (subst unat_plus_lt) (simp_all add: in_region_def)
    then show "m a = m' a" using h a k by (simp add: in_region_def)
  qed
  from this [of 0] this [of 4] this [of 8] this [of 16] this [of 20] show ?thesis by (simp add: phdr_at_def)
qed

lemma load_segments_ok:
  assumes "\<forall>i \<in> set (loads m0 phdrs is). loadable elf len (seg m0 phdrs i)" "unat elf + len < 4294967296" "elf \<noteq> 0"
    and "\<forall>i \<in> set is. \<forall>a. in_region (phdrs + 32 * of_nat i) 32 a \<longrightarrow> in_region elf len a"
    and "\<forall>i \<in> set (loads m0 phdrs is). \<forall>j \<in> set (loads m0 phdrs is). i \<noteq> j \<longrightarrow>
      apart (p_vaddr (seg m0 phdrs i)) (unat (p_memsz (seg m0 phdrs i))) (p_vaddr (seg m0 phdrs j)) (unat (p_memsz (seg m0 phdrs j)))"
    and "distinct is" "\<forall>a. in_region elf len a \<longrightarrow> m a = m0 a"
  shows "(\<forall>i \<in> set (loads m0 phdrs is). \<forall>a. in_region (p_vaddr (seg m0 phdrs i)) (unat (p_memsz (seg m0 phdrs i))) a
        \<longrightarrow> load_segments is elf phdrs m a = segment_byte m0 elf (seg m0 phdrs i) a)
    \<and> (\<forall>a. (\<forall>i \<in> set (loads m0 phdrs is). \<not> in_region (p_vaddr (seg m0 phdrs i)) (unat (p_memsz (seg m0 phdrs i))) a)
        \<longrightarrow> load_segments is elf phdrs m a = m a)"
  using assms(1,4-)
proof (induction "is" arbitrary: m)
  case Nil
  then show ?case by (simp add: loads_def)
next
  case (Cons i "is")
  let ?s = "seg m0 phdrs"
  have ph: "phdr_at m (phdrs + 32 * of_nat i) = ?s i" unfolding seg_def using Cons.prems(2,5) by (intro phdr_at_cong) auto
  have sub: "set (loads m0 phdrs is) \<subseteq> set (loads m0 phdrs (i # is))" by (auto simp: loads_def)
  define m1 where "m1 = load_segment elf (?s i) m"
  have run: "load_segments (i # is) elf phdrs m = load_segments is elf phdrs m1" by (simp add: ph m1_def)
  show ?case
  proof (cases "p_type (?s i) = 1")
    case False
    then have "m1 = m" "loads m0 phdrs (i # is) = loads m0 phdrs is" by (simp_all add: m1_def load_segment_def loads_def)
    then show ?thesis unfolding run using Cons.IH [of m] Cons.prems by simp
  next
    case True
    then have l: "i \<in> set (loads m0 phdrs (i # is))" "loads m0 phdrs (i # is) = i # loads m0 phdrs is" by (simp_all add: loads_def)
    have ok: "loadable elf len (?s i)" using Cons.prems(1) l(1) by blast
    have m1: "m1 = (\<lambda>a. if in_region (p_vaddr (?s i)) (unat (p_memsz (?s i))) a then segment_byte m0 elf (?s i) a else m a)"
      unfolding m1_def using Cons.prems(5) by (intro load_segment_ok [OF True ok assms(2,3)]) blast
    have "\<forall>a. in_region elf len a \<longrightarrow> m1 a = m0 a" using ok Cons.prems(5) by (auto simp: m1 loadable_def apart_def)
    then have IH: "(\<forall>j \<in> set (loads m0 phdrs is). \<forall>a. in_region (p_vaddr (?s j)) (unat (p_memsz (?s j))) a
        \<longrightarrow> load_segments is elf phdrs m1 a = segment_byte m0 elf (?s j) a)
      \<and> (\<forall>a. (\<forall>j \<in> set (loads m0 phdrs is). \<not> in_region (p_vaddr (?s j)) (unat (p_memsz (?s j))) a) \<longrightarrow> load_segments is elf phdrs m1 a = m1 a)"
      using Cons.prems(1-4) l(2) by (intro Cons.IH) auto
    have ap: "apart (p_vaddr (?s i)) (unat (p_memsz (?s i))) (p_vaddr (?s j)) (unat (p_memsz (?s j)))" if "j \<in> set (loads m0 phdrs is)" for j
    proof -
      have "i \<noteq> j" using that Cons.prems(4) by (auto simp: loads_def)
      then show ?thesis using Cons.prems(3) l that by simp
    qed
    then have "load_segments is elf phdrs m1 a = segment_byte m0 elf (?s i) a" if "in_region (p_vaddr (?s i)) (unat (p_memsz (?s i))) a" for a
      using IH that by (auto simp: apart_def m1)
    then show ?thesis unfolding run l(2) using IH by (auto simp: m1)
  qed
qed

text \<open>
  C29. An ELF image is loaded where it says: when the segments to be loaded lie apart from each other and from
  the image, and their sizes fit the count of \<^verbatim>\<open>memcpy\<close>, \<^verbatim>\<open>load_elf\<close> returns 0, each segment then holds its
  bytes of the file followed by zeros up to its size in memory, and no other byte changes. An image without
  the magic number is refused and memory is left alone.
\<close>

theorem load_elf_correct:
  fixes elf :: addr
  defines "phs \<equiv> \<lambda>m. elf + e_phoff m elf" and "num \<equiv> \<lambda>m. [0..<unat (e_phnum m elf)]"
  assumes "\<forall>i \<in> set (loads m (phs m) (num m)). loadable elf len (seg m (phs m) i)" "unat elf + len < 4294967296" "elf \<noteq> 0"
    and "\<forall>i \<in> set (num m). \<forall>a. in_region (phs m + 32 * of_nat i) 32 a \<longrightarrow> in_region elf len a"
    and "\<forall>i \<in> set (loads m (phs m) (num m)). \<forall>j \<in> set (loads m (phs m) (num m)). i \<noteq> j \<longrightarrow>
      apart (p_vaddr (seg m (phs m) i)) (unat (p_memsz (seg m (phs m) i))) (p_vaddr (seg m (phs m) j)) (unat (p_memsz (seg m (phs m) j)))"
  shows "if elf_magic m elf
    then \<exists>m'. load_elf elf m = (m', 0)
      \<and> (\<forall>i \<in> set (loads m (phs m) (num m)). \<forall>a. in_region (p_vaddr (seg m (phs m) i)) (unat (p_memsz (seg m (phs m) i))) a
           \<longrightarrow> m' a = segment_byte m elf (seg m (phs m) i) a)
      \<and> (\<forall>a. (\<forall>i \<in> set (loads m (phs m) (num m)). \<not> in_region (p_vaddr (seg m (phs m) i)) (unat (p_memsz (seg m (phs m) i))) a) \<longrightarrow> m' a = m a)
    else load_elf elf m = (m, - 1)"
  using load_segments_ok [OF assms(3-7), of m] assms(5) unfolding phs_def num_def by (simp add: load_elf_def)

definition sample_elf :: "u8 list" where
  "sample_elf = [0x7F, 69, 76, 70] @ replicate 20 0 @ bytes32 0x400000 @ bytes32 52 @ replicate 8 0 @ bytes16 52 @ bytes16 32 @ bytes16 1 @ replicate 6 0
     @ bytes32 1 @ bytes32 84 @ bytes32 0x400000 @ bytes32 0 @ bytes32 3 @ bytes32 5 @ bytes32 0 @ bytes32 0 @ [11, 12, 13]"

definition elf_mem :: mem where
  "elf_mem = write_bytes 0x10000 sample_elf (\<lambda>_. 9)"

lemma elf_mem_fields:
  "e_phoff elf_mem 0x10000 = 52" "e_phnum elf_mem 0x10000 = 1" "bytes_at elf_mem 0x10000 [0x7F, 69, 76, 70]" "bytes_at elf_mem 0x10054 [11, 12, 13]"
  "phdr_at elf_mem 0x10034 = \<lparr>p_type = 1, p_offset = 84, p_vaddr = 0x400000, p_filesz = 3, p_memsz = 5\<rparr>" "elf_mem 0x400005 = 9"
  by code_simp+

theorem load_elf_correct_witness:
  "\<exists>m'. load_elf 0x10000 elf_mem = (m', 0) \<and> bytes_at m' 0x400000 [11, 12, 13, 0, 0, 9]"
proof -
  let ?phs = "0x10000 + e_phoff elf_mem 0x10000" and ?num = "[0..<unat (e_phnum elf_mem 0x10000)]"
  have phs: "?phs = 0x10034" and num: "?num = [0]" using elf_mem_fields(1,2) by simp_all
  have sg: "seg elf_mem ?phs 0 = \<lparr>p_type = 1, p_offset = 84, p_vaddr = 0x400000, p_filesz = 3, p_memsz = 5\<rparr>"
    unfolding seg_def phs using elf_mem_fields(5) by simp
  then have ld: "loads elf_mem ?phs [0] = [0]" by (simp add: loads_def)
  have hdr: "in_region 0x10000 87 a" if "in_region (?phs + 32 * of_nat 0) 32 a" for a :: addr
  proof -
    have e: "a - 0x10000 = 52 + (a - 0x10034)" by simp
    have "unat (a - 0x10034) < 32" using that by (simp add: phs in_region_def)
    then have "unat (a - 0x10000) = 52 + unat (a - 0x10034)" unfolding e by (subst unat_plus_lt) simp_all
    then show ?thesis using \<open>unat (a - 0x10034) < 32\<close> by (simp add: in_region_def)
  qed
  have lo: "loadable 0x10000 87 (seg elf_mem ?phs 0)" unfolding sg loadable_def by (simp add: apartI)
  obtain m' where m': "load_elf 0x10000 elf_mem = (m', 0)"
      "\<And>a. in_region 0x400000 5 a \<Longrightarrow> m' a = segment_byte elf_mem 0x10000 (seg elf_mem ?phs 0) a"
      "\<And>a. \<not> in_region 0x400000 5 a \<Longrightarrow> m' a = elf_mem a"
    using load_elf_correct [where elf = "0x10000" and m = elf_mem and len = 87] hdr lo elf_mem_fields(3) unfolding num ld by (simp add: sg elf_magic_def) blast
  have "m' 0x400000 = 11" "m' 0x400001 = 12" "m' 0x400002 = 13" "m' 0x400003 = 0" "m' 0x400004 = 0"
    using elf_mem_fields(4) unfolding sg by (subst m'(2); simp add: in_region_def segment_byte_def sg)+
  moreover have "m' 0x400005 = 9" using m'(3) elf_mem_fields(6) by (simp add: in_region_def)
  ultimately show ?thesis using m'(1) by simp
qed

subsection \<open>Processes from files\<close>

text \<open>
  A process made from a file is entered in the table like one made from an entry point; the load may
  fail and the task is created all the same.
\<close>

lemma running_pids_names:
  assumes "map (\<lambda>p. (pid p, is_running p)) (process_list s) = map (\<lambda>p. (pid p, is_running p)) (process_list t)"
  shows "running_pids s = running_pids t"
proof -
  have "running_pids s = map fst (filter snd (map (\<lambda>p. (pid p, is_running p)) (process_list s)))" for s
    by (simp add: running_pids_def filter_map comp_def)
  then show ?thesis using assms by metis
qed

lemma create_process_for_file_as:
  assumes "create_process_for_file name f s = Some (s', r)"
  shows "\<exists>e h s2. create_process e (s\<lparr>heap := h\<rparr>) = Some (s2, r) \<and> running_pids s2 = running_pids s' \<and> next_pid s2 = next_pid s'
    \<and> length (process_list s2) = length (process_list s')"
proof (cases "free_slot (process_list s)")
  case None
  then have "create_process e (s\<lparr>heap := heap s\<rparr>) = Some (s, r) \<and> s' = s" for e
    using assms by (simp add: create_process_def create_process_for_file_def)
  then show ?thesis by metis
next
  case (Some i)
  obtain m ok h stack where l: "load_program_into_memory name PROGRAM_LOAD_ADDRESS f (kmem (heap s)) = Some (m, ok)"
      "k_malloc STACK_SIZE ((heap s)\<lparr>kmem := m\<rparr>) = Some (h, stack)"
    using assms Some by (auto simp: create_process_for_file_def Let_def Option.bind_eq_Some_conv)
  let ?e = "hdr_entry_point (kmem h) PROGRAM_LOAD_ADDRESS + PROGRAM_LOAD_ADDRESS" and ?h = "(heap s)\<lparr>kmem := m\<rparr>"
  obtain s2 where s2: "create_process ?e (s\<lparr>heap := ?h\<rparr>) = Some (s2, r)"
    using assms Some l by (auto simp: create_process_for_file_def create_process_def Let_def split: if_splits)
  have "map (\<lambda>p. (pid p, is_running p)) (process_list s2) = map (\<lambda>p. (pid p, is_running p)) (process_list s')" "next_pid s2 = next_pid s'"
      "length (process_list s2) = length (process_list s')"
    using assms s2 Some l by (auto simp: create_process_for_file_def create_process_def Let_def map_update split: if_splits)
  then show ?thesis using s2 running_pids_names by blast
qed

text \<open>The table of processes stays consistent.\<close>

lemma create_process_for_file_pids:
  assumes "proc_inv s" "next_pid s < 2147483647" "create_process_for_file name f s = Some (s', r)"
  shows "proc_inv s'
    \<and> (if r = - 1 then set (running_pids s') = set (running_pids s)
       else r \<notin> set (running_pids s) \<and> set (running_pids s') = insert r (set (running_pids s)))"
proof -
  obtain e h s2 where s2: "create_process e (s\<lparr>heap := h\<rparr>) = Some (s2, r)" "running_pids s2 = running_pids s'" "next_pid s2 = next_pid s'"
      "length (process_list s2) = length (process_list s')" using create_process_for_file_as [OF assms(3)] by blast
  have h: "running_pids (s\<lparr>heap := h\<rparr>) = running_pids s" by (simp add: running_pids_def)
  then have "proc_inv (s\<lparr>heap := h\<rparr>)" using assms(1) by (simp add: proc_inv_def)
  from create_process_pids_ok [OF this _ s2(1)] assms(2) h s2(2-4) show ?thesis by (cases "r = - 1") (simp_all add: proc_inv_def)
qed

end
