(* ===== verification/Syscall.thy ===== *)
theory Syscall
  imports Kmalloc_Correct
begin

text \<open>
  The system call table and dispatcher (\<^verbatim>\<open>kernel/syscall/syscall_table.c\<close>) and the
  allocation functions of the C library that sit on top of them
  (\<^verbatim>\<open>lib/libc/stdlib.c\<close>). A call through the table is recorded with the arguments the
  dispatcher really passes.
\<close>

subsection \<open>The table\<close>

datatype kfunc = DISPLAY_PUTCHAR | KERNEL_PRINT_NUMBER | PIT_DELAY | KB_WAIT_ENTER
  | K_MALLOC | K_FREE | K_REALLOC | GETCHAR | REGISTER_INTERRUPT_HANDLER

definition syscall_table :: "int \<Rightarrow> kfunc option" where
  "syscall_table i =
     (if 0 \<le> i \<and> i < 9
      then Some ([DISPLAY_PUTCHAR, KERNEL_PRINT_NUMBER, PIT_DELAY, KB_WAIT_ENTER, K_MALLOC, K_FREE,
                  K_REALLOC, GETCHAR, REGISTER_INTERRUPT_HANDLER] ! nat i)
      else None)"

subsection \<open>The dispatcher\<close>

datatype syscall_result = Invalid_index int | Unknown_index int | Call kfunc "u32 list"

definition syscall_handler :: "int \<Rightarrow> u32 \<Rightarrow> u32 \<Rightarrow> u32 \<Rightarrow> syscall_result" where
  "syscall_handler syscall_index arg1 arg2 arg3 =
     (if syscall_index < 0 \<or> syscall_index \<ge> 512 then Invalid_index syscall_index
      else case syscall_table syscall_index of
             None \<Rightarrow> Invalid_index syscall_index
           | Some func_ptr \<Rightarrow>
               if syscall_index \<in> {0, 3, 5} then Call func_ptr []
               else if syscall_index \<in> {1, 2, 4} then Call func_ptr [arg1]
               else if syscall_index = 6 then Call func_ptr [arg1, arg2]
               else if syscall_index = 8 then Call func_ptr [arg1, arg2]
               else if syscall_index = 7 then Call func_ptr []
               else Unknown_index syscall_index)"

subsection \<open>Allocation in the C library\<close>

text \<open>
  \<^verbatim>\<open>malloc\<close> and \<^verbatim>\<open>realloc\<close> reach the kernel heap with their arguments. \<^verbatim>\<open>free\<close> is
  dispatched without arguments, so that \<^verbatim>\<open>k_free\<close> reads a stack word the caller never
  wrote, the parameter \<open>stack_word\<close>.
\<close>

definition malloc :: "u32 \<Rightarrow> kheap \<Rightarrow> (kheap \<times> addr) option" where
  "malloc sz h =
     (case syscall_handler 4 sz 0 0 of
        Call K_MALLOC [n] \<Rightarrow> k_malloc n h
      | _ \<Rightarrow> None)"

definition realloc :: "addr \<Rightarrow> u32 \<Rightarrow> kheap \<Rightarrow> (kheap \<times> addr) option" where
  "realloc ptr new_size h =
     (case syscall_handler 6 ptr new_size 0 of
        Call K_REALLOC [p, n] \<Rightarrow> k_realloc p n h
      | _ \<Rightarrow> None)"

definition free :: "addr \<Rightarrow> addr \<Rightarrow> kheap \<Rightarrow> kheap option" where
  "free stack_word ptr h =
     (if ptr = 0 then Some h
      else case syscall_handler 5 ptr 0 0 of
             Call K_FREE [] \<Rightarrow> k_free stack_word h
           | Call K_FREE (p # _) \<Rightarrow> k_free p h
           | _ \<Rightarrow> None)"

definition aligned_alloc :: "u32 \<Rightarrow> u32 \<Rightarrow> kheap \<Rightarrow> (kheap \<times> addr) option" where
  "aligned_alloc alignment sz h =
     (if alignment = 0 \<or> alignment AND (alignment - 1) \<noteq> 0 then Some (h, 0)
      else do {
        let total_size = sz + alignment - 1 + 4;
        (h, raw_memory) \<leftarrow> malloc total_size h;
        if raw_memory = 0 then Some (h, 0)
        else do {
          let raw_address = raw_memory + 4;
          let aligned_address = (raw_address + alignment - 1) AND NOT (alignment - 1);
          Some (h\<lparr>kmem := store32 (aligned_address - 4) raw_memory (kmem h)\<rparr>, aligned_address) } })"

definition aligned_free :: "addr \<Rightarrow> addr \<Rightarrow> kheap \<Rightarrow> kheap option" where
  "aligned_free stack_word ptr h =
     (if ptr \<noteq> 0 then free stack_word (load32 (kmem h) (ptr - 4)) h else Some h)"

definition secure_free :: "addr \<Rightarrow> addr \<Rightarrow> u32 \<Rightarrow> kheap \<Rightarrow> kheap option" where
  "secure_free stack_word ptr sz h =
     (if ptr \<noteq> 0 then free stack_word ptr (h\<lparr>kmem := fst (memset ptr 0 sz (kmem h))\<rparr>) else Some h)"

subsection \<open>Alignment arithmetic\<close>

lemma unat_and_not_mask:
  assumes "k < 32"
  shows "unat ((x :: u32) AND NOT (2 ^ k - 1)) = unat x - unat x mod 2 ^ k"
proof -
  have "x AND NOT (2 ^ k - 1) = push_bit k (drop_bit k x)"
    by (rule bit_word_eqI)
      (auto simp: bit_and_iff bit_not_iff bit_mask_iff bit_push_bit_iff bit_drop_bit_eq mask_eq_exp_minus_1 [symmetric])
  also have "unat \<dots> = unat x div 2 ^ k * 2 ^ k"
  proof -
    have "unat (2 ^ k :: u32) = 2 ^ k"
      using assms by (simp add: unat_pow2)
    moreover have "unat x div 2 ^ k * 2 ^ k \<le> unat x" "unat x div 2 ^ k \<le> unat x" by simp_all
    then have "unat x div 2 ^ k * 2 ^ k < 4294967296" "unat x div 2 ^ k < 4294967296"
      using unat_lt_32 [of x] by linarith+
    ultimately show ?thesis
      by (simp add: push_bit_eq_mult drop_bit_eq_div unat_word_ariths unat_div)
  qed
  finally show ?thesis by (simp add: minus_mod_eq_div_mult)
qed

lemma pow2_and_pred: "k < 32 \<Longrightarrow> (2 ^ k :: u32) AND (2 ^ k - 1) = 0"
  by (rule bit_word_eqI) (auto simp: bit_and_iff bit_exp_iff bit_mask_iff mask_eq_exp_minus_1 [symmetric])

lemma malloc_k_malloc: "malloc sz h = k_malloc sz h"
  by (simp add: malloc_def syscall_handler_def syscall_table_def)

subsection \<open>Properties\<close>

text \<open>
  What the dispatcher calls: numbers outside the table are rejected; number 0
  (\<^verbatim>\<open>display_putchar\<close>) and number 5 (\<^verbatim>\<open>k_free\<close>) are called without their argument.
\<close>

lemma syscall_dispatch:
  "i < 0 \<or> 9 \<le> i \<Longrightarrow> syscall_handler i a b c = Invalid_index i"
  "syscall_handler 0 a b c = Call DISPLAY_PUTCHAR []"
  "syscall_handler 1 a b c = Call KERNEL_PRINT_NUMBER [a]"
  "syscall_handler 2 a b c = Call PIT_DELAY [a]"
  "syscall_handler 3 a b c = Call KB_WAIT_ENTER []"
  "syscall_handler 4 a b c = Call K_MALLOC [a]"
  "syscall_handler 5 a b c = Call K_FREE []"
  "syscall_handler 6 a b c = Call K_REALLOC [a, b]"
  "syscall_handler 7 a b c = Call GETCHAR []"
  "syscall_handler 8 a b c = Call REGISTER_INTERRUPT_HANDLER [a, b]"
  by (auto simp: syscall_handler_def syscall_table_def)

lemma aligned_alloc_block:
  assumes "heap_inv h cs" and "k < 32" and "unat sz + 2 ^ k + 3 < 4294967296"
    and "alloc_chunk (sz + 2 ^ k - 1 + 4) cs = Some (a, cs')"
  shows "\<exists>h' p. aligned_alloc (2 ^ k) sz h = Some (h', p) \<and> heap_inv h' cs'
    \<and> unat p mod 2 ^ k = 0
    \<and> unat (a + 12) + 4 \<le> unat p \<and> unat p + unat sz \<le> unat (a + 12) + unat (sz + 2 ^ k - 1 + 4)
    \<and> load32 (kmem h') (p - 4) = a + 12 \<and> (\<forall>x. \<not> in_region (p - 4) 4 x \<longrightarrow> kmem h' x = kmem h x)"
proof -
  note ref = k_malloc_refines [OF assms(1,4)]
  let ?t = "sz + 2 ^ k - 1 + 4 :: u32" and ?h = "h\<lparr>blocks := take_block a (sz + 2 ^ k - 1 + 4) (blocks h)\<rparr>"
  have pow: "unat (2 ^ k :: u32) = 2 ^ k" "(0::nat) < 2 ^ k"
    using assms(2) by (simp_all add: unat_pow2)
  have t: "unat ?t = unat sz + 2 ^ k + 3"
  proof -
    have "unat (sz + of_nat (2 ^ k + 3)) = unat sz + (2 ^ k + 3)"
      using assms(3) by (intro unat_add_no_wrap) simp
    moreover have "?t = sz + of_nat (2 ^ k + 3)" by simp
    ultimately show ?thesis by (simp only: add.assoc)
  qed
  obtain n where n: "(a, n, False) \<in> set cs'" "?t \<le> n"
    using assms(4) by (rule alloc_chunk_split) (auto simp: carve_def split: if_splits)
  have "tiles (unat (free_list h)) cs' (unat HEAP_END)" using ref(2) by (simp add: heap_inv_def)
  from tiles_bounds [OF this n(1)] have bnd: "unat a + 12 + unat ?t \<le> 251658240"
    using n(2) by (simp add: word_le_nat_alt)
  have raw: "unat (a + 12) = unat a + 12" using unat_add_no_wrap [of a 12] bnd by simp
  let ?x = "a + 12 + 4 + 2 ^ k - 1 :: u32"
  have x: "unat ?x = unat a + 12 + 3 + 2 ^ k"
  proof -
    have "unat (a + of_nat (2 ^ k + 15)) = unat a + (2 ^ k + 15)"
      using bnd t by (intro unat_add_no_wrap) simp
    moreover have "?x = a + of_nat (2 ^ k + 15)" by simp
    ultimately have "unat ?x = unat a + (2 ^ k + 15)" by (simp only:)
    then show ?thesis by simp
  qed
  let ?p = "?x AND NOT (2 ^ k - 1)"
  have p: "unat ?p = unat ?x - unat ?x mod 2 ^ k" by (rule unat_and_not_mask [OF assms(2)])
  have m: "unat ?x mod 2 ^ k < 2 ^ k" using pow(2) by simp
  have "unat ?p mod 2 ^ k = 0" unfolding p by (simp add: minus_mod_eq_div_mult)
  moreover have "unat (a + 12) + 4 \<le> unat ?p" using p m x raw by linarith
  moreover have "unat ?p + unat sz \<le> unat (a + 12) + unat ?t" using p x raw t by linarith
  moreover have "aligned_alloc (2 ^ k) sz h = Some (?h\<lparr>kmem := store32 (?p - 4) (a + 12) (kmem h)\<rparr>, ?p)"
  proof -
    have "(2 ^ k :: u32) \<noteq> 0" using pow by (metis neq0_conv unat_eq_0)
    moreover have "a + 12 \<noteq> 0" using raw by (auto simp: unat_eq_0)
    ultimately show ?thesis
      using ref(1) pow2_and_pred [OF assms(2)] by (simp add: aligned_alloc_def malloc_k_malloc Let_def)
  qed
  moreover have "heap_inv (?h\<lparr>kmem := store32 (?p - 4) (a + 12) (kmem h)\<rparr>) cs'"
    using ref(2) by (simp add: heap_inv_def)
  moreover have "\<forall>x. \<not> in_region (?p - 4) 4 x \<longrightarrow> store32 (?p - 4) (a + 12) (kmem h) x = kmem h x" by (simp add: store32_outside)
  ultimately show ?thesis by (intro exI conjI) (assumption | simp)+
qed

text \<open>
  C23. \<^verbatim>\<open>aligned_alloc\<close> with a power of two, through \<^verbatim>\<open>malloc\<close> and the system call: when a free block has
  room for it, the call returns an aligned address whose \<open>size\<close> bytes, and the word in front of it, lie inside
  the block that first fit allocates. That word holds the address of the block, for \<^verbatim>\<open>aligned_free\<close>;
  no other byte of memory changes and the heap is the one after the allocation.
\<close>

theorem aligned_alloc_correct:
  assumes "heap_inv h cs" and "k < 32" and "unat sz + 2 ^ k + 3 < 4294967296"
    and "alloc_chunk (sz + 2 ^ k - 1 + 4) cs = Some (a, cs')"
  shows "\<exists>h' p. aligned_alloc (2 ^ k) sz h = Some (h', p) \<and> heap_inv h' cs'
    \<and> unat p mod 2 ^ k = 0
    \<and> unat (a + 12) + 4 \<le> unat p \<and> unat p + unat sz \<le> unat (a + 12) + unat (sz + 2 ^ k - 1 + 4)
    \<and> load32 (kmem h') (p - 4) = a + 12 \<and> (\<forall>x. \<not> in_region (p - 4) 4 x \<longrightarrow> kmem h' x = kmem h x)"
  using assms by (rule aligned_alloc_block)

theorem aligned_alloc_correct_witness:
  "\<exists>h' p. aligned_alloc (2 ^ 4) 100 init_heap = Some (h', p) \<and> unat p mod 16 = 0"
  using aligned_alloc_correct [OF init_heap_inv, of 4 100 "0x200200"] by auto

end
