(* ===== verification/Keyboard.thy ===== *)
theory Keyboard
  imports Prelude "HOL-Library.Monad_Syntax"
begin

text \<open>
  The keyboard driver (\<^verbatim>\<open>drivers/char/kb.c\<close>): the input queue, a ring buffer of 256
  characters guarded by a lock, the scan code state machine of the interrupt
  handler, and the readers. The locale \<open>bounded_queue\<close> is what the readers and the
  handler may expect of the queue. A call that would wait for ever on a lock that
  is already held is \<open>None\<close>; blocking reads see a list of the inputs that arrive.
\<close>

subsection \<open>The interface of a bounded queue\<close>

locale bounded_queue =
  fixes contents :: "'q \<Rightarrow> 'a list"
    and inv :: "'q \<Rightarrow> bool"
    and cap :: nat
    and push :: "'a \<Rightarrow> 'q \<Rightarrow> 'q \<times> bool"
    and pop :: "'q \<Rightarrow> 'q \<times> 'a option"
  assumes bounded: "inv q \<Longrightarrow> length (contents q) \<le> cap"
    and push_room: "inv q \<Longrightarrow> length (contents q) < cap \<Longrightarrow>
      inv (fst (push x q)) \<and> contents (fst (push x q)) = contents q @ [x] \<and> snd (push x q)"
    and push_full: "inv q \<Longrightarrow> length (contents q) = cap \<Longrightarrow> push x q = (q, False)"
    and pop_empty: "inv q \<Longrightarrow> contents q = [] \<Longrightarrow> pop q = (q, None)"
    and pop_some: "inv q \<Longrightarrow> contents q = x # xs \<Longrightarrow>
      inv (fst (pop q)) \<and> contents (fst (pop q)) = xs \<and> snd (pop q) = Some x"
begin

fun push_list :: "'a list \<Rightarrow> 'q \<Rightarrow> 'q" where
  "push_list [] q = q"
| "push_list (x # xs) q = push_list xs (fst (push x q))"

fun pop_list :: "nat \<Rightarrow> 'q \<Rightarrow> 'q \<times> 'a list" where
  "pop_list 0 q = (q, [])"
| "pop_list (Suc n) q =
     (case pop q of (q', None) \<Rightarrow> (q', []) | (q', Some x) \<Rightarrow> apsnd ((#) x) (pop_list n q'))"

text \<open>Input that finds the queue full is lost, and nothing else is.\<close>

lemma push_list_contents:
  "inv q \<Longrightarrow> inv (push_list xs q)
     \<and> contents (push_list xs q) = contents q @ take (cap - length (contents q)) xs"
proof (induction xs arbitrary: q)
  case (Cons x xs)
  show ?case
  proof (cases "length (contents q) < cap")
    case True
    note p = push_room [OF Cons.prems True, of x]
    have "cap - length (contents q) = Suc (cap - Suc (length (contents q)))" using True by simp
    with Cons.IH [of "fst (push x q)"] p show ?thesis by simp
  next
    case False
    then have "length (contents q) = cap" using bounded [OF Cons.prems] by simp
    with Cons.IH [OF Cons.prems] push_full [OF Cons.prems, of x] Cons.prems show ?thesis by simp
  qed
qed simp

text \<open>What is read is the oldest input, in order.\<close>

lemma pop_list_contents:
  "inv q \<Longrightarrow> inv (fst (pop_list n q)) \<and> snd (pop_list n q) = take n (contents q)
     \<and> contents (fst (pop_list n q)) = drop n (contents q)"
proof (induction n arbitrary: q)
  case (Suc n)
  show ?case
  proof (cases "contents q")
    case Nil
    then show ?thesis using pop_empty [OF Suc.prems Nil] Suc.prems by simp
  next
    case (Cons x xs)
    note p = pop_some [OF Suc.prems Cons]
    then obtain q' where "pop q = (q', Some x)" "inv q'" "contents q' = xs"
      by (metis prod.collapse)
    with Suc.IH [of q'] Cons show ?thesis by simp
  qed
qed simp

end

subsection \<open>State\<close>

record kbd =
  shift_left :: bool
  shift_right :: bool
  ctrl_left :: bool
  ctrl_right :: bool
  alt_left :: bool
  alt_right :: bool
  caps_lock :: bool
  num_lock :: bool
  scroll_lock :: bool
  extended :: bool
  input_queue :: "u8 list"
  input_queue_head :: nat
  input_queue_tail :: nat
  queue_locked :: bool
  irq_flag :: bool
  buffer_index :: int
  enter_pressed :: bool
  eoi_sent :: nat

abbreviation INPUT_QUEUE_SIZE :: nat where "INPUT_QUEUE_SIZE \<equiv> 256"
abbreviation BUFFER_SIZE :: int where "BUFFER_SIZE \<equiv> 128"

definition scancode_to_char :: "u8 list" where
  "scancode_to_char =
    [0, 0, 49, 50, 51, 52, 53, 54, 55, 56,
     57, 48, 45, 61, 8, 9, 113, 119, 101, 114,
     116, 121, 117, 105, 111, 112, 91, 93, 10, 0,
     97, 115, 100, 102, 103, 104, 106, 107, 108, 59,
     39, 96, 0, 92, 122, 120, 99, 118, 98, 110,
     109, 44, 46, 47, 0, 42, 0, 32, 0, 0,
     0, 0, 0, 0, 0, 0, 0, 0, 0, 0,
     0, 0, 55, 56, 57, 45, 52, 53, 54, 43,
     49, 50, 51, 48, 46, 0, 0, 0, 0]"

definition scancode_to_char_shift :: "u8 list" where
  "scancode_to_char_shift =
    [0, 0, 33, 64, 35, 36, 37, 94, 38, 42,
     40, 41, 95, 43, 8, 9, 81, 87, 69, 82,
     84, 89, 85, 73, 79, 80, 123, 125, 10, 0,
     65, 83, 68, 70, 71, 72, 74, 75, 76, 58,
     34, 126, 0, 124, 90, 88, 67, 86, 66, 78,
     77, 60, 62, 63, 0, 42, 0, 32, 0, 0,
     0, 0, 0, 0, 0, 0, 0, 0, 0, 0,
     0, 0, 55, 56, 57, 45, 52, 53, 54, 43,
     49, 50, 51, 48, 46, 0, 0, 0, 0]"

subsection \<open>The input queue\<close>

definition acquire_queue :: "kbd \<Rightarrow> (bool \<times> kbd) option" where
  "acquire_queue k = (if queue_locked k then None
     else Some (irq_flag k, k\<lparr>queue_locked := True, irq_flag := False\<rparr>))"

definition release_queue :: "bool \<Rightarrow> kbd \<Rightarrow> kbd" where
  "release_queue flags k = k\<lparr>queue_locked := False, irq_flag := flags\<rparr>"

definition input_queue_push :: "u8 \<Rightarrow> kbd \<Rightarrow> (kbd \<times> bool) option" where
  "input_queue_push ch k = do {
     (flags, k) \<leftarrow> acquire_queue k;
     let next_tail = (input_queue_tail k + 1) mod INPUT_QUEUE_SIZE;
     if next_tail = input_queue_head k then Some (release_queue flags k, False)
     else Some (release_queue flags (k\<lparr>input_queue := (input_queue k)[input_queue_tail k := ch],
                                       input_queue_tail := next_tail\<rparr>), True) }"

definition input_queue_pop :: "kbd \<Rightarrow> (kbd \<times> u8) option" where
  "input_queue_pop k = do {
     (flags, k) \<leftarrow> acquire_queue k;
     if input_queue_head k = input_queue_tail k then Some (release_queue flags k, 0)
     else Some (release_queue flags (k\<lparr>input_queue_head := (input_queue_head k + 1) mod INPUT_QUEUE_SIZE\<rparr>),
                input_queue k ! input_queue_head k) }"

definition input_queue_get_last :: "kbd \<Rightarrow> u8" where
  "input_queue_get_last k =
     (if input_queue_head k = input_queue_tail k then 0
      else input_queue k ! ((input_queue_tail k + INPUT_QUEUE_SIZE - 1) mod INPUT_QUEUE_SIZE))"

definition input_queue_remove_last :: "kbd \<Rightarrow> kbd \<times> u8" where
  "input_queue_remove_last k =
     (if input_queue_head k = input_queue_tail k then (k, 0)
      else let prev_tail = (input_queue_tail k + INPUT_QUEUE_SIZE - 1) mod INPUT_QUEUE_SIZE
           in (k\<lparr>input_queue_tail := prev_tail\<rparr>, input_queue k ! prev_tail))"

definition input_queue_empty :: "kbd \<Rightarrow> bool" where
  "input_queue_empty k \<longleftrightarrow> input_queue_head k = input_queue_tail k"

subsection \<open>Scan codes\<close>

definition kb_is_ctrl_pressed :: "kbd \<Rightarrow> bool" where
  "kb_is_ctrl_pressed k \<longleftrightarrow> ctrl_left k \<or> ctrl_right k"

definition kb_is_alt_pressed :: "kbd \<Rightarrow> bool" where
  "kb_is_alt_pressed k \<longleftrightarrow> alt_left k \<or> alt_right k"

definition kb_is_shift_pressed :: "kbd \<Rightarrow> bool" where
  "kb_is_shift_pressed k \<longleftrightarrow> shift_left k \<or> shift_right k"

definition scancode_to_ascii :: "u8 \<Rightarrow> bool \<Rightarrow> bool \<Rightarrow> u8" where
  "scancode_to_ascii scancode shift caps =
     (if scancode \<ge> 89 then 0
      else let key = (if shift then scancode_to_char_shift ! unat scancode
                      else scancode_to_char ! unat scancode)
           in if caps \<and> char_int key \<ge> 97 \<and> char_int key \<le> 122 then key - 32
              else if caps \<and> char_int key \<ge> 65 \<and> char_int key \<le> 90 \<and> \<not> shift then key + 32
              else key)"

definition handle_extended_key :: "u8 \<Rightarrow> bool \<Rightarrow> kbd \<Rightarrow> kbd \<times> u8" where
  "handle_extended_key scancode released k =
     (if scancode = 0x1D then (k\<lparr>ctrl_right := \<not> released\<rparr>, 0)
      else if scancode = 0x38 then (k\<lparr>alt_right := \<not> released\<rparr>, 0)
      else if released then (k, 0)
      else if scancode \<in> {0x48, 0x50, 0x4B, 0x4D, 0x47, 0x4F, 0x49, 0x51, 0x52, 0x53} then (k, scancode)
      else (k, 0))"

definition process_ctrl_combination :: "u8 \<Rightarrow> u8" where
  "process_ctrl_combination ch =
     (if char_int ch \<ge> 97 \<and> char_int ch \<le> 122 then ch - 97 + 1
      else if char_int ch \<ge> 65 \<and> char_int ch \<le> 90 then ch - 65 + 1
      else ch)"

definition send_eoi :: "kbd \<Rightarrow> kbd" where
  "send_eoi k = k\<lparr>eoi_sent := eoi_sent k + 1\<rparr>"

text \<open>The key press branch of the handler; a push that finds the queue full is ignored.\<close>

definition push_key :: "u8 \<Rightarrow> kbd \<Rightarrow> kbd option" where
  "push_key ch k = map_option fst (input_queue_push ch k)"

definition key_press :: "u8 \<Rightarrow> kbd \<Rightarrow> kbd option" where
  "key_press base_scancode k =
     (if base_scancode = 0x2A then Some (k\<lparr>shift_left := True\<rparr>)
      else if base_scancode = 0x36 then Some (k\<lparr>shift_right := True\<rparr>)
      else if base_scancode = 0x1D then Some (k\<lparr>ctrl_left := True\<rparr>)
      else if base_scancode = 0x38 then Some (k\<lparr>alt_left := True\<rparr>)
      else if base_scancode = 0x3A then Some (k\<lparr>caps_lock := \<not> caps_lock k\<rparr>)
      else if base_scancode = 0x45 then Some (k\<lparr>num_lock := \<not> num_lock k\<rparr>)
      else if base_scancode = 0x46 then Some (k\<lparr>scroll_lock := \<not> scroll_lock k\<rparr>)
      else if base_scancode = 0x0E then
        (if buffer_index k > 0 then push_key 8 (k\<lparr>buffer_index := buffer_index k - 1\<rparr>) else Some k)
      else if base_scancode = 0x1C then
        map_option (\<lambda>k. k\<lparr>buffer_index := 0, enter_pressed := True\<rparr>) (push_key 10 k)
      else if buffer_index k < BUFFER_SIZE - 1 then
        (let key = scancode_to_ascii base_scancode (kb_is_shift_pressed k) (caps_lock k)
         in if key \<noteq> 0
            then push_key (if kb_is_ctrl_pressed k then process_ctrl_combination key else key)
                          (k\<lparr>buffer_index := buffer_index k + 1\<rparr>)
            else Some k)
      else Some k)"

definition key_release :: "u8 \<Rightarrow> kbd \<Rightarrow> kbd" where
  "key_release base_scancode k =
     (if base_scancode = 0x2A then k\<lparr>shift_left := False\<rparr>
      else if base_scancode = 0x36 then k\<lparr>shift_right := False\<rparr>
      else if base_scancode = 0x1D then k\<lparr>ctrl_left := False\<rparr>
      else if base_scancode = 0x38 then k\<lparr>alt_left := False\<rparr>
      else k)"

text \<open>The interrupt handler, given the byte it reads from the data port.\<close>

definition kb_handler :: "u8 \<Rightarrow> kbd \<Rightarrow> kbd option" where
  "kb_handler scancode k =
     (if scancode = 0xE0 then Some (send_eoi (k\<lparr>extended := True\<rparr>))
      else if scancode = 0xE1 then Some (send_eoi (k\<lparr>extended := False\<rparr>))
      else
        let released = (scancode AND 0x80 \<noteq> 0);
            base_scancode = scancode AND NOT 0x80
        in if extended k
           then do {
             let (k, special_key) = handle_extended_key base_scancode released (k\<lparr>extended := False\<rparr>);
             k \<leftarrow> (if special_key \<noteq> 0 \<and> \<not> released
                  then do { k \<leftarrow> push_key 27 k; k \<leftarrow> push_key 91 k; push_key special_key k }
                  else Some k);
             Some (send_eoi k) }
           else if \<not> released then map_option send_eoi (key_press base_scancode k)
           else Some (send_eoi (key_release base_scancode k)))"

fun kb_run :: "u8 list \<Rightarrow> kbd \<Rightarrow> kbd option" where
  "kb_run [] k = Some k"
| "kb_run (c # cs) k = do { k \<leftarrow> kb_handler c k; kb_run cs k }"

subsection \<open>Readers\<close>

text \<open>\<open>serial_ch\<close> is what \<^verbatim>\<open>serial_read_char\<close> returns, 0 when nothing has arrived.\<close>

definition getchar_nonblocking :: "u8 \<Rightarrow> kbd \<Rightarrow> (kbd \<times> u8) option" where
  "getchar_nonblocking serial_ch k =
     (if serial_ch \<noteq> 0 then Some (k, if serial_ch = 13 then 10 else serial_ch)
      else if \<not> input_queue_empty k then input_queue_pop k
      else Some (k, 0))"

text \<open>
  The blocking readers poll: each iteration is a pair of the scan codes whose
  interrupts are served before it and the character the serial port then returns.
  \<open>None\<close> is a call that still waits (in \<^verbatim>\<open>hlt\<close>) when the list ends.
\<close>

type_synonym poll = "u8 list \<times> u8"

fun getchar :: "poll list \<Rightarrow> kbd \<Rightarrow> (kbd \<times> u8) option" where
  "getchar [] k = None"
| "getchar ((irqs, serial_ch) # polls) k = do {
     k \<leftarrow> kb_run irqs k;
     if serial_ch \<noteq> 0 then Some (k, if serial_ch = 13 then 10 else serial_ch)
     else if \<not> input_queue_empty k then input_queue_pop k
     else getchar polls k }"

text \<open>
  \<^verbatim>\<open>get_input_line\<close>: \<open>buffer\<close> is the line so far, so that its length is \<^verbatim>\<open>index\<close>, and
  \<open>echo\<close> what was written to the screen; the string returned is the buffer up to
  the terminator.
\<close>

fun get_input_line ::
  "int \<Rightarrow> poll list \<Rightarrow> kbd \<Rightarrow> u8 list \<Rightarrow> u8 list \<Rightarrow> (kbd \<times> cstring \<times> u8 list) option" where
  "get_input_line max_len [] k buffer echo = None"
| "get_input_line max_len ((irqs, ch) # polls) k buffer echo = do {
     k \<leftarrow> kb_run irqs k;
     if ch \<noteq> 0
     then (if ch = 13 \<or> ch = 10 then Some (k, buffer, echo @ [10])
           else if ch = 0x7F \<or> ch = 8
           then (if buffer \<noteq> [] then get_input_line max_len polls k (butlast buffer) (echo @ [8])
                 else get_input_line max_len polls k buffer echo)
           else if int (length buffer) < max_len - 1 \<and> char_int ch \<ge> 32 \<and> char_int ch < 127
           then get_input_line max_len polls k (buffer @ [ch]) (echo @ [ch])
           else get_input_line max_len polls k buffer echo)
     else if \<not> input_queue_empty k
     then do {
       (k, ch) \<leftarrow> input_queue_pop k;
       if ch = 10 then Some (k, buffer, echo)
       else if int (length buffer) < max_len - 1 then get_input_line max_len polls k (buffer @ [ch]) echo
       else get_input_line max_len polls k buffer echo }
     else get_input_line max_len polls k buffer echo }"

subsection \<open>The ring buffer is a bounded queue\<close>

definition queue_length :: "kbd \<Rightarrow> nat" where
  "queue_length k = (input_queue_tail k + 256 - input_queue_head k) mod 256"

definition queue_contents :: "kbd \<Rightarrow> u8 list" where
  "queue_contents k =
     map (\<lambda>i. input_queue k ! ((input_queue_head k + i) mod 256)) [0..<queue_length k]"

definition queue_inv :: "kbd \<Rightarrow> bool" where
  "queue_inv k \<longleftrightarrow> length (input_queue k) = 256 \<and> input_queue_head k < 256
     \<and> input_queue_tail k < 256 \<and> \<not> queue_locked k"

lemma ring_length_if:
  "h < 256 \<Longrightarrow> t < 256 \<Longrightarrow> (t + 256 - h) mod 256 = (if h \<le> t then t - h else t + 256 - h :: nat)"
  by (simp add: mod_if)

lemma mod_once: "m < 512 \<Longrightarrow> m mod 256 = (if m < 256 then m else m - 256 :: nat)"
  by (simp add: mod_if)

lemma ring_end:
  "h < 256 \<Longrightarrow> t < 256 \<Longrightarrow> (h + (t + 256 - h) mod 256) mod 256 = (t :: nat)"
  by (simp add: ring_length_if)

lemma ring_distinct:
  "h < 256 \<Longrightarrow> i < n \<Longrightarrow> n < 256 \<Longrightarrow> (h + i) mod 256 \<noteq> (h + n) mod (256 :: nat)"
  by (simp add: mod_once; linarith)

lemma ring_push_length:
  "h < 256 \<Longrightarrow> t < 256 \<Longrightarrow> (t + 1) mod 256 \<noteq> h \<Longrightarrow>
   ((t + 1) mod 256 + 256 - h) mod 256 = Suc ((t + 256 - h) mod (256 :: nat))"
  by (simp add: ring_length_if) (simp add: mod_once split: if_splits; linarith)

lemma ring_full: "h < 256 \<Longrightarrow> t < 256 \<Longrightarrow>
   (t + 1) mod 256 = h \<longleftrightarrow> (t + 256 - h) mod (256 :: nat) = 255"
  by (simp add: ring_length_if) (simp add: mod_once; linarith)

lemma ring_pop_length:
  "h < 256 \<Longrightarrow> t < 256 \<Longrightarrow> h \<noteq> t \<Longrightarrow>
   Suc ((t + 256 - (h + 1) mod 256) mod 256) = (t + 256 - h) mod (256 :: nat)"
  by (simp add: ring_length_if) (simp add: mod_once split: if_splits; linarith)

lemma ring_empty: "h < 256 \<Longrightarrow> t < 256 \<Longrightarrow> (t + 256 - h) mod (256 :: nat) = 0 \<longleftrightarrow> h = t"
  by (auto simp: ring_length_if)

lemma length_queue_contents [simp]: "length (queue_contents k) = queue_length k"
  by (simp add: queue_contents_def)

lemma queue_length_le: "queue_length k \<le> 255"
  by (simp add: queue_length_def less_Suc_eq_le [symmetric])

lemma input_queue_empty_iff:
  "queue_inv k \<Longrightarrow> input_queue_empty k \<longleftrightarrow> queue_contents k = []"
  by (auto simp: input_queue_empty_def queue_contents_def queue_inv_def queue_length_def ring_empty)

lemma input_queue_push_room:
  assumes "queue_inv k" "queue_length k < 255"
  shows "\<exists>k'. input_queue_push c k = Some (k', True) \<and> queue_inv k'
     \<and> queue_contents k' = queue_contents k @ [c]
     \<and> k' = k\<lparr>input_queue := input_queue k', input_queue_tail := input_queue_tail k'\<rparr>"
proof -
  let ?h = "input_queue_head k" and ?t = "input_queue_tail k" and ?n = "queue_length k"
  define k' where "k' = k\<lparr>input_queue := (input_queue k)[?t := c], input_queue_tail := (?t + 1) mod 256\<rparr>"
  have b: "?h < 256" "?t < 256" "length (input_queue k) = 256" "\<not> queue_locked k"
    using assms by (auto simp: queue_inv_def)
  have ne: "(?t + 1) mod 256 \<noteq> ?h" using ring_full [OF b(1,2)] assms by (simp add: queue_length_def)
  have n': "queue_length k' = Suc ?n"
    using ring_push_length [OF b(1,2) ne] by (simp add: queue_length_def k'_def)
  have old: "(input_queue k)[?t := c] ! ((?h + i) mod 256) = input_queue k ! ((?h + i) mod 256)"
    if "i < ?n" for i
    using ring_distinct [OF b(1) that] assms(2) ring_end [OF b(1,2)] by (simp add: queue_length_def)
  have "queue_contents k' = queue_contents k @ [c]"
    using old ring_end [OF b(1,2)] b n'
    by (simp add: queue_contents_def) (simp add: k'_def queue_length_def)
  moreover have "queue_inv k'" using b by (simp add: queue_inv_def k'_def)
  moreover have "input_queue_push c k = Some (k', True)"
    using b ne by (simp add: input_queue_push_def acquire_queue_def release_queue_def k'_def Let_def)
  ultimately show ?thesis by (intro exI [of _ k'] conjI) (simp_all add: k'_def)
qed

lemma input_queue_push_full:
  assumes "queue_inv k" "queue_length k = 255"
  shows "input_queue_push c k = Some (k, False)"
  using assms ring_full [of "input_queue_head k" "input_queue_tail k"]
  by (simp add: queue_inv_def queue_length_def input_queue_push_def acquire_queue_def release_queue_def)

lemma input_queue_pop_empty:
  "queue_inv k \<Longrightarrow> queue_contents k = [] \<Longrightarrow> input_queue_pop k = Some (k, 0)"
  using input_queue_empty_iff [of k]
  by (simp add: queue_inv_def input_queue_empty_def input_queue_pop_def acquire_queue_def release_queue_def)

lemma input_queue_pop_some:
  assumes "queue_inv k" "queue_contents k = x # xs"
  shows "\<exists>k'. input_queue_pop k = Some (k', x) \<and> queue_inv k' \<and> queue_contents k' = xs
     \<and> k' = k\<lparr>input_queue_head := input_queue_head k'\<rparr>"
proof -
  let ?h = "input_queue_head k" and ?t = "input_queue_tail k"
  define k' where "k' = k\<lparr>input_queue_head := (?h + 1) mod 256\<rparr>"
  have b: "?h < 256" "?t < 256" "length (input_queue k) = 256" "\<not> queue_locked k"
    using assms by (auto simp: queue_inv_def)
  have ne: "?h \<noteq> ?t" using assms input_queue_empty_iff [of k] by (simp add: input_queue_empty_def)
  have n': "queue_length k = Suc (queue_length k')"
    using ring_pop_length [OF b(1,2) ne] by (simp add: queue_length_def k'_def)
  have "queue_contents k = input_queue k ! ?h # queue_contents k'"
    using b unfolding queue_contents_def n'
    by (simp add: upt_conv_Cons map_Suc_upt [symmetric] k'_def mod_simps del: upt_Suc)
  moreover have "input_queue_pop k = Some (k', input_queue k ! ?h)"
    using b ne by (simp add: input_queue_pop_def acquire_queue_def release_queue_def k'_def)
  ultimately show ?thesis using assms b by (intro exI [of _ k']) (simp add: k'_def queue_inv_def)
qed

text \<open>The two calls as the handler and the readers see them on an unlocked queue.\<close>

definition kq_push :: "u8 \<Rightarrow> kbd \<Rightarrow> kbd \<times> bool" where
  "kq_push c k = (case input_queue_push c k of None \<Rightarrow> (k, False) | Some r \<Rightarrow> r)"

definition kq_pop :: "kbd \<Rightarrow> kbd \<times> u8 option" where
  "kq_pop k = (if input_queue_empty k then (k, None)
     else case input_queue_pop k of None \<Rightarrow> (k, None) | Some (k', c) \<Rightarrow> (k', Some c))"

interpretation kq: bounded_queue queue_contents queue_inv 255 kq_push kq_pop
proof (unfold_locales, goal_cases)
  case (1 q) then show ?case by (simp add: queue_length_le)
next
  case (2 q x) then show ?case using input_queue_push_room [of q x] by (auto simp: kq_push_def)
next
  case (3 q x) then show ?case using input_queue_push_full [of q x] by (simp add: kq_push_def)
next
  case (4 q) then show ?case by (simp add: kq_pop_def input_queue_empty_iff)
next
  case (5 q x xs)
  then show ?case using input_queue_pop_some [of q x xs] input_queue_empty_iff [of q]
    by (auto simp: kq_pop_def)
qed

subsection \<open>The interrupt handler\<close>

definition kbd_inv :: "kbd \<Rightarrow> bool" where
  "kbd_inv k \<longleftrightarrow> queue_inv k \<and> 0 \<le> buffer_index k \<and> buffer_index k < BUFFER_SIZE"

text \<open>The queue does not depend on the rest of the state.\<close>

lemma queue_frame [simp]:
  "queue_contents (k\<lparr>extended := b\<rparr>) = queue_contents k" "queue_inv (k\<lparr>extended := b\<rparr>) = queue_inv k"
  "queue_contents (k\<lparr>shift_left := b\<rparr>) = queue_contents k" "queue_inv (k\<lparr>shift_left := b\<rparr>) = queue_inv k"
  "queue_contents (k\<lparr>shift_right := b\<rparr>) = queue_contents k" "queue_inv (k\<lparr>shift_right := b\<rparr>) = queue_inv k"
  "queue_contents (k\<lparr>ctrl_left := b\<rparr>) = queue_contents k" "queue_inv (k\<lparr>ctrl_left := b\<rparr>) = queue_inv k"
  "queue_contents (k\<lparr>ctrl_right := b\<rparr>) = queue_contents k" "queue_inv (k\<lparr>ctrl_right := b\<rparr>) = queue_inv k"
  "queue_contents (k\<lparr>alt_left := b\<rparr>) = queue_contents k" "queue_inv (k\<lparr>alt_left := b\<rparr>) = queue_inv k"
  "queue_contents (k\<lparr>alt_right := b\<rparr>) = queue_contents k" "queue_inv (k\<lparr>alt_right := b\<rparr>) = queue_inv k"
  "queue_contents (k\<lparr>caps_lock := b\<rparr>) = queue_contents k" "queue_inv (k\<lparr>caps_lock := b\<rparr>) = queue_inv k"
  "queue_contents (k\<lparr>num_lock := b\<rparr>) = queue_contents k" "queue_inv (k\<lparr>num_lock := b\<rparr>) = queue_inv k"
  "queue_contents (k\<lparr>scroll_lock := b\<rparr>) = queue_contents k" "queue_inv (k\<lparr>scroll_lock := b\<rparr>) = queue_inv k"
  "queue_contents (k\<lparr>enter_pressed := b\<rparr>) = queue_contents k" "queue_inv (k\<lparr>enter_pressed := b\<rparr>) = queue_inv k"
  "queue_contents (k\<lparr>buffer_index := i\<rparr>) = queue_contents k" "queue_inv (k\<lparr>buffer_index := i\<rparr>) = queue_inv k"
  "queue_contents (k\<lparr>eoi_sent := n\<rparr>) = queue_contents k" "queue_inv (k\<lparr>eoi_sent := n\<rparr>) = queue_inv k"
  by (simp_all add: queue_contents_def queue_length_def queue_inv_def)

text \<open>A push keeps everything but the queue, and only ever extends the queue's contents.\<close>

lemma push_key_total:
  assumes "queue_inv k"
  shows "\<exists>q t. push_key c k = Some (k\<lparr>input_queue := q, input_queue_tail := t\<rparr>)
     \<and> queue_inv (k\<lparr>input_queue := q, input_queue_tail := t\<rparr>)
     \<and> queue_contents (k\<lparr>input_queue := q, input_queue_tail := t\<rparr>)
         = queue_contents k @ (if length (queue_contents k) < 255 then [c] else [])"
proof (cases "queue_length k < 255")
  case True
  then obtain k' where k': "input_queue_push c k = Some (k', True)" "queue_inv k'"
      "queue_contents k' = queue_contents k @ [c]"
      "k\<lparr>input_queue := input_queue k', input_queue_tail := input_queue_tail k'\<rparr> = k'"
    using input_queue_push_room [OF assms True, of c] by metis
  show ?thesis
    by (rule exI [of _ "input_queue k'"], rule exI [of _ "input_queue_tail k'"])
       (use True in \<open>simp add: k' push_key_def\<close>)
next
  case False
  then have "queue_length k = 255" using queue_length_le [of k] by simp
  then show ?thesis using input_queue_push_full [OF assms, of c] assms
    by (intro exI [of _ "input_queue k"] exI [of _ "input_queue_tail k"]) (simp add: push_key_def)
qed

text \<open>What one interrupt may do to the state.\<close>

definition kb_step_ok :: "kbd \<Rightarrow> kbd \<Rightarrow> bool" where
  "kb_step_ok k k' \<longleftrightarrow> kbd_inv k' \<and> irq_flag k' = irq_flag k \<and> eoi_sent k' = eoi_sent k
     \<and> input_queue_head k' = input_queue_head k
     \<and> (\<exists>new. queue_contents k' = queue_contents k @ new)"

lemma kb_step_ok_trans: "kb_step_ok k k' \<Longrightarrow> kb_step_ok k' k'' \<Longrightarrow> kb_step_ok k k''"
  by (auto simp: kb_step_ok_def)

lemma push_key_ok:
  assumes "kbd_inv k"
  shows "\<exists>k'. push_key c k = Some k' \<and> kb_step_ok k k'"
proof -
  have "queue_inv k" using assms by (simp add: kbd_inv_def)
  from push_key_total [OF this, of c] show ?thesis
    using assms by (elim exE conjE) (simp add: kb_step_ok_def kbd_inv_def)
qed

lemma key_press_ok:
  assumes "kbd_inv k"
  shows "\<exists>k'. key_press c k = Some k' \<and> kb_step_ok k k'"
proof -
  have push: "\<exists>k'. push_key ch (k\<lparr>buffer_index := i\<rparr>) = Some k' \<and> kb_step_ok k k'"
    if "0 \<le> i" "i < BUFFER_SIZE" for ch i
    using push_key_ok [of "k\<lparr>buffer_index := i\<rparr>" ch] assms that
    by (auto simp: kb_step_ok_def kbd_inv_def)
  have enter: "\<exists>k'. map_option (\<lambda>k. k\<lparr>buffer_index := 0, enter_pressed := True\<rparr>) (push_key 10 k) = Some k'
      \<and> kb_step_ok k k'"
    using push_key_ok [OF assms, of 10] by (auto simp: kb_step_ok_def kbd_inv_def)
  show ?thesis
    using assms push [of "buffer_index k - 1" 8] push [of "buffer_index k + 1"] enter
    by (simp add: key_press_def Let_def kb_step_ok_def kbd_inv_def split: if_split)
qed

lemma key_release_ok: "kbd_inv k \<Longrightarrow> kb_step_ok k (key_release c k)"
  by (simp add: key_release_def kb_step_ok_def kbd_inv_def)

lemma handle_extended_key_ok: "kbd_inv k \<Longrightarrow> kb_step_ok k (fst (handle_extended_key c r k))"
  by (simp add: handle_extended_key_def kb_step_ok_def kbd_inv_def)

lemma push_escape_ok:
  assumes "kbd_inv k"
  shows "\<exists>k'. do { k \<leftarrow> push_key a k; k \<leftarrow> push_key b k; push_key c k } = Some k' \<and> kb_step_ok k k'"
proof -
  obtain k1 where 1: "push_key a k = Some k1" "kb_step_ok k k1" using push_key_ok [OF assms] by blast
  then obtain k2 where 2: "push_key b k1 = Some k2" "kb_step_ok k1 k2"
    using push_key_ok [of k1 b] by (auto simp: kb_step_ok_def)
  then obtain k3 where 3: "push_key c k2 = Some k3" "kb_step_ok k2 k3"
    using push_key_ok [of k2 c] by (auto simp: kb_step_ok_def)
  show ?thesis using kb_step_ok_trans [OF 1(2) kb_step_ok_trans [OF 2(2) 3(2)]]
    by (simp add: 1(1) 2(1) 3(1))
qed

lemma bind_Some_map: "Option.bind x (\<lambda>y. Some (f y)) = map_option f x"
  by (cases x) simp_all

lemma kb_handler_ok:
  assumes "kbd_inv k"
  shows "\<exists>k'. kb_handler c k = Some k' \<and> kbd_inv k' \<and> irq_flag k' = irq_flag k
     \<and> eoi_sent k' = Suc (eoi_sent k) \<and> input_queue_head k' = input_queue_head k
     \<and> (\<exists>new. queue_contents k' = queue_contents k @ new)"
proof -
  have eoi: "\<exists>k'. map_option send_eoi x = Some k' \<and> kbd_inv k' \<and> irq_flag k' = irq_flag k
     \<and> eoi_sent k' = Suc (eoi_sent k) \<and> input_queue_head k' = input_queue_head k
     \<and> (\<exists>new. queue_contents k' = queue_contents k @ new)"
    if "\<exists>k'. x = Some k' \<and> kb_step_ok k k'" for x
    using that by (auto simp: send_eoi_def kb_step_ok_def kbd_inv_def)
  let ?b = "c AND NOT 0x80" and ?r = "c AND 0x80 \<noteq> 0"
  define ke where "ke = fst (handle_extended_key ?b ?r (k\<lparr>extended := False\<rparr>))"
  define sp where "sp = snd (handle_extended_key ?b ?r (k\<lparr>extended := False\<rparr>))"
  have ke: "kb_step_ok k ke"
    using handle_extended_key_ok [of "k\<lparr>extended := False\<rparr>" ?b ?r] assms
    by (simp add: ke_def kb_step_ok_def kbd_inv_def)
  have x: "\<exists>k'. (if sp \<noteq> 0 \<and> \<not> ?r
      then do { k \<leftarrow> push_key 27 ke; k \<leftarrow> push_key 91 k; push_key sp k } else Some ke) = Some k'
      \<and> kb_step_ok k k'"
    using push_escape_ok [of ke 27 91 sp] ke kb_step_ok_trans [OF ke]
    by (auto simp: kb_step_ok_def [of k ke])
  consider "c = 0xE0" | "c = 0xE1" | "c \<noteq> 0xE0" "c \<noteq> 0xE1" "extended k"
    | "c \<noteq> 0xE0" "c \<noteq> 0xE1" "\<not> extended k" ?r | "c \<noteq> 0xE0" "c \<noteq> 0xE1" "\<not> extended k" "\<not> ?r"
    by blast
  then show ?thesis
  proof cases
    case 3
    have he: "handle_extended_key ?b ?r (k\<lparr>extended := False\<rparr>) = (ke, sp)"
      by (simp add: ke_def sp_def)
    have "kb_handler c k = map_option send_eoi (if sp \<noteq> 0 \<and> \<not> ?r
      then do { k \<leftarrow> push_key 27 ke; k \<leftarrow> push_key 91 k; push_key sp k } else Some ke)"
      using 3 unfolding kb_handler_def Let_def he by (simp add: bind_Some_map)
    then show ?thesis using eoi [OF x] by simp
  next
    case 4
    then show ?thesis using eoi [of "Some (key_release ?b k)"] key_release_ok [OF assms]
      by (simp add: kb_handler_def)
  next
    case 5
    then show ?thesis using eoi [OF key_press_ok [OF assms, of ?b]] by (simp add: kb_handler_def)
  qed (use assms in \<open>simp_all add: kb_handler_def send_eoi_def kbd_inv_def\<close>)
qed

lemma kb_run_ok:
  "kbd_inv k \<Longrightarrow> \<exists>k'. kb_run cs k = Some k' \<and> kbd_inv k' \<and> irq_flag k' = irq_flag k
     \<and> eoi_sent k' = eoi_sent k + length cs \<and> input_queue_head k' = input_queue_head k
     \<and> (\<exists>new. queue_contents k' = queue_contents k @ new)"
proof (induction cs arbitrary: k)
  case (Cons c cs)
  obtain k1 where 1: "kb_handler c k = Some k1" "kbd_inv k1" "irq_flag k1 = irq_flag k"
      "eoi_sent k1 = Suc (eoi_sent k)" "input_queue_head k1 = input_queue_head k"
      "\<exists>new. queue_contents k1 = queue_contents k @ new"
    using kb_handler_ok [OF Cons.prems] by blast
  from Cons.IH [OF 1(2)] show ?case
    by (elim exE conjE) (use 1 in \<open>auto\<close>)
qed simp

subsection \<open>Typing a line\<close>

text \<open>
  The keys of a US keyboard: the rows of characters, each with the scan code of its first key, the
  characters without and with Shift, and the scan codes of a row in order.
\<close>

definition us_rows :: "(u8 \<times> u8 list \<times> u8 list) list" where
  "us_rows =
     [(0x02, lit ''1234567890-='', lit ''!@#$%^&*()_+''),
      (0x10, lit ''qwertyuiop[]'', lit ''QWERTYUIOP{}''),
      (0x1E, lit ''asdfghjkl;'' @ [39, 96], lit ''ASDFGHJKL:'' @ [34, 126]),
      (0x2B, 92 # lit ''zxcvbnm,./'', 124 # lit ''ZXCVBNM<>?''),
      (0x39, lit '' '', lit '' '')]"

text \<open>
  The character of a key. A letter typed with both Shift and Caps Lock has none here: the comments of
  the source want it in lower case, and the driver gives the upper case (\<open>caps_shift_stays_upper\<close>).
\<close>

definition us_char :: "bool \<Rightarrow> bool \<Rightarrow> u8 \<Rightarrow> u8 option" where
  "us_char shift caps c =
     (case find (\<lambda>(start, plain, shifted). start \<le> c \<and> unat c < unat start + length plain) us_rows of
        None \<Rightarrow> None
      | Some (start, plain, shifted) \<Rightarrow>
          let p = plain ! unat (c - start); q = shifted ! unat (c - start); letter = (97 \<le> p \<and> p \<le> 122)
          in if letter \<and> shift \<and> caps then None else Some (if shift \<or> letter \<and> caps then q else p))"

text \<open>
  What a scan code means to a typist: the two Shift keys go down and up, Caps Lock changes with every
  press, the release of any other key types nothing, and the press of a character key types its
  character. The other keys have no meaning in a line.
\<close>

type_synonym modifiers = "bool \<times> bool \<times> bool"

fun key_code :: "modifiers \<Rightarrow> u8 \<Rightarrow> (modifiers \<times> u8 list) option" where
  "key_code (left, right, caps) c =
     (if c = 0x2A then Some ((True, right, caps), [])
      else if c = 0xAA then Some ((False, right, caps), [])
      else if c = 0x36 then Some ((left, True, caps), [])
      else if c = 0xB6 then Some ((left, False, caps), [])
      else if c = 0x3A then Some ((left, right, \<not> caps), [])
      else if c = 0xE0 \<or> c = 0xE1 then None
      else if 0x80 \<le> c then Some ((left, right, caps), [])
      else map_option (\<lambda>ch. ((left, right, caps), [ch])) (us_char (left \<or> right) caps c))"

text \<open>The text that a sequence of scan codes types.\<close>

fun spell :: "modifiers \<Rightarrow> u8 list \<Rightarrow> u8 list option" where
  "spell m [] = Some []"
| "spell m (c # cs) = do { (m, out) \<leftarrow> key_code m c; rest \<leftarrow> spell m cs; Some (out @ rest) }"

definition modifiers_of :: "kbd \<Rightarrow> modifiers" where
  "modifiers_of k = (shift_left k, shift_right k, caps_lock k)"

text \<open>The states with the modifiers \<open>m\<close>, with no key prefix pending and no Ctrl.\<close>

definition typing_in :: "modifiers \<Rightarrow> kbd \<Rightarrow> bool" where
  "typing_in m k \<longleftrightarrow> kbd_inv k \<and> \<not> extended k \<and> \<not> kb_is_ctrl_pressed k \<and> modifiers_of k = m"

text \<open>The two tables of the driver have the characters of the rows.\<close>

lemma us_char_table:
  "list_all (\<lambda>n. list_all (\<lambda>shift. list_all (\<lambda>caps. case us_char shift caps (of_nat n) of
        None \<Rightarrow> True
      | Some ch \<Rightarrow> scancode_to_ascii (of_nat n) shift caps = ch \<and> ch \<noteq> 0 \<and> ch \<noteq> 10 \<and> n < 89
          \<and> of_nat n \<notin> set [0x2A, 0x36, 0x1D, 0x38, 0x3A, 0x45, 0x46, 0x0E, 0x1C :: u8])
     [False, True]) [False, True]) [0..<128]"
  by code_simp

lemma word_of_nat_unat_id: "of_nat (unat c) = (c :: u8)"
  by simp

lemma us_char_driver:
  assumes "us_char shift caps c = Some ch" "c < 0x80"
  shows "scancode_to_ascii c shift caps = ch" "ch \<noteq> 0" "ch \<noteq> 10" "c < 89"
    "c \<notin> {0x2A, 0x36, 0x1D, 0x38, 0x3A, 0x45, 0x46, 0x0E, 0x1C}"
proof -
  have n: "unat c \<in> set [0..<128]" using assms(2) by (simp add: word_less_nat_alt)
  have b: "shift \<in> set [False, True]" "caps \<in> set [False, True]" by auto
  note e = us_char_table [unfolded list_all_iff, rule_format, OF n b, unfolded word_of_nat_unat_id assms(1) option.case]
  show "scancode_to_ascii c shift caps = ch" "ch \<noteq> 0" "ch \<noteq> 10" "c < 89"
    "c \<notin> {0x2A, 0x36, 0x1D, 0x38, 0x3A, 0x45, 0x46, 0x0E, 0x1C}"
    using e by (simp_all add: word_less_nat_alt)
qed

lemma make_code:
  assumes "c < (0x80 :: u8)"
  shows "c AND 0x80 = 0" "c AND NOT 0x80 = c" "c \<noteq> 0xE0" "c \<noteq> 0xE1"
proof -
  have lt: "c < 2 ^ 7" using assms by (simp add: word_less_nat_alt)
  have nb: "\<not> bit c i" if "7 \<le> i" for i
    using that less_mask_eq [OF lt] by (metis bit_and_iff bit_mask_iff linorder_not_le)
  have b80: "bit (0x80 :: u8) i \<longleftrightarrow> i = 7" for i
  proof -
    have "(0x80 :: u8) = push_bit 7 1" by simp
    then show ?thesis by (simp only: bit_push_bit_iff bit_1_iff) auto
  qed
  show "c AND 0x80 = 0" by (rule bit_word_eqI) (auto simp only: bit_and_iff b80 nb bit_0_eq bot_apply bot_bool_def)
  show "c AND NOT 0x80 = c"
    by (rule bit_word_eqI) (auto simp only: bit_and_iff bit_not_iff b80 nb possible_bit_word)
qed (use assms in \<open>auto simp: word_less_nat_alt\<close>)

text \<open>The press of a key without a prefix.\<close>

lemma kb_handler_make: "c < 0x80 \<Longrightarrow> \<not> extended k \<Longrightarrow> kb_handler c k = map_option send_eoi (key_press c k)"
  by (simp only: kb_handler_def Let_def make_code if_False if_True simp_thms)

text \<open>The release of a key without a prefix.\<close>

lemma break_code_table: "list_all (\<lambda>n. (of_nat n :: u8) AND 0x80 \<noteq> 0 \<and> (of_nat n :: u8) AND NOT 0x80 = of_nat n - 0x80) [128..<256]"
  by code_simp

lemma break_code:
  assumes "(0x80 :: u8) \<le> c"
  shows "c AND 0x80 \<noteq> 0" "c AND NOT 0x80 = c - 0x80"
proof -
  have "unat c \<in> set [128..<256]" using assms unat_lt_8 [of c] by (simp add: word_le_nat_alt del: upt_rec_numeral)
  from break_code_table [unfolded list_all_iff, rule_format, OF this]
  show "c AND 0x80 \<noteq> 0" "c AND NOT 0x80 = c - 0x80" by simp_all
qed

lemma kb_handler_break:
  assumes "0x80 \<le> c" "c \<noteq> 0xE0" "c \<noteq> 0xE1" "\<not> extended k"
  shows "kb_handler c k = Some (send_eoi (key_release (c AND NOT 0x80) k))"
  using assms break_code [OF assms(1)] by (simp add: kb_handler_def)

lemmas typing_simps = typing_in_def modifiers_of_def kbd_inv_def send_eoi_def kb_is_ctrl_pressed_def kb_is_shift_pressed_def

lemma key_code_handler:
  assumes "typing_in m k" "key_code m c = Some (m', out)" "buffer_index k + int (length out) < BUFFER_SIZE"
    and "length (queue_contents k) + length out \<le> 255"
  shows "\<exists>k'. kb_handler c k = Some k' \<and> typing_in m' k' \<and> queue_contents k' = queue_contents k @ out
    \<and> buffer_index k' = buffer_index k + int (length out)"
proof -
  obtain l r caps where m: "m = (l, r, caps)" by (rule prod_cases3)
  have ks: "queue_inv k" "\<not> extended k" "\<not> kb_is_ctrl_pressed k" "kb_is_shift_pressed k = (l \<or> r)" "caps_lock k = caps"
    using assms(1) by (auto simp: typing_simps m)
  consider (shift) "c \<in> {0x2A, 0x36, 0x3A}" | (break) "0x80 \<le> c" "c \<noteq> 0xE0" "c \<noteq> 0xE1" "c \<notin> {0x2A, 0x36, 0x3A}"
    | (char) ch where "c < 0x80" "us_char (l \<or> r) caps c = Some ch" "m' = m" "out = [ch]"
    using assms(2) unfolding m by (cases "c \<in> {0x2A, 0x36, 0x3A}"; cases "0x80 \<le> c"; cases "us_char (l \<or> r) caps c") (simp_all add: not_le split: if_splits)
  then show ?thesis
  proof cases
    case shift
    then have h: "kb_handler c k = map_option send_eoi (key_press c k)" using kb_handler_make [of c k] ks(2) by auto
    from shift consider "c = 0x2A" | "c = 0x36" | "c = 0x3A" by blast
    then show ?thesis using assms(1,2) h by cases (auto simp: key_press_def typing_simps m)
  next
    case break
    have "key_release (c AND NOT 0x80) k = (if c = 0xAA then k\<lparr>shift_left := False\<rparr> else if c = 0xB6 then k\<lparr>shift_right := False\<rparr>
        else if c = 0x9D then k\<lparr>ctrl_left := False\<rparr> else if c = 0xB8 then k\<lparr>alt_left := False\<rparr> else k)"
      by (simp only: key_release_def break_code(2) [OF break(1)] diff_eq_eq) simp
    then show ?thesis using kb_handler_break [OF break(1-3) ks(2)] break assms(1,2)
      by (auto simp: typing_simps m split: if_splits)
  next
    case char
    note d = us_char_driver [OF char(2,1)]
    have "key_press c k = push_key ch (k\<lparr>buffer_index := buffer_index k + 1\<rparr>)"
      using d ks assms(3) char(4) by (simp add: key_press_def Let_def)
    moreover have "queue_inv (k\<lparr>buffer_index := buffer_index k + 1\<rparr>)" using ks(1) by simp
    note push_key_total [OF this, of ch]
    ultimately show ?thesis
      using assms(1,3,4) kb_handler_make [OF char(1) ks(2)] char(3,4)
      by (elim exE conjE) (simp add: typing_simps m)
  qed
qed

lemma enter_handler:
  assumes "typing_in m k" "length (queue_contents k) < 255"
  shows "\<exists>k'. kb_handler 0x1C k = Some k' \<and> typing_in m k' \<and> queue_contents k' = queue_contents k @ [10]"
proof -
  have "queue_inv k" "\<not> extended k" using assms(1) by (simp_all add: typing_in_def kbd_inv_def)
  then have "kb_handler 0x1C k = map_option send_eoi (map_option (\<lambda>k. k\<lparr>buffer_index := 0, enter_pressed := True\<rparr>) (push_key 10 k))"
    using kb_handler_make [of "0x1C" k] by (simp add: key_press_def)
  with push_key_total [OF \<open>queue_inv k\<close>, of 10] show ?thesis
    using assms by (elim exE conjE) (simp add: typing_simps)
qed

text \<open>The line being typed: the codes that spell a text, and Enter at the end.\<close>

definition line_codes :: "modifiers \<Rightarrow> u8 list \<Rightarrow> u8 list \<Rightarrow> bool" where
  "line_codes m cs line \<longleftrightarrow> (cs = [] \<and> line = []) \<or> (\<exists>ds. cs = ds @ [0x1C] \<and> (\<exists>xs. spell m ds = Some xs \<and> line = xs @ [10]))"

lemma spell_Cons: "spell m (c # cs) = Some xs \<longleftrightarrow> (\<exists>m' out rest. key_code m c = Some (m', out) \<and> spell m' cs = Some rest \<and> xs = out @ rest)"
  by (auto simp: Option.bind_eq_Some_conv)

lemma line_codes_Cons:
  assumes "line_codes m (c # cs) line"
  obtains (enter) "c = 0x1C" "cs = []" "line = [10]"
  | (code) m' out rest where "key_code m c = Some (m', out)" "line_codes m' cs rest" "line = out @ rest" "rest \<noteq> []"
proof -
  obtain ds xs where ds: "c # cs = ds @ [0x1C]" "spell m ds = Some xs" "line = xs @ [10]" using assms by (auto simp: line_codes_def)
  show thesis
  proof (cases ds)
    case Nil
    then show ?thesis using ds enter by simp
  next
    case (Cons d ds')
    then have "spell m (d # ds') = Some xs" using ds(2) by simp
    then obtain m' out rest where "key_code m d = Some (m', out)" "spell m' ds' = Some rest" "xs = out @ rest"
      unfolding spell_Cons by blast
    then show ?thesis using ds Cons by (intro code [of m' out "rest @ [10]"]) (auto simp: line_codes_def)
  qed
qed

lemma spell_printable: "spell m cs = Some line \<Longrightarrow> 10 \<notin> set line"
proof (induction cs arbitrary: m line)
  case (Cons c cs)
  then obtain m' out rest where s: "key_code m c = Some (m', out)" "spell m' cs = Some rest" "line = out @ rest"
    unfolding spell_Cons by blast
  have "10 \<notin> set out" using s(1) us_char_driver(3) by (cases m) (auto simp: not_le split: if_splits)
  then show ?case using Cons.IH [OF s(2)] s(3) by simp
qed simp

text \<open>
  The interrupts of some of the codes, the rest of the line being still to come.
\<close>

lemma line_codes_run:
  "typing_in m k \<Longrightarrow> line_codes m (irqs @ cs) line \<Longrightarrow> buffer_index k + int (length line) \<le> BUFFER_SIZE \<Longrightarrow>
   length (queue_contents k) + length line \<le> 255 \<Longrightarrow>
   \<exists>k' m' out rest. kb_run irqs k = Some k' \<and> typing_in m' k' \<and> line_codes m' cs rest \<and> line = out @ rest
     \<and> queue_contents k' = queue_contents k @ out \<and> (buffer_index k' + int (length rest) \<le> BUFFER_SIZE)"
proof (induction irqs arbitrary: k m line)
  case (Cons c irqs)
  from Cons.prems(2) have "line_codes m (c # (irqs @ cs)) line" by simp
  then show ?case
  proof (cases rule: line_codes_Cons)
    case enter
    obtain k1 where k1: "kb_handler c k = Some k1" "typing_in m k1" "queue_contents k1 = queue_contents k @ [10]"
      using enter_handler [OF Cons.prems(1)] Cons.prems(4) enter by (auto simp del: length_queue_contents)
    have "buffer_index k1 \<le> BUFFER_SIZE" using k1(2) by (simp add: typing_in_def kbd_inv_def)
    moreover have "line_codes m [] []" by (simp add: line_codes_def)
    ultimately show ?thesis using k1 enter by (intro exI [of _ k1] exI [of _ m] exI [of _ "[10]"] exI [of _ "[]"]) simp
  next
    case (code m1 out rest)
    have "1 \<le> length rest" using code(4) by (cases rest) simp_all
    moreover have "length line = length out + length rest" using code(3) by simp
    ultimately have "buffer_index k + int (length out) < BUFFER_SIZE" "length (queue_contents k) + length out \<le> 255"
      using Cons.prems(3,4) by linarith+
    then obtain k1 where k1: "kb_handler c k = Some k1" "typing_in m1 k1" "queue_contents k1 = queue_contents k @ out"
        "buffer_index k1 = buffer_index k + int (length out)"
      using key_code_handler [OF Cons.prems(1) code(1)] by blast
    have "\<exists>k' m' out' rest'. kb_run irqs k1 = Some k' \<and> typing_in m' k' \<and> line_codes m' cs rest' \<and> rest = out' @ rest'
        \<and> queue_contents k' = queue_contents k1 @ out' \<and> buffer_index k' + int (length rest') \<le> BUFFER_SIZE"
      by (rule Cons.IH [OF k1(2) code(2)]) (use k1 Cons.prems(3,4) code(3) in \<open>auto simp del: length_queue_contents\<close>)
    then show ?thesis using k1 code(3) by (elim exE conjE) auto
  qed
qed (auto)

lemma typing_in_pop: "typing_in m k \<Longrightarrow> h < 256 \<Longrightarrow> typing_in m (k\<lparr>input_queue_head := h\<rparr>)"
  by (simp add: typing_in_def modifiers_of_def kbd_inv_def queue_inv_def kb_is_ctrl_pressed_def)

text \<open>One iteration of the reader that finds \<open>x\<close> at the head of the queue.\<close>

lemma get_input_line_key:
  assumes "kb_run irqs k = Some k1" "queue_inv k1" "queue_contents k1 = x # xs"
  shows "\<exists>h < 256. queue_contents (k1\<lparr>input_queue_head := h\<rparr>) = xs \<and>
    get_input_line max_len ((irqs, 0) # polls) k b e =
      (if x = 10 then Some (k1\<lparr>input_queue_head := h\<rparr>, b, e)
       else get_input_line max_len polls (k1\<lparr>input_queue_head := h\<rparr>)
              (if int (length b) < max_len - 1 then b @ [x] else b) e)"
proof -
  obtain k2 where k2: "input_queue_pop k1 = Some (k2, x)" "queue_inv k2" "queue_contents k2 = xs"
      "k2 = k1\<lparr>input_queue_head := input_queue_head k2\<rparr>"
    using input_queue_pop_some [OF assms(2,3)] by blast
  have "\<not> input_queue_empty k1" using assms input_queue_empty_iff by simp
  then show ?thesis
    using k2 assms(1) by (intro exI [of _ "input_queue_head k2"]) (simp add: queue_inv_def)
qed

lemma take_step:
  assumes "xs = x # xs'"
  shows "(if int (length b) < max_len - 1 then b @ [x] else b)
     @ take (nat (max_len - 1) - length (if int (length b) < max_len - 1 then b @ [x] else b)) xs'
   = b @ take (nat (max_len - 1) - length b) xs"
proof (cases "int (length b) < max_len - 1")
  case True
  then have "nat (max_len - 1) - length b = Suc (nat (max_len - 1) - Suc (length b))" by linarith
  with True show ?thesis by (simp add: assms)
next
  case False
  then have "nat (max_len - 1) - length b = 0" by linarith
  with False show ?thesis by simp
qed

lemma get_input_line_drains:
  "queue_inv k \<Longrightarrow> queue_contents k = xs @ [10] \<Longrightarrow> 10 \<notin> set xs \<Longrightarrow> length xs < n \<Longrightarrow>
   \<exists>k'. get_input_line max_len (replicate n ([], 0)) k b e
     = Some (k', b @ take (nat (max_len - 1) - length b) xs, e)"
proof (induction xs arbitrary: k b n)
  case Nil
  then obtain m where "n = Suc m" by (cases n) auto
  with get_input_line_key [of "[]" k k 10 "[]" max_len "replicate m ([], 0)" b e] Nil
  show ?case by auto
next
  case (Cons x xs)
  then obtain m where n: "n = Suc m" "length xs < m" by (cases n) auto
  obtain h where h: "h < 256" "queue_contents (k\<lparr>input_queue_head := h\<rparr>) = xs @ [10]"
    "get_input_line max_len (replicate n ([], 0)) k b e =
       get_input_line max_len (replicate m ([], 0)) (k\<lparr>input_queue_head := h\<rparr>)
         (if int (length b) < max_len - 1 then b @ [x] else b) e"
    using get_input_line_key [of "[]" k k x "xs @ [10]" max_len "replicate m ([], 0)" b e] Cons.prems n
    by auto
  have "queue_inv (k\<lparr>input_queue_head := h\<rparr>)" using Cons.prems(1) h(1) by (simp add: queue_inv_def)
  from Cons.IH [OF this h(2) _ n(2), of "if int (length b) < max_len - 1 then b @ [x] else b"]
  show ?case unfolding h(3) take_step [OF refl] using Cons.prems(3) by simp
qed

lemma get_input_line_reads:
  "typing_in m k \<Longrightarrow> \<forall>p \<in> set ps. snd p = 0 \<Longrightarrow> line_codes m (concat (map fst ps)) line \<Longrightarrow>
   buffer_index k + int (length line) \<le> BUFFER_SIZE \<Longrightarrow> length (queue_contents k) + length line \<le> 255 \<Longrightarrow>
   queue_contents k @ line = xs @ [10] \<Longrightarrow> 10 \<notin> set xs \<Longrightarrow> length xs < n \<Longrightarrow>
   \<exists>k'. get_input_line max_len (ps @ replicate n ([], 0)) k b e
     = Some (k', b @ take (nat (max_len - 1) - length b) xs, e)"
proof (induction ps arbitrary: m k b xs line)
  case Nil
  then have "line = []" by (auto simp: line_codes_def)
  then show ?case using get_input_line_drains [of k xs n max_len b e] Nil
    by (simp add: typing_in_def kbd_inv_def)
next
  case (Cons p ps)
  obtain irqs where p: "p = (irqs, 0)" using Cons.prems(2) by (cases p) auto
  let ?r = "concat (map fst ps)"
  have z: "\<forall>p \<in> set ps. snd p = 0" using Cons.prems(2) by simp
  have "line_codes m (irqs @ ?r) line" using Cons.prems(3) p by simp
  from line_codes_run [OF Cons.prems(1) this Cons.prems(4,5)]
  obtain k1 m1 out rest where k1: "kb_run irqs k = Some k1" "typing_in m1 k1" "line_codes m1 ?r rest" "line = out @ rest"
      "queue_contents k1 = queue_contents k @ out" "buffer_index k1 + int (length rest) \<le> BUFFER_SIZE"
    by blast
  have q1: "queue_inv k1" using k1(2) by (simp add: typing_in_def kbd_inv_def)
  have len: "length (queue_contents k1) + length rest \<le> 255"
    using Cons.prems(5) k1(4,5) by (simp del: length_queue_contents)
  have seq: "queue_contents k1 @ rest = xs @ [10]" using Cons.prems(6) k1(4,5) by simp
  show ?case
  proof (cases "queue_contents k1")
    case Nil
    then have "get_input_line max_len ((p # ps) @ replicate n ([], 0)) k b e
        = get_input_line max_len (ps @ replicate n ([], 0)) k1 b e"
      using k1(1) p input_queue_empty_iff [OF q1] by simp
    then show ?thesis using Cons.IH [OF k1(2) z k1(3,6) len seq Cons.prems(7,8)] by simp
  next
    case c1: (Cons x ys)
    let ?b = "if int (length b) < max_len - 1 then b @ [x] else b"
    obtain h where h: "h < 256" "queue_contents (k1\<lparr>input_queue_head := h\<rparr>) = ys"
      "get_input_line max_len ((p # ps) @ replicate n ([], 0)) k b e =
        (if x = 10 then Some (k1\<lparr>input_queue_head := h\<rparr>, b, e)
         else get_input_line max_len (ps @ replicate n ([], 0)) (k1\<lparr>input_queue_head := h\<rparr>) ?b e)"
      using get_input_line_key [OF k1(1) q1 c1, of max_len "ps @ replicate n ([], 0)" b e] p by auto
    show ?thesis
    proof (cases "x = 10")
      case True
      then have "xs = []" using seq c1 Cons.prems(7) by (cases xs) auto
      then show ?thesis using h(3) True by simp
    next
      case False
      then obtain xs' where xs: "xs = x # xs'" "ys @ rest = xs' @ [10]" using seq c1 by (cases xs) auto
      have "\<exists>k'. get_input_line max_len (ps @ replicate n ([], 0)) (k1\<lparr>input_queue_head := h\<rparr>) ?b e
          = Some (k', ?b @ take (nat (max_len - 1) - length ?b) xs', e)"
        by (rule Cons.IH [OF typing_in_pop [OF k1(2) h(1)] z k1(3)])
           (use len c1 k1(6) xs Cons.prems(7,8) h(2) in \<open>simp_all del: length_queue_contents\<close>)
      then show ?thesis unfolding h(3) take_step [OF xs(1)] using False by simp
    qed
  qed
qed

subsection \<open>Properties\<close>

text \<open>
  Whatever bytes the keyboard sends, the handler returns for each of them, sends
  exactly one end of interrupt, leaves the interrupt flag and the lock as it found
  them, keeps the ring buffer and the key count in range, and only appends to what
  the readers have not read yet.
\<close>

theorem kb_handler_invariant:
  assumes "kbd_inv k"
  shows "\<exists>k'. kb_run cs k = Some k' \<and> kbd_inv k' \<and> irq_flag k' = irq_flag k
     \<and> eoi_sent k' = eoi_sent k + length cs
     \<and> (\<exists>new. queue_contents k' = queue_contents k @ new) \<and> length (queue_contents k') \<le> 255"
proof -
  have "length (queue_contents k') \<le> 255" for k' by (simp add: queue_length_le)
  with kb_run_ok [OF assms, of cs] show ?thesis by blast
qed

definition kbd0 :: kbd where
  "kbd0 = \<lparr>shift_left = False, shift_right = False, ctrl_left = False, ctrl_right = False,
     alt_left = False, alt_right = False, caps_lock = False, num_lock = False, scroll_lock = False,
     extended = False, input_queue = replicate 256 0, input_queue_head = 0, input_queue_tail = 0,
     queue_locked = False, irq_flag = True, buffer_index = 0, enter_pressed = False, eoi_sent = 0\<rparr>"

lemma kbd0_inv: "kbd_inv kbd0"
  by (simp add: kbd_inv_def queue_inv_def kbd0_def)

theorem kb_handler_invariant_witness:
  "kbd_inv kbd0 \<and> (\<exists>k'. kb_run [0x2A, 0x23, 0xA3, 0xAA, 0x17] kbd0 = Some k' \<and> kbd_inv k')"
  using kb_handler_invariant [OF kbd0_inv, of "[0x2A, 0x23, 0xA3, 0xAA, 0x17]"] kbd0_inv by blast

text \<open>
  The input queue is first in, first out with room for 255 characters: a push into
  it appends or, when it is full, fails and changes nothing, and a pop returns the
  oldest character; both leave the lock released.
\<close>

theorem input_queue_fifo:
  assumes "queue_inv k"
  shows "\<exists>k1. input_queue_push c k = Some (k1, length (queue_contents k) < 255) \<and> queue_inv k1
     \<and> queue_contents k1 = (if length (queue_contents k) < 255 then queue_contents k @ [c] else queue_contents k)"
    and "\<exists>k2. input_queue_pop k = Some (k2, case queue_contents k of [] \<Rightarrow> 0 | x # xs \<Rightarrow> x)
     \<and> queue_inv k2 \<and> queue_contents k2 = tl (queue_contents k)"
proof -
  show "\<exists>k1. input_queue_push c k = Some (k1, length (queue_contents k) < 255) \<and> queue_inv k1
     \<and> queue_contents k1 = (if length (queue_contents k) < 255 then queue_contents k @ [c] else queue_contents k)"
  proof (cases "length (queue_contents k) < 255")
    case True
    then show ?thesis using input_queue_push_room [OF assms, of c] by auto
  next
    case False
    then have "queue_length k = 255" using queue_length_le [of k] by simp
    then show ?thesis using input_queue_push_full [OF assms, of c] assms by simp
  qed
  show "\<exists>k2. input_queue_pop k = Some (k2, case queue_contents k of [] \<Rightarrow> 0 | x # xs \<Rightarrow> x)
     \<and> queue_inv k2 \<and> queue_contents k2 = tl (queue_contents k)"
  proof (cases "queue_contents k")
    case Nil
    then show ?thesis using input_queue_pop_empty [OF assms Nil] assms by simp
  next
    case (Cons x xs)
    then show ?thesis using input_queue_pop_some [OF assms Cons] by auto
  qed
qed

theorem input_queue_fifo_witness:
  "queue_inv kbd0 \<and> (\<exists>k1. input_queue_push 65 kbd0 = Some (k1, True) \<and> queue_contents k1 = [65])"
proof -
  have i: "queue_inv kbd0" using kbd0_inv by (simp add: kbd_inv_def)
  have e: "queue_contents kbd0 = []" by (simp add: queue_contents_def queue_length_def kbd0_def)
  show ?thesis using input_queue_fifo(1) [OF i, of 65] i unfolding e by auto
qed

text \<open>
  C22. A typed line is read: when the scan codes of key presses and releases spell a text of up to
  126 characters on a US keyboard, with the Shift keys and Caps Lock pressed and released in between,
  and Enter follows, then served in any interleaving with the polls of \<^verbatim>\<open>get_input_line\<close> they give
  the call exactly that text, cut at \<^verbatim>\<open>max_len - 1\<close>, and the call returns. Letters typed with both
  Shift and Caps Lock are left out, as are Backspace, which \<^verbatim>\<open>get_input_line\<close> stores in the line, and
  the keys without a character of the five rows.
\<close>

theorem get_input_line_typed:
  assumes "kbd_inv k" "queue_contents k = []" "buffer_index k = 0" "\<not> extended k" "\<not> kb_is_ctrl_pressed k"
    and "spell (modifiers_of k) cs = Some line" "length line \<le> 126"
    and "\<forall>p \<in> set polls. snd p = 0" "concat (map fst polls) = cs @ [0x1C]"
  shows "\<exists>k'. get_input_line max_len (polls @ replicate (Suc (length line)) ([], 0)) k [] []
     = Some (k', take (nat (max_len - 1)) line, [])"
proof -
  have t: "typing_in (modifiers_of k) k" using assms by (simp add: typing_in_def)
  have l: "line_codes (modifiers_of k) (concat (map fst polls)) (line @ [10])"
    using assms(6,9) by (auto simp: line_codes_def)
  have "\<exists>k'. get_input_line max_len (polls @ replicate (Suc (length line)) ([], 0)) k [] []
     = Some (k', [] @ take (nat (max_len - 1) - length ([] :: u8 list)) line, [])"
    by (rule get_input_line_reads [OF t assms(8) l]) (use assms(2,3,7) spell_printable [OF assms(6)] in auto)
  then show ?thesis by simp
qed

text \<open>The keys of \<open>Hi\<close>: Shift down, h down and up, Shift up, i down.\<close>

theorem get_input_line_typed_witness:
  "\<exists>k'. get_input_line 80 ([([0x2A, 0x23], 0), ([0xA3], 0), ([0xAA, 0x17, 0x1C], 0)] @ replicate 3 ([], 0)) kbd0 [] []
     = Some (k', lit ''Hi'', [])"
proof -
  have sp: "spell (modifiers_of kbd0) [0x2A, 0x23, 0xA3, 0xAA, 0x17] = Some (lit ''Hi'')" by code_simp
  have l: "length (lit ''Hi'') = 2" by (simp add: lit_def)
  have "\<exists>k'. get_input_line 80 ([([0x2A, 0x23], 0), ([0xA3], 0), ([0xAA, 0x17, 0x1C], 0)]
        @ replicate (Suc (length (lit ''Hi''))) ([], 0)) kbd0 [] []
     = Some (k', take (nat (80 - 1)) (lit ''Hi''), [])"
    by (rule get_input_line_typed [OF _ _ _ _ _ sp])
       (simp_all add: kbd0_inv l queue_contents_def queue_length_def,
        simp_all add: kbd0_def kb_is_ctrl_pressed_def)
  then show ?thesis by (simp add: l numeral_eq_Suc)
qed

text \<open>
  Shift wins over Caps Lock: the branch the source comments \<open>caps + shift\<close> requires Shift
  to be up, and the unshifted table has no upper case letters, so it is never taken.
\<close>

lemma caps_shift_stays_upper: "scancode_to_ascii c True True = scancode_to_ascii c True False"
proof -
  have "\<forall>key \<in> set scancode_to_char_shift. \<not> (char_int key \<ge> 97 \<and> char_int key \<le> 122)" by code_simp
  moreover have "scancode_to_char_shift ! unat c \<in> set scancode_to_char_shift" if "c < 89"
    using that by (intro nth_mem) (simp add: scancode_to_char_shift_def word_less_nat_alt)
  ultimately show ?thesis by (cases "c < 89") (auto simp: scancode_to_ascii_def Let_def not_less)
qed

end
