(* ===== verification/Netstack.thy ===== *)
theory Netstack
  imports Prelude "HOL-Library.Monad_Syntax"
begin

text \<open>
  The network stack (\<^verbatim>\<open>drivers/net/netstack.c\<close>) and the byte order functions
  (\<^verbatim>\<open>drivers/net/ethernet.c\<close>): address parsing and printing, checksums, the ARP cache,
  ICMP echo, UDP, the DHCP client and the demultiplexing of received frames. A frame
  that is sent is a list of bytes; a received frame lies in flat memory, as the
  length fields of its headers are not always compared with the received length. The
  network card is its transmit log and its receive queue. \<open>None\<close> is a write behind the
  end of the 1514 byte packet buffer.
\<close>

subsection \<open>Byte order\<close>

definition htons :: "u16 \<Rightarrow> u16" where
  "htons x = push_bit 8 x OR drop_bit 8 x"

definition ntohs :: "u16 \<Rightarrow> u16" where
  "ntohs x = htons x"

definition htonl :: "u32 \<Rightarrow> u32" where
  "htonl x = push_bit 24 (x AND 0x000000FF) OR push_bit 8 (x AND 0x0000FF00)
     OR drop_bit 8 (x AND 0x00FF0000) OR drop_bit 24 (x AND 0xFF000000)"

definition ntohl :: "u32 \<Rightarrow> u32" where
  "ntohl x = htonl x"

subsection \<open>Addresses as text\<close>

fun parse_ipv4_loop :: "cstring \<Rightarrow> u32 \<Rightarrow> int \<Rightarrow> nat \<Rightarrow> u32" where
  "parse_ipv4_loop [] out part dots =
     (if part < 0 then 0
      else if dots \<noteq> 3 then 0
      else push_bit 8 out OR word_of_int part)"
| "parse_ipv4_loop (c # cs) out part dots =
     (if char_int c \<ge> 48 \<and> char_int c \<le> 57
      then let d = char_int c - 48
           in if part < 0 then parse_ipv4_loop cs out d dots
              else if part * 10 + d > 255 then 0
              else parse_ipv4_loop cs out (part * 10 + d) dots
      else if c = 46
      then (if part < 0 then 0
            else if dots + 1 > 3 then 0
            else parse_ipv4_loop cs (push_bit 8 out OR word_of_int part) (- 1) (dots + 1))
      else 0)"

definition parse_ipv4 :: "cstring option \<Rightarrow> u32" where
  "parse_ipv4 ip = (case ip of None \<Rightarrow> 0 | Some s \<Rightarrow> parse_ipv4_loop s 0 (- 1) 0)"

definition u8_to_dec :: "u8 \<Rightarrow> cstring" where
  "u8_to_dec v =
     (if v \<ge> 100 then [48 + v div 100, 48 + v mod 100 div 10, 48 + v mod 100 mod 10]
      else if v \<ge> 10 then [48 + v div 10, 48 + v mod 10]
      else [48 + v])"

definition format_ipv4 :: "u32 \<Rightarrow> cstring" where
  "format_ipv4 ip = u8_to_dec (ucast (drop_bit 24 ip AND 0xFF)) @ [46]
     @ u8_to_dec (ucast (drop_bit 16 ip AND 0xFF)) @ [46]
     @ u8_to_dec (ucast (drop_bit 8 ip AND 0xFF)) @ [46]
     @ u8_to_dec (ucast (ip AND 0xFF))"

definition format_mac :: "u8 list \<Rightarrow> cstring" where
  "format_mac mac = (let hex = lit ''0123456789ABCDEF'' in
     concat (map (\<lambda>i. [hex ! unat (drop_bit 4 (mac ! i) AND 0xF), hex ! unat (mac ! i AND 0xF)]
                      @ (if i < 5 then [58] else [])) [0..<6]))"

subsection \<open>Checksums\<close>

fun checksum_accumulate :: "u8 list \<Rightarrow> u32 \<Rightarrow> u32" where
  "checksum_accumulate (a # b # bs) acc =
     checksum_accumulate bs (acc + (push_bit 8 (ucast a) OR ucast b))"
| "checksum_accumulate [a] acc = acc + push_bit 8 (ucast a)"
| "checksum_accumulate [] acc = acc"

lemma fold_checksum_decreases:
  "drop_bit 16 (acc :: u32) \<noteq> 0 \<Longrightarrow> unat ((acc AND 0xFFFF) + drop_bit 16 acc) < unat acc"
proof -
  assume h: "drop_bit 16 acc \<noteq> 0"
  have m: "(acc AND 0xFFFF) = take_bit 16 acc"
    by (simp add: take_bit_eq_mask mask_numeral)
  have a: "unat (take_bit 16 acc) = unat acc mod 65536"
    by (simp add: take_bit_eq_mod unat_mod)
  have b: "unat (drop_bit 16 acc) = unat acc div 65536"
    by (simp add: drop_bit_eq_div unat_div)
  have nz: "unat acc div 65536 \<noteq> 0" using h b by (metis unat_eq_zero)
  have lt: "unat acc < 4294967296" by (rule unat_lt_32)
  have le: "unat acc div 65536 < 65536" using lt by (simp add: less_mult_imp_div_less)
  have "unat (take_bit 16 acc + drop_bit 16 acc) = unat acc mod 65536 + unat acc div 65536"
    using le by (simp add: unat_word_ariths a b)
  also have "\<dots> < unat acc mod 65536 + 65536 * (unat acc div 65536)" using nz by linarith
  finally show ?thesis by (simp add: m)
qed

function fold_sum :: "u32 \<Rightarrow> u32" where
  "fold_sum acc = (if drop_bit 16 acc \<noteq> 0 then fold_sum ((acc AND 0xFFFF) + drop_bit 16 acc) else acc)"
  by auto
termination
  by (relation "measure unat") (use fold_checksum_decreases in auto)

declare fold_sum.simps [simp del]

definition fold_checksum :: "u32 \<Rightarrow> u16" where
  "fold_checksum acc = ucast (NOT (fold_sum acc))"

definition ip_checksum :: "u8 list \<Rightarrow> u16" where
  "ip_checksum data = fold_checksum (checksum_accumulate data 0)"

subsection \<open>State\<close>

record arp_cache_entry =
  aip :: u32
  amac :: "u8 list"
  timestamp :: u32
  valid :: bool

record net =
  ip_address :: u32
  netmask :: u32
  gateway :: u32
  dns_server :: u32
  mac_address :: "u8 list"
  arp_cache :: "arp_cache_entry list"
  ip_identification :: u16
  seed :: u32
  nic_up :: bool
  sent :: "u8 list list"
  rx :: "u8 list list"

abbreviation ARP_CACHE_SIZE :: nat where "ARP_CACHE_SIZE \<equiv> 32"
abbreviation BROADCAST :: u32 where "BROADCAST \<equiv> 0xFFFFFFFF"

subsection \<open>The network card\<close>

text \<open>The card sends frames of up to 1500 bytes and drops longer ones; \<^verbatim>\<open>nic_send\<close> reports success for both.\<close>

definition nic_send :: "u8 list \<Rightarrow> net \<Rightarrow> net \<times> bool" where
  "nic_send p s = (if nic_up s then (if length p > 1500 then s else s\<lparr>sent := sent s @ [p]\<rparr>, True) else (s, False))"

text \<open>A poll of the card: the next frame, or the empty list for a length of at most 0.\<close>

definition nic_recv :: "net \<Rightarrow> net \<times> u8 list" where
  "nic_recv s = (if nic_up s
     then (case rx s of [] \<Rightarrow> (s, []) | f # fs \<Rightarrow> (s\<lparr>rx := fs\<rparr>, f))
     else (s, []))"

subsection \<open>ARP\<close>

text \<open>The slot for an address: its entry, else the first free one, else slot 0.\<close>

fun arp_slot :: "arp_cache_entry list \<Rightarrow> u32 \<Rightarrow> nat \<Rightarrow> nat option \<Rightarrow> nat option" where
  "arp_slot [] ip i slot = slot"
| "arp_slot (e # es) ip i slot =
     (if valid e \<and> aip e = ip then Some i
      else arp_slot es ip (i + 1) (if \<not> valid e \<and> slot = None then Some i else slot))"

definition arp_add_entry :: "u32 \<Rightarrow> u8 list \<Rightarrow> net \<Rightarrow> net" where
  "arp_add_entry ip mac s =
     (let slot = (case arp_slot (arp_cache s) ip 0 None of None \<Rightarrow> 0 | Some i \<Rightarrow> i)
      in s\<lparr>arp_cache := (arp_cache s)[slot := \<lparr>aip = ip, amac = mac, timestamp = 0, valid = True\<rparr>]\<rparr>)"

definition arp_lookup :: "u32 \<Rightarrow> net \<Rightarrow> u8 list option" where
  "arp_lookup ip s = map_option amac (find (\<lambda>e. valid e \<and> aip e = ip) (arp_cache s))"

definition eth_header :: "u8 list \<Rightarrow> u8 list \<Rightarrow> u16 \<Rightarrow> u8 list" where
  "eth_header dst src ethertype = dst @ src @ bytes16 (htons ethertype)"

definition arp_packet :: "u16 \<Rightarrow> u8 list \<Rightarrow> u32 \<Rightarrow> u8 list \<Rightarrow> u32 \<Rightarrow> u8 list" where
  "arp_packet operation smac sip tmac tip =
     bytes16 (htons 1) @ bytes16 (htons 0x0800) @ [6, 4] @ bytes16 (htons operation)
     @ smac @ bytes32 (htonl sip) @ tmac @ bytes32 (htonl tip)"

definition arp_send_request :: "u32 \<Rightarrow> net \<Rightarrow> net" where
  "arp_send_request target_ip s = fst (nic_send
     (eth_header (replicate 6 0xFF) (mac_address s) 0x0806
      @ arp_packet 1 (mac_address s) (ip_address s) (replicate 6 0) target_ip) s)"

definition arp_send_reply :: "u32 \<Rightarrow> u8 list \<Rightarrow> net \<Rightarrow> net" where
  "arp_send_reply target_ip target_mac s = fst (nic_send
     (eth_header target_mac (mac_address s) 0x0806
      @ arp_packet 2 (mac_address s) (ip_address s) target_mac target_ip) s)"

text \<open>The \<open>n\<close> bytes at an address of memory.\<close>

definition mem_bytes :: "mem \<Rightarrow> addr \<Rightarrow> nat \<Rightarrow> u8 list" where
  "mem_bytes m p n = map (\<lambda>i. m (p + of_nat i)) [0..<n]"

definition handle_arp_packet :: "mem \<Rightarrow> addr \<Rightarrow> u16 \<Rightarrow> net \<Rightarrow> net" where
  "handle_arp_packet m p len s =
     (if unat len < 28 then s
      else if ntohs (load16 m p) \<noteq> 1 \<or> ntohs (load16 m (p + 2)) \<noteq> 0x0800 \<or> m (p + 4) \<noteq> 6 \<or> m (p + 5) \<noteq> 4
      then s
      else let op = ntohs (load16 m (p + 6));
               sender_mac = mem_bytes m (p + 8) 6;
               sip = ntohl (load32 m (p + 14));
               tip = ntohl (load32 m (p + 24));
               s = arp_add_entry sip sender_mac s
           in if op = 1 \<and> tip = ip_address s then arp_send_reply sip sender_mac s else s)"

subsection \<open>IPv4 and ICMP\<close>

definition next_hop :: "u32 \<Rightarrow> net \<Rightarrow> u32" where
  "next_hop dst_ip s =
     (if dst_ip AND netmask s = ip_address s AND netmask s \<or> dst_ip = BROADCAST
      then dst_ip else gateway s)"

text \<open>The destination hardware address, or the state in which it has been asked for.\<close>

definition resolve :: "u32 \<Rightarrow> net \<Rightarrow> net + u8 list" where
  "resolve dst_ip s =
     (if dst_ip = BROADCAST then Inr (replicate 6 0xFF)
      else case arp_lookup (next_hop dst_ip s) s of
             None \<Rightarrow> Inl (arp_send_request (next_hop dst_ip s) s)
           | Some mac \<Rightarrow> Inr mac)"

definition ip_header_with :: "u16 \<Rightarrow> u16 \<Rightarrow> u16 \<Rightarrow> u8 \<Rightarrow> u32 \<Rightarrow> u32 \<Rightarrow> u8 list" where
  "ip_header_with header_checksum total_length identification protocol src dst =
     [0x45, 0] @ bytes16 (htons total_length) @ bytes16 (htons identification) @ bytes16 0
     @ [64, protocol] @ bytes16 header_checksum @ bytes32 (htonl src) @ bytes32 (htonl dst)"

definition ip_header :: "u16 \<Rightarrow> u16 \<Rightarrow> u8 \<Rightarrow> u32 \<Rightarrow> u32 \<Rightarrow> u8 list" where
  "ip_header total_length identification protocol src dst =
     ip_header_with (ip_checksum (ip_header_with 0 total_length identification protocol src dst))
       total_length identification protocol src dst"

definition icmp_with :: "u16 \<Rightarrow> u8 \<Rightarrow> u16 \<Rightarrow> u16 \<Rightarrow> u8 list \<Rightarrow> u8 list" where
  "icmp_with checksum type ident sequence data =
     [type, 0] @ bytes16 checksum @ bytes16 (htons ident) @ bytes16 (htons sequence) @ data"

definition icmp_message :: "u8 \<Rightarrow> u16 \<Rightarrow> u16 \<Rightarrow> u8 list \<Rightarrow> u8 list" where
  "icmp_message type ident sequence data =
     icmp_with (ip_checksum (icmp_with 0 type ident sequence data)) type ident sequence data"

text \<open>The frame both echo functions build; 42 bytes of headers leave room for 1472 of data.\<close>

definition icmp_send :: "u8 \<Rightarrow> u32 \<Rightarrow> u16 \<Rightarrow> u16 \<Rightarrow> u8 list \<Rightarrow> net \<Rightarrow> net option" where
  "icmp_send type dst_ip ident sequence data s =
     (case resolve dst_ip s of
        Inl s' \<Rightarrow> Some s'
      | Inr dst_mac \<Rightarrow>
          if length data > 1472 then None
          else let p = eth_header dst_mac (mac_address s) 0x0800
                   @ ip_header (of_nat (20 + 8 + length data)) (ip_identification s) 1 (ip_address s) dst_ip
                   @ icmp_message type ident sequence data
               in Some (fst (nic_send p (s\<lparr>ip_identification := ip_identification s + 1\<rparr>))))"

definition icmp_send_echo_reply :: "u32 \<Rightarrow> u16 \<Rightarrow> u16 \<Rightarrow> u8 list \<Rightarrow> net \<Rightarrow> net option" where
  "icmp_send_echo_reply dst_ip ident sequence data s = icmp_send 0 dst_ip ident sequence data s"

definition icmp_send_echo_request :: "u32 \<Rightarrow> u16 \<Rightarrow> u16 \<Rightarrow> net \<Rightarrow> net option" where
  "icmp_send_echo_request dst_ip ident sequence s = icmp_send 8 dst_ip ident sequence (lit ''ping'') s"

definition handle_icmp_packet :: "mem \<Rightarrow> addr \<Rightarrow> u16 \<Rightarrow> u32 \<Rightarrow> net \<Rightarrow> net option" where
  "handle_icmp_packet m p len src_ip s =
     (if unat len < 8 then Some s
      else if m p = 8
      then icmp_send_echo_reply src_ip (ntohs (load16 m (p + 4))) (ntohs (load16 m (p + 6)))
             (mem_bytes m (p + 8) (unat (len - 8))) s
      else Some s)"

definition header_checksum_ok :: "mem \<Rightarrow> addr \<Rightarrow> nat \<Rightarrow> bool" where
  "header_checksum_ok m p ihl_bytes \<longleftrightarrow>
     load16 m (p + 10) = ip_checksum (mem_bytes (m(p + 10 := 0, p + 11 := 0)) p ihl_bytes)"

definition handle_ip_packet :: "mem \<Rightarrow> addr \<Rightarrow> u16 \<Rightarrow> net \<Rightarrow> net option" where
  "handle_ip_packet m p len s =
     (if unat len < 20 then Some s
      else let ihl_bytes = unat (m p AND 0x0F) * 4
           in if ihl_bytes < 20 \<or> ihl_bytes > unat len then Some s
              else if \<not> header_checksum_ok m p ihl_bytes then Some s
              else let dst = ntohl (load32 m (p + 16))
                   in if dst \<noteq> ip_address s \<and> dst \<noteq> BROADCAST then Some s
                      else if ntohs (load16 m (p + 6)) AND 0x3FFF \<noteq> 0 then Some s
                      else let payload_len = ntohs (load16 m (p + 2)) - of_nat ihl_bytes
                           in if m (p + 9) = 1
                              then handle_icmp_packet m (p + of_nat ihl_bytes) payload_len
                                     (ntohl (load32 m (p + 12))) s
                              else Some s)"

definition netstack_process_packet :: "mem \<Rightarrow> addr \<Rightarrow> u16 \<Rightarrow> net \<Rightarrow> net option" where
  "netstack_process_packet m p len s =
     (if unat len < 14 then Some s
      else let type = ntohs (load16 m (p + 12));
               plen = len - 14;
               is_bcast = (\<forall>i \<in> set [0..<6]. m (p + of_nat i) = 0xFF)
           in if \<not> is_bcast \<and> mem_bytes m p 6 \<noteq> mac_address s then Some s
              else if type = 0x0806 then Some (handle_arp_packet m (p + 14) plen s)
              else if type = 0x0800 then handle_ip_packet m (p + 14) plen s
              else Some s)"

subsection \<open>UDP\<close>

definition udp_header :: "u16 \<Rightarrow> u16 \<Rightarrow> u16 \<Rightarrow> u16 \<Rightarrow> u8 list" where
  "udp_header checksum src_port dst_port udp_len =
     bytes16 (htons src_port) @ bytes16 (htons dst_port) @ bytes16 (htons udp_len) @ bytes16 checksum"

definition udp_checksum :: "u32 \<Rightarrow> u32 \<Rightarrow> u8 list \<Rightarrow> u8 list \<Rightarrow> u16" where
  "udp_checksum src dst udp payload =
     (let pseudo = bytes32 (htonl src) @ bytes32 (htonl dst) @ [0, 17] @ bytes16 (htons (of_nat (8 + length payload)));
          acc = checksum_accumulate pseudo 0;
          acc = checksum_accumulate udp acc;
          acc = checksum_accumulate payload acc
      in fold_checksum acc)"

definition netstack_send_udp_low :: "u32 \<Rightarrow> u16 \<Rightarrow> u16 \<Rightarrow> u8 list \<Rightarrow> bool \<Rightarrow> net \<Rightarrow> net \<times> int" where
  "netstack_send_udp_low dst_ip src_port dst_port data with_checksum s =
     (if 14 + 20 + 8 + length data > 1514 then (s, - 1)
      else case resolve dst_ip s of
             Inl s' \<Rightarrow> (s', - 1)
           | Inr dst_mac \<Rightarrow>
               let udp_len = of_nat (8 + length data);
                   udp = udp_header 0 src_port dst_port udp_len;
                   checksum = (if with_checksum then udp_checksum (ip_address s) dst_ip udp data else 0);
                   p = eth_header dst_mac (mac_address s) 0x0800
                     @ ip_header (of_nat (20 + 8 + length data)) (ip_identification s) 17 (ip_address s) dst_ip
                     @ udp_header checksum src_port dst_port udp_len @ data;
                   (s, ok) = nic_send p (s\<lparr>ip_identification := ip_identification s + 1\<rparr>)
               in (s, if ok then 0 else - 1))"

definition udp_send :: "u32 \<Rightarrow> u16 \<Rightarrow> u16 \<Rightarrow> u8 list \<Rightarrow> net \<Rightarrow> net \<times> int" where
  "udp_send dst_ip src_port dst_port data s = netstack_send_udp_low dst_ip src_port dst_port data False s"

text \<open>
  The test a polled frame has to pass, with the offset and length of its payload and
  its sender. The UDP header may lie behind the end of the frame, where the packet
  buffer holds what was there before (\<open>stale\<close>); then the length test fails.
\<close>

definition udp_payload :: "u8 list \<Rightarrow> u16 \<Rightarrow> u8 list \<Rightarrow> (nat \<times> nat \<times> u32 \<times> u16) option" where
  "udp_payload stale port f =
     (let len = length f;
          b = (\<lambda>i. if i < len then f ! i else stale ! i);
          w = (\<lambda>i. word16 (b i) (b (i + 1)));
          ihl_bytes = unat (b 14 AND 0x0F) * 4;
          udp = 14 + ihl_bytes;
          udp_pl = int (unat (ntohs (w (udp + 4)))) - 8;
          avail = int len - int (14 + ihl_bytes + 8)
      in if len < 42 then None
         else if (push_bit 8 (ucast (b 12)) OR ucast (b 13) :: u16) \<noteq> 0x0800 then None
         else if ihl_bytes < 20 \<or> 14 + ihl_bytes > len then None
         else if b 23 \<noteq> 17 then None
         else if w 24 \<noteq> ip_checksum (take ihl_bytes (drop 14 (f[24 := 0, 25 := 0]))) then None
         else if ntohs (w (udp + 2)) \<noteq> port then None
         else if udp_pl < 0 \<or> udp_pl > avail then None
         else Some (udp + 8, nat udp_pl, ntohl (word32 (b 26) (b 27) (b 28) (b 29)), ntohs (w udp)))"

fun netstack_receive_udp_low ::
  "u8 list \<Rightarrow> nat \<Rightarrow> u16 \<Rightarrow> u8 list \<Rightarrow> net \<Rightarrow> net \<times> u8 list \<times> int \<times> (u32 \<times> u16) option" where
  "netstack_receive_udp_low stale 0 port buffer s = (s, buffer, - 1, None)"
| "netstack_receive_udp_low stale (Suc polls) port buffer s =
     (let (s, f) = nic_recv s in
      case udp_payload stale port f of
        None \<Rightarrow> netstack_receive_udp_low stale polls port buffer s
      | Some (off, udp_pl, src_ip, src_port) \<Rightarrow>
          let copy = min udp_pl (length buffer)
          in (s, take copy (drop off f) @ drop copy buffer, int copy, Some (src_ip, src_port)))"

subsection \<open>DHCP\<close>

definition rng32 :: "net \<Rightarrow> net \<times> u32" where
  "rng32 s = (let v = seed s * 1664525 + 1013904223 in (s\<lparr>seed := v\<rparr>, v))"

definition dhcp_opt_put_u8 :: "u8 \<Rightarrow> u8 \<Rightarrow> u8 list" where
  "dhcp_opt_put_u8 code v = [code, 1, v]"

definition dhcp_opt_put_u32 :: "u8 \<Rightarrow> u32 \<Rightarrow> u8 list" where
  "dhcp_opt_put_u32 code v_host = [code, 4] @ bytes32 (htonl v_host)"

definition dhcp_opt_put_list :: "u8 \<Rightarrow> u8 list \<Rightarrow> u8 list" where
  "dhcp_opt_put_list code lst = [code, of_nat (length lst)] @ lst"

text \<open>The values the options of a message set, in network byte order; what is absent keeps its value.\<close>

record dhcp_opts =
  server_id_n :: u32
  subnet_n :: u32
  router_n :: u32
  dns_n :: u32
  msgtype :: u8

definition bytes_word32 :: "u8 list \<Rightarrow> u32" where
  "bytes_word32 bs = word32 (bs ! 0) (bs ! 1) (bs ! 2) (bs ! 3)"

definition dhcp_option :: "u8 \<Rightarrow> nat \<Rightarrow> u8 list \<Rightarrow> dhcp_opts \<Rightarrow> dhcp_opts" where
  "dhcp_option code len opt d =
     (if code = 53 then (if len \<ge> 1 then d\<lparr>msgtype := opt ! 0\<rparr> else d)
      else if code = 54 then (if len = 4 then d\<lparr>server_id_n := bytes_word32 opt\<rparr> else d)
      else if code = 1 then (if len = 4 then d\<lparr>subnet_n := bytes_word32 opt\<rparr> else d)
      else if code = 3 then (if len \<ge> 4 then d\<lparr>router_n := bytes_word32 opt\<rparr> else d)
      else if code = 6 then (if len \<ge> 4 then d\<lparr>dns_n := bytes_word32 opt\<rparr> else d)
      else d)"

function dhcp_opts_loop :: "u8 list \<Rightarrow> dhcp_opts \<Rightarrow> dhcp_opts" where
  "dhcp_opts_loop [] d = d"
| "dhcp_opts_loop (code # opt) d =
     (if code = 255 then d
      else if code = 0 then dhcp_opts_loop opt d
      else case opt of
             [] \<Rightarrow> d
           | len # opt \<Rightarrow>
               if unat len > length opt then d
               else dhcp_opts_loop (drop (unat len) opt) (dhcp_option code (unat len) opt d))"
  by pat_completeness auto
termination
  by (relation "measure (\<lambda>(opt, d). length opt)") auto

definition dhcp_parse_opts :: "u8 list \<Rightarrow> dhcp_opts \<Rightarrow> dhcp_opts option" where
  "dhcp_parse_opts pkt d =
     (let options = take 312 (drop 236 pkt) in
      if ntohl (bytes_word32 options) \<noteq> 0x63825363 then None
      else Some (dhcp_opts_loop (drop 4 options) d))"

text \<open>A client message: the fixed part and the options, padded with zeros to its 548 bytes.\<close>

definition dhcp_packet :: "u32 \<Rightarrow> u8 list \<Rightarrow> u8 list \<Rightarrow> u8 list" where
  "dhcp_packet xid mac options =
     (let p = [1, 1, 6, 0] @ bytes32 xid @ bytes16 0 @ bytes16 (htons 0x8000) @ replicate 16 0
            @ mac @ replicate 10 0 @ replicate 64 0 @ replicate 128 0
            @ bytes32 (htonl 0x63825363) @ options
      in p @ replicate (548 - length p) 0)"

definition discover_options :: "u8 list" where
  "discover_options = dhcp_opt_put_u8 53 1 @ dhcp_opt_put_list 55 [1, 3, 6, 51, 54] @ [255]"

definition request_options :: "u32 \<Rightarrow> u32 \<Rightarrow> u8 list" where
  "request_options yi_h sid_h =
     dhcp_opt_put_u8 53 3 @ dhcp_opt_put_u32 50 yi_h @ dhcp_opt_put_u32 54 sid_h @ [255]"

definition no_opts :: dhcp_opts where
  "no_opts = \<lparr>server_id_n = 0, subnet_n = 0, router_n = 0, dns_n = 0, msgtype = 0\<rparr>"

definition field32 :: "u8 list \<Rightarrow> nat \<Rightarrow> u32" where
  "field32 pkt off = bytes_word32 (drop off pkt)"

text \<open>
  \<open>stale\<close> is the packet buffer of the receive function and \<open>junk\<close> the structure the
  answer is received into, both as they are found on the stack. The result is the
  address, mask, router and name server in host order.
\<close>

definition dhcp_discover_request ::
  "u8 list \<Rightarrow> u8 list \<Rightarrow> net \<Rightarrow> net \<times> (u32 \<times> u32 \<times> u32 \<times> u32) option" where
  "dhcp_discover_request stale junk s =
     (let (s, xid) = rng32 s;
          (s, r) = netstack_send_udp_low BROADCAST 68 67 (dhcp_packet xid (mac_address s) discover_options) False s
      in if r \<noteq> 0 then (s, None)
         else let (s, offer, r, src) = netstack_receive_udp_low stale 512 68 junk s
         in if r \<le> 0 then (s, None)
         else if offer ! 0 \<noteq> 2 \<or> field32 offer 4 \<noteq> xid then (s, None)
         else (case dhcp_parse_opts offer no_opts of
           None \<Rightarrow> (s, None)
         | Some d \<Rightarrow>
             if msgtype d \<noteq> 2 then (s, None)
             else let (s, r) = netstack_send_udp_low BROADCAST 68 67
                      (dhcp_packet xid (mac_address s)
                        (request_options (ntohl (field32 offer 16)) (ntohl (server_id_n d)))) False s
             in if r \<noteq> 0 then (s, None)
             else let (s, ack, r, src) = netstack_receive_udp_low stale 512 68 junk s
             in if r \<le> 0 \<or> field32 ack 4 \<noteq> xid then (s, None)
             else (case dhcp_parse_opts ack no_opts of
               None \<Rightarrow> (s, None)
             | Some d \<Rightarrow>
                 if msgtype d \<noteq> 5 then (s, None)
                 else (s, Some (ntohl (field32 ack 16), ntohl (subnet_n d), ntohl (router_n d), ntohl (dns_n d))))))"

subsection \<open>Configuration\<close>

text \<open>\<open>card_mac\<close> is what the card reports as its address.\<close>

definition netstack_init :: "u8 list \<Rightarrow> net \<Rightarrow> net" where
  "netstack_init card_mac s =
     s\<lparr>arp_cache := map (\<lambda>e. e\<lparr>valid := False\<rparr>) (arp_cache s),
       mac_address := (if nic_up s then card_mac else replicate 6 0),
       ip_address := 0, netmask := 0, gateway := 0, dns_server := 0\<rparr>"

definition netstack_set_config :: "u32 \<Rightarrow> u32 \<Rightarrow> u32 \<Rightarrow> net \<Rightarrow> net" where
  "netstack_set_config ip nmask gw s = s\<lparr>ip_address := ip, netmask := nmask, gateway := gw\<rparr>"

definition netstack_get_ip_address :: "u8 list \<Rightarrow> u8 list \<Rightarrow> net \<Rightarrow> net \<times> u32" where
  "netstack_get_ip_address stale junk s =
     (if ip_address s = 0
      then let (s, r) = dhcp_discover_request stale junk s;
               s = (case r of None \<Rightarrow> s
                    | Some (ip, nmask, gw, dns) \<Rightarrow>
                        s\<lparr>ip_address := ip, netmask := nmask, gateway := gw, dns_server := dns\<rparr>)
           in (s, ip_address s)
      else (s, ip_address s))"

end
