(* ===== verification/Netstack_Correct.thy ===== *)
theory Netstack_Correct
  imports Netstack
begin

text \<open>
  Correctness of the network stack: the text form of addresses, the Internet
  checksum, the ARP cache as an instance of a cache interface, the answers to ARP and
  echo requests, the invariant of the stack and the options of DHCP.
\<close>

subsection \<open>Byte order\<close>

lemma htons_htons [simp]: "htons (htons x) = x"
  by (rule bit_word_eqI) (auto simp: htons_def bit_or_iff bit_push_bit_iff bit_drop_bit_eq dest: bit_imp_le_length)

lemma ntohs_htons [simp]: "ntohs (htons x) = x"
  by (simp add: ntohs_def)

lemma byte_masks:
  "(0x000000FF :: u32) = mask 8" "(0x0000FF00 :: u32) = push_bit 8 (mask 8)"
  "(0x00FF0000 :: u32) = push_bit 16 (mask 8)" "(0xFF000000 :: u32) = push_bit 24 (mask 8)"
  by (simp_all add: mask_eq_exp_minus_1)

lemma bit_htonl:
  "bit (htonl x) n \<longleftrightarrow> (if n < 8 then bit x (n + 24) else if n < 16 then bit x (n + 8)
     else if n < 24 then bit x (n - 8) else n < 32 \<and> bit x (n - 24))"
proof -
  have "bit x (n + 24) \<Longrightarrow> n < 8" using bit_imp_le_length [of x "n + 24"] by simp
  then show ?thesis
    unfolding htonl_def byte_masks
    by (auto simp: bit_or_iff bit_and_iff bit_push_bit_iff bit_drop_bit_eq bit_mask_iff add.commute)
qed

lemma htonl_htonl [simp]: "htonl (htonl x) = x"
  by (rule bit_word_eqI) (auto simp: bit_htonl dest: bit_imp_le_length)

lemma ntohl_htonl [simp]: "ntohl (htonl x) = x"
  by (simp add: ntohl_def)

lemma length_bytes [simp]: "length (bytes16 v) = 2" "length (bytes32 v') = 4"
  by (simp_all add: bytes16_def bytes32_def)

lemma load16_bytes: "bytes_at m p (bytes16 v) \<Longrightarrow> load16 m p = v"
  by (simp add: bytes16_def load16_def word16_bytes)

lemma load32_bytes: "bytes_at m p (bytes32 v) \<Longrightarrow> load32 m p = v"
  by (simp add: bytes32_def load32_def word32_bytes add.assoc)

lemma mem_bytes_at: "bytes_at m p bs \<Longrightarrow> mem_bytes m p (length bs) = bs"
  by (auto simp: mem_bytes_def bytes_at_nth intro: nth_equalityI)

lemma length_mem_bytes [simp]: "length (mem_bytes m p n) = n"
  by (simp add: mem_bytes_def)

subsection \<open>The Internet checksum\<close>

text \<open>The sum of the 16-bit words of the data, most significant byte first.\<close>

fun words_sum :: "u8 list \<Rightarrow> nat" where
  "words_sum (a # b # bs) = 256 * unat a + unat b + words_sum bs"
| "words_sum [a] = 256 * unat a"
| "words_sum [] = 0"

text \<open>One's complement addition folds the carries: residues modulo 65535, with 65535 for a sum that is not 0.\<close>

definition ones_fold :: "nat \<Rightarrow> nat" where
  "ones_fold n = (if n = 0 then 0 else if n mod 65535 = 0 then 65535 else n mod 65535)"

lemma word_be: "unat (push_bit 8 (ucast (a :: u8)) OR ucast (b :: u8) :: u32) = 256 * unat a + unat b"
proof -
  have d: "push_bit 8 (ucast a :: u32) AND ucast b = 0"
    by (rule bit_word_eqI) (auto simp: bit_and_iff bit_push_bit_iff bit_unsigned_iff dest: bit_imp_le_length)
  have "push_bit 8 (ucast a :: u32) OR ucast b = push_bit 8 (ucast a) + ucast b"
    using d by (simp add: disjunctive_add_eq_or)
  also have "\<dots> = of_nat (256 * unat a + unat b)"
    by (simp add: push_bit_eq_mult)
  finally have e: "push_bit 8 (ucast a :: u32) OR ucast b = of_nat (256 * unat a + unat b)" .
  show ?thesis
    using unat_lt_8 [of a] unat_lt_8 [of b] unfolding e by (intro unat_of_nat_lt) simp
qed

lemma word_be_odd: "unat (push_bit 8 (ucast (a :: u8)) :: u32) = 256 * unat a"
  using word_be [of a 0] by simp

lemma words_sum_bound: "words_sum bs \<le> 65535 * ((length bs + 1) div 2)"
proof (induction bs rule: words_sum.induct)
  case (1 a b bs)
  then show ?case using unat_lt_8 [of a] unat_lt_8 [of b] by simp
next
  case (2 a)
  then show ?case using unat_lt_8 [of a] by simp
qed simp

lemma checksum_accumulate_sum:
  "unat acc + words_sum bs < 4294967296 \<Longrightarrow> unat (checksum_accumulate bs acc) = unat acc + words_sum bs"
proof (induction bs acc rule: checksum_accumulate.induct)
  case (1 a b bs acc)
  have "unat (acc + (push_bit 8 (ucast a) OR ucast b)) = unat acc + (256 * unat a + unat b)"
    using 1(2) unat_plus_lt [of acc "push_bit 8 (ucast a) OR ucast b"] by (simp add: word_be)
  with 1 show ?case by simp
next
  case (2 a acc)
  then show ?case using unat_plus_lt [of acc "push_bit 8 (ucast a)"] by (simp add: word_be_odd)
qed simp

lemma fold_sum_unat: "unat (fold_sum acc) = ones_fold (unat acc)"
proof (induction acc rule: fold_sum.induct)
  case (1 acc)
  have m: "(acc AND 0xFFFF) = take_bit 16 acc" by (simp add: take_bit_eq_mask mask_numeral)
  have a: "unat (take_bit 16 acc) = unat acc mod 65536" by (simp add: take_bit_eq_mod unat_mod)
  have b: "unat (drop_bit 16 acc) = unat acc div 65536" by (simp add: drop_bit_eq_div unat_div)
  have lt: "unat acc < 65536 * 65536" using unat_lt_32 [of acc] by simp
  then have q: "unat acc div 65536 < 65536" by (simp add: less_mult_imp_div_less)
  have s: "unat (take_bit 16 acc + drop_bit 16 acc) = unat acc mod 65536 + unat acc div 65536"
    using q by (simp add: unat_word_ariths a b)
  have split: "unat acc = 65535 * (unat acc div 65536) + (unat acc mod 65536 + unat acc div 65536)"
    using div_mult_mod_eq [of "unat acc" 65536] by linarith
  have cong: "unat acc mod 65535 = (unat acc mod 65536 + unat acc div 65536) mod 65535"
    using mod_mult_self4 [of 65535 "unat acc div 65536" "unat acc mod 65536 + unat acc div 65536"]
    by (simp only: split [symmetric])
  show ?case
  proof (cases "drop_bit 16 acc = 0")
    case True
    then have lt16: "unat acc < 65536" using b by (metis unat_0 div_eq_0_iff zero_neq_numeral)
    have "unat acc = ones_fold (unat acc)"
    proof (cases "unat acc = 65535")
      case False
      with lt16 have "unat acc < 65535" by simp
      then show ?thesis by (simp add: ones_fold_def)
    qed (simp add: ones_fold_def)
    with True show ?thesis by (subst fold_sum.simps) simp
  next
    case False
    then have nz: "0 < unat acc div 65536" using b by (metis gr_zeroI unat_eq_zero)
    then have "0 < unat acc" by (metis div_0 gr0I less_irrefl)
    with nz have "ones_fold (unat acc mod 65536 + unat acc div 65536) = ones_fold (unat acc)"
      unfolding ones_fold_def cong by auto
    with False 1 show ?thesis by (subst fold_sum.simps) (simp add: m s)
  qed
qed

lemma ones_fold_lt: "ones_fold n < 65536"
  using mod_less_divisor [of 65535 n] by (simp add: ones_fold_def del: mod_less_divisor)

lemma unat_not16: "unat (NOT x :: u16) = 65535 - unat x"
proof -
  have "NOT x = - 1 - x" by (simp add: not_eq_complement)
  then show ?thesis by (simp add: unat_sub unsigned_minus_1_eq_mask mask_eq_exp_minus_1)
qed

lemma fold_checksum_unat: "unat (fold_checksum acc) = 65535 - ones_fold (unat acc)"
proof -
  have "ucast (NOT (fold_sum acc)) = (NOT (ucast (fold_sum acc)) :: u16)"
    by (rule bit_word_eqI) (simp add: bit_unsigned_iff bit_not_iff)
  moreover have "unat (ucast (fold_sum acc) :: u16) = unat (fold_sum acc)"
    using ones_fold_lt [of "unat acc"] by (simp add: fold_sum_unat unsigned_ucast_eq take_bit_nat_eq_self)
  ultimately show ?thesis by (simp add: fold_checksum_def unat_not16 fold_sum_unat)
qed

lemma ip_checksum_unat:
  assumes "length bs \<le> 65536"
  shows "unat (ip_checksum bs) = 65535 - ones_fold (words_sum bs)"
proof -
  have "words_sum bs < 4294967296"
    using words_sum_bound [of bs] assms by (rule_tac le_less_trans) auto
  then show ?thesis
    unfolding ip_checksum_def using checksum_accumulate_sum [of 0 bs] by (simp add: fold_checksum_unat)
qed

lemma words_sum_append: "even (length xs) \<Longrightarrow> words_sum (xs @ ys) = words_sum xs + words_sum ys"
  by (induction xs rule: words_sum.induct) auto

lemma ones_fold_complement:
  assumes "c = 65535 - ones_fold n"
  shows "ones_fold (n + c) = 65535"
proof (cases "n mod 65535 = 0")
  case True
  then show ?thesis using assms by (cases "n = 0") (auto simp: ones_fold_def)
next
  case False
  then have "n \<noteq> 0" by auto
  obtain q r where n: "n = 65535 * q + r" "r < 65535" "r = n mod 65535"
    by (metis mod_less_divisor mult_div_mod_eq zero_less_numeral)
  have "c = 65535 - r" using assms False \<open>n \<noteq> 0\<close> n(3) by (simp add: ones_fold_def)
  then have "n + c = 65535 * Suc q" using n(1,2) by simp
  then show ?thesis by (simp add: ones_fold_def del: mult_Suc_right)
qed

lemma words_sum_word: "words_sum [ucast (drop_bit 8 c), ucast (c :: u16)] = unat c"
proof -
  have "unat (ucast (drop_bit 8 c) :: u8) = unat c div 256"
    using unat_lt_16 [of c] by (simp add: unsigned_ucast_eq drop_bit_eq_div take_bit_nat_eq_self unat_div)
  moreover have "unat (ucast c :: u8) = unat c mod 256"
    by (simp add: unsigned_ucast_eq take_bit_eq_mod)
  ultimately show ?thesis by simp
qed

text \<open>
  C24. The checksum is the Internet checksum: its complement is the one's complement sum
  of the 16-bit words of the data (an odd last byte counting as the high byte), and data
  with its checksum appended, most significant byte first, sums up to checksum 0. The
  folding loop terminates and no carry is lost, for all data of up to 64 KB.
\<close>

theorem ip_checksum_correct:
  assumes "length data \<le> 65534"
  shows "unat (NOT (ip_checksum data)) = ones_fold (words_sum data)
    \<and> (even (length data) \<and> c = ip_checksum data \<longrightarrow>
         ip_checksum (data @ [ucast (drop_bit 8 c), ucast c]) = 0)"
proof (intro conjI impI)
  show "unat (NOT (ip_checksum data)) = ones_fold (words_sum data)"
    using assms ones_fold_lt [of "words_sum data"] by (simp add: unat_not16 ip_checksum_unat)
  assume "even (length data) \<and> c = ip_checksum data"
  then have "even (length data)" and c: "c = ip_checksum data" by simp_all
  then have "words_sum (data @ [ucast (drop_bit 8 c), ucast c]) = words_sum data + unat c"
    by (simp only: words_sum_append words_sum_word)
  moreover have "unat c = 65535 - ones_fold (words_sum data)"
    unfolding c using assms by (intro ip_checksum_unat) simp
  ultimately have "unat (ip_checksum (data @ [ucast (drop_bit 8 c), ucast c])) = 0"
    using assms ones_fold_complement [of "unat c" "words_sum data"] by (subst ip_checksum_unat) simp_all
  then show "ip_checksum (data @ [ucast (drop_bit 8 c), ucast c]) = 0" by (simp add: unat_eq_zero)
qed

theorem ip_checksum_correct_witness:
  "unat (NOT (ip_checksum [0x45, 0, 0, 0x54])) = ones_fold (words_sum [0x45, 0, 0, 0x54])
   \<and> ip_checksum ([0x45, 0, 0, 0x54] @ [0xBA, 0xAB]) = 0"
proof -
  have c: "0xBAAB = ip_checksum [0x45, 0, 0, 0x54]" by code_simp
  have b: "ucast (drop_bit 8 (0xBAAB :: u16)) = (0xBA :: u8)" "ucast (0xBAAB :: u16) = (0xAB :: u8)"
    by code_simp+
  have "ip_checksum ([0x45, 0, 0, 0x54] @ [0xBA, 0xAB]) = 0"
    using ip_checksum_correct [of "[0x45, 0, 0, 0x54]" "0xBAAB"] c unfolding b by simp
  then show ?thesis using ip_checksum_correct [of "[0x45, 0, 0, 0x54]"] by simp
qed

text \<open>
  The headers the stack builds carry the checksum in the byte order of the processor, and
  a received header is compared the same way: a header of the stack does not verify by
  the rule above, and one that does is dropped.
\<close>

lemma header_checksum_byte_order:
  "ip_checksum (ip_header 84 0 1 0xC0A80001 0xC0A800C7) \<noteq> 0"
  "let h = [0x45, 0, 0, 84, 0, 0, 0, 0, 64, 1, 0xF8, 0x90, 192, 168, 0, 1, 192, 168, 0, 199]
   in ip_checksum h = 0 \<and> \<not> header_checksum_ok (write_bytes 0x1000 h (\<lambda>_. 0)) 0x1000 20"
  by code_simp+

subsection \<open>Addresses as text\<close>

definition dec_ok :: "u8 \<Rightarrow> bool" where
  "dec_ok v = (let ds = map (\<lambda>c. char_int c - 48) (u8_to_dec v); n = int (unat v) in
     (\<forall>d \<in> set ds. 0 \<le> d \<and> d \<le> 9) \<and>
     (case ds of [a] \<Rightarrow> a = n | [a, b] \<Rightarrow> a * 10 + b = n
      | [a, b, c] \<Rightarrow> (a * 10 + b) * 10 + c = n \<and> a * 10 + b \<le> 255 | _ \<Rightarrow> False))"

lemma dec_ok_all: "\<forall>n \<in> set [0..<256]. dec_ok (of_nat n)"
  by code_simp

lemma dec_ok: "dec_ok v"
proof -
  have "unat v \<in> set [0..<256]" using unat_lt_8 [of v] by (simp del: upt_rec_numeral)
  with dec_ok_all have "dec_ok (of_nat (unat v))" by blast
  then show ?thesis by simp
qed

lemma parse_digit:
  assumes "0 \<le> d" "d \<le> 9" "char_int c - 48 = d"
  shows "parse_ipv4_loop (c # cs) out part dots =
    (if part < 0 then parse_ipv4_loop cs out d dots
     else if part * 10 + d > 255 then 0 else parse_ipv4_loop cs out (part * 10 + d) dots)"
proof -
  have "char_int c = d + 48" using assms(3) by simp
  then show ?thesis using assms(1,2) by simp
qed

lemma parse_octet:
  "parse_ipv4_loop (u8_to_dec v @ rest) out (- 1) dots = parse_ipv4_loop rest out (int (unat v)) dots"
proof -
  define n where "n = int (unat v)"
  have n: "n < 256" using unat_lt_8 [of v] unfolding n_def by linarith
  define ds where "ds = map (\<lambda>c. char_int c - 48) (u8_to_dec v)"
  have ok: "\<forall>d \<in> set ds. 0 \<le> d \<and> d \<le> 9"
    "case ds of [a] \<Rightarrow> a = n | [a, b] \<Rightarrow> a * 10 + b = n
      | [a, b, c] \<Rightarrow> (a * 10 + b) * 10 + c = n \<and> a * 10 + b \<le> 255 | _ \<Rightarrow> False"
    using dec_ok [of v] unfolding dec_ok_def Let_def ds_def [symmetric] n_def [symmetric] by blast+
  consider (1) a where "ds = [a]" | (2) a b where "ds = [a, b]" | (3) a b c where "ds = [a, b, c]"
    using ok(2) by (auto split: list.splits)
  then have "parse_ipv4_loop (u8_to_dec v @ rest) out (- 1) dots = parse_ipv4_loop rest out n dots"
  proof cases
    case 1
    then obtain x where "u8_to_dec v = [x]" "char_int x - 48 = a" by (auto simp: ds_def)
    then show ?thesis using ok 1 parse_digit [of a x] by simp
  next
    case 2
    then obtain x y where d: "u8_to_dec v = [x, y]" "char_int x - 48 = a" "char_int y - 48 = b"
      by (auto simp: ds_def map_eq_Cons_conv)
    then show ?thesis using ok 2 n parse_digit [of a x] parse_digit [of b y] by simp
  next
    case 3
    then obtain x y z where d: "u8_to_dec v = [x, y, z]" "char_int x - 48 = a" "char_int y - 48 = b"
        "char_int z - 48 = c"
      by (auto simp: ds_def map_eq_Cons_conv)
    then show ?thesis
      using ok 3 n parse_digit [of a x] parse_digit [of b y] parse_digit [of c z] by simp
  qed
  then show ?thesis by (simp only: n_def)
qed

lemma parse_dot:
  "0 \<le> part \<Longrightarrow> dots < 3 \<Longrightarrow> parse_ipv4_loop (46 # cs) out part dots
     = parse_ipv4_loop cs (push_bit 8 out OR word_of_int part) (- 1) (dots + 1)"
  by (simp add: char_int_def)

lemma octets_word:
  fixes ip :: u32
  shows "push_bit 8 (push_bit 8 (push_bit 8 (push_bit 8 0 OR ucast (ucast (drop_bit 24 ip AND 0xFF) :: u8))
      OR ucast (ucast (drop_bit 16 ip AND 0xFF) :: u8))
      OR ucast (ucast (drop_bit 8 ip AND 0xFF) :: u8))
      OR ucast (ucast (ip AND 0xFF) :: u8) = ip" (is "?w = ip")
proof (rule bit_word_eqI)
  fix n assume "n < LENGTH(32)"
  then have n: "n < 32" by simp
  consider "n < 8" | "8 \<le> n" "n < 16" | "16 \<le> n" "n < 24" | "24 \<le> n" by linarith
  then show "bit ?w n \<longleftrightarrow> bit ip n"
    unfolding byte_masks
    by cases (use n in \<open>auto simp: bit_or_iff bit_push_bit_iff bit_unsigned_iff bit_and_iff bit_mask_iff
      bit_drop_bit_eq\<close>)
qed

lemma word_of_octet: "word_of_int (int (unat v)) = (ucast (v :: u8) :: u32)"
  by simp

lemma parse_last:
  "parse_ipv4_loop (u8_to_dec v) out (- 1) 3 = push_bit 8 out OR ucast v"
  using parse_octet [of v "[]" out 3] by (simp only: append_Nil2) simp

text \<open>
  Parsing inverts printing: \<^verbatim>\<open>parse_ipv4\<close> reads back every address that \<^verbatim>\<open>format_ipv4\<close>
  prints, without overflow of an octet.
\<close>

theorem parse_format_ipv4: "parse_ipv4 (Some (format_ipv4 ip)) = ip"
proof -
  have d: "parse_ipv4_loop (46 # cs) out (int (unat v)) k
      = parse_ipv4_loop cs (push_bit 8 out OR ucast v) (- 1) (k + 1)" if "k < 3"
    for cs out k and v :: u8
    using that parse_dot [of "int (unat v)" k cs out] by simp
  have ds: "parse_ipv4_loop (46 # cs) out (int (unat v)) 0 = parse_ipv4_loop cs (push_bit 8 out OR ucast v) (- 1) 1"
    "parse_ipv4_loop (46 # cs) out (int (unat v)) 1 = parse_ipv4_loop cs (push_bit 8 out OR ucast v) (- 1) 2"
    "parse_ipv4_loop (46 # cs) out (int (unat v)) 2 = parse_ipv4_loop cs (push_bit 8 out OR ucast v) (- 1) 3"
    for cs out and v :: u8
    using d [of 0 cs out v] d [of 1 cs out v] d [of 2 cs out v] by (simp_all only: one_add_one) simp_all
  show ?thesis
    unfolding parse_ipv4_def format_ipv4_def option.case append.assoc
    by (simp only: parse_octet append_Cons append_Nil ds parse_last octets_word)
qed

subsection \<open>The ARP cache\<close>

text \<open>What the senders expect of a cache of bounded size.\<close>

locale address_cache =
  fixes lookup :: "'k \<Rightarrow> 's \<Rightarrow> 'v option"
    and add :: "'k \<Rightarrow> 'v \<Rightarrow> 's \<Rightarrow> 's"
    and inv :: "'s \<Rightarrow> bool"
    and room :: "'s \<Rightarrow> nat"
    and ok :: "'v \<Rightarrow> bool"
  assumes inv_add: "inv s \<Longrightarrow> ok v \<Longrightarrow> inv (add k v s)"
    and lookup_same: "inv s \<Longrightarrow> ok v \<Longrightarrow> lookup k (add k v s) = Some v"
    and lookup_other: "inv s \<Longrightarrow> ok v \<Longrightarrow> lookup k s \<noteq> None \<or> 0 < room s \<Longrightarrow> k' \<noteq> k \<Longrightarrow>
      lookup k' (add k v s) = lookup k' s"
    and room_add: "inv s \<Longrightarrow> ok v \<Longrightarrow> room s \<le> Suc (room (add k v s))"
begin

fun learn :: "('k \<times> 'v) list \<Rightarrow> 's \<Rightarrow> 's" where
  "learn [] s = s"
| "learn ((k, v) # kvs) s = learn kvs (add k v s)"

text \<open>While there is room, nothing that was learnt is forgotten.\<close>

lemma learn_lookup:
  "inv s \<Longrightarrow> \<forall>(k, v) \<in> set kvs. ok v \<Longrightarrow> length kvs \<le> room s \<Longrightarrow>
   inv (learn kvs s) \<and> lookup k (learn kvs s)
     = (case map_of (rev kvs) k of None \<Rightarrow> lookup k s | Some v \<Rightarrow> Some v)"
proof (induction kvs arbitrary: s)
  case (Cons kv kvs)
  obtain k1 v1 where kv: "kv = (k1, v1)" by fastforce
  have s1: "inv (add k1 v1 s)" "length kvs \<le> room (add k1 v1 s)" "0 < room s"
    using Cons.prems kv inv_add [of s v1 k1] room_add [of s v1 k1] by auto
  have "lookup k (add k1 v1 s) = (if k = k1 then Some v1 else lookup k s)"
    using Cons.prems kv lookup_same lookup_other s1(3) by auto
  then show ?case
    using Cons.IH [OF s1(1) _ s1(2)] Cons.prems kv
    by (auto simp: map_add_def split: option.splits)
qed simp

end

definition arp_ok :: "arp_cache_entry list \<Rightarrow> bool" where
  "arp_ok es \<longleftrightarrow> length es = ARP_CACHE_SIZE \<and> distinct (map aip (filter valid es))
     \<and> (\<forall>e \<in> set es. valid e \<longrightarrow> length (amac e) = 6)"

definition net_inv :: "net \<Rightarrow> bool" where
  "net_inv s \<longleftrightarrow> arp_ok (arp_cache s) \<and> length (mac_address s) = 6"

definition arp_room :: "net \<Rightarrow> nat" where
  "arp_room s = length (filter (\<lambda>e. \<not> valid e) (arp_cache s))"

text \<open>The slot chosen: a matching entry, else the first free one.\<close>

lemma arp_slot_cases:
  "case arp_slot es ip i slot of
     None \<Rightarrow> slot = None \<and> (\<forall>e \<in> set es. valid e \<and> aip e \<noteq> ip)
   | Some j \<Rightarrow>
      (i \<le> j \<and> j < i + length es \<and> valid (es ! (j - i)) \<and> aip (es ! (j - i)) = ip)
      \<or> (\<forall>e \<in> set es. valid e \<longrightarrow> aip e \<noteq> ip)
        \<and> (slot = Some j \<or> slot = None \<and> i \<le> j \<and> j < i + length es \<and> \<not> valid (es ! (j - i)))"
proof (induction es arbitrary: i slot)
  case (Cons e es)
  let ?slot = "if \<not> valid e \<and> slot = None then Some i else slot"
  show ?case
  proof (cases "valid e \<and> aip e = ip")
    case False
    then have r: "arp_slot (e # es) ip i slot = arp_slot es ip (Suc i) ?slot" using False by auto
    have nth: "(e # es) ! (j - i) = es ! (j - Suc i)" if "Suc i \<le> j" for j
      using that by (simp add: nth_Cons')
    show ?thesis
    proof (cases "arp_slot es ip (Suc i) ?slot")
      case None
      then show ?thesis using Cons.IH [of ?slot "Suc i"] False unfolding r
        by (auto split: if_splits)
    next
      case (Some j)
      then show ?thesis using Cons.IH [of ?slot "Suc i"] False nth [of j] unfolding r
        by (auto split: if_splits)
    qed
  qed simp
next
  case Nil
  show ?case by (cases slot) auto
qed

definition arp_index :: "u32 \<Rightarrow> arp_cache_entry list \<Rightarrow> nat" where
  "arp_index ip es = (case arp_slot es ip 0 None of None \<Rightarrow> 0 | Some i \<Rightarrow> i)"

lemma arp_index_cases:
  assumes "arp_ok es"
  shows "arp_index ip es < length es"
    and "valid (es ! arp_index ip es) \<and> aip (es ! arp_index ip es) = ip
      \<or> (\<forall>e \<in> set es. valid e \<longrightarrow> aip e \<noteq> ip)
        \<and> (\<not> valid (es ! arp_index ip es) \<or> (\<forall>e \<in> set es. valid e))"
proof -
  have "es \<noteq> []" using assms by (auto simp: arp_ok_def)
  then show "arp_index ip es < length es"
    and "valid (es ! arp_index ip es) \<and> aip (es ! arp_index ip es) = ip
      \<or> (\<forall>e \<in> set es. valid e \<longrightarrow> aip e \<noteq> ip)
        \<and> (\<not> valid (es ! arp_index ip es) \<or> (\<forall>e \<in> set es. valid e))"
    using arp_slot_cases [where es = es and ip = ip and i = 0 and slot = None]
    by (auto simp: arp_index_def split: option.splits)
qed

lemma arp_ok_update:
  assumes "arp_ok es" "length mac = 6"
  shows "arp_ok (es[arp_index ip es := \<lparr>aip = ip, amac = mac, timestamp = 0, valid = True\<rparr>])"
proof -
  let ?j = "arp_index ip es" and ?new = "\<lparr>aip = ip, amac = mac, timestamp = 0, valid = True\<rparr>"
  note j = arp_index_cases [OF assms(1), of ip]
  let ?A = "filter valid (take ?j es)" and ?B = "filter valid (drop (Suc ?j) es)"
  have d: "distinct (map aip (?A @ (if valid (es ! ?j) then [es ! ?j] else []) @ ?B))"
    using assms(1) filter_split_at(1) [OF j(1), of valid] by (simp add: arp_ok_def)
  have sub: "set ?A \<subseteq> set es" "set ?B \<subseteq> set es" "\<forall>e \<in> set ?A \<union> set ?B. valid e"
    by (auto dest: in_set_takeD in_set_dropD)
  have "ip \<notin> aip ` (set ?A \<union> set ?B)"
    using j(2)
  proof
    assume "valid (es ! ?j) \<and> aip (es ! ?j) = ip"
    then show ?thesis using d by auto
  next
    assume "(\<forall>e \<in> set es. valid e \<longrightarrow> aip e \<noteq> ip) \<and> (\<not> valid (es ! ?j) \<or> (\<forall>e \<in> set es. valid e))"
    then have "\<forall>e \<in> set ?A \<union> set ?B. aip e \<noteq> ip" using sub by blast
    then show ?thesis by blast
  qed
  then have "distinct (map aip (?A @ [?new] @ ?B))"
    using d by (auto split: if_splits)
  then have "distinct (map aip (filter valid (es[?j := ?new])))"
    by (simp only: filter_split_at(2) [OF j(1)]) simp
  moreover have "\<forall>e \<in> set (es[?j := ?new]). valid e \<longrightarrow> length (amac e) = 6"
    using assms set_update_subset_insert [of es ?j ?new] by (auto simp: arp_ok_def)
  ultimately show ?thesis using assms(1) by (simp add: arp_ok_def)
qed

lemma arp_lookup_iff:
  assumes "arp_ok (arp_cache s)"
  shows "arp_lookup ip s = Some v \<longleftrightarrow> (\<exists>e \<in> set (arp_cache s). valid e \<and> aip e = ip \<and> amac e = v)"
proof -
  have u: "e = e'" if "e \<in> set (arp_cache s)" "e' \<in> set (arp_cache s)" "valid e" "valid e'" "aip e = aip e'"
    for e e'
  proof -
    have "inj_on aip (set (filter valid (arp_cache s)))"
      using assms by (simp add: arp_ok_def distinct_map)
    then show ?thesis using that by (auto dest: inj_onD)
  qed
  show ?thesis
  proof (cases "find (\<lambda>e. valid e \<and> aip e = ip) (arp_cache s)")
    case None
    then have "\<not> (\<exists>e \<in> set (arp_cache s). valid e \<and> aip e = ip)" by (auto simp: find_None_iff)
    then show ?thesis by (auto simp: arp_lookup_def None)
  next
    case (Some e)
    then have "e \<in> set (arp_cache s)" "valid e" "aip e = ip"
      by (auto simp: find_Some_iff)
    then show ?thesis using Some u by (auto simp: arp_lookup_def)
  qed
qed

lemma arp_add_entry_cache:
  "arp_cache (arp_add_entry ip mac s) = (arp_cache s)[arp_index ip (arp_cache s) :=
     \<lparr>aip = ip, amac = mac, timestamp = 0, valid = True\<rparr>]"
  by (simp add: arp_add_entry_def arp_index_def Let_def)

lemma bex_update:
  assumes "j < length xs" "\<not> P x" "\<not> P (xs ! j)"
  shows "(\<exists>e \<in> set (xs[j := x]). P e) \<longleftrightarrow> (\<exists>e \<in> set xs. P e)"
proof -
  have "set xs = set (take j xs @ xs ! j # drop (Suc j) xs)" using assms(1) by (simp only: id_take_nth_drop [symmetric])
  then show ?thesis using assms by (auto simp: upd_conv_take_nth_drop)
qed

lemma option_eqI: "(\<And>v. x = Some v \<longleftrightarrow> y = Some v) \<Longrightarrow> x = y"
  by (cases x; cases y) auto

lemma arp_add_lookup_other:
  assumes "arp_ok (arp_cache s)" "length mac = 6" "ip' \<noteq> ip"
    and "\<not> valid (arp_cache s ! arp_index ip (arp_cache s)) \<or> aip (arp_cache s ! arp_index ip (arp_cache s)) \<noteq> ip'"
  shows "arp_lookup ip' (arp_add_entry ip mac s) = arp_lookup ip' s"
proof (rule option_eqI)
  fix v
  let ?es = "arp_cache s" let ?j = "arp_index ip ?es"
  let ?new = "\<lparr>aip = ip, amac = mac, timestamp = 0, valid = True\<rparr>"
  have lt: "?j < length ?es" by (rule arp_index_cases(1) [OF assms(1)])
  have "(\<exists>e \<in> set (?es[?j := ?new]). valid e \<and> aip e = ip' \<and> amac e = v)
      \<longleftrightarrow> (\<exists>e \<in> set ?es. valid e \<and> aip e = ip' \<and> amac e = v)"
    using assms(3,4) by (intro bex_update [OF lt]) auto
  then show "arp_lookup ip' (arp_add_entry ip mac s) = Some v \<longleftrightarrow> arp_lookup ip' s = Some v"
    using arp_lookup_iff [of "arp_add_entry ip mac s" ip' v] arp_lookup_iff [OF assms(1), of ip' v]
      arp_ok_update [OF assms(1,2), of ip] by (simp add: arp_add_entry_cache)
qed

lemma arp_add_lookup_same:
  assumes "arp_ok (arp_cache s)" "length mac = 6"
  shows "arp_lookup ip (arp_add_entry ip mac s) = Some mac"
proof -
  let ?new = "\<lparr>aip = ip, amac = mac, timestamp = 0, valid = True\<rparr>"
  have "?new \<in> set (arp_cache (arp_add_entry ip mac s))"
    using arp_index_cases(1) [OF assms(1), of ip] by (simp add: arp_add_entry_cache set_update_memI)
  then show ?thesis
    using arp_lookup_iff [of "arp_add_entry ip mac s" ip mac] arp_ok_update [OF assms, of ip]
    by (force simp: arp_add_entry_cache)
qed

interpretation arp: address_cache arp_lookup arp_add_entry net_inv arp_room "\<lambda>mac. length mac = 6"
proof (unfold_locales, goal_cases)
  case (1 s v k)
  then show ?case using arp_ok_update [of "arp_cache s" v k]
    by (simp add: net_inv_def arp_add_entry_cache) (simp add: arp_add_entry_def Let_def)
next
  case (2 s v k)
  then show ?case by (simp add: net_inv_def arp_add_lookup_same)
next
  case (3 s v k k')
  then have ok: "arp_ok (arp_cache s)" by (simp add: net_inv_def)
  have "valid (arp_cache s ! arp_index k (arp_cache s)) \<Longrightarrow> aip (arp_cache s ! arp_index k (arp_cache s)) = k"
  proof -
    assume v: "valid (arp_cache s ! arp_index k (arp_cache s))"
    have "\<not> ((\<forall>e \<in> set (arp_cache s). valid e \<longrightarrow> aip e \<noteq> k) \<and> (\<forall>e \<in> set (arp_cache s). valid e))"
      using 3(3) arp_lookup_iff [OF ok, of k] by (auto simp: arp_room_def filter_empty_conv)
    with v arp_index_cases(2) [OF ok, of k] show ?thesis by blast
  qed
  then show ?case using 3 ok by (intro arp_add_lookup_other) auto
next
  case (4 s v k)
  then have j: "arp_index k (arp_cache s) < length (arp_cache s)"
    by (intro arp_index_cases(1)) (simp add: net_inv_def)
  show ?case
    unfolding arp_room_def arp_add_entry_cache filter_split_at(1) [OF j] filter_split_at(2) [OF j] by simp
qed

subsection \<open>Frames in memory\<close>

lemma length_headers [simp]:
  "length (eth_header d s' t) = length d + length s' + 2"
  "length (ip_header_with c l i p src dst) = 20" "length (ip_header l i p src dst) = 20"
  "length (icmp_with c ty i q data) = 8 + length data" "length (icmp_message ty i q data) = 8 + length data"
  "length (arp_packet oper smac sip tmac tip) = length smac + length tmac + 16"
  by (simp_all add: eth_header_def ip_header_with_def ip_header_def icmp_with_def icmp_message_def arp_packet_def)

lemma eth_header_fields:
  assumes "bytes_at m p (eth_header dst src t)" "length dst = 6" "length src = 6"
  shows "mem_bytes m p 6 = dst" "load16 m (p + 12) = htons t"
  using assms mem_bytes_at [of m p dst] load16_bytes [of m "p + 12" "htons t"]
  by (simp_all add: eth_header_def bytes_at_append add.assoc)

lemma word16_0 [simp]: "word16 0 0 = 0"
  by (simp add: word16_def)

lemma ntohs_0 [simp]: "ntohs 0 = 0"
  by (simp add: ntohs_def htons_def)

lemma ip_header_fields:
  assumes "bytes_at m q (ip_header_with c tlen idn prot src dst)"
  shows "m q = 0x45" "load16 m (q + 2) = htons tlen" "load16 m (q + 6) = 0" "m (q + 9) = prot"
    "load16 m (q + 10) = c" "load32 m (q + 12) = htonl src" "load32 m (q + 16) = htonl dst"
  using assms
  by (simp_all add: ip_header_with_def bytes16_def bytes32_def load16_def load32_def word16_bytes word32_bytes
      add.assoc)

lemma ip_header_checksum_ok:
  assumes "bytes_at m q (ip_header tlen idn prot src dst)"
  shows "header_checksum_ok m q 20"
proof -
  let ?c = "ip_checksum (ip_header_with 0 tlen idn prot src dst)"
  have h: "bytes_at m q (ip_header_with ?c tlen idn prot src dst)" using assms by (simp add: ip_header_def)
  have "bytes_at (m(q + 10 := 0, q + 11 := 0)) q (ip_header_with 0 tlen idn prot src dst)"
    using h by (simp add: ip_header_with_def bytes16_def bytes32_def add.assoc)
  from mem_bytes_at [OF this] have "mem_bytes (m(q + 10 := 0, q + 11 := 0)) q 20 = ip_header_with 0 tlen idn prot src dst"
    by simp
  then show ?thesis unfolding header_checksum_ok_def ip_header_fields(5) [OF h] by simp
qed

lemma icmp_fields:
  assumes "bytes_at m q (icmp_message ty idn sq data)"
  shows "m q = ty" "load16 m (q + 4) = htons idn" "load16 m (q + 6) = htons sq"
    "mem_bytes m (q + 8) (length data) = data"
  using assms mem_bytes_at [of m "q + 8" data]
  by (simp_all add: icmp_message_def icmp_with_def bytes16_def load16_def word16_bytes add.assoc)

text \<open>An ICMP message addressed to the stack reaches the ICMP handler.\<close>

lemma handle_ip_packet_icmp:
  assumes "bytes_at m q (ip_header tlen idn 1 src dst)" "dst = ip_address s" "20 \<le> unat len"
  shows "handle_ip_packet m q len s = handle_icmp_packet m (q + 20) (tlen - 20) src s"
proof -
  let ?c = "ip_checksum (ip_header_with 0 tlen idn 1 src dst)"
  have h: "bytes_at m q (ip_header_with ?c tlen idn 1 src dst)" using assms by (simp add: ip_header_def)
  note f = ip_header_fields [OF h]
  have ihl: "unat (m q AND 0x0F) * 4 = 20" unfolding f(1) by simp
  show ?thesis
    unfolding handle_ip_packet_def Let_def ihl f(2,3,4,6,7)
    using assms ip_header_checksum_ok [OF assms(1)] by simp
qed

lemma netstack_process_packet_ip:
  assumes "bytes_at m p (eth_header (mac_address s) smac 0x0800)" "length smac = 6" "length (mac_address s) = 6"
    and "14 \<le> unat len"
  shows "netstack_process_packet m p len s = handle_ip_packet m (p + 14) (len - 14) s"
  using eth_header_fields [OF assms(1)] assms(2,3,4)
  by (simp add: netstack_process_packet_def Let_def)

definition echo_frame :: "u8 list \<Rightarrow> u8 list \<Rightarrow> u8 \<Rightarrow> u16 \<Rightarrow> u16 \<Rightarrow> u32 \<Rightarrow> u32 \<Rightarrow> u16 \<Rightarrow> u16 \<Rightarrow> u8 list \<Rightarrow> u8 list" where
  "echo_frame dmac smac ty tlen idn src dst ident sq data =
     eth_header dmac smac 0x0800 @ ip_header tlen idn 1 src dst @ icmp_message ty ident sq data"

lemma arp_lookup_length: "net_inv s \<Longrightarrow> arp_lookup ip s = Some mac \<Longrightarrow> length mac = 6"
  using arp_lookup_iff [of s ip mac] by (auto simp: net_inv_def arp_ok_def)

text \<open>
  The stack answers itself: an echo request to the stack's address, with up to 1458 bytes of data
  and a header as the stack builds it (its check sum in the byte order of the processor,
  \<open>header_checksum_byte_order\<close>), is answered with exactly one frame, an echo reply
  to the sender with the identifier, the sequence number and the data of the request.
\<close>

theorem ping_answered:
  assumes "net_inv s" "nic_up s" "length smac = 6" "length data \<le> 1458"
    and "bytes_at m p (echo_frame (mac_address s) smac 8 (of_nat (28 + length data)) idn src (ip_address s) ident sq data)"
    and "src \<noteq> BROADCAST" "arp_lookup (next_hop src s) s = Some dmac"
  shows "netstack_process_packet m p (of_nat (42 + length data)) s = Some (s\<lparr>
    ip_identification := ip_identification s + 1,
    sent := sent s @ [echo_frame dmac (mac_address s) 0 (of_nat (28 + length data)) (ip_identification s)
                        (ip_address s) src ident sq data]\<rparr>)"
proof -
  let ?n = "length data"
  have mac: "length (mac_address s) = 6" using assms(1) by (simp add: net_inv_def)
  have b: "bytes_at m p (eth_header (mac_address s) smac 0x0800)"
    "bytes_at m (p + 14) (ip_header (of_nat (28 + ?n)) idn 1 src (ip_address s))"
    "bytes_at m (p + 14 + 20) (icmp_message 8 ident sq data)"
    using assms(5) mac assms(3) by (simp_all add: echo_frame_def bytes_at_append add.assoc)
  have u: "unat (of_nat (42 + ?n) :: u16) = 42 + ?n" "unat (of_nat (28 + ?n) :: u16) = 28 + ?n"
    "unat (of_nat (8 + ?n) :: u16) = 8 + ?n"
    using assms(4) by (intro unat_of_nat_lt; simp)+
  have l: "unat (of_nat (42 + ?n) - 14 :: u16) = 28 + ?n" "(of_nat (28 + ?n) - 20 :: u16) = of_nat (8 + ?n)"
    "unat (of_nat (8 + ?n) - 8 :: u16) = ?n"
    using u assms(4) by (simp_all add: unat_of_nat_lt)
  note f = icmp_fields [OF b(3)]
  have "netstack_process_packet m p (of_nat (42 + ?n)) s
      = handle_icmp_packet m (p + 14 + 20) (of_nat (8 + ?n)) src s"
    using netstack_process_packet_ip [OF b(1) assms(3) mac] handle_ip_packet_icmp [OF b(2) refl] u l
    by (simp only: l u)
  also have "\<dots> = icmp_send_echo_reply src ident sq data s"
    unfolding handle_icmp_packet_def u(3) l(3) f(2,3,4) using f(1) by simp
  finally show ?thesis
    using assms mac arp_lookup_length [OF assms(1,7)]
    by (simp add: icmp_send_echo_reply_def icmp_send_def resolve_def nic_send_def echo_frame_def Let_def)
qed


definition host :: net where
  "host = \<lparr>ip_address = 0xC0A80002, netmask = 0xFFFFFF00, gateway = 0xC0A80001, dns_server = 0,
     mac_address = [2, 0, 0, 0, 0, 1],
     arp_cache = \<lparr>aip = 0xC0A80001, amac = [2, 0, 0, 0, 0, 9], timestamp = 0, valid = True\<rparr>
       # replicate 31 \<lparr>aip = 0, amac = [], timestamp = 0, valid = False\<rparr>,
     ip_identification = 7, seed = 1, nic_up = True, sent = [], rx = []\<rparr>"

lemma host_inv: "net_inv host"
  by (simp add: host_def net_inv_def arp_ok_def filter_replicate)

theorem ping_answered_witness:
  "let m = write_bytes 0x1000 (echo_frame [2, 0, 0, 0, 0, 1] [2, 0, 0, 0, 0, 9] 8 32 5 0xC0A80001 0xC0A80002 3 4
         (lit ''ping'')) (\<lambda>_. 0)
   in netstack_process_packet m 0x1000 46 host = Some (host\<lparr>ip_identification := 8,
        sent := [echo_frame [2, 0, 0, 0, 0, 9] [2, 0, 0, 0, 0, 1] 0 32 7 0xC0A80002 0xC0A80001 3 4 (lit ''ping'')]\<rparr>)"
proof -
  let ?f = "echo_frame [2, 0, 0, 0, 0, 1] [2, 0, 0, 0, 0, 9] 8 32 5 0xC0A80001 0xC0A80002 3 4 (lit ''ping'')"
  let ?m = "write_bytes 0x1000 ?f (\<lambda>_. 0)"
  have len: "length (lit ''ping'') = 4" by (simp add: lit_def)
  have "bytes_at ?m 0x1000 ?f" by (rule bytes_at_write) (simp add: echo_frame_def len)
  then have f: "bytes_at ?m 0x1000 (echo_frame (mac_address host) [2, 0, 0, 0, 0, 9] 8
      (of_nat (28 + length (lit ''ping''))) 5 0xC0A80001 (ip_address host) 3 4 (lit ''ping''))"
    by (simp only: len) (simp add: host_def)
  have "arp_lookup (next_hop 0xC0A80001 host) host = Some [2, 0, 0, 0, 0, 9]"
    by (simp add: arp_lookup_def next_hop_def host_def)
  from ping_answered [OF host_inv _ _ _ f _ this]
  show ?thesis unfolding Let_def by (simp add: len host_def)
qed

text \<open>
  The total length of the header is not compared with the length of the frame: a request
  whose header claims more than 1500 bytes makes the reply overrun its packet buffer.
\<close>

lemma ping_overrun:
  assumes "net_inv s" "length smac = 6"
    and "bytes_at m p (echo_frame (mac_address s) smac 8 tlen idn src (ip_address s) ident sq [])"
    and "src \<noteq> BROADCAST" "arp_lookup (next_hop src s) s = Some dmac" "1500 < unat tlen"
  shows "netstack_process_packet m p 42 s = None"
proof -
  have mac: "length (mac_address s) = 6" using assms(1) by (simp add: net_inv_def)
  have b: "bytes_at m p (eth_header (mac_address s) smac 0x0800)"
    "bytes_at m (p + 14) (ip_header tlen idn 1 src (ip_address s))"
    "bytes_at m (p + 14 + 20) (icmp_message 8 ident sq [])"
    using assms(3) mac assms(2) by (simp_all add: echo_frame_def bytes_at_append add.assoc)
  have t: "unat (tlen - 20) = unat tlen - 20" "unat (tlen - 20 - 8) = unat tlen - 28"
    using assms(6) by (simp_all add: unat_sub_if')
  have "netstack_process_packet m p 42 s = handle_icmp_packet m (p + 14 + 20) (tlen - 20) src s"
    using netstack_process_packet_ip [OF b(1) assms(2) mac, of 42] handle_ip_packet_icmp [OF b(2) refl, of 28] by simp
  moreover have "\<not> unat tlen - 20 < 8" "1472 < unat tlen - 28" using assms(6) by linarith+
  ultimately show ?thesis
    using t assms icmp_fields(1) [OF b(3)]
    by (simp add: handle_icmp_packet_def icmp_send_echo_reply_def icmp_send_def resolve_def)
qed

text \<open>An address in network byte order.\<close>

definition network32 :: "u32 \<Rightarrow> u8 list" where
  "network32 v = [ucast (drop_bit 24 v), ucast (drop_bit 16 v), ucast (drop_bit 8 v), ucast v]"

text \<open>An ARP message for Ethernet and IPv4 in a frame, byte by byte.\<close>

definition arp_frame :: "u8 list \<Rightarrow> u8 list \<Rightarrow> u8 \<Rightarrow> u8 list \<Rightarrow> u32 \<Rightarrow> u8 list \<Rightarrow> u32 \<Rightarrow> u8 list" where
  "arp_frame dmac emac oper smac sip tmac tip =
     dmac @ emac @ [0x08, 0x06] @ [0x00, 0x01, 0x08, 0x00, 6, 4, 0x00, oper] @ smac @ network32 sip @ tmac @ network32 tip"

lemma bytes32_htonl: "bytes32 (htonl v) = network32 v"
  unfolding bytes32_def network32_def list.inject
  by (intro conjI refl; rule bit_word_eqI) (auto simp: bit_htonl bit_simps add.commute)

lemma arp_frame_eq:
  "eth_header dmac emac 0x0806 @ arp_packet (ucast oper) smac sip tmac tip = arp_frame dmac emac oper smac sip tmac tip"
proof -
  have "bytes16 (htons (ucast oper)) = [0, oper]"
    unfolding bytes16_def htons_def list.inject
    by (intro conjI refl; rule bit_word_eqI) (use bit_imp_le_length [of oper] in \<open>force simp: bit_simps\<close>)+
  moreover have "bytes16 (htons 0x0806) = [0x08, 0x06]" "bytes16 (htons 1) = [0, 1]" "bytes16 (htons 0x0800) = [0x08, 0]"
    by (simp_all add: bytes16_def htons_def)
  ultimately show ?thesis by (simp add: eth_header_def arp_packet_def arp_frame_def bytes32_htonl)
qed

text \<open>
  C5. ARP: a request for the stack's address that arrives for its hardware address or for all stations, with any
  padding behind it, is answered with exactly one frame, the reply with the stack's hardware address to the
  sender, and the sender is known from then on; a request for another address and a reply are not answered and
  teach the sender as well.
\<close>

theorem arp_answered:
  assumes "net_inv s" "nic_up s" "length smac = 6" "length tmac = 6" "oper = 1 \<or> oper = 2"
    and "bytes_at m p (arp_frame dmac smac oper smac sip tmac tip)"
    and "dmac = mac_address s \<or> dmac = replicate 6 0xFF" and "42 \<le> len"
  shows "\<exists>s'. netstack_process_packet m p len s = Some s' \<and> net_inv s' \<and> arp_lookup sip s' = Some smac
     \<and> sent s' = sent s @ (if oper = 1 \<and> tip = ip_address s
          then [arp_frame smac (mac_address s) 2 (mac_address s) (ip_address s) smac sip] else [])"
proof -
  have mac: "length (mac_address s) = 6" and d: "length dmac = 6"
    using assms(1,7) by (auto simp: net_inv_def)
  have b: "bytes_at m p (eth_header dmac smac 0x0806)" "bytes_at m (p + 14) (arp_packet (ucast oper) smac sip tmac tip)"
    using assms(6) d assms(3) by (simp_all add: bytes_at_append flip: arp_frame_eq)
  note e = eth_header_fields [OF b(1) d assms(3)]
  have bc: "(\<forall>i \<in> set [0..<6]. m (p + of_nat i) = 0xFF) \<or> mem_bytes m p 6 = mac_address s"
    using assms(7) e(1) by (auto simp: mem_bytes_def list_eq_iff_nth_eq)
  have len: "\<not> unat len < 14" "\<not> unat (len - 14) < 28"
    using assms(8) by (simp_all add: word_le_nat_alt unat_sub)
  have "netstack_process_packet m p len s = Some (handle_arp_packet m (p + 14) (len - 14) s)"
    unfolding netstack_process_packet_def Let_def e(2) using bc len by auto
  moreover have "load16 m (p + 14) = htons 1" "load16 m (p + 14 + 2) = htons 0x0800" "m (p + 14 + 4) = 6"
    "m (p + 14 + 5) = 4" "load16 m (p + 14 + 6) = htons (ucast oper)" "mem_bytes m (p + 14 + 8) 6 = smac"
    "load32 m (p + 14 + 14) = htonl sip" "load32 m (p + 14 + 24) = htonl tip"
    using b(2) assms(3,4) mem_bytes_at [of m "p + 14 + 8" smac] load32_bytes load16_bytes
    by (simp_all add: arp_packet_def bytes_at_append add.assoc)
  ultimately have "netstack_process_packet m p len s = Some (let s' = arp_add_entry sip smac s
      in if oper = 1 \<and> tip = ip_address s then arp_send_reply sip smac s' else s')"
    using assms(5) len(2) by (auto simp: handle_arp_packet_def Let_def arp_add_entry_def)
  moreover have "arp_send_reply sip smac t = t\<lparr>sent := sent t @ [arp_frame smac (mac_address t) 2 (mac_address t) (ip_address t) smac sip]\<rparr>"
    if "nic_up t" "length (mac_address t) = 6" for t
  proof -
    have "length (arp_frame smac (mac_address t) 2 (mac_address t) (ip_address t) smac sip) = 42"
      using that assms(3) by (simp add: arp_frame_def network32_def)
    then show ?thesis using that arp_frame_eq [of smac "mac_address t" 2 "mac_address t" "ip_address t" smac sip]
      by (simp add: arp_send_reply_def nic_send_def)
  qed
  ultimately show ?thesis
    using arp.inv_add [OF assms(1,3), of sip] arp.lookup_same [OF assms(1,3), of sip] assms(2) mac
    by (auto simp: Let_def net_inv_def arp_lookup_def arp_add_entry_def)
qed

theorem arp_answered_witness:
  "let m = write_bytes 0x1000 (arp_frame (replicate 6 0xFF) [2, 0, 0, 0, 0, 9] 1 [2, 0, 0, 0, 0, 9] 0xC0A80001 (replicate 6 0) 0xC0A80002) (\<lambda>_. 0)
   in \<exists>s'. netstack_process_packet m 0x1000 60 host = Some s' \<and> sent s' = [arp_frame [2, 0, 0, 0, 0, 9] [2, 0, 0, 0, 0, 1] 2 [2, 0, 0, 0, 0, 1] 0xC0A80002 [2, 0, 0, 0, 0, 9] 0xC0A80001]"
proof -
  let ?f = "arp_frame (replicate 6 0xFF) [2, 0, 0, 0, 0, 9] 1 [2, 0, 0, 0, 0, 9] 0xC0A80001 (replicate 6 0) (ip_address host)"
  have b: "bytes_at (write_bytes 0x1000 ?f (\<lambda>_. 0)) 0x1000 ?f" by (rule bytes_at_write) (simp add: arp_frame_def network32_def)
  have "\<exists>s'. netstack_process_packet (write_bytes 0x1000 ?f (\<lambda>_. 0)) 0x1000 60 host = Some s'
      \<and> sent s' = [arp_frame [2, 0, 0, 0, 0, 9] [2, 0, 0, 0, 0, 1] 2 [2, 0, 0, 0, 0, 1] 0xC0A80002 [2, 0, 0, 0, 0, 9] 0xC0A80001]"
    using arp_answered [OF host_inv _ _ _ _ b, of 60] by (auto simp: host_def)
  then show ?thesis by (simp add: host_def)
qed

subsection \<open>Invariant\<close>

definition frame_ok :: "u8 list \<Rightarrow> bool" where
  "frame_ok f \<longleftrightarrow> 42 \<le> length f \<and> length f \<le> 1514"

definition net_step_ok :: "net \<Rightarrow> net \<Rightarrow> bool" where
  "net_step_ok s s' \<longleftrightarrow> net_inv s' \<and> ip_address s' = ip_address s \<and> netmask s' = netmask s
     \<and> gateway s' = gateway s \<and> mac_address s' = mac_address s
     \<and> (\<exists>fs. sent s' = sent s @ fs \<and> length fs \<le> 1 \<and> (\<forall>f \<in> set fs. frame_ok f))"

lemma net_step_ok_refl: "net_inv s \<Longrightarrow> net_step_ok s s"
  by (simp add: net_step_ok_def)

lemma nic_send_ok:
  assumes "net_inv s'" "s' = s\<lparr>arp_cache := c, ip_identification := i\<rparr>" "frame_ok f"
  shows "net_step_ok s (fst (nic_send f s'))"
  using assms by (auto simp: nic_send_def net_step_ok_def net_inv_def)

lemma arp_send_request_ok: "net_inv s \<Longrightarrow> net_step_ok s (arp_send_request ip s)"
  unfolding arp_send_request_def
  by (rule nic_send_ok [where c = "arp_cache s" and i = "ip_identification s"]) (simp_all add: frame_ok_def net_inv_def)

lemma handle_arp_packet_ok:
  assumes "net_inv s"
  shows "net_step_ok s (handle_arp_packet m p len s)"
proof -
  define mac where "mac = mem_bytes m (p + 8) 6"
  define sip where "sip = ntohl (load32 m (p + 14))"
  have mac: "length mac = 6" by (simp add: mac_def)
  define s1 where "s1 = arp_add_entry sip mac s"
  have s1: "net_inv s1" "s1 = s\<lparr>arp_cache := arp_cache s1, ip_identification := ip_identification s\<rparr>"
    using arp.inv_add [OF assms mac, of sip] by (simp_all add: s1_def arp_add_entry_def Let_def)
  have "net_step_ok s (arp_send_reply sip mac s1)"
    unfolding arp_send_reply_def
    by (rule nic_send_ok [OF s1]) (use s1(1) mac in \<open>simp add: frame_ok_def net_inv_def\<close>)
  moreover have "net_step_ok s s1"
    using s1(1) by (simp add: net_step_ok_def s1_def arp_add_entry_def Let_def)
  ultimately show ?thesis
    using assms net_step_ok_refl by (simp add: handle_arp_packet_def Let_def mac_def sip_def s1_def)
qed

lemma icmp_send_ok:
  assumes "net_inv s" "icmp_send ty dst i q data s = Some s'"
  shows "net_step_ok s s'"
proof (cases "resolve dst s")
  case (Inl r)
  then show ?thesis
    using assms arp_send_request_ok [OF assms(1)]
    by (auto simp: icmp_send_def resolve_def split: if_splits option.splits)
next
  case (Inr mac)
  have "length mac = 6"
    using Inr arp_lookup_length [OF assms(1)] by (auto simp: resolve_def split: if_splits option.splits)
  then have "net_step_ok s (fst (nic_send (eth_header mac (mac_address s) 0x0800
       @ ip_header (of_nat (20 + 8 + length data)) (ip_identification s) 1 (ip_address s) dst
       @ icmp_message ty i q data) (s\<lparr>ip_identification := ip_identification s + 1\<rparr>)))"
    if "length data \<le> 1472"
    by (intro nic_send_ok [where c = "arp_cache s"])
       (use assms(1) that in \<open>simp_all add: frame_ok_def net_inv_def\<close>)
  then show ?thesis using assms(2) Inr by (auto simp: icmp_send_def Let_def split: if_splits)
qed

text \<open>The data of the echo request in a frame, by the length fields of its IP header.\<close>

abbreviation claimed_length :: "mem \<Rightarrow> addr \<Rightarrow> u16" where
  "claimed_length m q \<equiv> ntohs (load16 m (q + 2)) - of_nat (unat (m q AND 0x0F) * 4)"

lemma icmp_send_returns: "length data \<le> 1472 \<Longrightarrow> \<exists>s'. icmp_send ty dst i q data s = Some s'"
  by (auto simp: icmp_send_def Let_def split: sum.splits)

lemma handle_icmp_packet_returns:
  assumes "len \<le> 1480"
  shows "\<exists>s'. handle_icmp_packet m q len src s = Some s'"
proof (cases "unat len < 8")
  case False
  then have "unat (len - 8) \<le> 1472"
    using assms by (simp add: unat_sub_if' word_le_nat_alt)
  then show ?thesis
    using icmp_send_returns [of "mem_bytes m (q + 8) (unat (len - 8))"]
    by (simp add: handle_icmp_packet_def icmp_send_echo_reply_def)
qed (simp add: handle_icmp_packet_def)

text \<open>
  C21. Whatever frame arrives, the stack keeps its invariant (32 cache entries with
  distinct addresses and 6-byte hardware addresses) and its configuration, and sends at
  most one frame in answer, of 42 to 1514 bytes; and it does return, without overrunning
  its packet buffer, for every frame whose header claims at most 1480 bytes of data.
\<close>

theorem netstack_process_packet_invariant:
  assumes "net_inv s"
  shows "(\<forall>s'. netstack_process_packet m p len s = Some s' \<longrightarrow> net_step_ok s s')
    \<and> (claimed_length m (p + 14) \<le> 1480 \<longrightarrow> (\<exists>s'. netstack_process_packet m p len s = Some s'))"
proof (intro conjI allI impI)
  fix s' assume r: "netstack_process_packet m p len s = Some s'"
  have i: "net_step_ok s s'" if "handle_icmp_packet m q l src s = Some s'" for q l src
    using that assms(1) icmp_send_ok [OF assms(1)] net_step_ok_refl
    by (auto simp: handle_icmp_packet_def icmp_send_echo_reply_def split: if_splits)
  have "net_step_ok s s'" if "handle_ip_packet m q l s = Some s'" for q l
    using that i assms(1) net_step_ok_refl by (auto simp: handle_ip_packet_def Let_def split: if_splits)
  then show "net_step_ok s s'"
    using r assms net_step_ok_refl [OF assms(1)] handle_arp_packet_ok [OF assms(1)]
    by (auto simp: netstack_process_packet_def Let_def split: if_splits)
next
  assume c: "claimed_length m (p + 14) \<le> 1480"
  have "\<exists>s'. handle_ip_packet m (p + 14) l s = Some s'" for l
    using handle_icmp_packet_returns [OF c] by (simp add: handle_ip_packet_def Let_def)
  then show "\<exists>s'. netstack_process_packet m p len s = Some s'"
    by (simp add: netstack_process_packet_def Let_def)
qed

theorem netstack_process_packet_invariant_witness:
  "\<exists>s'. netstack_process_packet (\<lambda>_. 0) 0 60 host = Some s' \<and> net_step_ok host s'"
  using netstack_process_packet_invariant [OF host_inv, of "\<lambda>_. 0" 0 60]
  by (auto simp: ntohs_def htons_def load16_def word16_def)

subsection \<open>DHCP options\<close>

lemma bytes_word32_bytes32 [simp]: "bytes_word32 (bytes32 v @ rest) = v"
  by (simp add: bytes_word32_def bytes32_def word32_bytes)

lemma length_options [simp]: "length (dhcp_opt_put_u8 c v) = 3" "length (dhcp_opt_put_u32 c w) = 6"
  by (simp_all add: dhcp_opt_put_u8_def dhcp_opt_put_u32_def)

lemma opts_loop_u32:
  "code \<noteq> 0 \<Longrightarrow> code \<noteq> 255 \<Longrightarrow> dhcp_opts_loop (dhcp_opt_put_u32 code v @ rest) d
     = dhcp_opts_loop rest (dhcp_option code 4 (bytes32 (htonl v) @ rest) d)"
  by (simp add: dhcp_opt_put_u32_def)

lemma opts_loop_u8:
  "code \<noteq> 0 \<Longrightarrow> code \<noteq> 255 \<Longrightarrow> dhcp_opts_loop (dhcp_opt_put_u8 code v @ rest) d
     = dhcp_opts_loop rest (dhcp_option code 1 (v # rest) d)"
  by (simp add: dhcp_opt_put_u8_def)

text \<open>
  The option parser terminates on every message and inverts the option writers: a
  message with the magic cookie and the type, server, mask, router and name server
  options, whatever follows the end option, is read as exactly these values.
\<close>

theorem dhcp_parse_opts_correct:
  assumes "length hdr = 236" and "length rest = 312 - 32"
  shows "dhcp_parse_opts (hdr @ bytes32 (htonl 0x63825363) @ dhcp_opt_put_u8 53 ty @ dhcp_opt_put_u32 54 sid
       @ dhcp_opt_put_u32 1 nmask @ dhcp_opt_put_u32 3 gw @ dhcp_opt_put_u32 6 dns @ [255] @ rest) no_opts
     = Some \<lparr>server_id_n = htonl sid, subnet_n = htonl nmask, router_n = htonl gw, dns_n = htonl dns, msgtype = ty\<rparr>"
  using assms
  by (simp add: dhcp_parse_opts_def Let_def opts_loop_u8 opts_loop_u32 dhcp_option_def no_opts_def)

theorem dhcp_parse_opts_correct_witness:
  "dhcp_parse_opts (replicate 236 0 @ bytes32 (htonl 0x63825363) @ dhcp_opt_put_u8 53 5 @ dhcp_opt_put_u32 54 0x0A000202
       @ dhcp_opt_put_u32 1 0xFFFFFF00 @ dhcp_opt_put_u32 3 0x0A000202 @ dhcp_opt_put_u32 6 0x0A000203 @ [255]
       @ replicate 280 0) no_opts
     = Some \<lparr>server_id_n = htonl 0x0A000202, subnet_n = htonl 0xFFFFFF00, router_n = htonl 0x0A000202,
          dns_n = htonl 0x0A000203, msgtype = 5\<rparr>"
  by (rule dhcp_parse_opts_correct) simp_all

end
