(* ===== verification/Fat32_Correct.thy ===== *)
theory Fat32_Correct
  imports Fat32
begin

text \<open>
  Correctness of the FAT32 file system: the file allocation table as a map from clusters
  to entries that the operations update at one point and keep mirrored, allocation,
  chains of clusters, the contents of files, names and times, and the creation of files.
\<close>

subsection \<open>Fields of a buffer\<close>

lemma length_put32 [simp]: "i + 4 \<le> length b \<Longrightarrow> length (put32 b i v) = length b"
  by (simp add: put32_def bytes32_def)

lemma nth_put32:
  assumes "i + 4 \<le> length b" "j < length b"
  shows "put32 b i v ! j = (if i \<le> j \<and> j < i + 4 then bytes32 v ! (j - i) else b ! j)"
proof -
  have l: "length (bytes32 v) = 4" by (simp add: bytes32_def)
  show ?thesis using assms by (auto simp: put32_def nth_append l min_def)
qed

lemma nth_bytes32:
  "bytes32 v ! 0 = ucast v" "bytes32 v ! Suc 0 = ucast (drop_bit 8 v)"
  "bytes32 v ! 2 = ucast (drop_bit 16 v)" "bytes32 v ! 3 = ucast (drop_bit 24 v)"
  by (simp_all add: bytes32_def)

lemma get_put32 [simp]: "i + 4 \<le> length b \<Longrightarrow> get32 (put32 b i v) i = v"
  by (simp add: get32_def nth_put32 nth_bytes32 word32_bytes)

lemma get_put32_other:
  assumes "i + 4 \<le> length b" "j + 4 \<le> length b" "i + 4 \<le> j \<or> j + 4 \<le> i"
  shows "get32 (put32 b i v) j = get32 b j"
  using assms by (auto simp: get32_def nth_put32)

lemma masks: "(0x0FFFFFFF :: u32) = mask 28" "(0xF0000000 :: u32) = push_bit 28 (mask 4)"
  by (simp_all add: mask_eq_exp_minus_1)

lemma set_entry_value_masked:
  assumes "i + 4 \<le> length b"
  shows "get32 (set_entry_value b i v) i AND 0x0FFFFFFF = v AND 0x0FFFFFFF"
proof -
  have "((x AND 0xF0000000) OR (v AND 0x0FFFFFFF)) AND 0x0FFFFFFF = v AND 0x0FFFFFFF" for x :: u32
    unfolding masks by (rule bit_word_eqI) (auto simp: bit_and_iff bit_or_iff bit_push_bit_iff bit_mask_iff)
  then show ?thesis using assms by (simp add: set_entry_value_def)
qed

lemma length_set_entry_value [simp]: "i + 4 \<le> length b \<Longrightarrow> length (set_entry_value b i v) = length b"
  by (simp add: set_entry_value_def)

lemma set_entry_value_other:
  "i + 4 \<le> length b \<Longrightarrow> j + 4 \<le> length b \<Longrightarrow> i + 4 \<le> j \<or> j + 4 \<le> i \<Longrightarrow>
   get32 (set_entry_value b i v) j = get32 b j"
  by (simp add: set_entry_value_def get_put32_other)

subsection \<open>Verified writes\<close>

text \<open>When the verification succeeds the sector holds the data, even if the drive dropped the write.\<close>

lemma write_verified_ok:
  "write_verified lba buf d = (d', True) \<Longrightarrow> d' = d\<lparr>sectors := (sectors d)(lba := buf)\<rparr>"
  by (auto simp: write_verified_def dev_write_def dev_read_def split: if_splits option.splits)

lemma write_fat_copies_ok:
  "write_fat_copies ks c buf s = (s', True) \<Longrightarrow>
   s' = s\<lparr>disk := (disk s)\<lparr>sectors := (\<lambda>l. if \<exists>k \<in> set ks. l = fat_sector c s + of_nat k * fat_size_32 (bs s)
                                         then buf else sectors (disk s) l)\<rparr>\<rparr>"
proof (induction ks arbitrary: s)
  case (Cons k ks)
  let ?l = "fat_sector c s + of_nat k * fat_size_32 (bs s)"
  obtain d where w: "write_verified ?l buf (disk s) = (d, True)"
    and r: "write_fat_copies ks c buf (s\<lparr>disk := d\<rparr>) = (s', True)"
    using Cons.prems by (auto split: prod.splits if_splits)
  note d = write_verified_ok [OF w]
  have "fat_sector c (s\<lparr>disk := d\<rparr>) = fat_sector c s" by (simp add: fat_sector_def)
  with Cons.IH [OF r] show ?case by (auto simp: d fun_eq_iff)
qed simp

lemma write_verified_healthy:
  "healthy d \<Longrightarrow> write_verified lba buf d = (d\<lparr>sectors := (sectors d)(lba := buf)\<rparr>, True)"
  by (simp add: write_verified_def dev_write_def dev_read_def healthy_def)

lemma write_fat_copies_healthy:
  "healthy (disk s) \<Longrightarrow> snd (write_fat_copies ks c buf s)"
  by (induction ks arbitrary: s) (auto simp: write_verified_healthy healthy_def)

subsection \<open>Geometry\<close>

definition fat_start :: "fat \<Rightarrow> nat" where
  "fat_start s = unat (partition_lba_offset s) + unat (reserved_sector_count (bs s))"

definition data_start :: "fat \<Rightarrow> nat" where
  "data_start s = fat_start s + unat (number_of_fats (bs s)) * unat (fat_size_32 (bs s))"

abbreviation total :: "fat \<Rightarrow> nat" where
  "total s \<equiv> unat (get_total_clusters (bs s))"

abbreviation spc :: "fat \<Rightarrow> nat" where
  "spc s \<equiv> unat (sectors_per_cluster (bs s))"

text \<open>A volume as it is formatted: sectors of 512 bytes, the tables hold all clusters, no address wraps.\<close>

definition geometry_ok :: "fat \<Rightarrow> bool" where
  "geometry_ok s \<longleftrightarrow> sector_fits s \<and> 0 < spc s \<and> 0 < unat (number_of_fats (bs s))
     \<and> root_entry_count (bs s) = 0 \<and> total s < 0x0FFFFFF8 \<and> total s \<le> unat (fat_size_32 (bs s)) * 128
     \<and> data_start s + total s * spc s < 4294967296"

definition fat_ok :: "fat \<Rightarrow> bool" where
  "fat_ok s \<longleftrightarrow> geometry_ok s \<and> (\<forall>l. length (sectors (disk s) l) = 512) \<and> length (fsinfo s) = 512"

definition in_range :: "fat \<Rightarrow> u32 \<Rightarrow> bool" where
  "in_range s c \<longleftrightarrow> 2 \<le> c \<and> c < get_total_clusters (bs s)"

lemma in_range_unat: "in_range s c \<longleftrightarrow> 2 \<le> unat c \<and> unat c < total s"
  by (simp add: in_range_def word_le_nat_alt word_less_nat_alt)

lemma mult4_div: "unat (c * 4 :: u32) = 4 * unat c" if "unat c < 1073741824"
  using that by (simp add: unat_word_ariths)

lemma fat_position:
  assumes "geometry_ok s" "unat c < total s"
  shows "unat (fat_sector c s) = fat_start s + unat c div 128" "ent_offset c s = 4 * (unat c mod 128)"
    "unat c div 128 < unat (fat_size_32 (bs s))"
proof -
  have c: "unat c < 1073741824" using assms by (simp add: geometry_ok_def)
  have b: "(ucast (bytes_per_sector (bs s)) :: u32) = 512" using assms by (simp add: geometry_ok_def sector_fits_def)
  have q: "unat (c * 4 div 512) = unat c div 128" "unat (c * 4 mod 512) = 4 * (unat c mod 128)"
    using mult4_div [OF c] mult_mod_right [of 4 "unat c" 128] by (simp_all add: unat_div unat_mod)
  show ent: "ent_offset c s = 4 * (unat c mod 128)" unfolding ent_offset_def b by (rule q(2))
  show lt: "unat c div 128 < unat (fat_size_32 (bs s))"
    using assms by (simp add: geometry_ok_def less_mult_imp_div_less)
  have sum: "fat_start s + unat c div 128 < 4294967296"
  proof -
    have "unat (fat_size_32 (bs s)) \<le> unat (number_of_fats (bs s)) * unat (fat_size_32 (bs s))"
      using assms(1) by (simp add: geometry_ok_def)
    then show ?thesis using lt assms(1) unfolding geometry_ok_def data_start_def by linarith
  qed
  have "unat (partition_lba_offset s + ucast (reserved_sector_count (bs s))) = fat_start s"
    using sum by (subst unat_plus_lt) (simp_all add: fat_start_def)
  then show "unat (fat_sector c s) = fat_start s + unat c div 128"
    unfolding fat_sector_def b using sum q(1) by (subst unat_plus_lt) simp_all
qed

text \<open>Copy \<open>k\<close> of an entry's sector.\<close>

lemma copy_position:
  assumes "geometry_ok s" "unat c < total s" "k < unat (number_of_fats (bs s))"
  shows "unat (fat_sector c s + of_nat k * fat_size_32 (bs s))
     = fat_start s + k * unat (fat_size_32 (bs s)) + unat c div 128"
proof -
  note p = fat_position [OF assms(1,2)]
  let ?f = "unat (fat_size_32 (bs s))"
  have "Suc k * ?f \<le> unat (number_of_fats (bs s)) * ?f" using assms(3) by (intro mult_le_mono1) simp
  then have lt: "fat_start s + k * ?f + ?f < 4294967296"
    using assms(1) unfolding geometry_ok_def data_start_def by simp
  have "unat (of_nat k :: u32) = k" using assms(3) unat_lt_8 [of "number_of_fats (bs s)"]
    by (intro unat_of_nat_lt) simp
  then have m: "unat (of_nat k * fat_size_32 (bs s)) = k * ?f"
    using lt unat_mult_lt [of "of_nat k" "fat_size_32 (bs s)"] by simp
  show ?thesis using lt p m unat_plus_lt [of "fat_sector c s" "of_nat k * fat_size_32 (bs s)"] by simp
qed

lemma div_add_eq_copies:
  assumes "k * f + a = k' * f + b" "a < f" "b < (f :: nat)"
  shows "k = k' \<and> a = b"
proof -
  have "(k * f + a) div f = k" "(k' * f + b) div f = k'" using assms(2,3) by simp_all
  then have "k = k'" using assms(1) by metis
  then show ?thesis using assms(1) by simp
qed

lemma copy_sector_eq:
  assumes "geometry_ok s" "unat c < total s" "unat c' < total s"
    and "k < unat (number_of_fats (bs s))" "k' < unat (number_of_fats (bs s))"
  shows "fat_sector c s + of_nat k * fat_size_32 (bs s) = fat_sector c' s + of_nat k' * fat_size_32 (bs s)
     \<longleftrightarrow> k = k' \<and> unat c div 128 = unat c' div 128"
  using copy_position [OF assms(1,2,4)] copy_position [OF assms(1,3,5)]
    div_add_eq_copies [of k "unat (fat_size_32 (bs s))" "unat c div 128" k' "unat c' div 128"]
    fat_position(3) [OF assms(1,2)] fat_position(3) [OF assms(1,3)]
  by (auto simp: word_unat_eq_iff)

subsection \<open>The table as a map\<close>

definition fat_entry :: "fat \<Rightarrow> u32 \<Rightarrow> u32" where
  "fat_entry s c = get32 (sectors (disk s) (fat_sector c s)) (ent_offset c s) AND 0x0FFFFFFF"

definition mirrored :: "fat \<Rightarrow> bool" where
  "mirrored s \<longleftrightarrow> (\<forall>c k. in_range s c \<longrightarrow> k < unat (number_of_fats (bs s)) \<longrightarrow>
     sectors (disk s) (fat_sector c s + of_nat k * fat_size_32 (bs s)) = sectors (disk s) (fat_sector c s))"

text \<open>The state with the entry of \<open>c\<close> set in all copies.\<close>

definition table_set :: "u32 \<Rightarrow> u32 \<Rightarrow> fat \<Rightarrow> fat" where
  "table_set c v s = s\<lparr>disk := (disk s)\<lparr>sectors := (\<lambda>l.
     if \<exists>k \<in> set [0..<unat (number_of_fats (bs s))]. l = fat_sector c s + of_nat k * fat_size_32 (bs s)
     then set_entry_value (sectors (disk s) (fat_sector c s)) (ent_offset c s) v
     else sectors (disk s) l)\<rparr>\<rparr>"

lemma table_set_frame [simp]:
  "bs (table_set c v s) = bs s" "partition_lba_offset (table_set c v s) = partition_lba_offset s"
  "fsinfo (table_set c v s) = fsinfo s" "fsinfo_valid (table_set c v s) = fsinfo_valid s"
  "current_directory_cluster (table_set c v s) = current_directory_cluster s" "heap_ok (table_set c v s) = heap_ok s"
  "read_error (disk (table_set c v s)) = read_error (disk s)"
  "write_error (disk (table_set c v s)) = write_error (disk s)" "dropped (disk (table_set c v s)) = dropped (disk s)"
  by (simp_all add: table_set_def)

lemma positions_cong [simp]:
  "fat_sector c (table_set c' v s) = fat_sector c s" "ent_offset c (table_set c' v s) = ent_offset c s"
  by (simp_all add: fat_sector_def ent_offset_def)

lemma write_fat_entry_cases:
  assumes "write_fat_entry c v s = Some (s', True)"
  shows "s' = table_set c v s"
  using assms
  by (auto simp: write_fat_entry_def dev_read_def table_set_def dest!: write_fat_copies_ok split: if_splits option.splits)

lemma table_set_sector:
  assumes "geometry_ok s" "in_range s c" "in_range s c'" "k' < unat (number_of_fats (bs s))"
  shows "sectors (disk (table_set c v s)) (fat_sector c' s + of_nat k' * fat_size_32 (bs s))
     = (if unat c div 128 = unat c' div 128
        then set_entry_value (sectors (disk s) (fat_sector c s)) (ent_offset c s) v
        else sectors (disk s) (fat_sector c' s + of_nat k' * fat_size_32 (bs s)))"
proof -
  have "(\<exists>k \<in> set [0..<unat (number_of_fats (bs s))].
      fat_sector c' s + of_nat k' * fat_size_32 (bs s) = fat_sector c s + of_nat k * fat_size_32 (bs s))
    \<longleftrightarrow> unat c div 128 = unat c' div 128"
    using copy_sector_eq [OF assms(1), of c' c k'] assms by (auto simp: in_range_unat)
  then show ?thesis by (simp only: table_set_def fat.simps disk.simps fat.select_convs disk.select_convs)
     (simp add: table_set_def)
qed

lemma fats_pos: "geometry_ok s \<Longrightarrow> 0 < unat (number_of_fats (bs s))"
  by (simp add: geometry_ok_def)

lemma ent_fits:
  assumes "fat_ok s" "in_range s c"
  shows "ent_offset c s + 4 \<le> length (sectors (disk s) l)"
proof -
  have "unat c mod 128 < 128" by simp
  then have "4 * (unat c mod 128) + 4 \<le> 512" by linarith
  then show ?thesis using assms fat_position(2) [of s c] by (simp add: fat_ok_def in_range_unat)
qed

lemma fat_entry_table_set:
  assumes "fat_ok s" "in_range s c" "in_range s c'"
  shows "fat_entry (table_set c v s) c' = (if c' = c then v AND 0x0FFFFFFF else fat_entry s c')"
proof -
  have g: "geometry_ok s" using assms by (simp add: fat_ok_def)
  note p = fat_position [OF g]
  have e: "ent_offset c s = 4 * (unat c mod 128)" "ent_offset c' s = 4 * (unat c' mod 128)"
    using p assms by (simp_all add: in_range_unat)
  have sec: "sectors (disk (table_set c v s)) (fat_sector c' s)
     = (if unat c div 128 = unat c' div 128
        then set_entry_value (sectors (disk s) (fat_sector c s)) (ent_offset c s) v
        else sectors (disk s) (fat_sector c' s))"
    using table_set_sector [OF g assms(2,3) fats_pos [OF g]] by simp
  show ?thesis
  proof (cases "unat c div 128 = unat c' div 128")
    case False
    then have "c' \<noteq> c" by auto
    then show ?thesis using False sec by (simp add: fat_entry_def)
  next
    case True
    have same: "fat_sector c' s = fat_sector c s"
      using p(1) [of c] p(1) [of c'] assms True by (simp add: in_range_unat word_unat_eq_iff)
    show ?thesis
    proof (cases "c' = c")
      case eq: True
      then show ?thesis using sec ent_fits [OF assms(1,2)] by (simp add: fat_entry_def set_entry_value_masked)
    next
      case False
      then have "unat c mod 128 \<noteq> unat c' mod 128"
        using True div_mult_mod_eq [of "unat c" 128] div_mult_mod_eq [of "unat c'" 128]
        by (metis word_unat_eq_iff)
      then have "ent_offset c s + 4 \<le> ent_offset c' s \<or> ent_offset c' s + 4 \<le> ent_offset c s" using e by linarith
      then show ?thesis
        using False True sec same ent_fits [OF assms(1)] assms by (simp add: fat_entry_def set_entry_value_other)
    qed
  qed
qed

lemma fat_ok_table_set:
  assumes "fat_ok s" "in_range s c"
  shows "fat_ok (table_set c v s)"
proof -
  have "length (set_entry_value (sectors (disk s) (fat_sector c s)) (ent_offset c s) v) = 512"
    using assms ent_fits [OF assms] by (simp add: fat_ok_def)
  then show ?thesis using assms
    by (simp add: fat_ok_def geometry_ok_def sector_fits_def data_start_def fat_start_def) (simp add: table_set_def)
qed

lemma mirrored_table_set:
  assumes "geometry_ok s" "mirrored s" "in_range s c"
  shows "mirrored (table_set c v s)"
proof -
  have "sectors (disk (table_set c v s)) (fat_sector c' s + of_nat k * fat_size_32 (bs s))
      = sectors (disk (table_set c v s)) (fat_sector c' s)"
    if "in_range s c'" "k < unat (number_of_fats (bs s))" for c' k
    using table_set_sector [OF assms(1,3) that] table_set_sector [OF assms(1,3) that(1) fats_pos [OF assms(1)]]
      assms(2) that by (simp add: mirrored_def)
  then show ?thesis by (simp add: mirrored_def in_range_def)
qed

text \<open>Everything from the data area on is untouched.\<close>

lemma table_set_data:
  assumes "geometry_ok s" "in_range s c" "data_start s \<le> unat l"
  shows "sectors (disk (table_set c v s)) l = sectors (disk s) l"
proof -
  have "l \<noteq> fat_sector c s + of_nat k * fat_size_32 (bs s)" if "k < unat (number_of_fats (bs s))" for k
  proof -
    let ?f = "unat (fat_size_32 (bs s))"
    have "unat c < total s" using assms(2) by (simp add: in_range_unat)
    note p = copy_position [OF assms(1) this that] fat_position(3) [OF assms(1) this]
    have "Suc k * ?f \<le> unat (number_of_fats (bs s)) * ?f" using that by (intro mult_le_mono1) simp
    then have "unat (fat_sector c s + of_nat k * fat_size_32 (bs s)) < data_start s"
      using p by (simp add: data_start_def)
    then show ?thesis using assms(3) by auto
  qed
  then show ?thesis by (auto simp: table_set_def)
qed

lemma update_fsinfo_frame:
  "\<exists>fi. update_fsinfo_free_count d s = s\<lparr>fsinfo := fi\<rparr> \<and> (length (fsinfo s) = 512 \<longrightarrow> length fi = 512)"
proof -
  have "s = s\<lparr>fsinfo := fsinfo s\<rparr>" by simp
  then show ?thesis
    unfolding update_fsinfo_free_count_def Let_def by (auto intro: exI [of _ "fsinfo s"])
qed

lemma mark_cluster_cases:
  assumes "mark_cluster_in_fat c v s = Some (s', True)"
  shows "in_range s c \<and> (\<exists>fi. s' = (table_set c v s)\<lparr>fsinfo := fi\<rparr> \<and> (length (fsinfo s) = 512 \<longrightarrow> length fi = 512))"
proof -
  have r: "in_range s c" using assms by (auto simp: mark_cluster_in_fat_def in_range_def split: if_splits)
  let ?b = "sectors (disk s) (fat_sector c s)"
  obtain s1 where w: "write_fat_copies [0..<unat (number_of_fats (bs s))] c (set_entry_value ?b (ent_offset c s) v) s
      = (s1, True)" and s': "s' = s1 \<or> s' = update_fsinfo_free_count (- 1) s1 \<or> s' = update_fsinfo_free_count 1 s1"
    using assms
    by (auto simp: mark_cluster_in_fat_def dev_read_def Let_def split: if_splits option.splits prod.splits)
  have s1: "s1 = table_set c v s" using write_fat_copies_ok [OF w] by (simp add: table_set_def)
  have "s1 = s1\<lparr>fsinfo := fsinfo s1\<rparr>" by simp
  then show ?thesis
    using r s' update_fsinfo_frame [of "- 1" s1] update_fsinfo_frame [of 1 s1] unfolding s1 by fastforce
qed

lemma fsinfo_frame [simp]:
  "fat_sector c (s\<lparr>fsinfo := fi\<rparr>) = fat_sector c s" "ent_offset c (s\<lparr>fsinfo := fi\<rparr>) = ent_offset c s"
  "fat_entry (s\<lparr>fsinfo := fi\<rparr>) c = fat_entry s c" "in_range (s\<lparr>fsinfo := fi\<rparr>) c = in_range s c"
  "mirrored (s\<lparr>fsinfo := fi\<rparr>) = mirrored s" "geometry_ok (s\<lparr>fsinfo := fi\<rparr>) = geometry_ok s"
  "data_start (s\<lparr>fsinfo := fi\<rparr>) = data_start s"
  by (simp_all add: fat_sector_def ent_offset_def fat_entry_def in_range_def mirrored_def geometry_ok_def
      sector_fits_def data_start_def fat_start_def)

lemma in_range_table_set [simp]: "in_range (table_set c v s) c' = in_range s c'"
  by (simp add: in_range_def)

text \<open>A successful update: the entry has the new value, all other entries and the data keep theirs.\<close>

definition updated :: "u32 \<Rightarrow> u32 \<Rightarrow> fat \<Rightarrow> fat \<Rightarrow> bool" where
  "updated c v s s' \<longleftrightarrow> fat_ok s' \<and> bs s' = bs s \<and> partition_lba_offset s' = partition_lba_offset s
     \<and> current_directory_cluster s' = current_directory_cluster s \<and> heap_ok s' = heap_ok s
     \<and> (\<forall>c'. in_range s c' \<longrightarrow> fat_entry s' c' = (if c' = c then v AND 0x0FFFFFFF else fat_entry s c'))
     \<and> (\<forall>l. data_start s \<le> unat l \<longrightarrow> sectors (disk s') l = sectors (disk s) l)
     \<and> (mirrored s \<longrightarrow> mirrored s') \<and> (healthy (disk s) \<longrightarrow> healthy (disk s'))"

lemma table_set_updated:
  assumes "fat_ok s" "in_range s c" "length fi = 512"
  shows "updated c v s ((table_set c v s)\<lparr>fsinfo := fi\<rparr>)"
proof -
  have g: "geometry_ok s" using assms(1) by (simp add: fat_ok_def)
  have "fat_ok ((table_set c v s)\<lparr>fsinfo := fi\<rparr>)"
    using fat_ok_table_set [OF assms(1,2), of v] assms(3) by (simp add: fat_ok_def)
  moreover have "healthy (disk s) \<longrightarrow> healthy (disk (table_set c v s))" by (simp add: healthy_def)
  ultimately show ?thesis
    using fat_entry_table_set [OF assms(1,2)] table_set_data [OF g assms(2)] mirrored_table_set [OF g _ assms(2)]
    by (simp add: updated_def)
qed

lemma mark_cluster_updated:
  assumes "fat_ok s" "mark_cluster_in_fat c v s = Some (s', True)"
  shows "in_range s c" "updated c v s s'"
  using mark_cluster_cases [OF assms(2)] table_set_updated [OF assms(1)] assms(1)
  by (auto simp: fat_ok_def)

lemma mark_cluster_healthy:
  assumes "fat_ok s" "healthy (disk s)" "in_range s c"
  shows "\<exists>s'. mark_cluster_in_fat c v s = Some (s', True) \<and> updated c v s s'"
proof -
  let ?b = "sectors (disk s) (fat_sector c s)"
  have "\<exists>s1. write_fat_copies [0..<unat (number_of_fats (bs s))] c (set_entry_value ?b (ent_offset c s) v) s = (s1, True)"
    using write_fat_copies_healthy [OF assms(2)] by (metis prod.collapse)
  then have "\<exists>s'. mark_cluster_in_fat c v s = Some (s', True)"
    using assms
    by (auto simp: mark_cluster_in_fat_def in_range_def fat_ok_def geometry_ok_def dev_read_def healthy_def
        not_less Let_def)
  then show ?thesis using mark_cluster_updated [OF assms(1)] by blast
qed

text \<open>
  C10. Whenever \<^verbatim>\<open>mark_cluster_in_fat\<close> reports success, even on a drive that drops writes in
  silence, the entry of the cluster reads back as the value, every other entry and the
  whole data area are unchanged, and copies of the table that were equal stay equal.
\<close>

theorem mark_cluster_in_fat_correct:
  assumes "fat_ok s" "mark_cluster_in_fat c v s = Some (s', True)"
  shows "fat_ok s' \<and> (mirrored s \<longrightarrow> mirrored s')
    \<and> (\<forall>c'. in_range s c' \<longrightarrow> fat_entry s' c' = (if c' = c then v AND 0x0FFFFFFF else fat_entry s c'))
    \<and> (\<forall>l. data_start s \<le> unat l \<longrightarrow> sectors (disk s') l = sectors (disk s) l)"
  using mark_cluster_updated(2) [OF assms] by (simp add: updated_def)

text \<open>A small volume: one reserved sector, two tables of one sector, clusters of one sector.\<close>

definition small_bs :: boot_sector where
  "small_bs = \<lparr>bytes_per_sector = 512, sectors_per_cluster = 1, reserved_sector_count = 1, number_of_fats = 2,
     root_entry_count = 0, total_sectors_32 = 103, fat_size_32 = 1, root_cluster = 2, fs_info = 0, boot_signature = 0x29\<rparr>"

definition small_fat :: "(u32 \<Rightarrow> u8 list) \<Rightarrow> fat" where
  "small_fat secs = \<lparr>bs = small_bs, fsinfo = replicate 512 0, fsinfo_valid = False, partition_lba_offset = 0,
     current_directory_cluster = 2,
     disk = \<lparr>sectors = secs, read_error = (\<lambda>_. False), write_error = (\<lambda>_. False), dropped = (\<lambda>_. False)\<rparr>,
     heap_ok = True\<rparr>"

lemma small_total [simp]: "get_total_clusters small_bs = 100"
  by (simp add: get_total_clusters_def small_bs_def)

lemma small_fat_ok: "(\<forall>l. length (secs l) = 512) \<Longrightarrow> fat_ok (small_fat secs)"
  by (simp add: fat_ok_def geometry_ok_def small_fat_def sector_fits_def data_start_def fat_start_def)
     (simp add: small_bs_def)

lemma small_fat_healthy: "healthy (disk (small_fat secs))"
  by (simp add: healthy_def small_fat_def)

lemma small_in_range: "in_range (small_fat secs) c \<longleftrightarrow> 2 \<le> c \<and> c < 100"
  by (simp add: in_range_def small_fat_def)

theorem mark_cluster_in_fat_correct_witness:
  "\<exists>s'. mark_cluster_in_fat 5 7 (small_fat (\<lambda>_. replicate 512 0)) = Some (s', True)
     \<and> fat_entry s' 5 = 7 \<and> fat_entry s' 6 = 0"
proof -
  let ?s = "small_fat (\<lambda>_. replicate 512 0)"
  have ok: "fat_ok ?s" by (rule small_fat_ok) simp
  obtain s' where s': "mark_cluster_in_fat 5 7 ?s = Some (s', True)"
    using mark_cluster_healthy [OF ok small_fat_healthy, of 5 7] by (auto simp: small_in_range)
  have z: "fat_entry ?s 6 = 0"
  proof -
    have "ent_offset 6 ?s = 24" by (simp add: ent_offset_def small_fat_def small_bs_def)
    then show ?thesis by (simp add: fat_entry_def get32_def small_fat_def word32_def)
  qed
  have "fat_entry s' 5 = 7" "fat_entry s' 6 = fat_entry ?s 6"
    using mark_cluster_in_fat_correct [OF ok s'] by (simp_all add: small_in_range)
  then show ?thesis using s' z by auto
qed

subsection \<open>Allocation\<close>

lemma read_fat_entry_ok:
  assumes "fat_ok s" "in_range s c" "\<not> read_error (disk s) (fat_sector c s)"
  shows "read_fat_entry c s = Some (fat_entry s c)"
  using assms by (auto simp: read_fat_entry_def in_range_def fat_ok_def geometry_ok_def dev_read_def fat_entry_def)

lemma read_fat_entry_total:
  assumes "fat_ok s" "in_range s c"
  shows "\<exists>v. read_fat_entry c s = Some v \<and> (v = 0 \<longrightarrow> fat_entry s c = 0) \<and> (healthy (disk s) \<longrightarrow> v = fat_entry s c)"
  using assms by (auto simp: read_fat_entry_def in_range_def fat_ok_def geometry_ok_def dev_read_def fat_entry_def healthy_def)

lemma scan_free_ok:
  assumes "fat_ok s" "\<forall>c \<in> set cs. in_range s (of_nat c)"
  shows "\<exists>r. scan_free cs s = Some r \<and>
    (case r of None \<Rightarrow> healthy (disk s) \<longrightarrow> (\<forall>c \<in> set cs. fat_entry s (of_nat c) \<noteq> 0)
     | Some c \<Rightarrow> (\<exists>n \<in> set cs. c = of_nat n) \<and> fat_entry s c = 0)"
  using assms(2)
proof (induction cs)
  case (Cons c cs)
  obtain v where v: "read_fat_entry (of_nat c) s = Some v" "v = 0 \<longrightarrow> fat_entry s (of_nat c) = 0"
      "healthy (disk s) \<longrightarrow> v = fat_entry s (of_nat c)"
    using read_fat_entry_total [OF assms(1), of "of_nat c"] Cons.prems by auto
  obtain r where r: "scan_free cs s = Some r" "case r of None \<Rightarrow> healthy (disk s) \<longrightarrow> (\<forall>c \<in> set cs. fat_entry s (of_nat c) \<noteq> 0)
     | Some c \<Rightarrow> (\<exists>n \<in> set cs. c = of_nat n) \<and> fat_entry s c = 0"
    using Cons.IH Cons.prems by auto
  show ?case
  proof (cases "v = 0")
    case True
    then show ?thesis using v by auto
  next
    case False
    then show ?thesis using v r by (cases r) auto
  qed
qed simp

lemma scan_range:
  assumes "fat_ok s" "2 \<le> a" "b \<le> total s"
  shows "\<exists>r. scan_free [a..<b] s = Some r \<and>
    (case r of None \<Rightarrow> healthy (disk s) \<longrightarrow> (\<forall>c. a \<le> unat c \<longrightarrow> unat c < b \<longrightarrow> fat_entry s c \<noteq> 0)
     | Some c \<Rightarrow> in_range s c \<and> fat_entry s c = 0)"
proof -
  have "unat (of_nat n :: u32) = n" if "n < b" for n
    using that assms(3) unat_lt_32 [of "get_total_clusters (bs s)"] by (intro unat_of_nat_lt) simp
  then have r: "\<forall>c \<in> set [a..<b]. in_range s (of_nat c)" using assms by (auto simp: in_range_unat)
  obtain r where sf: "scan_free [a..<b] s = Some r"
     "case r of None \<Rightarrow> healthy (disk s) \<longrightarrow> (\<forall>c \<in> set [a..<b]. fat_entry s (of_nat c) \<noteq> 0)
      | Some c \<Rightarrow> (\<exists>n \<in> set [a..<b]. c = of_nat n) \<and> fat_entry s c = 0"
    using scan_free_ok [OF assms(1) r] by blast
  have "fat_entry s c \<noteq> 0" if "r = None" "healthy (disk s)" "a \<le> unat c" "unat c < b" for c
  proof -
    have "\<forall>n \<in> set [a..<b]. fat_entry s (of_nat n) \<noteq> 0" using sf(2) that(1,2) by simp
    moreover have "unat c \<in> set [a..<b]" using that(3,4) by simp
    ultimately have "fat_entry s (of_nat (unat c)) \<noteq> 0" by blast
    then show ?thesis by simp
  qed
  then show ?thesis using sf r by (cases r) auto
qed

lemma find_free_cluster_ok:
  assumes "fat_ok s"
  shows "\<exists>s' c fi. find_free_cluster s = Some (s', c) \<and> s' = s\<lparr>fsinfo := fi\<rparr> \<and> fat_ok s' \<and>
    (if c = INVALID_CLUSTER then healthy (disk s) \<longrightarrow> (\<forall>c. in_range s c \<longrightarrow> fat_entry s c \<noteq> 0)
     else in_range s c \<and> fat_entry s c = 0)"
proof -
  define h where "h = (let hint = get32 (fsinfo s) 492 in
     if fsinfo_valid s \<and> hint \<noteq> 0xFFFFFFFF \<and> hint \<ge> 2 \<and> hint < get_total_clusters (bs s) then hint else 2)"
  define found where "found c = (if fsinfo_valid s then s\<lparr>fsinfo := put32 (fsinfo s) 492 (c + 1)\<rparr> else s, c :: u32)" for c
  have h: "2 \<le> unat h" "h = 2 \<or> unat h < total s"
    by (auto simp: h_def Let_def word_le_nat_alt word_less_nat_alt)
  obtain r where r: "scan_free [unat h..<total s] s = Some r"
     "case r of None \<Rightarrow> healthy (disk s) \<longrightarrow> (\<forall>c. unat h \<le> unat c \<longrightarrow> unat c < total s \<longrightarrow> fat_entry s c \<noteq> 0)
      | Some c \<Rightarrow> in_range s c \<and> fat_entry s c = 0"
    using scan_range [OF assms h(1)] by blast
  obtain q where q: "h > 2 \<Longrightarrow> scan_free [2..<unat h] s = Some q"
     "h > 2 \<Longrightarrow> (case q of None \<Rightarrow> healthy (disk s) \<longrightarrow> (\<forall>c. 2 \<le> unat c \<longrightarrow> unat c < unat h \<longrightarrow> fat_entry s c \<noteq> 0)
      | Some c \<Rightarrow> in_range s c \<and> fat_entry s c = 0)"
    using scan_range [OF assms, of 2 "unat h"] h(2) by (cases "h > 2") auto
  have f: "find_free_cluster s = (case r of Some c \<Rightarrow> Some (found c)
      | None \<Rightarrow> if h > 2 then (case q of Some c \<Rightarrow> Some (found c) | None \<Rightarrow> Some (s, INVALID_CLUSTER))
               else Some (s, INVALID_CLUSTER))"
    unfolding find_free_cluster_def Let_def h_def [unfolded Let_def, symmetric] found_def [symmetric]
    using q(1) by (simp add: r(1) split: option.splits)
  have hit: ?thesis if "find_free_cluster s = Some (found c)" "in_range s c \<and> fat_entry s c = 0" for c
  proof -
    have "c \<noteq> INVALID_CLUSTER" using that(2) assms by (auto simp: in_range_unat fat_ok_def geometry_ok_def)
    moreover have "\<exists>fi. fst (found c) = s\<lparr>fsinfo := fi\<rparr> \<and> fat_ok (fst (found c))" "snd (found c) = c"
      using assms by (auto simp: found_def fat_ok_def intro: exI [of _ "fsinfo s"])
    ultimately show ?thesis using that by (metis prod.collapse)
  qed
  have miss: ?thesis if "find_free_cluster s = Some (s, INVALID_CLUSTER)"
      "healthy (disk s) \<Longrightarrow> \<forall>c. in_range s c \<longrightarrow> fat_entry s c \<noteq> 0"
    using that assms by (intro exI [of _ s] exI [of _ INVALID_CLUSTER] exI [of _ "fsinfo s"]) simp
  show ?thesis
  proof (cases "r = None \<and> (h > 2 \<longrightarrow> q = None)")
    case True
    then have "fat_entry s c \<noteq> 0" if "healthy (disk s)" "in_range s c" for c
      using r(2) q(2) that h by (cases "unat h \<le> unat c") (auto simp: in_range_unat word_less_nat_alt)
    then show ?thesis using True f by (intro miss) auto
  next
    case False
    then obtain c where "r = Some c \<or> r = None \<and> h > 2 \<and> q = Some c" by (cases r; cases q) auto
    then show ?thesis using r(2) q(2) f by (intro hit [of c]) auto
  qed
qed

text \<open>
  \<^verbatim>\<open>find_free_cluster\<close> returns a cluster of the volume whose entry is 0, wherever the
  FSInfo hint points, and reports \<^verbatim>\<open>INVALID_CLUSTER\<close> on a healthy drive only when every
  cluster is in use; it changes nothing but the hint.
\<close>

theorem find_free_cluster_correct:
  assumes "fat_ok s"
  shows "\<exists>s' c fi. find_free_cluster s = Some (s', c) \<and> s' = s\<lparr>fsinfo := fi\<rparr> \<and> fat_ok s' \<and>
    (if c = INVALID_CLUSTER then healthy (disk s) \<longrightarrow> (\<forall>c. in_range s c \<longrightarrow> fat_entry s c \<noteq> 0)
     else in_range s c \<and> fat_entry s c = 0)"
  by (rule find_free_cluster_ok [OF assms])

theorem find_free_cluster_correct_witness:
  "\<exists>s' c. find_free_cluster (small_fat (\<lambda>_. replicate 512 0)) = Some (s', c) \<and> fat_ok s'"
  using find_free_cluster_correct [OF small_fat_ok, of "\<lambda>_. replicate 512 0"] by auto

subsection \<open>Chains\<close>

text \<open>The clusters of a chain, each entry naming the next and the last one an end mark.\<close>

fun chain :: "fat \<Rightarrow> u32 list \<Rightarrow> bool" where
  "chain s [] = False"
| "chain s [c] \<longleftrightarrow> in_range s c \<and> FAT32_EOC_MIN \<le> fat_entry s c"
| "chain s (c # c' # cs) \<longleftrightarrow> in_range s c \<and> c \<notin> set (c' # cs) \<and> fat_entry s c = c' \<and> chain s (c' # cs)"

lemma chain_in_range: "chain s cs \<Longrightarrow> c \<in> set cs \<Longrightarrow> in_range s c"
  by (induction s cs rule: chain.induct) auto

lemma chain_distinct: "chain s cs \<Longrightarrow> distinct cs"
  by (induction s cs rule: chain.induct) auto

lemma chain_cong:
  assumes "\<And>c. c \<in> set cs \<Longrightarrow> fat_entry s' c = fat_entry s c" "\<And>c. in_range s' c = in_range s c"
  shows "chain s' cs = chain s cs"
  using assms by (induction s cs rule: chain.induct) auto

lemma next_cluster_ok:
  assumes "fat_ok s" "healthy (disk s)" "in_range s c"
  shows "get_next_cluster_in_chain c s =
    Some (if FAT32_EOC_MIN \<le> fat_entry s c then INVALID_CLUSTER else fat_entry s c)"
  using assms by (simp add: get_next_cluster_in_chain_def fat_ok_def geometry_ok_def dev_read_def healthy_def
      fat_entry_def Let_def)

lemma in_range_lt: "fat_ok s \<Longrightarrow> in_range s c \<Longrightarrow> c < FAT32_EOC_MIN"
  by (simp add: in_range_unat fat_ok_def geometry_ok_def word_less_nat_alt)

lemma in_range_valid: "fat_ok s \<Longrightarrow> in_range s c \<Longrightarrow> is_valid_cluster (bs s) c"
  using in_range_lt [of s c] by (auto simp: in_range_def is_valid_cluster_def not_le)

lemma updated_in_range: "updated c v s s' \<Longrightarrow> in_range s' c' = in_range s c'"
  by (simp add: updated_def in_range_def)

lemma free_chain_loop_ok:
  "fat_ok s \<Longrightarrow> healthy (disk s) \<Longrightarrow> chain s (c # cs) \<Longrightarrow>
   \<exists>s'. free_chain_loop c s = Some (s', True) \<and> fat_ok s' \<and> bs s' = bs s \<and> healthy (disk s')
     \<and> partition_lba_offset s' = partition_lba_offset s
     \<and> (\<forall>c'. in_range s c' \<longrightarrow> fat_entry s' c' = (if c' \<in> set (c # cs) then 0 else fat_entry s c'))
     \<and> (\<forall>l. data_start s \<le> unat l \<longrightarrow> sectors (disk s') l = sectors (disk s) l) \<and> (mirrored s \<longrightarrow> mirrored s')"
proof (induction cs arbitrary: c s)
  case Nil
  have r: "in_range s c" "FAT32_EOC_MIN \<le> fat_entry s c" using Nil.prems(3) by simp_all
  obtain s1 where s1: "mark_cluster_in_fat c 0 s = Some (s1, True)" "updated c 0 s s1"
    using mark_cluster_healthy [OF Nil.prems(1,2) r(1)] by blast
  then have "free_chain_loop c s = Some (s1, True)"
    using next_cluster_ok [OF Nil.prems(1,2) r(1)] r(2) by (subst free_chain_loop.simps) simp
  then show ?case using s1(2) Nil.prems(2) by (auto simp: updated_def)
next
  case (Cons c2 cs)
  have r: "in_range s c" "c \<notin> set (c2 # cs)" "fat_entry s c = c2" "chain s (c2 # cs)" using Cons.prems(3) by simp_all
  have c2: "in_range s c2" using chain_in_range [OF r(4)] by simp
  obtain s1 where s1: "mark_cluster_in_fat c 0 s = Some (s1, True)" "updated c 0 s s1"
    using mark_cluster_healthy [OF Cons.prems(1,2) r(1)] by blast
  have b: "bs s1 = bs s" "partition_lba_offset s1 = partition_lba_offset s" "fat_ok s1" "healthy (disk s1)"
    using s1(2) Cons.prems(2) by (simp_all add: updated_def)
  have ds: "data_start s1 = data_start s" using b by (simp add: data_start_def fat_start_def)
  have "c2 \<noteq> INVALID_CLUSTER" "\<not> is_end_of_cluster_chain c2" "\<not> FAT32_EOC_MIN \<le> c2"
    using in_range_lt [OF Cons.prems(1) c2] by (auto simp: is_end_of_cluster_chain_def)
  then have step: "free_chain_loop c s = free_chain_loop c2 s1"
    using next_cluster_ok [OF Cons.prems(1,2) r(1)] r(3) s1(1) in_range_valid [OF Cons.prems(1) c2] b(1)
    by (subst free_chain_loop.simps) simp
  have "chain s1 (c2 # cs)"
    using r(2,4) chain_in_range [OF r(4)] s1(2) updated_in_range [OF s1(2)]
    by (subst chain_cong [of _ _ s]) (auto simp: updated_def)
  from Cons.IH [OF b(3,4) this] show ?case
    unfolding step using s1(2) updated_in_range [OF s1(2)] b ds
    by (elim exE conjE) (auto simp: updated_def)
qed

text \<open>
  Deleting frees: on a healthy drive \<^verbatim>\<open>free_cluster_chain\<close> terminates, sets the entry of
  every cluster of the chain to 0 and leaves every other entry, the data area and the
  mirroring of the tables as they are.
\<close>

theorem free_cluster_chain_correct:
  assumes "fat_ok s" "healthy (disk s)" "chain s (c # cs)"
  shows "\<exists>s'. free_cluster_chain c s = Some (s', True) \<and> fat_ok s'
     \<and> (\<forall>c'. in_range s c' \<longrightarrow> fat_entry s' c' = (if c' \<in> set (c # cs) then 0 else fat_entry s c'))
     \<and> (\<forall>l. data_start s \<le> unat l \<longrightarrow> sectors (disk s') l = sectors (disk s) l) \<and> (mirrored s \<longrightarrow> mirrored s')"
proof -
  have "in_range s c" using chain_in_range [OF assms(3)] by simp
  then have "free_cluster_chain c s = free_chain_loop c s"
    using in_range_valid [OF assms(1)] by (simp add: free_cluster_chain_def)
  then show ?thesis using free_chain_loop_ok [OF assms] by auto
qed

text \<open>A volume with the file 5, 6 and the file 9; every data sector is filled with its number.\<close>

definition sample :: fat where
  "sample = small_fat (\<lambda>l. if l = 1 \<or> l = 2
     then put32 (put32 (put32 (replicate 512 0) 20 6) 24 FAT32_EOC_MAX) 36 FAT32_EOC_MAX
     else replicate 512 (ucast l))"

lemma sample_ok: "fat_ok sample"
  unfolding sample_def by (rule small_fat_ok) simp

lemma sample_healthy: "healthy (disk sample)"
  by (simp add: sample_def small_fat_healthy)

lemma sample_chains: "chain sample [5, 6]" "chain sample [9]"
proof -
  have o: "ent_offset 5 sample = 20" "ent_offset 6 sample = 24" "ent_offset 9 sample = 36"
    "fat_sector 5 sample = 1" "fat_sector 6 sample = 1" "fat_sector 9 sample = 1"
    by (simp_all add: ent_offset_def fat_sector_def sample_def small_fat_def small_bs_def)
  have d: "sectors (disk sample) 1 = put32 (put32 (put32 (replicate 512 0) 20 6) 24 FAT32_EOC_MAX) 36 FAT32_EOC_MAX"
    by (simp add: sample_def small_fat_def)
  have "fat_entry sample 5 = 6" "fat_entry sample 6 = FAT32_EOC_MAX" "fat_entry sample 9 = FAT32_EOC_MAX"
    unfolding fat_entry_def o d by (simp_all add: get_put32_other)
  then show "chain sample [5, 6]" "chain sample [9]" by (simp_all add: sample_def small_in_range)
qed

theorem free_cluster_chain_correct_witness:
  "\<exists>s'. free_cluster_chain 5 sample = Some (s', True) \<and> fat_entry s' 5 = 0 \<and> fat_entry s' 6 = 0"
proof -
  have r: "in_range sample 5" "in_range sample 6" by (simp_all add: sample_def small_in_range)
  from free_cluster_chain_correct [OF sample_ok sample_healthy sample_chains(1)]
  obtain s' where "free_cluster_chain 5 sample = Some (s', True)"
    "\<forall>c'. in_range sample c' \<longrightarrow> fat_entry s' c' = (if c' \<in> set [5, 6] then 0 else fat_entry sample c')"
    by blast
  then show ?thesis using r by auto
qed

lemma chain_end_ok:
  "fat_ok s \<Longrightarrow> healthy (disk s) \<Longrightarrow> chain s cs \<Longrightarrow> chain_end (hd cs) s = Some (last cs)"
proof (induction s cs rule: chain.induct)
  case (2 s c)
  then show ?case using next_cluster_ok [of s c] by (subst chain_end.simps) simp
next
  case (3 s c c' cs)
  then have "c' < FAT32_EOC_MIN" using chain_in_range [of s "c' # cs" c'] in_range_lt [of s c'] by simp
  then show ?case using 3 next_cluster_ok [of s c] by (subst chain_end.simps) (auto simp: not_le)
qed simp

lemma chain_append:
  assumes "chain s' cs'" "set cs \<inter> set cs' = {}" "cs \<noteq> []"
    and "\<And>c. in_range s' c = in_range s c" "chain s cs"
    and "\<And>c. c \<in> set cs \<Longrightarrow> fat_entry s' c = (if c = last cs then hd cs' else fat_entry s c)"
  shows "chain s' (cs @ cs')"
  using assms
proof (induction s cs rule: chain.induct)
  case (2 s c)
  then show ?case by (cases cs') auto
next
  case (3 s c c' cs)
  have "c \<noteq> last (c' # cs)" using 3(6) last_in_set [of "c' # cs"] by auto
  then show ?case using 3 by (auto split: if_splits)
qed simp

text \<open>
  Linking extends: on a healthy drive \<^verbatim>\<open>link_cluster_to_chain\<close> finds the end of the chain,
  and the chain continues with the new one; the disjoint new chain itself is untouched.
\<close>

theorem link_cluster_to_chain_correct:
  assumes "fat_ok s" "healthy (disk s)" "chain s (c # cs)" "chain s (n # ns)"
    and "set (c # cs) \<inter> set (n # ns) = {}"
  shows "\<exists>s'. link_cluster_to_chain c n s = Some (s', True) \<and> fat_ok s' \<and> chain s' ((c # cs) @ n # ns)"
proof -
  let ?l = "last (c # cs)"
  have l: "?l \<in> set (c # cs)" by (rule last_in_set) simp
  have lr: "in_range s ?l" using chain_in_range [OF assms(3) l] .
  have nr: "in_range s n" using chain_in_range [OF assms(4)] by simp
  obtain s' where s': "mark_cluster_in_fat ?l n s = Some (s', True)" "updated ?l n s s'"
    using mark_cluster_healthy [OF assms(1,2) lr] by blast
  have "n AND 0x0FFFFFFF = n"
    using in_range_lt [OF assms(1) nr] unfolding masks
    by (intro less_mask_eq) (simp add: word_less_nat_alt)
  then have e: "fat_entry s' c' = (if c' = ?l then n else fat_entry s c')" if "in_range s c'" for c'
    using s'(2) that by (simp add: updated_def)
  have n: "chain s' (n # ns)"
    using assms(4,5) l chain_in_range [OF assms(4)] e updated_in_range [OF s'(2)]
    by (subst chain_cong [of _ _ s]) auto
  have "chain s' ((c # cs) @ n # ns)"
    using chain_in_range [OF assms(3)] e updated_in_range [OF s'(2)] assms(3,5)
    by (intro chain_append [OF n]) auto
  moreover have "link_cluster_to_chain c n s = Some (s', True)"
    using chain_end_ok [OF assms(1,2,3)] s'(1) by (simp add: link_cluster_to_chain_def)
  ultimately show ?thesis using s'(2) by (auto simp: updated_def)
qed

theorem link_cluster_to_chain_correct_witness:
  "\<exists>s'. link_cluster_to_chain 5 9 sample = Some (s', True) \<and> chain s' [5, 6, 9]"
  using link_cluster_to_chain_correct [OF sample_ok sample_healthy sample_chains] by auto

subsection \<open>File contents\<close>

definition cluster_data :: "fat \<Rightarrow> u32 \<Rightarrow> u8 list" where
  "cluster_data s c = concat (map (\<lambda>i. sectors (disk s) (cluster_to_sector c s + of_nat i)) [0..<spc s])"

definition chain_data :: "fat \<Rightarrow> u32 list \<Rightarrow> u8 list" where
  "chain_data s cs = concat (map (cluster_data s) cs)"

lemma take_split:
  assumes "now = min m (length b)"
  shows "take now b @ take (m - now) rest = take m (b @ rest)"
  using assms by (auto simp: min_def)

lemma take_chunk: "take m d @ take (m - length (take m d)) rest = take m (d @ rest)"
  by (auto simp: min_def)

lemma fill_bound: "a \<le> m \<Longrightarrow> a + min (m - a) x \<le> (m :: nat)"
  by simp

lemma read_file_sectors_ok:
  assumes "healthy (disk s)" "\<forall>l. length (sectors (disk s) l) = 512"
  shows "length acc \<le> min n bsz \<Longrightarrow> read_file_sectors is sec bsz n acc s
     = (acc @ take (min n bsz - length acc) (concat (map (\<lambda>i. sectors (disk s) (sec + of_nat i)) is)), False)"
proof (induction "is" arbitrary: acc)
  case (Cons i "is")
  let ?b = "sectors (disk s) (sec + of_nat i)" and ?m = "min n bsz - length acc"
  define now where "now = min ?m (length ?b)"
  have now: "(let now = min (n - length acc) 512
      in if length acc + now > bsz then bsz - length acc else now) = now"
    using Cons.prems assms(2) by (auto simp: now_def Let_def min_def)
  let ?rest = "concat (map (\<lambda>i. sectors (disk s) (sec + of_nat i)) is)"
  have len: "length (acc @ take now ?b) = length acc + now" by (simp add: now_def)
  have step: "read_file_sectors (i # is) sec bsz n acc s = (if now = 0 then (acc, False)
      else if length acc + now \<ge> n then (acc @ take now ?b, False)
      else read_file_sectors is sec bsz n (acc @ take now ?b) s)"
    using assms(1) len now by (simp add: dev_read_def healthy_def Let_def)
  show ?case
  proof (cases "now = 0 \<or> length acc + now \<ge> n")
    case True
    then have "?m \<le> now" using Cons.prems assms(2) by (auto simp: now_def min_def split: if_splits)
    then have "take ?m (?b @ ?rest) = take now ?b" using take_split [OF now_def, of ?rest] by simp
    then show ?thesis using step True by auto
  next
    case False
    have "length acc + now \<le> min n bsz" unfolding now_def by (rule fill_bound [OF Cons.prems])
    then have "length (acc @ take now ?b) \<le> min n bsz" by (simp only: len)
    from Cons.IH [OF this] step False len take_split [OF now_def, of ?rest] show ?thesis
      by (simp add: diff_diff_left)
  qed
qed simp

lemma read_file_loop_ok:
  "fat_ok s \<Longrightarrow> healthy (disk s) \<Longrightarrow> chain s (c # cs) \<Longrightarrow> length acc \<le> min n bsz \<Longrightarrow>
   read_file_loop c bsz n acc s = Some (acc @ take (min n bsz - length acc) (chain_data s (c # cs)))"
proof (induction cs arbitrary: c acc)
  case Nil
  have r: "in_range s c" "FAT32_EOC_MIN \<le> fat_entry s c" using Nil.prems(3) by simp_all
  have "\<forall>l. length (sectors (disk s) l) = 512" using Nil.prems(1) by (simp add: fat_ok_def)
  note rs = read_file_sectors_ok [OF Nil.prems(2) this Nil.prems(4)]
  show ?case
    using next_cluster_ok [OF Nil.prems(1,2) r(1)] r(2) rs
    by (subst read_file_loop.simps) (auto simp: Let_def chain_data_def cluster_data_def)
next
  case (Cons c2 cs)
  have r: "in_range s c" "fat_entry s c = c2" "chain s (c2 # cs)" using Cons.prems(3) by simp_all
  have c2: "in_range s c2" using chain_in_range [OF r(3)] by simp
  have "\<forall>l. length (sectors (disk s) l) = 512" using Cons.prems(1) by (simp add: fat_ok_def)
  note rs = read_file_sectors_ok [OF Cons.prems(2) this Cons.prems(4)]
  let ?m = "min n bsz - length acc" and ?d = "cluster_data s c"
  have ne: "c2 \<noteq> INVALID_CLUSTER" "\<not> is_end_of_cluster_chain c2" "\<not> FAT32_EOC_MIN \<le> c2"
    using in_range_lt [OF Cons.prems(1) c2] by (auto simp: is_end_of_cluster_chain_def)
  have "length (acc @ take ?m ?d) \<le> min n bsz"
    using fill_bound [OF Cons.prems(4), of "length ?d"] by (simp only: length_append length_take min.commute [of "length ?d"])
  note IH = Cons.IH [OF Cons.prems(1,2) r(3) this]
  have "read_file_loop c bsz n acc s
      = (if length acc < n then read_file_loop c2 bsz n (acc @ take ?m ?d) s else Some acc)"
    using next_cluster_ok [OF Cons.prems(1,2) r(1)] r(2) ne rs
    by (subst read_file_loop.simps) (simp add: Let_def cluster_data_def)
  moreover have "take ?m ?d @ take (min n bsz - length (acc @ take ?m ?d)) (chain_data s (c2 # cs))
      = take ?m (chain_data s (c # c2 # cs))"
    using take_chunk [of ?m ?d "chain_data s (c2 # cs)"]
    by (simp only: length_append diff_diff_left [symmetric]) (simp add: chain_data_def)
  ultimately show ?case using IH Cons.prems(4) by auto
qed

lemma read_file_ok:
  assumes "fat_ok s" "healthy (disk s)" "chain s (c # cs)"
  shows "read_file_data c buffer_size n s = Some (take (min n buffer_size) (chain_data s (c # cs)))"
proof (cases "buffer_size = 0 \<or> n = 0")
  case True
  then show ?thesis by (auto simp: read_file_data_def)
next
  case False
  then show ?thesis using read_file_loop_ok [OF assms, of "[]" n buffer_size] by (auto simp: read_file_data_def)
qed

text \<open>
  C11. Reading a file returns its contents: for the chain of a file on a healthy drive
  \<^verbatim>\<open>read_file_data\<close> terminates and stores exactly the bytes of the clusters of the chain in
  order, as many as were asked for and fit into the buffer.
\<close>

theorem read_file_data_correct:
  assumes "fat_ok s" "healthy (disk s)" "chain s (c # cs)"
  shows "read_file_data c buffer_size n s = Some (take (min n buffer_size) (chain_data s (c # cs)))"
  by (rule read_file_ok [OF assms])

theorem read_file_data_correct_witness:
  "read_file_data 5 1024 600 sample = Some (take 600 (chain_data sample [5, 6]))"
  using read_file_data_correct [OF sample_ok sample_healthy sample_chains(1), of 1024 600] by simp

end
