(* ===== verification/Fat32_Names.thy ===== *)
theory Fat32_Names
  imports Fat32
begin

text \<open>
  Names and times of FAT32 directory entries: the 8.3 form of a name and its comparison,
  and the packing of the clock into the time and date words.
\<close>

subsection \<open>Names\<close>

definition upcase :: "u8 \<Rightarrow> int" where
  "upcase c = toupper (char_int c)"

definition to_upper :: "u8 \<Rightarrow> u8" where
  "to_upper c = word_of_int (toupper (uint c))"

abbreviation alnum :: "u8 \<Rightarrow> bool" where
  "alnum c \<equiv> isalnum (uint c)"

text \<open>A name of up to eight letters and digits with an extension of up to three.\<close>

definition valid_83 :: "cstring \<Rightarrow> cstring \<Rightarrow> bool" where
  "valid_83 base ext \<longleftrightarrow> base \<noteq> [] \<and> length base \<le> 8 \<and> length ext \<le> 3
     \<and> (\<forall>c \<in> set base. alnum c) \<and> (\<forall>c \<in> set ext. alnum c)"

definition name_83 :: "cstring \<Rightarrow> cstring \<Rightarrow> cstring" where
  "name_83 base ext = base @ (if ext = [] then [] else 46 # ext)"

lemma alnum_not_dot: "alnum c \<Longrightarrow> c \<noteq> 46"
  by (auto simp: isalnum_def)

lemma small_char: "uint c < 128 \<Longrightarrow> char_int c = uint c"
proof -
  assume "uint c < 128"
  then have "uint c < 2 ^ 7" by simp
  moreover have "- (2 ^ 7) \<le> uint c" by (rule order_trans [of _ 0]) simp_all
  ultimately have "signed_take_bit 7 (uint c) = uint c" by (intro signed_take_bit_int_eq_self)
  then show ?thesis by (simp add: char_int_def sint_uint)
qed

lemma alnum_char: "alnum c \<Longrightarrow> char_int c = uint c"
proof -
  assume "alnum c"
  then have "uint c < 128" by (auto simp: isalnum_def)
  then show ?thesis by (rule small_char)
qed

lemma upcase_to_upper: "alnum c \<Longrightarrow> upcase (to_upper c) = upcase c"
proof -
  assume a: "alnum c"
  then have r: "0 \<le> toupper (uint c)" "toupper (uint c) < 128" "toupper (toupper (uint c)) = toupper (uint c)"
    by (auto simp: isalnum_def toupper_def)
  then have u: "uint (to_upper c) = toupper (uint c)" by (simp add: to_upper_def uint_word_of_int)
  have "char_int (to_upper c) = uint (to_upper c)"
    using u r by (intro small_char) simp
  then show ?thesis using r u alnum_char [OF a] by (simp add: upcase_def)
qed

lemma upcase_space: "upcase c = 32 \<longleftrightarrow> c = 32"
proof -
  have "char_int (32 :: u8) = 32" by (simp add: char_int_def)
  then show ?thesis
    using char_int_inj [of c 32] by (auto simp: upcase_def toupper_def)
qed

lemma copy_alnum_prefix:
  assumes "\<forall>c \<in> set xs. alnum c" "length xs \<le> n" "rest = [] \<or> stop \<and> hd rest = 46"
  shows "copy_alnum stop n (xs @ rest) = (map to_upper xs, rest)"
  using assms(1,2)
proof (induction xs arbitrary: n)
  case Nil
  then show ?case using assms(3) by (cases rest) auto
next
  case (Cons x xs)
  then show ?case using alnum_not_dot [of x] by (cases n) (auto simp: to_upper_def)
qed

lemma dropWhile_dot: "rest = [] \<or> hd rest = 46 \<Longrightarrow> dropWhile (\<lambda>c. c \<noteq> (46 :: u8)) rest = rest"
  by (cases rest) auto

lemma convert_valid:
  assumes "valid_83 base ext"
  shows "convert_to_83_format (name_83 base ext) = pad 8 (map to_upper base) @ pad 3 (map to_upper ext)"
proof -
  let ?r = "if ext = [] then [] else 46 # ext"
  have v: "base \<noteq> []" "\<forall>c \<in> set base. alnum c" "length base \<le> 8" "\<forall>c \<in> set ext. alnum c" "length ext \<le> 3"
    using assms by (simp_all add: valid_83_def)
  have "hd base \<noteq> 46" using v alnum_not_dot by simp
  then have ne: "name_83 base ext \<noteq> [46]" "name_83 base ext \<noteq> [46, 46]"
    using v(1) by (auto simp: name_83_def neq_Nil_conv)
  have c: "copy_alnum True 8 (name_83 base ext) = (map to_upper base, ?r)"
    unfolding name_83_def using v by (intro copy_alnum_prefix) auto
  have e: "fst (copy_alnum False 3 ext) = map to_upper ext"
    using copy_alnum_prefix [of ext 3 "[]" False] v by simp
  show ?thesis
    unfolding convert_to_83_format_def using ne c e by (simp add: dropWhile_dot pad_def)
qed

lemma compare_spaces:
  assumes "rest = [] \<or> stop \<and> hd rest = 46"
  shows "compare_part stop fs rest = (if fs = replicate (length fs) 32 then Some rest else None)"
  using assms by (induction fs) auto

lemma compare_part_prefix:
  assumes "\<forall>c \<in> set xs. alnum c" "length xs \<le> length fs" "rest = [] \<or> stop \<and> hd rest = 46"
  shows "compare_part stop fs (xs @ rest) =
    (if map upcase (take (length xs) fs) = map upcase xs
        \<and> drop (length xs) fs = replicate (length fs - length xs) 32 then Some rest else None)"
  using assms(1,2)
proof (induction xs arbitrary: fs)
  case Nil
  then show ?case using compare_spaces [OF assms(3)] by simp
next
  case (Cons x xs)
  then obtain f fs' where "fs = f # fs'" by (cases fs) auto
  with Cons show ?case using alnum_not_dot [of x] by (auto simp: upcase_def)
qed

lemma map_upcase_pad:
  assumes "\<forall>c \<in> set xs. alnum c" "length fs = n" "length xs \<le> n"
  shows "map upcase fs = map upcase (pad n (map to_upper xs)) \<longleftrightarrow>
    map upcase (take (length xs) fs) = map upcase xs \<and> drop (length xs) fs = replicate (length fs - length xs) 32"
proof -
  have up: "map upcase (map to_upper xs) = map upcase xs" using assms(1) by (auto simp: upcase_to_upper)
  have sp: "upcase 32 = 32" by (simp add: upcase_space)
  have dr: "map upcase ys = replicate (length ys) 32 \<longleftrightarrow> ys = replicate (length ys) 32" for ys
    by (auto simp: list_eq_iff_nth_eq upcase_space)
  have "map upcase fs = map upcase (take (length xs) fs) @ map upcase (drop (length xs) fs)"
    by (simp flip: map_append)
  then show ?thesis
    using assms dr [of "drop (length xs) fs"] up
    by (simp add: pad_def append_eq_append_conv map_replicate_const sp del: map_map)
qed

lemma compare_names_iff:
  assumes "valid_83 base ext" "length f = 11"
  shows "compare_names f (name_83 base ext) = 0
    \<longleftrightarrow> map upcase f = map upcase (convert_to_83_format (name_83 base ext))"
proof -
  let ?r = "if ext = [] then [] else 46 # ext"
  obtain A B where f: "f = A @ B" and len: "length A = 8" "length B = 3"
  proof
    show "f = take 8 f @ drop 8 f" by simp
  qed (use assms(2) in simp_all)
  have v: "\<forall>c \<in> set base. alnum c" "length base \<le> 8" "\<forall>c \<in> set ext. alnum c" "length ext \<le> 3"
    using assms by (simp_all add: valid_83_def)
  have a: "compare_part True A (name_83 base ext)
      = (if map upcase A = map upcase (pad 8 (map to_upper base)) then Some ?r else None)"
    unfolding name_83_def map_upcase_pad [OF v(1) len(1) v(2)]
    by (rule compare_part_prefix) (use v len in auto)
  have b: "compare_part False B ext
      = (if map upcase B = map upcase (pad 3 (map to_upper ext)) then Some [] else None)"
    unfolding map_upcase_pad [OF v(3) len(2) v(4)]
    using compare_part_prefix [of ext B "[]" False] v len by simp
  have l8: "length (pad 8 (map to_upper base)) = 8" using v(2) by (simp add: pad_def)
  have "map upcase f = map upcase (convert_to_83_format (name_83 base ext)) \<longleftrightarrow>
      map upcase A = map upcase (pad 8 (map to_upper base)) \<and> map upcase B = map upcase (pad 3 (map to_upper ext))"
    unfolding convert_valid [OF assms(1)] f using len l8 by (simp add: append_eq_append_conv)
  then show ?thesis using a b len by (cases "ext = []") (auto simp: compare_names_def f)
qed

text \<open>
  Names are compared by their 8.3 form: for every 8.3 name, a directory entry's name
  field matches it if and only if it is the field that \<^verbatim>\<open>convert_to_83_format\<close> stores for
  the name, up to the case of letters. In particular a stored name matches itself.
\<close>

theorem compare_names_correct:
  assumes "valid_83 base ext" "length f = 11"
  shows "compare_names f (name_83 base ext) = 0
    \<longleftrightarrow> map upcase f = map upcase (convert_to_83_format (name_83 base ext))"
  by (rule compare_names_iff [OF assms])

theorem compare_names_correct_witness:
  "compare_names (lit ''README  TXT'') (lit ''readme.txt'') = 0"
proof -
  have v: "valid_83 (lit ''readme'') (lit ''txt'')" by code_simp
  have n: "name_83 (lit ''readme'') (lit ''txt'') = lit ''readme.txt''" by code_simp
  have "map upcase (lit ''README  TXT'') = map upcase (convert_to_83_format (lit ''readme.txt''))" by code_simp
  then show ?thesis using compare_names_correct [OF v, of "lit ''README  TXT''"] unfolding n by (simp add: lit_def)
qed

subsection \<open>Times\<close>

lemma bit_small: "w < 2 ^ k \<Longrightarrow> k < LENGTH('a) \<Longrightarrow> k \<le> n \<Longrightarrow> \<not> bit (w :: 'a::len word) n"
  using less_mask_eq [of w k] by (metis bit_and_iff bit_mask_iff not_le)

lemma packed_fields:
  fixes a b c :: u16
  assumes "a < 2 ^ (16 - p - q)" "b < 2 ^ q" "c < 2 ^ p" "0 < p" "0 < q" "p + q < 16"
  defines "w \<equiv> push_bit (p + q) a OR push_bit p b OR c"
  shows "drop_bit (p + q) w AND mask (16 - p - q) = a" "drop_bit p w AND mask q = b" "w AND mask p = c"
proof -
  have bits: "n + p + q < 16" if "bit a n" for n
    using bit_small [OF assms(1), of n] that assms(4,6) by (cases "16 - p - q \<le> n") auto
  have bitsb: "n < q" if "bit b n" for n
    using bit_small [OF assms(2), of n] that assms by (cases "q \<le> n") auto
  have bitsc: "n < p" if "bit c n" for n
    using bit_small [OF assms(3), of n] that assms by (cases "p \<le> n") auto
  show "drop_bit (p + q) w AND mask (16 - p - q) = a"
    unfolding w_def using assms(6)
    by (intro bit_word_eqI) (auto simp: bit_and_iff bit_or_iff bit_push_bit_iff bit_mask_iff bit_drop_bit_eq
        dest: bits bitsb bitsc)
  show "drop_bit p w AND mask q = b"
    unfolding w_def using assms(6)
    by (intro bit_word_eqI) (auto simp: bit_and_iff bit_or_iff bit_push_bit_iff bit_mask_iff bit_drop_bit_eq
        dest: bits bitsb bitsc)
  show "w AND mask p = c"
    unfolding w_def using assms(6)
    by (intro bit_word_eqI) (auto simp: bit_and_iff bit_or_iff bit_push_bit_iff bit_mask_iff
        dest: bits bitsb bitsc)
qed

text \<open>
  The packed time and date of a directory entry read back as the clock's: hours,
  minutes, seconds to the even second below, and the date for the years 1980 to 2107.
\<close>

theorem fat32_time_roundtrip:
  assumes "0 \<le> hours r" "hours r < 24" "0 \<le> minutes r" "minutes r < 60" "0 \<le> seconds r" "seconds r < 60"
    and "1980 \<le> year r" "year r \<le> 2107" "1 \<le> month r" "month r \<le> 12" "1 \<le> day r" "day r \<le> 31"
  shows "extract_fat32_time (fat32_time r) = (hours r, minutes r, 2 * (seconds r div 2))"
    and "extract_fat32_date (fat32_date r) = (day r, month r, year r)"
proof -
  have u: "uint (word_of_int x :: u16) = x" if "0 \<le> x" "x < 128" for x
    using that by (simp add: uint_word_of_int)
  show "extract_fat32_time (fat32_time r) = (hours r, minutes r, 2 * (seconds r div 2))"
    using packed_fields [of "word_of_int (hours r)" 5 6 "word_of_int (minutes r)" "word_of_int (seconds r div 2)"] assms u
    by (simp add: extract_fat32_time_def fat32_time_def mask_numeral word_less_def)
  obtain y where y: "year r = y + 1980" by (metis diff_add_cancel)
  show "extract_fat32_date (fat32_date r) = (day r, month r, year r)"
    using packed_fields [of "word_of_int y" 5 4 "word_of_int (month r)" "word_of_int (day r)"] assms u
    by (simp add: y extract_fat32_date_def fat32_date_def mask_numeral word_less_def)
qed

theorem fat32_time_roundtrip_witness:
  "let r = \<lparr>year = 2024, month = 12, day = 31, hours = 23, minutes = 59, seconds = 59\<rparr>
   in extract_fat32_time (fat32_time r) = (23, 59, 58) \<and> extract_fat32_date (fat32_date r) = (31, 12, 2024)"
  using fat32_time_roundtrip [of "\<lparr>year = 2024, month = 12, day = 31, hours = 23, minutes = 59, seconds = 59\<rparr>"]
  by simp

end
