(* ===== verification/Fat32_Directory.thy ===== *)
theory Fat32_Directory
  imports Fat32_Correct Fat32_Names
begin

text \<open>
  Directories of the FAT32 file system: cluster I/O as reads and writes of a cluster's
  contents, the entries of a directory as a list, and the creation of a file followed by
  the search for it.
\<close>

subsection \<open>Cluster I/O\<close>

lemma cluster_position:
  assumes "geometry_ok s" "in_range s c" "i < spc s"
  shows "unat (cluster_to_sector c s + of_nat i) = data_start s + (unat c - 2) * spc s + i"
    "cluster_to_sector c s \<noteq> 0" "data_start s + (unat c - 2) * spc s + spc s < 4294967296"
proof -
  have c: "2 \<le> unat c" "unat c < total s" using assms(2) by (simp_all add: in_range_unat)
  have valid: "is_valid_cluster (bs s) c"
    using assms(1,2) by (auto simp: is_valid_cluster_def in_range_def geometry_ok_def word_less_nat_alt word_le_nat_alt not_le)
  have "Suc (unat c - 2) * spc s \<le> total s * spc s" using c by (intro mult_le_mono1) simp
  then show lt: "data_start s + (unat c - 2) * spc s + spc s < 4294967296"
    using assms(1) unfolding geometry_ok_def by simp
  have m: "unat ((c - 2) * ucast (sectors_per_cluster (bs s))) = (unat c - 2) * spc s"
  proof -
    have "unat (c - 2) = unat c - 2" using c by (subst unat_sub) (simp_all add: word_le_nat_alt)
    then show ?thesis using lt by (subst unat_mult_lt) simp_all
  qed
  have fs: "unat (ucast (number_of_fats (bs s)) * fat_size_32 (bs s)) = unat (number_of_fats (bs s)) * unat (fat_size_32 (bs s))"
    using lt by (subst unat_mult_lt) (simp_all add: data_start_def)
  have r: "unat (ucast (reserved_sector_count (bs s)) + ucast (number_of_fats (bs s)) * fat_size_32 (bs s))
      = unat (reserved_sector_count (bs s)) + unat (number_of_fats (bs s)) * unat (fat_size_32 (bs s))"
    using lt fs by (subst unat_plus_lt) (simp_all add: data_start_def fat_start_def)
  have pm: "unat (partition_lba_offset s + (c - 2) * ucast (sectors_per_cluster (bs s)))
      = unat (partition_lba_offset s) + (unat c - 2) * spc s"
    using lt m by (subst unat_plus_lt) (simp_all add: data_start_def fat_start_def)
  have cts: "unat (cluster_to_sector c s) = data_start s + (unat c - 2) * spc s"
    unfolding cluster_to_sector_def Let_def using valid lt pm r
    by (simp, subst unat_plus_lt) (simp_all add: data_start_def fat_start_def)
  have "unat (of_nat i :: u32) = i" using assms(3) unat_lt_8 [of "sectors_per_cluster (bs s)"]
    by (intro unat_of_nat_lt) simp
  then show "unat (cluster_to_sector c s + of_nat i) = data_start s + (unat c - 2) * spc s + i"
    using cts lt assms(3) by (subst unat_plus_lt) simp_all
  have "0 < unat (fat_size_32 (bs s))" "0 < unat (number_of_fats (bs s))"
    using assms(1) c by (auto simp: geometry_ok_def)
  then have "0 < data_start s" by (simp add: data_start_def)
  then show "cluster_to_sector c s \<noteq> 0" using cts by auto
qed

lemma first_data_sector:
  assumes "geometry_ok s" "in_range s c"
  shows "(c - 2) * ucast (sectors_per_cluster (bs s)) + get_first_data_sector s = cluster_to_sector c s"
proof -
  have valid: "is_valid_cluster (bs s) c"
    using assms by (auto simp: is_valid_cluster_def in_range_def geometry_ok_def word_less_nat_alt word_le_nat_alt not_le)
  have "bytes_per_sector (bs s) = 512" "root_entry_count (bs s) = 0"
    using assms(1) by (simp_all add: geometry_ok_def sector_fits_def)
  then show ?thesis using valid by (simp add: get_first_data_sector_def cluster_to_sector_def Let_def)
qed

lemma load_sectors_ok:
  "healthy (disk s) \<Longrightarrow> load_sectors is sec s = Some (concat (map (\<lambda>i. sectors (disk s) (sec + of_nat i)) is))"
  by (induction "is") (simp_all add: dev_read_def healthy_def)

lemma read_sectors_into_ok:
  assumes "healthy (disk s)" "\<forall>l. length (sectors (disk s) l) = 512" "length buf = n * 512"
  shows "k \<le> n \<Longrightarrow> read_sectors_into [k..<n] sec buf s
    = take (k * 512) buf @ concat (map (\<lambda>i. sectors (disk s) (sec + of_nat i)) [k..<n])"
  using assms(3)
proof (induction "n - k" arbitrary: k buf)
  case 0
  then show ?case by simp
next
  case (Suc m)
  then have kn: "k < n" by simp
  let ?b = "sectors (disk s) (sec + of_nat k)"
  let ?buf = "take (k * 512) buf @ ?b @ drop (k * 512 + length ?b) buf"
  have l: "length ?b = 512" using assms(2) by simp
  have lb: "length ?buf = n * 512" using Suc.prems(2) kn l by simp
  have "read_sectors_into [k..<n] sec buf s = read_sectors_into [Suc k..<n] sec ?buf s"
    using kn assms(1) by (simp add: upt_conv_Cons dev_read_def healthy_def)
  also have "\<dots> = take (Suc k * 512) ?buf @ concat (map (\<lambda>i. sectors (disk s) (sec + of_nat i)) [Suc k..<n])"
    using Suc kn lb by (intro Suc.hyps(1)) simp_all
  also have "take (Suc k * 512) ?buf = take (k * 512) buf @ ?b"
    using Suc.prems(2) kn l by simp
  finally show ?case using kn by (simp add: upt_conv_Cons)
qed

lemma read_cluster_ok:
  assumes "fat_ok s" "healthy (disk s)" "in_range s c" "length buf = spc s * 512"
  shows "read_cluster c buf s = cluster_data s c"
proof -
  have g: "geometry_ok s" "0 < spc s" using assms(1) by (simp_all add: fat_ok_def geometry_ok_def)
  have "read_sectors_into [0..<spc s] (cluster_to_sector c s) buf s = cluster_data s c"
    using read_sectors_into_ok [OF assms(2) _ assms(4), of 0 "cluster_to_sector c s"] assms(1)
    by (simp add: fat_ok_def cluster_data_def)
  then show ?thesis
    using in_range_valid [OF assms(1,3)] cluster_position(2) [OF g(1) assms(3) g(2)] by (simp add: read_cluster_def)
qed

lemma length_cluster_data: "fat_ok s \<Longrightarrow> length (cluster_data s c) = spc s * 512"
  by (simp add: cluster_data_def fat_ok_def length_concat o_def sum_list_triv)

lemma word_window:
  fixes l a :: u32
  assumes "unat a + n \<le> 4294967296"
  shows "unat (l - a) < n \<longleftrightarrow> unat a \<le> unat l \<and> unat l < unat a + n"
  using assms unat_lt_32 [of l] unat_lt_32 [of a] by (auto simp: unat_sub_if' split: if_splits)

lemma word_offset: "n < 4294967296 \<Longrightarrow> unat ((a + of_nat n) - a :: u32) = n"
  by (simp add: unat_of_nat_lt)

definition sectors_put :: "u32 \<Rightarrow> nat \<Rightarrow> nat \<Rightarrow> u8 list \<Rightarrow> fat \<Rightarrow> fat" where
  "sectors_put sec k n b s = s\<lparr>disk := (disk s)\<lparr>sectors := (\<lambda>l. let i = unat (l - sec) in
     if k \<le> i \<and> i < n then take 512 (drop (i * 512) b) else sectors (disk s) l)\<rparr>\<rparr>"

lemma write_sectors_ok:
  assumes "n < 4294967296"
  shows "healthy (disk s) \<Longrightarrow> k \<le> n \<Longrightarrow> write_sectors [k..<n] sec b s = (sectors_put sec k n b s, True)"
proof (induction "n - k" arbitrary: k s)
  case 0
  have "\<not> (k \<le> i \<and> i < k)" for i :: nat by simp
  then have "sectors_put sec k k b s = s" by (simp only: sectors_put_def Let_def) simp
  then show ?case using 0 by simp
next
  case (Suc m)
  then have kn: "k < n" by simp
  let ?b = "take 512 (drop (k * 512) b)" and ?l = "sec + of_nat k"
  let ?s = "s\<lparr>disk := (disk s)\<lparr>sectors := (sectors (disk s))(?l := ?b)\<rparr>\<rparr>"
  have "write_sectors [k..<n] sec b s = write_sectors [Suc k..<n] sec b ?s"
    using kn Suc.prems(1) by (simp add: upt_conv_Cons write_verified_healthy)
  also have "\<dots> = (sectors_put sec (Suc k) n b ?s, True)"
    using Suc.hyps(2) Suc.prems kn by (intro Suc.hyps(1)) (simp_all add: healthy_def)
  also have "sectors_put sec (Suc k) n b ?s = sectors_put sec k n b s"
  proof -
    have "l = ?l \<longleftrightarrow> unat (l - sec) = k" for l
    proof
      assume "unat (l - sec) = k"
      then have "of_nat k = l - sec" by auto
      then show "l = ?l" by simp
    qed (use word_offset [of k sec] kn assms in simp)
    then show ?thesis using kn by (auto simp: sectors_put_def Let_def fun_eq_iff)
  qed
  finally show ?case .
qed

text \<open>The state with the contents of a cluster replaced.\<close>

abbreviation cluster_put :: "u32 \<Rightarrow> u8 list \<Rightarrow> fat \<Rightarrow> fat" where
  "cluster_put c b s \<equiv> sectors_put (cluster_to_sector c s) 0 (spc s) b s"

lemma write_cluster_ok:
  assumes "fat_ok s" "healthy (disk s)" "in_range s c"
  shows "write_cluster c b s = Some (cluster_put c b s, True)"
proof -
  have g: "geometry_ok s" using assms(1) by (simp add: fat_ok_def)
  have "spc s < 4294967296" using unat_lt_8 [of "sectors_per_cluster (bs s)"] by simp
  then show ?thesis
    using write_sectors_ok [OF _ assms(2), of "spc s" 0] first_data_sector [OF g assms(3)] g
    by (simp add: write_cluster_def geometry_ok_def)
qed

lemma sectors_put_frame [simp]:
  "bs (sectors_put sec k n b s) = bs s" "partition_lba_offset (sectors_put sec k n b s) = partition_lba_offset s"
  "fsinfo (sectors_put sec k n b s) = fsinfo s" "fsinfo_valid (sectors_put sec k n b s) = fsinfo_valid s"
  "current_directory_cluster (sectors_put sec k n b s) = current_directory_cluster s"
  "heap_ok (sectors_put sec k n b s) = heap_ok s" "healthy (disk (sectors_put sec k n b s)) = healthy (disk s)"
  by (simp_all add: sectors_put_def healthy_def)

lemma cluster_window:
  assumes "geometry_ok s" "in_range s c"
  shows "unat (l - cluster_to_sector c s) < spc s
    \<longleftrightarrow> data_start s + (unat c - 2) * spc s \<le> unat l \<and> unat l < data_start s + (unat c - 2) * spc s + spc s"
proof -
  have "0 < spc s" using assms(1) by (simp add: geometry_ok_def)
  then have "unat (cluster_to_sector c s) = data_start s + (unat c - 2) * spc s"
    using cluster_position(1) [OF assms, of 0] by simp
  then show ?thesis
    using word_window [of "cluster_to_sector c s" "spc s" l] cluster_position(3) [OF assms \<open>0 < spc s\<close>] by simp
qed

lemma cluster_put_low:
  assumes "geometry_ok s" "in_range s c" "unat l < data_start s"
  shows "sectors (disk (cluster_put c b s)) l = sectors (disk s) l"
  using cluster_window [OF assms(1,2), of l] assms(3) by (simp add: sectors_put_def Let_def)

lemma fat_ok_cluster_put:
  assumes "fat_ok s" "length b = spc s * 512"
  shows "fat_ok (cluster_put c b s)"
proof -
  have "length (take 512 (drop (i * 512) b)) = 512" if "i < spc s" for i
  proof -
    have "Suc i * 512 \<le> spc s * 512" using that by (intro mult_le_mono1) simp
    then show ?thesis using assms(2) by simp
  qed
  then have "\<forall>l. length (sectors (disk (cluster_put c b s)) l) = 512"
    using assms(1) by (simp add: sectors_put_def Let_def fat_ok_def)
  then show ?thesis using assms(1)
    by (simp add: fat_ok_def geometry_ok_def sector_fits_def data_start_def fat_start_def)
qed

lemma fat_sector_low:
  assumes "geometry_ok s" "in_range s c" "k < unat (number_of_fats (bs s))"
  shows "unat (fat_sector c s + of_nat k * fat_size_32 (bs s)) < data_start s"
proof -
  let ?f = "unat (fat_size_32 (bs s))"
  have "unat c < total s" using assms(2) by (simp add: in_range_unat)
  note p = copy_position [OF assms(1) this assms(3)] fat_position(3) [OF assms(1) this]
  have "Suc k * ?f \<le> unat (number_of_fats (bs s)) * ?f" using assms(3) by (intro mult_le_mono1) simp
  then show ?thesis using p by (simp add: data_start_def)
qed

lemma fat_entry_cong:
  assumes "geometry_ok s" "in_range s c" "bs s' = bs s" "partition_lba_offset s' = partition_lba_offset s"
    and "\<And>l. fat_start s \<le> unat l \<Longrightarrow> unat l < data_start s \<Longrightarrow> sectors (disk s') l = sectors (disk s) l"
  shows "fat_entry s' c = fat_entry s c"
proof -
  have "fat_sector c s' = fat_sector c s" "ent_offset c s' = ent_offset c s"
    using assms(3,4) by (simp_all add: fat_sector_def ent_offset_def)
  moreover have "fat_start s \<le> unat (fat_sector c s)" "unat (fat_sector c s) < data_start s"
    using fat_position(1) [OF assms(1), of c] fat_sector_low [OF assms(1,2) fats_pos [OF assms(1)]] assms(2)
    by (simp_all add: in_range_unat)
  ultimately show ?thesis using assms(5) by (simp add: fat_entry_def)
qed

lemma cluster_to_sector_cong:
  "bs s' = bs s \<Longrightarrow> partition_lba_offset s' = partition_lba_offset s \<Longrightarrow> cluster_to_sector c s' = cluster_to_sector c s"
  by (simp add: cluster_to_sector_def Let_def)

lemma cluster_data_cong:
  assumes "geometry_ok s" "in_range s c" "bs s' = bs s" "partition_lba_offset s' = partition_lba_offset s"
    and "\<And>l. data_start s + (unat c - 2) * spc s \<le> unat l \<Longrightarrow> unat l < data_start s + (unat c - 2) * spc s + spc s
           \<Longrightarrow> sectors (disk s') l = sectors (disk s) l"
  shows "cluster_data s' c = cluster_data s c"
proof -
  have "sectors (disk s') (cluster_to_sector c s + of_nat i) = sectors (disk s) (cluster_to_sector c s + of_nat i)"
    if "i < spc s" for i
    using cluster_position(1) [OF assms(1,2) that] that by (intro assms(5)) simp_all
  then show ?thesis
    using assms(3) cluster_to_sector_cong [OF assms(3,4)] by (auto simp: cluster_data_def intro!: arg_cong [of _ _ concat])
qed

lemma concat_chunks: "length b = n * 512 \<Longrightarrow> concat (map (\<lambda>i. take 512 (drop (i * 512) b)) [0..<n]) = b"
proof (induction n arbitrary: b)
  case (Suc n)
  have "concat (map (\<lambda>i. take 512 (drop (i * 512) (drop 512 b))) [0..<n]) = drop 512 b"
    using Suc.prems by (intro Suc.IH) simp
  moreover have "map (\<lambda>i. take 512 (drop (i * 512) b)) [0..<Suc n]
      = take 512 b # map (\<lambda>i. take 512 (drop (i * 512) (drop 512 b))) [0..<n]"
    by (simp add: upt_conv_Cons map_Suc_upt [symmetric] o_def add.commute del: upt_Suc)
  ultimately show ?case by simp
qed simp

lemma cluster_data_put_same:
  assumes "length b = spc s * 512"
  shows "cluster_data (cluster_put c b s) c = b"
proof -
  have "spc s < 4294967296" using unat_lt_8 [of "sectors_per_cluster (bs s)"] by simp
  then have "sectors (disk (cluster_put c b s)) (cluster_to_sector c s + of_nat i) = take 512 (drop (i * 512) b)"
    if "i < spc s" for i
    using word_offset [of i "cluster_to_sector c s"] that by (simp add: sectors_put_def Let_def)
  then have "cluster_data (cluster_put c b s) c = concat (map (\<lambda>i. take 512 (drop (i * 512) b)) [0..<spc s])"
    by (auto simp: cluster_data_def cluster_to_sector_cong [of "cluster_put c b s" s] intro!: arg_cong [of _ _ concat])
  then show ?thesis using concat_chunks [OF assms] by simp
qed

lemma cluster_data_put_other:
  assumes "geometry_ok s" "in_range s c" "in_range s c'" "c' \<noteq> c"
  shows "cluster_data (cluster_put c b s) c' = cluster_data s c'"
proof (rule cluster_data_cong [OF assms(1,3)])
  fix l :: u32
  assume l: "data_start s + (unat c' - 2) * spc s \<le> unat l" "unat l < data_start s + (unat c' - 2) * spc s + spc s"
  have ne: "unat c - 2 \<noteq> unat c' - 2" using assms(2-4) by (auto simp: in_range_unat word_unat_eq_iff)
  have "\<not> (data_start s + (unat c - 2) * spc s \<le> unat l \<and> unat l < data_start s + (unat c - 2) * spc s + spc s)"
  proof (cases "unat c - 2 < unat c' - 2")
    case True
    then have "Suc (unat c - 2) * spc s \<le> (unat c' - 2) * spc s" by (intro mult_le_mono1) simp
    then show ?thesis using l by simp
  next
    case False
    then have "Suc (unat c' - 2) * spc s \<le> (unat c - 2) * spc s" using ne by (intro mult_le_mono1) simp
    then show ?thesis using l by simp
  qed
  then show "sectors (disk (cluster_put c b s)) l = sectors (disk s) l"
    unfolding sectors_put_def Let_def using cluster_window [OF assms(1,2), of l] by auto
qed simp_all

subsection \<open>Entries\<close>

lemma length_entries [simp]: "length (entries b) = length b div 32"
  by (simp add: entries_def)

lemma nth_entries: "j < length b div 32 \<Longrightarrow> entries b ! j = take 32 (drop (32 * j) b)"
  by (simp add: entries_def)

lemma length_set_entry_at [simp]:
  "length e = 32 \<Longrightarrow> i < length b div 32 \<Longrightarrow> length (set_entry_at i e b) = length b"
  by (simp add: set_entry_at_def)

lemma window_update:
  assumes "length e = (n :: nat)" "n * i + n \<le> length b" "n * j + n \<le> length b"
  shows "take n (drop (n * j) (take (n * i) b @ e @ drop (n * i + n) b)) = (if j = i then e else take n (drop (n * j) b))"
proof -
  consider "j = i" | "Suc j \<le> i" | "Suc i \<le> j" by linarith
  then show ?thesis
  proof cases
    case 2
    then have "n * Suc j \<le> n * i" by (rule mult_le_mono2)
    then have "n \<le> n * i - n * j" "n * j \<le> n * i" unfolding mult_Suc_right by linarith+
    moreover from this have "n \<le> length b - n * j" "min n (n * i - n * j) = n" using assms by simp_all
    moreover have "min (length b) (n * i) = n * i" using assms(2) by simp
    ultimately show ?thesis using 2 by (simp add: drop_take)
  next
    case 3
    then have "n * Suc i \<le> n * j" by (rule mult_le_mono2)
    then show ?thesis using assms 3 by simp
  qed (use assms in simp)
qed

lemma entries_set_entry_at:
  assumes "length e = 32" "i < length b div 32"
  shows "entries (set_entry_at i e b) = (entries b)[i := e]"
proof (rule nth_equalityI)
  show "length (entries (set_entry_at i e b)) = length ((entries b)[i := e])" using assms by simp
  fix j assume "j < length (entries (set_entry_at i e b))"
  then have j: "j < length b div 32" using assms by simp
  have "32 * i + 32 \<le> length b" "32 * j + 32 \<le> length b" using assms(2) j by simp_all
  then have "take 32 (drop (32 * j) (set_entry_at i e b)) = (if j = i then e else take 32 (drop (32 * j) b))"
    unfolding set_entry_at_def using assms(1) by (intro window_update) simp_all
  then show "entries (set_entry_at i e b) ! j = (entries b)[i := e] ! j"
    using assms j by (simp add: nth_entries nth_list_update)
qed

lemma free_index_Some:
  assumes "free_index es = Some i"
  shows "i < length es" "es ! i ! 0 = 0 \<or> es ! i ! 0 = 0xE5" "\<forall>j<i. es ! j ! 0 \<noteq> 0 \<and> es ! j ! 0 \<noteq> 0xE5"
  using assms by (auto simp: free_index_def find_Some_iff)

text \<open>An entry stored in the first free slot is found, unless an earlier one matches.\<close>

lemma scan_entries_update:
  assumes "\<And>f. scan_entries p es \<noteq> Some (Some f)" "i < length es" "\<forall>j<i. es ! j ! 0 \<noteq> 0"
    and "e ! 0 \<noteq> 0" "e ! 0 \<noteq> 0xE5" "entry_attr e AND 0x0F \<noteq> 0x0F" "p e"
  shows "scan_entries p (es[i := e]) = Some (Some e)"
  using assms(1-3)
proof (induction es arbitrary: i)
  case (Cons h es)
  show ?case
  proof (cases i)
    case 0
    then show ?thesis using assms(4-7) by simp
  next
    case (Suc k)
    have "h ! 0 \<noteq> 0" "\<forall>j<k. es ! j ! 0 \<noteq> 0" using Cons.prems(3) Suc by fastforce+
    moreover have "scan_entries p es \<noteq> Some (Some f)" for f
      using Cons.prems(1) [of f] \<open>h ! 0 \<noteq> 0\<close> Cons.prems(1) [of h] by (auto split: if_splits)
    moreover have "h ! 0 = 0xE5 \<or> entry_attr h AND 0x0F = 0x0F \<or> \<not> p h"
      using Cons.prems(1) [of h] \<open>h ! 0 \<noteq> 0\<close> by auto
    ultimately show ?thesis using Cons.IH [of k] Cons.prems(2) Suc by auto
  qed
qed simp

lemma length_pad [simp]: "length xs \<le> n \<Longrightarrow> length (pad n xs) = n"
  by (simp add: pad_def)

lemma length_bytes16 [simp]: "length (bytes16 v) = 2"
  by (simp add: bytes16_def)

lemma length_copy_alnum: "length (fst (copy_alnum stop n xs)) \<le> n"
  by (induction stop n xs rule: copy_alnum.induct) auto

lemma length_convert [simp]: "length (convert_to_83_format name) = 11"
proof -
  have "length a \<le> 8" if "copy_alnum True 8 name = (a, r)" for a r
    using length_copy_alnum [of True 8 name] that by simp
  moreover have "length (fst (copy_alnum False 3 r)) \<le> 3" for r by (rule length_copy_alnum)
  ultimately show ?thesis by (auto simp: convert_to_83_format_def Let_def split: prod.splits)
qed

lemma halves_word:
  "push_bit 16 (ucast (ucast (drop_bit 16 c AND 0xFFFF) :: u16)) OR ucast (ucast (c AND 0xFFFF) :: u16) = (c :: u32)"
proof (rule bit_word_eqI)
  fix n assume n: "n < LENGTH(32)"
  have m: "(0xFFFF :: u32) = mask 16" by (simp add: mask_eq_exp_minus_1)
  show "bit (push_bit 16 (ucast (ucast (drop_bit 16 c AND 0xFFFF) :: u16)) OR ucast (ucast (c AND 0xFFFF) :: u16) :: u32) n
      = bit c n"
    unfolding m using n
    by (auto simp: bit_or_iff bit_push_bit_iff bit_unsigned_iff bit_and_iff bit_mask_iff bit_drop_bit_eq)
qed

lemma create_directory_entry_fields:
  fixes now name c attr
  defines "e \<equiv> create_directory_entry now name c attr"
  shows "length e = 32" "take 11 e = convert_to_83_format name" "entry_attr e = attr"
    "read_start_cluster e = c" "entry_size e = 0"
proof -
  show "length e = 32" "take 11 e = convert_to_83_format name" "entry_attr e = attr"
    by (simp_all add: e_def create_directory_entry_def entry_attr_def nth_append)
  have "get16 e 20 = ucast (drop_bit 16 c AND 0xFFFF)" "get16 e 26 = ucast (c AND 0xFFFF)"
    by (simp_all add: e_def create_directory_entry_def get16_def nth_append bytes16_def word16_bytes)
  then show "read_start_cluster e = c" by (simp add: read_start_cluster_def halves_word)
  show "entry_size e = 0"
    by (simp add: e_def create_directory_entry_def entry_size_def get32_def nth_append bytes16_def word32_def)
qed

subsection \<open>Creating a file\<close>

lemma add_entry_to_directory_ok:
  assumes "fat_ok s" "healthy (disk s)" "in_range s d" "length junk = spc s * 512"
    and "free_index (entries (cluster_data s d)) = Some i"
  shows "add_entry_to_directory now junk d name c attr s
    = Some (cluster_put d (set_entry_at i (create_directory_entry now name c attr) (cluster_data s d)) s, True)"
  unfolding add_entry_to_directory_def
  using assms read_cluster_ok [OF assms(1-4)] in_range_lt [OF assms(1,3)] write_cluster_ok [OF assms(1-3)]
  by (subst add_entry_loop.simps) simp

text \<open>Writing FSInfo back changes at most its sector, which lies in front of the tables.\<close>

lemma write_fsinfo_frame:
  assumes "fat_ok s" "healthy (disk s)" "unat (fs_info (bs s)) < unat (reserved_sector_count (bs s))"
  defines "s' \<equiv> fst (write_fsinfo s)"
  shows "fat_ok s'" "bs s' = bs s" "partition_lba_offset s' = partition_lba_offset s" "heap_ok s' = heap_ok s"
    "current_directory_cluster s' = current_directory_cluster s" "healthy (disk s')"
    "fat_start s \<le> unat l \<Longrightarrow> sectors (disk s') l = sectors (disk s) l"
proof -
  have w: "s' = (if fsinfo_valid s then s\<lparr>disk := (disk s)\<lparr>sectors := (sectors (disk s))(fsinfo_sector s := fsinfo s)\<rparr>\<rparr> else s)"
    using assms(2) by (simp add: s'_def write_fsinfo_def dev_write_def dev_read_def healthy_def Let_def)
  show "bs s' = bs s" "partition_lba_offset s' = partition_lba_offset s" "heap_ok s' = heap_ok s"
    "current_directory_cluster s' = current_directory_cluster s" "healthy (disk s')"
    using assms(2) by (simp_all add: w healthy_def)
  then show "fat_ok s'" using assms(1)
    by (simp add: fat_ok_def geometry_ok_def sector_fits_def data_start_def fat_start_def) (simp add: w)
  have "fat_start s < 4294967296" using assms(1) by (simp add: fat_ok_def geometry_ok_def data_start_def)
  then have "unat (fsinfo_sector s) = unat (partition_lba_offset s) + unat (fs_info (bs s))"
    using assms(3) unfolding fsinfo_sector_def by (subst unat_plus_lt) (simp_all add: fat_start_def)
  then have "unat (fsinfo_sector s) < fat_start s" using assms(3) by (simp add: fat_start_def)
  then show "fat_start s \<le> unat l \<Longrightarrow> sectors (disk s') l = sectors (disk s) l" by (auto simp: w)
qed

lemma find_file_eq:
  assumes "fat_ok s" "healthy (disk s)" "heap_ok s"
  shows "find_file_in_directory name s
    = (case scan_entries (\<lambda>e. compare_names (take 11 e) name = 0) (entries (cluster_data s (current_directory_cluster s))) of
         None \<Rightarrow> None | Some r \<Rightarrow> r)"
  using assms load_sectors_ok [OF assms(2)] by (simp add: find_file_in_directory_def cluster_data_def)

lemma toupper_alnum_first:
  assumes "valid_83 base ext"
  shows "convert_to_83_format (name_83 base ext) ! 0 \<noteq> 0" "convert_to_83_format (name_83 base ext) ! 0 \<noteq> 0xE5"
proof -
  obtain x xs where b: "base = x # xs" "alnum x" using assms by (cases base) (auto simp: valid_83_def)
  have f: "convert_to_83_format (name_83 base ext) ! 0 = to_upper x"
    unfolding convert_valid [OF assms] using b(1) by (simp add: pad_def)
  have r: "47 < toupper (uint x)" "toupper (uint x) < 91" using b(2) by (auto simp: isalnum_def toupper_def)
  have "uint (to_upper x) = toupper (uint x)"
    unfolding to_upper_def using r by (subst uint_word_of_int_eq) (simp add: take_bit_int_eq_self)
  then show "convert_to_83_format (name_83 base ext) ! 0 \<noteq> 0" "convert_to_83_format (name_83 base ext) ! 0 \<noteq> 0xE5"
    unfolding f using r by auto
qed

text \<open>
  A directory entry is stored and FSInfo is written back, as at the end of a creation: only
  the cluster of the directory changes.
\<close>

lemma store_entry_effect:
  assumes "fat_ok s" "healthy (disk s)" "in_range s d" "i < length (cluster_data s d) div 32" "length e = 32"
    and "unat (fs_info (bs s)) < unat (reserved_sector_count (bs s))"
  defines "s' \<equiv> fst (write_fsinfo (cluster_put d (set_entry_at i e (cluster_data s d)) s))"
  shows "fat_ok s'" "bs s' = bs s" "heap_ok s' = heap_ok s" "healthy (disk s')"
    "current_directory_cluster s' = current_directory_cluster s"
    "in_range s c \<Longrightarrow> fat_entry s' c = fat_entry s c"
    "entries (cluster_data s' d) = (entries (cluster_data s d))[i := e]"
    "in_range s c \<Longrightarrow> c \<noteq> d \<Longrightarrow> cluster_data s' c = cluster_data s c"
proof -
  define b where "b = set_entry_at i e (cluster_data s d)"
  let ?s = "cluster_put d b s"
  have g: "geometry_ok s" using assms(1) by (simp add: fat_ok_def)
  have lb: "length b = spc s * 512" using assms(4,5) by (simp add: b_def length_cluster_data [OF assms(1)])
  have ok: "fat_ok ?s" by (rule fat_ok_cluster_put [OF assms(1) lb])
  have st: "data_start ?s = data_start s" "fat_start ?s = fat_start s" "in_range ?s c = in_range s c" for c
    by (simp_all add: data_start_def fat_start_def in_range_def)
  note w = write_fsinfo_frame [of ?s, unfolded b_def, folded s'_def, folded b_def, unfolded sectors_put_frame,
      OF ok assms(2,6), unfolded st]
  from w show "fat_ok s'" "bs s' = bs s" "heap_ok s' = heap_ok s" "healthy (disk s')"
    "current_directory_cluster s' = current_directory_cluster s" by simp_all
  show "fat_entry s' c = fat_entry s c" if "in_range s c"
    using w cluster_put_low [OF g assms(3), of _ b] that by (intro fat_entry_cong [OF g]) simp_all
  have cd: "cluster_data s' c = cluster_data ?s c" if "in_range s c" for c
    using w that ok st by (intro cluster_data_cong) (simp_all add: fat_ok_def data_start_def)
  show "entries (cluster_data s' d) = (entries (cluster_data s d))[i := e]"
    using cd [OF assms(3)] cluster_data_put_same [OF lb] entries_set_entry_at [OF assms(5,4)] by (simp add: b_def)
  show "cluster_data s' c = cluster_data s c" if "in_range s c" "c \<noteq> d"
    using cd [OF that(1)] cluster_data_put_other [OF g assms(3) that] by simp
qed

text \<open>The first two steps of a creation: a free cluster becomes a chain of its own.\<close>

lemma claim_cluster:
  assumes "fat_ok s" "healthy (disk s)" "in_range s k" "fat_entry s k = 0"
  obtains s1 c s2 where "find_free_cluster s = Some (s1, c)" "c \<noteq> INVALID_CLUSTER" "in_range s c" "fat_entry s c = 0"
    "mark_cluster_in_fat c FAT32_EOC_MAX s1 = Some (s2, True)" "fat_ok s2" "healthy (disk s2)" "bs s2 = bs s"
    "current_directory_cluster s2 = current_directory_cluster s" "heap_ok s2 = heap_ok s"
    "\<And>c'. in_range s c' \<Longrightarrow> fat_entry s2 c' = (if c' = c then FAT32_EOC_MAX else fat_entry s c')"
    "\<And>c'. in_range s c' \<Longrightarrow> cluster_data s2 c' = cluster_data s c'"
proof -
  obtain fi c where f: "find_free_cluster s = Some (s\<lparr>fsinfo := fi\<rparr>, c)" "fat_ok (s\<lparr>fsinfo := fi\<rparr>)"
      "in_range s c" "fat_entry s c = 0" "c \<noteq> INVALID_CLUSTER"
    using find_free_cluster_ok [OF assms(1)] assms(2-4) by (auto split: if_splits)
  obtain s2 where s2: "mark_cluster_in_fat c FAT32_EOC_MAX (s\<lparr>fsinfo := fi\<rparr>) = Some (s2, True)"
      "updated c FAT32_EOC_MAX (s\<lparr>fsinfo := fi\<rparr>) s2"
    using mark_cluster_healthy [OF f(2), of c] assms(2) f(3) by auto
  have g: "geometry_ok s" using assms(1) by (simp add: fat_ok_def)
  have "cluster_data s2 c' = cluster_data s c'" if "in_range s c'" for c'
    using s2(2) by (intro cluster_data_cong [OF g that]) (simp_all add: updated_def)
  then show ?thesis using that [OF f(1,5,3,4) s2(1)] s2(2) assms(2) by (simp add: updated_def)
qed

text \<open>
  C3. Creating a file: on a healthy drive with a free cluster and a free slot in the first
  cluster of the current directory, \<^verbatim>\<open>fat32_create_file\<close> succeeds for a new 8.3 name; the
  file is then found under its name with size 0 and a chain of one formerly free cluster. In the
  directory one slot that was free or deleted holds the new entry and all other slots are
  unchanged; so are every other table entry, the contents of every other cluster, and the
  boot sector in memory.
\<close>

theorem fat32_create_file_correct:
  fixes s base ext
  defines "name \<equiv> name_83 base ext" and "d \<equiv> current_directory_cluster s"
  assumes "fat_ok s" "healthy (disk s)" "heap_ok s" "valid_83 base ext" "in_range s d"
    and "length junk = spc s * 512" "unat (fs_info (bs s)) < unat (reserved_sector_count (bs s))"
    and "free_index (entries (cluster_data s d)) \<noteq> None" "find_file_in_directory name s = None"
    and "in_range s k" "fat_entry s k = 0"
  shows "\<exists>s' c e i. fat32_create_file now junk name s = Some (s', True) \<and> fat_ok s' \<and> bs s' = bs s
    \<and> i < length (entries (cluster_data s d)) \<and> entries (cluster_data s d) ! i ! 0 \<in> {0, 0xE5}
    \<and> entries (cluster_data s' d) = (entries (cluster_data s d))[i := e]
    \<and> in_range s c \<and> fat_entry s c = 0 \<and> chain s' [c]
    \<and> find_file_in_directory name s' = Some e \<and> read_start_cluster e = c \<and> entry_size e = 0
    \<and> (\<forall>c'. in_range s c' \<and> c' \<noteq> c \<longrightarrow> fat_entry s' c' = fat_entry s c')
    \<and> (\<forall>c'. in_range s c' \<and> c' \<noteq> d \<longrightarrow> cluster_data s' c' = cluster_data s c')"
proof -
  obtain s1 c s2 where c: "find_free_cluster s = Some (s1, c)" "c \<noteq> INVALID_CLUSTER" "in_range s c" "fat_entry s c = 0"
    "mark_cluster_in_fat c FAT32_EOC_MAX s1 = Some (s2, True)" "fat_ok s2" "healthy (disk s2)" "bs s2 = bs s"
    "current_directory_cluster s2 = current_directory_cluster s" "heap_ok s2 = heap_ok s"
    "\<And>c'. in_range s c' \<Longrightarrow> fat_entry s2 c' = (if c' = c then FAT32_EOC_MAX else fat_entry s c')"
    "\<And>c'. in_range s c' \<Longrightarrow> cluster_data s2 c' = cluster_data s c'"
    by (rule claim_cluster [OF assms(3,4,12,13)]) (rule that, assumption+)
  note c = c(1-8) c(9) [folded d_def] c(10) [THEN iffD2, OF assms(5)] c(11,12)
  have r2: "in_range s2 c' = in_range s c'" for c' by (simp add: in_range_def c(8))
  obtain i where i: "free_index (entries (cluster_data s2 d)) = Some i" using assms(10) c(12) [OF assms(7)] by auto
  define e where "e = create_directory_entry now name c 0"
  note ef = create_directory_entry_fields [of now name c 0, folded e_def]
  define s3 where "s3 = cluster_put d (set_entry_at i e (cluster_data s2 d)) s2"
  have "add_entry_to_directory now junk d name c 0 s2 = Some (s3, True)"
    using add_entry_to_directory_ok [OF c(6,7), of d junk i now name c 0] assms(7,8) i r2
    by (simp add: c(8) e_def s3_def)
  then have run: "fat32_create_file now junk name s = Some (fst (write_fsinfo s3), True)"
    using c(1,2,5) by (simp add: fat32_create_file_def c(9))
  have eff: "i < length (cluster_data s2 d) div 32" "in_range s2 d"
      "unat (fs_info (bs s2)) < unat (reserved_sector_count (bs s2))"
    using free_index_Some(1) [OF i] r2 assms(7,9) c(8) by simp_all
  note w = store_entry_effect [OF c(6,7) eff(2,1) ef(1) eff(3), folded s3_def, unfolded r2]
  have "scan_entries (\<lambda>e. compare_names (take 11 e) name = 0) ((entries (cluster_data s2 d))[i := e]) = Some (Some e)"
  proof (rule scan_entries_update)
    show "scan_entries (\<lambda>e. compare_names (take 11 e) name = 0) (entries (cluster_data s2 d)) \<noteq> Some (Some f)" for f
      using assms(11) find_file_eq [OF assms(3-5), of name] c(12) [OF assms(7)] by (auto simp: d_def)
    have "e ! 0 = convert_to_83_format name ! 0" using ef(2) by (metis nth_take zero_less_numeral)
    then show "e ! 0 \<noteq> 0" "e ! 0 \<noteq> 0xE5" using toupper_alnum_first [OF assms(6)] by (simp_all add: name_def)
    show "compare_names (take 11 e) name = 0" unfolding ef(2) name_def
      using compare_names_iff [OF assms(6)] by simp
  qed (use free_index_Some [OF i] ef in simp_all)
  then have "find_file_in_directory name (fst (write_fsinfo s3)) = Some e"
    using find_file_eq [OF w(1,4), of name] w c by simp
  moreover have "chain (fst (write_fsinfo s3)) [c]"
    using w(6) [OF c(3)] c(11) [OF c(3)] c(3) w(2) c(8) by (simp add: in_range_def)
  ultimately show ?thesis
    using run w c ef(4,5) free_index_Some [OF i] c(12) [OF assms(7)]
    by (intro exI [of _ "fst (write_fsinfo s3)"] exI [of _ c] exI [of _ e] exI [of _ i]) auto
qed

definition empty_volume :: fat where
  "empty_volume = small_fat (\<lambda>l. if l = 1 \<or> l = 2 then put32 (replicate 512 0) 8 FAT32_EOC_MAX else replicate 512 0)"

lemma empty_volume_directory: "cluster_data empty_volume 2 = replicate 512 0"
  by (simp add: cluster_data_def cluster_to_sector_def is_valid_cluster_def empty_volume_def small_fat_def)
     (simp add: small_bs_def)

lemma empty_volume_entries: "entries (cluster_data empty_volume 2) = replicate 16 (replicate 32 0)"
  unfolding empty_volume_directory by (rule nth_equalityI) (simp_all add: nth_entries)

theorem fat32_create_file_correct_witness:
  "\<exists>s' e. fat32_create_file \<lparr>year = 2024, month = 1, day = 1, hours = 0, minutes = 0, seconds = 0\<rparr> (replicate 512 0)
       (name_83 (lit ''a'') (lit ''txt'')) empty_volume = Some (s', True)
     \<and> find_file_in_directory (name_83 (lit ''a'') (lit ''txt'')) s' = Some e \<and> entry_size e = 0"
proof -
  let ?s = empty_volume
  have ok: "fat_ok ?s" "healthy (disk ?s)" "heap_ok ?s" "current_directory_cluster ?s = 2" "bs ?s = small_bs"
    unfolding empty_volume_def by (auto intro!: small_fat_ok small_fat_healthy) (simp_all add: small_fat_def)
  have v: "valid_83 (lit ''a'') (lit ''txt'')" by code_simp
  have r: "in_range ?s 2" "in_range ?s 5" by (simp_all add: empty_volume_def small_in_range)
  have "free_index (entries (cluster_data ?s 2)) = Some 0"
    unfolding empty_volume_entries by (simp add: free_index_def upt_rec)
  moreover have "find_file_in_directory (name_83 (lit ''a'') (lit ''txt'')) ?s = None"
    by (simp add: find_file_eq [OF ok(1-3)] ok(4) empty_volume_entries numeral_eq_Suc)
  moreover have "fat_entry ?s 5 = 0"
  proof -
    have "ent_offset 5 ?s = 20" "fat_sector 5 ?s = 1"
      by (simp_all add: ent_offset_def fat_sector_def empty_volume_def small_fat_def small_bs_def)
    then show ?thesis by (simp add: fat_entry_def empty_volume_def small_fat_def get_put32_other) (simp add: get32_def word32_def)
  qed
  ultimately show ?thesis
    using fat32_create_file_correct [OF ok(1-3) v, where k = 5 and junk = "replicate 512 0"
        and now = "\<lparr>year = 2024, month = 1, day = 1, hours = 0, minutes = 0, seconds = 0\<rparr>"] r
    by (auto simp: ok small_bs_def)
qed

end
