(* ===== verification/Fat32_Typed.thy ===== *)
theory Fat32_Typed
  imports Fat32_Directory
begin

text \<open>
  What holds on every drive, also one that fails or drops writes: the operations that change a
  volume keep the sizes of its sectors, its geometry and its mount state; and three places
  where the code does not do what it means to.
\<close>

subsection \<open>Volumes\<close>

text \<open>Sectors and the FSInfo buffer have 512 bytes, as the transfers and structures assume.\<close>

definition typed :: "fat \<Rightarrow> bool" where
  "typed s \<longleftrightarrow> sector_fits s \<and> 0 < spc s \<and> (\<forall>l. length (sectors (disk s) l) = 512) \<and> length (fsinfo s) = 512"

definition keeps :: "fat \<Rightarrow> fat \<Rightarrow> bool" where
  "keeps s s' \<longleftrightarrow> typed s' \<and> bs s' = bs s \<and> partition_lba_offset s' = partition_lba_offset s
     \<and> current_directory_cluster s' = current_directory_cluster s \<and> heap_ok s' = heap_ok s
     \<and> fsinfo_valid s' = fsinfo_valid s"

lemma keeps_refl [simp]: "typed s \<Longrightarrow> keeps s s"
  by (simp add: keeps_def)

lemma keeps_trans: "keeps s s' \<Longrightarrow> keeps s' s'' \<Longrightarrow> keeps s s''"
  by (simp add: keeps_def)

lemma keeps_typed: "keeps s s' \<Longrightarrow> typed s' \<and> spc s' = spc s"
  by (simp add: keeps_def)

text \<open>Whatever the drive does with a write, the sector has the old or the new contents.\<close>

lemma write_verified_typed:
  assumes "typed s" "length buf = 512" "write_verified l buf (disk s) = (d, ok)"
  shows "keeps s (s\<lparr>disk := d\<rparr>)"
  using assms
  by (auto simp: write_verified_def dev_write_def dev_read_def keeps_def typed_def sector_fits_def
      split: if_splits option.splits)

lemma write_fat_copies_typed:
  "typed s \<Longrightarrow> length buf = 512 \<Longrightarrow> keeps s (fst (write_fat_copies ks c buf s))"
proof (induction ks arbitrary: s)
  case (Cons k ks)
  obtain d ok where w: "write_verified (fat_sector c s + of_nat k * fat_size_32 (bs s)) buf (disk s) = (d, ok)"
    by (meson surj_pair)
  note t = write_verified_typed [OF Cons.prems w]
  show ?case using Cons.IH [of "s\<lparr>disk := d\<rparr>"] t Cons.prems keeps_trans [OF t] by (simp add: w keeps_typed)
qed simp

lemma ent_offset_fits: "sector_fits s \<Longrightarrow> ent_offset c s + 4 \<le> 512"
proof -
  assume "sector_fits s"
  then have e: "ent_offset c s = unat (c * 4) mod 512" by (simp add: ent_offset_def sector_fits_def unat_mod)
  have "unat (c * 4) mod 512 = 4 * (unat c mod 128)"
    using mult_mod_right [of 4 "unat c" 128] by (simp add: unat_word_ariths mod_mod_cancel mult.commute)
  moreover have "unat c mod 128 < 128" by simp
  ultimately show ?thesis using e by linarith
qed

lemma update_fsinfo_typed: "typed s \<Longrightarrow> keeps s (update_fsinfo_free_count d s)"
  using update_fsinfo_frame [of d s] by (auto simp: keeps_def typed_def sector_fits_def)

lemma mark_cluster_typed:
  assumes "typed s" "mark_cluster_in_fat c v s = Some (s', ok)"
  shows "keeps s s'"
proof -
  let ?w = "write_fat_copies [0..<unat (number_of_fats (bs s))] c
      (set_entry_value (sectors (disk s) (fat_sector c s)) (ent_offset c s) v) s"
  have "keeps s (fst ?w)"
    using assms(1) ent_offset_fits [of s c] by (intro write_fat_copies_typed) (simp_all add: typed_def)
  moreover have "s' \<in> {s, fst ?w, update_fsinfo_free_count (- 1) (fst ?w), update_fsinfo_free_count 1 (fst ?w)}"
    using assms(2)
    by (auto simp: mark_cluster_in_fat_def dev_read_def Let_def split: if_splits option.splits prod.splits)
  ultimately show ?thesis
    using assms(1) update_fsinfo_typed [of "fst ?w"] keeps_trans [of s "fst ?w"] by (auto simp: keeps_typed)
qed

lemma write_fat_entry_typed:
  assumes "typed s" "write_fat_entry c v s = Some (s', ok)"
  shows "keeps s s'"
proof -
  have "keeps s (fst (write_fat_copies [0..<unat (number_of_fats (bs s))] c
      (set_entry_value (sectors (disk s) (fat_sector c s)) (ent_offset c s) v) s))"
    using assms(1) ent_offset_fits [of s c] by (intro write_fat_copies_typed) (simp_all add: typed_def)
  then show ?thesis
    using assms by (auto simp: write_fat_entry_def dev_read_def split: if_splits option.splits)
qed

lemma find_free_cluster_typed:
  assumes "typed s" "find_free_cluster s = Some (s', c)"
  shows "keeps s s'"
  using assms
  by (auto simp: find_free_cluster_def Let_def keeps_def typed_def sector_fits_def
      split: if_splits option.splits Option.bind_splits)

lemma allocate_new_cluster_typed:
  assumes "typed s" "allocate_new_cluster s = Some (s', c)"
  shows "keeps s s'"
  using assms write_fat_entry_typed [OF assms(1)]
  by (auto simp: allocate_new_cluster_def split: if_splits option.splits Option.bind_splits prod.splits)

lemma free_chain_loop_typed:
  assumes "free_chain_loop c s = Some r"
  shows "typed s \<longrightarrow> keeps s (fst r)"
proof (rule free_chain_loop.raw_induct [where P = "\<lambda>c s r. typed s \<longrightarrow> keeps s (fst r)", OF _ assms], goal_cases)
  case (1 f c s r)
  then obtain m n where m: "mark_cluster_in_fat c 0 s = Some m" and r: "r = m \<or> f n (fst m) = Some r"
    by (fastforce simp: Option.bind_eq_Some_conv split: if_splits)
  have k: "keeps s (fst m)" if "typed s" using mark_cluster_typed [OF that, of c 0 "fst m" "snd m"] m by simp
  then show ?case using r 1(1) [of n "fst m" r] keeps_trans [of s "fst m" "fst r"] by (auto simp: keeps_typed)
qed

lemma free_cluster_chain_typed:
  "typed s \<Longrightarrow> free_cluster_chain c s = Some (s', ok) \<Longrightarrow> keeps s s'"
  using free_chain_loop_typed [of c s "(s', ok)"] by (auto simp: free_cluster_chain_def split: if_splits)

subsection \<open>Directories\<close>

lemma length_read_sectors_into:
  assumes "typed s" "length buf = n * 512"
  shows "\<forall>i \<in> set is. i < n \<Longrightarrow> length (read_sectors_into is sec buf s) = n * 512"
  using assms(2)
proof (induction "is" arbitrary: buf)
  case (Cons i "is")
  have "Suc i * 512 \<le> n * 512" using Cons.prems(1) by (intro mult_le_mono1) simp
  then show ?case using Cons assms(1) by (simp add: dev_read_def typed_def)
qed simp

lemma length_read_cluster:
  "typed s \<Longrightarrow> length buf = spc s * 512 \<Longrightarrow> length (read_cluster c buf s) = spc s * 512"
  by (simp add: read_cluster_def Let_def length_read_sectors_into)

lemma write_sectors_typed:
  "typed s \<Longrightarrow> length b = n * 512 \<Longrightarrow> \<forall>i \<in> set is. i < n \<Longrightarrow> keeps s (fst (write_sectors is sec b s))"
proof (induction "is" arbitrary: s)
  case (Cons i "is")
  let ?b = "take 512 (drop (i * 512) b)"
  have "Suc i * 512 \<le> n * 512" using Cons.prems(3) by (intro mult_le_mono1) simp
  then have l: "length ?b = 512" using Cons.prems(2) by simp
  obtain d ok where w: "write_verified (sec + of_nat i) ?b (disk s) = (d, ok)" by (meson surj_pair)
  note t = write_verified_typed [OF Cons.prems(1) l w]
  show ?case
    using Cons.IH [of "s\<lparr>disk := d\<rparr>"] t Cons.prems keeps_trans [OF t] by (simp add: w keeps_typed)
qed simp

lemma write_cluster_typed:
  assumes "typed s" "length b = spc s * 512" "write_cluster c b s = Some r"
  shows "keeps s (fst r)"
  using assms write_sectors_typed [OF assms(1,2)] by (auto simp: write_cluster_def split: if_splits)

text \<open>
  The search for the next cluster reports the end of a chain as \<^verbatim>\<open>INVALID_CLUSTER\<close>, which is no
  end mark to \<^verbatim>\<open>is_end_of_cluster_chain\<close>: the branch of \<^verbatim>\<open>add_entry_to_directory\<close> that lets a
  directory grow is never taken.
\<close>

lemma end_of_chain_never_seen:
  "get_next_cluster_in_chain c s = Some n \<Longrightarrow> \<not> is_end_of_cluster_chain n"
  by (auto simp: get_next_cluster_in_chain_def is_end_of_cluster_chain_def Let_def not_le split: if_splits option.splits)

lemma set_entry_typed:
  "length b = n * 512 \<Longrightarrow> length e = 32 \<Longrightarrow> i < length (entries b) \<Longrightarrow> length (set_entry_at i e b) = n * 512"
  by simp

lemma add_entry_loop_typed:
  assumes "add_entry_loop e p added c buf s = Some r"
  shows "typed s \<and> length buf = spc s * 512 \<and> length e = 32 \<longrightarrow> keeps s (fst r)"
proof (rule add_entry_loop.raw_induct [where P = "\<lambda>e p added c buf s r.
      typed s \<and> length buf = spc s * 512 \<and> length e = 32 \<longrightarrow> keeps s (fst r)", OF _ assms], goal_cases)
  case (1 f e p added c buf s r)
  let ?b = "read_cluster c buf s"
  show ?case
  proof (cases "free_index (entries ?b)")
    case None
    then have "r = (s, added) \<or> r = (s, True) \<or> (\<exists>n. f e p added n ?b s = Some r)"
      using 1(2) end_of_chain_never_seen [of c s]
      by (auto simp: Option.bind_eq_Some_conv Let_def split: if_splits)
    then show ?thesis using 1(1) [of e p added _ ?b s r] length_read_cluster [of s buf c] by auto
  next
    case (Some i)
    then have r: "r = (s, added) \<or> (\<exists>w. write_cluster c (set_entry_at i e ?b) s = Some w \<and> fst r = fst w)"
      using 1(2) by (auto simp: Option.bind_eq_Some_conv Let_def split: if_splits)
    have "keeps s (fst w)" if "typed s" "length buf = spc s * 512" "length e = 32"
        "write_cluster c (set_entry_at i e ?b) s = Some w" for w
      using set_entry_typed [OF length_read_cluster [OF that(1,2)] that(3) free_index_Some(1) [OF Some]] that
      by (intro write_cluster_typed)
    then show ?thesis using r by auto
  qed
qed

lemma remove_entry_typed:
  assumes "remove_entry_from_directory c e buf s = Some r"
  shows "typed s \<and> length buf = spc s * 512 \<longrightarrow> keeps s (fst r)"
proof (rule remove_entry_from_directory.raw_induct [where P = "\<lambda>c e buf s r.
      typed s \<and> length buf = spc s * 512 \<longrightarrow> keeps s (fst r)", OF _ assms], goal_cases)
  case (1 f c e buf s r)
  let ?b = "read_cluster c buf s"
  show ?case
  proof (cases "entry_index e (entries ?b)")
    case None
    then have "r = (s, False) \<or> (\<exists>n. f n e ?b s = Some r)"
      using 1(2) by (auto simp: Option.bind_eq_Some_conv Let_def split: if_splits)
    then show ?thesis using 1(1) [of _ e ?b s r] length_read_cluster [of s buf c] by auto
  next
    case (Some i)
    then have r: "r = (s, False) \<or> (\<exists>w. write_cluster c (set_entry_at i (replicate 32 0) ?b) s = Some w \<and> fst r = fst w)"
      using 1(2) by (auto simp: Option.bind_eq_Some_conv Let_def split: if_splits)
    have i: "i < length (entries ?b)" using Some by (auto simp: entry_index_def find_Some_iff)
    have "keeps s (fst w)" if "typed s" "length buf = spc s * 512"
        "write_cluster c (set_entry_at i (replicate 32 0) ?b) s = Some w" for w
      using set_entry_typed [OF length_read_cluster [OF that(1,2)] _ i, of "replicate 32 0"] that
      by (intro write_cluster_typed) simp_all
    then show ?thesis using r by auto
  qed
qed

lemma write_fsinfo_typed: "typed s \<Longrightarrow> keeps s (fst (write_fsinfo s))"
  by (auto simp: write_fsinfo_def dev_write_def dev_read_def Let_def keeps_def typed_def sector_fits_def)

lemma add_entry_typed:
  assumes "typed s" "length junk = spc s * 512" "add_entry_to_directory now junk p name c attr s = Some (s', ok)"
  shows "keeps s s'"
  using assms add_entry_loop_typed [of _ p False p junk s "(s', ok)"] create_directory_entry_fields(1)
  by (simp add: add_entry_to_directory_def)

lemma rollback_typed: "typed s \<Longrightarrow> rollback c s = Some (s', ok) \<Longrightarrow> keeps s s'"
  using mark_cluster_typed [of s c 0] by (auto simp: rollback_def Option.bind_eq_Some_conv)

text \<open>The steps in the form in which they are chained.\<close>

lemma keeps_step: "keeps s s1 \<Longrightarrow> (typed s1 \<Longrightarrow> spc s1 = spc s \<Longrightarrow> keeps s1 s2) \<Longrightarrow> keeps s s2"
  using keeps_trans keeps_typed by blast

lemma keeps_steps:
  "find_free_cluster s1 = Some (s2, c) \<Longrightarrow> keeps s s1 \<Longrightarrow> keeps s s2"
  "mark_cluster_in_fat c v s1 = Some (s2, ok) \<Longrightarrow> keeps s s1 \<Longrightarrow> keeps s s2"
  "rollback c s1 = Some (s2, ok) \<Longrightarrow> keeps s s1 \<Longrightarrow> keeps s s2"
  "free_cluster_chain c s1 = Some (s2, ok) \<Longrightarrow> keeps s s1 \<Longrightarrow> keeps s s2"
  "add_entry_to_directory now junk p name c attr s1 = Some (s2, ok) \<Longrightarrow> keeps s s1 \<Longrightarrow> length junk = spc s * 512 \<Longrightarrow> keeps s s2"
  "remove_entry_from_directory c e junk s1 = Some (s2, ok) \<Longrightarrow> keeps s s1 \<Longrightarrow> length junk = spc s * 512 \<Longrightarrow> keeps s s2"
  "write_cluster c b s1 = Some (s2, ok) \<Longrightarrow> keeps s s1 \<Longrightarrow> length b = spc s * 512 \<Longrightarrow> keeps s s2"
  "keeps s s1 \<Longrightarrow> keeps s (fst (write_fsinfo s1))"
  by (erule keeps_step, auto dest: find_free_cluster_typed mark_cluster_typed rollback_typed free_cluster_chain_typed
      add_entry_typed remove_entry_typed write_cluster_typed intro: write_fsinfo_typed)+

lemma create_file_typed:
  assumes "typed s" "length junk = spc s * 512" "fat32_create_file now junk name s = Some (s', ok)"
  shows "keeps s s'"
  using assms(3,2,1) keeps_refl [OF assms(1)] unfolding fat32_create_file_def
  by (auto simp: Option.bind_eq_Some_conv split: if_splits)
     (assumption | erule keeps_steps(1-7) | rule keeps_steps(8) keeps_refl)+

lemma length_new_directory:
  assumes "typed s"
  shows "length (initialize_new_directory_entries now c p (replicate (32 * get_entries_per_cluster (bs s)) 0)) = spc s * 512"
proof -
  have "32 * get_entries_per_cluster (bs s) = spc s * 512"
    using assms by (auto simp: get_entries_per_cluster_def typed_def sector_fits_def)
  moreover have "2 \<le> spc s * 512 div 32" using assms by (simp add: typed_def)
  ultimately show ?thesis
    by (simp add: initialize_new_directory_entries_def create_directory_entry_fields(1))
qed

lemma create_dir_typed:
  assumes "typed s" "length junk = spc s * 512" "fat32_create_dir now junk name s = Some (s', ok)"
  shows "keeps s s'"
proof -
  have b: "length (initialize_new_directory_entries now c p (replicate (32 * get_entries_per_cluster (bs s1)) 0)) = spc s * 512"
    if "keeps s s1" for s1 c p
    using length_new_directory [of s1] keeps_typed [OF that] by simp
  show ?thesis
    using assms(3,2,1) keeps_refl [OF assms(1)] unfolding fat32_create_dir_def Let_def
    by (auto simp: Option.bind_eq_Some_conv split: if_splits )
       (assumption | erule keeps_steps(1-7) | rule keeps_steps(8) keeps_refl b)+
qed

lemma delete_file_typed:
  assumes "typed s" "length junk = spc s * 512" "fat32_delete_file junk name s = Some (s', ok)"
  shows "keeps s s'"
  using assms(3,2,1) keeps_refl [OF assms(1)] unfolding fat32_delete_file_def
  by (auto simp: Option.bind_eq_Some_conv split: if_splits option.splits)
     (assumption | erule keeps_steps(1-7) | rule keeps_steps(8) keeps_refl)+

lemma delete_dir_typed:
  assumes "typed s" "length junk = spc s * 512" "fat32_delete_dir junk name s = Some (s', ok)"
  shows "keeps s s'"
  using assms(3,2,1) keeps_refl [OF assms(1)] unfolding fat32_delete_dir_def
  by (auto simp: Option.bind_eq_Some_conv split: if_splits option.splits)
     (assumption | erule keeps_steps(1-7) | rule keeps_steps(8) keeps_refl)+

text \<open>
  Type preservation: on any drive, one with failing sectors and dropped writes included,
  an operation that creates or deletes a file or a directory leaves a volume of 512-byte
  sectors with the same geometry, mount state and current directory.
\<close>

theorem fat32_operations_typed:
  assumes "typed s" "length junk = spc s * 512"
    and "fat32_create_file now junk name s = Some (s', ok) \<or> fat32_create_dir now junk name s = Some (s', ok)
      \<or> fat32_delete_file junk name s = Some (s', ok) \<or> fat32_delete_dir junk name s = Some (s', ok)"
  shows "keeps s s'"
  using assms(3) create_file_typed [OF assms(1,2)] create_dir_typed [OF assms(1,2)] delete_file_typed [OF assms(1,2)]
    delete_dir_typed [OF assms(1,2)] by blast

text \<open>A drive on which every read fails.\<close>

definition broken_volume :: fat where
  "broken_volume = sample\<lparr>disk := (disk sample)\<lparr>read_error := (\<lambda>_. True)\<rparr>\<rparr>"

lemma scan_free_broken:
  "\<forall>l. read_error (disk s) l \<Longrightarrow> sector_fits s \<Longrightarrow> scan_free cs s = Some None"
  by (induction cs) (simp_all add: read_fat_entry_def dev_read_def)

lemma broken_create: "fat32_create_file now junk name broken_volume = Some (broken_volume, False)"
proof -
  have "sector_fits broken_volume" "\<not> fsinfo_valid broken_volume" "\<forall>l. read_error (disk broken_volume) l"
    by (simp_all add: broken_volume_def sample_def small_fat_def sector_fits_def small_bs_def)
  then have "find_free_cluster broken_volume = Some (broken_volume, INVALID_CLUSTER)"
    using scan_free_broken by (simp add: find_free_cluster_def)
  then show ?thesis by (simp add: fat32_create_file_def)
qed

theorem fat32_operations_typed_witness: "keeps broken_volume broken_volume"
proof -
  have "typed broken_volume" "spc broken_volume = 1"
    using sample_ok by (simp_all add: broken_volume_def fat_ok_def typed_def geometry_ok_def sector_fits_def)
       (simp add: sample_def small_fat_def small_bs_def)
  then show ?thesis
    using fat32_operations_typed [of broken_volume "replicate 512 0"] broken_create by simp
qed

subsection \<open>What the code does not do\<close>

text \<open>
  The strict validation compares the byte \<^verbatim>\<open>boot_signature\<close> with \<^verbatim>\<open>0xAA55\<close> and rejects every
  volume.
\<close>

lemma fat32_init_fs_strict_fails: "\<not> snd (fat32_init_fs True s)"
proof -
  have "(ucast x :: u32) \<noteq> 0xAA55" for x :: u8
  proof
    assume "(ucast x :: u32) = 0xAA55"
    then have "unat (ucast x :: u32) = 0xAA55" by simp
    then show False using unat_lt_8 [of x] by simp
  qed
  then show ?thesis by (simp add: fat32_init_fs_def Let_def split: option.splits)
qed

text \<open>
  Removing an entry fills it with zeros, and a first byte of 0 is the end mark of a directory:
  the entries behind it are no longer found.
\<close>

lemma removed_entry_hides_rest:
  assumes "i < length es"
  shows "scan_entries p (es[i := replicate 32 0]) = scan_entries p (take i es @ [replicate 32 0])"
  using assms
proof (induction es arbitrary: i)
  case (Cons e es)
  then show ?case by (cases i) auto
qed simp

end
