(* ===== verification/Vfs.thy ===== *)
theory Vfs
  imports Prelude "HOL-Library.Monad_Syntax" "HOL-Library.Sublist"
begin

text \<open>
  The virtual file system (\<^verbatim>\<open>fs/vfs/vfs.c\<close>, \<^verbatim>\<open>vfs.h\<close>): registration of file systems, the list of
  mounts, path resolution and the operations that it forwards. A file system is its table of
  operations; a missing operation is \<open>None\<close> in the table. The operations act on a world \<open>'w\<close> (drives
  and the drivers' own variables), keep their data of a mount in \<open>'f\<close> and that of a node in \<open>'n\<close>; the
  result \<open>None\<close> of an operation is a loop that does not end or behaviour outside C. Objects of the
  heap are named by numbers, a new one for each; \<open>mallocs\<close> tells the outcome of the next allocations
  of the virtual file system itself, which succeed when it is empty.
\<close>

subsection \<open>Types\<close>

datatype vfs_node_type = VFS_FILE | VFS_DIRECTORY | VFS_CHARDEVICE | VFS_BLOCKDEVICE | VFS_PIPE | VFS_SYMLINK | VFS_MOUNTPOINT

record vfs_dir_entry =
  e_name :: cstring
  e_type :: vfs_node_type
  e_size :: u32
  e_inode :: u32
  e_create_time :: u32
  e_modify_time :: u32
  e_access_time :: u32
  e_attributes :: u8

record 'f vfs_filesystem =
  fs_id :: nat
  fs_name :: cstring
  fs_drive :: nat
  fs_data :: "'f option"

record ('f, 'n) vfs_node =
  n_name :: cstring
  n_type :: vfs_node_type
  n_inode :: u32
  n_size :: u32
  n_flags :: u32
  n_fs :: "'f vfs_filesystem"
  n_specific :: 'n

record ('w, 'f, 'n) vfs_ops =
  op_mount :: "'f vfs_filesystem \<Rightarrow> 'w \<Rightarrow> ('w \<times> int \<times> 'f vfs_filesystem) option"
  op_unmount :: "('f vfs_filesystem \<Rightarrow> 'w \<Rightarrow> ('w \<times> int) option) option"
  op_open :: "('f vfs_filesystem \<Rightarrow> cstring \<Rightarrow> 'w \<Rightarrow> ('w \<times> int \<times> ('f, 'n) vfs_node option) option) option"
  op_close :: "(('f, 'n) vfs_node \<Rightarrow> 'w \<Rightarrow> ('w \<times> int) option) option"
  op_read :: "(('f, 'n) vfs_node \<Rightarrow> u32 \<Rightarrow> u32 \<Rightarrow> 'w \<Rightarrow> ('w \<times> int \<times> u8 list) option) option"
  op_write :: "(('f, 'n) vfs_node \<Rightarrow> u32 \<Rightarrow> u8 list \<Rightarrow> 'w \<Rightarrow> ('w \<times> int) option) option"
  op_readdir :: "(('f, 'n) vfs_node \<Rightarrow> u32 \<Rightarrow> 'w \<Rightarrow> ('w \<times> int \<times> vfs_dir_entry option) option) option"
  op_mkdir :: "('f vfs_filesystem \<Rightarrow> cstring \<Rightarrow> 'w \<Rightarrow> ('w \<times> int) option) option"
  op_rmdir :: "('f vfs_filesystem \<Rightarrow> cstring \<Rightarrow> 'w \<Rightarrow> ('w \<times> int) option) option"
  op_create :: "('f vfs_filesystem \<Rightarrow> cstring \<Rightarrow> 'w \<Rightarrow> ('w \<times> int) option) option"
  op_delete :: "('f vfs_filesystem \<Rightarrow> cstring \<Rightarrow> 'w \<Rightarrow> ('w \<times> int) option) option"
  op_stat :: "('f vfs_filesystem \<Rightarrow> vfs_dir_entry \<Rightarrow> cstring \<Rightarrow> 'w \<Rightarrow> ('w \<times> int \<times> vfs_dir_entry) option) option"

record ('w, 'f, 'n) vfs_mount_t =
  m_path :: cstring
  m_fs :: "'f vfs_filesystem"
  m_ops :: "('w, 'f, 'n) vfs_ops"

record ('w, 'f, 'n) vfs =
  registered_filesystems :: "(cstring \<times> ('w, 'f, 'n) vfs_ops) option list"
  fs_count :: nat
  mount_list :: "('w, 'f, 'n) vfs_mount_t list"
  next_fs :: nat
  mallocs :: "bool list"
  world :: 'w

abbreviation MAX_FILESYSTEMS :: nat where "MAX_FILESYSTEMS \<equiv> 10"
abbreviation VFS_OK :: int where "VFS_OK \<equiv> 0"
abbreviation VFS_ERR_NOT_FOUND :: int where "VFS_ERR_NOT_FOUND \<equiv> - 1"
abbreviation VFS_ERR_NO_MEMORY :: int where "VFS_ERR_NO_MEMORY \<equiv> - 2"
abbreviation VFS_ERR_INVALID :: int where "VFS_ERR_INVALID \<equiv> - 3"
abbreviation VFS_ERR_IO :: int where "VFS_ERR_IO \<equiv> - 4"
abbreviation VFS_ERR_EXISTS :: int where "VFS_ERR_EXISTS \<equiv> - 5"
abbreviation VFS_ERR_NOT_DIR :: int where "VFS_ERR_NOT_DIR \<equiv> - 6"
abbreviation VFS_ERR_IS_DIR :: int where "VFS_ERR_IS_DIR \<equiv> - 7"
abbreviation VFS_ERR_READ_ONLY :: int where "VFS_ERR_READ_ONLY \<equiv> - 9"
abbreviation VFS_ERR_UNSUPPORTED :: int where "VFS_ERR_UNSUPPORTED \<equiv> - 10"

subsection \<open>Registration\<close>

definition vfs_init :: "('w, 'f, 'n) vfs \<Rightarrow> ('w, 'f, 'n) vfs" where
  "vfs_init s = s\<lparr>registered_filesystems := map (\<lambda>_. None) (registered_filesystems s), mount_list := [], fs_count := 0\<rparr>"

definition find_registered :: "cstring \<Rightarrow> ('w, 'f, 'n) vfs \<Rightarrow> ('w, 'f, 'n) vfs_ops option" where
  "find_registered name s =
     map_option (snd \<circ> the) (find (\<lambda>r. r \<noteq> None \<and> fst (the r) = name) (registered_filesystems s))"

definition vfs_register_filesystem ::
  "cstring option \<Rightarrow> ('w, 'f, 'n) vfs_ops option \<Rightarrow> ('w, 'f, 'n) vfs \<Rightarrow> ('w, 'f, 'n) vfs \<times> int" where
  "vfs_register_filesystem name ops s =
     (if fs_count s \<ge> MAX_FILESYSTEMS then (s, VFS_ERR_NO_MEMORY)
      else case (name, ops) of
        (Some name, Some ops) \<Rightarrow>
          if find_registered name s \<noteq> None then (s, VFS_ERR_EXISTS)
          else (case find (\<lambda>i. registered_filesystems s ! i = None) [0..<length (registered_filesystems s)] of
                  None \<Rightarrow> (s, VFS_ERR_NO_MEMORY)
                | Some i \<Rightarrow> (s\<lparr>registered_filesystems := (registered_filesystems s)[i := Some (take 31 name, ops)],
                               fs_count := fs_count s + 1\<rparr>, VFS_OK))
      | _ \<Rightarrow> (s, VFS_ERR_INVALID))"

subsection \<open>Mounting\<close>

definition take_malloc :: "('w, 'f, 'n) vfs \<Rightarrow> ('w, 'f, 'n) vfs \<times> bool" where
  "take_malloc s = (case mallocs s of [] \<Rightarrow> (s, True) | b # bs \<Rightarrow> (s\<lparr>mallocs := bs\<rparr>, b))"

text \<open>In the error path after the second allocation \<^verbatim>\<open>unmount\<close> is called without a test for NULL.\<close>

definition vfs_mount ::
  "nat option \<Rightarrow> cstring option \<Rightarrow> cstring option \<Rightarrow> ('w, 'f, 'n) vfs \<Rightarrow> (('w, 'f, 'n) vfs \<times> int) option" where
  "vfs_mount drive fs_type mount_path s =
     (case (drive, fs_type, mount_path) of
        (Some drive, Some fs_type, Some mount_path) \<Rightarrow>
          (case find_registered fs_type s of
             None \<Rightarrow> Some (s, VFS_ERR_UNSUPPORTED)
           | Some ops \<Rightarrow>
               let (s, ok) = take_malloc s
               in if \<not> ok then Some (s, VFS_ERR_NO_MEMORY)
                  else let fs = \<lparr>fs_id = next_fs s, fs_name = take 31 fs_type, fs_drive = drive, fs_data = None\<rparr>;
                           s = s\<lparr>next_fs := next_fs s + 1\<rparr>
                  in do {
                    (w, result, fs) \<leftarrow> op_mount ops fs (world s);
                    let s = s\<lparr>world := w\<rparr>;
                    if result \<noteq> VFS_OK then Some (s, result)
                    else do {
                      let (s, ok) = take_malloc s;
                      if \<not> ok
                      then (case op_unmount ops of
                              None \<Rightarrow> None
                            | Some unmount \<Rightarrow> do {
                                (w, r) \<leftarrow> unmount fs (world s);
                                Some (s\<lparr>world := w\<rparr>, VFS_ERR_NO_MEMORY) })
                      else Some (s\<lparr>mount_list := \<lparr>m_path = take 255 mount_path, m_fs = fs, m_ops = ops\<rparr> # mount_list s\<rparr>,
                                 VFS_OK) } })
      | _ \<Rightarrow> Some (s, VFS_ERR_INVALID))"

fun unmount_from :: "cstring \<Rightarrow> ('w, 'f, 'n) vfs_mount_t list \<Rightarrow> (('w, 'f, 'n) vfs_mount_t \<times> ('w, 'f, 'n) vfs_mount_t list) option" where
  "unmount_from path [] = None"
| "unmount_from path (m # ms) =
     (if m_path m = path then Some (m, ms)
      else map_option (apsnd ((#) m)) (unmount_from path ms))"

definition vfs_unmount :: "cstring option \<Rightarrow> ('w, 'f, 'n) vfs \<Rightarrow> (('w, 'f, 'n) vfs \<times> int) option" where
  "vfs_unmount mount_path s =
     (case mount_path of
        None \<Rightarrow> Some (s, VFS_ERR_INVALID)
      | Some path \<Rightarrow>
          (case unmount_from path (mount_list s) of
             None \<Rightarrow> Some (s, VFS_ERR_NOT_FOUND)
           | Some (m, ms) \<Rightarrow> do {
               w \<leftarrow> (case op_unmount (m_ops m) of
                       None \<Rightarrow> Some (world s)
                     | Some unmount \<Rightarrow> map_option fst (unmount (m_fs m) (world s)));
               Some (s\<lparr>world := w, mount_list := ms\<rparr>, VFS_OK) }))"

subsection \<open>Path resolution\<close>

text \<open>\<^verbatim>\<open>strncmp (path, mount, strlen (mount)) == 0\<close> is the test for a prefix.\<close>

fun best_mount :: "cstring \<Rightarrow> ('w, 'f, 'n) vfs_mount_t list \<Rightarrow> ('w, 'f, 'n) vfs_mount_t option \<Rightarrow> nat \<Rightarrow> ('w, 'f, 'n) vfs_mount_t option" where
  "best_mount path [] best_match best_len = best_match"
| "best_mount path (m # ms) best_match best_len =
     (if prefix (m_path m) path \<and> length (m_path m) > best_len
      then best_mount path ms (Some m) (length (m_path m))
      else best_mount path ms best_match best_len)"

definition vfs_get_filesystem :: "cstring \<Rightarrow> ('w, 'f, 'n) vfs \<Rightarrow> ('w, 'f, 'n) vfs_mount_t option" where
  "vfs_get_filesystem path s =
     (if path = [] \<or> hd path \<noteq> 47 then None else best_mount path (mount_list s) None 0)"

fun relative_path :: "cstring \<Rightarrow> nat \<Rightarrow> ('w, 'f, 'n) vfs_mount_t list \<Rightarrow> cstring" where
  "relative_path path fs [] = path"
| "relative_path path fs (m # ms) =
     (if fs_id (m_fs m) = fs \<and> prefix (m_path m) path
      then let rel = drop (length (m_path m)) path in if rel = [] then [47] else rel
      else relative_path path fs ms)"

definition vfs_get_relative_path :: "cstring \<Rightarrow> 'f vfs_filesystem \<Rightarrow> ('w, 'f, 'n) vfs \<Rightarrow> cstring" where
  "vfs_get_relative_path path fs s = relative_path path (fs_id fs) (mount_list s)"

subsection \<open>Forwarded operations\<close>

text \<open>The common part of the operations by path: the operation \<open>sel\<close> of the file system that is responsible.\<close>

definition forward ::
  "(('w, 'f, 'n) vfs_ops \<Rightarrow> ('f vfs_filesystem \<Rightarrow> cstring \<Rightarrow> 'w \<Rightarrow> ('w \<times> 'r) option) option) \<Rightarrow> (int \<Rightarrow> 'r)
   \<Rightarrow> cstring option \<Rightarrow> ('w, 'f, 'n) vfs \<Rightarrow> (('w, 'f, 'n) vfs \<times> 'r) option" where
  "forward sel err path s =
     (case path of
        None \<Rightarrow> Some (s, err VFS_ERR_INVALID)
      | Some path \<Rightarrow>
          (case vfs_get_filesystem path s of
             None \<Rightarrow> Some (s, err VFS_ERR_NOT_FOUND)
           | Some m \<Rightarrow>
               (case sel (m_ops m) of
                  None \<Rightarrow> Some (s, err VFS_ERR_UNSUPPORTED)
                | Some f \<Rightarrow> do {
                    (w, r) \<leftarrow> f (m_fs m) (vfs_get_relative_path path (m_fs m) s) (world s);
                    Some (s\<lparr>world := w\<rparr>, r) })))"

definition vfs_open :: "cstring option \<Rightarrow> ('w, 'f, 'n) vfs \<Rightarrow> (('w, 'f, 'n) vfs \<times> int \<times> ('f, 'n) vfs_node option) option" where
  "vfs_open path s = forward op_open (\<lambda>e. (e, None)) path s"

definition vfs_mkdir :: "cstring option \<Rightarrow> ('w, 'f, 'n) vfs \<Rightarrow> (('w, 'f, 'n) vfs \<times> int) option" where
  "vfs_mkdir path s = forward op_mkdir (\<lambda>e. e) path s"

definition vfs_rmdir :: "cstring option \<Rightarrow> ('w, 'f, 'n) vfs \<Rightarrow> (('w, 'f, 'n) vfs \<times> int) option" where
  "vfs_rmdir path s = forward op_rmdir (\<lambda>e. e) path s"

definition vfs_create :: "cstring option \<Rightarrow> ('w, 'f, 'n) vfs \<Rightarrow> (('w, 'f, 'n) vfs \<times> int) option" where
  "vfs_create path s = forward op_create (\<lambda>e. e) path s"

definition vfs_delete :: "cstring option \<Rightarrow> ('w, 'f, 'n) vfs \<Rightarrow> (('w, 'f, 'n) vfs \<times> int) option" where
  "vfs_delete path s = forward op_delete (\<lambda>e. e) path s"

text \<open>\<open>stat\<close> is the structure of the caller, of which a file system sets some fields.\<close>

definition vfs_stat ::
  "cstring option \<Rightarrow> vfs_dir_entry \<Rightarrow> ('w, 'f, 'n) vfs \<Rightarrow> (('w, 'f, 'n) vfs \<times> int \<times> vfs_dir_entry) option" where
  "vfs_stat path stat s = forward (\<lambda>ops. map_option (\<lambda>f fs. f fs stat) (op_stat ops)) (\<lambda>e. (e, stat)) path s"

text \<open>
  The operations on a node find the table of operations through the node's file system. The object is
  alive as long as the file system is mounted; a node of another one is a dangling pointer.
\<close>

definition node_ops :: "('f, 'n) vfs_node \<Rightarrow> ('w, 'f, 'n) vfs \<Rightarrow> ('w, 'f, 'n) vfs_ops option" where
  "node_ops node s = map_option m_ops (find (\<lambda>m. fs_id (m_fs m) = fs_id (n_fs node)) (mount_list s))"

definition vfs_close :: "('f, 'n) vfs_node option \<Rightarrow> ('w, 'f, 'n) vfs \<Rightarrow> (('w, 'f, 'n) vfs \<times> int) option" where
  "vfs_close node s =
     (case node of
        None \<Rightarrow> Some (s, VFS_ERR_INVALID)
      | Some node \<Rightarrow> do {
          ops \<leftarrow> node_ops node s;
          case op_close ops of
            None \<Rightarrow> Some (s, VFS_ERR_UNSUPPORTED)
          | Some close \<Rightarrow> do { (w, r) \<leftarrow> close node (world s); Some (s\<lparr>world := w\<rparr>, r) } })"

text \<open>\<open>buffer\<close> says that the destination is not NULL; the bytes stored there are returned.\<close>

definition vfs_read ::
  "('f, 'n) vfs_node option \<Rightarrow> u32 \<Rightarrow> u32 \<Rightarrow> bool \<Rightarrow> ('w, 'f, 'n) vfs \<Rightarrow> (('w, 'f, 'n) vfs \<times> int \<times> u8 list) option" where
  "vfs_read node offset n buffer s =
     (case node of
        None \<Rightarrow> Some (s, VFS_ERR_INVALID, [])
      | Some node \<Rightarrow>
          if \<not> buffer then Some (s, VFS_ERR_INVALID, [])
          else do {
            ops \<leftarrow> node_ops node s;
            case op_read ops of
              None \<Rightarrow> Some (s, VFS_ERR_UNSUPPORTED, [])
            | Some read \<Rightarrow> do { (w, r) \<leftarrow> read node offset n (world s); Some (s\<lparr>world := w\<rparr>, r) } })"

definition vfs_write ::
  "('f, 'n) vfs_node option \<Rightarrow> u32 \<Rightarrow> u8 list option \<Rightarrow> ('w, 'f, 'n) vfs \<Rightarrow> (('w, 'f, 'n) vfs \<times> int) option" where
  "vfs_write node offset buffer s =
     (case (node, buffer) of
        (Some node, Some buffer) \<Rightarrow> do {
          ops \<leftarrow> node_ops node s;
          case op_write ops of
            None \<Rightarrow> Some (s, VFS_ERR_READ_ONLY)
          | Some write \<Rightarrow> do { (w, r) \<leftarrow> write node offset buffer (world s); Some (s\<lparr>world := w\<rparr>, r) } }
      | _ \<Rightarrow> Some (s, VFS_ERR_INVALID))"

text \<open>The node is closed again on every path, and the result of closing is ignored.\<close>

definition close_node :: "('w, 'f, 'n) vfs_ops \<Rightarrow> ('f, 'n) vfs_node \<Rightarrow> 'w \<Rightarrow> 'w option" where
  "close_node ops node w = (case op_close ops of None \<Rightarrow> Some w | Some close \<Rightarrow> map_option fst (close node w))"

definition vfs_readdir ::
  "cstring option \<Rightarrow> u32 \<Rightarrow> ('w, 'f, 'n) vfs \<Rightarrow> (('w, 'f, 'n) vfs \<times> int \<times> vfs_dir_entry option) option" where
  "vfs_readdir path index s =
     (case path of
        None \<Rightarrow> Some (s, VFS_ERR_INVALID, None)
      | Some path \<Rightarrow>
          (case vfs_get_filesystem path s of
             None \<Rightarrow> Some (s, VFS_ERR_NOT_FOUND, None)
           | Some m \<Rightarrow>
               (case op_open (m_ops m) of
                  None \<Rightarrow> Some (s, VFS_ERR_UNSUPPORTED, None)
                | Some open \<Rightarrow> do {
                    (w, result, dir_node) \<leftarrow> open (m_fs m) (vfs_get_relative_path path (m_fs m) s) (world s);
                    if result \<noteq> VFS_OK then Some (s\<lparr>world := w\<rparr>, result, None)
                    else case dir_node of
                           None \<Rightarrow> None
                         | Some node \<Rightarrow>
                             if n_type node \<noteq> VFS_DIRECTORY
                             then do { w \<leftarrow> close_node (m_ops m) node w; Some (s\<lparr>world := w\<rparr>, VFS_ERR_NOT_DIR, None) }
                             else (case op_readdir (m_ops m) of
                                     None \<Rightarrow> do { w \<leftarrow> close_node (m_ops m) node w; Some (s\<lparr>world := w\<rparr>, VFS_ERR_UNSUPPORTED, None) }
                                   | Some readdir \<Rightarrow> do {
                                       (w, result, entry) \<leftarrow> readdir node index w;
                                       w \<leftarrow> close_node (m_ops m) node w;
                                       Some (s\<lparr>world := w\<rparr>, result, entry) }) })))"

end
