(* ===== verification/Vfs_Correct.thy ===== *)
theory Vfs_Correct
  imports Vfs
begin

text \<open>
  Correctness of the virtual file system: what a file system has to promise (a locale), the invariant
  of the mount table, and the resolution of paths to the longest mount point.
\<close>

subsection \<open>What a file system promises\<close>

text \<open>Mounting fills in the data of the object it is given and leaves its identity and drive alone.\<close>

locale file_system =
  fixes ops :: "('w, 'f, 'n) vfs_ops"
  assumes mount_keeps: "op_mount ops fs w = Some (w', r, fs') \<Longrightarrow> fs_id fs' = fs_id fs \<and> fs_drive fs' = fs_drive fs"

subsection \<open>The invariant\<close>

definition registered_ok :: "('w, 'f, 'n) vfs \<Rightarrow> bool" where
  "registered_ok s \<longleftrightarrow> (\<forall>name ops. Some (name, ops) \<in> set (registered_filesystems s) \<longrightarrow> file_system ops)"

definition vfs_inv :: "('w, 'f, 'n) vfs \<Rightarrow> bool" where
  "vfs_inv s \<longleftrightarrow> length (registered_filesystems s) = MAX_FILESYSTEMS
     \<and> fs_count s = length (filter (\<lambda>r. r \<noteq> None) (registered_filesystems s))
     \<and> distinct (map (fs_id \<circ> m_fs) (mount_list s)) \<and> (\<forall>m \<in> set (mount_list s). fs_id (m_fs m) < next_fs s)
     \<and> registered_ok s"

lemma take_malloc_frame:
  "take_malloc s = (s', ok) \<Longrightarrow> registered_filesystems s' = registered_filesystems s \<and> fs_count s' = fs_count s
     \<and> mount_list s' = mount_list s \<and> next_fs s' = next_fs s \<and> world s' = world s"
  by (auto simp: take_malloc_def split: list.splits)

lemma find_registered_Some:
  "find_registered name s = Some ops \<Longrightarrow> \<exists>n. Some (n, ops) \<in> set (registered_filesystems s) \<and> n = name"
  by (auto simp: find_registered_def find_Some_iff in_set_conv_nth)

text \<open>What a call of \<^verbatim>\<open>vfs_mount\<close> does: nothing to the table, or a new mount in front.\<close>

lemma vfs_mount_cases:
  assumes "registered_ok s" "vfs_mount drive fs_type path s = Some (s', r)"
  shows "registered_filesystems s' = registered_filesystems s \<and> fs_count s' = fs_count s \<and>
    (mount_list s' = mount_list s \<and> r \<noteq> VFS_OK \<and> next_fs s \<le> next_fs s' \<or>
     (\<exists>p ops fs d. path = Some p \<and> drive = Some d \<and> r = VFS_OK \<and> next_fs s' = next_fs s + 1
        \<and> fs_id fs = next_fs s \<and> fs_drive fs = d
        \<and> mount_list s' = \<lparr>m_path = take 255 p, m_fs = fs, m_ops = ops\<rparr> # mount_list s))"
proof (cases "\<exists>d t p ops. drive = Some d \<and> fs_type = Some t \<and> path = Some p \<and> find_registered t s = Some ops")
  case False
  then show ?thesis using assms(2)
    by (auto simp: vfs_mount_def split: option.splits)
next
  case True
  then obtain d t p ops where a: "drive = Some d" "fs_type = Some t" "path = Some p" "find_registered t s = Some ops" by blast
  obtain s1 ok1 where m1: "take_malloc s = (s1, ok1)" by (meson surj_pair)
  note f1 = take_malloc_frame [OF m1]
  show ?thesis
  proof (cases ok1)
    case False
    then show ?thesis using assms(2) a m1 f1 by (simp add: vfs_mount_def)
  next
    case True
    let ?fs = "\<lparr>fs_id = next_fs s, fs_name = take 31 t, fs_drive = d, fs_data = None\<rparr>"
    obtain w r1 fs where o: "op_mount ops ?fs (world s) = Some (w, r1, fs)"
      using assms(2) a m1 f1 True by (auto simp: vfs_mount_def Option.bind_eq_Some_conv Let_def)
    have k: "fs_id fs = next_fs s" "fs_drive fs = d"
      using file_system.mount_keeps [OF _ o] find_registered_Some [OF a(4)] assms(1) by (auto simp: registered_ok_def)
    obtain s2 ok2 where m2: "take_malloc (s1\<lparr>next_fs := next_fs s + 1, world := w\<rparr>) = (s2, ok2)" by (meson surj_pair)
    note f2 = take_malloc_frame [OF m2]
    show ?thesis
      using assms(2) a m1 f1 True o m2 f2 k
      by (auto simp: vfs_mount_def Option.bind_eq_Some_conv Let_def split: if_splits option.splits)
  qed
qed

lemma vfs_mount_inv:
  assumes "vfs_inv s" "vfs_mount drive fs_type path s = Some (s', r)"
  shows "vfs_inv s'"
proof -
  have "registered_ok s" using assms(1) by (simp add: vfs_inv_def)
  from vfs_mount_cases [OF this assms(2)] assms(1) show ?thesis
    by (force simp: vfs_inv_def registered_ok_def)
qed

lemma unmount_from_Some:
  "unmount_from path ms = Some (m, ms') \<Longrightarrow>
   \<exists>xs ys. ms = xs @ m # ys \<and> ms' = xs @ ys \<and> m_path m = path \<and> (\<forall>x \<in> set xs. m_path x \<noteq> path)"
proof (induction ms arbitrary: ms')
  case (Cons a ms)
  show ?case
  proof (cases "m_path a = path")
    case True
    then show ?thesis using Cons.prems by (intro exI [of _ "[]"] exI [of _ ms]) auto
  next
    case False
    then obtain ms1 where m: "unmount_from path ms = Some (m, ms1)" "ms' = a # ms1"
      using Cons.prems by (auto simp: map_option_case split: option.splits)
    from Cons.IH [OF m(1)] obtain xs ys where x: "ms = xs @ m # ys" "ms1 = xs @ ys" "m_path m = path" "\<forall>x \<in> set xs. m_path x \<noteq> path"
      by blast
    then show ?thesis using m(2) False by (intro exI [of _ "a # xs"] exI [of _ ys]) simp
  qed
qed simp

lemma vfs_unmount_cases:
  assumes "vfs_unmount path s = Some (s', r)"
  shows "s' = s \<and> r \<noteq> VFS_OK \<or> (\<exists>p m ms. path = Some p \<and> unmount_from p (mount_list s) = Some (m, ms)
     \<and> s' = s\<lparr>world := world s', mount_list := ms\<rparr> \<and> r = VFS_OK)"
  using assms by (auto simp: vfs_unmount_def Option.bind_eq_Some_conv split: option.splits prod.splits)

lemma vfs_unmount_inv:
  assumes "vfs_inv s" "vfs_unmount path s = Some (s', r)"
  shows "vfs_inv s'"
proof -
  have "vfs_inv (s\<lparr>world := w, mount_list := ms\<rparr>)" if "unmount_from p (mount_list s) = Some (m, ms)" for w p m ms
    using unmount_from_Some [OF that] assms(1) by (auto simp: vfs_inv_def registered_ok_def)
  then show ?thesis using vfs_unmount_cases [OF assms(2)] assms(1) by metis
qed

lemma count_update:
  "i < length rs \<Longrightarrow> rs ! i = None \<Longrightarrow>
   length (filter (\<lambda>r. r \<noteq> None) (rs[i := Some x])) = Suc (length (filter (\<lambda>r. r \<noteq> None) rs))"
proof (induction rs arbitrary: i)
  case (Cons a rs)
  then show ?case by (cases i) auto
qed simp

lemma vfs_register_inv:
  assumes "vfs_inv s" "\<And>ops. opsp = Some ops \<Longrightarrow> file_system ops"
  shows "vfs_inv (fst (vfs_register_filesystem name opsp s))"
proof -
  have "vfs_inv (s\<lparr>registered_filesystems := (registered_filesystems s)[i := Some (take 31 n, ops)], fs_count := fs_count s + 1\<rparr>)"
    if f: "find (\<lambda>i. registered_filesystems s ! i = None) [0..<length (registered_filesystems s)] = Some i"
      "opsp = Some ops" for i n ops
  proof -
    have i: "i < length (registered_filesystems s)" "registered_filesystems s ! i = None"
      using f(1) by (auto simp: find_Some_iff)
    have "Some (m, os) \<in> set ((registered_filesystems s)[i := Some (take 31 n, ops)]) \<Longrightarrow> file_system os" for m os
      using set_update_subset_insert [of "registered_filesystems s" i "Some (take 31 n, ops)"] assms(1) assms(2) [OF f(2)]
      by (auto simp: vfs_inv_def registered_ok_def)
    then show ?thesis using assms(1) count_update [OF i] by (simp add: vfs_inv_def registered_ok_def)
  qed
  then show ?thesis
    using assms(1) by (auto simp: vfs_register_filesystem_def split: option.splits)
qed

text \<open>
  The runs of the virtual file system: initialisation, registration of file systems that keep their
  promise, mounting, unmounting, and operations that only touch drives and drivers.
\<close>

inductive vfs_run :: "('w, 'f, 'n) vfs \<Rightarrow> bool" where
  start: "length (registered_filesystems s) = MAX_FILESYSTEMS \<Longrightarrow> vfs_run (vfs_init s)"
| register: "vfs_run s \<Longrightarrow> (\<And>ops. opsp = Some ops \<Longrightarrow> file_system ops) \<Longrightarrow>
    vfs_run (fst (vfs_register_filesystem name opsp s))"
| mount: "vfs_run s \<Longrightarrow> vfs_mount drive fs_type path s = Some (s', r) \<Longrightarrow> vfs_run s'"
| unmount: "vfs_run s \<Longrightarrow> vfs_unmount path s = Some (s', r) \<Longrightarrow> vfs_run s'"
| operate: "vfs_run s \<Longrightarrow> vfs_run (s\<lparr>world := w\<rparr>)"

lemma vfs_run_inv: "vfs_run s \<Longrightarrow> vfs_inv s"
proof (induction rule: vfs_run.induct)
  case (start s)
  then show ?case by (auto simp: vfs_inv_def vfs_init_def registered_ok_def)
next
  case (register s opsp name)
  show ?case by (rule vfs_register_inv [OF register(3)]) (rule register(2))
next
  case (mount s drive fs_type path s' r)
  show ?case by (rule vfs_mount_inv [OF mount(3,2)])
next
  case (unmount s path s' r)
  show ?case by (rule vfs_unmount_inv [OF unmount(3,2)])
next
  case (operate s w)
  then show ?case by (simp add: vfs_inv_def registered_ok_def)
qed

subsection \<open>Path resolution\<close>

lemma best_mount_skip:
  "\<forall>x \<in> set ms. prefix (m_path x) path \<longrightarrow> length (m_path x) \<le> n \<Longrightarrow> best_mount path ms b n = b"
  by (induction ms) auto

text \<open>The first of the longest mount points that are prefixes of the path.\<close>

definition resolves :: "cstring \<Rightarrow> ('w, 'f, 'n) vfs_mount_t list \<Rightarrow> nat \<Rightarrow> ('w, 'f, 'n) vfs_mount_t \<Rightarrow> bool" where
  "resolves path ms n m \<longleftrightarrow> (\<exists>xs ys. ms = xs @ m # ys \<and> prefix (m_path m) path \<and> n < length (m_path m)
     \<and> (\<forall>x \<in> set xs. prefix (m_path x) path \<longrightarrow> length (m_path x) < length (m_path m))
     \<and> (\<forall>y \<in> set ys. prefix (m_path y) path \<longrightarrow> length (m_path y) \<le> length (m_path m)))"

lemma resolves_Cons:
  assumes "resolves path ms k m" "prefix (m_path a) path \<Longrightarrow> length (m_path a) \<le> k" "n \<le> k"
  shows "resolves path (a # ms) n m"
proof -
  obtain xs ys where "ms = xs @ m # ys" "prefix (m_path m) path" "k < length (m_path m)"
     "\<forall>x \<in> set xs. prefix (m_path x) path \<longrightarrow> length (m_path x) < length (m_path m)"
     "\<forall>y \<in> set ys. prefix (m_path y) path \<longrightarrow> length (m_path y) \<le> length (m_path m)"
    using assms(1) by (auto simp: resolves_def)
  then show ?thesis unfolding resolves_def using assms(2,3) by (intro exI [of _ "a # xs"] exI [of _ ys]) auto
qed

lemma best_mount_cases:
  "best_mount path ms b n = b \<and> (\<forall>x \<in> set ms. prefix (m_path x) path \<longrightarrow> length (m_path x) \<le> n)
   \<or> (\<exists>m'. best_mount path ms b n = Some m' \<and> resolves path ms n m')"
proof (induction ms arbitrary: b n)
  case (Cons a ms)
  show ?case
  proof (cases "prefix (m_path a) path \<and> length (m_path a) > n")
    case True
    let ?k = "length (m_path a)"
    have "(\<exists>m'. best_mount path ms (Some a) ?k = Some m' \<and> resolves path ms ?k m')
        \<or> best_mount path ms (Some a) ?k = Some a \<and> (\<forall>x \<in> set ms. prefix (m_path x) path \<longrightarrow> length (m_path x) \<le> ?k)"
      using Cons.IH [of "Some a" ?k] by blast
    moreover have "resolves path (a # ms) n m'" if "resolves path ms ?k m'" for m'
      using resolves_Cons [OF that] True by simp
    moreover have "resolves path (a # ms) n a" if "\<forall>x \<in> set ms. prefix (m_path x) path \<longrightarrow> length (m_path x) \<le> ?k"
      unfolding resolves_def using that True by (intro exI [of _ "[]"] exI [of _ ms]) auto
    ultimately show ?thesis using True by auto
  next
    case False
    have "resolves path (a # ms) n m'" if "resolves path ms n m'" for m'
      using resolves_Cons [OF that] False by auto
    then show ?thesis using Cons.IH [of b n] False by auto
  qed
qed auto

lemma vfs_get_filesystem_resolves:
  assumes "path \<noteq> []" "hd path = 47"
  shows "(\<exists>m. vfs_get_filesystem path s = Some m \<and> resolves path (mount_list s) 0 m)
    \<or> vfs_get_filesystem path s = None \<and> (\<forall>x \<in> set (mount_list s). prefix (m_path x) path \<longrightarrow> m_path x = [])"
  using best_mount_cases [of path "mount_list s" None 0] assms by (auto simp: vfs_get_filesystem_def)

lemma relative_path_mount:
  assumes "distinct (map (fs_id \<circ> m_fs) ms)" "m \<in> set ms" "prefix (m_path m) path"
  shows "relative_path path (fs_id (m_fs m)) ms
    = (if path = m_path m then [47] else drop (length (m_path m)) path)"
  using assms
proof (induction ms)
  case (Cons a ms)
  obtain r where r: "path = m_path m @ r" using Cons.prems(3) by (auto simp: prefix_def)
  show ?case
  proof (cases "a = m")
    case True
    then show ?thesis using Cons.prems(3) r by (auto simp: Let_def)
  next
    case False
    then have "fs_id (m_fs a) \<noteq> fs_id (m_fs m)" using Cons.prems(1,2) by force
    then show ?thesis using Cons False by simp
  qed
qed simp

text \<open>
  C12. Paths resolve to the longest mount point: in every state a run reaches, the file system found
  for an absolute path is that of a mount point that is a prefix of the path, longer than all that
  were mounted later and at least as long as all others; it gets the rest of the path (the root when
  nothing is left); and no file system is found only when no mount point is a prefix.
\<close>

theorem vfs_path_resolution:
  assumes "vfs_run s" "path \<noteq> []" "hd path = 47"
  shows "case vfs_get_filesystem path s of
      None \<Rightarrow> \<forall>m \<in> set (mount_list s). prefix (m_path m) path \<longrightarrow> m_path m = []
    | Some m \<Rightarrow> resolves path (mount_list s) 0 m
        \<and> vfs_get_relative_path path (m_fs m) s = (if path = m_path m then [47] else drop (length (m_path m)) path)"
proof -
  have d: "distinct (map (fs_id \<circ> m_fs) (mount_list s))" using vfs_run_inv [OF assms(1)] by (simp add: vfs_inv_def)
  have "vfs_get_relative_path path (m_fs m) s = (if path = m_path m then [47] else drop (length (m_path m)) path)"
    if "resolves path (mount_list s) 0 m" for m
    unfolding vfs_get_relative_path_def using that
    by (intro relative_path_mount [OF d]) (auto simp: resolves_def)
  then show ?thesis using vfs_get_filesystem_resolves [OF assms(2,3), of s] by auto
qed

text \<open>
  Mounting and unmounting: after a successful \<^verbatim>\<open>vfs_mount\<close> of a drive at a path, every path below it
  that no longer mount point covers resolves to the new file system on that drive, every other path
  resolves as before, and \<^verbatim>\<open>vfs_unmount\<close> of the path restores the mounts.
\<close>

theorem vfs_mount_correct:
  assumes "vfs_run s" "vfs_mount (Some d) (Some fs_type) (Some mp) s = Some (s', VFS_OK)"
    and "length mp \<le> 255" "mp \<noteq> []" "hd mp = 47"
  shows "\<exists>m. fs_drive (m_fs m) = d \<and> m_path m = mp
    \<and> (\<forall>p. prefix mp p \<and> (\<forall>x \<in> set (mount_list s). prefix (m_path x) p \<longrightarrow> length (m_path x) \<le> length mp)
         \<longrightarrow> vfs_get_filesystem p s' = Some m)
    \<and> (\<forall>p. \<not> prefix mp p \<longrightarrow> vfs_get_filesystem p s' = vfs_get_filesystem p s)
    \<and> (\<forall>s'' r. vfs_unmount (Some mp) s' = Some (s'', r) \<longrightarrow> r = VFS_OK \<and> mount_list s'' = mount_list s)"
proof -
  have "registered_ok s" using vfs_run_inv [OF assms(1)] by (simp add: vfs_inv_def)
  from vfs_mount_cases [OF this assms(2)] obtain m where m: "mount_list s' = m # mount_list s" "m_path m = mp"
      "fs_drive (m_fs m) = d"
    using assms(3) by auto
  have "vfs_get_filesystem p s' = Some m"
    if "prefix mp p" "\<forall>x \<in> set (mount_list s). prefix (m_path x) p \<longrightarrow> length (m_path x) \<le> length mp" for p
  proof -
    have "p \<noteq> [] \<and> hd p = 47" using that(1) assms(4,5) by (auto simp: prefix_def hd_append)
    then show ?thesis
      using best_mount_skip [OF that(2)] that(1) m assms(4) by (simp add: vfs_get_filesystem_def)
  qed
  moreover have "vfs_get_filesystem p s' = vfs_get_filesystem p s" if "\<not> prefix mp p" for p
    using that m by (simp add: vfs_get_filesystem_def)
  moreover have "r = VFS_OK \<and> mount_list s'' = mount_list s" if "vfs_unmount (Some mp) s' = Some (s'', r)" for s'' r
    using that m by (auto simp: vfs_unmount_def Option.bind_eq_Some_conv)
  ultimately show ?thesis using m by (intro exI [of _ m]) blast
qed

subsection \<open>Forwarding\<close>

text \<open>The name that the adapters look up: the rest of the path without its leading slash.\<close>

definition file_name :: "cstring \<Rightarrow> cstring" where
  "file_name path = (if path \<noteq> [] \<and> hd path = 47 then tl path else path)"

lemma best_mount_in: "best_mount path ms b n = Some m \<Longrightarrow> b = Some m \<or> m \<in> set ms"
  by (induction ms arbitrary: b n) (auto split: if_splits)

lemma node_ops_mount:
  assumes "vfs_inv s" "m \<in> set (mount_list s)" "n_fs node = m_fs m"
  shows "node_ops node s = Some (m_ops m)"
proof -
  obtain m' where f: "find (\<lambda>x. fs_id (m_fs x) = fs_id (m_fs m)) (mount_list s) = Some m'"
    using assms(2) by (metis (mono_tags, lifting) find_None_iff option.exhaust)
  then have "m' \<in> set (mount_list s)" "fs_id (m_fs m') = fs_id (m_fs m)" by (auto simp: find_Some_iff in_set_conv_nth)
  moreover have "inj_on (fs_id \<circ> m_fs) (set (mount_list s))" using assms(1) by (simp add: vfs_inv_def distinct_map)
  ultimately have "m' = m" using inj_onD [of "fs_id \<circ> m_fs"] assms(2) by (metis comp_apply)
  then show ?thesis using f assms(3) by (simp add: node_ops_def)
qed

lemma vfs_open_forward:
  assumes "vfs_get_filesystem path s = Some m" "op_open (m_ops m) = Some f"
    and "f (m_fs m) (vfs_get_relative_path path (m_fs m) s) (world s) = Some (w, r)"
  shows "vfs_open (Some path) s = Some (s\<lparr>world := w\<rparr>, r)"
  using assms by (simp add: vfs_open_def forward_def)

lemma vfs_read_forward:
  assumes "vfs_run s" "vfs_get_filesystem path s = Some m" "op_read (m_ops m) = Some f" "n_fs node = m_fs m"
    and "f node offset n w = Some (w', r)"
  shows "vfs_read (Some node) offset n True (s\<lparr>world := w\<rparr>) = Some (s\<lparr>world := w'\<rparr>, r)"
proof -
  have "m \<in> set (mount_list s)"
    using assms(2) best_mount_in by (fastforce simp: vfs_get_filesystem_def split: if_splits)
  then have "node_ops node (s\<lparr>world := w\<rparr>) = Some (m_ops m)"
    using node_ops_mount [OF vfs_run_inv [OF assms(1)] _ assms(4)] by (simp add: node_ops_def)
  then show ?thesis using assms(3,5) by (simp add: vfs_read_def)
qed

text \<open>
  A prefix is compared as a string: a mount point that ends inside a component of the path takes the
  path as well.
\<close>

lemma mount_point_inside_component:
  assumes "mount_list s = [m]" "m_path m = lit ''/mnt/hd''"
  shows "vfs_get_filesystem (lit ''/mnt/hdd1/a.txt'') s = Some m"
proof -
  have "lit ''/mnt/hdd1/a.txt'' = lit ''/mnt/hd'' @ lit ''d1/a.txt''" by (simp add: lit_def)
  then have "prefix (lit ''/mnt/hd'') (lit ''/mnt/hdd1/a.txt'')" by (simp add: prefix_def)
  then show ?thesis using assms by (simp add: vfs_get_filesystem_def) (simp add: lit_def)
qed

subsection \<open>A run\<close>

text \<open>A file system without files, mounted at the root and below it.\<close>

definition null_ops :: "(unit, unit, unit) vfs_ops" where
  "null_ops = \<lparr>op_mount = (\<lambda>fs w. Some (w, VFS_OK, fs)), op_unmount = None, op_open = None, op_close = None, op_read = None,
     op_write = None, op_readdir = None, op_mkdir = None, op_rmdir = None, op_create = None, op_delete = None, op_stat = None\<rparr>"

definition vfs0 :: "(unit, unit, unit) vfs" where
  "vfs0 = fst (vfs_register_filesystem (Some (lit ''null'')) (Some null_ops)
     (vfs_init \<lparr>registered_filesystems = replicate 10 None, fs_count = 0, mount_list = [], next_fs = 0, mallocs = [], world = ()\<rparr>))"

lemma vfs0_run: "vfs_run vfs0"
  unfolding vfs0_def
  by (intro vfs_run.register vfs_run.start) (auto simp: file_system_def null_ops_def)

lemma vfs0_mount:
  assumes "registered_filesystems s = registered_filesystems vfs0" "mallocs s = []"
  shows "vfs_mount (Some d) (Some (lit ''null'')) (Some p) s
    = Some (s\<lparr>next_fs := next_fs s + 1, mount_list := \<lparr>m_path = take 255 p,
        m_fs = \<lparr>fs_id = next_fs s, fs_name = lit ''null'', fs_drive = d, fs_data = None\<rparr>, m_ops = null_ops\<rparr> # mount_list s\<rparr>, VFS_OK)"
proof -
  have "find_registered (lit ''null'') s = Some null_ops"
    by (simp add: find_registered_def assms vfs0_def vfs_register_filesystem_def vfs_init_def upt_rec numeral_eq_Suc) (simp add: lit_def)
  moreover have "take 31 (lit ''null'') = lit ''null''" by (simp add: lit_def)
  ultimately show ?thesis using assms(2) by (simp add: vfs_mount_def take_malloc_def null_ops_def)
qed

theorem vfs_mount_correct_witness:
  "\<exists>s' m. vfs_mount (Some 3) (Some (lit ''null'')) (Some (lit ''/'')) vfs0 = Some (s', VFS_OK)
     \<and> vfs_get_filesystem (lit ''/a'') s' = Some m \<and> fs_drive (m_fs m) = 3"
proof -
  have "mallocs vfs0 = []" "mount_list vfs0 = []"
    by (simp_all add: vfs0_def vfs_register_filesystem_def vfs_init_def find_registered_def split: option.splits)
  then obtain s' where s': "vfs_mount (Some 3) (Some (lit ''null'')) (Some (lit ''/'')) vfs0 = Some (s', VFS_OK)"
    using vfs0_mount [of vfs0 3 "lit ''/''"] by simp
  have l: "length (lit ''/'') \<le> 255" "lit ''/'' \<noteq> []" "hd (lit ''/'') = 47" "prefix (lit ''/'') (lit ''/a'')"
    by (simp_all add: lit_def)
  from vfs_mount_correct [OF vfs0_run s' l(1-3)] s' l(4) \<open>mount_list vfs0 = []\<close> show ?thesis by auto
qed

theorem vfs_path_resolution_witness:
  "\<exists>s :: (unit, unit, unit) vfs. vfs_run s \<and> (\<exists>m. vfs_get_filesystem (lit ''/a'') s = Some m \<and> resolves (lit ''/a'') (mount_list s) 0 m
     \<and> vfs_get_relative_path (lit ''/a'') (m_fs m) s = lit ''a'')"
proof -
  have "mallocs vfs0 = []" by (simp add: vfs0_def vfs_register_filesystem_def vfs_init_def find_registered_def split: option.splits)
  then obtain s m where s: "vfs_mount (Some 3) (Some (lit ''null'')) (Some (lit ''/'')) vfs0 = Some (s, VFS_OK)"
    and m: "mount_list s = m # mount_list vfs0" "m_path m = lit ''/''"
    using vfs0_mount [of vfs0 3 "lit ''/''"] by (simp add: lit_def)
  have run: "vfs_run s" by (rule vfs_run.mount [OF vfs0_run s])
  have "mount_list vfs0 = []"
    by (simp add: vfs0_def vfs_register_filesystem_def vfs_init_def find_registered_def split: option.splits)
  then have "vfs_get_filesystem (lit ''/a'') s = Some m" using m by (simp add: vfs_get_filesystem_def) (simp add: lit_def)
  moreover from this have "resolves (lit ''/a'') (mount_list s) 0 m \<and> vfs_get_relative_path (lit ''/a'') (m_fs m) s = lit ''a''"
    using vfs_path_resolution [OF run, of "lit ''/a''"] m by (simp add: lit_def)
  ultimately show ?thesis using run by blast
qed

end
