(* ===== verification/Fat32_Vfs.thy ===== *)
theory Fat32_Vfs
  imports Fat32_Directory Vfs_Correct
begin

text \<open>
  The adapter of FAT32 to the virtual file system (\<^verbatim>\<open>fs/fat32/fat32_vfs_adapter.c\<close>). The world is the
  global variables of FAT32, the drives and the current drive, on which FAT32 works; the adapter only
  reads. The data of a mount is the copy of the boot sector and the root node's cluster; a node keeps
  its directory entry, the root node has none.
\<close>

subsection \<open>The world\<close>

record fat_world =
  globals :: fat
  drives :: "nat \<Rightarrow> disk"
  current_drive :: "nat option"

record fat32_data =
  fd_boot :: boot_sector
  fd_root :: u32

type_synonym fat32_fs = "fat32_data vfs_filesystem"
type_synonym fat32_node = "(fat32_data, u8 list option) vfs_node"

definition on_drive :: "nat \<Rightarrow> fat_world \<Rightarrow> fat" where
  "on_drive d w = (globals w)\<lparr>disk := drives w d\<rparr>"

text \<open>
  \<^verbatim>\<open>fat32_init_fs\<close> reads the boot sector from the drive it is given, but the FSInfo sector from the
  current drive, which is NULL before the first mount.
\<close>

definition fat32_init_drive :: "bool \<Rightarrow> nat \<Rightarrow> fat_world \<Rightarrow> (fat_world \<times> bool) option" where
  "fat32_init_drive strict d w =
     (case dev_read 0 (drives w d) of
        None \<Rightarrow> Some (w, False)
      | Some b \<Rightarrow>
          let g = (globals w)\<lparr>bs := boot_sector_of b\<rparr>; n = sectors_per_cluster (bs g)
          in if strict \<and> ((ucast (boot_signature (bs g)) :: u32) \<noteq> 0xAA55
                 \<or> bytes_per_sector (bs g) \<notin> {512, 1024, 2048, 4096}
                 \<or> n = 0 \<or> n AND (n - 1) \<noteq> 0 \<or> root_cluster (bs g) < 2)
             then Some (w\<lparr>globals := g\<rparr>, False)
             else let g = g\<lparr>current_directory_cluster := root_cluster (bs g)\<rparr>
                  in if fs_info (bs g) \<noteq> 0 \<and> fs_info (bs g) \<noteq> 0xFFFF
                     then (case current_drive w of
                             None \<Rightarrow> None
                           | Some c \<Rightarrow> Some (w\<lparr>globals := fst (read_fsinfo (g\<lparr>disk := drives w c\<rparr>))\<rparr>, True))
                     else Some (w\<lparr>globals := g\<rparr>, True))"

text \<open>On the current drive this is the initialisation of the single drive model.\<close>

lemma fat32_init_drive_current:
  assumes "current_drive w = Some d"
  shows "\<exists>w'. fat32_init_drive strict d w = Some (w', snd (fat32_init_fs strict (on_drive d w)))
    \<and> on_drive d w' = fst (fat32_init_fs strict (on_drive d w)) \<and> drives w' = drives w"
proof -
  have r: "(fst (read_fsinfo g))\<lparr>disk := disk g\<rparr> = fst (read_fsinfo g)" for g
    by (simp add: read_fsinfo_def Let_def split: option.splits)
  have c: "g\<lparr>bs := b, current_directory_cluster := c, disk := x\<rparr> = g\<lparr>disk := x, bs := b, current_directory_cluster := c\<rparr>" for g :: fat and b c x
    by simp
  have "\<exists>w'. fat32_init_drive strict d w = Some (w', snd (fat32_init_fs strict (on_drive d w)))
      \<and> on_drive d w' = (fst (fat32_init_fs strict (on_drive d w)))\<lparr>disk := drives w d\<rparr> \<and> drives w' = drives w"
    using assms by (auto simp: fat32_init_drive_def fat32_init_fs_def on_drive_def Let_def c split: option.splits)
  moreover have "(fst (fat32_init_fs strict (on_drive d w)))\<lparr>disk := drives w d\<rparr> = fst (fat32_init_fs strict (on_drive d w))"
    using r [of "g\<lparr>disk := drives w d, bs := b, current_directory_cluster := c\<rparr>" for g b c] by (simp add: fat32_init_fs_def on_drive_def Let_def split: option.splits)
  ultimately show ?thesis by simp
qed

subsection \<open>Entries\<close>

text \<open>The name of an entry without padding; the copy ends at a NUL.\<close>

definition vfs_name :: "u8 list \<Rightarrow> cstring" where
  "vfs_name e = takeWhile (\<lambda>c. c \<noteq> 0) (takeWhile (\<lambda>c. c \<noteq> 32) (take 8 e)
     @ (if e ! 8 \<noteq> 32 then 46 # takeWhile (\<lambda>c. c \<noteq> 32) (take 3 (drop 8 e)) else []))"

definition node_type :: "u8 list \<Rightarrow> vfs_node_type" where
  "node_type e = (if entry_attr e AND 0x10 \<noteq> 0 then VFS_DIRECTORY else VFS_FILE)"

definition fat32_entry_to_vfs_entry :: "u8 list \<Rightarrow> vfs_dir_entry" where
  "fat32_entry_to_vfs_entry e = \<lparr>e_name = vfs_name e, e_type = node_type e, e_size = entry_size e,
     e_inode = read_start_cluster e, e_create_time = 0, e_modify_time = 0, e_access_time = 0, e_attributes = entry_attr e\<rparr>"

subsection \<open>Operations\<close>

definition fat32_vfs_mount :: "bool \<Rightarrow> fat32_fs \<Rightarrow> fat_world \<Rightarrow> (fat_world \<times> int \<times> fat32_fs) option" where
  "fat32_vfs_mount strict fs w = do {
     (w, ok) \<leftarrow> fat32_init_drive strict (fs_drive fs) w;
     if \<not> ok then Some (w, VFS_ERR_IO, fs)
     else if \<not> heap_ok (globals w) then Some (w, VFS_ERR_NO_MEMORY, fs)
     else Some (w, VFS_OK, fs\<lparr>fs_data := Some \<lparr>fd_boot = bs (globals w), fd_root = root_cluster (bs (globals w))\<rparr>\<rparr>) }"

definition fat32_vfs_unmount :: "fat32_fs \<Rightarrow> fat_world \<Rightarrow> (fat_world \<times> int) option" where
  "fat32_vfs_unmount fs w = Some (w, VFS_OK)"

definition root_node :: "fat32_fs \<Rightarrow> fat32_node option" where
  "root_node fs = map_option (\<lambda>d. \<lparr>n_name = [47], n_type = VFS_DIRECTORY, n_inode = fd_root d, n_size = 0, n_flags = 0, n_fs = fs,
     n_specific = None\<rparr>) (fs_data fs)"

definition fat32_vfs_open :: "fat32_fs \<Rightarrow> cstring \<Rightarrow> fat_world \<Rightarrow> (fat_world \<times> int \<times> fat32_node option) option" where
  "fat32_vfs_open fs path w =
     (let w = w\<lparr>current_drive := Some (fs_drive fs)\<rparr>
      in if path = [47] then Some (w, VFS_OK, root_node fs)
         else let filename = (if path \<noteq> [] \<and> hd path = 47 then tl path else path)
              in case find_file_in_directory filename (on_drive (fs_drive fs) w) of
                   None \<Rightarrow> Some (w, VFS_ERR_NOT_FOUND, None)
                 | Some e \<Rightarrow> Some (w, VFS_OK, Some \<lparr>n_name = vfs_name e, n_type = node_type e, n_inode = read_start_cluster e,
                                n_size = entry_size e, n_flags = 0, n_fs = fs, n_specific = Some e\<rparr>))"

text \<open>Closing releases memory only.\<close>

definition fat32_vfs_close :: "fat32_node \<Rightarrow> fat_world \<Rightarrow> (fat_world \<times> int) option" where
  "fat32_vfs_close node w = Some (w, VFS_OK)"

definition fat32_vfs_read :: "fat32_node \<Rightarrow> u32 \<Rightarrow> u32 \<Rightarrow> fat_world \<Rightarrow> (fat_world \<times> int \<times> u8 list) option" where
  "fat32_vfs_read node offset n w =
     (if n_type node \<noteq> VFS_FILE then Some (w, VFS_ERR_IS_DIR, [])
      else let w = w\<lparr>current_drive := Some (fs_drive (n_fs node))\<rparr>;
               bytes_to_read = (if n < n_size node then n else n_size node)
           in do {
             b \<leftarrow> read_file_data (n_inode node) (unat n) (unat bytes_to_read) (on_drive (fs_drive (n_fs node)) w);
             Some (w, s32 (int (length b)), b) })"

definition fat32_vfs_write :: "fat32_node \<Rightarrow> u32 \<Rightarrow> u8 list \<Rightarrow> fat_world \<Rightarrow> (fat_world \<times> int) option" where
  "fat32_vfs_write node offset buffer w = Some (w, VFS_ERR_UNSUPPORTED)"

fun scan_index :: "u8 list list \<Rightarrow> nat \<Rightarrow> u8 list option" where
  "scan_index [] index = None"
| "scan_index (e # es) index =
     (if e ! 0 = 0 then None
      else if e ! 0 = 0xE5 then scan_index es index
      else if entry_attr e = 0x0F then scan_index es index
      else if entry_attr e AND 0x08 \<noteq> 0 then scan_index es index
      else if index = 0 then Some e
      else scan_index es (index - 1))"

definition fat32_vfs_readdir :: "fat32_node \<Rightarrow> u32 \<Rightarrow> fat_world \<Rightarrow> (fat_world \<times> int \<times> vfs_dir_entry option) option" where
  "fat32_vfs_readdir node index w =
     (if n_type node \<noteq> VFS_DIRECTORY then Some (w, VFS_ERR_NOT_DIR, None)
      else let w = w\<lparr>current_drive := Some (fs_drive (n_fs node))\<rparr>; g = on_drive (fs_drive (n_fs node)) w
           in if \<not> heap_ok g then Some (w, VFS_ERR_NO_MEMORY, None)
              else case load_sectors [0..<unat (sectors_per_cluster (bs g))] (cluster_to_sector (n_inode node) g) g of
                     None \<Rightarrow> Some (w, VFS_ERR_IO, None)
                   | Some b \<Rightarrow>
                       (case scan_index (entries b) (unat index) of
                          None \<Rightarrow> Some (w, VFS_ERR_NOT_FOUND, None)
                        | Some e \<Rightarrow> Some (w, VFS_OK, Some (fat32_entry_to_vfs_entry e))))"

text \<open>\<^verbatim>\<open>mkdir\<close>, \<^verbatim>\<open>rmdir\<close>, \<^verbatim>\<open>create\<close> and \<^verbatim>\<open>delete\<close> are not implemented.\<close>

definition fat32_vfs_unsupported :: "fat32_fs \<Rightarrow> cstring \<Rightarrow> fat_world \<Rightarrow> (fat_world \<times> int) option" where
  "fat32_vfs_unsupported fs path w = Some (w, VFS_ERR_UNSUPPORTED)"

definition fat32_vfs_stat ::
  "fat32_fs \<Rightarrow> vfs_dir_entry \<Rightarrow> cstring \<Rightarrow> fat_world \<Rightarrow> (fat_world \<times> int \<times> vfs_dir_entry) option" where
  "fat32_vfs_stat fs stat path w = do {
     (w, result, node) \<leftarrow> fat32_vfs_open fs path w;
     if result \<noteq> VFS_OK then Some (w, result, stat)
     else case node of
            None \<Rightarrow> None
          | Some n \<Rightarrow> do {
              (w, r) \<leftarrow> fat32_vfs_close n w;
              Some (w, VFS_OK, stat\<lparr>e_name := n_name n, e_type := n_type n, e_size := n_size n, e_inode := n_inode n\<rparr>) } }"

definition fat32_vfs_ops :: "bool \<Rightarrow> (fat_world, fat32_data, u8 list option) vfs_ops" where
  "fat32_vfs_ops strict = \<lparr>op_mount = fat32_vfs_mount strict, op_unmount = Some fat32_vfs_unmount, op_open = Some fat32_vfs_open,
     op_close = Some fat32_vfs_close, op_read = Some fat32_vfs_read, op_write = Some fat32_vfs_write,
     op_readdir = Some fat32_vfs_readdir, op_mkdir = Some fat32_vfs_unsupported, op_rmdir = Some fat32_vfs_unsupported,
     op_create = Some fat32_vfs_unsupported, op_delete = Some fat32_vfs_unsupported, op_stat = Some fat32_vfs_stat\<rparr>"

definition fat32_register_vfs ::
  "bool \<Rightarrow> (fat_world, fat32_data, u8 list option) vfs \<Rightarrow> (fat_world, fat32_data, u8 list option) vfs" where
  "fat32_register_vfs strict s = fst (vfs_register_filesystem (Some (lit ''fat32'')) (Some (fat32_vfs_ops strict)) s)"

subsection \<open>The promise\<close>

interpretation fat32_fs: file_system "fat32_vfs_ops strict" for strict
  by unfold_locales (auto simp: fat32_vfs_ops_def fat32_vfs_mount_def Option.bind_eq_Some_conv split: if_splits)

subsection \<open>Files through the virtual file system\<close>

lemma on_drive_current [simp]: "on_drive d (w\<lparr>current_drive := c\<rparr>) = on_drive d w"
  by (simp add: on_drive_def)

text \<open>
  C13. A file is read through the virtual file system: when a path resolves to a FAT32 mount on a
  healthy drive and names a file of the current directory there, \<^verbatim>\<open>vfs_open\<close> yields a node with the
  size of the file, and \<^verbatim>\<open>vfs_read\<close> on it returns the first bytes of the file's clusters, as many as
  asked for and at most its size.
\<close>

theorem vfs_read_fat32_file:
  assumes "vfs_run s" "vfs_get_filesystem path s = Some m" "m_ops m = fat32_vfs_ops strict"
    and "g = on_drive (fs_drive (m_fs m)) (world s)" "fat_ok g" "healthy (disk g)"
    and "rel = vfs_get_relative_path path (m_fs m) s" "rel \<noteq> [47]"
    and "find_file_in_directory (file_name rel) g = Some e" "entry_attr e AND 0x10 = 0"
    and "chain g (read_start_cluster e # cs)" "unat n < 2 ^ 31"
  shows "\<exists>s1 node s2 b. vfs_open (Some path) s = Some (s1, VFS_OK, Some node) \<and> n_size node = entry_size e
    \<and> vfs_read (Some node) offset n True s1 = Some (s2, int (length b), b)
    \<and> b = take (min (unat n) (unat (entry_size e))) (chain_data g (read_start_cluster e # cs))"
proof -
  let ?d = "fs_drive (m_fs m)"
  let ?node = "\<lparr>n_name = vfs_name e, n_type = node_type e, n_inode = read_start_cluster e, n_size = entry_size e, n_flags = 0,
      n_fs = m_fs m, n_specific = Some e\<rparr>"
  let ?w = "(world s)\<lparr>current_drive := Some ?d\<rparr>"
  have o: "vfs_open (Some path) s = Some (s\<lparr>world := ?w\<rparr>, VFS_OK, Some ?node)"
    using assms(2,3,8,9) assms(4,7) [symmetric]
    by (simp add: vfs_open_def forward_def fat32_vfs_ops_def fat32_vfs_open_def Let_def file_name_def)
  have "m \<in> set (mount_list s)"
    using assms(2) best_mount_in by (fastforce simp: vfs_get_filesystem_def split: if_splits)
  then have ops: "node_ops ?node (s\<lparr>world := ?w\<rparr>) = Some (fat32_vfs_ops strict)"
    using node_ops_mount [OF vfs_run_inv [OF assms(1)], of m ?node] assms(3) by (simp add: node_ops_def)
  define k where "k = (if n < entry_size e then n else entry_size e)"
  define b where "b = take (min (unat n) (unat (entry_size e))) (chain_data g (read_start_cluster e # cs))"
  have k: "min (unat k) (unat n) = min (unat n) (unat (entry_size e))"
    by (auto simp: k_def min_def word_less_nat_alt)
  have r: "read_file_data (read_start_cluster e) (unat n) (unat k) g = Some b"
    using read_file_ok [OF assms(5,6,11), of "unat n" "unat k"] k by (simp add: b_def)
  have "length b < 2 ^ 31" using assms(12) by (simp add: b_def)
  then have "s32 (int (length b)) = int (length b)" by (simp add: s32_id)
  then have "fat32_vfs_read ?node offset n ?w = Some (?w, int (length b), b)"
    using r assms(10) assms(4) [symmetric] by (cases "n < entry_size e") (simp_all add: fat32_vfs_read_def node_type_def k_def)
  then have "vfs_read (Some ?node) offset n True (s\<lparr>world := ?w\<rparr>) = Some (s\<lparr>world := ?w\<rparr>, int (length b), b)"
    using ops by (simp add: vfs_read_def) (simp add: fat32_vfs_ops_def)
  with o show ?thesis unfolding b_def by (intro exI) (rule conjI, assumption, auto)
qed

text \<open>The entries of a directory that are listed.\<close>

definition visible :: "u8 list list \<Rightarrow> u8 list list" where
  "visible es = filter (\<lambda>e. e ! 0 \<noteq> 0xE5 \<and> entry_attr e \<noteq> 0x0F \<and> entry_attr e AND 0x08 = 0) (takeWhile (\<lambda>e. e ! 0 \<noteq> 0) es)"

lemma scan_index_visible:
  "scan_index es i = (if i < length (visible es) then Some (visible es ! i) else None)"
  by (induction es i rule: scan_index.induct) (auto simp: visible_def nth_Cons')

text \<open>
  Listing a directory by counting up the index yields its visible entries in order, and then
  \<^verbatim>\<open>VFS_ERR_NOT_FOUND\<close>.
\<close>

lemma fat32_vfs_readdir_correct:
  assumes "g = on_drive (fs_drive (n_fs node)) w" "fat_ok g" "healthy (disk g)" "heap_ok g" "n_type node = VFS_DIRECTORY"
  shows "\<exists>w'. fat32_vfs_readdir node index w = Some (
    let es = visible (entries (cluster_data g (n_inode node)))
    in if unat index < length es then (w', VFS_OK, Some (fat32_entry_to_vfs_entry (es ! unat index)))
       else (w', VFS_ERR_NOT_FOUND, None))"
proof -
  have "load_sectors [0..<spc g] (cluster_to_sector (n_inode node) g) g = Some (cluster_data g (n_inode node))"
    by (simp add: load_sectors_ok [OF assms(3)] cluster_data_def)
  then show ?thesis
    using assms(4,5) assms(1) [symmetric] by (simp add: fat32_vfs_readdir_def scan_index_visible Let_def)
qed

subsection \<open>Two drives, and the first one\<close>

text \<open>
  The boot sector is one global variable: after a second FAT32 drive has been mounted, files of the
  first one are looked up with the geometry of the second.
\<close>

lemma second_mount_changes_geometry:
  assumes "fat32_vfs_mount strict fs w = Some (w', r, fs')" "\<not> read_error (drives w (fs_drive fs)) 0"
  shows "bs (on_drive d w') = boot_sector_of (sectors (drives w (fs_drive fs)) 0)"
proof -
  have r: "bs (fst (read_fsinfo g)) = bs g" for g by (simp add: read_fsinfo_def Let_def split: option.splits)
  have "bs (globals w1) = boot_sector_of (sectors (drives w (fs_drive fs)) 0)"
    if "fat32_init_drive strict (fs_drive fs) w = Some (w1, ok)" for w1 ok
    using that assms(2) by (auto simp: fat32_init_drive_def dev_read_def Let_def r split: if_splits option.splits)
  then show ?thesis
    using assms(1) by (auto simp: fat32_vfs_mount_def on_drive_def Option.bind_eq_Some_conv split: if_splits)
qed

text \<open>
  The FSInfo sector is read from the current drive: mounting the first drive, while there is no
  current one, goes through a NULL pointer when the volume has an FSInfo sector.
\<close>

lemma first_mount_null:
  assumes "current_drive w = None" "\<not> read_error (drives w (fs_drive fs)) 0"
    and "fs_info (boot_sector_of (sectors (drives w (fs_drive fs)) 0)) = 1"
  shows "fat32_vfs_mount False fs w = None"
  using assms by (simp add: fat32_vfs_mount_def fat32_init_drive_def dev_read_def Let_def)

subsection \<open>A mounted volume\<close>

text \<open>The file A of 600 bytes in the clusters 5 and 6.\<close>

definition file_entry :: "u8 list" where
  "file_entry = lit ''A          '' @ replicate 9 0 @ [0, 0, 0, 0, 0, 0, 5, 0] @ bytes32 600"

definition file_volume :: fat where
  "file_volume = small_fat (\<lambda>l. if l = 1 \<or> l = 2
     then put32 (put32 (put32 (replicate 512 0) 20 6) 24 FAT32_EOC_MAX) 8 FAT32_EOC_MAX
     else if l = 3 then file_entry @ replicate 480 0
     else replicate 512 (ucast l))"

lemma length_file_entry [simp]: "length file_entry = 32"
  by (simp add: file_entry_def lit_def bytes32_def)

lemma entries_append: "length e = 32 \<Longrightarrow> entries (e @ b) = e # entries b"
proof -
  assume l: "length e = 32"
  have "map (\<lambda>j. take 32 (drop (32 * j) (e @ b))) [0..<Suc (length b div 32)]
      = take 32 (e @ b) # map (\<lambda>j. take 32 (drop (32 * Suc j) (e @ b))) [0..<length b div 32]"
    by (simp add: upt_conv_Cons map_Suc_upt [symmetric] o_def del: upt_Suc)
  moreover have "length (e @ b) div 32 = Suc (length b div 32)" using l by simp
  ultimately show ?thesis using l by (simp add: entries_def del: upt_Suc length_append)
qed

lemma file_volume_ok: "fat_ok file_volume" "healthy (disk file_volume)"
  unfolding file_volume_def by (rule small_fat_ok, simp) (rule small_fat_healthy)

lemma file_volume_find: "find_file_in_directory (lit ''a'') file_volume = Some file_entry"
proof -
  have h: "heap_ok file_volume" "current_directory_cluster file_volume = 2"
    by (simp_all add: file_volume_def small_fat_def)
  have d: "cluster_data file_volume 2 = file_entry @ replicate 480 0"
    by (simp add: cluster_data_def cluster_to_sector_def is_valid_cluster_def file_volume_def small_fat_def)
       (simp add: small_bs_def)
  have "compare_names (take 11 file_entry) (lit ''a'') = 0" "file_entry ! 0 = 65" "entry_attr file_entry = 0"
    by code_simp+
  then show ?thesis
    by (simp add: find_file_eq [OF file_volume_ok h(1)] h(2) d entries_append)
qed

lemma file_volume_chain: "chain file_volume [5, 6]"
proof -
  have o: "ent_offset 5 file_volume = 20" "ent_offset 6 file_volume = 24" "fat_sector 5 file_volume = 1" "fat_sector 6 file_volume = 1"
    by (simp_all add: ent_offset_def fat_sector_def file_volume_def small_fat_def small_bs_def)
  have d: "sectors (disk file_volume) 1 = put32 (put32 (put32 (replicate 512 0) 20 6) 24 FAT32_EOC_MAX) 8 FAT32_EOC_MAX"
    by (simp add: file_volume_def small_fat_def)
  have "fat_entry file_volume 5 = 6" "fat_entry file_volume 6 = FAT32_EOC_MAX"
    unfolding fat_entry_def o d by (simp_all add: get_put32_other)
  then show ?thesis by (simp add: file_volume_def small_in_range)
qed

definition fat_world0 :: fat_world where
  "fat_world0 = \<lparr>globals = file_volume, drives = (\<lambda>_. disk file_volume), current_drive = None\<rparr>"

definition fat_vfs0 :: "(fat_world, fat32_data, u8 list option) vfs" where
  "fat_vfs0 = fat32_register_vfs False
     (vfs_init \<lparr>registered_filesystems = replicate 10 None, fs_count = 0, mount_list = [], next_fs = 0, mallocs = [], world = fat_world0\<rparr>)"

lemma fat_vfs0_run: "vfs_run fat_vfs0"
  unfolding fat_vfs0_def fat32_register_vfs_def
  by (intro vfs_run.register vfs_run.start) (auto intro: fat32_fs.file_system_axioms)

lemma fat_vfs0_mount:
  "\<exists>s m. vfs_mount (Some 0) (Some (lit ''fat32'')) (Some (lit ''/'')) fat_vfs0 = Some (s, VFS_OK)
     \<and> mount_list s = [m] \<and> m_path m = lit ''/'' \<and> m_ops m = fat32_vfs_ops False \<and> fs_drive (m_fs m) = 0"
proof -
  have f: "find_registered (lit ''fat32'') fat_vfs0 = Some (fat32_vfs_ops False)"
    by (simp add: find_registered_def fat_vfs0_def fat32_register_vfs_def vfs_register_filesystem_def vfs_init_def upt_rec numeral_eq_Suc)
       (simp add: lit_def)
  have v: "mallocs fat_vfs0 = []" "mount_list fat_vfs0 = []" "world fat_vfs0 = fat_world0"
    by (simp_all add: fat_vfs0_def fat32_register_vfs_def vfs_register_filesystem_def vfs_init_def find_registered_def split: option.splits)
  have b: "fs_info (boot_sector_of (replicate 512 0)) = 0" by code_simp
  have d: "dev_read 0 (disk file_volume) = Some (replicate 512 0)" by (simp add: dev_read_def file_volume_def small_fat_def)
  have "heap_ok file_volume" by (simp add: file_volume_def small_fat_def)
  then have "\<exists>w fs'. fat32_vfs_mount False fs fat_world0 = Some (w, VFS_OK, fs') \<and> fs_drive fs' = fs_drive fs" for fs
    using b d by (simp add: fat32_vfs_mount_def fat32_init_drive_def fat_world0_def Let_def)
  then obtain w fs' where "fat32_vfs_mount False \<lparr>fs_id = next_fs fat_vfs0, fs_name = take 31 (lit ''fat32''), fs_drive = 0, fs_data = None\<rparr>
      fat_world0 = Some (w, VFS_OK, fs')" "fs_drive fs' = 0"
    by (metis vfs_filesystem.select_convs(3))
  then show ?thesis using f v
    by (auto simp: vfs_mount_def take_malloc_def fat32_vfs_ops_def lit_def)
qed

theorem vfs_read_fat32_file_witness:
  "\<exists>(s :: (fat_world, fat32_data, u8 list option) vfs) s1 node s2 b. vfs_run s \<and> vfs_open (Some (lit ''/a'')) s = Some (s1, VFS_OK, Some node)
     \<and> vfs_read (Some node) 0 100 True s1 = Some (s2, 100, b) \<and> b = take 100 (chain_data file_volume [5, 6])"
proof -
  obtain s m where s: "vfs_mount (Some 0) (Some (lit ''fat32'')) (Some (lit ''/'')) fat_vfs0 = Some (s, VFS_OK)"
      "mount_list s = [m]" "m_path m = lit ''/''" "m_ops m = fat32_vfs_ops False" "fs_drive (m_fs m) = 0"
    using fat_vfs0_mount by blast
  let ?s = "s\<lparr>world := fat_world0\<rparr>"
  have run: "vfs_run ?s" by (rule vfs_run.operate [OF vfs_run.mount [OF fat_vfs0_run s(1)]])
  have get: "vfs_get_filesystem (lit ''/a'') ?s = Some m" using s(2,3) by (simp add: vfs_get_filesystem_def) (simp add: lit_def)
  have rel: "vfs_get_relative_path (lit ''/a'') (m_fs m) ?s = lit ''a''"
    using s(2,3) by (simp add: vfs_get_relative_path_def Let_def) (simp add: lit_def)
  have g: "on_drive (fs_drive (m_fs m)) (world ?s) = file_volume" by (simp add: on_drive_def fat_world0_def)
  have c: "lit ''a'' \<noteq> [47]" "file_name (lit ''a'') = lit ''a''" "entry_attr file_entry AND 0x10 = 0"
      "read_start_cluster file_entry = 5" "unat (entry_size file_entry) = 600" "unat (100 :: u32) = 100"
    by code_simp+
  have len: "length (chain_data file_volume [5, 6]) \<ge> 100" by code_simp
  have "find_file_in_directory (file_name (lit ''a'')) file_volume = Some file_entry" by (simp add: c file_volume_find)
  moreover have "chain file_volume (read_start_cluster file_entry # [6])" using file_volume_chain by (simp add: c)
  moreover have "unat (100 :: u32) < 2 ^ 31" by simp
  ultimately obtain s1 node s2 b where r: "vfs_open (Some (lit ''/a'')) ?s = Some (s1, VFS_OK, Some node)"
      "vfs_read (Some node) 0 100 True s1 = Some (s2, int (length b), b)"
      "b = take (min (unat (100 :: u32)) (unat (entry_size file_entry))) (chain_data file_volume (read_start_cluster file_entry # [6]))"
    using vfs_read_fat32_file [OF run get s(4) g [symmetric] file_volume_ok rel [symmetric] c(1), of file_entry "[6]" 100 0] c(3)
    by blast
  then have b: "b = take 100 (chain_data file_volume [5, 6])" by (simp add: c)
  with len have "int (length b) = 100" by simp
  with r(1,2) b run show ?thesis by metis
qed

end
