(* ===== verification/Fat12.thy ===== *)
theory Fat12
  imports Disk "HOL-Library.Signed_Division"
begin

text \<open>
  The FAT12 file system of floppy disks (\<^verbatim>\<open>fs/fat12/fat12.c\<close>). The floppy gives, for a drive, head,
  track and sector, 512 bytes or an error. The result \<open>None\<close> of an operation is a loop that does not
  end or behaviour outside C: a NULL pointer, memory already freed, a read behind a buffer. \<open>allocs\<close>
  tells the outcome of the next allocations, which succeed when it is empty; \<open>fresh\<close> is what a new
  block of memory holds.
\<close>

subsection \<open>Types\<close>

record fat12_boot_sector =
  bpb_bytes_per_sector :: u16
  bpb_sectors_per_cluster :: u8
  bpb_reserved_sectors :: u16
  bpb_fat_count :: u8
  bpb_root_entry_count :: u16
  bpb_total_sectors :: u16
  bpb_sectors_per_fat :: u16
  bpb_sectors_per_track :: u16
  bpb_heads :: u16
  bpb_total_sectors_large :: u32
  bpb_signature :: u16

definition fat12_boot_sector_of :: "u8 list \<Rightarrow> fat12_boot_sector" where
  "fat12_boot_sector_of b = \<lparr>bpb_bytes_per_sector = get16 b 11, bpb_sectors_per_cluster = b ! 13, bpb_reserved_sectors = get16 b 14,
     bpb_fat_count = b ! 16, bpb_root_entry_count = get16 b 17, bpb_total_sectors = get16 b 19, bpb_sectors_per_fat = get16 b 22,
     bpb_sectors_per_track = get16 b 24, bpb_heads = get16 b 26, bpb_total_sectors_large = get32 b 32, bpb_signature = get16 b 510\<rparr>"

record fat12_t =
  boot12 :: fat12_boot_sector
  fat_start12 :: int
  root_dir_start :: int
  data_start12 :: int
  fat_table :: "u8 list option"

text \<open>A pointer to a directory entry: NULL, a slot of the array \<^verbatim>\<open>entries\<close>, or an entry elsewhere.\<close>

datatype dir_ptr = Null_dir | Slot nat | Local "u8 list"

text \<open>The state of the pointer \<^verbatim>\<open>buffer\<close>, which keeps its value when the memory is freed.\<close>

datatype buffer_ptr = Null_buffer | Live_buffer | Freed_buffer

record fat12_file =
  file_start_cluster :: u32
  file_name12 :: cstring
  file_size12 :: u32
  file_position :: u32
  file_mode12 :: cstring

record fat12_state =
  fat12 :: "fat12_t option"
  entries12 :: "u8 list list option"
  current_dir :: dir_ptr
  buffer :: buffer_ptr
  current_fdd_drive :: u8
  floppy :: "u8 \<Rightarrow> u8 \<Rightarrow> u8 \<Rightarrow> u8 \<Rightarrow> u8 list option"
  allocs :: "bool list"
  fresh :: "nat \<Rightarrow> u8"

abbreviation FAT12_SECTOR_SIZE :: nat where "FAT12_SECTOR_SIZE \<equiv> 512"
abbreviation FAT12_MAX_ROOT_ENTRIES :: nat where "FAT12_MAX_ROOT_ENTRIES \<equiv> 224"

definition alloc :: "fat12_state \<Rightarrow> fat12_state \<times> bool" where
  "alloc s = (case allocs s of [] \<Rightarrow> (s, True) | b # bs \<Rightarrow> (s\<lparr>allocs := bs\<rparr>, b))"

definition new_block :: "nat \<Rightarrow> fat12_state \<Rightarrow> u8 list" where
  "new_block n s = map (fresh s) [0..<n]"

definition entry12_attributes :: "u8 list \<Rightarrow> u8" where
  "entry12_attributes e = e ! 11"

definition entry12_cluster :: "u8 list \<Rightarrow> u16" where
  "entry12_cluster e = get16 e 26"

definition entry12_size :: "u8 list \<Rightarrow> u32" where
  "entry12_size e = get32 e 28"

subsection \<open>Sectors\<close>

text \<open>The registers of the floppy controller have 8 bits.\<close>

definition fdc_read_with_fallback :: "u8 \<Rightarrow> u8 \<Rightarrow> u8 \<Rightarrow> u8 \<Rightarrow> fat12_state \<Rightarrow> u8 list option" where
  "fdc_read_with_fallback drive head track sector s = floppy s drive head track sector"

definition geometry12 :: "fat12_state \<Rightarrow> int \<times> int" where
  "geometry12 s =
     (case fat12 s of
        None \<Rightarrow> (18, 2)
      | Some f \<Rightarrow> if bpb_sectors_per_track (boot12 f) > 0 \<and> bpb_heads (boot12 f) > 0
                  then (uint (bpb_sectors_per_track (boot12 f)), uint (bpb_heads (boot12 f))) else (18, 2))"

definition logical_to_chs :: "int \<Rightarrow> fat12_state \<Rightarrow> int \<times> int \<times> int" where
  "logical_to_chs logical_sector s =
     (if logical_sector < 0 then (0, 0, 0)
      else let (spt, heads) = geometry12 s
           in (logical_sector sdiv s32 (spt * heads), (logical_sector div spt) mod heads, logical_sector mod spt + 1))"

definition read_logical :: "int \<Rightarrow> fat12_state \<Rightarrow> u8 list option" where
  "read_logical logical_sector s =
     (let (track, head, sector) = logical_to_chs logical_sector s
      in fdc_read_with_fallback (current_fdd_drive s) (word_of_int head) (word_of_int track) (word_of_int sector) s)"

text \<open>The sectors from \<open>start\<close> on, one every \<open>bps\<close> bytes of the buffer.\<close>

primrec load12 :: "nat list \<Rightarrow> int \<Rightarrow> nat \<Rightarrow> u8 list \<Rightarrow> fat12_state \<Rightarrow> u8 list option" where
  "load12 [] start bps buf s = Some buf"
| "load12 (i # is) start bps buf s = do {
     b \<leftarrow> read_logical (start + int i) s;
     load12 is start bps (put_at buf (i * bps) b) s }"

subsection \<open>Validation\<close>

definition is_valid_cluster_fat12 :: "int \<Rightarrow> bool" where
  "is_valid_cluster_fat12 cluster \<longleftrightarrow> cluster \<ge> 0x002 \<and> cluster \<le> 0xFF7"

definition is_end_of_chain_fat12 :: "int \<Rightarrow> bool" where
  "is_end_of_chain_fat12 cluster \<longleftrightarrow> cluster \<ge> 0xFF8 \<and> cluster \<le> 0xFFF"

definition root_dir_sectors :: "fat12_boot_sector \<Rightarrow> u32" where
  "root_dir_sectors b =
     (ucast (bpb_root_entry_count b) * 32 + (ucast (bpb_bytes_per_sector b) - 1)) div ucast (bpb_bytes_per_sector b)"

definition total_clusters12 :: "fat12_boot_sector \<Rightarrow> u32" where
  "total_clusters12 b =
     (let total_sectors = (if bpb_total_sectors b \<noteq> 0 then ucast (bpb_total_sectors b) else bpb_total_sectors_large b);
          data_sectors = total_sectors - (ucast (bpb_reserved_sectors b) + ucast (bpb_fat_count b) * ucast (bpb_sectors_per_fat b)
                                          + root_dir_sectors b)
      in data_sectors div ucast (bpb_sectors_per_cluster b))"

definition validate_fat12_boot_sector :: "fat12_boot_sector \<Rightarrow> bool" where
  "validate_fat12_boot_sector b =
     (let spc = bpb_sectors_per_cluster b
      in if bpb_signature b \<noteq> 0xAA55 then False
         else if bpb_bytes_per_sector b \<notin> {512, 1024, 2048, 4096} then False
         else if spc = 0 \<or> spc > 128 \<or> spc AND (spc - 1) \<noteq> 0 then False
         else if bpb_fat_count b < 1 \<or> bpb_fat_count b > 2 then False
         else if bpb_root_entry_count b = 0 then False
         else if total_clusters12 b \<ge> 4085 then False
         else if total_clusters12 b < 2 then False
         else True)"

text \<open>The string searched for with \<^verbatim>\<open>strchr\<close> has its terminator as a last character.\<close>

definition is_valid_filename :: "cstring \<Rightarrow> bool" where
  "is_valid_filename name =
     list_all (\<lambda>c. 48 \<le> c \<and> c \<le> 57 \<or> 65 \<le> c \<and> c \<le> 90 \<or> 97 \<le> c \<and> c \<le> 122
                  \<or> c \<in> set (0 # lit ''!#$%&'' @ 39 # lit ''()-@^_`{}~'')) name"

subsection \<open>Initialisation\<close>

definition layout12 :: "fat12_boot_sector \<Rightarrow> fat12_t" where
  "layout12 b =
     (let start = uint (bpb_reserved_sectors b);
          root = start + uint (bpb_fat_count b) * uint (bpb_sectors_per_fat b)
      in \<lparr>boot12 = b, fat_start12 = start, root_dir_start = root, data_start12 = root + uint (root_dir_sectors b), fat_table = None\<rparr>)"

text \<open>
  The structure has just been cleared by the caller, so that its signature is not yet set. It is the
  one that the global variable points to and that \<^verbatim>\<open>logical_to_chs\<close> reads.
\<close>

definition read_fat12 :: "u8 \<Rightarrow> fat12_state \<Rightarrow> fat12_state \<times> bool" where
  "read_fat12 drive s =
     (let (s, ok) = alloc s
      in if \<not> ok then (s\<lparr>buffer := Null_buffer\<rparr>, False)
         else case fdc_read_with_fallback drive 0 0 1 s of
                None \<Rightarrow> (s\<lparr>buffer := Freed_buffer\<rparr>, False)
              | Some sec \<Rightarrow>
                  let b = fat12_boot_sector_of sec; s = s\<lparr>buffer := Freed_buffer\<rparr>
                  in if \<not> validate_fat12_boot_sector b then (s, False)
                     else let f = layout12 b; (s, ok) = alloc (s\<lparr>fat12 := Some f\<rparr>);
                              bps = unat (bpb_bytes_per_sector b); spf = unat (bpb_sectors_per_fat b)
                          in if \<not> ok then (s, False)
                             else case load12 [0..<spf] (fat_start12 f) bps (new_block (spf * bps) s) s of
                                    None \<Rightarrow> (s, False)
                                  | Some table \<Rightarrow> (s\<lparr>fat12 := Some (f\<lparr>fat_table := Some table\<rparr>)\<rparr>, True))"

definition fat12_init_fs :: "u8 \<Rightarrow> fat12_state \<Rightarrow> fat12_state \<times> bool" where
  "fat12_init_fs drive s =
     (let (s, ok) = alloc (s\<lparr>current_fdd_drive := drive, fat12 := None\<rparr>)
      in if \<not> ok then (s, False)
         else let (s, ok) = read_fat12 drive s
              in if \<not> ok then (s\<lparr>fat12 := None\<rparr>, False) else (s, True))"

subsection \<open>The table\<close>

text \<open>The two ways to take 12 bits out of the two bytes at an offset.\<close>

definition low12 :: "u8 \<Rightarrow> u8 \<Rightarrow> u32" where
  "low12 a b = (ucast a OR push_bit 8 (ucast b)) AND 0xFFF"

definition high12 :: "u8 \<Rightarrow> u8 \<Rightarrow> u32" where
  "high12 a b = (ucast (drop_bit 4 a) OR push_bit 4 (ucast b)) AND 0xFFF"

definition get_next_cluster :: "int \<Rightarrow> fat12_state \<Rightarrow> int" where
  "get_next_cluster current_cluster s =
     (case fat12 s of
        None \<Rightarrow> - 1
      | Some f \<Rightarrow>
          (case fat_table f of
             None \<Rightarrow> - 1
           | Some table \<Rightarrow>
               if \<not> is_valid_cluster_fat12 current_cluster then - 1
               else let offset = nat (current_cluster * 3 div 2);
                        fat_size = unat (bpb_sectors_per_fat (boot12 f)) * FAT12_SECTOR_SIZE
                    in if offset + 1 \<ge> fat_size then - 1
                       else let next = uint (if even offset then low12 (table ! offset) (table ! (offset + 1))
                                             else high12 (table ! offset) (table ! (offset + 1)))
                            in if is_end_of_chain_fat12 next then - 1
                               else if next = 0xFF7 then - 1
                               else if next = 0 \<or> next = 1 then - 1
                               else next))"

definition extract_date :: "u16 \<Rightarrow> int \<times> int \<times> int" where
  "extract_date d = (uint (d AND 0x1F), uint (drop_bit 5 d AND 0x0F), uint (drop_bit 9 d AND 0x7F) + 1980)"

definition extract_time :: "u16 \<Rightarrow> int \<times> int \<times> int" where
  "extract_time t = (uint (drop_bit 11 t AND 0x1F), uint (drop_bit 5 t AND 0x3F), uint (t AND 0x1F) * 2)"

subsection \<open>Directories\<close>

definition records :: "u8 list \<Rightarrow> u8 list list" where
  "records b = map (\<lambda>i. take 32 (drop (32 * i) b)) [0..<length b div 32]"

text \<open>The entries that are kept, and whether the end mark was met; \<open>found\<close> have been kept before.\<close>

fun parse_entries :: "u8 list list \<Rightarrow> nat \<Rightarrow> u8 list list \<times> bool" where
  "parse_entries [] found = ([], False)"
| "parse_entries (e # es) found =
     (if found \<ge> FAT12_MAX_ROOT_ENTRIES then ([], False)
      else if e ! 0 = 0 then ([], True)
      else if e ! 0 = 0xE5 then parse_entries es found
      else if entry12_attributes e AND 0x0F = 0x0F then parse_entries es found
      else apfst ((#) e) (parse_entries es (found + 1)))"

definition read_root12 :: "fat12_state \<Rightarrow> (fat12_state \<times> int) option" where
  "read_root12 s =
     (let (s, ok) = alloc (s\<lparr>entries12 := None\<rparr>)
      in if \<not> ok then Some (s, - 1)
         else do {
           f \<leftarrow> fat12 s;
           let bps = unat (bpb_bytes_per_sector (boot12 f));
           let n = unat (root_dir_sectors (boot12 f));
           let (s, ok) = alloc s;
           if \<not> ok then Some (s, - 1)
           else case load12 [0..<n] (root_dir_start f) bps (new_block (n * bps) s) s of
                  None \<Rightarrow> Some (s, - 1)
                | Some b \<Rightarrow> let es = fst (parse_entries (records b) 0)
                            in Some (s\<lparr>entries12 := Some es\<rparr>, int (length es)) })"

text \<open>The inner \<open>None\<close> is a failed read.\<close>

partial_function (option) subdir_loop :: "int \<Rightarrow> u8 list \<Rightarrow> u8 list list \<Rightarrow> fat12_t \<Rightarrow> fat12_state \<Rightarrow> u8 list list option option" where
  "subdir_loop cluster buf acc f s =
     (if is_valid_cluster_fat12 cluster \<and> length acc < FAT12_MAX_ROOT_ENTRIES
      then let spc = unat (bpb_sectors_per_cluster (boot12 f))
           in case load12 [0..<spc] (data_start12 f + (cluster - 2) * int spc) (unat (bpb_bytes_per_sector (boot12 f))) buf s of
                None \<Rightarrow> Some None
              | Some buf \<Rightarrow>
                  let p = parse_entries (records buf) (length acc); acc = acc @ fst p
                  in if snd p then Some (Some acc)
                     else let next = get_next_cluster cluster s
                          in if next < 0 then Some (Some acc) else subdir_loop next buf acc f s
      else Some (Some acc))"

text \<open>
  The array \<^verbatim>\<open>entries\<close> is freed before the argument is read: an argument that points into it, as
  \<^verbatim>\<open>current_dir\<close> does after a change of directory, is a dangling pointer.
\<close>

definition fat12_read_dir_entries :: "dir_ptr \<Rightarrow> fat12_state \<Rightarrow> (fat12_state \<times> int) option" where
  "fat12_read_dir_entries dir s =
     (case dir of
        Null_dir \<Rightarrow> read_root12 s
      | _ \<Rightarrow>
         let (s, ok) = alloc (s\<lparr>entries12 := None\<rparr>)
         in if \<not> ok then Some (s, - 1)
            else do {
              f \<leftarrow> fat12 s;
              e \<leftarrow> (case dir of Local e \<Rightarrow> Some e | _ \<Rightarrow> None);
              let cluster = uint (entry12_cluster e);
              if cluster = 0 then read_root12 s
              else if \<not> is_valid_cluster_fat12 cluster then Some (s, - 1)
              else do {
                let (s, ok) = alloc s;
                if \<not> ok then Some (s, - 1)
                else do {
                  r \<leftarrow> subdir_loop cluster
                         (new_block (unat (bpb_sectors_per_cluster (boot12 f)) * unat (bpb_bytes_per_sector (boot12 f))) s) [] f s;
                  case r of
                    None \<Rightarrow> Some (s, - 1)
                  | Some es \<Rightarrow> Some (s\<lparr>entries12 := Some es\<rparr>, int (length es)) } } })"

definition trim_spaces12 :: "u8 list \<Rightarrow> cstring" where
  "trim_spaces12 field = filter (\<lambda>c. c \<noteq> 32) (takeWhile (\<lambda>c. c \<noteq> 0) field)"

fun find_directory12 :: "u8 list list \<Rightarrow> nat \<Rightarrow> cstring \<Rightarrow> nat option" where
  "find_directory12 [] i path = None"
| "find_directory12 (e # es) i path =
     (if e ! 0 = 0 then None
      else if e ! 0 = 0xE5 then find_directory12 es (i + 1) path
      else if entry12_attributes e AND 0x10 = 0 then find_directory12 es (i + 1) path
      else if trim_spaces12 (take 8 e) = path then Some i
      else find_directory12 es (i + 1) path)"

definition fat12_change_directory :: "cstring \<Rightarrow> fat12_state \<Rightarrow> (fat12_state \<times> bool) option" where
  "fat12_change_directory relative_path s = do {
     (s, n) \<leftarrow> fat12_read_dir_entries (current_dir s) s;
     if n < 0 then Some (s, False)
     else do {
       es \<leftarrow> entries12 s;
       case find_directory12 es 0 relative_path of
         None \<Rightarrow> Some (s, False)
       | Some i \<Rightarrow>
           Some (s\<lparr>entries12 := Some (es[i := put_at (es ! i) 0 (trim_spaces12 (take 8 (es ! i)) @ [0])]), current_dir := Slot i\<rparr>, True) } }"

definition fat12_read_dir :: "fat12_state \<Rightarrow> (fat12_state \<times> bool) option" where
  "fat12_read_dir s = do {
     (s, n) \<leftarrow> fat12_read_dir_entries (current_dir s) s;
     Some (s, n \<ge> 0) }"

subsection \<open>Files\<close>

text \<open>The name of an entry that is compared; the extension keeps its padding.\<close>

definition full_name12 :: "u8 list \<Rightarrow> cstring" where
  "full_name12 e =
     trim_spaces12 (take 8 e) @ (if e ! 8 \<noteq> 32 then 46 # takeWhile (\<lambda>c. c \<noteq> 0) (take 3 (drop 8 e)) else [])"

fun find_file12 :: "u8 list list \<Rightarrow> cstring \<Rightarrow> u8 list option" where
  "find_file12 [] filename = None"
| "find_file12 (e # es) filename =
     (if e ! 0 = 0 then None
      else if e ! 0 = 0xE5 then find_file12 es filename
      else if entry12_attributes e AND 0x10 \<noteq> 0 then find_file12 es filename
      else if full_name12 e = filename then Some e
      else find_file12 es filename)"

definition fat12_open_file :: "cstring option \<Rightarrow> cstring option \<Rightarrow> fat12_state \<Rightarrow> (fat12_state \<times> fat12_file option) option" where
  "fat12_open_file filename mode s =
     (case (filename, mode, fat12 s) of
        (Some filename, Some mode, Some f) \<Rightarrow>
          if fat_table f = None then Some (s, None)
          else if length filename = 0 \<or> length filename > 12 then Some (s, None)
          else do {
            (s, n) \<leftarrow> fat12_read_dir_entries (current_dir s) s;
            if n < 0 then Some (s, None)
            else do {
              es \<leftarrow> entries12 s;
              case find_file12 es filename of
                None \<Rightarrow> Some (s, None)
              | Some e \<Rightarrow>
                  if \<not> is_valid_cluster_fat12 (uint (entry12_cluster e)) then Some (s, None)
                  else let (s, ok) = alloc s
                       in if \<not> ok then Some (s, None)
                          else let (s, ok) = alloc s
                               in if \<not> ok then Some (s, None)
                                  else Some (s, Some \<lparr>file_start_cluster = ucast (entry12_cluster e), file_name12 = take 12 filename,
                                                file_size12 = entry12_size e, file_position = 0, file_mode12 = mode\<rparr>) } }
      | _ \<Rightarrow> Some (s, None))"

text \<open>
  The bytes read so far and whether all reads succeeded. A copy that starts behind the sector, or ends
  there, reads memory that does not belong to the buffer.
\<close>

primrec read_sectors12 :: "nat list \<Rightarrow> u32 \<Rightarrow> u32 \<Rightarrow> u32 \<Rightarrow> u8 list \<Rightarrow> fat12_state \<Rightarrow> (u8 list \<times> bool) option" where
  "read_sectors12 [] first n start_offset acc s = Some (acc, True)"
| "read_sectors12 (i # is) first n start_offset acc s =
     (if \<not> of_nat (length acc) < n then Some (acc, True)
      else case read_logical (s32 (uint (first + of_nat i))) s of
             None \<Rightarrow> Some (acc, False)
           | Some b \<Rightarrow>
               let offset = (if acc = [] then start_offset else 0); remaining = 512 - offset;
                   rest = n - of_nat (length acc); k = (if rest < remaining then rest else remaining)
               in if unat offset + unat k > FAT12_SECTOR_SIZE then None
                  else read_sectors12 is first n start_offset (acc @ take (unat k) (drop (unat offset) b)) s)"

partial_function (option) read_loop12 :: "u32 \<Rightarrow> u32 \<Rightarrow> u32 \<Rightarrow> u8 list \<Rightarrow> fat12_t \<Rightarrow> fat12_state \<Rightarrow> (u8 list \<times> bool) option" where
  "read_loop12 cluster n start_offset acc f s =
     (if of_nat (length acc) < n \<and> cluster \<ge> 2 \<and> cluster < 0xFF7
      then let spc = bpb_sectors_per_cluster (boot12 f); first = word_of_int (data_start12 f) + (cluster - 2) * ucast spc
           in do {
             r \<leftarrow> read_sectors12 [0..<unat spc] first n start_offset acc s;
             if \<not> snd r then Some r
             else let next = get_next_cluster (uint cluster) s
                  in if next < 0 then Some r else read_loop12 (word_of_int next) n start_offset (fst r) f s }
      else Some (acc, True))"

text \<open>Not beyond the end of the file or the buffer.\<close>

definition bytes_wanted12 :: "fat12_file \<Rightarrow> u32 \<Rightarrow> u32 \<Rightarrow> u32" where
  "bytes_wanted12 file buffer_size bytes_to_read =
     (let n = (if file_position file + bytes_to_read > file_size12 file then file_size12 file - file_position file else bytes_to_read)
      in if n > buffer_size then buffer_size else n)"

text \<open>
  The file with its new position, the number of bytes read, and what was stored in the buffer: the
  bytes, and a NUL when there is room and no read failed.
\<close>

definition fat12_read_file ::
  "fat12_file option \<Rightarrow> bool \<Rightarrow> u32 \<Rightarrow> u32 \<Rightarrow> fat12_state \<Rightarrow> (fat12_state \<times> fat12_file option \<times> u32 \<times> u8 list) option" where
  "fat12_read_file file buf buffer_size bytes_to_read s =
     (case (file, fat12 s) of
        (Some file, Some f) \<Rightarrow>
          if \<not> buf \<or> fat_table f = None \<or> buffer_size = 0 \<or> bytes_to_read = 0 then Some (s, Some file, 0, [])
          else if \<not> is_valid_cluster_fat12 (s32 (uint (file_start_cluster file))) then Some (s, Some file, 0, [])
          else let n = bytes_wanted12 file buffer_size bytes_to_read
               in if n = 0 then Some (s, Some file, 0, [])
                  else do {
                    let cluster_size = 512 * ucast (bpb_sectors_per_cluster (boot12 f));
                    let start_offset = file_position file mod cluster_size;
                    let (s, ok) = alloc s;
                    if \<not> ok then Some (s, Some file, 0, [])
                    else do {
                      (acc, ok) \<leftarrow> read_loop12 (file_start_cluster file) n start_offset [] f s;
                      let k = of_nat (length acc);
                      Some (s, Some (file\<lparr>file_position := file_position file + k\<rparr>), k,
                            if ok \<and> k < buffer_size then acc @ [0] else acc) } }
      | _ \<Rightarrow> Some (s, file, 0, []))"

text \<open>A double free is outside C; \<^verbatim>\<open>buffer\<close> is not cleared when it is freed.\<close>

definition fat12_cleanup :: "fat12_state \<Rightarrow> fat12_state option" where
  "fat12_cleanup s =
     (if buffer s = Freed_buffer then None
      else Some (s\<lparr>fat12 := None, entries12 := None, buffer := Null_buffer, current_dir := Null_dir\<rparr>))"

end
