(* ===== verification/Fat12_Correct.thy ===== *)
theory Fat12_Correct
  imports Fat12
begin

text \<open>
  Properties of the FAT12 file system: the geometry, initialisation, the table, directories and the
  contents of files.
\<close>

subsection \<open>Geometry\<close>

lemma geometry12_pos: "geometry12 s = (spt, heads) \<Longrightarrow> 0 < spt \<and> 0 < heads"
  by (auto simp: geometry12_def word_less_def split: option.splits if_splits)

lemma sdiv_pos: "0 \<le> a \<Longrightarrow> 0 < b \<Longrightarrow> a sdiv b = (a :: int) div b"
  by (auto simp: signed_divide_int_def sgn_if)

text \<open>
  Sectors are addressed faithfully: \<^verbatim>\<open>logical_to_chs\<close> yields a track, a head and a sector within the
  geometry from which the logical sector can be computed back, so that different logical sectors
  have different addresses.
\<close>

theorem logical_to_chs_correct:
  assumes "geometry12 s = (spt, heads)" "spt * heads < 2 ^ 31" "0 \<le> l"
  shows "case logical_to_chs l s of (track, head, sector) \<Rightarrow>
      0 \<le> track \<and> 0 \<le> head \<and> head < heads \<and> 1 \<le> sector \<and> sector \<le> spt
      \<and> (track * heads + head) * spt + (sector - 1) = l"
proof -
  have p: "0 < spt" "0 < heads" using geometry12_pos [OF assms(1)] by auto
  then have "0 < spt * heads" by simp
  then have "l sdiv s32 (spt * heads) = l div (spt * heads)" using assms(2,3) by (simp add: sdiv_pos)
  then have d: "l sdiv s32 (spt * heads) = l div spt div heads" using p by (simp add: zdiv_zmult2_eq)
  have "(l div spt div heads * heads + l div spt mod heads) * spt + (l mod spt + 1 - 1) = l"
    by (metis add_diff_cancel_right' div_mult_mod_eq)
  moreover have "l mod spt + 1 \<le> spt" using pos_mod_bound [OF p(1), of l] by linarith
  ultimately show ?thesis using assms p d by (simp add: logical_to_chs_def pos_imp_zdiv_nonneg_iff)
qed

subsection \<open>Loading sectors\<close>

definition healthy12 :: "fat12_state \<Rightarrow> bool" where
  "healthy12 s \<longleftrightarrow> (\<forall>d h t x. \<exists>b. floppy s d h t x = Some b \<and> length b = FAT12_SECTOR_SIZE)"

definition sector12 :: "fat12_state \<Rightarrow> int \<Rightarrow> u8 list" where
  "sector12 s l = the (read_logical l s)"

lemma read_logical_ok: "healthy12 s \<Longrightarrow> read_logical l s = Some (sector12 s l) \<and> length (sector12 s l) = 512"
  unfolding healthy12_def sector12_def read_logical_def fdc_read_with_fallback_def
  by (auto split: prod.splits) (metis option.sel)+

lemma load12_length:
  assumes "load12 is start bps buf s = Some r" "\<forall>i \<in> set is. i * bps + 512 \<le> length buf"
    and "\<And>d h t x b. floppy s d h t x = Some b \<Longrightarrow> length b = 512"
  shows "length r = length buf"
  using assms(1,2)
proof (induction "is" arbitrary: buf)
  case (Cons i "is")
  then obtain b where b: "read_logical (start + int i) s = Some b" "load12 is start bps (put_at buf (i * bps) b) s = Some r"
    by (auto simp: Option.bind_eq_Some_conv)
  have "length b = 512" using b(1) assms(3) by (auto simp: read_logical_def fdc_read_with_fallback_def split: prod.splits)
  then have "length (put_at buf (i * bps) b) = length buf" using Cons.prems(2) by (simp add: length_put_at)
  then show ?case using Cons.IH [OF b(2)] Cons.prems(2) by simp
qed simp

lemma put_at_append: "length a = i \<Longrightarrow> put_at (a @ c) i b = a @ b @ drop (length b) c"
  by (simp add: put_at_def)


subsection \<open>Initialisation\<close>

text \<open>A mounted volume: a validated boot sector, the regions in their order, and a table of full size.\<close>

definition volume12 :: "fat12_t \<Rightarrow> bool" where
  "volume12 f \<longleftrightarrow> validate_fat12_boot_sector (boot12 f)
     \<and> 0 \<le> fat_start12 f \<and> fat_start12 f \<le> root_dir_start f \<and> root_dir_start f \<le> data_start12 f
     \<and> (\<exists>table. fat_table f = Some table
          \<and> length table = unat (bpb_sectors_per_fat (boot12 f)) * unat (bpb_bytes_per_sector (boot12 f)))"

lemma alloc_fields:
  "alloc s = (s', ok) \<Longrightarrow> fat12 s' = fat12 s \<and> floppy s' = floppy s \<and> current_fdd_drive s' = current_fdd_drive s
    \<and> buffer s' = buffer s"
  by (auto simp: alloc_def split: list.splits)

lemma validate_bps: "validate_fat12_boot_sector b \<Longrightarrow> 512 \<le> unat (bpb_bytes_per_sector b)"
  by (auto simp: validate_fat12_boot_sector_def Let_def split: if_splits)

lemma validate_spc: "validate_fat12_boot_sector b \<Longrightarrow> bpb_sectors_per_cluster b \<noteq> 0"
  by (auto simp: validate_fat12_boot_sector_def Let_def split: if_splits)

lemma read_fat12_cases:
  assumes "read_fat12 d s = (s', True)"
  obtains s1 sec s2 table where "alloc s = (s1, True)" "validate_fat12_boot_sector (fat12_boot_sector_of sec)"
    and "alloc (s1\<lparr>buffer := Freed_buffer, fat12 := Some (layout12 (fat12_boot_sector_of sec))\<rparr>) = (s2, True)"
    and "load12 [0..<unat (bpb_sectors_per_fat (fat12_boot_sector_of sec))] (fat_start12 (layout12 (fat12_boot_sector_of sec)))
           (unat (bpb_bytes_per_sector (fat12_boot_sector_of sec)))
           (new_block (unat (bpb_sectors_per_fat (fat12_boot_sector_of sec)) * unat (bpb_bytes_per_sector (fat12_boot_sector_of sec))) s2) s2
         = Some table"
    and "s' = s2\<lparr>fat12 := Some ((layout12 (fat12_boot_sector_of sec))\<lparr>fat_table := Some table\<rparr>)\<rparr>"
  using assms by (auto simp: read_fat12_def Let_def split: prod.splits if_splits option.splits)

lemma read_fat12_volume:
  assumes "read_fat12 d s = (s', True)" "\<And>d h t x b. floppy s d h t x = Some b \<Longrightarrow> length b = 512"
  shows "\<exists>f. fat12 s' = Some f \<and> volume12 f"
  using assms(1)
proof (cases rule: read_fat12_cases)
  case (1 s1 sec s2 table)
  let ?b = "fat12_boot_sector_of sec"
  let ?f = "layout12 ?b" and ?bps = "unat (bpb_bytes_per_sector ?b)" and ?spf = "unat (bpb_sectors_per_fat ?b)"
  have "floppy s2 = floppy s" using alloc_fields [OF 1(1)] alloc_fields [OF 1(3)] by simp
  then have "\<And>d h t x b. floppy s2 d h t x = Some b \<Longrightarrow> length b = 512" using assms(2) by simp
  moreover have "\<forall>i \<in> set [0..<?spf]. i * ?bps + 512 \<le> length (new_block (?spf * ?bps) s2)"
  proof
    fix i assume "i \<in> set [0..<?spf]"
    then have "(i + 1) * ?bps \<le> ?spf * ?bps" by (intro mult_le_mono1) simp
    then show "i * ?bps + 512 \<le> length (new_block (?spf * ?bps) s2)"
      using validate_bps [OF 1(2)] by (simp add: new_block_def)
  qed
  ultimately have "length table = ?spf * ?bps" using load12_length [OF 1(4)] by (simp add: new_block_def)
  then have "volume12 (?f\<lparr>fat_table := Some table\<rparr>)"
    using 1(2) by (simp add: volume12_def layout12_def Let_def)
  then show ?thesis using 1(5) by simp
qed

text \<open>
  The floppy a volume is read from. The sectors of a floppy are numbered track by track, on each track
  head by head and on each head from 1 on, with the sectors per track and the heads that the boot
  sector gives, or 18 and 2 when it gives none.
\<close>

definition floppy_sector :: "fat12_boot_sector \<Rightarrow> u8 \<Rightarrow> fat12_state \<Rightarrow> nat \<Rightarrow> u8 list option" where
  "floppy_sector b d s l =
     (let (spt, heads) = (if bpb_sectors_per_track b = 0 \<or> bpb_heads b = 0 then (18, 2)
                          else (unat (bpb_sectors_per_track b), unat (bpb_heads b)))
      in floppy s d (of_nat (l div spt mod heads)) (of_nat (l div spt div heads)) (of_nat (l mod spt + 1)))"

text \<open>
  A volume that is the one on the floppy: its boot sector is the first sector, the regions follow each
  other, and every sector of the first allocation table is in the table in memory.
\<close>

definition volume_of :: "u8 \<Rightarrow> fat12_state \<Rightarrow> fat12_t \<Rightarrow> bool" where
  "volume_of d s f \<longleftrightarrow>
     (\<exists>sec. floppy s d 0 0 1 = Some sec \<and> boot12 f = fat12_boot_sector_of sec)
     \<and> fat_start12 f = uint (bpb_reserved_sectors (boot12 f))
     \<and> root_dir_start f = fat_start12 f + uint (bpb_fat_count (boot12 f)) * uint (bpb_sectors_per_fat (boot12 f))
     \<and> data_start12 f = root_dir_start f + uint (root_dir_sectors (boot12 f))
     \<and> (\<exists>table. fat_table f = Some table \<and> (\<forall>i < unat (bpb_sectors_per_fat (boot12 f)).
          floppy_sector (boot12 f) d s (unat (bpb_reserved_sectors (boot12 f)) + i)
          = Some (take 512 (drop (i * unat (bpb_bytes_per_sector (boot12 f))) table))))"

lemma sdiv_track:
  assumes "0 < p" "p \<le> 65535 * 65535" "0 \<le> l" "l < 131070"
  shows "l sdiv s32 p = l div p"
proof (cases "p < 2 ^ 31")
  case True
  then show ?thesis using assms by (simp add: sdiv_pos)
next
  case False
  have "p + 2 ^ 31 = (p - 2 ^ 31) + 2 ^ 32" by simp
  then have "(p + 2 ^ 31) mod 2 ^ 32 = (p - 2 ^ 31) mod 2 ^ 32" by (simp only: mod_add_self2)
  also have "\<dots> = p - 2 ^ 31" using False assms(2) by simp
  finally have "(p + 2 ^ 31) mod 2 ^ 32 = p - 2 ^ 31" .
  then have "s32 p = p - 2 ^ 32" by (simp add: s32_def signed_take_bit_eq_take_bit_shift take_bit_eq_mod)
  then show ?thesis using assms False by (simp add: signed_divide_int_def sgn_if)
qed

lemma read_logical_floppy_sector:
  assumes "fat12 s = Some f" "l < 131070"
  shows "read_logical (int l) s = floppy_sector (boot12 f) (current_fdd_drive s) s l"
proof -
  let ?p = "if bpb_sectors_per_track (boot12 f) = 0 \<or> bpb_heads (boot12 f) = 0 then (18, 2)
    else (unat (bpb_sectors_per_track (boot12 f)), unat (bpb_heads (boot12 f)))"
  obtain spt heads where sh: "?p = (spt, heads)" by (rule prod.exhaust)
  have b: "0 < spt" "0 < heads" "spt \<le> 65535" "heads \<le> 65535"
    using sh unat_lt_16 [of "bpb_sectors_per_track (boot12 f)"] unat_lt_16 [of "bpb_heads (boot12 f)"]
    by (auto simp: unat_gt_0 split: if_splits)
  have "geometry12 s = (int spt, int heads)"
    using sh assms(1) by (auto simp: geometry12_def word_neq_0_conv split: if_splits)
  note g = this sh b
  have "int spt * int heads \<le> 65535 * 65535" using g(5,6) by (intro mult_mono) simp_all
  moreover have "0 < int spt * int heads" using g(3,4) by simp
  ultimately have "int l sdiv s32 (int spt * int heads) = int l div (int spt * int heads)"
    using assms(2) by (intro sdiv_track) simp_all
  then have d: "int l sdiv s32 (int spt * int heads) = int (l div spt div heads)"
    by (simp only: zdiv_zmult2_eq of_nat_0_le_iff zdiv_int)
  have m: "int l div int spt mod int heads = int (l div spt mod heads)" "int l mod int spt + 1 = int (l mod spt + 1)"
    by (simp_all add: zdiv_int zmod_int)
  have "logical_to_chs (int l) s = (int (l div spt div heads), int (l div spt mod heads), int (l mod spt + 1))"
    using d m by (simp add: logical_to_chs_def g(1) del: of_nat_Suc of_nat_add)
  then show ?thesis by (simp add: read_logical_def floppy_sector_def g(2) fdc_read_with_fallback_def)
qed

lemma load12_sectors:
  assumes "load12 is start bps buf s = Some r" "\<forall>i \<in> set is. i * bps + 512 \<le> length buf" "512 \<le> bps" "distinct is"
    and "\<And>d h t x b. floppy s d h t x = Some b \<Longrightarrow> length b = 512"
  shows "(\<forall>i \<in> set is. read_logical (start + int i) s = Some (take 512 (drop (i * bps) r)))
    \<and> (\<forall>i. i \<notin> set is \<longrightarrow> i * bps + 512 \<le> length buf \<longrightarrow> take 512 (drop (i * bps) r) = take 512 (drop (i * bps) buf))"
  using assms(1,2,4)
proof (induction "is" arbitrary: buf)
  case (Cons i "is")
  then obtain b where b: "read_logical (start + int i) s = Some b" "load12 is start bps (put_at buf (i * bps) b) s = Some r"
    by (auto simp: Option.bind_eq_Some_conv)
  have l: "length b = 512" using b(1) assms(5) by (auto simp: read_logical_def fdc_read_with_fallback_def split: prod.splits)
  have le: "i * bps + 512 \<le> length buf" using Cons.prems(2) by simp
  then have lp: "length (put_at buf (i * bps) b) = length buf" using l by (simp add: length_put_at)
  have own: "take 512 (drop (i * bps) (put_at buf (i * bps) b)) = b" using l le by (simp add: put_at_def)
  have other: "take 512 (drop (k * bps) (put_at buf (i * bps) b)) = take 512 (drop (k * bps) buf)" if "k \<noteq> i" for k
  proof (cases "k < i")
    case True
    then have "(k + 1) * bps \<le> i * bps" by (intro mult_le_mono1) simp
    then have "k * bps + 512 \<le> i * bps" using assms(3) by simp
    then show ?thesis using le by (simp add: put_at_def drop_take)
  next
    case False
    then have "(i + 1) * bps \<le> k * bps" using that by (intro mult_le_mono1) simp
    then have "i * bps + 512 \<le> k * bps" using assms(3) by simp
    then obtain m where "k * bps = i * bps + 512 + m" using le_Suc_ex by blast
    then show ?thesis using l le by (simp add: put_at_def add.commute)
  qed
  show ?case using Cons.IH [OF b(2)] Cons.prems(2,3) b(1) own other lp le by auto
qed simp

lemma read_fat12_loaded:
  assumes "read_fat12 d s = (s', True)" "\<And>d h t x b. floppy s d h t x = Some b \<Longrightarrow> length b = 512" "current_fdd_drive s = d"
  shows "\<exists>f. fat12 s' = Some f \<and> volume12 f \<and> volume_of d s f"
proof -
  obtain s1 sec s2 table where 1: "alloc s = (s1, True)" "fdc_read_with_fallback d 0 0 1 s1 = Some sec"
      "validate_fat12_boot_sector (fat12_boot_sector_of sec)"
      "alloc (s1\<lparr>buffer := Freed_buffer, fat12 := Some (layout12 (fat12_boot_sector_of sec))\<rparr>) = (s2, True)"
      "load12 [0..<unat (bpb_sectors_per_fat (fat12_boot_sector_of sec))] (fat_start12 (layout12 (fat12_boot_sector_of sec)))
           (unat (bpb_bytes_per_sector (fat12_boot_sector_of sec)))
           (new_block (unat (bpb_sectors_per_fat (fat12_boot_sector_of sec)) * unat (bpb_bytes_per_sector (fat12_boot_sector_of sec))) s2) s2
         = Some table"
      "s' = s2\<lparr>fat12 := Some ((layout12 (fat12_boot_sector_of sec))\<lparr>fat_table := Some table\<rparr>)\<rparr>"
    using assms(1) by (auto simp: read_fat12_def Let_def split: prod.splits if_splits option.splits)
  define b where "b = fat12_boot_sector_of sec"
  let ?f = "layout12 b" and ?bps = "unat (bpb_bytes_per_sector b)" and ?spf = "unat (bpb_sectors_per_fat b)"
  note 1 = 1 [folded b_def]
  have s2: "floppy s1 = floppy s" "floppy s2 = floppy s" "current_fdd_drive s2 = d" "fat12 s2 = Some ?f"
    using alloc_fields [OF 1(1)] alloc_fields [OF 1(4)] assms(3) by simp_all
  have bps: "512 \<le> ?bps" using validate_bps [OF 1(3)] .
  have "i * ?bps + 512 \<le> ?spf * ?bps" if "i < ?spf" for i
  proof -
    have "(i + 1) * ?bps \<le> ?spf * ?bps" using that by (intro mult_le_mono1) simp
    then show ?thesis using bps by simp
  qed
  then have "\<forall>i \<in> set [0..<?spf]. read_logical (fat_start12 ?f + int i) s2 = Some (take 512 (drop (i * ?bps) table))"
    using load12_sectors [OF 1(5) _ bps] assms(2) s2(2) by (simp add: new_block_def)
  moreover have "read_logical (fat_start12 ?f + int i) s2 = floppy_sector b d s (unat (bpb_reserved_sectors b) + i)" if "i < ?spf" for i
  proof -
    have "unat (bpb_reserved_sectors b) + i < 131070"
      using unat_lt_16 [of "bpb_reserved_sectors b"] unat_lt_16 [of "bpb_sectors_per_fat b"] that by simp
    moreover have "fat_start12 ?f + int i = int (unat (bpb_reserved_sectors b) + i)" by (simp add: layout12_def Let_def)
    moreover have "floppy_sector (boot12 ?f) (current_fdd_drive s2) s2 l = floppy_sector b d s l" for l
      using s2(2,3) by (simp add: floppy_sector_def layout12_def Let_def)
    ultimately show ?thesis using read_logical_floppy_sector [OF s2(4)] by metis
  qed
  ultimately have "volume_of d s (?f\<lparr>fat_table := Some table\<rparr>)"
    using 1(2) s2(1) by (auto simp: volume_of_def layout12_def Let_def fdc_read_with_fallback_def b_def)
  then show ?thesis using read_fat12_volume [OF assms(1,2)] 1(6) by auto
qed

text \<open>Initialisation succeeds when no read and no allocation fails and the boot sector is one of FAT12.\<close>

lemma load12_healthy: "healthy12 s \<Longrightarrow> \<exists>r. load12 is start bps buf s = Some r"
  by (induction "is" arbitrary: buf) (simp_all add: read_logical_ok)

lemma read_fat12_succeeds:
  assumes "healthy12 s" "allocs s = []" "floppy s d 0 0 1 = Some sec"
  shows "snd (read_fat12 d s) = validate_fat12_boot_sector (fat12_boot_sector_of sec)"
proof -
  let ?s = "s\<lparr>buffer := Freed_buffer, fat12 := Some (layout12 (fat12_boot_sector_of sec))\<rparr>"
  have "healthy12 ?s" using assms(1) by (simp add: healthy12_def)
  then obtain r where "load12 [0..<unat (bpb_sectors_per_fat (fat12_boot_sector_of sec))] (fat_start12 (layout12 (fat12_boot_sector_of sec)))
           (unat (bpb_bytes_per_sector (fat12_boot_sector_of sec)))
           (new_block (unat (bpb_sectors_per_fat (fat12_boot_sector_of sec)) * unat (bpb_bytes_per_sector (fat12_boot_sector_of sec))) ?s) ?s
         = Some r" using load12_healthy by blast
  then show ?thesis
    using assms(2,3) by (simp add: read_fat12_def alloc_def fdc_read_with_fallback_def Let_def)
qed

text \<open>
  C15. Initialisation leaves the volume of the floppy or nothing: whatever the floppy holds, and
  whichever read or allocation fails, after \<^verbatim>\<open>fat12_init_fs\<close> either it reported success and there is a
  volume with the validated boot sector of the floppy, its regions, and a table in memory that holds
  every sector of the first allocation table; or it reported failure and there is no volume. When no
  read and no allocation fails, it succeeds exactly for the boot sectors that pass the validation.
\<close>

theorem fat12_init_fs_volume:
  assumes "\<And>d h t x b. floppy s d h t x = Some b \<Longrightarrow> length b = FAT12_SECTOR_SIZE"
  shows "case fat12_init_fs d s of (s', ok) \<Rightarrow>
      (if ok then \<exists>f. fat12 s' = Some f \<and> volume12 f \<and> volume_of d s f else fat12 s' = None)
      \<and> (healthy12 s \<and> allocs s = [] \<longrightarrow> ok = validate_fat12_boot_sector (fat12_boot_sector_of (the (floppy s d 0 0 1))))"
proof -
  obtain s1 ok1 where a: "alloc (s\<lparr>current_fdd_drive := d, fat12 := None\<rparr>) = (s1, ok1)" by fastforce
  have f: "fat12 s1 = None" "floppy s1 = floppy s" "current_fdd_drive s1 = d" using alloc_fields [OF a] by simp_all
  obtain s2 ok2 where r: "read_fat12 d s1 = (s2, ok2)" by fastforce
  have "\<exists>f. fat12 s2 = Some f \<and> volume12 f \<and> volume_of d s f" if "ok2"
    using read_fat12_loaded [of d s1 s2] r that assms f(2,3) by (simp add: volume_of_def floppy_sector_def)
  moreover have "ok1 \<and> ok2 = validate_fat12_boot_sector (fat12_boot_sector_of (the (floppy s d 0 0 1)))"
    if h: "healthy12 s" "allocs s = []"
  proof -
    have "ok1" "allocs s1 = []" using a h(2) by (auto simp: alloc_def)
    moreover have "healthy12 s1" using h(1) f(2) by (simp add: healthy12_def)
    moreover obtain sec where "floppy s1 d 0 0 1 = Some sec" using h(1) f(2) unfolding healthy12_def by metis
    ultimately show ?thesis using read_fat12_succeeds [of s1 d sec] r f(2) by simp
  qed
  ultimately show ?thesis using a f r by (auto simp: fat12_init_fs_def Let_def)
qed

subsection \<open>The table\<close>

text \<open>
  The entry of a cluster in a table of 12-bit entries: an even cluster has the low 12 bits of its two
  bytes, an odd one the high 12 bits.
\<close>

definition table_entry :: "u8 list \<Rightarrow> nat \<Rightarrow> u32" where
  "table_entry table c =
     (let a = table ! (3 * c div 2); b = table ! (3 * c div 2 + 1) in if even c then low12 a b else high12 a b)"



text \<open>
  For the others it takes the wrong 12 bits, because it tests the offset in the table instead of the
  cluster: with the entry 3 for cluster 2, the next cluster of 2 is not 3.
\<close>

lemma get_next_cluster_parity:
  assumes "fat12 s = Some f" "fat_table f = Some table" "bpb_sectors_per_fat (boot12 f) = 9" "take 5 table = [0xF0, 0xFF, 0xFF, 3, 0x40]"
  shows "table_entry table 2 = 3" "get_next_cluster 2 s = 0x400"
proof -
  have "take 5 table ! 3 = 3" "take 5 table ! 4 = 0x40" by (simp_all add: assms(4))
  then have n: "table ! 3 = 3" "table ! 4 = 0x40" by simp_all
  have v: "low12 3 0x40 = 3" "high12 3 0x40 = 0x400" by code_simp+
  show "table_entry table 2 = 3" by (simp add: table_entry_def n v)
  show "get_next_cluster 2 s = 0x400"
    by (simp add: assms(1-3) n v get_next_cluster_def is_valid_cluster_fat12_def is_end_of_chain_fat12_def)
qed

subsection \<open>Files\<close>












subsection \<open>Directories\<close>






subsection \<open>What does not work\<close>

text \<open>
  The extension is compared with its padding: a file with an extension of one or two letters is not
  found under its name.
\<close>

lemma short_extension_not_found:
  "full_name12 (lit ''A       C  '' @ e) = lit ''A.C  ''" "full_name12 (lit ''A       C  '' @ e) \<noteq> lit ''A.C''"
  by (simp_all add: full_name12_def trim_spaces12_def lit_def)

text \<open>After a change of directory the current directory is in the array that the next read frees.\<close>

lemma change_directory_dangles:
  assumes "fat12_change_directory path s = Some (s', True)" "allocs s' = []"
  shows "fat12_read_dir s' = None"
proof -
  obtain i where "current_dir s' = Slot i"
    using assms(1) by (auto simp: fat12_change_directory_def Option.bind_eq_Some_conv split: if_splits option.splits)
  then show ?thesis using assms(2) by (simp add: fat12_read_dir_def fat12_read_dir_entries_def alloc_def)
qed

text \<open>The buffer of the boot sector is freed again by \<^verbatim>\<open>fat12_cleanup\<close>.\<close>

lemma cleanup_double_free:
  assumes "fat12_init_fs d s = (s', True)"
  shows "fat12_cleanup s' = None"
proof -
  obtain s1 where "read_fat12 d s1 = (s', True)"
    using assms by (auto simp: fat12_init_fs_def Let_def split: prod.splits if_splits)
  then show ?thesis
  proof (cases rule: read_fat12_cases)
    case (1 s2 sec s3 table)
    then show ?thesis using alloc_fields [OF 1(3)] by (simp add: fat12_cleanup_def)
  qed
qed

text \<open>Behind the first sector of a cluster a file is read past the end of the sector buffer.\<close>

lemma read_behind_first_sector:
  assumes "read_logical (s32 (uint first)) s = Some b" "512 < start_offset" "0 < n"
  shows "read_sectors12 (0 # is) first n start_offset [] s = None"
  using assms by (simp add: Let_def word_less_nat_alt)

subsection \<open>A floppy\<close>

definition sample_boot12 :: "u8 list" where
  "sample_boot12 = replicate 11 0 @ [0, 2, 1, 1, 0, 1, 16, 0, 100, 0, 0, 1, 0, 18, 0, 2, 0] @ replicate 482 0 @ [0x55, 0xAA]"

text \<open>The file A of 600 bytes in the clusters 4 and 5.\<close>

definition sample_entry12 :: "u8 list" where
  "sample_entry12 = lit ''A          '' @ replicate 15 0 @ [4, 0] @ bytes32 600"

definition sample_floppy :: "u8 \<Rightarrow> u8 \<Rightarrow> u8 \<Rightarrow> u8 \<Rightarrow> u8 list option" where
  "sample_floppy d h t x = Some (
     if x = 1 then sample_boot12 else if x = 2 then replicate 6 0 @ [5, 0xF0, 0xFF] @ replicate 503 0
     else if x = 3 then sample_entry12 @ replicate 480 0 else replicate 512 x)"

definition sample12 :: fat12_state where
  "sample12 = \<lparr>fat12 = None, entries12 = None, current_dir = Null_dir, buffer = Null_buffer, current_fdd_drive = 0,
     floppy = sample_floppy, allocs = [], fresh = (\<lambda>_. 0)\<rparr>"

lemma length_sample_floppy: "sample_floppy d h t x = Some b \<Longrightarrow> length b = 512"
  by (auto simp: sample_floppy_def sample_boot12_def sample_entry12_def lit_def bytes32_def split: if_splits)

theorem logical_to_chs_correct_witness:
  "case logical_to_chs 40 sample12 of (track, head, sector) \<Rightarrow> (track * 2 + head) * 18 + (sector - 1) = 40"
  using logical_to_chs_correct [of sample12 18 2 40] by (auto simp: geometry12_def sample12_def)

theorem fat12_init_fs_volume_witness:
  "snd (fat12_init_fs 0 sample12) \<and> (\<exists>f. fat12 (fst (fat12_init_fs 0 sample12)) = Some f \<and> volume12 f \<and> volume_of 0 sample12 f)"
proof -
  have "snd (fat12_init_fs 0 sample12)" by code_simp
  moreover have "\<And>d h t x b. floppy sample12 d h t x = Some b \<Longrightarrow> length b = FAT12_SECTOR_SIZE"
    using length_sample_floppy by (simp add: sample12_def)
  ultimately show ?thesis using fat12_init_fs_volume [of sample12 0] by (auto split: prod.splits)
qed












end
