(* ===== verification/Fat12_Vfs.thy ===== *)
theory Fat12_Vfs
  imports Fat12_Correct Vfs_Correct
begin

text \<open>
  The adapter of FAT12 to the virtual file system (\<^verbatim>\<open>fs/fat12/fat12_vfs_adapter.c\<close>). The world is the
  state of FAT12, the open files that nodes point to, and the floppy number of each drive. The data
  of a mount is a pointer to the one global structure; a node keeps the handle of its file, the root
  node has none.
\<close>

subsection \<open>The world\<close>

record fat12_world =
  fstate :: fat12_state
  open_files :: "nat \<Rightarrow> fat12_file option"
  next_file :: nat
  fdd_drive_no :: "nat \<Rightarrow> u8"

type_synonym fat12_fs = "unit vfs_filesystem"
type_synonym fat12_node = "(unit, nat option) vfs_node"

subsection \<open>Operations\<close>

definition fat12_vfs_mount :: "fat12_fs \<Rightarrow> fat12_world \<Rightarrow> (fat12_world \<times> int \<times> fat12_fs) option" where
  "fat12_vfs_mount fs w =
     (let (s, ok) = fat12_init_fs (fdd_drive_no w (fs_drive fs)) (fstate w)
      in if \<not> ok then Some (w\<lparr>fstate := s\<rparr>, VFS_ERR_IO, fs)
         else let (s, ok) = alloc s
              in if \<not> ok then Some (w\<lparr>fstate := s\<rparr>, VFS_ERR_NO_MEMORY, fs\<lparr>fs_data := Some ()\<rparr>)
                 else Some (w\<lparr>fstate := s\<rparr>, VFS_OK, fs\<lparr>fs_data := Some ()\<rparr>))"

definition fat12_vfs_unmount :: "fat12_fs \<Rightarrow> fat12_world \<Rightarrow> (fat12_world \<times> int) option" where
  "fat12_vfs_unmount fs w = Some (w, VFS_OK)"

definition root_node12 :: "fat12_fs \<Rightarrow> fat12_node option" where
  "root_node12 fs = map_option (\<lambda>d. \<lparr>n_name = [47], n_type = VFS_DIRECTORY, n_inode = 0, n_size = 0, n_flags = 0, n_fs = fs,
     n_specific = None\<rparr>) (fs_data fs)"

definition fat12_vfs_open :: "fat12_fs \<Rightarrow> cstring \<Rightarrow> fat12_world \<Rightarrow> (fat12_world \<times> int \<times> fat12_node option) option" where
  "fat12_vfs_open fs path w =
     (if path = [47] then Some (w, VFS_OK, root_node12 fs)
      else do {
        let filename = (if path \<noteq> [] \<and> hd path = 47 then tl path else path);
        (s, file) \<leftarrow> fat12_open_file (Some filename) (Some (lit ''r'')) (fstate w);
        case file of
          None \<Rightarrow> Some (w\<lparr>fstate := s\<rparr>, VFS_ERR_NOT_FOUND, None)
        | Some file \<Rightarrow>
            let (s, ok) = alloc s; h = next_file w
            in if \<not> ok then Some (w\<lparr>fstate := s\<rparr>, VFS_ERR_NO_MEMORY, None)
               else Some (w\<lparr>fstate := s, open_files := (open_files w)(h \<mapsto> file), next_file := h + 1\<rparr>, VFS_OK,
                      Some \<lparr>n_name = take 255 filename, n_type = VFS_FILE, n_inode = file_start_cluster file,
                            n_size = file_size12 file, n_flags = 0, n_fs = fs, n_specific = Some h\<rparr>) })"

definition fat12_vfs_close :: "fat12_node \<Rightarrow> fat12_world \<Rightarrow> (fat12_world \<times> int) option" where
  "fat12_vfs_close node w =
     (case n_specific node of
        None \<Rightarrow> Some (w, VFS_OK)
      | Some h \<Rightarrow> Some (w\<lparr>open_files := (open_files w)(h := None)\<rparr>, VFS_OK))"

text \<open>A node whose file has been closed is a dangling pointer.\<close>

definition fat12_vfs_read :: "fat12_node \<Rightarrow> u32 \<Rightarrow> u32 \<Rightarrow> fat12_world \<Rightarrow> (fat12_world \<times> int \<times> u8 list) option" where
  "fat12_vfs_read node offset n w =
     (if n_type node \<noteq> VFS_FILE then Some (w, VFS_ERR_IS_DIR, [])
      else case n_specific node of
             None \<Rightarrow> Some (w, VFS_ERR_INVALID, [])
           | Some h \<Rightarrow> do {
               file \<leftarrow> open_files w h;
               let bytes_to_read = (if n < n_size node then n else n_size node);
               (s, file, k, b) \<leftarrow> fat12_read_file (Some file) True n bytes_to_read (fstate w);
               let r = s32 (uint k);
               Some (w\<lparr>fstate := s, open_files := (open_files w)(h := file)\<rparr>, if r < 0 then VFS_ERR_IO else r, b) })"

definition fat12_vfs_write :: "fat12_node \<Rightarrow> u32 \<Rightarrow> u8 list \<Rightarrow> fat12_world \<Rightarrow> (fat12_world \<times> int) option" where
  "fat12_vfs_write node offset buf w = Some (w, VFS_ERR_UNSUPPORTED)"

definition entry12_to_vfs :: "u8 list \<Rightarrow> vfs_dir_entry" where
  "entry12_to_vfs e = \<lparr>e_name = takeWhile (\<lambda>c. c \<noteq> 0) (takeWhile (\<lambda>c. c \<noteq> 32) (take 8 e)
       @ (if e ! 8 \<noteq> 32 then 46 # takeWhile (\<lambda>c. c \<noteq> 32) (take 3 (drop 8 e)) else [])),
     e_type = (if entry12_attributes e AND 0x10 \<noteq> 0 then VFS_DIRECTORY else VFS_FILE), e_size = entry12_size e,
     e_inode = ucast (entry12_cluster e), e_create_time = 0, e_modify_time = 0, e_access_time = 0, e_attributes = entry12_attributes e\<rparr>"

text \<open>The entry handed to \<^verbatim>\<open>fat12_read_dir_entries\<close> is a local variable that is never set; \<open>junk\<close> is what it holds.\<close>

definition fat12_vfs_readdir ::
  "u8 list \<Rightarrow> fat12_node \<Rightarrow> u32 \<Rightarrow> fat12_world \<Rightarrow> (fat12_world \<times> int \<times> vfs_dir_entry option) option" where
  "fat12_vfs_readdir junk node index w =
     (if n_type node \<noteq> VFS_DIRECTORY then Some (w, VFS_ERR_NOT_DIR, None)
      else do {
        (s, result) \<leftarrow> fat12_read_dir_entries (Local junk) (fstate w);
        let w = w\<lparr>fstate := s\<rparr>;
        if result < 0 then Some (w, VFS_ERR_IO, None)
        else if index > 0 then Some (w, VFS_ERR_NOT_FOUND, None)
        else Some (w, VFS_OK, Some (entry12_to_vfs junk)) })"

definition fat12_vfs_unsupported :: "fat12_fs \<Rightarrow> cstring \<Rightarrow> fat12_world \<Rightarrow> (fat12_world \<times> int) option" where
  "fat12_vfs_unsupported fs path w = Some (w, VFS_ERR_UNSUPPORTED)"

definition fat12_vfs_stat ::
  "fat12_fs \<Rightarrow> vfs_dir_entry \<Rightarrow> cstring \<Rightarrow> fat12_world \<Rightarrow> (fat12_world \<times> int \<times> vfs_dir_entry) option" where
  "fat12_vfs_stat fs stat path w = do {
     (w, result, node) \<leftarrow> fat12_vfs_open fs path w;
     if result \<noteq> VFS_OK then Some (w, result, stat)
     else case node of
            None \<Rightarrow> None
          | Some n \<Rightarrow> do {
              (w, r) \<leftarrow> fat12_vfs_close n w;
              Some (w, VFS_OK, stat\<lparr>e_name := n_name n, e_type := n_type n, e_size := n_size n, e_inode := n_inode n\<rparr>) } }"

definition fat12_vfs_ops :: "u8 list \<Rightarrow> (fat12_world, unit, nat option) vfs_ops" where
  "fat12_vfs_ops junk = \<lparr>op_mount = fat12_vfs_mount, op_unmount = Some fat12_vfs_unmount, op_open = Some fat12_vfs_open,
     op_close = Some fat12_vfs_close, op_read = Some fat12_vfs_read, op_write = Some fat12_vfs_write,
     op_readdir = Some (fat12_vfs_readdir junk), op_mkdir = Some fat12_vfs_unsupported, op_rmdir = Some fat12_vfs_unsupported,
     op_create = Some fat12_vfs_unsupported, op_delete = Some fat12_vfs_unsupported, op_stat = Some fat12_vfs_stat\<rparr>"

definition fat12_register_vfs ::
  "u8 list \<Rightarrow> (fat12_world, unit, nat option) vfs \<Rightarrow> (fat12_world, unit, nat option) vfs" where
  "fat12_register_vfs junk s = fst (vfs_register_filesystem (Some (lit ''fat12'')) (Some (fat12_vfs_ops junk)) s)"

subsection \<open>The promise\<close>

interpretation fat12_fs: file_system "fat12_vfs_ops junk" for junk
  by unfold_locales (auto simp: fat12_vfs_ops_def fat12_vfs_mount_def Let_def split: if_splits prod.splits)

text \<open>A directory that is listed shows one entry, made of the uninitialised variable, and nothing of the floppy.\<close>

lemma readdir_lists_junk:
  assumes "fat12_vfs_readdir junk node index w = Some (w', VFS_OK, e)"
  shows "index = 0 \<and> e = Some (entry12_to_vfs junk)"
  using assms by (auto simp: fat12_vfs_readdir_def Option.bind_eq_Some_conv Let_def word_gt_0 split: if_splits)

text \<open>A read moves the position of the file, whatever the offset: a second read starts behind the first.\<close>

lemma read_moves_position:
  assumes "n_type node = VFS_FILE" "n_specific node = Some h" "open_files w h = Some file"
    and "fat12_read_file (Some file) True n (if n < n_size node then n else n_size node) (fstate w)
      = Some (s, Some (file\<lparr>file_position := p\<rparr>), k, b)"
  shows "\<exists>w' r. fat12_vfs_read node offset n w = Some (w', r, b)
    \<and> open_files w' h = Some (file\<lparr>file_position := p\<rparr>)"
  using assms by (auto simp: fat12_vfs_read_def Let_def)

end
