(* ===== verification/Ext2.thy ===== *)
theory Ext2
  imports Disk
begin

text \<open>
  The ext2 file system (\<^verbatim>\<open>fs/ext2/ext2.c\<close>, \<^verbatim>\<open>ext2.h\<close>): the superblock and the group descriptors, blocks,
  inodes, files with direct blocks, and directories. Structures of the disk are their bytes. The
  outer \<open>None\<close> of a result is behaviour outside C: a division by zero, a shift by more than the width
  of a word, an access behind a buffer; where a function returns \<^verbatim>\<open>false\<close> the inner option is \<open>None\<close>.
  The block buffer holds nothing between the calls and is left out. The table of group descriptors
  has all bytes that were read for it, also those that \<^verbatim>\<open>ext2_init\<close> stores behind the end of the
  block it allocated.
\<close>

subsection \<open>Structures\<close>

record ext2_superblock =
  s_blocks_count :: u32
  s_first_data_block :: u32
  s_log_block_size :: u32
  s_blocks_per_group :: u32
  s_inodes_per_group :: u32
  s_magic :: u16
  s_inode_size :: u16

definition ext2_superblock_of :: "u8 list \<Rightarrow> ext2_superblock" where
  "ext2_superblock_of b = \<lparr>s_blocks_count = get32 b 4, s_first_data_block = get32 b 20, s_log_block_size = get32 b 24,
     s_blocks_per_group = get32 b 32, s_inodes_per_group = get32 b 40, s_magic = get16 b 56, s_inode_size = get16 b 88\<rparr>"

record ext2_fs =
  superblock :: ext2_superblock
  group_desc_table :: "u8 list"
  block_size :: u32
  num_block_groups :: u32
  inodes_per_block :: u32
  current_dir_inode :: u32

text \<open>An inode is its 128 bytes.\<close>

type_synonym ext2_inode = "u8 list"

definition i_mode :: "ext2_inode \<Rightarrow> u16" where "i_mode inode = get16 inode 0"
definition i_size :: "ext2_inode \<Rightarrow> u32" where "i_size inode = get32 inode 4"
definition i_block :: "ext2_inode \<Rightarrow> nat \<Rightarrow> u32" where "i_block inode k = get32 inode (40 + 4 * k)"

record ext2_dir_entry =
  d_inode :: u32
  d_rec_len :: u16
  d_file_type :: u8
  d_name :: "u8 list"

abbreviation EXT2_SIGNATURE :: u16 where "EXT2_SIGNATURE \<equiv> 0xEF53"
abbreviation EXT2_ROOT_INO :: u32 where "EXT2_ROOT_INO \<equiv> 2"
abbreviation EXT2_NDIR_BLOCKS :: nat where "EXT2_NDIR_BLOCKS \<equiv> 12"
abbreviation EXT2_NAME_LEN :: nat where "EXT2_NAME_LEN \<equiv> 255"
abbreviation EXT2_S_IFDIR :: u16 where "EXT2_S_IFDIR \<equiv> 0x4000"
abbreviation EXT2_S_IFREG :: u16 where "EXT2_S_IFREG \<equiv> 0x8000"
abbreviation EXT2_S_IFLNK :: u16 where "EXT2_S_IFLNK \<equiv> 0xA000"

subsection \<open>Blocks\<close>

definition ext2_get_block_size :: "ext2_fs \<Rightarrow> u32" where
  "ext2_get_block_size fs = block_size fs"

definition ext2_read_block :: "ext2_fs \<Rightarrow> u32 \<Rightarrow> disk \<Rightarrow> u8 list option" where
  "ext2_read_block fs block_num d =
     (let sectors_per_block = block_size fs div 512; start_sector = block_num * sectors_per_block
      in read_run [0..<unat sectors_per_block] start_sector d)"

definition ext2_write_block :: "ext2_fs \<Rightarrow> u32 \<Rightarrow> u8 list \<Rightarrow> disk \<Rightarrow> disk \<times> bool" where
  "ext2_write_block fs block_num buf d =
     (let sectors_per_block = block_size fs div 512; start_sector = block_num * sectors_per_block
      in write_run [0..<unat sectors_per_block] start_sector buf d)"

subsection \<open>Initialisation\<close>

primrec read_gdt :: "nat list \<Rightarrow> u32 \<Rightarrow> ext2_fs \<Rightarrow> disk \<Rightarrow> u8 list option" where
  "read_gdt [] gdt_block fs d = Some []"
| "read_gdt (i # is) gdt_block fs d = do {
     b \<leftarrow> ext2_read_block fs (gdt_block + of_nat i) d;
     bs \<leftarrow> read_gdt is gdt_block fs d;
     Some (b @ bs) }"

definition inode_size :: "ext2_superblock \<Rightarrow> u32" where
  "inode_size sb = (if s_inode_size sb = 0 then 128 else ucast (s_inode_size sb))"

text \<open>\<open>gdt_mem\<close> and \<open>buffer_mem\<close> say that the two allocations succeed.\<close>

definition ext2_init :: "bool \<Rightarrow> bool \<Rightarrow> disk \<Rightarrow> ext2_fs option option" where
  "ext2_init gdt_mem buffer_mem d =
     (case dev_read 2 d of
        None \<Rightarrow> Some None
      | Some b2 \<Rightarrow>
          (case dev_read 3 d of
             None \<Rightarrow> Some None
           | Some b3 \<Rightarrow>
               let sb = ext2_superblock_of (b2 @ b3)
               in if s_magic sb \<noteq> EXT2_SIGNATURE then Some None
                  else if s_log_block_size sb \<ge> 32 then None
                  else let size = push_bit (unat (s_log_block_size sb)) 1024
                       in if size = 0 \<or> size > 65536 then Some None
                          else if s_blocks_per_group sb = 0 then None
                          else let groups = (s_blocks_count sb + s_blocks_per_group sb - 1) div s_blocks_per_group sb;
                                   fs = \<lparr>superblock = sb, group_desc_table = [], block_size = size, num_block_groups = groups,
                                         inodes_per_block = size div inode_size sb, current_dir_inode = EXT2_ROOT_INO\<rparr>;
                                   gdt_size = groups * 32
                               in if \<not> gdt_mem then Some None
                                  else case read_gdt [0..<unat ((gdt_size + size - 1) div size)] (s_first_data_block sb + 1) fs d of
                                         None \<Rightarrow> Some None
                                       | Some gdt \<Rightarrow> if \<not> buffer_mem then Some None
                                                     else Some (Some (fs\<lparr>group_desc_table := gdt\<rparr>))))"

subsection \<open>Inodes\<close>

definition ext2_get_inode_block_group :: "ext2_fs \<Rightarrow> u32 \<Rightarrow> u32" where
  "ext2_get_inode_block_group fs inode_num = (inode_num - 1) div s_inodes_per_group (superblock fs)"

definition ext2_get_inode_table_index :: "ext2_fs \<Rightarrow> u32 \<Rightarrow> u32" where
  "ext2_get_inode_table_index fs inode_num = (inode_num - 1) mod s_inodes_per_group (superblock fs)"

text \<open>The block that holds an inode, and its offset there.\<close>

definition locate_inode :: "ext2_fs \<Rightarrow> u32 \<Rightarrow> (u32 \<times> u32) option option" where
  "locate_inode fs inode_num =
     (if inode_num = 0 then Some None
      else if s_inodes_per_group (superblock fs) = 0 then None
      else let block_group = ext2_get_inode_block_group fs inode_num; index = ext2_get_inode_table_index fs inode_num
           in if block_group \<ge> num_block_groups fs then Some None
              else if 32 * unat block_group + 12 > length (group_desc_table fs) then None
              else let inode_table_block = get32 (group_desc_table fs) (32 * unat block_group + 8);
                       pos = index * inode_size (superblock fs)
                   in if block_size fs = 0 then None
                      else Some (Some (inode_table_block + pos div block_size fs, pos mod block_size fs)))"

definition ext2_read_inode :: "ext2_fs \<Rightarrow> u32 \<Rightarrow> disk \<Rightarrow> ext2_inode option option" where
  "ext2_read_inode fs inode_num d = do {
     p \<leftarrow> locate_inode fs inode_num;
     case p of
       None \<Rightarrow> Some None
     | Some (block, offset) \<Rightarrow>
         (case ext2_read_block fs block d of
            None \<Rightarrow> Some None
          | Some b \<Rightarrow> if unat offset + 128 > length b then None else Some (Some (take 128 (drop (unat offset) b)))) }"

definition ext2_write_inode :: "ext2_fs \<Rightarrow> u32 \<Rightarrow> ext2_inode \<Rightarrow> disk \<Rightarrow> (disk \<times> bool) option" where
  "ext2_write_inode fs inode_num inode d = do {
     p \<leftarrow> locate_inode fs inode_num;
     case p of
       None \<Rightarrow> Some (d, False)
     | Some (block, offset) \<Rightarrow>
         (case ext2_read_block fs block d of
            None \<Rightarrow> Some (d, False)
          | Some b \<Rightarrow> if unat offset + 128 > length b then None
                      else Some (ext2_write_block fs block (put_at b (unat offset) inode) d)) }"

subsection \<open>Files\<close>

text \<open>The part of a block that a step of \<^verbatim>\<open>ext2_read_file\<close> copies: it is not empty and ends in the block and the request.\<close>

definition chunk :: "u32 \<Rightarrow> u32 \<Rightarrow> u32 \<Rightarrow> u32 \<Rightarrow> u32" where
  "chunk bsz n bytes_read current_offset =
     (let rest = bsz - current_offset mod bsz in if rest > n - bytes_read then n - bytes_read else rest)"

lemma unat_chunk:
  assumes "r < n" "bsz \<noteq> 0"
  shows "unat (chunk bsz n r c) = min (unat bsz - unat c mod unat bsz) (unat n - unat r)"
    and "0 < unat (chunk bsz n r c)" "unat (r + chunk bsz n r c) = unat r + unat (chunk bsz n r c)"
    and "unat r + unat (chunk bsz n r c) \<le> unat n"
proof -
  have s: "0 < unat bsz" using assms(2) by (simp add: unat_gt_0)
  have m: "unat (c mod bsz) = unat c mod unat bsz" by (simp add: unat_mod)
  then have "c mod bsz \<le> bsz" using s by (simp add: word_le_nat_alt less_imp_le)
  then have a: "unat (bsz - c mod bsz) = unat bsz - unat c mod unat bsz" using m by (simp add: unat_sub)
  have b: "unat (n - r) = unat n - unat r" using assms(1) by (simp add: unat_sub order_less_imp_le)
  show u: "unat (chunk bsz n r c) = min (unat bsz - unat c mod unat bsz) (unat n - unat r)"
    using a b by (auto simp: chunk_def Let_def word_less_nat_alt min_def)
  moreover have "unat r < unat n" using assms(1) by (simp add: word_less_nat_alt)
  ultimately show p: "0 < unat (chunk bsz n r c)" "unat r + unat (chunk bsz n r c) \<le> unat n" using s by (auto simp: min_def)
  then show "unat (r + chunk bsz n r c) = unat r + unat (chunk bsz n r c)"
    using unat_lt_32 [of n] by (intro unat_plus_lt) simp
qed

text \<open>
  \<^verbatim>\<open>memcpy\<close> takes a count of 16 bits. The result is the number of bytes read and the buffer of the
  caller.
\<close>

function read_file_blocks :: "ext2_fs \<Rightarrow> ext2_inode \<Rightarrow> u32 \<Rightarrow> u32 \<Rightarrow> u32 \<Rightarrow> u8 list \<Rightarrow> disk \<Rightarrow> (u32 \<times> u8 list) option" where
  "read_file_blocks fs inode n bytes_read current_offset buf d =
     (if bytes_read < n
      then if block_size fs = 0 then None
      else let block_index = current_offset div block_size fs; offset_in_block = current_offset mod block_size fs;
               k = chunk (block_size fs) n bytes_read current_offset
           in if unat block_index \<ge> EXT2_NDIR_BLOCKS then Some (bytes_read, buf)
              else let block_num = i_block inode (unat block_index)
                   in if block_num = 0
                      then read_file_blocks fs inode n (bytes_read + k) (current_offset + k)
                             (put_at buf (unat bytes_read) (replicate (unat k) 0)) d
                      else case ext2_read_block fs block_num d of
                             None \<Rightarrow> Some (bytes_read, buf)
                           | Some b \<Rightarrow> read_file_blocks fs inode n (bytes_read + k) (current_offset + k)
                               (put_at buf (unat bytes_read) (take (unat k mod 65536) (drop (unat offset_in_block) b))) d
      else Some (bytes_read, buf))"
  by auto
termination
  by (relation "measure (\<lambda>(fs, inode, n, bytes_read, current_offset, buf, d). unat n - unat bytes_read)")
    (use unat_chunk in \<open>auto intro!: diff_less_mono2 simp: word_less_nat_alt\<close>)

declare read_file_blocks.simps [simp del]

definition ext2_read_file :: "ext2_fs \<Rightarrow> ext2_inode \<Rightarrow> u32 \<Rightarrow> u32 \<Rightarrow> u8 list \<Rightarrow> disk \<Rightarrow> (int \<times> u8 list) option" where
  "ext2_read_file fs inode offset n buf d =
     (if offset \<ge> i_size inode then Some (0, buf)
      else let n = (if offset + n > i_size inode then i_size inode - offset else n)
           in do {
             (k, buf) \<leftarrow> read_file_blocks fs inode n 0 offset buf d;
             Some (s32 (uint k), buf) })"

subsection \<open>Directories\<close>

text \<open>
  The entries of a block from an offset on; \<open>offset\<close> is the position in the directory. A name of 255
  bytes has its terminator stored behind the structure.
\<close>

function parse_dir :: "nat \<Rightarrow> u8 list \<Rightarrow> nat \<Rightarrow> nat \<Rightarrow> nat \<Rightarrow> nat \<Rightarrow> ext2_dir_entry list \<Rightarrow> ext2_dir_entry list option" where
  "parse_dir bsz b block_offset offset dir_size max_entries acc =
     (if block_offset < bsz \<and> offset < dir_size
      then if block_offset + 4 > length b then None
      else if get32 b block_offset = 0 then Some acc
      else if block_offset + 8 > length b then None
      else let rec_len = get16 b (block_offset + 4); name_len = b ! (block_offset + 6)
           in if rec_len = 0 then Some acc
              else if unat rec_len > bsz \<or> rec_len < 8 then Some acc
              else if length acc < max_entries
              then if unat name_len = EXT2_NAME_LEN \<or> block_offset + 8 + unat name_len > length b then None
                   else parse_dir bsz b (block_offset + unat rec_len) (offset + unat rec_len) dir_size max_entries
                          (acc @ [\<lparr>d_inode = get32 b block_offset, d_rec_len = rec_len, d_file_type = b ! (block_offset + 7),
                                   d_name = take (unat name_len) (drop (block_offset + 8) b)\<rparr>])
              else parse_dir bsz b (block_offset + unat rec_len) (offset + unat rec_len) dir_size max_entries acc
      else Some acc)"
  by auto
termination
  by (relation "measure (\<lambda>(bsz, b, block_offset, offset, dir_size, max_entries, acc). bsz - block_offset)")
    (auto intro!: diff_less_mono2 simp: unat_gt_0)

declare parse_dir.simps [simp del]

primrec read_dir_blocks :: "nat list \<Rightarrow> ext2_fs \<Rightarrow> ext2_inode \<Rightarrow> nat \<Rightarrow> ext2_dir_entry list \<Rightarrow> disk \<Rightarrow> ext2_dir_entry list option option" where
  "read_dir_blocks [] fs inode max_entries acc d = Some (Some acc)"
| "read_dir_blocks (i # is) fs inode max_entries acc d =
     (let bsz = unat (block_size fs); dir_size = unat (i_size inode)
      in if \<not> (i * bsz < dir_size \<and> length acc < max_entries) then Some (Some acc)
         else if i_block inode i = 0 then Some (Some acc)
         else case ext2_read_block fs (i_block inode i) d of
                None \<Rightarrow> Some None
              | Some b \<Rightarrow> do {
                  acc \<leftarrow> parse_dir bsz b 0 (i * bsz) dir_size max_entries acc;
                  read_dir_blocks is fs inode max_entries acc d })"

definition ext2_read_dir :: "ext2_fs \<Rightarrow> u32 \<Rightarrow> nat \<Rightarrow> disk \<Rightarrow> ext2_dir_entry list option option" where
  "ext2_read_dir fs inode_num max_entries d = do {
     i \<leftarrow> ext2_read_inode fs inode_num d;
     case i of
       None \<Rightarrow> Some None
     | Some inode \<Rightarrow> if i_mode inode AND EXT2_S_IFDIR \<noteq> EXT2_S_IFDIR then Some None
                      else read_dir_blocks [0..<EXT2_NDIR_BLOCKS] fs inode max_entries [] d }"

text \<open>
  \<^verbatim>\<open>strncmp (entry, name, name_len) == 0\<close> together with \<^verbatim>\<open>strlen (name) == name_len\<close> is equality of the
  names.
\<close>

definition ext2_find_entry :: "ext2_fs \<Rightarrow> u32 \<Rightarrow> cstring \<Rightarrow> disk \<Rightarrow> ext2_dir_entry option option" where
  "ext2_find_entry fs dir_inode name d = do {
     es \<leftarrow> ext2_read_dir fs dir_inode 64 d;
     case es of None \<Rightarrow> Some None | Some es \<Rightarrow> Some (find (\<lambda>e. d_name e = name) es) }"

end
