(* ===== verification/Ext2_Correct.thy ===== *)
theory Ext2_Correct
  imports Ext2
begin

text \<open>
  Properties of the ext2 file system: its blocks are a block device, a changed inode is read back and
  leaves the others alone, files and directories are read as they were laid out.
\<close>

subsection \<open>Blocks\<close>

definition ext2_ok :: "ext2_fs \<Rightarrow> bool" where
  "ext2_ok fs \<longleftrightarrow> (\<exists>k \<le> 6. unat (block_size fs) = 1024 * 2 ^ k)"

lemma push_bit_block_size:
  "push_bit n (1024 :: u32) = 0 \<or> push_bit n (1024 :: u32) > 65536 \<or> n \<le> 6 \<and> unat (push_bit n (1024 :: u32)) = 1024 * 2 ^ n"
proof -
  have u: "unat (push_bit n (1024 :: u32)) = 1024 * 2 ^ n mod 2 ^ 32"
  proof -
    have "unat (push_bit n (1024 :: u32)) = take_bit LENGTH(32) (push_bit n (unat (1024 :: u32)))"
      by (rule unsigned_push_bit_eq)
    then show ?thesis by (simp only: take_bit_eq_mod push_bit_eq_mult) simp
  qed
  have e: "1024 * 2 ^ n = (2 :: nat) ^ (n + 10)" by (simp add: power_add)
  consider "n \<ge> 22" | "n < 22" "n > 6" | "n \<le> 6" by linarith
  then show ?thesis
  proof cases
    case 1
    then have "(2 :: nat) ^ 32 dvd 2 ^ (n + 10)" by (intro le_imp_power_dvd) simp
    then have "unat (push_bit n (1024 :: u32)) = 0" using u e by (metis mod_0_imp_dvd dvd_imp_mod_0)
    then show ?thesis by (simp add: unat_eq_0)
  next
    case 2
    then have "(2 :: nat) ^ (n + 10) < 2 ^ 32" "(2 :: nat) ^ 16 < 2 ^ (n + 10)" by (intro power_strict_increasing; simp)+
    then have "65536 < unat (push_bit n (1024 :: u32))" using u e by simp
    then show ?thesis by (simp add: word_less_nat_alt)
  next
    case 3
    then have "(2 :: nat) ^ (n + 10) < 2 ^ 32" by (intro power_strict_increasing) simp_all
    then show ?thesis using u e 3 by simp
  qed
qed

lemma read_gdt_length:
  "read_gdt is g fs d = Some b \<Longrightarrow> (\<And>n b. ext2_read_block fs n d = Some b \<Longrightarrow> length b = m) \<Longrightarrow> length b = length is * m"
  by (induction "is" arbitrary: b) (auto simp: Option.bind_eq_Some_conv)

definition sectors_per_block :: "ext2_fs \<Rightarrow> nat" where
  "sectors_per_block fs = unat (block_size fs) div 512"

lemma ext2_ok_sizes:
  assumes "ext2_ok fs"
  shows "unat (block_size fs) = sectors_per_block fs * 512" "unat (block_size fs div 512) = sectors_per_block fs"
    and "2 \<le> sectors_per_block fs" "sectors_per_block fs \<le> 128" "block_size fs \<noteq> 0"
proof -
  obtain k where k: "k \<le> 6" "unat (block_size fs) = 1024 * 2 ^ k" using assms by (auto simp: ext2_ok_def)
  have e: "sectors_per_block fs = 2 * 2 ^ k" by (simp add: sectors_per_block_def k)
  then show "unat (block_size fs) = sectors_per_block fs * 512" "2 \<le> sectors_per_block fs" using k by simp_all
  have "(2 :: nat) ^ k \<le> 2 ^ 6" using k(1) by (intro power_increasing) simp_all
  then show "sectors_per_block fs \<le> 128" using e by simp
  show "unat (block_size fs div 512) = sectors_per_block fs" by (simp add: sectors_per_block_def unat_div)
  show "block_size fs \<noteq> 0" using k by (metis mult_is_0 power_not_zero unat_0 zero_neq_numeral)
qed

text \<open>The bytes of a block, and the blocks whose sectors have numbers of 32 bits.\<close>

definition block_data :: "ext2_fs \<Rightarrow> disk \<Rightarrow> u32 \<Rightarrow> u8 list" where
  "block_data fs d n = concat (map (\<lambda>i. sectors d (n * (block_size fs div 512) + of_nat i)) [0..<sectors_per_block fs])"

definition on_disk :: "ext2_fs \<Rightarrow> u32 \<Rightarrow> bool" where
  "on_disk fs n \<longleftrightarrow> ext2_ok fs \<and> (unat n + 1) * sectors_per_block fs \<le> 2 ^ 32"

lemma read_block_ok:
  assumes "ext2_ok fs" "sound d"
  shows "ext2_read_block fs n d = Some (block_data fs d n)" "length (block_data fs d n) = unat (block_size fs)"
  using assms ext2_ok_sizes [OF assms(1)] length_sectors [of d "n * (block_size fs div 512)" "[0..<sectors_per_block fs]"]
  by (simp_all add: ext2_read_block_def block_data_def Let_def sound_def read_run_ok)

lemma unat_sector:
  assumes "on_disk fs n" "i < sectors_per_block fs"
  shows "unat (n * (block_size fs div 512) + of_nat i) = unat n * sectors_per_block fs + i"
proof -
  note s = ext2_ok_sizes [of fs]
  have ok: "ext2_ok fs" and l: "unat n * sectors_per_block fs + sectors_per_block fs \<le> 4294967296"
    using assms(1) by (simp_all add: on_disk_def)
  have m: "unat (n * (block_size fs div 512)) = unat n * sectors_per_block fs"
    using l s(2,3) [OF ok] by (subst unat_mult_lt) simp_all
  have "unat (of_nat i :: u32) = i" using assms(2) s(4) [OF ok] by (intro unat_of_nat_lt) simp
  then show ?thesis using m l assms(2) by (subst unat_plus_lt) simp_all
qed

lemma same_sector:
  assumes "on_disk fs a" "on_disk fs c" "i < sectors_per_block fs" "j < sectors_per_block fs"
  shows "a * (block_size fs div 512) + of_nat i = c * (block_size fs div 512) + of_nat j \<longleftrightarrow> a = c \<and> i = j"
proof
  let ?s = "sectors_per_block fs"
  assume "a * (block_size fs div 512) + of_nat i = c * (block_size fs div 512) + of_nat j"
  then have e: "unat a * ?s + i = unat c * ?s + j" using unat_sector assms by metis
  then have "(unat a * ?s + i) div ?s = (unat c * ?s + j) div ?s" by simp
  then have "unat a = unat c" using assms(3,4) by simp
  then have "a = c" by (simp add: word_unat_eq_iff)
  then show "a = c \<and> i = j" using e by simp
qed simp

lemma find_sector:
  assumes "on_disk fs a" "on_disk fs c" "j < sectors_per_block fs"
  shows "find (\<lambda>i. a * (block_size fs div 512) + of_nat i = c * (block_size fs div 512) + of_nat j) [0..<sectors_per_block fs]
    = (if c = a then Some j else None)"
proof (cases "c = a")
  case True
  have "find (\<lambda>i. i = j) [0..<sectors_per_block fs] = Some j" 
    unfolding find_Some_iff using assms(3) by (intro exI [of _ j]) auto
  moreover have "find (\<lambda>i. a * (block_size fs div 512) + of_nat i = a * (block_size fs div 512) + of_nat j) [0..<sectors_per_block fs]
      = find (\<lambda>i. i = j) [0..<sectors_per_block fs]"
    using same_sector [OF assms(1,1) _ assms(3)] by (intro find_cong) auto
  ultimately show ?thesis using True by simp
next
  case False
  then show ?thesis using same_sector [OF assms(1,2) _ assms(3)] by (auto simp: find_None_iff)
qed

lemma write_block_ok:
  assumes "on_disk fs a" "sound d" "length b = unat (block_size fs)"
  shows "snd (ext2_write_block fs a b d)" "sound (fst (ext2_write_block fs a b d))"
    and "on_disk fs c \<Longrightarrow> block_data fs (fst (ext2_write_block fs a b d)) c = (if c = a then b else block_data fs d c)"
proof -
  have ok: "ext2_ok fs" using assms(1) by (simp add: on_disk_def)
  note s = ext2_ok_sizes [OF ok]
  let ?f = "\<lambda>l i. a * (block_size fs div 512) + of_nat i = l"
  let ?d = "d\<lparr>sectors := (\<lambda>l. case find (?f l) [0..<sectors_per_block fs] of
      None \<Rightarrow> sectors d l | Some i \<Rightarrow> take 512 (drop (i * 512) b))\<rparr>"
  have "distinct (map (\<lambda>i. a * (block_size fs div 512) + of_nat i) [0..<sectors_per_block fs])"
    using same_sector [OF assms(1,1)] by (auto simp: distinct_map inj_on_def)
  then have w: "ext2_write_block fs a b d = (?d, True)"
    using write_run_ok [of d "a * (block_size fs div 512)" "[0..<sectors_per_block fs]" b] assms(2) s(2)
    by (simp add: ext2_write_block_def Let_def sound_def)
  have "length (take 512 (drop (i * 512) b)) = 512" if "i < sectors_per_block fs" for i
    using that assms(3) s(1) by simp
  then have "formatted ?d" using assms(2) unfolding formatted_def sound_def
    by (auto split: option.splits dest!: find_Some_iff [THEN iffD1])
  then show "snd (ext2_write_block fs a b d)" "sound (fst (ext2_write_block fs a b d))"
    using w assms(2) by (simp_all add: sound_def healthy_def)
  show "block_data fs (fst (ext2_write_block fs a b d)) c = (if c = a then b else block_data fs d c)" if "on_disk fs c"
  proof -
    have "block_data fs ?d c = concat (map (\<lambda>j. if c = a then take 512 (drop (j * 512) b)
        else sectors d (c * (block_size fs div 512) + of_nat j)) [0..<sectors_per_block fs])"
      unfolding block_data_def using find_sector [OF assms(1) that]
      by (intro arg_cong [where f = concat] map_cong) auto
    then show ?thesis using w concat_pieces [of b "sectors_per_block fs"] assms(3) s(1) by (auto simp: block_data_def)
  qed
qed

interpretation ext2_blocks: block_device "ext2_read_block fs" "ext2_write_block fs" sound "on_disk fs" "unat (block_size fs)" for fs
proof unfold_locales
  show "\<exists>b. ext2_read_block fs a d = Some b \<and> length b = unat (block_size fs)" if "sound d" "on_disk fs a" for d a
    using read_block_ok [OF _ that(1)] that(2) by (auto simp: on_disk_def)
  show "snd (ext2_write_block fs a b d) \<and> sound (fst (ext2_write_block fs a b d))"
    if "sound d" "on_disk fs a" "length b = unat (block_size fs)" for d a b
    using write_block_ok [OF that(2,1,3)] by simp
  show "ext2_read_block fs c (fst (ext2_write_block fs a b d)) = (if c = a then Some b else ext2_read_block fs c d)"
    if "sound d" "on_disk fs a" "on_disk fs c" "length b = unat (block_size fs)" for d a c b
    using write_block_ok [OF that(2,1,4)] read_block_ok that by (auto simp: on_disk_def)
qed

subsection \<open>Inodes\<close>

text \<open>The first block of the inode table of a group, and how many blocks a table has.\<close>

definition table_block :: "ext2_fs \<Rightarrow> nat \<Rightarrow> nat" where
  "table_block fs g = unat (get32 (group_desc_table fs) (32 * g + 8))"

definition table_bytes :: "ext2_fs \<Rightarrow> nat" where
  "table_bytes fs = unat (s_inodes_per_group (superblock fs)) * unat (inode_size (superblock fs))"

definition table_blocks :: "ext2_fs \<Rightarrow> nat" where
  "table_blocks fs = (table_bytes fs + unat (block_size fs) - 1) div unat (block_size fs)"

text \<open>
  The inode tables of a volume: inodes of at least 128 bytes that fill the blocks evenly, tables that
  lie on the disk and do not overlap.
\<close>

definition tables_ok :: "ext2_fs \<Rightarrow> bool" where
  "tables_ok fs \<longleftrightarrow> ext2_ok fs \<and> s_inodes_per_group (superblock fs) \<noteq> 0
     \<and> 128 \<le> unat (inode_size (superblock fs)) \<and> unat (inode_size (superblock fs)) dvd unat (block_size fs)
     \<and> table_bytes fs < 2 ^ 32 \<and> 32 * unat (num_block_groups fs) \<le> length (group_desc_table fs)
     \<and> (\<forall>g < unat (num_block_groups fs). (table_block fs g + table_blocks fs) * sectors_per_block fs \<le> 2 ^ 32)
     \<and> (\<forall>g h. g < h \<and> h < unat (num_block_groups fs) \<longrightarrow>
          table_block fs g + table_blocks fs \<le> table_block fs h \<or> table_block fs h + table_blocks fs \<le> table_block fs g)"

text \<open>The inodes that the groups of a volume hold.\<close>

definition inode_exists :: "ext2_fs \<Rightarrow> u32 \<Rightarrow> bool" where
  "inode_exists fs n \<longleftrightarrow> n \<noteq> 0 \<and> (unat n - 1) div unat (s_inodes_per_group (superblock fs)) < unat (num_block_groups fs)"

lemma locate_inode_ok:
  assumes "tables_ok fs" "inode_exists fs n"
  defines "g \<equiv> (unat n - 1) div unat (s_inodes_per_group (superblock fs))"
    and "p \<equiv> (unat n - 1) mod unat (s_inodes_per_group (superblock fs)) * unat (inode_size (superblock fs))"
  shows "\<exists>block offset. locate_inode fs n = Some (Some (block, offset)) \<and> on_disk fs block
    \<and> unat block = table_block fs g + p div unat (block_size fs) \<and> p div unat (block_size fs) < table_blocks fs
    \<and> unat offset = p mod unat (block_size fs) \<and> unat offset + 128 \<le> unat (block_size fs)"
proof -
  let ?sb = "superblock fs"
  let ?ipg = "unat (s_inodes_per_group ?sb)" and ?isz = "unat (inode_size ?sb)" and ?bs = "unat (block_size fs)"
  have ok: "ext2_ok fs" and ipg: "s_inodes_per_group ?sb \<noteq> 0" and isz: "128 \<le> ?isz" "?isz dvd ?bs" and tb: "table_bytes fs < 2 ^ 32"
    and gdt: "32 * unat (num_block_groups fs) \<le> length (group_desc_table fs)"
    using assms(1) by (simp_all add: tables_ok_def)
  note s = ext2_ok_sizes [OF ok]
  have bs: "0 < ?bs" using s(5) by (simp add: unat_gt_0)
  have n: "unat (n - 1) = unat n - 1" using assms(2) by (simp add: inode_exists_def unat_minus_one)
  have g: "unat (ext2_get_inode_block_group fs n) = g" "g < unat (num_block_groups fs)"
    using assms(2) n by (simp_all add: ext2_get_inode_block_group_def unat_div g_def inode_exists_def)
  have "0 < ?ipg" using ipg by (simp add: unat_gt_0)
  then have x: "(unat n - 1) mod ?ipg < ?ipg" by simp
  then have p: "p + ?isz \<le> table_bytes fs"
    using mult_le_mono1 [of "(unat n - 1) mod ?ipg + 1" ?ipg ?isz] by (simp add: p_def table_bytes_def)
  have pos: "unat (ext2_get_inode_table_index fs n * inode_size ?sb) = p"
    using p tb n by (subst unat_mult_lt) (simp_all add: ext2_get_inode_table_index_def unat_mod p_def)
  have "(p + ?bs) div ?bs \<le> (table_bytes fs + ?bs - 1) div ?bs" using p isz(1) by (intro div_le_mono) simp
  then have pd: "p div ?bs < table_blocks fs" 
    using bs div_add_self2 [of ?bs p] by (simp add: table_blocks_def)
  have lim: "(table_block fs g + table_blocks fs) * sectors_per_block fs \<le> 2 ^ 32" using assms(1) g(2) by (simp add: tables_ok_def)
  have le: "(table_block fs g + p div ?bs + 1) * sectors_per_block fs \<le> 2 ^ 32"
    using mult_le_mono1 [of "table_block fs g + p div ?bs + 1" "table_block fs g + table_blocks fs" "sectors_per_block fs"] pd lim by linarith
  moreover have "(table_block fs g + p div ?bs + 1) * 2 \<le> (table_block fs g + p div ?bs + 1) * sectors_per_block fs"
    using s(3) by (intro mult_le_mono2)
  ultimately have sum: "table_block fs g + p div ?bs < 2 ^ 32" by simp
  let ?blk = "get32 (group_desc_table fs) (32 * g + 8) + ext2_get_inode_table_index fs n * inode_size ?sb div block_size fs"
  have blk: "unat ?blk = table_block fs g + p div ?bs"
    using sum pos by (subst unat_plus_lt) (simp_all add: table_block_def unat_div)
  have loc: "locate_inode fs n = Some (Some (?blk, ext2_get_inode_table_index fs n * inode_size ?sb mod block_size fs))"
    using assms(2) ipg g gdt s(5) by (simp add: locate_inode_def inode_exists_def Let_def word_le_nat_alt)
  have "?isz dvd p mod ?bs" using isz(2) by (intro dvd_mod) (simp_all add: p_def)
  then obtain a b where ab: "p mod ?bs = ?isz * a" "?bs = ?isz * b" using isz(2) by (auto elim!: dvdE)
  have "?isz * a < ?isz * b" using ab bs by (metis mod_less_divisor)
  then have "?isz * (a + 1) \<le> ?isz * b" by (intro mult_le_mono2) simp
  then have off: "p mod ?bs + 128 \<le> ?bs" using ab isz(1) by (simp add: algebra_simps)
  show ?thesis
    using loc blk pd off pos le ok by (auto simp: on_disk_def unat_mod)
qed

text \<open>Different inodes lie in different blocks or apart in the same block.\<close>

lemma inodes_disjoint:
  assumes "tables_ok fs" "inode_exists fs n" "inode_exists fs m" "n \<noteq> m"
    and "locate_inode fs n = Some (Some (b, i))" "locate_inode fs m = Some (Some (c, j))"
  shows "b \<noteq> c \<or> unat i + 128 \<le> unat j \<or> unat j + 128 \<le> unat i"
proof -
  let ?ipg = "unat (s_inodes_per_group (superblock fs))" and ?isz = "unat (inode_size (superblock fs))" and ?bs = "unat (block_size fs)"
  define g h where "g = (unat n - 1) div ?ipg" and "h = (unat m - 1) div ?ipg"
  define x y where "x = (unat n - 1) mod ?ipg" and "y = (unat m - 1) mod ?ipg"
  have N: "unat b = table_block fs g + x * ?isz div ?bs" "x * ?isz div ?bs < table_blocks fs" "unat i = x * ?isz mod ?bs"
    using locate_inode_ok [OF assms(1,2)] assms(5) by (auto simp: g_def x_def)
  have M: "unat c = table_block fs h + y * ?isz div ?bs" "y * ?isz div ?bs < table_blocks fs" "unat j = y * ?isz mod ?bs"
    using locate_inode_ok [OF assms(1,3)] assms(6) by (auto simp: h_def y_def)
  have gh: "g < unat (num_block_groups fs)" "h < unat (num_block_groups fs)" using assms(2,3) by (simp_all add: inode_exists_def g_def h_def)
  have nm: "unat n - 1 = g * ?ipg + x" "unat m - 1 = h * ?ipg + y" by (simp_all add: g_def h_def x_def y_def)
  have pos: "0 < unat n" "0 < unat m" using assms(2,3) by (simp_all add: inode_exists_def unat_gt_0)
  have "unat n \<noteq> unat m" using assms(4) by (simp add: word_unat_eq_iff)
  then have "unat n - 1 \<noteq> unat m - 1" using pos by linarith
  then have ne: "g \<noteq> h \<or> x \<noteq> y" unfolding nm by blast
  show ?thesis
  proof (cases "b = c")
    case True
    have "g = h"
    proof (rule ccontr)
      assume "g \<noteq> h"
      then consider "g < h" | "h < g" by linarith
      then have "table_block fs g + table_blocks fs \<le> table_block fs h \<or> table_block fs h + table_blocks fs \<le> table_block fs g"
        using assms(1) gh by cases (auto simp: tables_ok_def)
      moreover have "unat b = unat c" using True by simp
      ultimately show False using N(1,2) M(1,2) by linarith
    qed
    then have q: "x * ?isz div ?bs = y * ?isz div ?bs" and xy: "x \<noteq> y" using True N(1) M(1) ne by simp_all
    have "x * ?isz = x * ?isz div ?bs * ?bs + unat i" "y * ?isz = y * ?isz div ?bs * ?bs + unat j"
      by (simp_all only: N(3) M(3) div_mult_mod_eq)
    then obtain k where e: "x * ?isz = k + unat i" "y * ?isz = k + unat j" using q by metis
    have isz: "128 \<le> ?isz" using assms(1) by (simp add: tables_ok_def)
    consider "x < y" | "y < x" using xy by linarith
    then show ?thesis
    proof cases
      case 1
      then have "(x + 1) * ?isz \<le> y * ?isz" by (intro mult_le_mono1) simp
      then have "x * ?isz + ?isz \<le> y * ?isz" by simp
      then have "unat i + ?isz \<le> unat j" using e by linarith
      then show ?thesis using isz by linarith
    next
      case 2
      then have "(y + 1) * ?isz \<le> x * ?isz" by (intro mult_le_mono1) simp
      then have "y * ?isz + ?isz \<le> x * ?isz" by simp
      then have "unat j + ?isz \<le> unat i" using e by linarith
      then show ?thesis using isz by linarith
    qed
  qed simp
qed

lemma ext2_read_inode_ok:
  assumes "tables_ok fs" "inode_exists fs n" "sound d" "locate_inode fs n = Some (Some (b, i))"
  shows "ext2_read_inode fs n d = Some (Some (take 128 (drop (unat i) (block_data fs d b))))"
    and "on_disk fs b" "unat i + 128 \<le> unat (block_size fs)"
  using locate_inode_ok [OF assms(1,2)] assms(4) read_block_ok [OF _ assms(3), of fs b]
  by (auto simp: ext2_read_inode_def on_disk_def)

text \<open>
  C16. A changed inode is read back and no other one changes: on a disk that works and a volume whose
  inode tables do not overlap, \<^verbatim>\<open>ext2_write_inode\<close> succeeds, \<^verbatim>\<open>ext2_read_inode\<close> then returns what was
  written, and returns for every other inode what it returned before.
\<close>

theorem ext2_write_inode_correct:
  assumes "tables_ok fs" "sound d" "inode_exists fs n" "length inode = 128"
  shows "\<exists>d'. ext2_write_inode fs n inode d = Some (d', True) \<and> sound d' \<and> ext2_read_inode fs n d' = Some (Some inode)
    \<and> (\<forall>m. inode_exists fs m \<and> m \<noteq> n \<longrightarrow> ext2_read_inode fs m d' = ext2_read_inode fs m d)"
proof -
  have ok: "ext2_ok fs" using assms(1) by (simp add: tables_ok_def)
  obtain b i where loc: "locate_inode fs n = Some (Some (b, i))" using locate_inode_ok [OF assms(1,3)] by blast
  note r = ext2_read_inode_ok [OF assms(1,3) _ loc]
  let ?buf = "block_data fs d b"
  have rd: "ext2_read_block fs b d = Some ?buf" "length ?buf = unat (block_size fs)" using read_block_ok [OF ok assms(2)] by auto
  obtain d' s where w: "ext2_write_block fs b (put_at ?buf (unat i) inode) d = (d', s)" by fastforce
  have f: "unat i + length inode \<le> unat (block_size fs)" using r(3) [OF assms(2)] assms(4) by simp
  note u = ext2_blocks.update_field [OF assms(2) r(2) [OF assms(2)] f rd(1) w]
  from u(1) have s: "s" "sound d'" and same: "take 128 (drop (unat i) (block_data fs d' b)) = inode"
    using read_block_ok [OF ok, of d' b] assms(4) by auto
  have "ext2_read_inode fs m d' = ext2_read_inode fs m d" if m: "inode_exists fs m" "m \<noteq> n" for m
  proof -
    obtain c j where lm: "locate_inode fs m = Some (Some (c, j))" using locate_inode_ok [OF assms(1) m(1)] by blast
    note rm = ext2_read_inode_ok [OF assms(1) m(1) _ lm]
    have "c \<noteq> b \<or> unat j + 128 \<le> unat i \<or> unat i + length inode \<le> unat j"
      using inodes_disjoint [OF assms(1) m(1) assms(3) m(2) lm loc] assms(4) by simp
    then have "take 128 (drop (unat j) (block_data fs d' c)) = take 128 (drop (unat j) (block_data fs d c))"
      using u(2) [OF rm(2) [OF assms(2)] _ rm(3) [OF assms(2)]] read_block_ok [OF ok assms(2), of c] read_block_ok [OF ok s(2), of c] by auto
    then show ?thesis using rm(1) [OF assms(2)] rm(1) [OF s(2)] by simp
  qed
  moreover have "ext2_write_inode fs n inode d = Some (d', True)"
    using loc rd w s(1) r(3) [OF assms(2)] by (simp add: ext2_write_inode_def)
  ultimately show ?thesis using r(1) [OF s(2)] same s(2) by auto
qed

subsection \<open>Initialisation\<close>

lemma ext2_init_Some:
  assumes "ext2_init gdt_mem buffer_mem d = Some (Some fs)"
  obtains b2 b3 where "dev_read 2 d = Some b2" "dev_read 3 d = Some b3" "superblock fs = ext2_superblock_of (b2 @ b3)"
    and "s_magic (superblock fs) = EXT2_SIGNATURE" "s_log_block_size (superblock fs) < 32" "s_blocks_per_group (superblock fs) \<noteq> 0"
    and "block_size fs = push_bit (unat (s_log_block_size (superblock fs))) 1024" "block_size fs \<noteq> 0" "block_size fs \<le> 65536"
    and "num_block_groups fs = (s_blocks_count (superblock fs) + s_blocks_per_group (superblock fs) - 1) div s_blocks_per_group (superblock fs)"
    and "current_dir_inode fs = EXT2_ROOT_INO"
    and "read_gdt [0..<unat ((num_block_groups fs * 32 + block_size fs - 1) div block_size fs)] (s_first_data_block (superblock fs) + 1)
           (fs\<lparr>group_desc_table := []\<rparr>) d = Some (group_desc_table fs)"
  using assms by (auto simp: ext2_init_def Let_def not_le not_less split: option.splits if_splits)

lemma ext2_init_gdt:
  assumes "ext2_init gdt_mem buffer_mem d = Some (Some fs)" "formatted d"
    and "unat (num_block_groups fs) * 32 + unat (block_size fs) < 2 ^ 32"
  shows "ext2_ok fs" "length (group_desc_table fs)
    = (unat (num_block_groups fs) * 32 + unat (block_size fs) - 1) div unat (block_size fs) * unat (block_size fs)"
proof -
  let ?n = "unat (num_block_groups fs)" and ?bs = "unat (block_size fs)"
  obtain b2 b3 where "block_size fs = push_bit (unat (s_log_block_size (superblock fs))) 1024" "block_size fs \<noteq> 0" "block_size fs \<le> 65536"
    and gdt: "read_gdt [0..<unat ((num_block_groups fs * 32 + block_size fs - 1) div block_size fs)] (s_first_data_block (superblock fs) + 1)
           (fs\<lparr>group_desc_table := []\<rparr>) d = Some (group_desc_table fs)"
    using ext2_init_Some [OF assms(1)] by metis
  then show ok: "ext2_ok fs" using push_bit_block_size [of "unat (s_log_block_size (superblock fs))"]
    by (auto simp: ext2_ok_def not_le [symmetric])
  note s = ext2_ok_sizes [OF ok]
  have bs: "0 < ?bs" using s(5) by (simp add: unat_gt_0)
  have g: "unat (num_block_groups fs * 32) = ?n * 32" using assms(3) by (subst unat_mult_lt) simp_all
  then have u: "unat (num_block_groups fs * 32 + block_size fs) = ?n * 32 + ?bs" using assms(3) by (subst unat_plus_lt) simp_all
  then have "num_block_groups fs * 32 + block_size fs \<noteq> 0" using bs by (metis add_gr_0 less_irrefl unat_0)
  then have m: "unat ((num_block_groups fs * 32 + block_size fs - 1) div block_size fs) = (?n * 32 + ?bs - 1) div ?bs"
    using u by (simp add: unat_div unat_minus_one)
  have "length b = ?bs" if "ext2_read_block (fs\<lparr>group_desc_table := []\<rparr>) k d = Some b" for k b
    using that length_read_run assms(2) s(1,2) by (fastforce simp: ext2_read_block_def Let_def)
  then show "length (group_desc_table fs) = (?n * 32 + ?bs - 1) div ?bs * ?bs"
    using read_gdt_length [OF gdt, of ?bs] m by simp
qed

text \<open>
  Whatever the disk holds, a file system that \<^verbatim>\<open>ext2_init\<close> accepts has the signature, a block size
  that is a power of two from 1024 to 65536, the root as its current directory, and in its table a
  descriptor for each block group.
\<close>

theorem ext2_init_valid:
  assumes "ext2_init gdt_mem buffer_mem d = Some (Some fs)" "formatted d"
    and "unat (num_block_groups fs) * 32 + unat (block_size fs) < 2 ^ 32"
  shows "ext2_ok fs \<and> s_magic (superblock fs) = EXT2_SIGNATURE \<and> current_dir_inode fs = EXT2_ROOT_INO
    \<and> 32 * unat (num_block_groups fs) \<le> length (group_desc_table fs)"
proof -
  let ?n = "unat (num_block_groups fs)" and ?bs = "unat (block_size fs)"
  note g = ext2_init_gdt [OF assms]
  have "0 < ?bs" using ext2_ok_sizes(5) [OF g(1)] by (simp add: unat_gt_0)
  then have "(?n * 32 + ?bs - 1) mod ?bs < ?bs" by simp
  then have "?n * 32 \<le> (?n * 32 + ?bs - 1) div ?bs * ?bs" using div_mult_mod_eq [of "?n * 32 + ?bs - 1" ?bs] by linarith
  moreover have "s_magic (superblock fs) = EXT2_SIGNATURE" "current_dir_inode fs = EXT2_ROOT_INO"
    using ext2_init_Some [OF assms(1)] by metis+
  ultimately show ?thesis using g by simp
qed

text \<open>
  The block allocated for the table has 32 bytes for each group, but whole file system blocks are read
  into it: with one group, at least 992 bytes are stored behind it.
\<close>

lemma gdt_overrun:
  assumes "ext2_init gdt_mem buffer_mem d = Some (Some fs)" "formatted d" "num_block_groups fs = 1"
    and "unat (block_size fs) < 2 ^ 31"
  shows "32 + 992 \<le> length (group_desc_table fs)"
proof -
  let ?bs = "unat (block_size fs)"
  have g: "ext2_ok fs" "length (group_desc_table fs) = (32 + ?bs - 1) div ?bs * ?bs"
    using ext2_init_gdt [OF assms(1,2)] assms(3,4) by simp_all
  have "1024 \<le> ?bs" using ext2_ok_sizes [OF g(1)] by simp
  moreover have "?bs div ?bs \<le> (32 + ?bs - 1) div ?bs" by (intro div_le_mono) simp
  ultimately have "1 * ?bs \<le> (32 + ?bs - 1) div ?bs * ?bs" by (intro mult_le_mono1) simp
  then show ?thesis unfolding g(2) using \<open>1024 \<le> ?bs\<close> by linarith
qed

subsection \<open>Files\<close>

text \<open>The contents of a file: its direct blocks, zeros where a block is missing.\<close>

definition file_block :: "ext2_fs \<Rightarrow> ext2_inode \<Rightarrow> disk \<Rightarrow> nat \<Rightarrow> u8 list" where
  "file_block fs inode d i =
     (if i_block inode i = 0 then replicate (unat (block_size fs)) 0 else block_data fs d (i_block inode i))"

definition file_data :: "ext2_fs \<Rightarrow> ext2_inode \<Rightarrow> disk \<Rightarrow> u8 list" where
  "file_data fs inode d = concat (map (file_block fs inode d) [0..<EXT2_NDIR_BLOCKS])"

lemma length_concat_upt: "(\<And>i. length (f i) = m) \<Longrightarrow> length (concat (map f [0..<n])) = n * m"
  by (induction n) auto

lemma drop_concat:
  assumes "\<And>i. length (f i) = m" "i \<le> n"
  shows "drop (i * m) (concat (map f [0..<n])) = concat (map f [i..<n])"
proof -
  have "[0..<n] = [0..<i] @ [i..<n]" using assms(2) by (metis le_add_same_cancel1 upt_add_eq_append zero_le ordered_cancel_comm_monoid_diff_class.add_diff_inverse)
  moreover have "length (concat (map f [0..<i])) = i * m" by (rule length_concat_upt [OF assms(1)])
  ultimately show ?thesis by simp
qed

lemma piece_of_concat:
  assumes "\<And>i. length (f i) = m" "0 < m" "c div m < n" "k \<le> m - c mod m"
  shows "take k (drop c (concat (map f [0..<n]))) = take k (drop (c mod m) (f (c div m)))"
proof -
  have "drop c (concat (map f [0..<n])) = drop (c mod m) (drop (c div m * m) (concat (map f [0..<n])))"
    by (simp add: add.commute)
  also have "drop (c div m * m) (concat (map f [0..<n])) = f (c div m) @ concat (map f [Suc (c div m)..<n])"
    using drop_concat [of f m "c div m" n] assms(1,3) by (simp add: upt_conv_Cons)
  finally show ?thesis using assms by (simp add: less_imp_le)
qed

lemma put_at_put_at: "i + length x + length y \<le> length buf \<Longrightarrow> put_at (put_at buf i x) (i + length x) y = put_at buf i (x @ y)"
  by (simp add: put_at_def add_ac)

lemma length_file_block: "ext2_ok fs \<Longrightarrow> sound d \<Longrightarrow> length (file_block fs inode d i) = unat (block_size fs)"
  by (simp add: file_block_def read_block_ok)

lemma length_file_data: "ext2_ok fs \<Longrightarrow> sound d \<Longrightarrow> length (file_data fs inode d) = 12 * unat (block_size fs)"
  unfolding file_data_def by (intro length_concat_upt length_file_block)

lemma read_file_blocks_step:
  assumes "ext2_ok fs" "sound d" "unat (block_size fs) < 65536" "r < n" "unat (c div block_size fs) < EXT2_NDIR_BLOCKS"
  defines "k \<equiv> chunk (block_size fs) n r c"
  shows "read_file_blocks fs inode n r c buf d
    = read_file_blocks fs inode n (r + k) (c + k) (put_at buf (unat r) (take (unat k) (drop (unat c) (file_data fs inode d)))) d"
    and "unat k \<le> length (drop (unat c) (file_data fs inode d))"
proof -
  let ?bs = "unat (block_size fs)" and ?i = "unat c div unat (block_size fs)"
  note s = ext2_ok_sizes [OF assms(1)]
  note u = unat_chunk [OF assms(4) s(5), of c, folded k_def]
  have bs: "0 < ?bs" using s(5) by (simp add: unat_gt_0)
  have i: "?i < 12" using assms(5) by (simp add: unat_div)
  have kb: "unat k \<le> ?bs - unat c mod ?bs" using u(1) by simp
  note l = length_file_block [OF assms(1,2)]
  have p: "take (unat k) (drop (unat c) (file_data fs inode d)) = take (unat k) (drop (unat c mod ?bs) (file_block fs inode d ?i))"
    unfolding file_data_def by (rule piece_of_concat [OF l bs i kb])
  have z: "take (unat k) (drop (unat c mod ?bs) (replicate ?bs (0 :: u8))) = replicate (unat k) 0" using kb by simp
  have m: "unat k mod 65536 = unat k" using kb assms(3) by simp
  show "read_file_blocks fs inode n r c buf d
    = read_file_blocks fs inode n (r + k) (c + k) (put_at buf (unat r) (take (unat k) (drop (unat c) (file_data fs inode d)))) d"
    unfolding p
    by (subst read_file_blocks.simps)
       (use assms(4,5) s(5) z m read_block_ok [OF assms(1,2)] in \<open>simp add: Let_def k_def [symmetric] file_block_def unat_div unat_mod\<close>)
  have "?i * ?bs + unat c mod ?bs + unat k \<le> 12 * ?bs"
  proof -
    have "?i * ?bs + ?bs \<le> 12 * ?bs" using mult_le_mono1 [of "Suc ?i" 12 ?bs] i by (simp only: mult_Suc add.commute Suc_le_eq)
    then show ?thesis using kb mod_less_divisor [OF bs, of "unat c"] by linarith
  qed
  then show "unat k \<le> length (drop (unat c) (file_data fs inode d))"
    using div_mult_mod_eq [of "unat c" ?bs] length_file_data [OF assms(1,2)] by simp
qed

lemma read_file_blocks_ok:
  assumes "ext2_ok fs" "sound d" "unat (block_size fs) < 65536" "r \<le> n" "unat n \<le> length buf" "unat c + (unat n - unat r) < 2 ^ 32"
    and "x = take (unat n - unat r) (drop (unat c) (file_data fs inode d))"
  shows "read_file_blocks fs inode n r c buf d = Some (r + of_nat (length x), put_at buf (unat r) x)"
  using assms(4-)
proof (induction "unat n - unat r" arbitrary: r c buf x rule: less_induct)
  case less
  let ?F = "file_data fs inode d" and ?bs = "unat (block_size fs)"
  note s = ext2_ok_sizes [OF assms(1)]
  show ?case
  proof (cases "r < n")
    case False
    then have "unat n \<le> unat r" by (simp add: word_less_nat_alt)
    then show ?thesis using False less.prems(4) by (subst read_file_blocks.simps) (simp add: put_at_def)
  next
    case True
    show ?thesis
    proof (cases "unat (c div block_size fs) < EXT2_NDIR_BLOCKS")
      case False
      have "12 \<le> unat c div ?bs" using False by (simp add: unat_div)
      then have "12 * ?bs \<le> unat c div ?bs * ?bs" by (intro mult_le_mono1)
      then have "12 * ?bs \<le> unat c" using div_times_less_eq_dividend [of "unat c" ?bs] by linarith
      then have "x = []" using less.prems(4) length_file_data [OF assms(1,2)] by simp
      then show ?thesis using True False s(5) by (subst read_file_blocks.simps) (simp add: Let_def put_at_def)
    next
      case t: True
      define k where "k = chunk (block_size fs) n r c"
      define y where "y = take (unat k) (drop (unat c) ?F)"
      note u = unat_chunk [OF True s(5), of c, folded k_def]
      note st1 = read_file_blocks_step(1) [OF assms(1-3) True t, folded k_def, of inode buf, folded y_def]
      note st2 = read_file_blocks_step(2) [OF assms(1-3) True t, folded k_def, of inode]
      define z where "z = take (unat n - unat (r + k)) (drop (unat (c + k)) ?F)"
      have ck: "unat (c + k) = unat c + unat k" using less.prems(3) u(4) by (intro unat_plus_lt) simp
      have ly: "length y = unat k" using st2 by (simp add: y_def)
      have "unat n - unat r = unat k + (unat n - unat (r + k))" using u(3,4) by simp
      then have xyz: "x = y @ z"
        unfolding less.prems(4) y_def z_def ck by (simp only: take_add drop_drop add.commute)
      have "read_file_blocks fs inode n (r + k) (c + k) (put_at buf (unat r) y) d
          = Some (r + k + of_nat (length z), put_at (put_at buf (unat r) y) (unat (r + k)) z)"
      proof (rule less.hyps [OF _ _ _ _ z_def])
        show "unat n - unat (r + k) < unat n - unat r" using u(2-4) by simp
        show "r + k \<le> n" using u(3,4) by (simp add: word_le_nat_alt)
        show "unat n \<le> length (put_at buf (unat r) y)" using less.prems(2) u(4) ly by (simp add: length_put_at)
        show "unat (c + k) + (unat n - unat (r + k)) < 2 ^ 32" using less.prems(3) u(3,4) ck by simp
      qed
      moreover have "put_at (put_at buf (unat r) y) (unat (r + k)) z = put_at buf (unat r) (y @ z)"
        using put_at_put_at [of "unat r" y z buf] u(3,4) ly less.prems(2) by (simp add: z_def)
      moreover have "r + k + of_nat (length z) = r + of_nat (length (y @ z))" using ly by simp
      ultimately show ?thesis using st1 xyz by simp
    qed
  qed
qed

lemma ext2_read_file_ok:
  assumes "ext2_ok fs" "sound d" "unat (block_size fs) < 65536" "unat n \<le> length buf" "unat offset + unat n < 2 ^ 31"
    and "x = take (unat n) (drop (unat offset) (take (unat (i_size inode)) (file_data fs inode d)))"
  shows "ext2_read_file fs inode offset n buf d = Some (int (length x), put_at buf 0 x)"
proof (cases "offset \<ge> i_size inode")
  case True
  then have "x = []" using assms(6) by (simp add: word_le_nat_alt)
  then show ?thesis using True by (simp add: ext2_read_file_def put_at_def)
next
  case False
  define m where "m = (if offset + n > i_size inode then i_size inode - offset else n)"
  have o: "unat (offset + n) = unat offset + unat n" using assms(5) by (intro unat_plus_lt) simp
  have lt: "unat offset < unat (i_size inode)" using False by (simp add: word_le_nat_alt)
  have m: "unat m = min (unat n) (unat (i_size inode) - unat offset)"
    using False o by (auto simp: m_def word_less_nat_alt word_le_nat_alt unat_sub)
  have x: "x = take (unat m) (drop (unat offset) (file_data fs inode d))"
    unfolding assms(6) m by (simp add: drop_take)
  have l: "length x < 2147483648" using assms(5) m by (simp add: x)
  have "read_file_blocks fs inode m 0 offset buf d = Some (0 + of_nat (length x), put_at buf (unat (0 :: u32)) x)"
    using x assms(4,5) m by (intro read_file_blocks_ok [OF assms(1-3)]) simp_all
  moreover have "uint (of_nat (length x) :: u32) = int (length x)"
    using l unat_of_nat_lt [of "length x", where 'a = 32] by (simp add: uint_nat)
  ultimately show ?thesis using False l by (simp add: ext2_read_file_def Let_def m_def [symmetric])
qed

text \<open>
  C17. Files are read at any offset: on a disk that works, \<^verbatim>\<open>ext2_read_file\<close> ends, and the bytes that it
  stores at the start of the buffer are those of the file from the offset on, as many as asked for
  and there are up to the end of the file and of its direct blocks; missing blocks read as zeros.
\<close>

theorem ext2_read_file_correct:
  assumes "ext2_ok fs" "sound d" "unat (block_size fs) < 65536" "unat n \<le> length buf" "unat offset + unat n < 2 ^ 31"
    and "x = take (unat n) (drop (unat offset) (take (unat (i_size inode)) (file_data fs inode d)))"
  shows "ext2_read_file fs inode offset n buf d = Some (int (length x), put_at buf 0 x)"
  by (rule ext2_read_file_ok [OF assms])

end
