(* ===== verification/Ext2_Directory.thy ===== *)
theory Ext2_Directory
  imports Ext2_Correct
begin

text \<open>
  Directories of the ext2 file system: the layout of their entries, unused ones included, and which of
  them reading a directory gives back.
\<close>

subsection \<open>Layout\<close>

definition entry_bytes :: "ext2_dir_entry \<Rightarrow> u8 list" where
  "entry_bytes e = bytes32 (d_inode e) @ bytes16 (d_rec_len e) @ [of_nat (length (d_name e)), d_file_type e] @ d_name e"

text \<open>
  An entry of the format; its inode is 0 when it is unused. Names of 255 bytes are left out: there the
  terminator that \<^verbatim>\<open>ext2_read_dir\<close> writes is behind the array of the entry.
\<close>

definition entry_ok :: "nat \<Rightarrow> ext2_dir_entry \<Rightarrow> bool" where
  "entry_ok bsz e \<longleftrightarrow> 8 + length (d_name e) \<le> unat (d_rec_len e) \<and> unat (d_rec_len e) \<le> bsz
     \<and> length (d_name e) < EXT2_NAME_LEN"

text \<open>The bytes of a directory block with the entries: each takes as many bytes as its length says, and the last ends the block.\<close>

fun dir_bytes :: "nat \<Rightarrow> ext2_dir_entry list \<Rightarrow> u8 list \<Rightarrow> bool" where
  "dir_bytes bsz [] b \<longleftrightarrow> b = []"
| "dir_bytes bsz (e # es) b \<longleftrightarrow> entry_ok bsz e \<and> unat (d_rec_len e) \<le> length b
     \<and> take (8 + length (d_name e)) b = entry_bytes e \<and> dir_bytes bsz es (drop (unat (d_rec_len e)) b)"

text \<open>The entries of a block in front of the first unused one.\<close>

definition used_prefix :: "ext2_dir_entry list \<Rightarrow> ext2_dir_entry list" where
  "used_prefix es = takeWhile (\<lambda>e. d_inode e \<noteq> 0) es"

lemma used_prefix_simps [simp]: "used_prefix [] = []" "used_prefix (e # es) = (if d_inode e = 0 then [] else e # used_prefix es)"
  by (simp_all add: used_prefix_def)

lemma entry_fields:
  assumes "b = pre @ entry_bytes e @ rest" "length (d_name e) < 255"
  shows "get32 b (length pre) = d_inode e" "get16 b (length pre + 4) = d_rec_len e"
    and "unat (b ! (length pre + 6)) = length (d_name e)" "b ! (length pre + 7) = d_file_type e"
    and "take (length (d_name e)) (drop (length pre + 8) b) = d_name e"
proof -
  have n: "(pre @ xs) ! (length pre + k) = xs ! k" for xs :: "u8 list" and k by (simp add: nth_append)
  have n0: "(pre @ xs) ! length pre = xs ! 0" for xs :: "u8 list" by (simp add: nth_append)
  note b = assms(1) entry_bytes_def bytes32_def bytes16_def
  show "get32 b (length pre) = d_inode e" unfolding get32_def b n n0 by (simp add: word32_bytes)
  show "get16 b (length pre + 4) = d_rec_len e" unfolding get16_def b add.assoc n by (simp add: word16_bytes)
  show "unat (b ! (length pre + 6)) = length (d_name e)"
    unfolding b n using assms(2) by (simp add: unat_of_nat_lt)
  show "b ! (length pre + 7) = d_file_type e" unfolding b n by simp
  show "take (length (d_name e)) (drop (length pre + 8) b) = d_name e" by (simp add: b)
qed

lemma length_entry_bytes: "length (entry_bytes e) = 8 + length (d_name e)"
  by (simp add: entry_bytes_def bytes32_def bytes16_def)

lemma parse_dir_ok:
  assumes "dir_bytes bsz es b" "length (pre @ b) = bsz" "offset + length b \<le> dir_size" "length acc \<le> max_entries"
  shows "parse_dir bsz (pre @ b) (length pre) offset dir_size max_entries acc = Some (acc @ take (max_entries - length acc) (used_prefix es))"
  using assms
proof (induction es arbitrary: pre b offset acc)
  case Nil
  then show ?case by (subst parse_dir.simps) simp
next
  case (Cons e es)
  let ?rl = "unat (d_rec_len e)"
  have ok: "entry_ok bsz e" "?rl \<le> length b" "take (8 + length (d_name e)) b = entry_bytes e" "dir_bytes bsz es (drop ?rl b)"
    using Cons.prems(1) by simp_all
  have rl: "8 + length (d_name e) \<le> ?rl" "?rl \<le> bsz" "length (d_name e) < 255" using ok(1) by (simp_all add: entry_ok_def)
  have b: "pre @ b = pre @ entry_bytes e @ drop (8 + length (d_name e)) b" using ok(3) append_take_drop_id [of "8 + length (d_name e)" b] by simp
  note f = entry_fields [OF b rl(3)]
  have split: "pre @ b = (pre @ take ?rl b) @ drop ?rl b" by simp
  have lp: "length (pre @ take ?rl b) = length pre + ?rl" using ok(2) by simp
  have rl0: "d_rec_len e \<noteq> 0" "\<not> d_rec_len e < 8" using rl(1) by (auto simp: word_less_nat_alt)
  have e: "\<lparr>d_inode = d_inode e, d_rec_len = d_rec_len e, d_file_type = d_file_type e, d_name = d_name e\<rparr> = e" by simp
  have IH: "parse_dir bsz (pre @ b) (length pre + ?rl) (offset + ?rl) dir_size max_entries a = Some (a @ take (max_entries - length a) (used_prefix es))"
    if "length a \<le> max_entries" for a
    using Cons.IH [OF ok(4), of "pre @ take ?rl b" "offset + ?rl" a] Cons.prems(2,3) ok(2) that by (simp add: lp)
  have unused: "parse_dir bsz (pre @ b) (length pre) offset dir_size max_entries acc = Some acc" if "d_inode e = 0"
    using that f ok(2) rl(1) Cons.prems(2) by (subst parse_dir.simps) (simp add: Let_def)
  have step: "parse_dir bsz (pre @ b) (length pre) offset dir_size max_entries acc
      = (if length acc < max_entries then parse_dir bsz (pre @ b) (length pre + ?rl) (offset + ?rl) dir_size max_entries
           (acc @ [\<lparr>d_inode = d_inode e, d_rec_len = d_rec_len e, d_file_type = d_file_type e, d_name = d_name e\<rparr>])
         else parse_dir bsz (pre @ b) (length pre + ?rl) (offset + ?rl) dir_size max_entries acc)" if "d_inode e \<noteq> 0"
    using that Cons.prems(2,3) ok(2) rl rl0 f by (subst parse_dir.simps) (simp add: Let_def)
  show ?case
  proof (cases "d_inode e = 0")
    case True
    then show ?thesis using unused by simp
  next
    case used: False
    show ?thesis
    proof (cases "length acc < max_entries")
      case True
      then have "max_entries - length acc = Suc (max_entries - length (acc @ [e]))" by simp
      then show ?thesis using step [OF used, unfolded e] IH [of "acc @ [e]"] True used by simp
    next
      case False
      then show ?thesis using step [OF used] IH [of acc] Cons.prems(4) by simp
    qed
  qed
qed

subsection \<open>Reading a directory\<close>

text \<open>An inode is that of a directory whose blocks hold the lists of entries.\<close>

definition holds_entries :: "ext2_fs \<Rightarrow> ext2_inode \<Rightarrow> disk \<Rightarrow> ext2_dir_entry list list \<Rightarrow> bool" where
  "holds_entries fs inode d ess \<longleftrightarrow> i_mode inode AND EXT2_S_IFDIR = EXT2_S_IFDIR
     \<and> length ess \<le> EXT2_NDIR_BLOCKS \<and> unat (i_size inode) = length ess * unat (block_size fs)
     \<and> (\<forall>i < length ess. i_block inode i \<noteq> 0 \<and> dir_bytes (unat (block_size fs)) (ess ! i) (block_data fs d (i_block inode i)))"

lemma read_dir_blocks_ok:
  assumes "ext2_ok fs" "sound d" "holds_entries fs inode d ess" "i \<le> length ess" "length acc \<le> max_entries"
  shows "read_dir_blocks [i..<EXT2_NDIR_BLOCKS] fs inode max_entries acc d
    = Some (Some (acc @ take (max_entries - length acc) (concat (map used_prefix (drop i ess)))))"
  using assms(4,5)
proof (induction "length ess - i" arbitrary: i acc)
  case 0
  note h = assms(3) [unfolded holds_entries_def]
  have i: "i = length ess" using 0 by simp
  show ?case
  proof (cases "i < EXT2_NDIR_BLOCKS")
    case True
    then show ?thesis using h i by (simp add: upt_conv_Cons del: upt.simps)
  next
    case False
    then show ?thesis using i by simp
  qed
next
  case (Suc k)
  note h = assms(3) [unfolded holds_entries_def]
  let ?bs = "unat (block_size fs)" and ?b = "block_data fs d (i_block inode i)"
  have i: "i < length ess" "i < EXT2_NDIR_BLOCKS" using Suc(2) h by linarith+
  have rd: "ext2_read_block fs (i_block inode i) d = Some ?b" "length ?b = ?bs" using read_block_ok [OF assms(1,2)] by auto
  have bs: "0 < ?bs" using ext2_ok_sizes(5) [OF assms(1)] by (simp add: unat_gt_0)
  have lt: "i * ?bs < unat (i_size inode)" "i * ?bs + ?bs \<le> unat (i_size inode)"
    using h i(1) bs mult_le_mono1 [of "Suc i" "length ess" ?bs] by simp_all
  have dr: "drop i ess = ess ! i # drop (Suc i) ess" using i(1) by (simp add: Cons_nth_drop_Suc)
  let ?acc = "acc @ take (max_entries - length acc) (used_prefix (ess ! i))"
  have p: "parse_dir ?bs ?b 0 (i * ?bs) (unat (i_size inode)) max_entries acc = Some ?acc"
    using parse_dir_ok [of ?bs "ess ! i" ?b "[]" "i * ?bs" "unat (i_size inode)" acc max_entries] h i rd(2) lt Suc(4) by simp
  show ?case
  proof (cases "length acc < max_entries")
    case True
    have "read_dir_blocks [Suc i..<EXT2_NDIR_BLOCKS] fs inode max_entries ?acc d
        = Some (Some (?acc @ take (max_entries - length ?acc) (concat (map used_prefix (drop (Suc i) ess)))))"
      using Suc(1) [of "Suc i" ?acc] Suc(2) i True by simp
    then show ?thesis using True i h rd(1) lt(1) p dr by (simp add: upt_conv_Cons Let_def min_def)
  next
    case False
    then show ?thesis using i by (simp add: upt_conv_Cons Let_def)
  qed
qed

lemma ext2_read_dir_ok:
  assumes "ext2_ok fs" "sound d" "ext2_read_inode fs n d = Some (Some inode)" "holds_entries fs inode d ess"
  shows "ext2_read_dir fs n m d = Some (Some (take m (concat (map used_prefix ess))))"
  using read_dir_blocks_ok [OF assms(1,2,4), of 0 "[]" m] assms(3,4) by (simp add: ext2_read_dir_def holds_entries_def)

lemma ext2_find_entry_ok:
  assumes "ext2_ok fs" "sound d" "ext2_read_inode fs n d = Some (Some inode)" "holds_entries fs inode d ess"
  shows "ext2_find_entry fs n name d = Some (find (\<lambda>e. d_name e = name) (take 64 (concat (map used_prefix ess))))"
  using ext2_read_dir_ok [OF assms] by (simp add: ext2_find_entry_def)

text \<open>
  An unused entry, as the removal of the first file of a block leaves one, hides the entries behind it
  in its block: they are not listed, and a file that only they name is not found.
\<close>

lemma unused_entry_hides:
  assumes "ext2_ok fs" "sound d" "ext2_read_inode fs n d = Some (Some inode)"
    and "holds_entries fs inode d [e # es]" "d_inode e = 0"
  shows "ext2_read_dir fs n m d = Some (Some [])" "ext2_find_entry fs n name d = Some None"
  using ext2_read_dir_ok [OF assms(1-4)] ext2_find_entry_ok [OF assms(1-4)] assms(5) by simp_all

text \<open>
  C18. Directories are read block by block up to the first unused entry: when the blocks of a
  directory hold entries in the format of ext2, used or unused, \<^verbatim>\<open>ext2_read_dir\<close> ends and returns, of
  each block, the entries in front of its first unused one in order, as many as there is room for, and
  \<^verbatim>\<open>ext2_find_entry\<close> returns the first of the first 64 of them with the name that is looked for, or
  reports that there is none. A directory without unused entries is read completely; the entries
  behind an unused one are lost, as \<open>unused_entry_hides\<close> shows.
\<close>

theorem ext2_read_dir_correct:
  assumes "ext2_ok fs" "sound d" "ext2_read_inode fs n d = Some (Some inode)" "holds_entries fs inode d ess"
  shows "ext2_read_dir fs n max_entries d = Some (Some (take max_entries (concat (map used_prefix ess))))
    \<and> ext2_find_entry fs n name d = Some (find (\<lambda>e. d_name e = name) (take 64 (concat (map used_prefix ess))))"
  using ext2_read_dir_ok [OF assms] ext2_find_entry_ok [OF assms] by blast

subsection \<open>A volume\<close>

text \<open>
  A volume with blocks of 1024 bytes and one group, whose inode table starts at block 5; the root
  directory is block 10 and has the entries \<^verbatim>\<open>.\<close> and \<^verbatim>\<open>a\<close>; the file \<^verbatim>\<open>a\<close> is inode 12, has 2000 bytes, the
  block 11 and no second block.
\<close>

definition pad_to :: "nat \<Rightarrow> u8 list \<Rightarrow> u8 list" where
  "pad_to n b = b @ replicate (n - length b) 0"

definition sample_inode :: "u16 \<Rightarrow> u32 \<Rightarrow> u32 \<Rightarrow> u8 list" where
  "sample_inode mode sz block = bytes16 mode @ [0, 0] @ bytes32 sz @ replicate 32 0 @ bytes32 block @ replicate 84 0"

definition sample_entries :: "ext2_dir_entry list" where
  "sample_entries = [\<lparr>d_inode = 2, d_rec_len = 12, d_file_type = 2, d_name = lit ''.''\<rparr>,
     \<lparr>d_inode = 12, d_rec_len = 1012, d_file_type = 1, d_name = lit ''a''\<rparr>]"

definition ext2_disk :: disk where
  "ext2_disk = \<lparr>sectors = (\<lambda>l.
       if l = 2 then pad_to 512 (bytes32 16 @ bytes32 100 @ replicate 12 0 @ bytes32 1 @ bytes32 0 @ replicate 4 0 @ bytes32 8192
                       @ replicate 4 0 @ bytes32 16 @ replicate 12 0 @ bytes16 0xEF53 @ replicate 30 0 @ bytes16 128)
       else if l = 4 then pad_to 512 (replicate 8 0 @ bytes32 5)
       else if l = 10 then pad_to 512 (replicate 128 0 @ sample_inode 0x41ED 1024 10)
       else if l = 12 then pad_to 512 (replicate 384 0 @ sample_inode 0x81A4 2000 11)
       else if l = 20 then pad_to 512 (entry_bytes (sample_entries ! 0) @ replicate 3 0 @ entry_bytes (sample_entries ! 1))
       else replicate 512 (ucast l)),
     read_error = (\<lambda>_. False), write_error = (\<lambda>_. False), dropped = (\<lambda>_. False)\<rparr>"

definition ext2_volume :: ext2_fs where
  "ext2_volume = the (the (ext2_init True True ext2_disk))"

lemma ext2_disk_sound: "sound ext2_disk"
  by (simp add: sound_def healthy_def formatted_def ext2_disk_def pad_to_def sample_inode_def bytes32_def bytes16_def
      entry_bytes_def sample_entries_def lit_def)

lemma ext2_volume_init: "ext2_init True True ext2_disk = Some (Some ext2_volume)"
  by code_simp

lemma ext2_volume_sizes: "block_size ext2_volume = 1024" "num_block_groups ext2_volume = 1" "unat (s_inodes_per_group (superblock ext2_volume)) = 16"
    "unat (inode_size (superblock ext2_volume)) = 128" "length (group_desc_table ext2_volume) = 1024" "table_block ext2_volume 0 = 5"
  by code_simp+

lemma ext2_volume_inodes: "ext2_read_inode ext2_volume 2 ext2_disk = Some (Some (sample_inode 0x41ED 1024 10))"
    "ext2_read_inode ext2_volume 12 ext2_disk = Some (Some (sample_inode 0x81A4 2000 11))"
  by code_simp+

lemma ext2_volume_root: "dir_bytes 1024 sample_entries (block_data ext2_volume ext2_disk 10)"
  by code_simp

lemma sample_inode_fields:
  "i_mode (sample_inode 0x41ED 1024 10) AND EXT2_S_IFDIR = EXT2_S_IFDIR" "unat (i_size (sample_inode 0x41ED 1024 10)) = 1024"
  "i_block (sample_inode 0x41ED 1024 10) 0 = 10" "unat (i_size (sample_inode 0x81A4 2000 11)) = 2000"
  by code_simp+

lemma ext2_volume_ok: "ext2_ok ext2_volume" "tables_ok ext2_volume" "inode_exists ext2_volume 12" "inode_exists ext2_volume 2"
proof -
  note v = ext2_volume_sizes
  show ok: "ext2_ok ext2_volume" unfolding ext2_ok_def v by (intro exI [of _ 0]) simp
  have "s_inodes_per_group (superblock ext2_volume) \<noteq> 0" using v(3) by auto
  then show "tables_ok ext2_volume"
    using ok v by (simp add: tables_ok_def table_bytes_def table_blocks_def sectors_per_block_def)
  show "inode_exists ext2_volume 12" "inode_exists ext2_volume 2" by (simp_all add: inode_exists_def v)
qed

theorem ext2_init_valid_witness:
  "ext2_init True True ext2_disk = Some (Some ext2_volume) \<and> ext2_ok ext2_volume \<and> s_magic (superblock ext2_volume) = EXT2_SIGNATURE"
  using ext2_init_valid [OF ext2_volume_init] ext2_disk_sound ext2_volume_init by (simp add: sound_def ext2_volume_sizes)

theorem ext2_write_inode_correct_witness:
  "\<exists>d. ext2_write_inode ext2_volume 12 (sample_inode 0x81A4 5 11) ext2_disk = Some (d, True)
     \<and> ext2_read_inode ext2_volume 12 d = Some (Some (sample_inode 0x81A4 5 11))
     \<and> ext2_read_inode ext2_volume 2 d = Some (Some (sample_inode 0x41ED 1024 10))"
proof -
  have "length (sample_inode 0x81A4 5 11) = 128" by (simp add: sample_inode_def bytes16_def bytes32_def)
  from ext2_write_inode_correct [OF ext2_volume_ok(2) ext2_disk_sound ext2_volume_ok(3) this]
  show ?thesis using ext2_volume_ok(4) ext2_volume_inodes by auto
qed

lemma ext2_volume_holds: "holds_entries ext2_volume (sample_inode 0x41ED 1024 10) ext2_disk [sample_entries]"
  by (simp add: holds_entries_def sample_inode_fields ext2_volume_sizes ext2_volume_root)

lemma ext2_volume_find: "ext2_find_entry ext2_volume 2 (lit ''a'') ext2_disk = Some (Some (sample_entries ! 1))"
  by (simp add: ext2_find_entry_ok [OF ext2_volume_ok(1) ext2_disk_sound ext2_volume_inodes(1) ext2_volume_holds] sample_entries_def lit_def)

lemma sample_file_bytes:
  "take (unat (8 :: u32)) (drop (unat (1020 :: u32)) (take (unat (i_size (sample_inode 0x81A4 2000 11)))
     (file_data ext2_volume (sample_inode 0x81A4 2000 11) ext2_disk))) = replicate 4 23 @ replicate 4 0"
proof -
  let ?i = "sample_inode 0x81A4 2000 11" and ?rest = "concat (map (file_block ext2_volume (sample_inode 0x81A4 2000 11) ext2_disk) [2..<12])"
  have "i_block ?i 0 = 11" "i_block ?i 1 = 0" "block_data ext2_volume ext2_disk 11 = replicate 512 22 @ replicate 512 23" by code_simp+
  moreover have "[0..<12] = 0 # 1 # [2..<12]" by (simp add: upt_rec)
  ultimately have "file_data ext2_volume ?i ext2_disk = replicate 512 22 @ replicate 512 23 @ replicate 1024 0 @ ?rest"
    by (simp add: file_data_def file_block_def ext2_volume_sizes)
  then show ?thesis by (simp add: drop_take sample_inode_fields)
qed

theorem ext2_read_dir_correct_witness:
  "ext2_find_entry ext2_volume 2 (lit ''a'') ext2_disk = Some (Some (sample_entries ! 1))"
  using ext2_read_dir_correct [OF ext2_volume_ok(1) ext2_disk_sound ext2_volume_inodes(1) ext2_volume_holds, of 64 "lit ''a''"]
  by (simp add: sample_entries_def lit_def)

theorem ext2_read_file_correct_witness:
  "ext2_read_file ext2_volume (sample_inode 0x81A4 2000 11) 1020 8 (replicate 8 1) ext2_disk = Some (8, replicate 4 23 @ replicate 4 0)"
  using ext2_read_file_correct [OF ext2_volume_ok(1) ext2_disk_sound _ _ _ sample_file_bytes [symmetric], of "replicate 8 1"]
  by (simp add: ext2_volume_sizes put_at_def)

end
