(* ===== verification/Ext2_Vfs.thy ===== *)
theory Ext2_Vfs
  imports Ext2_Directory Vfs_Correct
begin

text \<open>
  The adapter of ext2 to the virtual file system (\<^verbatim>\<open>fs/ext2/ext2_vfs_adapter.c\<close>). The data of a mount is
  the file system structure that \<^verbatim>\<open>ext2_init\<close> filled; nodes have no data of their own. The world is the
  drives and the outcome \<open>room\<close> of the allocations of a call.
\<close>

subsection \<open>The world\<close>

record ext2_world =
  disks :: "nat \<Rightarrow> disk"
  room :: "nat \<Rightarrow> bool"

type_synonym ext2_mount = "ext2_fs vfs_filesystem"
type_synonym ext2_node = "(ext2_fs, unit) vfs_node"

subsection \<open>Operations\<close>

text \<open>A name as a string of C ends at its first NUL.\<close>

definition c_name :: "u8 list \<Rightarrow> cstring" where
  "c_name b = takeWhile (\<lambda>c. c \<noteq> 0) b"

text \<open>The fields that are not set keep the values of the caller's structure.\<close>

definition ext2_entry_to_vfs_entry :: "ext2_dir_entry \<Rightarrow> vfs_dir_entry \<Rightarrow> vfs_dir_entry" where
  "ext2_entry_to_vfs_entry e entry = entry\<lparr>e_inode := d_inode e, e_name := c_name (d_name e),
     e_type := (if d_file_type e = 1 then VFS_FILE else if d_file_type e = 2 then VFS_DIRECTORY
                else if d_file_type e = 7 then VFS_SYMLINK else VFS_FILE), e_size := 0\<rparr>"

definition ext2_vfs_mount :: "ext2_mount \<Rightarrow> ext2_world \<Rightarrow> (ext2_world \<times> int \<times> ext2_mount) option" where
  "ext2_vfs_mount fs w =
     (if \<not> room w 0 then Some (w, VFS_ERR_NO_MEMORY, fs)
      else do {
        r \<leftarrow> ext2_init (room w 1) (room w 2) (disks w (fs_drive fs));
        case r of
          None \<Rightarrow> Some (w, VFS_ERR_IO, fs)
        | Some e \<Rightarrow> Some (w, VFS_OK, fs\<lparr>fs_data := Some e\<rparr>) })"

definition ext2_vfs_unmount :: "ext2_mount \<Rightarrow> ext2_world \<Rightarrow> (ext2_world \<times> int) option" where
  "ext2_vfs_unmount fs w = Some (w, if fs_data fs = None then VFS_ERR_INVALID else VFS_OK)"

definition inode_type :: "ext2_inode \<Rightarrow> vfs_node_type" where
  "inode_type inode =
     (if i_mode inode AND EXT2_S_IFDIR = EXT2_S_IFDIR then VFS_DIRECTORY
      else if i_mode inode AND EXT2_S_IFREG = EXT2_S_IFREG then VFS_FILE
      else if i_mode inode AND EXT2_S_IFLNK = EXT2_S_IFLNK then VFS_SYMLINK
      else VFS_FILE)"

text \<open>The inode of the entry with a name, as opening and \<^verbatim>\<open>stat\<close> find it; an error code otherwise.\<close>

definition lookup_inode :: "ext2_fs \<Rightarrow> cstring \<Rightarrow> disk \<Rightarrow> (int + ext2_dir_entry \<times> ext2_inode) option" where
  "lookup_inode e name d = do {
     r \<leftarrow> ext2_find_entry e EXT2_ROOT_INO name d;
     case r of
       None \<Rightarrow> Some (Inl VFS_ERR_NOT_FOUND)
     | Some entry \<Rightarrow> do {
         i \<leftarrow> ext2_read_inode e (d_inode entry) d;
         case i of None \<Rightarrow> Some (Inl VFS_ERR_IO) | Some inode \<Rightarrow> Some (Inr (entry, inode)) } }"

definition ext2_vfs_open :: "ext2_mount \<Rightarrow> cstring \<Rightarrow> ext2_world \<Rightarrow> (ext2_world \<times> int \<times> ext2_node option) option" where
  "ext2_vfs_open fs path w =
     (case fs_data fs of
        None \<Rightarrow> Some (w, VFS_ERR_INVALID, None)
      | Some e \<Rightarrow>
          if path = [47]
          then if \<not> room w 0 then Some (w, VFS_ERR_NO_MEMORY, None)
               else Some (w, VFS_OK, Some \<lparr>n_name = [47], n_type = VFS_DIRECTORY, n_inode = EXT2_ROOT_INO, n_size = 0, n_flags = 0,
                                           n_fs = fs, n_specific = ()\<rparr>)
          else do {
            r \<leftarrow> lookup_inode e (if path \<noteq> [] \<and> hd path = 47 then tl path else path) (disks w (fs_drive fs));
            case r of
              Inl err \<Rightarrow> Some (w, err, None)
            | Inr (entry, inode) \<Rightarrow>
                if \<not> room w 0 then Some (w, VFS_ERR_NO_MEMORY, None)
                else Some (w, VFS_OK, Some \<lparr>n_name = c_name (d_name entry), n_type = inode_type inode, n_inode = d_inode entry,
                                            n_size = i_size inode, n_flags = 0, n_fs = fs, n_specific = ()\<rparr>) })"

definition ext2_vfs_close :: "ext2_node \<Rightarrow> ext2_world \<Rightarrow> (ext2_world \<times> int) option" where
  "ext2_vfs_close node w = Some (w, VFS_OK)"

text \<open>\<open>old\<close> is what the buffer of the caller holds.\<close>

definition ext2_vfs_read :: "(nat \<Rightarrow> u8) \<Rightarrow> ext2_node \<Rightarrow> u32 \<Rightarrow> u32 \<Rightarrow> ext2_world \<Rightarrow> (ext2_world \<times> int \<times> u8 list) option" where
  "ext2_vfs_read old node offset n w =
     (case fs_data (n_fs node) of
        None \<Rightarrow> Some (w, VFS_ERR_INVALID, [])
      | Some e \<Rightarrow> do {
          let d = disks w (fs_drive (n_fs node));
          i \<leftarrow> ext2_read_inode e (n_inode node) d;
          case i of
            None \<Rightarrow> Some (w, VFS_ERR_IO, [])
          | Some inode \<Rightarrow> do {
              (result, buf) \<leftarrow> ext2_read_file e inode offset n (map old [0..<unat n]) d;
              if result < 0 then Some (w, VFS_ERR_IO, buf) else Some (w, result, take (nat result) buf) } })"

definition ext2_vfs_write :: "ext2_node \<Rightarrow> u32 \<Rightarrow> u8 list \<Rightarrow> ext2_world \<Rightarrow> (ext2_world \<times> int) option" where
  "ext2_vfs_write node offset buf w = Some (w, VFS_ERR_UNSUPPORTED)"

definition ext2_vfs_readdir ::
  "vfs_dir_entry \<Rightarrow> ext2_node \<Rightarrow> u32 \<Rightarrow> ext2_world \<Rightarrow> (ext2_world \<times> int \<times> vfs_dir_entry option) option" where
  "ext2_vfs_readdir entry node index w =
     (case fs_data (n_fs node) of
        None \<Rightarrow> Some (w, VFS_ERR_INVALID, None)
      | Some e \<Rightarrow>
          if n_type node \<noteq> VFS_DIRECTORY then Some (w, VFS_ERR_NOT_DIR, None)
          else do {
            let d = disks w (fs_drive (n_fs node));
            r \<leftarrow> ext2_read_dir e (n_inode node) 64 d;
            case r of
              None \<Rightarrow> Some (w, VFS_ERR_IO, None)
            | Some es \<Rightarrow>
                let es = filter (\<lambda>x. d_inode x \<noteq> 0) es
                in if unat index \<ge> length es then Some (w, VFS_ERR_NOT_FOUND, None)
                   else do {
                     let x = es ! unat index;
                     let entry = ext2_entry_to_vfs_entry x entry;
                     i \<leftarrow> ext2_read_inode e (d_inode x) d;
                     Some (w, VFS_OK, Some (case i of None \<Rightarrow> entry | Some inode \<Rightarrow> entry\<lparr>e_size := i_size inode\<rparr>)) } })"

definition ext2_vfs_unsupported :: "ext2_mount \<Rightarrow> cstring \<Rightarrow> ext2_world \<Rightarrow> (ext2_world \<times> int) option" where
  "ext2_vfs_unsupported fs path w = Some (w, VFS_ERR_UNSUPPORTED)"

definition ext2_vfs_stat ::
  "ext2_mount \<Rightarrow> vfs_dir_entry \<Rightarrow> cstring \<Rightarrow> ext2_world \<Rightarrow> (ext2_world \<times> int \<times> vfs_dir_entry) option" where
  "ext2_vfs_stat fs stat path w =
     (case fs_data fs of
        None \<Rightarrow> Some (w, VFS_ERR_INVALID, stat)
      | Some e \<Rightarrow> do {
          let name = (if path \<noteq> [] \<and> hd path = 47 then tl path else path);
          if name = []
          then Some (w, VFS_OK, stat\<lparr>e_name := [47], e_inode := EXT2_ROOT_INO, e_type := VFS_DIRECTORY, e_size := 0\<rparr>)
          else do {
            r \<leftarrow> lookup_inode e name (disks w (fs_drive fs));
            case r of
              Inl err \<Rightarrow> Some (w, err, stat)
            | Inr (entry, inode) \<Rightarrow>
                Some (w, VFS_OK, stat\<lparr>e_name := c_name (d_name entry), e_inode := d_inode entry, e_size := i_size inode,
                  e_type := (if i_mode inode AND EXT2_S_IFDIR = EXT2_S_IFDIR then VFS_DIRECTORY else VFS_FILE)\<rparr>) } })"

definition ext2_vfs_ops :: "(nat \<Rightarrow> u8) \<Rightarrow> vfs_dir_entry \<Rightarrow> (ext2_world, ext2_fs, unit) vfs_ops" where
  "ext2_vfs_ops old entry = \<lparr>op_mount = ext2_vfs_mount, op_unmount = Some ext2_vfs_unmount, op_open = Some ext2_vfs_open,
     op_close = Some ext2_vfs_close, op_read = Some (ext2_vfs_read old), op_write = Some ext2_vfs_write,
     op_readdir = Some (ext2_vfs_readdir entry), op_mkdir = Some ext2_vfs_unsupported, op_rmdir = Some ext2_vfs_unsupported,
     op_create = Some ext2_vfs_unsupported, op_delete = Some ext2_vfs_unsupported, op_stat = Some ext2_vfs_stat\<rparr>"

definition ext2_register_vfs ::
  "(nat \<Rightarrow> u8) \<Rightarrow> vfs_dir_entry \<Rightarrow> (ext2_world, ext2_fs, unit) vfs \<Rightarrow> (ext2_world, ext2_fs, unit) vfs \<times> bool" where
  "ext2_register_vfs old entry s =
     (let (s, r) = vfs_register_filesystem (Some (lit ''ext2'')) (Some (ext2_vfs_ops old entry)) s in (s, r = VFS_OK))"

subsection \<open>The promise\<close>

interpretation ext2_files: file_system "ext2_vfs_ops old entry" for old entry
  by unfold_locales
    (auto simp: ext2_vfs_ops_def ext2_vfs_mount_def Option.bind_eq_Some_conv split: if_splits option.splits)

subsection \<open>Files through the virtual file system\<close>

text \<open>
  C19. A file is read at any offset through the virtual file system: when a path resolves to an ext2
  mount on a drive that works and the root directory there lists its last component, \<^verbatim>\<open>vfs_open\<close>
  yields a node with the size of the file, and \<^verbatim>\<open>vfs_read\<close> on it returns the bytes of the file from
  the offset on.
\<close>

theorem vfs_read_ext2_file:
  assumes "vfs_run s" "vfs_get_filesystem path s = Some m" "m_ops m = ext2_vfs_ops old entry" "fs_data (m_fs m) = Some e"
    and "d = disks (world s) (fs_drive (m_fs m))" "room (world s) 0" "ext2_ok e" "sound d" "unat (block_size e) < 65536"
    and "rel = vfs_get_relative_path path (m_fs m) s" "rel \<noteq> [47]"
    and "ext2_find_entry e EXT2_ROOT_INO (file_name rel) d = Some (Some x)" "ext2_read_inode e (d_inode x) d = Some (Some inode)"
    and "unat offset + unat n < 2 ^ 31"
    and "bytes = take (unat n) (drop (unat offset) (take (unat (i_size inode)) (file_data e inode d)))"
  shows "\<exists>s1 node. vfs_open (Some path) s = Some (s1, VFS_OK, Some node) \<and> n_size node = i_size inode
    \<and> vfs_read (Some node) offset n True s1 = Some (s1, int (length bytes), bytes)"
proof -
  let ?node = "\<lparr>n_name = c_name (d_name x), n_type = inode_type inode, n_inode = d_inode x, n_size = i_size inode, n_flags = 0,
      n_fs = m_fs m, n_specific = ()\<rparr>"
  have "ext2_vfs_open (m_fs m) rel (world s) = Some (world s, VFS_OK, Some ?node)"
    using assms(4,6,11-13) assms(5) [symmetric] by (simp add: ext2_vfs_open_def lookup_inode_def file_name_def)
  then have o: "vfs_open (Some path) s = Some (s\<lparr>world := world s\<rparr>, VFS_OK, Some ?node)"
    using assms(2,3,10) by (intro vfs_open_forward [where f = ext2_vfs_open]) (simp_all add: ext2_vfs_ops_def)
  have l: "length bytes \<le> unat n" using assms(15) by simp
  have f: "ext2_read_file e inode offset n (map old [0..<unat n]) d = Some (int (length bytes), put_at (map old [0..<unat n]) 0 bytes)"
    by (rule ext2_read_file_ok [OF assms(7-9) _ assms(14,15)]) simp
  have "take (length bytes) (put_at (map old [0..<unat n]) 0 bytes) = bytes" by (simp add: put_at_def)
  then have "ext2_vfs_read old ?node offset n (world s) = Some (world s, int (length bytes), bytes)"
    using f assms(4,13) assms(5) [symmetric] by (simp add: ext2_vfs_read_def Let_def)
  then have "vfs_read (Some ?node) offset n True (s\<lparr>world := world s\<rparr>) = Some (s\<lparr>world := world s\<rparr>, int (length bytes), bytes)"
    by (intro vfs_read_forward [where f = "ext2_vfs_read old", OF assms(1,2)]) (simp_all add: assms(3) ext2_vfs_ops_def)
  then show ?thesis using o by auto
qed

text \<open>The volume with the file \<^verbatim>\<open>a\<close>, mounted at the root.\<close>

definition ext2_world0 :: ext2_world where
  "ext2_world0 = \<lparr>disks = (\<lambda>_. ext2_disk), room = (\<lambda>_. True)\<rparr>"

definition ext2_vfs0 :: "vfs_dir_entry \<Rightarrow> (ext2_world, ext2_fs, unit) vfs" where
  "ext2_vfs0 entry = fst (ext2_register_vfs (\<lambda>_. 0) entry (vfs_init
     \<lparr>registered_filesystems = replicate 10 None, fs_count = 0, mount_list = [], next_fs = 0, mallocs = [], world = ext2_world0\<rparr>))"

lemma ext2_vfs0_run: "vfs_run (ext2_vfs0 entry)"
proof -
  have "ext2_vfs0 entry = fst (vfs_register_filesystem (Some (lit ''ext2'')) (Some (ext2_vfs_ops (\<lambda>_. 0) entry)) (vfs_init
     \<lparr>registered_filesystems = replicate 10 None, fs_count = 0, mount_list = [], next_fs = 0, mallocs = [], world = ext2_world0\<rparr>))"
    by (simp add: ext2_vfs0_def ext2_register_vfs_def split: prod.splits)
  then show ?thesis
    by (simp only:) (intro vfs_run.register vfs_run.start; auto intro: ext2_files.file_system_axioms)
qed

lemma ext2_vfs0_mount:
  "\<exists>s m. vfs_mount (Some 0) (Some (lit ''ext2'')) (Some (lit ''/'')) (ext2_vfs0 entry) = Some (s, VFS_OK) \<and> world s = ext2_world0
     \<and> mount_list s = [m] \<and> m_path m = lit ''/'' \<and> m_ops m = ext2_vfs_ops (\<lambda>_. 0) entry \<and> fs_data (m_fs m) = Some ext2_volume"
proof -
  have f: "find_registered (lit ''ext2'') (ext2_vfs0 entry) = Some (ext2_vfs_ops (\<lambda>_. 0) entry)"
    by (simp add: find_registered_def ext2_vfs0_def ext2_register_vfs_def vfs_register_filesystem_def vfs_init_def upt_rec numeral_eq_Suc)
       (simp add: lit_def)
  have v: "mallocs (ext2_vfs0 entry) = []" "mount_list (ext2_vfs0 entry) = []" "world (ext2_vfs0 entry) = ext2_world0"
    by (simp_all add: ext2_vfs0_def ext2_register_vfs_def vfs_register_filesystem_def vfs_init_def find_registered_def split: option.splits)
  have "ext2_vfs_mount fs ext2_world0 = Some (ext2_world0, VFS_OK, fs\<lparr>fs_data := Some ext2_volume\<rparr>)" for fs
    by (simp add: ext2_vfs_mount_def ext2_world0_def ext2_volume_init)
  then show ?thesis using f v by (auto simp: vfs_mount_def take_malloc_def ext2_vfs_ops_def lit_def)
qed

theorem vfs_read_ext2_file_witness:
  "\<exists>(s :: (ext2_world, ext2_fs, unit) vfs) s1 node. vfs_run s \<and> vfs_open (Some (lit ''/a'')) s = Some (s1, VFS_OK, Some node)
     \<and> vfs_read (Some node) 1020 8 True s1 = Some (s1, 8, replicate 4 23 @ replicate 4 0)"
proof -
  define entry where "entry = \<lparr>e_name = [], e_type = VFS_FILE, e_size = 0, e_inode = 0, e_create_time = 0, e_modify_time = 0,
    e_access_time = 0, e_attributes = 0\<rparr>"
  obtain s m where s: "vfs_mount (Some 0) (Some (lit ''ext2'')) (Some (lit ''/'')) (ext2_vfs0 entry) = Some (s, VFS_OK)" "world s = ext2_world0"
      "mount_list s = [m]" "m_path m = lit ''/''" "m_ops m = ext2_vfs_ops (\<lambda>_. 0) entry" "fs_data (m_fs m) = Some ext2_volume"
    using ext2_vfs0_mount by blast
  have run: "vfs_run s" by (rule vfs_run.mount [OF ext2_vfs0_run s(1)])
  have get: "vfs_get_filesystem (lit ''/a'') s = Some m" using s(3,4) by (simp add: vfs_get_filesystem_def) (simp add: lit_def)
  have rel: "vfs_get_relative_path (lit ''/a'') (m_fs m) s = lit ''a''"
    using s(3,4) by (simp add: vfs_get_relative_path_def Let_def) (simp add: lit_def)
  have w: "disks (world s) (fs_drive (m_fs m)) = ext2_disk" "room (world s) 0" using s(2) by (simp_all add: ext2_world0_def)
  have fn: "lit ''a'' \<noteq> [47]" "file_name (lit ''a'') = lit ''a''" by (simp_all add: lit_def file_name_def)
  have x: "ext2_find_entry ext2_volume EXT2_ROOT_INO (file_name (lit ''a'')) ext2_disk = Some (Some (sample_entries ! 1))"
    using fn ext2_volume_find by simp
  have i: "ext2_read_inode ext2_volume (d_inode (sample_entries ! 1)) ext2_disk = Some (Some (sample_inode 0x81A4 2000 11))"
    using ext2_volume_inodes(2) by (simp add: sample_entries_def)
  have b: "unat (block_size ext2_volume) < 65536" "unat (1020 :: u32) + unat (8 :: u32) < 2 ^ 31" by (simp_all add: ext2_volume_sizes)
  show ?thesis
    using vfs_read_ext2_file [OF run get s(5,6) w(1) [symmetric] w(2) ext2_volume_ok(1) ext2_disk_sound b(1) rel [symmetric] fn(1) x i b(2)
        sample_file_bytes [symmetric]] run by auto
qed

end
