(* ===== verification/Ports.thy ===== *)
theory Ports
  imports Prelude "HOL-Library.State_Monad"
begin

text \<open>
  The ports of the processor (\<^verbatim>\<open>drivers/char/io.h\<close>). What is behind a port is hardware: it is a parameter,
  the table \<open>'d bus\<close> of what an access does to the state \<open>'d\<close> of the devices, together with the effect of
  time that passes. A driver is a program in the state monad over the record of its variables, which
  extends \<open>machine\<close> by the fields of its own; its static variables and the devices change together.
\<close>

subsection \<open>Access\<close>

record 'd bus =
  in8 :: "u16 \<Rightarrow> 'd \<Rightarrow> u8 \<times> 'd"
  out8 :: "u16 \<Rightarrow> u8 \<Rightarrow> 'd \<Rightarrow> 'd"
  in16 :: "u16 \<Rightarrow> 'd \<Rightarrow> u16 \<times> 'd"
  out16 :: "u16 \<Rightarrow> u16 \<Rightarrow> 'd \<Rightarrow> 'd"
  in32 :: "u16 \<Rightarrow> 'd \<Rightarrow> u32 \<times> 'd"
  out32 :: "u16 \<Rightarrow> u32 \<Rightarrow> 'd \<Rightarrow> 'd"
  elapse :: "nat \<Rightarrow> 'd \<Rightarrow> 'd"

record 'd machine =
  hw :: 'd

type_synonym ('d, 'z, 'a) io = "(('d, 'z) machine_scheme, 'a) state"

abbreviation ret :: "'a \<Rightarrow> ('s, 'a) state" where "ret \<equiv> State_Monad.return"

definition asks :: "('s \<Rightarrow> 'a) \<Rightarrow> ('s, 'a) state" where
  "asks f = State (\<lambda>s. (f s, s))"

definition modify :: "('s \<Rightarrow> 's) \<Rightarrow> ('s, unit) state" where
  "modify f = State (\<lambda>s. ((), f s))"

definition hw_get :: "('d \<Rightarrow> 'a \<times> 'd) \<Rightarrow> ('d, 'z, 'a) io" where
  "hw_get f = State (\<lambda>s. let (x, d) = f (hw s) in (x, s\<lparr>hw := d\<rparr>))"

definition hw_put :: "('d \<Rightarrow> 'd) \<Rightarrow> ('d, 'z, unit) io" where
  "hw_put f = State (\<lambda>s. ((), s\<lparr>hw := f (hw s)\<rparr>))"

definition inb :: "'d bus \<Rightarrow> u16 \<Rightarrow> ('d, 'z, u8) io" where "inb bus port = hw_get (in8 bus port)"
definition outb :: "'d bus \<Rightarrow> u16 \<Rightarrow> u8 \<Rightarrow> ('d, 'z, unit) io" where "outb bus port val = hw_put (out8 bus port val)"
definition inw :: "'d bus \<Rightarrow> u16 \<Rightarrow> ('d, 'z, u16) io" where "inw bus port = hw_get (in16 bus port)"
definition outw :: "'d bus \<Rightarrow> u16 \<Rightarrow> u16 \<Rightarrow> ('d, 'z, unit) io" where "outw bus port val = hw_put (out16 bus port val)"
definition inl :: "'d bus \<Rightarrow> u16 \<Rightarrow> ('d, 'z, u32) io" where "inl bus port = hw_get (in32 bus port)"
definition outl :: "'d bus \<Rightarrow> u16 \<Rightarrow> u32 \<Rightarrow> ('d, 'z, unit) io" where "outl bus port val = hw_put (out32 bus port val)"
definition pit_delay :: "'d bus \<Rightarrow> nat \<Rightarrow> ('d, 'z, unit) io" where "pit_delay bus ms = hw_put (elapse bus ms)"

primrec insw :: "'d bus \<Rightarrow> u16 \<Rightarrow> nat \<Rightarrow> ('d, 'z, u16 list) io" where
  "insw bus port 0 = ret []"
| "insw bus port (Suc n) = do { w \<leftarrow> inw bus port; ws \<leftarrow> insw bus port n; ret (w # ws) }"

primrec outsw :: "'d bus \<Rightarrow> u16 \<Rightarrow> u16 list \<Rightarrow> ('d, 'z, unit) io" where
  "outsw bus port [] = ret ()"
| "outsw bus port (w # ws) = do { outw bus port w; outsw bus port ws }"

text \<open>A loop that reads a port and drops the value, for the delay.\<close>

primrec read_times :: "nat \<Rightarrow> 'd bus \<Rightarrow> u16 \<Rightarrow> ('d, 'z, unit) io" where
  "read_times 0 bus port = ret ()"
| "read_times (Suc n) bus port = do { _ \<leftarrow> inb bus port; read_times n bus port }"

text \<open>The words of a buffer as its bytes.\<close>

definition word_bytes :: "u16 list \<Rightarrow> u8 list" where
  "word_bytes ws = concat (map (\<lambda>w. [ucast w, ucast (drop_bit 8 w)]) ws)"

fun bytes_words :: "u8 list \<Rightarrow> u16 list" where
  "bytes_words (a # b # bs) = (ucast a OR push_bit 8 (ucast b)) # bytes_words bs"
| "bytes_words _ = []"

subsection \<open>Running\<close>

lemma run_asks [simp]: "run_state (asks f) s = (f s, s)" by (simp add: asks_def)
lemma run_modify [simp]: "run_state (modify f) s = ((), f s)" by (simp add: modify_def)

lemma run_inb: "run_state (inb bus port) s = (fst (in8 bus port (hw s)), s\<lparr>hw := snd (in8 bus port (hw s))\<rparr>)"
  by (simp add: inb_def hw_get_def split_def Let_def)
lemma run_inw: "run_state (inw bus port) s = (fst (in16 bus port (hw s)), s\<lparr>hw := snd (in16 bus port (hw s))\<rparr>)"
  by (simp add: inw_def hw_get_def split_def Let_def)
lemma run_inl: "run_state (inl bus port) s = (fst (in32 bus port (hw s)), s\<lparr>hw := snd (in32 bus port (hw s))\<rparr>)"
  by (simp add: inl_def hw_get_def split_def Let_def)
lemma run_outb: "run_state (outb bus port v) s = ((), s\<lparr>hw := out8 bus port v (hw s)\<rparr>)" by (simp add: outb_def hw_put_def)
lemma run_outw: "run_state (outw bus port v) s = ((), s\<lparr>hw := out16 bus port v (hw s)\<rparr>)" by (simp add: outw_def hw_put_def)
lemma run_outl: "run_state (outl bus port v) s = ((), s\<lparr>hw := out32 bus port v (hw s)\<rparr>)" by (simp add: outl_def hw_put_def)
lemma run_pit_delay: "run_state (pit_delay bus ms) s = ((), s\<lparr>hw := elapse bus ms (hw s)\<rparr>)" by (simp add: pit_delay_def hw_put_def)

lemmas run_port = run_inb run_inw run_inl run_outb run_outw run_outl run_pit_delay

lemma run_if [simp]: "run_state (if b then x else y) s = (if b then run_state x s else run_state y s)" by simp

text \<open>
  A program that leaves the driver's variables alone: it only changes the devices. The rules of
  \<open>only_hw\<close> follow the structure of a program.
\<close>

definition only_hw :: "('d, 'z, 'a) io \<Rightarrow> bool" where
  "only_hw m \<longleftrightarrow> (\<forall>s. \<exists>x d. run_state m s = (x, s\<lparr>hw := d\<rparr>))"

named_theorems only_hw_intros \<open>programs that only change the devices\<close>

lemma only_hw_ret [only_hw_intros]: "only_hw (ret x)"
  unfolding only_hw_def run_state_return by (metis machine.surjective machine.update_convs(1))

lemma only_hw_bind [only_hw_intros]:
  assumes "only_hw m" "\<And>x. only_hw (f x)"
  shows "only_hw (State_Monad.bind m f)"
  unfolding only_hw_def
proof
  fix s
  obtain x d where x: "run_state m s = (x, s\<lparr>hw := d\<rparr>)" using assms(1) unfolding only_hw_def by blast
  obtain y d' where "run_state (f x) (s\<lparr>hw := d\<rparr>) = (y, (s\<lparr>hw := d\<rparr>)\<lparr>hw := d'\<rparr>)" using assms(2) unfolding only_hw_def by blast
  then show "\<exists>y d. run_state (State_Monad.bind m f) s = (y, s\<lparr>hw := d\<rparr>)" using x by auto
qed

lemma only_hw_if [only_hw_intros]: "(b \<Longrightarrow> only_hw m) \<Longrightarrow> (\<not> b \<Longrightarrow> only_hw n) \<Longrightarrow> only_hw (if b then m else n)" by simp

lemma only_hw_port [only_hw_intros]:
  "only_hw (inb bus port)" "only_hw (inw bus port)" "only_hw (inl bus port)" "only_hw (outb bus port v)" "only_hw (outw bus port w)"
  "only_hw (outl bus port x)" "only_hw (pit_delay bus ms)"
  unfolding only_hw_def run_port by blast+

lemma only_hw_insw [only_hw_intros]: "only_hw (insw bus port n)"
  by (induction n) (auto intro!: only_hw_intros)

lemma only_hw_outsw [only_hw_intros]: "only_hw (outsw bus port ws)"
  by (induction ws) (auto intro!: only_hw_intros)

lemma only_hw_read_times [only_hw_intros]: "only_hw (read_times n bus port)"
  by (induction n) (auto intro!: only_hw_intros)

lemma only_hwD: "only_hw m \<Longrightarrow> run_state m s = (x, s') \<Longrightarrow> s' = s\<lparr>hw := hw s'\<rparr>"
proof -
  assume "only_hw m" "run_state m s = (x, s')"
  then obtain y d where "run_state m s = (y, s\<lparr>hw := d\<rparr>)" unfolding only_hw_def by blast
  then show ?thesis using \<open>run_state m s = (x, s')\<close> by simp
qed

lemma bytes_words_word_bytes: "bytes_words (word_bytes ws) = ws"
proof (induction ws)
  case (Cons w ws)
  have "ucast (ucast w :: u8) OR push_bit 8 (ucast (ucast (drop_bit 8 w) :: u8)) = w"
    by (rule bit_word_eqI) (auto simp: bit_simps)
  then show ?case using Cons by (simp add: word_bytes_def)
qed (simp add: word_bytes_def)

lemma word_bytes_bytes_words: "even (length bs) \<Longrightarrow> word_bytes (bytes_words bs) = bs"
proof (induction bs rule: bytes_words.induct)
  case (1 a b bs)
  have "ucast (ucast a OR push_bit 8 (ucast b) :: u16) = a" "ucast (drop_bit 8 (ucast a OR push_bit 8 (ucast b) :: u16)) = b"
    by (rule bit_word_eqI; auto simp: bit_simps dest: bit_imp_le_length)+
  then show ?case using 1 by (simp add: word_bytes_def)
qed (auto simp: word_bytes_def)

lemma length_word_bytes [simp]: "length (word_bytes ws) = 2 * length ws"
  by (induction ws) (simp_all add: word_bytes_def)

lemma length_bytes_words [simp]: "length (bytes_words bs) = length bs div 2"
  by (induction bs rule: bytes_words.induct) auto

end
