(* ===== verification/Ata.thy ===== *)
theory Ata
  imports Ports Disk Libc_Format
begin

text \<open>
  The driver of the ATA disks (\<^verbatim>\<open>drivers/block/ata.c\<close>) and the table of drives (\<^verbatim>\<open>drivers/bus/drives.h\<close>). The
  variants of the build are a parameter. Times are in milliseconds; the timeouts are constants of at
  most 5000, so that their sums do not wrap. A read returns its result with the bytes stored in the
  buffer.
\<close>

subsection \<open>Drives\<close>

datatype drive_type = DRIVE_TYPE_NONE | DRIVE_TYPE_ATA | DRIVE_TYPE_FDD

record drive_t =
  dr_type :: drive_type
  dr_base :: u16
  dr_is_master :: bool
  dr_name :: cstring
  dr_model :: cstring
  dr_sectors :: u32
  dr_cylinder :: u32
  dr_head :: u32
  dr_sector :: u32
  dr_fdd_no :: u8
  mount_point :: cstring

text \<open>The first \<^verbatim>\<open>drive_count\<close> elements of \<^verbatim>\<open>detected_drives\<close>, an array of \<open>MAX_DRIVES\<close>.\<close>

record 'd ata = "'d machine" +
  detected_drives :: "drive_t list"
  consecutive_read_failures :: nat
  first_read_attempted :: "bool \<times> bool"

abbreviation MAX_DRIVES :: nat where "MAX_DRIVES \<equiv> 4"
abbreviation MAX_CONSECUTIVE_FAILURES :: nat where "MAX_CONSECUTIVE_FAILURES \<equiv> 5"
abbreviation ATA_PRIMARY_IO :: u16 where "ATA_PRIMARY_IO \<equiv> 0x1F0"
abbreviation ATA_SECONDARY_IO :: u16 where "ATA_SECONDARY_IO \<equiv> 0x170"

datatype build = QEMU_BUILD | VMWARE_BUILD | REAL_HARDWARE | OTHER_BUILD

fun ATA_WAIT_TIMEOUT_MS :: "build \<Rightarrow> nat" where
  "ATA_WAIT_TIMEOUT_MS QEMU_BUILD = 500"
| "ATA_WAIT_TIMEOUT_MS VMWARE_BUILD = 5000"
| "ATA_WAIT_TIMEOUT_MS REAL_HARDWARE = 5000"
| "ATA_WAIT_TIMEOUT_MS OTHER_BUILD = 1000"

fun ATA_POLL_DELAY_MS :: "build \<Rightarrow> nat" where
  "ATA_POLL_DELAY_MS QEMU_BUILD = 1"
| "ATA_POLL_DELAY_MS VMWARE_BUILD = 10"
| "ATA_POLL_DELAY_MS REAL_HARDWARE = 10"
| "ATA_POLL_DELAY_MS OTHER_BUILD = 5"

fun ATA_DETECTION_TIMEOUT_MS :: "build \<Rightarrow> nat" where
  "ATA_DETECTION_TIMEOUT_MS QEMU_BUILD = 100"
| "ATA_DETECTION_TIMEOUT_MS VMWARE_BUILD = 2000"
| "ATA_DETECTION_TIMEOUT_MS REAL_HARDWARE = 500"
| "ATA_DETECTION_TIMEOUT_MS OTHER_BUILD = 200"

lemma poll_delay_pos [simp]: "0 < ATA_POLL_DELAY_MS b" by (cases b) simp_all

subsection \<open>Waiting\<close>

text \<open>
  The common shape of the polling loops: \<open>verdict\<close> ends the loop on a status; otherwise the loop gives
  up when the time has passed, or waits and goes on. The elapsed time is returned too.
\<close>

function poll :: "build \<Rightarrow> 'd bus \<Rightarrow> u16 \<Rightarrow> (u8 \<Rightarrow> bool option) \<Rightarrow> nat \<Rightarrow> nat \<Rightarrow> ('d, 'z, bool \<times> nat) io" where
  "poll b bus port verdict timeout elapsed = do {
     status \<leftarrow> inb bus port;
     case verdict status of
       Some r \<Rightarrow> ret (r, elapsed)
     | None \<Rightarrow>
         if elapsed \<ge> timeout then ret (False, elapsed)
         else do {
           pit_delay bus (ATA_POLL_DELAY_MS b);
           poll b bus port verdict timeout (elapsed + ATA_POLL_DELAY_MS b) } }"
  by pat_completeness auto
termination by (relation "measure (\<lambda>(b, bus, port, verdict, timeout, elapsed). timeout - elapsed)") (auto intro!: diff_less_mono2)

declare poll.simps [simp del]

abbreviation BSY :: "u8 \<Rightarrow> bool" where "BSY st \<equiv> st AND 0x80 \<noteq> 0"
abbreviation RDY :: "u8 \<Rightarrow> bool" where "RDY st \<equiv> st AND 0x40 \<noteq> 0"
abbreviation DF :: "u8 \<Rightarrow> bool" where "DF st \<equiv> st AND 0x20 \<noteq> 0"
abbreviation DRQ :: "u8 \<Rightarrow> bool" where "DRQ st \<equiv> st AND 0x08 \<noteq> 0"
abbreviation ERR :: "u8 \<Rightarrow> bool" where "ERR st \<equiv> st AND 0x01 \<noteq> 0"

definition ready_verdict :: "build \<Rightarrow> u8 \<Rightarrow> bool option" where
  "ready_verdict b status =
     (if b = QEMU_BUILD \<or> b = VMWARE_BUILD then if \<not> BSY status \<and> RDY status then Some True else None
      else if ERR status then Some False
      else if \<not> BSY status then Some True else None)"

definition wait_for_drive_ready :: "build \<Rightarrow> 'd bus \<Rightarrow> u16 \<Rightarrow> nat \<Rightarrow> ('d, 'z, bool) io" where
  "wait_for_drive_ready b bus base timeout_ms = do {
     (r, _) \<leftarrow> poll b bus (base + 7) (ready_verdict b) timeout_ms 0;
     ret r }"

text \<open>The two loops of the QEMU build; the first one reads the error register when the drive reports an error.\<close>

function wait_bsy_clear :: "build \<Rightarrow> 'd bus \<Rightarrow> u16 \<Rightarrow> nat \<Rightarrow> nat \<Rightarrow> ('d, 'z, bool \<times> nat) io" where
  "wait_bsy_clear b bus base timeout elapsed = do {
     status \<leftarrow> inb bus (base + 7);
     if status = 0xFF then ret (False, elapsed)
     else if ERR status then do { _ \<leftarrow> inb bus (base + 1); ret (False, elapsed) }
     else if \<not> BSY status then ret (True, elapsed)
     else if elapsed \<ge> timeout then ret (False, elapsed)
     else do {
       pit_delay bus (ATA_POLL_DELAY_MS b);
       wait_bsy_clear b bus base timeout (elapsed + ATA_POLL_DELAY_MS b) } }"
  by pat_completeness auto
termination by (relation "measure (\<lambda>(b, bus, port, timeout, elapsed). timeout - elapsed)") (auto intro!: diff_less_mono2)

function wait_drq :: "build \<Rightarrow> 'd bus \<Rightarrow> u16 \<Rightarrow> nat \<Rightarrow> nat \<Rightarrow> ('d, 'z, bool) io" where
  "wait_drq b bus base timeout elapsed = do {
     status \<leftarrow> inb bus (base + 7);
     if DRQ status then ret True
     else if elapsed \<ge> timeout then do { _ \<leftarrow> inb bus (base + 7); ret False }
     else do {
       pit_delay bus (ATA_POLL_DELAY_MS b);
       let elapsed' = elapsed + ATA_POLL_DELAY_MS b;
       _ \<leftarrow> (if elapsed' mod 50 = 0 then do { _ \<leftarrow> inb bus (base + 7); ret () } else ret ());
       wait_drq b bus base timeout elapsed' } }"
  by pat_completeness auto
termination by (relation "measure (\<lambda>(b, bus, port, timeout, elapsed). timeout - elapsed)") (auto intro!: diff_less_mono2)

declare wait_bsy_clear.simps [simp del] wait_drq.simps [simp del]

definition data_verdict :: "u8 \<Rightarrow> bool option" where
  "data_verdict status =
     (if ERR status then Some False
      else if DF status then Some False
      else if DRQ status \<and> \<not> BSY status then Some True else None)"

definition wait_for_drive_data_ready :: "build \<Rightarrow> 'd bus \<Rightarrow> u16 \<Rightarrow> nat \<Rightarrow> ('d, 'z, bool) io" where
  "wait_for_drive_data_ready b bus base timeout_ms =
     (if b = QEMU_BUILD
      then do {
        (ok, elapsed) \<leftarrow> wait_bsy_clear b bus base timeout_ms 0;
        if \<not> ok then ret False else wait_drq b bus base timeout_ms elapsed }
      else do {
        (r, _) \<leftarrow> poll b bus (base + 7) data_verdict timeout_ms 0;
        ret r })"

subsection \<open>Reset\<close>

primrec reset_polls :: "nat \<Rightarrow> 'd bus \<Rightarrow> u16 \<Rightarrow> ('d, 'z, unit) io" where
  "reset_polls 0 bus base = ret ()"
| "reset_polls (Suc n) bus base = do {
     status \<leftarrow> inb bus (base + 7);
     if status \<noteq> 0 \<and> status \<noteq> 0xFF \<and> \<not> BSY status then ret ()
     else do { pit_delay bus 10; reset_polls n bus base } }"

definition ata_soft_reset :: "'d bus \<Rightarrow> u16 \<Rightarrow> bool \<Rightarrow> ('d, 'z, unit) io" where
  "ata_soft_reset bus base is_master = do {
     outb bus (base + 6) (if is_master then 0xA0 else 0xB0);
     read_times 4 bus (base + 0x206);
     pit_delay bus 10;
     outb bus (base + 0x206) 0x04;
     pit_delay bus 10;
     outb bus (base + 0x206) 0x00;
     pit_delay bus 5;
     reset_polls 100 bus base }"

subsection \<open>Sectors\<close>

definition drive_head :: "u32 \<Rightarrow> bool \<Rightarrow> u8" where
  "drive_head lba is_master = (0xE0 OR ucast (drop_bit 24 lba AND 0x0F)) OR (if is_master then 0x00 else 0x10)"

definition set_lba :: "'d bus \<Rightarrow> u16 \<Rightarrow> u32 \<Rightarrow> ('d, 'z, unit) io" where
  "set_lba bus base lba = do {
     outb bus (base + 2) 1;
     outb bus (base + 3) (ucast (lba AND 0xFF));
     outb bus (base + 4) (ucast (drop_bit 8 lba AND 0xFF));
     outb bus (base + 5) (ucast (drop_bit 16 lba AND 0xFF)) }"

definition attempted :: "u16 \<Rightarrow> bool \<times> bool \<Rightarrow> bool" where
  "attempted base f = (if base = ATA_PRIMARY_IO then fst f else snd f)"

definition set_attempted :: "u16 \<Rightarrow> bool \<times> bool \<Rightarrow> bool \<times> bool" where
  "set_attempted base f = (if base = ATA_PRIMARY_IO then (True, snd f) else (fst f, True))"

definition read_failed :: "('d ata, bool \<times> u8 list) state" where
  "read_failed = do {
     modify (\<lambda>s. s\<lparr>consecutive_read_failures := consecutive_read_failures s + 1\<rparr>);
     ret (False, []) }"

text \<open>The soft reset before the first read of a controller.\<close>

definition first_read :: "'d bus \<Rightarrow> u16 \<Rightarrow> bool \<Rightarrow> ('d ata, unit) state" where
  "first_read bus base is_master = do {
     done \<leftarrow> asks (\<lambda>s. attempted base (first_read_attempted s));
     if done then ret ()
     else do {
       status \<leftarrow> inb bus (base + 7);
       _ \<leftarrow> (if status = 0 \<or> status = 0xFF then ata_soft_reset bus base is_master else ret ());
       modify (\<lambda>s. s\<lparr>first_read_attempted := set_attempted base (first_read_attempted s)\<rparr>) } }"

definition ata_read_sector :: "build \<Rightarrow> 'd bus \<Rightarrow> u16 \<Rightarrow> u32 \<Rightarrow> bool \<Rightarrow> ('d ata, bool \<times> u8 list) state" where
  "ata_read_sector b bus base lba is_master = do {
     first_read bus base is_master;
     failures \<leftarrow> asks consecutive_read_failures;
     if failures \<ge> MAX_CONSECUTIVE_FAILURES then ret (False, [])
     else do {
       ready \<leftarrow> wait_for_drive_ready b bus base (ATA_WAIT_TIMEOUT_MS b);
       if \<not> ready then read_failed
       else do {
         outb bus (base + 6) (drive_head lba is_master);
         read_times 4 bus (base + 0x206);
         _ \<leftarrow> (if b = VMWARE_BUILD then pit_delay bus 50 else ret ());
         ready \<leftarrow> wait_for_drive_ready b bus base (ATA_WAIT_TIMEOUT_MS b);
         if \<not> ready then read_failed
         else do {
           set_lba bus base lba;
           outb bus (base + 7) 0x20;
           read_times 4 bus (base + 0x206);
           ready \<leftarrow> wait_for_drive_data_ready b bus base (ATA_WAIT_TIMEOUT_MS b);
           if \<not> ready
           then do { r \<leftarrow> read_failed; pit_delay bus 100; ret r }
           else do {
             ws \<leftarrow> insw bus base 256;
             ready \<leftarrow> (if b = REAL_HARDWARE then wait_for_drive_ready b bus base (ATA_WAIT_TIMEOUT_MS b) else ret True);
             if \<not> ready
             then do { _ \<leftarrow> read_failed; ret (False, word_bytes ws) }
             else do {
               modify (\<lambda>s. s\<lparr>consecutive_read_failures := 0\<rparr>);
               ret (True, word_bytes ws) } } } } } }"

definition ata_reset_error_counter :: "('d ata, unit) state" where
  "ata_reset_error_counter = modify (\<lambda>s. s\<lparr>consecutive_read_failures := 0\<rparr>)"

definition ata_write_sector :: "build \<Rightarrow> 'd bus \<Rightarrow> u16 \<Rightarrow> u32 \<Rightarrow> u8 list option \<Rightarrow> bool \<Rightarrow> ('d, 'z, bool) io" where
  "ata_write_sector b bus base lba buffer is_master =
     (case buffer of
        None \<Rightarrow> ret False
      | Some buf \<Rightarrow> do {
          ready \<leftarrow> wait_for_drive_ready b bus base (ATA_WAIT_TIMEOUT_MS b);
          if \<not> ready then ret False
          else do {
            set_lba bus base lba;
            outb bus (base + 6) (drive_head lba is_master);
            outb bus (base + 7) 0x30;
            ready \<leftarrow> wait_for_drive_data_ready b bus base (ATA_WAIT_TIMEOUT_MS b);
            if \<not> ready then ret False
            else do {
              outsw bus base (bytes_words (take 512 buf));
              ready \<leftarrow> wait_for_drive_ready b bus base (ATA_WAIT_TIMEOUT_MS b);
              if \<not> ready then ret False
              else do {
                outb bus (base + 7) 0xE7;
                _ \<leftarrow> wait_for_drive_ready b bus base (ATA_WAIT_TIMEOUT_MS b);
                ret True } } } })"

subsection \<open>Detection\<close>

definition model_chars :: "u16 list \<Rightarrow> u8 list" where
  "model_chars ws = concat (map (\<lambda>w. [ucast (drop_bit 8 w), ucast (w AND 0xFF)]) (take 20 (drop 27 ws)))"

definition printable :: "u8 \<Rightarrow> bool" where
  "printable c \<longleftrightarrow> c = 0 \<or> \<not> (char_int c < 32 \<or> char_int c > 126)"

definition identify :: "u16 list \<Rightarrow> drive_t \<Rightarrow> drive_t option" where
  "identify ws drive_info =
     (if ws ! 0 = 0 \<or> ws ! 0 = 0xFFFF then None
      else let chars = model_chars ws; n = ucast (ws ! 60) OR push_bit 16 (ucast (ws ! 61))
           in if \<not> list_all printable chars then None
              else if n = 0 then None
              else Some (drive_info\<lparr>dr_model := takeWhile (\<lambda>c. c \<noteq> 0) chars, dr_sectors := n\<rparr>))"

definition ata_identify_drive :: "build \<Rightarrow> 'd bus \<Rightarrow> u16 \<Rightarrow> u8 \<Rightarrow> drive_t \<Rightarrow> ('d, 'z, drive_t option) io" where
  "ata_identify_drive b bus base drive drive_info = do {
     outb bus (base + 6) drive;
     outb bus (base + 7) 0xEC;
     status \<leftarrow> inb bus (base + 7);
     if status = 0 then ret None
     else do {
       ready \<leftarrow> wait_for_drive_ready b bus base (ATA_DETECTION_TIMEOUT_MS b);
       if \<not> ready then ret None
       else do {
         ready \<leftarrow> wait_for_drive_data_ready b bus base (ATA_DETECTION_TIMEOUT_MS b);
         if \<not> ready then ret None
         else do {
           ws \<leftarrow> insw bus base 256;
           ret (identify ws drive_info) } } } }"

text \<open>\<^verbatim>\<open>snprintf (name, sizeof (name), fmt, i)\<close>\<close>

definition drive_name :: "cstring \<Rightarrow> nat \<Rightarrow> cstring" where
  "drive_name fmt i = (case snprintf 8 fmt [VInt (of_nat i)] of None \<Rightarrow> [] | Some (buf, _) \<Rightarrow> string_of buf)"

definition trim_model :: "cstring \<Rightarrow> cstring" where
  "trim_model s = rev (dropWhile (\<lambda>c. isspace (uint c)) (rev s))"

text \<open>\<open>junk\<close> is the local variable \<^verbatim>\<open>temp_drive\<close>, of which some fields are never set.\<close>

primrec detect_at :: "(u16 \<times> bool) list \<Rightarrow> build \<Rightarrow> 'd bus \<Rightarrow> drive_t \<Rightarrow> nat \<Rightarrow> ('d ata, unit) state" where
  "detect_at [] b bus junk drive_name_index = ret ()"
| "detect_at (p # ps) b bus junk drive_name_index = do {
     n \<leftarrow> asks (\<lambda>s. length (detected_drives s));
     if n \<ge> MAX_DRIVES then ret ()
     else do {
       r \<leftarrow> ata_identify_drive b bus (fst p) (if snd p then 0xA0 else 0xB0) (junk\<lparr>dr_base := fst p, dr_is_master := snd p\<rparr>);
       case r of
         None \<Rightarrow> detect_at ps b bus junk drive_name_index
       | Some drive \<Rightarrow> do {
           modify (\<lambda>s. s\<lparr>detected_drives := detected_drives s @ [drive\<lparr>dr_model := trim_model (dr_model drive), dr_type := DRIVE_TYPE_ATA,
             dr_name := drive_name (lit ''hdd%d'') drive_name_index, mount_point := []\<rparr>]\<rparr>);
           detect_at ps b bus junk (drive_name_index + 1) } } }"

definition ata_detect_drives :: "build \<Rightarrow> 'd bus \<Rightarrow> drive_t \<Rightarrow> ('d ata, unit) state" where
  "ata_detect_drives b bus junk = do {
     modify (\<lambda>s. s\<lparr>detected_drives := []\<rparr>);
     detect_at [(ATA_PRIMARY_IO, True), (ATA_PRIMARY_IO, False), (ATA_SECONDARY_IO, True), (ATA_SECONDARY_IO, False)] b bus junk 0 }"

definition ata_get_drive :: "u16 \<Rightarrow> 'd ata \<Rightarrow> nat option" where
  "ata_get_drive drive_index s = (if unat drive_index \<ge> length (detected_drives s) then None else Some (unat drive_index))"

definition ata_get_first_hdd :: "'d ata \<Rightarrow> nat option" where
  "ata_get_first_hdd s =
     (if detected_drives s = [] \<or> length (detected_drives s) > MAX_DRIVES then None
      else find (\<lambda>i. dr_type (detected_drives s ! i) = DRIVE_TYPE_ATA) [0..<length (detected_drives s)])"

definition get_drive_by_name :: "cstring \<Rightarrow> 'd ata \<Rightarrow> nat option" where
  "get_drive_by_name name s =
     (if length (detected_drives s) > MAX_DRIVES then None
      else find (\<lambda>i. dr_name (detected_drives s ! i) = name) [0..<length (detected_drives s)])"

end
