(* ===== verification/Ata_Correct.thy ===== *)
theory Ata_Correct
  imports Ata
begin

text \<open>
  Sectors over the registers of a controller. What the driver relies on is the PIO protocol of ATA, the
  locale \<open>ata_controller\<close>: a register file, a status that shows BSY while a command takes its time, the
  words of a sector behind the data port. Over every such controller a read is a read of the disk and
  a write is a write of the disk.
\<close>

subsection \<open>The protocol\<close>

datatype phase = Idle | Fault | Absent | Sending "u16 list" | Receiving "u16 list"

text \<open>
  The registers by their offset, the time the device stays busy, what it does then, and the disks of
  master and slave. The status is 0 when the drive that was selected for a command is absent.
\<close>

record ata_view =
  regs :: "u16 \<Rightarrow> u8"
  busy :: nat
  ata_phase :: phase
  media :: "bool \<Rightarrow> disk"

definition status_of :: "ata_view \<Rightarrow> u8" where
  "status_of v =
     (if busy v > 0 then 0x80
      else case ata_phase v of Idle \<Rightarrow> 0x50 | Fault \<Rightarrow> 0x51 | Absent \<Rightarrow> 0 | Sending ws \<Rightarrow> 0x58 | Receiving ws \<Rightarrow> 0x58)"

definition quiet :: "ata_view \<Rightarrow> bool" where
  "quiet v \<longleftrightarrow> busy v = 0 \<and> (ata_phase v = Idle \<or> ata_phase v = Fault)"

definition lba_of :: "ata_view \<Rightarrow> u32" where
  "lba_of v = ((ucast (regs v 3) OR push_bit 8 (ucast (regs v 4))) OR push_bit 16 (ucast (regs v 5)))
     OR push_bit 24 (ucast (regs v 6 AND 0x0F))"

definition master_of :: "ata_view \<Rightarrow> bool" where
  "master_of v \<longleftrightarrow> regs v 6 AND 0x10 = 0"

definition begin_read :: "nat \<Rightarrow> ata_view \<Rightarrow> ata_view" where
  "begin_read k v = v\<lparr>busy := k, ata_phase := (case dev_read (lba_of v) (media v (master_of v)) of
     None \<Rightarrow> Fault | Some b \<Rightarrow> Sending (bytes_words b))\<rparr>"

definition end_write :: "nat \<Rightarrow> u16 list \<Rightarrow> ata_view \<Rightarrow> ata_view" where
  "end_write k ws v = (case dev_write (lba_of v) (word_bytes ws) (media v (master_of v)) of
     None \<Rightarrow> v\<lparr>busy := k, ata_phase := Fault\<rparr>
   | Some d \<Rightarrow> v\<lparr>busy := k, ata_phase := Idle, media := (media v)(master_of v := d)\<rparr>)"

locale ata_controller =
  fixes bus :: "'d bus" and base :: u16 and view :: "'d \<Rightarrow> ata_view" and latency :: nat
  assumes status_value: "fst (in8 bus (base + 7) d) = status_of (view d)"
    and status_view: "port \<in> {base + 1, base + 7, base + 0x206} \<Longrightarrow> view (snd (in8 bus port d)) = view d"
    and elapse_view: "view (elapse bus ms d) = (view d)\<lparr>busy := busy (view d) - ms\<rparr>"
    and set_register: "r \<in> {2, 3, 4, 5, 6} \<Longrightarrow> quiet (view d) \<Longrightarrow>
      view (out8 bus (base + r) x d) = (view d)\<lparr>regs := (regs (view d))(r := x)\<rparr>"
    and read_command: "quiet (view d) \<Longrightarrow> \<exists>k \<le> latency. view (out8 bus (base + 7) 0x20 d) = begin_read k (view d)"
    and write_command: "quiet (view d) \<Longrightarrow> \<exists>k \<le> latency. view (out8 bus (base + 7) 0x30 d) = (view d)\<lparr>busy := k, ata_phase := Receiving []\<rparr>"
    and flush_command: "quiet (view d) \<Longrightarrow> \<exists>k \<le> latency. view (out8 bus (base + 7) 0xE7 d) = (view d)\<lparr>busy := k, ata_phase := Idle\<rparr>"
    and data_in: "busy (view d) = 0 \<Longrightarrow> ata_phase (view d) = Sending (w # ws) \<Longrightarrow> fst (in16 bus base d) = w
      \<and> view (snd (in16 bus base d)) = (view d)\<lparr>ata_phase := if ws = [] then Idle else Sending ws\<rparr>"
    and data_out: "busy (view d) = 0 \<Longrightarrow> ata_phase (view d) = Receiving ws \<Longrightarrow> length ws < 255 \<Longrightarrow>
      view (out16 bus base w d) = (view d)\<lparr>ata_phase := Receiving (ws @ [w])\<rparr>"
    and data_last: "busy (view d) = 0 \<Longrightarrow> ata_phase (view d) = Receiving ws \<Longrightarrow> length ws = 255 \<Longrightarrow>
      \<exists>k \<le> latency. view (out16 bus base w d) = end_write k (ws @ [w]) (view d)"

definition tolerant :: "build \<Rightarrow> bool" where
  "tolerant b \<longleftrightarrow> b = QEMU_BUILD \<or> b = VMWARE_BUILD"

lemma ready_verdict_status:
  "ready_verdict b 0x80 = None" "ready_verdict b 0x50 = Some True" "ready_verdict b 0x51 = Some (tolerant b)"
  by (cases b; simp add: ready_verdict_def tolerant_def)+

lemma data_verdict_status: "data_verdict 0x80 = None" "data_verdict 0x58 = Some True" "data_verdict 0x51 = Some False"
  by (simp_all add: data_verdict_def)

lemma not_busy: "busy v = 0 \<Longrightarrow> v\<lparr>busy := 0\<rparr> = v" by (cases v) simp

subsection \<open>Waiting\<close>

context ata_controller
begin

lemma poll_ok:
  assumes "verdict 0x80 = None" "verdict (status_of ((view (hw s))\<lparr>busy := 0\<rparr>)) = Some r" "busy (view (hw s)) \<le> timeout - elapsed"
  shows "\<exists>d e. run_state (poll b bus (base + 7) verdict timeout elapsed) s = ((r, e), s\<lparr>hw := d\<rparr>) \<and> view d = (view (hw s))\<lparr>busy := 0\<rparr>"
  using assms
proof (induction "timeout - elapsed" arbitrary: s elapsed rule: less_induct)
  case less
  let ?v = "view (hw s)" and ?d1 = "snd (in8 bus (base + 7) (hw s))"
  have v1: "view ?d1 = ?v" by (simp add: status_view)
  show ?case
  proof (cases "busy ?v = 0")
    case True
    then have "verdict (status_of ?v) = Some r" "view ?d1 = ?v\<lparr>busy := 0\<rparr>" using less.prems(2) v1 unfolding not_busy [OF True] by simp_all
    then show ?thesis by (subst poll.simps) (auto simp: run_port status_value)
  next
    case False
    let ?d2 = "elapse bus (ATA_POLL_DELAY_MS b) ?d1"
    have v2: "view ?d2 = ?v\<lparr>busy := busy ?v - ATA_POLL_DELAY_MS b\<rparr>" using v1 by (simp add: elapse_view)
    have lt: "elapsed < timeout" using False less.prems(3) by simp
    have "\<exists>d e. run_state (poll b bus (base + 7) verdict timeout (elapsed + ATA_POLL_DELAY_MS b)) (s\<lparr>hw := ?d2\<rparr>)
        = ((r, e), (s\<lparr>hw := ?d2\<rparr>)\<lparr>hw := d\<rparr>) \<and> view d = (view (hw (s\<lparr>hw := ?d2\<rparr>)))\<lparr>busy := 0\<rparr>"
      using less.prems lt v2 by (intro less.hyps) (auto intro!: diff_less_mono2)
    then show ?thesis using False lt v2 less.prems(1) by (subst poll.simps) (auto simp: run_port status_value status_of_def)
  qed
qed

text \<open>After a wait for the drive it is not busy, and the answer is no only for an error on the strict builds.\<close>

lemma ready_ok:
  assumes "ata_phase (view (hw s)) = Idle \<or> ata_phase (view (hw s)) = Fault" "busy (view (hw s)) \<le> timeout"
  shows "\<exists>d. run_state (wait_for_drive_ready b bus base timeout) s
      = (ata_phase (view (hw s)) = Idle \<or> tolerant b, s\<lparr>hw := d\<rparr>) \<and> view d = (view (hw s))\<lparr>busy := 0\<rparr>"
proof -
  let ?v = "view (hw s)"
  have "ready_verdict b (status_of (?v\<lparr>busy := 0\<rparr>)) = Some (ata_phase ?v = Idle \<or> tolerant b)"
    using assms(1) by (auto simp: status_of_def ready_verdict_status)
  from poll_ok [OF ready_verdict_status(1) this, of timeout 0 b] assms(2) show ?thesis
    by (auto simp: wait_for_drive_ready_def)
qed

lemma bsy_clear_ok:
  assumes "busy (view (hw s)) \<le> timeout - elapsed"
  shows "\<exists>d e. run_state (wait_bsy_clear b bus base timeout elapsed) s = ((ata_phase (view (hw s)) \<noteq> Fault, e), s\<lparr>hw := d\<rparr>)
     \<and> view d = (view (hw s))\<lparr>busy := 0\<rparr>"
  using assms
proof (induction "timeout - elapsed" arbitrary: s elapsed rule: less_induct)
  case less
  let ?v = "view (hw s)" and ?d1 = "snd (in8 bus (base + 7) (hw s))"
  have v1: "view ?d1 = ?v" by (simp add: status_view)
  show ?case
  proof (cases "busy ?v = 0")
    case True
    have "view (snd (in8 bus (base + 1) ?d1)) = ?v" using v1 by (simp add: status_view)
    then show ?thesis using v1 True
      by (subst wait_bsy_clear.simps) (cases "ata_phase ?v"; auto simp: run_port status_value status_of_def)
  next
    case False
    let ?d2 = "elapse bus (ATA_POLL_DELAY_MS b) ?d1"
    have v2: "view ?d2 = ?v\<lparr>busy := busy ?v - ATA_POLL_DELAY_MS b\<rparr>" using v1 by (simp add: elapse_view)
    have lt: "elapsed < timeout" using False less.prems by simp
    have "\<exists>d e. run_state (wait_bsy_clear b bus base timeout (elapsed + ATA_POLL_DELAY_MS b)) (s\<lparr>hw := ?d2\<rparr>)
        = ((ata_phase (view (hw (s\<lparr>hw := ?d2\<rparr>))) \<noteq> Fault, e), (s\<lparr>hw := ?d2\<rparr>)\<lparr>hw := d\<rparr>) \<and> view d = (view (hw (s\<lparr>hw := ?d2\<rparr>)))\<lparr>busy := 0\<rparr>"
      using less.prems lt v2 by (intro less.hyps) (auto intro!: diff_less_mono2)
    then show ?thesis using False lt v2 by (subst wait_bsy_clear.simps) (auto simp: run_port status_value status_of_def)
  qed
qed

lemma data_ready_ok:
  assumes "ata_phase (view (hw s)) \<notin> {Idle, Absent}" "busy (view (hw s)) \<le> timeout"
  shows "\<exists>d. run_state (wait_for_drive_data_ready b bus base timeout) s = (ata_phase (view (hw s)) \<noteq> Fault, s\<lparr>hw := d\<rparr>)
     \<and> view d = (view (hw s))\<lparr>busy := 0\<rparr>"
proof (cases "b = QEMU_BUILD")
  case True
  let ?v = "view (hw s)"
  obtain d e where d: "run_state (wait_bsy_clear b bus base timeout 0) s = ((ata_phase ?v \<noteq> Fault, e), s\<lparr>hw := d\<rparr>)" "view d = ?v\<lparr>busy := 0\<rparr>"
    using bsy_clear_ok [of s timeout 0 b] assms(2) by auto
  have "view (snd (in8 bus (base + 7) d)) = ?v\<lparr>busy := 0\<rparr>" using d(2) by (simp add: status_view)
  then have "\<exists>d'. run_state (wait_drq b bus base timeout e) (s\<lparr>hw := d\<rparr>) = (True, s\<lparr>hw := d'\<rparr>) \<and> view d' = ?v\<lparr>busy := 0\<rparr>" if "ata_phase ?v \<noteq> Fault"
    using that d(2) assms(1) by (subst wait_drq.simps) (cases "ata_phase ?v"; auto simp: run_port status_value status_of_def)
  then show ?thesis using True d by (auto simp: wait_for_drive_data_ready_def)
next
  case False
  let ?v = "view (hw s)"
  have "data_verdict (status_of (?v\<lparr>busy := 0\<rparr>)) = Some (ata_phase ?v \<noteq> Fault)"
    using assms(1) by (cases "ata_phase ?v") (auto simp: status_of_def data_verdict_status)
  from poll_ok [OF data_verdict_status(1) this, of timeout 0 b] assms(2) False show ?thesis
    by (auto simp: wait_for_drive_data_ready_def)
qed

subsection \<open>Transfers\<close>

lemma insw_ok:
  assumes "busy (view (hw s)) = 0" "ata_phase (view (hw s)) = (if ws = [] then Idle else Sending ws)"
  shows "\<exists>d. run_state (insw bus base (length ws)) s = (ws, s\<lparr>hw := d\<rparr>) \<and> view d = (view (hw s))\<lparr>ata_phase := Idle\<rparr>"
  using assms
proof (induction ws arbitrary: s)
  case Nil
  then show ?case by (intro exI [of _ "hw s"]) simp
next
  case (Cons w ws)
  let ?d = "snd (in16 bus base (hw s))"
  have d: "fst (in16 bus base (hw s)) = w" "view ?d = (view (hw s))\<lparr>ata_phase := if ws = [] then Idle else Sending ws\<rparr>"
    using data_in [of "hw s" w ws] Cons.prems by auto
  have "\<exists>d'. run_state (insw bus base (length ws)) (s\<lparr>hw := ?d\<rparr>) = (ws, (s\<lparr>hw := ?d\<rparr>)\<lparr>hw := d'\<rparr>) \<and> view d' = (view ?d)\<lparr>ata_phase := Idle\<rparr>"
    using Cons.IH [of "s\<lparr>hw := ?d\<rparr>"] d(2) Cons.prems by simp
  then show ?case using d by (auto simp: run_port)
qed

lemma outsw_ok:
  assumes "busy (view (hw s)) = 0" "ata_phase (view (hw s)) = Receiving xs" "length xs + length ws = 256" "ws \<noteq> []"
  shows "\<exists>d k. run_state (outsw bus base ws) s = ((), s\<lparr>hw := d\<rparr>) \<and> k \<le> latency \<and> view d = end_write k (xs @ ws) (view (hw s))"
  using assms
proof (induction ws arbitrary: s xs)
  case (Cons w ws)
  show ?case
  proof (cases ws)
    case Nil
    then show ?thesis using data_last [of "hw s" xs w] Cons.prems by (auto simp: run_port)
  next
    case (Cons a as)
    let ?d = "out16 bus base w (hw s)"
    have v: "view ?d = (view (hw s))\<lparr>ata_phase := Receiving (xs @ [w])\<rparr>" using data_out [of "hw s" xs w] Cons.prems Cons by simp
    have e: "end_write k ys ((view (hw s))\<lparr>ata_phase := p\<rparr>) = end_write k ys (view (hw s))" for k ys p
      by (simp add: end_write_def lba_of_def master_of_def split: option.splits)
    have "\<exists>d' k. run_state (outsw bus base ws) (s\<lparr>hw := ?d\<rparr>) = ((), (s\<lparr>hw := ?d\<rparr>)\<lparr>hw := d'\<rparr>) \<and> k \<le> latency
        \<and> view d' = end_write k ((xs @ [w]) @ ws) (view (hw (s\<lparr>hw := ?d\<rparr>)))"
      using Cons.prems Cons v by (intro Cons.IH) auto
    then show ?thesis using v e by (auto simp: run_port)
  qed
qed simp

lemma alt_status_ok: "\<exists>d. run_state (read_times n bus (base + 0x206)) s = ((), s\<lparr>hw := d\<rparr>) \<and> view d = view (hw s)"
proof (induction n arbitrary: s)
  case 0
  show ?case by (rule exI [of _ "hw s"]) simp
next
  case (Suc n)
  let ?d = "snd (in8 bus (base + 0x206) (hw s))"
  have "\<exists>d. run_state (read_times n bus (base + 0x206)) (s\<lparr>hw := ?d\<rparr>) = ((), (s\<lparr>hw := ?d\<rparr>)\<lparr>hw := d\<rparr>) \<and> view d = view (hw (s\<lparr>hw := ?d\<rparr>))"
    by (rule Suc)
  then show ?case by (auto simp: run_port status_view)
qed

text \<open>The registers as the driver sets them.\<close>

lemma set_register_ok:
  assumes "r \<in> {2, 3, 4, 5, 6}" "quiet (view (hw s))"
  shows "run_state (outb bus (base + r) x) s = ((), s\<lparr>hw := out8 bus (base + r) x (hw s)\<rparr>)"
    and "view (out8 bus (base + r) x (hw s)) = (view (hw s))\<lparr>regs := (regs (view (hw s)))(r := x)\<rparr>"
    and "quiet (view (out8 bus (base + r) x (hw s)))"
  using assms by (simp_all add: run_port set_register quiet_def)

lemma set_lba_ok:
  assumes "quiet (view (hw s))"
  shows "\<exists>d. run_state (set_lba bus base lba) s = ((), s\<lparr>hw := d\<rparr>) \<and> quiet (view d) \<and> view d = (view (hw s))\<lparr>regs := (regs (view (hw s)))
     (2 := 1, 3 := ucast (lba AND 0xFF), 4 := ucast (drop_bit 8 lba AND 0xFF), 5 := ucast (drop_bit 16 lba AND 0xFF))\<rparr>"
  using assms by (auto simp: set_lba_def run_port set_register quiet_def)

lemma first_read_ok:
  "ata_phase (view (hw s)) \<noteq> Absent \<Longrightarrow> \<exists>d f. run_state (first_read bus base m) s = ((), s\<lparr>hw := d, first_read_attempted := f\<rparr>) \<and> view d = view (hw s)"
proof (cases "attempted base (first_read_attempted s)")
  case True
  then have "run_state (first_read bus base m) s = ((), s\<lparr>hw := hw s, first_read_attempted := first_read_attempted s\<rparr>)"
    by (simp add: first_read_def)
  then show ?thesis by blast
next
  case False
  assume "ata_phase (view (hw s)) \<noteq> Absent"
  then have "status_of (view (hw s)) \<noteq> 0 \<and> status_of (view (hw s)) \<noteq> 0xFF" by (simp add: status_of_def split: phase.splits)
  then have "run_state (first_read bus base m) s
      = ((), s\<lparr>hw := snd (in8 bus (base + 7) (hw s)), first_read_attempted := set_attempted base (first_read_attempted s)\<rparr>)"
    using False by (simp add: first_read_def run_port status_value)
  then show ?thesis using status_view by blast
qed

end

lemma lba_of_regs:
  assumes "regs v 3 = ucast (lba AND 0xFF)" "regs v 4 = ucast (drop_bit 8 lba AND 0xFF)" "regs v 5 = ucast (drop_bit 16 lba AND 0xFF)"
    "regs v 6 = drive_head lba m"
  shows "lba_of v = lba AND 0x0FFFFFFF" "master_of v = m"
proof -
  have m: "(0xFF :: u32) = mask 8" "(0x0F :: u32) = mask 4" "(0x0FFFFFFF :: u32) = mask 28" by (simp_all add: mask_eq_exp_minus_1)
  have h: "drive_head lba m AND 0x0F = ucast (drop_bit 24 lba AND 0x0F)" "drive_head lba m AND 0x10 = (if m then 0 else 0x10)"
    unfolding drive_head_def by (rule bit_word_eqI; auto simp: bit_simps less_Suc_eq numeral_eq_Suc)+
  show "lba_of v = lba AND 0x0FFFFFFF"
    unfolding lba_of_def assms h m
  proof (rule bit_word_eqI)
    fix n
    assume "n < LENGTH(32)"
    consider "n < 8" | "8 \<le> n \<and> n < 16" | "16 \<le> n \<and> n < 24" | "24 \<le> n" by linarith
    then show "bit (((ucast (ucast (lba AND mask 8) :: u8) OR push_bit 8 (ucast (ucast (drop_bit 8 lba AND mask 8) :: u8)))
        OR push_bit 16 (ucast (ucast (drop_bit 16 lba AND mask 8) :: u8))) OR push_bit 24 (ucast (ucast (drop_bit 24 lba AND mask 4) :: u8)) :: u32) n
      = bit (lba AND mask 28) n"
      by cases (auto simp: bit_simps)
  qed
  show "master_of v = m"
    unfolding master_of_def assms h by simp
qed

subsection \<open>Reading and writing\<close>

text \<open>The part of a read behind the selection of the drive.\<close>

context ata_controller
begin

lemma read_data_ok:
  assumes "quiet (view d)" "lba_of (view d) = l" "media (view d) (master_of (view d)) = dk" "latency \<le> timeout"
  obtains d1 d2 where "run_state (read_times 4 bus (base + 0x206)) (s\<lparr>hw := out8 bus (base + 7) 0x20 d\<rparr>) = ((), s\<lparr>hw := d1\<rparr>)"
    and "run_state (wait_for_drive_data_ready b bus base timeout) (s\<lparr>hw := d1\<rparr>) = (\<not> read_error dk l, s\<lparr>hw := d2\<rparr>)"
    and "view d2 = (view d)\<lparr>ata_phase := if read_error dk l then Fault else Sending (bytes_words (sectors dk l))\<rparr>"
proof -
  let ?v = "view d" and ?d = "out8 bus (base + 7) 0x20 d"
  let ?v' = "?v\<lparr>ata_phase := if read_error dk l then Fault else Sending (bytes_words (sectors dk l))\<rparr>"
  obtain k where k: "k \<le> latency" "view ?d = begin_read k ?v" using read_command [OF assms(1)] by blast
  have v: "view ?d = ?v'\<lparr>busy := k\<rparr>" using k(2) assms(2,3) by (simp add: begin_read_def dev_read_def)
  obtain d1 where d1: "run_state (read_times 4 bus (base + 0x206)) (s\<lparr>hw := ?d\<rparr>) = ((), s\<lparr>hw := d1\<rparr>)" "view d1 = view ?d"
    using alt_status_ok [of 4 "s\<lparr>hw := ?d\<rparr>"] by auto
  have p: "ata_phase (view d1) \<notin> {Idle, Absent}" "busy (view d1) \<le> timeout" using d1(2) v k(1) assms(4) by simp_all
  obtain d2 where d2: "run_state (wait_for_drive_data_ready b bus base timeout) (s\<lparr>hw := d1\<rparr>) = (ata_phase (view d1) \<noteq> Fault, s\<lparr>hw := d2\<rparr>)"
      "view d2 = (view d1)\<lparr>busy := 0\<rparr>"
    using data_ready_ok [of "s\<lparr>hw := d1\<rparr>" timeout b] p by auto
  have "view d2 = ?v'" using d2(2) d1(2) v assms(1) by (simp add: quiet_def)
  moreover have "(ata_phase (view d1) \<noteq> Fault) = (\<not> read_error dk l)" using d1(2) v by simp
  ultimately show thesis using that d1(1) d2(1) by simp
qed

lemma ata_read_sector_ok:
  assumes "latency \<le> ATA_WAIT_TIMEOUT_MS b" "busy (view (hw s)) \<le> latency"
    and "ata_phase (view (hw s)) = Idle \<or> ata_phase (view (hw s)) = Fault \<and> tolerant b"
    and "consecutive_read_failures s < MAX_CONSECUTIVE_FAILURES" "formatted (media (view (hw s)) m)"
  shows "\<exists>s'. run_state (ata_read_sector b bus base lba m) s
      = (case dev_read (lba AND 0x0FFFFFFF) (media (view (hw s)) m) of None \<Rightarrow> ((False, []), s') | Some bytes \<Rightarrow> ((True, bytes), s'))
    \<and> media (view (hw s')) = media (view (hw s)) \<and> busy (view (hw s')) = 0
    \<and> (if read_error (media (view (hw s)) m) (lba AND 0x0FFFFFFF)
       then ata_phase (view (hw s')) = Fault \<and> consecutive_read_failures s' = consecutive_read_failures s + 1
       else ata_phase (view (hw s')) = Idle \<and> consecutive_read_failures s' = 0)"
proof -
  let ?v = "view (hw s)" and ?T = "ATA_WAIT_TIMEOUT_MS b" and ?l = "lba AND 0x0FFFFFFF"
  obtain d0 f where s0: "run_state (first_read bus base m) s = ((), s\<lparr>hw := d0, first_read_attempted := f\<rparr>)" "view d0 = ?v"
    using first_read_ok [of s m] assms by fastforce
  let ?s = "s\<lparr>first_read_attempted := f\<rparr>"
  have c: "s\<lparr>hw := d, first_read_attempted := f\<rparr> = ?s\<lparr>hw := d\<rparr>" for d by simp
  have idle: "ata_phase ?v = Idle \<or> ata_phase ?v = Fault" "ata_phase ?v = Idle \<or> tolerant b" "busy ?v \<le> ?T" using assms(1-3) by auto
  obtain d1 where d1: "run_state (wait_for_drive_ready b bus base ?T) (?s\<lparr>hw := d0\<rparr>) = (True, ?s\<lparr>hw := d1\<rparr>)" "view d1 = ?v\<lparr>busy := 0\<rparr>"
    using ready_ok [of "?s\<lparr>hw := d0\<rparr>" ?T b] s0(2) idle by auto
  have q1: "quiet (view d1)" using d1(2) idle(1) by (simp add: quiet_def)
  let ?d2 = "out8 bus (base + 6) (drive_head lba m) d1" and ?v2 = "?v\<lparr>busy := 0, regs := (regs ?v)(6 := drive_head lba m)\<rparr>"
  have v2: "view ?d2 = ?v2" using set_register [of 6 d1] q1 d1(2) by simp
  obtain d3 where d3: "run_state (read_times 4 bus (base + 0x206)) (?s\<lparr>hw := ?d2\<rparr>) = ((), ?s\<lparr>hw := d3\<rparr>)" "view d3 = ?v2"
    using alt_status_ok [of 4 "?s\<lparr>hw := ?d2\<rparr>"] v2 by auto
  obtain d4 where d4: "run_state (if b = VMWARE_BUILD then pit_delay bus 50 else ret ()) (?s\<lparr>hw := d3\<rparr>) = ((), ?s\<lparr>hw := d4\<rparr>)" "view d4 = ?v2"
    using d3(2) by (cases "b = VMWARE_BUILD") (auto simp: run_port elapse_view)
  obtain d5 where d5: "run_state (wait_for_drive_ready b bus base ?T) (?s\<lparr>hw := d4\<rparr>) = (True, ?s\<lparr>hw := d5\<rparr>)" "view d5 = ?v2"
    using ready_ok [of "?s\<lparr>hw := d4\<rparr>" ?T b] d4(2) idle by auto
  have q5: "quiet (view d5)" using d5(2) idle(1) by (simp add: quiet_def)
  obtain d6 where d6: "run_state (set_lba bus base lba) (?s\<lparr>hw := d5\<rparr>) = ((), ?s\<lparr>hw := d6\<rparr>)" "quiet (view d6)"
      "view d6 = ?v2\<lparr>regs := (regs ?v2)(2 := 1, 3 := ucast (lba AND 0xFF), 4 := ucast (drop_bit 8 lba AND 0xFF), 5 := ucast (drop_bit 16 lba AND 0xFF))\<rparr>"
    using set_lba_ok [of "?s\<lparr>hw := d5\<rparr>" lba] q5 d5(2) by auto
  have l: "lba_of (view d6) = ?l" "media (view d6) (master_of (view d6)) = media ?v m" "media (view d6) = media ?v" "busy (view d6) = 0"
    using lba_of_regs [of "view d6" lba m] d6(3) by simp_all
  obtain d7 d8 where d7: "run_state (read_times 4 bus (base + 0x206)) (?s\<lparr>hw := out8 bus (base + 7) 0x20 d6\<rparr>) = ((), ?s\<lparr>hw := d7\<rparr>)"
      "run_state (wait_for_drive_data_ready b bus base ?T) (?s\<lparr>hw := d7\<rparr>) = (\<not> read_error (media ?v m) ?l, ?s\<lparr>hw := d8\<rparr>)"
      "view d8 = (view d6)\<lparr>ata_phase := if read_error (media ?v m) ?l then Fault else Sending (bytes_words (sectors (media ?v m) ?l))\<rparr>"
    by (rule read_data_ok [OF d6(2) l(1,2) assms(1), of ?s b])
  note run = s0(1) c d1(1) d3(1) d4(1) d5(1) d6(1) d7(1,2)
  show ?thesis
  proof (cases "read_error (media ?v m) ?l")
    case True
    then show ?thesis using assms(4) run d7(3) l by (simp add: ata_read_sector_def run_port read_failed_def dev_read_def elapse_view)
  next
    case False
    let ?ws = "bytes_words (sectors (media ?v m) ?l)"
    have n: "length (sectors (media ?v m) ?l) = 512" using assms(5) by (simp add: formatted_def)
    then have "length ?ws = 256" by simp
    then have ws: "length ?ws = 256" "?ws \<noteq> []" "word_bytes ?ws = sectors (media ?v m) ?l"
      using word_bytes_bytes_words [of "sectors (media ?v m) ?l"] n by fastforce+
    obtain d9 where d9: "run_state (insw bus base 256) (?s\<lparr>hw := d8\<rparr>) = (?ws, ?s\<lparr>hw := d9\<rparr>)" "view d9 = (view d6)\<lparr>ata_phase := Idle\<rparr>"
      using insw_ok [of "?s\<lparr>hw := d8\<rparr>" ?ws] ws(1,2) d7(3) l(4) False by auto
    obtain da where da: "run_state (if b = REAL_HARDWARE then wait_for_drive_ready b bus base ?T else ret True) (?s\<lparr>hw := d9\<rparr>) = (True, ?s\<lparr>hw := da\<rparr>)"
        "view da = (view d6)\<lparr>ata_phase := Idle\<rparr>"
      using ready_ok [of "?s\<lparr>hw := d9\<rparr>" ?T b] d9(2) l(4) by (cases "b = REAL_HARDWARE") auto
    show ?thesis using False assms(4) run d9(1) da ws(3) l by (simp add: ata_read_sector_def run_port dev_read_def)
  qed
qed

text \<open>The data phase of a write.\<close>

lemma write_data_ok:
  assumes "quiet (view d)" "latency \<le> timeout" "length ws = 256"
  obtains d1 d2 k where "run_state (wait_for_drive_data_ready b bus base timeout) (s\<lparr>hw := out8 bus (base + 7) 0x30 d\<rparr>) = (True, s\<lparr>hw := d1\<rparr>)"
    and "run_state (outsw bus base ws) (s\<lparr>hw := d1\<rparr>) = ((), s\<lparr>hw := d2\<rparr>)" and "view d2 = end_write k ws (view d)" "k \<le> latency"
proof -
  let ?d = "out8 bus (base + 7) 0x30 d"
  obtain k where k: "k \<le> latency" "view ?d = (view d)\<lparr>busy := k, ata_phase := Receiving []\<rparr>" using write_command [OF assms(1)] by blast
  obtain d1 where d1: "run_state (wait_for_drive_data_ready b bus base timeout) (s\<lparr>hw := ?d\<rparr>) = (True, s\<lparr>hw := d1\<rparr>)"
      "view d1 = (view d)\<lparr>busy := 0, ata_phase := Receiving []\<rparr>"
    using data_ready_ok [of "s\<lparr>hw := ?d\<rparr>" timeout b] k assms(2) by auto
  have e: "end_write k ws (v\<lparr>busy := x, ata_phase := p\<rparr>) = end_write k ws v" for k v x p
    by (simp add: end_write_def lba_of_def master_of_def split: option.splits)
  have "ws \<noteq> []" using assms(3) by auto
  then obtain d2 k where "run_state (outsw bus base ws) (s\<lparr>hw := d1\<rparr>) = ((), s\<lparr>hw := d2\<rparr>)" "k \<le> latency" "view d2 = end_write k ws (view d)"
    using outsw_ok [of "s\<lparr>hw := d1\<rparr>" "[]" ws] d1(2) assms(3) e by auto
  then show thesis using that d1(1) by blast
qed

lemma end_write_view:
  "busy (end_write k ws v) = k" "ata_phase (end_write k ws v) = (if dev_write (lba_of v) (word_bytes ws) (media v (master_of v)) = None then Fault else Idle)"
  "media (end_write k ws v) = (case dev_write (lba_of v) (word_bytes ws) (media v (master_of v)) of
     None \<Rightarrow> media v | Some d \<Rightarrow> (media v)(master_of v := d))"
  by (simp_all add: end_write_def split: option.splits)

lemma ata_write_sector_ok:
  assumes "latency \<le> ATA_WAIT_TIMEOUT_MS b" "busy (view (hw s)) \<le> latency" "length buf = 512"
    and "ata_phase (view (hw s)) = Idle \<or> ata_phase (view (hw s)) = Fault \<and> tolerant b"
    and "w = dev_write (lba AND 0x0FFFFFFF) buf (media (view (hw s)) m)"
  shows "\<exists>d. run_state (ata_write_sector b bus base lba (Some buf) m) s = (w \<noteq> None \<or> tolerant b, s\<lparr>hw := d\<rparr>)
    \<and> media (view d) = (case w of None \<Rightarrow> media (view (hw s)) | Some dk \<Rightarrow> (media (view (hw s)))(m := dk))
    \<and> busy (view d) = 0 \<and> ata_phase (view d) = (if w \<noteq> None \<or> tolerant b then Idle else Fault)"
proof -
  let ?v = "view (hw s)" and ?T = "ATA_WAIT_TIMEOUT_MS b" and ?l = "lba AND 0x0FFFFFFF" and ?ws = "bytes_words buf"
  have idle: "ata_phase ?v = Idle \<or> ata_phase ?v = Fault" "ata_phase ?v = Idle \<or> tolerant b" "busy ?v \<le> ?T" using assms(1,2,4) by auto
  obtain d1 where d1: "run_state (wait_for_drive_ready b bus base ?T) s = (True, s\<lparr>hw := d1\<rparr>)" "view d1 = ?v\<lparr>busy := 0\<rparr>"
    using ready_ok [of s ?T b] idle by auto
  have q1: "quiet (view d1)" using d1(2) idle(1) by (simp add: quiet_def)
  obtain d2 where d2: "run_state (set_lba bus base lba) (s\<lparr>hw := d1\<rparr>) = ((), s\<lparr>hw := d2\<rparr>)" "quiet (view d2)"
      "view d2 = ?v\<lparr>busy := 0, regs := (regs ?v)(2 := 1, 3 := ucast (lba AND 0xFF), 4 := ucast (drop_bit 8 lba AND 0xFF), 5 := ucast (drop_bit 16 lba AND 0xFF))\<rparr>"
    using set_lba_ok [of "s\<lparr>hw := d1\<rparr>" lba] q1 d1(2) by auto
  let ?d3 = "out8 bus (base + 6) (drive_head lba m) d2"
  have v3: "quiet (view ?d3)" "lba_of (view ?d3) = ?l" "master_of (view ?d3) = m" "media (view ?d3) = media ?v"
    using set_register [of 6 d2] d2(2,3) lba_of_regs [of "view ?d3" lba m] by (simp_all add: quiet_def)
  have ws: "length ?ws = 256" "word_bytes ?ws = buf" using assms(3) word_bytes_bytes_words [of buf] by simp_all
  obtain d4 d5 k where d5: "run_state (wait_for_drive_data_ready b bus base ?T) (s\<lparr>hw := out8 bus (base + 7) 0x30 ?d3\<rparr>) = (True, s\<lparr>hw := d4\<rparr>)"
      "run_state (outsw bus base ?ws) (s\<lparr>hw := d4\<rparr>) = ((), s\<lparr>hw := d5\<rparr>)" "view d5 = end_write k ?ws (view ?d3)" "k \<le> latency"
    by (rule write_data_ok [OF v3(1) assms(1) ws(1), of b s])
  have v5: "busy (view d5) \<le> ?T" "ata_phase (view d5) = (if w = None then Fault else Idle)"
      "media (view d5) = (case w of None \<Rightarrow> media ?v | Some dk \<Rightarrow> (media ?v)(m := dk))"
    using d5(3,4) v3 ws(2) assms(1,5) by (simp_all add: end_write_view split: option.splits)
  obtain d6 where d6: "run_state (wait_for_drive_ready b bus base ?T) (s\<lparr>hw := d5\<rparr>) = (w \<noteq> None \<or> tolerant b, s\<lparr>hw := d6\<rparr>)"
      "view d6 = (view d5)\<lparr>busy := 0\<rparr>"
    using ready_ok [of "s\<lparr>hw := d5\<rparr>" ?T b] v5(1,2) by (auto split: if_splits)
  have q6: "quiet (view d6)" using d6(2) v5(2) by (simp add: quiet_def)
  obtain k' where k': "k' \<le> latency" "view (out8 bus (base + 7) 0xE7 d6) = (view d6)\<lparr>busy := k', ata_phase := Idle\<rparr>"
    using flush_command [OF q6] by blast
  obtain d7 where d7: "run_state (wait_for_drive_ready b bus base ?T) (s\<lparr>hw := out8 bus (base + 7) 0xE7 d6\<rparr>) = (True, s\<lparr>hw := d7\<rparr>)"
      "view d7 = (view d6)\<lparr>busy := 0, ata_phase := Idle\<rparr>"
    using ready_ok [of "s\<lparr>hw := out8 bus (base + 7) 0xE7 d6\<rparr>" ?T b] k' assms(1) by auto
  note run = d1(1) d2(1) d5(1,2) d6(1)
  show ?thesis
  proof (cases "w \<noteq> None \<or> tolerant b")
    case True
    then show ?thesis using run d7 v5(3) d6(2) assms(3) by (auto simp: ata_write_sector_def run_port)
  next
    case False
    then show ?thesis using run v5(2,3) d6(2) assms(3) by (auto simp: ata_write_sector_def run_port)
  qed
qed

text \<open>An error that the drive reports stays in its status until the next command; the strict builds never send one.\<close>

lemma error_sticks:
  assumes "ata_phase (view (hw s)) = Fault" "busy (view (hw s)) \<le> ATA_WAIT_TIMEOUT_MS b" "\<not> tolerant b"
  shows "\<exists>s'. run_state (ata_read_sector b bus base lba m) s = ((False, []), s') \<and> ata_phase (view (hw s')) = Fault \<and> busy (view (hw s')) \<le> ATA_WAIT_TIMEOUT_MS b"
proof -
  obtain d0 f where s0: "run_state (first_read bus base m) s = ((), s\<lparr>hw := d0, first_read_attempted := f\<rparr>)" "view d0 = view (hw s)"
    using first_read_ok [of s m] assms by fastforce
  let ?s = "s\<lparr>first_read_attempted := f\<rparr>"
  have c: "s\<lparr>hw := d, first_read_attempted := f\<rparr> = ?s\<lparr>hw := d\<rparr>" for d by simp
  obtain d1 where d1: "run_state (wait_for_drive_ready b bus base (ATA_WAIT_TIMEOUT_MS b)) (?s\<lparr>hw := d0\<rparr>) = (False, ?s\<lparr>hw := d1\<rparr>)"
      "view d1 = (view (hw s))\<lparr>busy := 0\<rparr>"
    using ready_ok [of "?s\<lparr>hw := d0\<rparr>" "ATA_WAIT_TIMEOUT_MS b" b] s0(2) assms by auto
  show ?thesis using s0 c d1 assms by (simp add: ata_read_sector_def read_failed_def)
qed

end

subsection \<open>A controller\<close>

text \<open>The registers of one controller, where every command takes 3 ms.\<close>

definition pio_bus :: "u16 \<Rightarrow> ata_view bus" where
  "pio_bus base = \<lparr>
     in8 = (\<lambda>port v. (if port = base + 7 then status_of v else 0, v)),
     out8 = (\<lambda>port x v.
       if port = base + 7
       then if x = 0x20 then begin_read 3 v
            else if x = 0x30 then v\<lparr>busy := 3, ata_phase := Receiving []\<rparr>
            else v\<lparr>busy := 3, ata_phase := Idle\<rparr>
       else v\<lparr>regs := (regs v)(port - base := x)\<rparr>),
     in16 = (\<lambda>port v. case ata_phase v of
       Sending (w # ws) \<Rightarrow> (w, v\<lparr>ata_phase := if ws = [] then Idle else Sending ws\<rparr>) | _ \<Rightarrow> (0, v)),
     out16 = (\<lambda>port w v. case ata_phase v of
       Receiving ws \<Rightarrow> if length ws < 255 then v\<lparr>ata_phase := Receiving (ws @ [w])\<rparr> else end_write 3 (ws @ [w]) v | _ \<Rightarrow> v),
     in32 = (\<lambda>port v. (0, v)), out32 = (\<lambda>port x v. v), elapse = (\<lambda>ms v. v\<lparr>busy := busy v - ms\<rparr>)\<rparr>"

interpretation pio: ata_controller "pio_bus base" base "\<lambda>v. v" 3 for base
  by unfold_locales (auto simp: pio_bus_def)

subsection \<open>The driver\<close>

text \<open>
  C25. A read of a sector is a read of the disk: over every controller that follows the protocol and whose
  commands take no longer than the timeout, \<^verbatim>\<open>ata_read_sector\<close> returns the 512 bytes of the sector whose
  number is given by the low 28 bits of the address, or reports the error of the disk; it leaves the
  disks alone, and counts failures.
\<close>

theorem ata_read_sector_correct:
  assumes "ata_controller bus base view latency" "latency \<le> ATA_WAIT_TIMEOUT_MS b" "busy (view (hw s)) \<le> latency"
    and "ata_phase (view (hw s)) = Idle \<or> ata_phase (view (hw s)) = Fault \<and> tolerant b"
    and "consecutive_read_failures s < MAX_CONSECUTIVE_FAILURES" "formatted (media (view (hw s)) m)"
  shows "\<exists>s'. run_state (ata_read_sector b bus base lba m) s
      = (case dev_read (lba AND 0x0FFFFFFF) (media (view (hw s)) m) of None \<Rightarrow> ((False, []), s') | Some bytes \<Rightarrow> ((True, bytes), s'))
    \<and> media (view (hw s')) = media (view (hw s)) \<and> busy (view (hw s')) = 0
    \<and> (if read_error (media (view (hw s)) m) (lba AND 0x0FFFFFFF)
       then ata_phase (view (hw s')) = Fault \<and> consecutive_read_failures s' = consecutive_read_failures s + 1
       else ata_phase (view (hw s')) = Idle \<and> consecutive_read_failures s' = 0)"
  by (rule ata_controller.ata_read_sector_ok [OF assms])

text \<open>
  C26. A write of a sector is a write of the disk: over every such controller \<^verbatim>\<open>ata_write_sector\<close> stores the 512
  bytes in the sector given by the low 28 bits of the address of the drive chosen, and changes nothing
  else. It reports an error of the disk on the strict builds only: where the status is polled for QEMU
  or VMware, a failed write is reported as done.
\<close>

theorem ata_write_sector_correct:
  assumes "ata_controller bus base view latency" "latency \<le> ATA_WAIT_TIMEOUT_MS b" "busy (view (hw s)) \<le> latency" "length buf = 512"
    and "ata_phase (view (hw s)) = Idle \<or> ata_phase (view (hw s)) = Fault \<and> tolerant b"
    and "w = dev_write (lba AND 0x0FFFFFFF) buf (media (view (hw s)) m)"
  shows "\<exists>d. run_state (ata_write_sector b bus base lba (Some buf) m) s = (w \<noteq> None \<or> tolerant b, s\<lparr>hw := d\<rparr>)
    \<and> media (view d) = (case w of None \<Rightarrow> media (view (hw s)) | Some dk \<Rightarrow> (media (view (hw s)))(m := dk))
    \<and> busy (view d) = 0 \<and> ata_phase (view d) = (if w \<noteq> None \<or> tolerant b then Idle else Fault)"
  by (rule ata_controller.ata_write_sector_ok [OF assms])

definition disk7 :: disk where
  "disk7 = \<lparr>sectors = (\<lambda>l. replicate 512 (if l = 5 then 7 else 0)), read_error = (\<lambda>l. l = 9), write_error = (\<lambda>l. l = 9), dropped = (\<lambda>_. False)\<rparr>"

definition ata0 :: "ata_view ata" where
  "ata0 = \<lparr>hw = \<lparr>regs = (\<lambda>_. 0), busy = 2, ata_phase = Idle, media = (\<lambda>_. disk7)\<rparr>, detected_drives = [],
     consecutive_read_failures = 0, first_read_attempted = (False, False)\<rparr>"

theorem ata_read_sector_correct_witness:
  "fst (run_state (ata_read_sector REAL_HARDWARE (pio_bus 0x1F0) 0x1F0 5 True) ata0) = (True, replicate 512 7)
   \<and> fst (run_state (ata_read_sector REAL_HARDWARE (pio_bus 0x1F0) 0x1F0 9 False) ata0) = (False, [])"
proof -
  have f: "formatted disk7" "formatted (media (hw ata0) m)" for m by (simp_all add: formatted_def disk7_def ata0_def)
  have a: "3 \<le> ATA_WAIT_TIMEOUT_MS REAL_HARDWARE" "busy (hw ata0) \<le> 3" "consecutive_read_failures ata0 < MAX_CONSECUTIVE_FAILURES"
    "ata_phase (hw ata0) = Idle \<or> ata_phase (hw ata0) = Fault \<and> tolerant REAL_HARDWARE" by (simp_all add: ata0_def)
  note r = ata_read_sector_correct [OF pio.ata_controller_axioms a(1,2,4,3) f(2)]
  have "dev_read (5 AND 0x0FFFFFFF) (media (hw ata0) True) = Some (replicate 512 7)" "dev_read (9 AND 0x0FFFFFFF) (media (hw ata0) False) = None"
    by (simp_all add: dev_read_def ata0_def disk7_def)
  then show ?thesis using r [of "0x1F0" 5 True] r [of "0x1F0" 9 False] by auto
qed

theorem ata_write_sector_correct_witness:
  "\<exists>d. run_state (ata_write_sector QEMU_BUILD (pio_bus 0x170) 0x170 6 (Some (replicate 512 1)) True) ata0 = (True, ata0\<lparr>hw := d\<rparr>)
   \<and> sectors (media d True) 6 = replicate 512 1 \<and> sectors (media d False) 6 = replicate 512 0"
proof -
  have a: "3 \<le> ATA_WAIT_TIMEOUT_MS QEMU_BUILD" "busy (hw ata0) \<le> 3" "length (replicate 512 (1 :: u8)) = 512"
    "ata_phase (hw ata0) = Idle \<or> ata_phase (hw ata0) = Fault \<and> tolerant QEMU_BUILD" by (simp_all add: ata0_def)
  have "dev_write (6 AND 0x0FFFFFFF) (replicate 512 1) (media (hw ata0) True) = Some (disk7\<lparr>sectors := (sectors disk7)(6 := replicate 512 1)\<rparr>)"
    by (simp add: dev_write_def ata0_def disk7_def)
  from ata_write_sector_correct [OF pio.ata_controller_axioms a this [symmetric], of "0x170"] show ?thesis
    by (auto simp: ata0_def disk7_def)
qed

text \<open>After five failures in a row no sector of any drive is read any more, whatever the drives do.\<close>

lemma read_lockout:
  assumes "consecutive_read_failures s \<ge> MAX_CONSECUTIVE_FAILURES" "attempted base (first_read_attempted s)"
  shows "run_state (ata_read_sector b bus base lba m) s = ((False, []), s)"
  using assms by (simp add: ata_read_sector_def first_read_def)

end
