(* ===== verification/Fdd.thy ===== *)
theory Fdd
  imports Ata_Correct "HOL-Library.Sublist"
begin

text \<open>
  The driver of the floppy disks (\<^verbatim>\<open>drivers/block/fdd.c\<close>). The devices may raise interrupt 6 while time
  passes; \<open>irq\<close>, a parameter like the ports, tells whether one is pending and takes it, and the handler
  runs at the next delay, when it is installed. The transfer itself is done by the DMA controller,
  which the driver only programs. \<^verbatim>\<open>print_fdc_status\<close> and \<^verbatim>\<open>debug_read_bootsector\<close> only print.
\<close>

subsection \<open>State\<close>

record 'd fdd = "'d ata" +
  irq_triggered :: bool
  irq_count :: int
  irq6_installed :: bool
  fdc_controller_initialized :: bool

type_synonym ('d, 'a) fdc = "('d fdd, 'a) state"
type_synonym 'd irq_line = "'d \<Rightarrow> bool \<times> 'd"

abbreviation FDD_DOR :: u16 where "FDD_DOR \<equiv> 0x3F2"
abbreviation FDD_MSR :: u16 where "FDD_MSR \<equiv> 0x3F4"
abbreviation FDD_FIFO :: u16 where "FDD_FIFO \<equiv> 0x3F5"
abbreviation FDD_CCR :: u16 where "FDD_CCR \<equiv> 0x3F7"

subsection \<open>Interrupts\<close>

definition fdd_irq_handler :: "'d bus \<Rightarrow> ('d, unit) fdc" where
  "fdd_irq_handler bus = do {
     modify (\<lambda>s. s\<lparr>irq_triggered := True, irq_count := s32 (irq_count s + 1)\<rparr>);
     outb bus 0x20 0x20 }"

definition delay_ms :: "'d bus \<Rightarrow> 'd irq_line \<Rightarrow> nat \<Rightarrow> ('d, unit) fdc" where
  "delay_ms bus irq ms = do {
     pit_delay bus ms;
     installed \<leftarrow> asks irq6_installed;
     pending \<leftarrow> (if installed then hw_get irq else ret False);
     if pending then fdd_irq_handler bus else ret () }"

definition unmask_irq6 :: "'d bus \<Rightarrow> ('d, unit) fdc" where
  "unmask_irq6 bus = do { mask \<leftarrow> inb bus 0x21; outb bus 0x21 (mask AND NOT 0x40) }"

definition mask_irq6 :: "'d bus \<Rightarrow> ('d, unit) fdc" where
  "mask_irq6 bus = do { mask \<leftarrow> inb bus 0x21; outb bus 0x21 (mask OR 0x40) }"

definition fdc_initialize :: "'d bus \<Rightarrow> ('d, unit) fdc" where
  "fdc_initialize bus = do { modify (\<lambda>s. s\<lparr>irq6_installed := True\<rparr>); unmask_irq6 bus }"

subsection \<open>Commands\<close>

definition fdc_ready_to_write :: "'d bus \<Rightarrow> ('d, bool) fdc" where
  "fdc_ready_to_write bus = do { msr \<leftarrow> inb bus FDD_MSR; ret (msr AND 0x80 \<noteq> 0 \<and> msr AND 0x40 = 0) }"

definition fdc_ready_to_read :: "'d bus \<Rightarrow> ('d, bool) fdc" where
  "fdc_ready_to_read bus = do { msr \<leftarrow> inb bus FDD_MSR; ret (msr AND 0x80 \<noteq> 0 \<and> msr AND 0x40 \<noteq> 0) }"

text \<open>\<^verbatim>\<open>while (ms--)\<close>: at most \<open>ms\<close> tests, with a delay after each that fails.\<close>

primrec fdc_wait :: "nat \<Rightarrow> ('d, bool) fdc \<Rightarrow> 'd bus \<Rightarrow> 'd irq_line \<Rightarrow> ('d, bool) fdc" where
  "fdc_wait 0 test bus irq = ret False"
| "fdc_wait (Suc ms) test bus irq = do {
     ok \<leftarrow> test;
     if ok then ret True else do { delay_ms bus irq 1; fdc_wait ms test bus irq } }"

definition fdc_wait_write :: "'d bus \<Rightarrow> 'd irq_line \<Rightarrow> nat \<Rightarrow> ('d, bool) fdc" where
  "fdc_wait_write bus irq ms = fdc_wait ms (fdc_ready_to_write bus) bus irq"

definition fdc_wait_read :: "'d bus \<Rightarrow> 'd irq_line \<Rightarrow> nat \<Rightarrow> ('d, bool) fdc" where
  "fdc_wait_read bus irq ms = fdc_wait ms (fdc_ready_to_read bus) bus irq"

definition fdc_get_status :: "'d bus \<Rightarrow> ('d, u8) fdc" where
  "fdc_get_status bus = inb bus FDD_MSR"

definition fdc_motor_on :: "'d bus \<Rightarrow> u8 \<Rightarrow> ('d, unit) fdc" where
  "fdc_motor_on bus drive = outb bus FDD_DOR (0x1C OR (drive AND 3))"

definition fdc_motor_off :: "'d bus \<Rightarrow> u8 \<Rightarrow> ('d, unit) fdc" where
  "fdc_motor_off bus drive = outb bus FDD_DOR (0x0C OR (drive AND 3))"

definition fdc_wait_for_irq :: "'d bus \<Rightarrow> 'd irq_line \<Rightarrow> ('d, bool) fdc" where
  "fdc_wait_for_irq bus irq = fdc_wait 3000 (asks irq_triggered) bus irq"

definition fdc_send_command :: "'d bus \<Rightarrow> 'd irq_line \<Rightarrow> u8 \<Rightarrow> ('d, bool) fdc" where
  "fdc_send_command bus irq command = do {
     ready \<leftarrow> fdc_wait_write bus irq 100;
     if \<not> ready then ret False else do { outb bus FDD_FIFO command; ret True } }"

definition fdc_read_data :: "'d bus \<Rightarrow> 'd irq_line \<Rightarrow> ('d, u8) fdc" where
  "fdc_read_data bus irq = do {
     ready \<leftarrow> fdc_wait_read bus irq 100;
     if \<not> ready then ret 0xFF else inb bus FDD_FIFO }"

text \<open>A chain of \<^verbatim>\<open>||\<close>: the commands up to the first that fails.\<close>

primrec send_commands :: "'d bus \<Rightarrow> 'd irq_line \<Rightarrow> u8 list \<Rightarrow> ('d, bool) fdc" where
  "send_commands bus irq [] = ret True"
| "send_commands bus irq (c # cs) = do {
     ok \<leftarrow> fdc_send_command bus irq c;
     if \<not> ok then ret False else send_commands bus irq cs }"

primrec read_bytes :: "nat \<Rightarrow> 'd bus \<Rightarrow> 'd irq_line \<Rightarrow> ('d, u8 list) fdc" where
  "read_bytes 0 bus irq = ret []"
| "read_bytes (Suc n) bus irq = do { b \<leftarrow> fdc_read_data bus irq; bs \<leftarrow> read_bytes n bus irq; ret (b # bs) }"

definition fdc_full_reset :: "'d bus \<Rightarrow> 'd irq_line \<Rightarrow> ('d, unit) fdc" where
  "fdc_full_reset bus irq = do {
     outb bus FDD_DOR 0x00; delay_ms bus irq 20;
     outb bus FDD_DOR 0x0C; delay_ms bus irq 20;
     outb bus FDD_CCR 0x00 }"

subsection \<open>DMA\<close>

text \<open>The writes that program the DMA controller, in order.\<close>

definition dma_writes :: "u32 \<Rightarrow> u16 \<Rightarrow> bool \<Rightarrow> (u16 \<times> u8) list" where
  "dma_writes buffer len read =
     (let address = ucast (buffer AND 0xFFFF) :: u16; page = ucast (drop_bit 16 buffer AND 0xFF) :: u8; count = len - 1
      in [(0x0A, 0x06), (0x0C, 0x00), (0x04, ucast (address AND 0xFF)), (0x04, ucast (drop_bit 8 address AND 0xFF)), (0x81, page),
          (0x05, ucast (count AND 0xFF)), (0x05, ucast (drop_bit 8 count AND 0xFF)), (0x0B, if read then 0x46 else 0x4A), (0x0A, 0x02)])"

primrec out_all :: "'d bus \<Rightarrow> (u16 \<times> u8) list \<Rightarrow> ('d, 'z, unit) io" where
  "out_all bus [] = ret ()"
| "out_all bus (w # ws) = do { outb bus (fst w) (snd w); out_all bus ws }"

definition dma_prepare_floppy :: "'d bus \<Rightarrow> u32 \<Rightarrow> u16 \<Rightarrow> bool \<Rightarrow> ('d, 'z, unit) io" where
  "dma_prepare_floppy bus buffer len read = out_all bus (dma_writes buffer len read)"

subsection \<open>Controller and sectors\<close>

primrec clear_interrupts :: "nat \<Rightarrow> 'd bus \<Rightarrow> 'd irq_line \<Rightarrow> ('d, unit) fdc" where
  "clear_interrupts 0 bus irq = ret ()"
| "clear_interrupts (Suc n) bus irq = do {
     modify (\<lambda>s. s\<lparr>irq_triggered := False\<rparr>);
     delay_ms bus irq 10;
     _ \<leftarrow> fdc_send_command bus irq 0x08;
     _ \<leftarrow> read_bytes 2 bus irq;
     clear_interrupts n bus irq }"

definition fdc_init_controller :: "'d bus \<Rightarrow> 'd irq_line \<Rightarrow> ('d, bool) fdc" where
  "fdc_init_controller bus irq = do {
     fdc_initialize bus;
     outb bus FDD_DOR 0x00; delay_ms bus irq 10;
     outb bus FDD_DOR 0x0C; delay_ms bus irq 10;
     outb bus FDD_CCR 0x00;
     clear_interrupts 4 bus irq;
     send_commands bus irq [0x03, 0xDF, 0x02] }"

definition read_command_bytes :: "u8 \<Rightarrow> u8 \<Rightarrow> u8 \<Rightarrow> u8 \<Rightarrow> u8 list" where
  "read_command_bytes drive head track sector =
     [0xE6, push_bit 2 head OR (drive AND 3), track, head, sector, 2, 18, 0x1B, 0xFF]"

definition fdc_read_sector :: "'d bus \<Rightarrow> 'd irq_line \<Rightarrow> u8 \<Rightarrow> u8 \<Rightarrow> u8 \<Rightarrow> u8 \<Rightarrow> u32 \<Rightarrow> ('d, bool) fdc" where
  "fdc_read_sector bus irq drive head track sector buffer = do {
     ready \<leftarrow> fdc_wait_write bus irq 100;
     if \<not> ready then ret False
     else do {
       dma_prepare_floppy bus buffer 512 True;
       modify (\<lambda>s. s\<lparr>irq_triggered := False\<rparr>);
       ok \<leftarrow> send_commands bus irq (read_command_bytes drive head track sector);
       if \<not> ok then ret False
       else do {
         ok \<leftarrow> fdc_wait_for_irq bus irq;
         if \<not> ok then ret False
         else do {
           st \<leftarrow> read_bytes 7 bus irq;
           ret (hd st AND 0xC0 = 0) } } } }"

primrec calibrate_attempts :: "nat \<Rightarrow> 'd bus \<Rightarrow> 'd irq_line \<Rightarrow> u8 \<Rightarrow> ('d, bool) fdc" where
  "calibrate_attempts 0 bus irq drive = ret False"
| "calibrate_attempts (Suc n) bus irq drive = do {
     fdc_motor_on bus drive;
     delay_ms bus irq 500;
     modify (\<lambda>s. s\<lparr>irq_triggered := False\<rparr>);
     ok \<leftarrow> send_commands bus irq [0x07, drive AND 3];
     if \<not> ok then do { fdc_motor_off bus drive; calibrate_attempts n bus irq drive }
     else do {
       ok \<leftarrow> fdc_wait_for_irq bus irq;
       if \<not> ok then do { fdc_motor_off bus drive; fdc_full_reset bus irq; calibrate_attempts n bus irq drive }
       else do {
         ok \<leftarrow> fdc_send_command bus irq 0x08;
         if \<not> ok then do { fdc_motor_off bus drive; fdc_full_reset bus irq; calibrate_attempts n bus irq drive }
         else do {
           st0 \<leftarrow> fdc_read_data bus irq;
           cyl \<leftarrow> fdc_read_data bus irq;
           fdc_motor_off bus drive;
           if st0 AND 0x20 \<noteq> 0 \<and> cyl = 0 then ret True
           else do { fdc_full_reset bus irq; delay_ms bus irq 100; calibrate_attempts n bus irq drive } } } } }"

definition fdc_calibrate_drive :: "'d bus \<Rightarrow> 'd irq_line \<Rightarrow> u8 \<Rightarrow> ('d, bool) fdc" where
  "fdc_calibrate_drive bus irq drive = calibrate_attempts 3 bus irq drive"

subsection \<open>Detection\<close>

text \<open>
  \<open>room\<close> is the outcome of the allocation and \<open>junk\<close> what the block holds. The table is extended without
  a test of its size.
\<close>

primrec fdd_probe :: "u8 list \<Rightarrow> 'd bus \<Rightarrow> 'd irq_line \<Rightarrow> (u8 \<Rightarrow> bool) \<Rightarrow> drive_t \<Rightarrow> ('d, unit) fdc" where
  "fdd_probe [] bus irq room junk = ret ()"
| "fdd_probe (drive # ds) bus irq room junk = do {
     fdc_motor_on bus drive;
     delay_ms bus irq 500;
     ok \<leftarrow> fdc_calibrate_drive bus irq drive;
     if \<not> ok then do { fdc_motor_off bus drive; fdd_probe ds bus irq room junk }
     else do {
       msr \<leftarrow> fdc_get_status bus;
       if msr AND 0x80 = 0 \<or> \<not> room drive then do { fdc_motor_off bus drive; fdd_probe ds bus irq room junk }
       else do {
         modify (\<lambda>s. s\<lparr>detected_drives := detected_drives s @ [junk\<lparr>dr_type := DRIVE_TYPE_FDD, dr_fdd_no := drive,
           dr_name := drive_name (lit ''fdd%d'') (unat drive), dr_cylinder := 80, dr_head := 2, dr_sector := 18, mount_point := []\<rparr>]\<rparr>);
         fdc_motor_off bus drive;
         fdd_probe ds bus irq room junk } } }"

definition fdd_detect_drives :: "'d bus \<Rightarrow> 'd irq_line \<Rightarrow> (u8 \<Rightarrow> bool) \<Rightarrow> drive_t \<Rightarrow> ('d, unit) fdc" where
  "fdd_detect_drives bus irq room junk = do {
     initialized \<leftarrow> asks fdc_controller_initialized;
     ok \<leftarrow> (if initialized then ret True
           else do {
             ok \<leftarrow> fdc_init_controller bus irq;
             _ \<leftarrow> (if ok then modify (\<lambda>s. s\<lparr>fdc_controller_initialized := True\<rparr>) else ret ());
             ret ok });
     if \<not> ok then ret () else fdd_probe [0, 1] bus irq room junk }"

subsection \<open>The table of drives\<close>

definition keeps_drives :: "('d, 'a) fdc \<Rightarrow> bool" where
  "keeps_drives m \<longleftrightarrow> (\<forall>s. detected_drives (snd (run_state m s)) = detected_drives s)"

named_theorems keeps \<open>programs that leave the table of drives alone\<close>

lemma keeps_only_hw: "only_hw m \<Longrightarrow> keeps_drives (m :: ('d, 'a) fdc)"
  unfolding keeps_drives_def only_hw_def
proof
  fix s :: "'d fdd"
  assume "\<forall>s. \<exists>x d. run_state m s = (x, s\<lparr>hw := d\<rparr>)"
  then obtain x d where "run_state m s = (x, s\<lparr>hw := d\<rparr>)" by blast
  then show "detected_drives (snd (run_state m s)) = detected_drives s" by simp
qed

lemma keeps_bind [keeps]: "keeps_drives m \<Longrightarrow> (\<And>x. keeps_drives (f x)) \<Longrightarrow> keeps_drives (State_Monad.bind m f)"
  by (auto simp: keeps_drives_def split: prod.splits) (metis snd_conv)

lemma keeps_if [keeps]: "keeps_drives m \<Longrightarrow> keeps_drives n \<Longrightarrow> keeps_drives (if b then m else n)" by simp

lemma keeps_basic [keeps]:
  "keeps_drives (ret x)" "keeps_drives (asks f)" "keeps_drives (inb bus port)" "keeps_drives (outb bus port v)" "keeps_drives (pit_delay bus ms)"
  "keeps_drives (hw_get g)" "keeps_drives (modify (\<lambda>s. s\<lparr>irq_triggered := b\<rparr>))" "keeps_drives (modify (\<lambda>s. s\<lparr>irq6_installed := b\<rparr>))"
  "keeps_drives (modify (\<lambda>s. s\<lparr>fdc_controller_initialized := b\<rparr>))" "keeps_drives (modify (\<lambda>s. s\<lparr>irq_triggered := b, irq_count := h s\<rparr>))"
  by (simp_all add: keeps_drives_def run_port hw_get_def split_def Let_def)

lemma keeps_delay_ms [keeps]: "keeps_drives (delay_ms bus irq ms)"
  unfolding delay_ms_def fdd_irq_handler_def by (intro keeps)

lemma keeps_fdc_wait [keeps]: "keeps_drives test \<Longrightarrow> keeps_drives (fdc_wait n test bus irq)"
  by (induction n) (auto intro!: keeps)

lemma keeps_commands [keeps]:
  "keeps_drives (fdc_wait_write bus irq n)" "keeps_drives (fdc_wait_read bus irq n)" "keeps_drives (fdc_wait_for_irq bus irq)"
  "keeps_drives (fdc_motor_on bus drive)" "keeps_drives (fdc_motor_off bus drive)" "keeps_drives (fdc_get_status bus)"
  "keeps_drives (fdc_full_reset bus irq)" "keeps_drives (fdc_initialize bus)"
  unfolding fdc_wait_write_def fdc_wait_read_def fdc_wait_for_irq_def fdc_ready_to_write_def fdc_ready_to_read_def fdc_motor_on_def
    fdc_motor_off_def fdc_get_status_def fdc_full_reset_def fdc_initialize_def unmask_irq6_def
  by (intro keeps)+

lemma keeps_fifo [keeps]: "keeps_drives (fdc_send_command bus irq c)" "keeps_drives (fdc_read_data bus irq)"
  unfolding fdc_send_command_def fdc_read_data_def by (intro keeps)+

lemma keeps_send_commands [keeps]: "keeps_drives (send_commands bus irq cs)"
  by (induction cs) (auto intro!: keeps)

lemma keeps_read_bytes [keeps]: "keeps_drives (read_bytes n bus irq)"
  by (induction n) (auto intro!: keeps)

lemma keeps_clear_interrupts [keeps]: "keeps_drives (clear_interrupts n bus irq)"
  by (induction n) (auto intro!: keeps simp del: read_bytes.simps)

lemma keeps_calibrate [keeps]: "keeps_drives (calibrate_attempts n bus irq drive)"
  by (induction n) (auto intro!: keeps simp del: send_commands.simps)

lemma keeps_init [keeps]: "keeps_drives (fdc_init_controller bus irq)"
  unfolding fdc_init_controller_def by (intro keeps)

lemma keepsD: "keeps_drives m \<Longrightarrow> run_state m s = (x, s') \<Longrightarrow> detected_drives s' = detected_drives s"
  by (metis keeps_drives_def snd_conv)

text \<open>The entry of a floppy drive.\<close>

definition floppy :: "drive_t \<Rightarrow> bool" where
  "floppy d \<longleftrightarrow> dr_type d = DRIVE_TYPE_FDD \<and> dr_name d = lit ''fdd'' @ [48 + dr_fdd_no d] \<and> dr_cylinder d = 80 \<and> dr_head d = 2
     \<and> dr_sector d = 18 \<and> mount_point d = []"

lemma drive_name_fdd: "drive \<in> {0, 1} \<Longrightarrow> drive_name (lit ''fdd%d'') (unat (drive :: u8)) = lit ''fdd'' @ [48 + drive]"
proof -
  assume "drive \<in> {0, 1}"
  moreover have "drive_name (lit ''fdd%d'') 0 = lit ''fdd'' @ [48]" "drive_name (lit ''fdd%d'') 1 = lit ''fdd'' @ [48 + 1]" by code_simp+
  ultimately show ?thesis by auto
qed

lemma fdd_probe_ok:
  assumes "set ds \<subseteq> {0, 1}" "run_state (fdd_probe ds bus irq room junk) s = (x, s')"
  shows "\<exists>es. detected_drives s' = detected_drives s @ es \<and> list_all floppy es \<and> subseq (map dr_fdd_no es) ds"
  using assms
proof (induction ds arbitrary: s)
  case Nil
  then show ?case by simp
next
  case (Cons a ds)
  let ?e = "junk\<lparr>dr_type := DRIVE_TYPE_FDD, dr_fdd_no := a, dr_name := drive_name (lit ''fdd%d'') (unat a), dr_cylinder := 80, dr_head := 2,
    dr_sector := 18, mount_point := []\<rparr>"
  have e: "floppy ?e" using Cons.prems(1) by (simp add: floppy_def drive_name_fdd)
  have "keeps_drives (do { fdc_motor_on bus a; delay_ms bus irq 500; fdc_calibrate_drive bus irq a })"
    unfolding fdc_calibrate_drive_def by (intro keeps)
  obtain ok s1 where s1: "run_state (do { fdc_motor_on bus a; delay_ms bus irq 500; fdc_calibrate_drive bus irq a }) s = (ok, s1)" using prod.exhaust by blast
  have d1: "detected_drives s1 = detected_drives s" by (rule keepsD [OF \<open>keeps_drives _\<close> s1])
  obtain y s2 where s2: "run_state (fdc_motor_off bus a) s1 = (y, s2)" using prod.exhaust by blast
  obtain msr s3 where s3: "run_state (fdc_get_status bus) s1 = (msr, s3)" using prod.exhaust by blast
  obtain z s4 where s4: "run_state (fdc_motor_off bus a) s3 = (z, s4)" using prod.exhaust by blast
  obtain u s5 where s5: "run_state (fdc_motor_off bus a) (s3\<lparr>detected_drives := detected_drives s3 @ [?e]\<rparr>) = (u, s5)" using prod.exhaust by blast
  have d: "detected_drives s2 = detected_drives s" "detected_drives s4 = detected_drives s" "detected_drives s5 = detected_drives s @ [?e]"
    using keepsD [OF keeps_commands(5) s2] keepsD [OF keeps_commands(6) s3] keepsD [OF keeps_commands(5) s4] keepsD [OF keeps_commands(5) s5] d1 by simp_all
  have r: "run_state (fdd_probe (a # ds) bus irq room junk) s =
      (if \<not> ok then run_state (fdd_probe ds bus irq room junk) s2
       else if msr AND 0x80 = 0 \<or> \<not> room a then run_state (fdd_probe ds bus irq room junk) s4
       else run_state (fdd_probe ds bus irq room junk) s5)"
    using s1 s2 s3 s4 s5 by (auto split: prod.splits)
  consider (skip) t where "detected_drives t = detected_drives s" "run_state (fdd_probe ds bus irq room junk) t = (x, s')"
    | (add) "run_state (fdd_probe ds bus irq room junk) s5 = (x, s')"
    using r d Cons.prems(2) by (auto split: if_splits)
  then show ?case
  proof cases
    case skip
    then show ?thesis using Cons.IH [of t] Cons.prems(1) by (auto intro: list_emb_Cons)
  next
    case add
    then obtain es where "detected_drives s' = detected_drives s5 @ es" "list_all floppy es" "subseq (map dr_fdd_no es) ds"
      using Cons.IH [of s5] Cons.prems(1) by auto
    then show ?thesis using d(3) e by (intro exI [of _ "?e # es"]) simp
  qed
qed

text \<open>Whatever the controller does, detection only appends entries of drives 0 and 1, in this order.\<close>

lemma fdd_detect_drives_ok:
  assumes "run_state (fdd_detect_drives bus irq room junk) s = (x, s')"
  shows "\<exists>es. detected_drives s' = detected_drives s @ es \<and> list_all floppy es \<and> subseq (map dr_fdd_no es) [0, 1]"
proof -
  let ?init = "if fdc_controller_initialized s then ret True else do {
             ok \<leftarrow> fdc_init_controller bus irq;
             _ \<leftarrow> (if ok then modify (\<lambda>s. s\<lparr>fdc_controller_initialized := True\<rparr>) else ret ());
             ret ok }"
  have k: "keeps_drives ?init" by (intro keeps)
  obtain ok s1 where s1: "run_state ?init s = (ok, s1)" using prod.exhaust by blast
  have d: "detected_drives s1 = detected_drives s" by (rule keepsD [OF k s1])
  have "run_state (fdd_detect_drives bus irq room junk) s = (if \<not> ok then ((), s1) else run_state (fdd_probe [0, 1] bus irq room junk) s1)"
    using s1 by (simp add: fdd_detect_drives_def del: fdd_probe.simps)
  then show ?thesis using assms d fdd_probe_ok [of "[0, 1]" bus irq room junk s1 x s'] by (auto split: if_splits)
qed

text \<open>The table has room for four drives; a floppy drive behind four disks is written behind its end.\<close>

definition lucky_bus :: "u8 list bus" where
  "lucky_bus = \<lparr>in8 = (\<lambda>port d. if port = FDD_MSR then (if d = [] then 0x80 else 0xC0, d) else case d of [] \<Rightarrow> (0, []) | b # bs \<Rightarrow> (b, bs)),
     out8 = (\<lambda>port x d. if port = FDD_FIFO \<and> x = 8 then [0x20, 0] else d), in16 = (\<lambda>port d. (0, d)), out16 = (\<lambda>port x d. d),
     in32 = (\<lambda>port d. (0, d)), out32 = (\<lambda>port x d. d), elapse = (\<lambda>ms d. d)\<rparr>"

definition four_disks :: "drive_t \<Rightarrow> u8 list fdd" where
  "four_disks x = \<lparr>hw = [], detected_drives = [x, x, x, x], consecutive_read_failures = 0, first_read_attempted = (True, True),
     irq_triggered = False, irq_count = 0, irq6_installed = True, fdc_controller_initialized = True\<rparr>"

lemma fdd_overrun:
  "length (detected_drives (snd (run_state (fdd_detect_drives lucky_bus (\<lambda>d. (True, d)) (\<lambda>_. True) x) (four_disks x)))) = 6"
  by (code_simp)

end
