(* ===== verification/Ata_Detect.thy ===== *)
theory Ata_Detect
  imports Ata_Correct
begin

text \<open>
  Detection of the drives: over the two channels of an IDE controller, \<^verbatim>\<open>ata_detect_drives\<close> finds exactly
  the drives that answer the IDENTIFY command. The locale \<open>ide_channels\<close> adds this command to the
  protocol of a channel: \<open>ident base master\<close> are the words with which the drive answers, if there is one.
\<close>

subsection \<open>The IDENTIFY command\<close>

abbreviation channel :: "u16 \<Rightarrow> bool" where
  "channel base \<equiv> base \<in> {ATA_PRIMARY_IO, ATA_SECONDARY_IO}"

definition settled :: "ata_view \<Rightarrow> bool" where
  "settled v \<longleftrightarrow> busy v = 0 \<and> ata_phase v \<in> {Idle, Fault, Absent}"

definition identify_reply :: "u16 list option \<Rightarrow> nat \<Rightarrow> ata_view \<Rightarrow> ata_view" where
  "identify_reply words k v = (case words of
     None \<Rightarrow> v\<lparr>ata_phase := Absent\<rparr> | Some ws \<Rightarrow> v\<lparr>busy := k, ata_phase := Sending ws\<rparr>)"

locale ide_channels =
  fixes bus :: "'d bus" and view :: "u16 \<Rightarrow> 'd \<Rightarrow> ata_view" and latency :: nat and ident :: "u16 \<Rightarrow> bool \<Rightarrow> u16 list option"
  assumes controller: "channel base \<Longrightarrow> ata_controller bus base (view base) latency"
    and select: "channel base \<Longrightarrow> settled (view base d) \<Longrightarrow>
      view base (out8 bus (base + 6) x d) = (view base d)\<lparr>regs := (regs (view base d))(6 := x)\<rparr>"
    and identify_command: "channel base \<Longrightarrow> settled (view base d) \<Longrightarrow>
      \<exists>k \<le> latency. view base (out8 bus (base + 7) 0xEC d) = identify_reply (ident base (master_of (view base d))) k (view base d)"
    and identify_words: "channel base \<Longrightarrow> ident base m = Some ws \<Longrightarrow> length ws = 256"
    and other_in: "channel base \<Longrightarrow> channel other \<Longrightarrow> other \<noteq> base \<Longrightarrow> r \<in> {1, 7} \<Longrightarrow> view other (snd (in8 bus (base + r) d)) = view other d"
    and other_out: "channel base \<Longrightarrow> channel other \<Longrightarrow> other \<noteq> base \<Longrightarrow> r \<in> {6, 7} \<Longrightarrow> view other (out8 bus (base + r) x d) = view other d"
    and other_data: "channel base \<Longrightarrow> channel other \<Longrightarrow> other \<noteq> base \<Longrightarrow> view other (snd (in16 bus base d)) = view other d"

text \<open>A program that keeps a property of the devices; the rules follow its structure.\<close>

definition keeps_hw :: "('d \<Rightarrow> bool) \<Rightarrow> ('d, 'z, 'a) io \<Rightarrow> bool" where
  "keeps_hw P m \<longleftrightarrow> (\<forall>s. P (hw s) \<longrightarrow> P (hw (snd (run_state m s))))"

named_theorems keeps_intros \<open>programs that keep a property of the devices\<close>

lemma keeps_ret [keeps_intros]: "keeps_hw P (ret x)"
  by (simp add: keeps_hw_def)

lemma keeps_hw_bind [keeps_intros]: "keeps_hw P m \<Longrightarrow> (\<And>x. keeps_hw P (f x)) \<Longrightarrow> keeps_hw P (State_Monad.bind m f)"
  by (auto simp: keeps_hw_def split: prod.splits)

lemma keeps_hw_if [keeps_intros]: "(b \<Longrightarrow> keeps_hw P m) \<Longrightarrow> (\<not> b \<Longrightarrow> keeps_hw P n) \<Longrightarrow> keeps_hw P (if b then m else n)"
  by simp

lemma keeps_hwD: "keeps_hw P m \<Longrightarrow> P (hw s) \<Longrightarrow> run_state m s = (x, s') \<Longrightarrow> P (hw s')"
  by (metis keeps_hw_def snd_conv)

lemma keeps_port [keeps_intros]:
  "(\<And>d. P d \<Longrightarrow> P (snd (in8 bus port d))) \<Longrightarrow> keeps_hw P (inb bus port)"
  "(\<And>d. P d \<Longrightarrow> P (out8 bus port x d)) \<Longrightarrow> keeps_hw P (outb bus port x)"
  "(\<And>d. P d \<Longrightarrow> P (snd (in16 bus port d))) \<Longrightarrow> keeps_hw P (inw bus port)"
  "(\<And>d. P d \<Longrightarrow> P (elapse bus ms d)) \<Longrightarrow> keeps_hw P (pit_delay bus ms)"
  by (simp_all add: keeps_hw_def run_port)

lemma keeps_poll [keeps_intros]:
  assumes "\<And>d. P d \<Longrightarrow> P (snd (in8 bus port d))" "\<And>ms d. P d \<Longrightarrow> P (elapse bus ms d)"
  shows "keeps_hw P (poll b bus port verdict timeout elapsed)"
  using assms by (induction b bus port verdict timeout elapsed rule: poll.induct)
    (subst poll.simps, auto intro!: keeps_intros split: option.splits)

lemma keeps_wait_bsy_clear [keeps_intros]:
  assumes "\<And>d. P d \<Longrightarrow> P (snd (in8 bus (base + 7) d))" "\<And>d. P d \<Longrightarrow> P (snd (in8 bus (base + 1) d))" "\<And>ms d. P d \<Longrightarrow> P (elapse bus ms d)"
  shows "keeps_hw P (wait_bsy_clear b bus base timeout elapsed)"
  using assms by (induction b bus base timeout elapsed rule: wait_bsy_clear.induct)
    (subst wait_bsy_clear.simps, auto intro!: keeps_intros)

lemma keeps_wait_drq [keeps_intros]:
  assumes "\<And>d. P d \<Longrightarrow> P (snd (in8 bus (base + 7) d))" "\<And>ms d. P d \<Longrightarrow> P (elapse bus ms d)"
  shows "keeps_hw P (wait_drq b bus base timeout elapsed)"
  using assms by (induction b bus base timeout elapsed rule: wait_drq.induct)
    (subst wait_drq.simps, auto intro!: keeps_intros simp: Let_def)

lemma keeps_insw [keeps_intros]: "(\<And>d. P d \<Longrightarrow> P (snd (in16 bus base d))) \<Longrightarrow> keeps_hw P (insw bus base n)"
  by (induction n) (auto intro!: keeps_intros)

lemma keeps_identify:
  assumes "\<And>d. P d \<Longrightarrow> P (snd (in8 bus (base + 7) d))" "\<And>d. P d \<Longrightarrow> P (snd (in8 bus (base + 1) d))" "\<And>ms d. P d \<Longrightarrow> P (elapse bus ms d)"
    and "\<And>x d. P d \<Longrightarrow> P (out8 bus (base + 6) x d)" "\<And>x d. P d \<Longrightarrow> P (out8 bus (base + 7) x d)" "\<And>d. P d \<Longrightarrow> P (snd (in16 bus base d))"
  shows "keeps_hw P (ata_identify_drive b bus base drive info)"
  unfolding ata_identify_drive_def wait_for_drive_ready_def wait_for_drive_data_ready_def
  by (auto intro!: keeps_intros assms split: prod.splits)

subsection \<open>One drive\<close>

context ide_channels
begin

text \<open>What is done on one channel leaves the other one settled.\<close>

lemma other_settled:
  assumes "channel base" "channel other" "other \<noteq> base"
  shows "keeps_hw (\<lambda>d. settled (view other d)) (ata_identify_drive b bus base drive info)"
  using assms ata_controller.elapse_view [OF controller [OF assms(2)]]
  by (intro keeps_identify) (auto simp: other_in other_out other_data settled_def)

lemma identify_ok:
  assumes "channel base" "settled (view base (hw s))" "latency \<le> ATA_DETECTION_TIMEOUT_MS b"
  shows "\<exists>d. run_state (ata_identify_drive b bus base (if m then 0xA0 else 0xB0) info) s
      = (Option.bind (ident base m) (\<lambda>ws. identify ws info), s\<lparr>hw := d\<rparr>) \<and> settled (view base d)"
proof -
  define x where "x = (if m then 0xA0 else 0xB0 :: u8)"
  let ?T = "ATA_DETECTION_TIMEOUT_MS b" and ?d1 = "out8 bus (base + 6) x (hw s)"
  let ?d2 = "out8 bus (base + 7) 0xEC ?d1"
  let ?d3 = "snd (in8 bus (base + 7) ?d2)"
  note c = controller [OF assms(1)]
  have v1: "settled (view base ?d1)" "master_of (view base ?d1) = m"
    using assms(2) by (simp_all add: select [OF assms(1,2)] settled_def master_of_def x_def)
  obtain k where k: "k \<le> latency" "view base ?d2 = identify_reply (ident base m) k (view base ?d1)"
    using identify_command [OF assms(1) v1(1)] v1(2) by auto
  have v3: "view base ?d3 = view base ?d2" by (simp add: ata_controller.status_view [OF c])
  have st: "fst (in8 bus (base + 7) ?d2) = status_of (view base ?d2)" by (rule ata_controller.status_value [OF c])
  show ?thesis
  proof (cases "ident base m")
    case None
    then have v: "view base ?d2 = (view base ?d1)\<lparr>ata_phase := Absent\<rparr>" using k(2) by (simp add: identify_reply_def)
    then have "status_of (view base ?d2) = 0" using v1(1) by (simp add: status_of_def settled_def)
    moreover have "settled (view base ?d3)" using v v3 v1(1) by (simp add: settled_def)
    ultimately show ?thesis unfolding x_def [symmetric]
      using None st by (intro exI [of _ ?d3]) (simp add: ata_identify_drive_def run_port)
  next
    case (Some ws)
    then have v: "view base ?d2 = (view base ?d1)\<lparr>busy := k, ata_phase := Sending ws\<rparr>" using k(2) by (simp add: identify_reply_def)
    have n: "length ws = 256" "ws \<noteq> []" using identify_words [OF assms(1) Some] by auto
    have nz: "status_of (view base ?d2) \<noteq> 0" using v by (simp add: status_of_def)
    let ?v = "(view base ?d1)\<lparr>ata_phase := Sending ws\<rparr>"
    have b0: "v\<lparr>busy := 0\<rparr> = v" if "busy v = 0" for v :: ata_view using that by simp
    have b1: "busy (view base ?d1) = 0" using v1(1) by (simp add: settled_def)
    have rv: "ready_verdict b (status_of ((view base ?d3)\<lparr>busy := 0\<rparr>)) = Some True"
      unfolding v3 v by (cases b) (simp_all add: status_of_def ready_verdict_def)
    obtain d4 where d4: "run_state (wait_for_drive_ready b bus base ?T) (s\<lparr>hw := ?d3\<rparr>) = (True, s\<lparr>hw := d4\<rparr>)" "view base d4 = ?v"
      using ata_controller.poll_ok [OF c, where verdict = "ready_verdict b" and s = "s\<lparr>hw := ?d3\<rparr>" and r = True and timeout = ?T and elapsed = 0 and b = b]
        ready_verdict_status(1) [of b] rv k(1) assms(3) b1 by (auto simp: wait_for_drive_ready_def v3 v)
    obtain d5 where d5: "run_state (wait_for_drive_data_ready b bus base ?T) (s\<lparr>hw := d4\<rparr>) = (True, s\<lparr>hw := d5\<rparr>)" "view base d5 = ?v"
      using ata_controller.data_ready_ok [OF c, of "s\<lparr>hw := d4\<rparr>" ?T b] d4(2) b1 by auto
    obtain d6 where d6: "run_state (insw bus base 256) (s\<lparr>hw := d5\<rparr>) = (ws, s\<lparr>hw := d6\<rparr>)" "view base d6 = ?v\<lparr>ata_phase := Idle\<rparr>"
      using ata_controller.insw_ok [OF c, of "s\<lparr>hw := d5\<rparr>" ws] d5(2) n b1 by auto
    have "settled (view base d6)" using d6(2) b1 by (simp add: settled_def)
    then show ?thesis unfolding x_def [symmetric]
      using Some st nz d4(1) d5(1) d6(1) by (intro exI [of _ d6]) (simp add: ata_identify_drive_def run_port)
  qed
qed

end

subsection \<open>The drives of a machine\<close>

text \<open>
  The answer to IDENTIFY: word 0 is neither 0 nor all ones, the words 27 to 46 hold the model number, two
  characters each, the first in the high byte, and the words 60 and 61 the number of sectors.
\<close>

definition identify_model :: "u16 list \<Rightarrow> u8 list" where
  "identify_model ws = concat (map (\<lambda>i. [ucast (ws ! i div 256), ucast (ws ! i mod 256)]) [27..<47])"

definition identify_sectors :: "u16 list \<Rightarrow> nat" where
  "identify_sectors ws = unat (ws ! 60) + 65536 * unat (ws ! 61)"

definition valid_ident :: "u16 list \<Rightarrow> bool" where
  "valid_ident ws \<longleftrightarrow> ws ! 0 \<noteq> 0 \<and> ws ! 0 \<noteq> 0xFFFF \<and> list_all (\<lambda>c. c = 0 \<or> 32 \<le> c \<and> c \<le> 126) (identify_model ws)
     \<and> 0 < identify_sectors ws"

text \<open>The entry of a drive, number \<open>i\<close>; the other fields are not set.\<close>

definition drive_entry :: "u16 \<Rightarrow> bool \<Rightarrow> u16 list \<Rightarrow> nat \<Rightarrow> drive_t \<Rightarrow> drive_t" where
  "drive_entry base m ws i junk = junk\<lparr>dr_type := DRIVE_TYPE_ATA, dr_base := base, dr_is_master := m,
     dr_name := lit ''hdd'' @ [48 + of_nat i],
     dr_model := rev (dropWhile (\<lambda>c. c = 32) (rev (takeWhile (\<lambda>c. c \<noteq> 0) (identify_model ws)))),
     dr_sectors := of_nat (identify_sectors ws), mount_point := []\<rparr>"

fun drives_from :: "(u16 \<times> bool) list \<Rightarrow> nat \<Rightarrow> (u16 \<Rightarrow> bool \<Rightarrow> u16 list option) \<Rightarrow> drive_t \<Rightarrow> drive_t list" where
  "drives_from [] i ident junk = []"
| "drives_from ((base, m) # ps) i ident junk =
     (case ident base m of
        None \<Rightarrow> drives_from ps i ident junk
      | Some ws \<Rightarrow> if valid_ident ws then drive_entry base m ws i junk # drives_from ps (Suc i) ident junk
                  else drives_from ps i ident junk)"

definition positions :: "(u16 \<times> bool) list" where
  "positions = [(ATA_PRIMARY_IO, True), (ATA_PRIMARY_IO, False), (ATA_SECONDARY_IO, True), (ATA_SECONDARY_IO, False)]"

lemma model_chars_identify: "length ws = 256 \<Longrightarrow> model_chars ws = identify_model ws"
proof -
  assume "length ws = 256"
  then have "take 20 (drop 27 ws) = map (\<lambda>i. ws ! i) [27..<47]" by (intro nth_equalityI) (simp_all del: upt_rec_numeral)
  moreover have "ucast (drop_bit 8 w) = (ucast (w div 256) :: u8)" "ucast (w AND 0xFF) = (ucast (w mod 256) :: u8)" for w :: u16
  proof -
    have "w AND 0xFF = take_bit 8 w" by (simp add: take_bit_eq_mask mask_eq_exp_minus_1)
    also have "\<dots> = w mod 256" by (simp add: take_bit_eq_mod)
    finally show "ucast (w AND 0xFF) = (ucast (w mod 256) :: u8)" by simp
    show "ucast (drop_bit 8 w) = (ucast (w div 256) :: u8)" by (simp add: drop_bit_eq_div)
  qed
  ultimately show ?thesis by (simp add: model_chars_def identify_model_def comp_def del: upt_rec_numeral)
qed

lemma printable_table: "list_all (\<lambda>n. printable (of_nat n) = ((of_nat n :: u8) = 0 \<or> 32 \<le> (of_nat n :: u8) \<and> (of_nat n :: u8) \<le> 126)) [0..<256]"
  by code_simp

lemma model_printable_iff: "printable c \<longleftrightarrow> c = 0 \<or> 32 \<le> c \<and> c \<le> 126"
proof -
  have "unat c \<in> set [0..<256]" using unat_lt_8 [of c] by (simp del: upt_rec_numeral)
  from printable_table [unfolded list_all_iff, rule_format, OF this] show ?thesis by simp
qed

lemma sector_words: "(ucast (a :: u16) OR push_bit 16 (ucast (b :: u16)) :: u32) = of_nat (unat a + 65536 * unat b)"
proof -
  have "(ucast a OR push_bit 16 (ucast b) :: u32) = ucast a + push_bit 16 (ucast b)"
    by (rule disjunctive_add [symmetric]) (auto simp: bit_simps dest: bit_imp_le_length)
  then show ?thesis by (simp add: of_nat_unat push_bit_eq_mult)
qed

lemma identify_eq:
  assumes "length ws = 256"
  shows "identify ws info = (if valid_ident ws
    then Some (info\<lparr>dr_model := takeWhile (\<lambda>c. c \<noteq> 0) (identify_model ws), dr_sectors := of_nat (identify_sectors ws)\<rparr>) else None)"
proof -
  have "identify_sectors ws < 2 ^ 32"
    using unat_lt_16 [of "ws ! 60"] unat_lt_16 [of "ws ! 61"] by (simp add: identify_sectors_def)
  then have "(of_nat (identify_sectors ws) :: u32) = 0 \<longleftrightarrow> identify_sectors ws = 0" by (simp add: word_of_nat_eq_0_iff nat_dvd_not_less dvd_eq_mod_eq_0)
  moreover have "list_all printable (identify_model ws) = list_all (\<lambda>c. c = 0 \<or> 32 \<le> c \<and> c \<le> 126) (identify_model ws)"
    by (simp add: list_all_iff model_printable_iff)
  ultimately show ?thesis
    by (simp add: identify_def valid_ident_def Let_def model_chars_identify [OF assms] sector_words identify_sectors_def [symmetric])
qed

lemma trim_model_eq:
  assumes "\<forall>c \<in> set s. 32 \<le> c"
  shows "trim_model s = rev (dropWhile (\<lambda>c. c = 32) (rev s))"
proof -
  have "isspace (uint c) \<longleftrightarrow> c = 32" if "c \<in> set (rev s)" for c
    using assms that by (auto simp: isspace_def word_le_def word_uint_eq_iff)
  then have "dropWhile (\<lambda>c. isspace (uint c)) (rev s) = dropWhile (\<lambda>c. c = 32) (rev s)" by (intro dropWhile_cong) simp_all
  then show ?thesis by (simp add: trim_model_def)
qed

lemma drive_name_hdd: "i < 4 \<Longrightarrow> drive_name (lit ''hdd%d'') i = lit ''hdd'' @ [48 + of_nat i]"
proof -
  assume "i < 4"
  then consider "i = 0" | "i = 1" | "i = 2" | "i = 3" by linarith
  moreover have "drive_name (lit ''hdd%d'') 0 = lit ''hdd'' @ [48]" "drive_name (lit ''hdd%d'') 1 = lit ''hdd'' @ [48 + 1]"
    "drive_name (lit ''hdd%d'') 2 = lit ''hdd'' @ [48 + 2]" "drive_name (lit ''hdd%d'') 3 = lit ''hdd'' @ [48 + 3]" by code_simp+
  ultimately show ?thesis by cases simp_all
qed

text \<open>The entry that is stored for a drive.\<close>

lemma stored_entry:
  assumes "length ws = 256" "valid_ident ws" "i < 4" "identify ws (junk\<lparr>dr_base := base, dr_is_master := m\<rparr>) = Some dr"
  shows "dr\<lparr>dr_model := trim_model (dr_model dr), dr_type := DRIVE_TYPE_ATA, dr_name := drive_name (lit ''hdd%d'') i, mount_point := []\<rparr>
    = drive_entry base m ws i junk"
proof -
  let ?md = "takeWhile (\<lambda>c. c \<noteq> 0) (identify_model ws)"
  have "32 \<le> c" if "c \<in> set ?md" for c
    using assms(2) set_takeWhileD [OF that] by (auto simp: valid_ident_def list_all_iff)
  then have "trim_model ?md = rev (dropWhile (\<lambda>c. c = 32) (rev ?md))" by (intro trim_model_eq) blast
  moreover have "dr = junk\<lparr>dr_base := base, dr_is_master := m, dr_model := ?md, dr_sectors := of_nat (identify_sectors ws)\<rparr>"
    using assms(2,4) identify_eq [OF assms(1)] by simp
  ultimately show ?thesis by (simp add: drive_entry_def drive_name_hdd [OF assms(3)])
qed

context ide_channels
begin

lemma detect_at_ok:
  assumes "latency \<le> ATA_DETECTION_TIMEOUT_MS b" "\<forall>p \<in> set ps. channel (fst p)" "length (detected_drives s) + length ps \<le> 4"
    and "\<forall>base. channel base \<longrightarrow> settled (view base (hw s))"
  shows "detected_drives (snd (run_state (detect_at ps b bus junk (length (detected_drives s))) s))
    = detected_drives s @ drives_from ps (length (detected_drives s)) ident junk"
  using assms(2-4)
proof (induction ps arbitrary: s)
  case (Cons p ps)
  obtain base m where p: "p = (base, m)" by fastforce
  let ?info = "junk\<lparr>dr_base := base, dr_is_master := m\<rparr>" and ?n = "length (detected_drives s)"
  have ch: "channel base" "?n < 4" using Cons.prems(1,2) p by auto
  obtain d where d: "run_state (ata_identify_drive b bus base (if m then 0xA0 else 0xB0) ?info) s
      = (Option.bind (ident base m) (\<lambda>ws. identify ws ?info), s\<lparr>hw := d\<rparr>)" "settled (view base d)"
    using identify_ok [OF ch(1) _ assms(1), of s m ?info] Cons.prems(3) ch(1) by blast
  have st: "\<forall>other. channel other \<longrightarrow> settled (view other d)"
  proof (intro allI impI)
    fix other assume o: "channel other"
    show "settled (view other d)"
      using d(2) keeps_hwD [OF other_settled [OF ch(1) o] _ d(1)] Cons.prems(3) o by (cases "other = base") auto
  qed
  have IH: "detected_drives (snd (run_state (detect_at ps b bus junk (length ds)) (s\<lparr>hw := d, detected_drives := ds\<rparr>)))
      = ds @ drives_from ps (length ds) ident junk" if "length ds + length ps \<le> 4" for ds
    using Cons.IH [of "s\<lparr>hw := d, detected_drives := ds\<rparr>"] Cons.prems(1) that st by simp
  have same: "s\<lparr>hw := d, detected_drives := detected_drives s\<rparr> = s\<lparr>hw := d\<rparr>" by simp
  show ?case
  proof (cases "Option.bind (ident base m) (\<lambda>ws. identify ws ?info)")
    case None
    then have "drives_from (p # ps) ?n ident junk = drives_from ps ?n ident junk"
      using p identify_words [OF ch(1), of m] by (cases "ident base m") (simp_all add: identify_eq split: if_splits)
    then show ?thesis using None d(1) p ch(2) IH [of "detected_drives s", unfolded same] Cons.prems(2) by simp
  next
    case (Some dr)
    then obtain ws where ws: "ident base m = Some ws" "identify ws ?info = Some dr" by (auto simp: Option.bind_eq_Some_conv)
    have w: "length ws = 256" "valid_ident ws" using identify_words [OF ch(1) ws(1)] ws(2) by (simp_all add: identify_eq split: if_splits)
    note e = stored_entry [OF w ch(2) ws(2)]
    show ?thesis using Some d(1) p ch(2) IH [of "detected_drives s @ [drive_entry base m ws ?n junk]"] Cons.prems(2) e ws(1) w(2) by simp
  qed
qed simp

end

subsection \<open>The two channels of a controller\<close>

text \<open>
  A controller with the channels of \<open>pio_bus\<close> at their ports, whose drives answer with the words \<open>ident\<close>.
\<close>

definition port_of :: "u16 \<Rightarrow> u16 \<Rightarrow> bool" where
  "port_of base port \<longleftrightarrow> (base \<le> port \<and> port \<le> base + 7) \<or> port = base + 0x206"

definition channel_out :: "(u16 \<Rightarrow> bool \<Rightarrow> u16 list option) \<Rightarrow> u16 \<Rightarrow> u16 \<Rightarrow> u8 \<Rightarrow> ata_view \<Rightarrow> ata_view" where
  "channel_out ident base port x v =
     (if port = base + 7 \<and> x = 0xEC then identify_reply (ident base (master_of v)) 3 v else out8 (pio_bus base) port x v)"

definition ide :: "(u16 \<Rightarrow> bool \<Rightarrow> u16 list option) \<Rightarrow> (ata_view \<times> ata_view) bus" where
  "ide ident = \<lparr>
     in8 = (\<lambda>port (p, q). if port_of ATA_PRIMARY_IO port then (fst (in8 (pio_bus ATA_PRIMARY_IO) port p), p, q)
                         else (fst (in8 (pio_bus ATA_SECONDARY_IO) port q), p, q)),
     out8 = (\<lambda>port x (p, q). if port_of ATA_PRIMARY_IO port then (channel_out ident ATA_PRIMARY_IO port x p, q)
                           else (p, channel_out ident ATA_SECONDARY_IO port x q)),
     in16 = (\<lambda>port (p, q). if port_of ATA_PRIMARY_IO port
        then (fst (in16 (pio_bus ATA_PRIMARY_IO) port p), snd (in16 (pio_bus ATA_PRIMARY_IO) port p), q)
        else (fst (in16 (pio_bus ATA_SECONDARY_IO) port q), p, snd (in16 (pio_bus ATA_SECONDARY_IO) port q))),
     out16 = (\<lambda>port w (p, q). if port_of ATA_PRIMARY_IO port then (out16 (pio_bus ATA_PRIMARY_IO) port w p, q)
                            else (p, out16 (pio_bus ATA_SECONDARY_IO) port w q)),
     in32 = (\<lambda>port d. (0, d)), out32 = (\<lambda>port x d. d),
     elapse = (\<lambda>ms (p, q). (p\<lparr>busy := busy p - ms\<rparr>, q\<lparr>busy := busy q - ms\<rparr>))\<rparr>"

definition ide_view :: "u16 \<Rightarrow> ata_view \<times> ata_view \<Rightarrow> ata_view" where
  "ide_view base d = (if base = ATA_PRIMARY_IO then fst d else snd d)"

text \<open>A drive of 1000 sectors, and one that answers with an empty identification.\<close>

definition sample_words :: "u16 list" where
  "sample_words = (replicate 256 0)[0 := 0x40, 27 := 0x5144, 28 := 0x4B20, 60 := 1000]"

definition sample_ident :: "u16 \<Rightarrow> bool \<Rightarrow> u16 list option" where
  "sample_ident base m =
     (if base = ATA_SECONDARY_IO \<and> \<not> m then Some sample_words
      else if base = ATA_PRIMARY_IO \<and> m then Some (replicate 256 0) else None)"

lemma ide_controller: "channel base \<Longrightarrow> ata_controller (ide ident) base (ide_view base) 3"
  by unfold_locales (auto simp: ide_def ide_view_def port_of_def channel_out_def pio_bus_def split: phase.splits)

interpretation ide_sample: ide_channels "ide sample_ident" ide_view 3 sample_ident
  by unfold_locales (auto simp: ide_controller ide_def ide_view_def port_of_def channel_out_def pio_bus_def sample_ident_def sample_words_def settled_def
      split: phase.splits list.splits if_splits)

subsection \<open>Detection\<close>

lemma drives_from_names:
  "length (drives_from ps i ident junk) \<le> length ps \<and> (\<forall>j < length (drives_from ps i ident junk).
     dr_name (drives_from ps i ident junk ! j) = lit ''hdd'' @ [48 + of_nat (i + j)])"
proof (induction ps i ident junk rule: drives_from.induct)
  case (2 base m ps i ident junk)
  then show ?case by (auto simp: nth_Cons drive_entry_def split: option.splits nat.splits)
qed simp

lemma get_drive_by_name_hdd:
  assumes "detected_drives s = drives_from positions 0 ident junk" "i < length (detected_drives s)"
  shows "get_drive_by_name (lit ''hdd'' @ [48 + of_nat i]) s = Some i"
proof -
  let ?ds = "detected_drives s"
  have n: "length ?ds \<le> 4" "\<And>j. j < length ?ds \<Longrightarrow> dr_name (?ds ! j) = lit ''hdd'' @ [48 + of_nat j]"
    using drives_from_names [of positions 0 ident junk] assms(1) by (simp_all add: positions_def)
  have "(of_nat j :: u8) = of_nat i \<longleftrightarrow> j = i" if "j < 4" "i < 4" for i j :: nat
    using that word_of_nat_eq_iff [where 'a = 8, of j i] by (simp add: take_bit_nat_eq_self)
  then have "dr_name (?ds ! j) = lit ''hdd'' @ [48 + of_nat i] \<longleftrightarrow> j = i" if "j < length ?ds" for j
    using n that assms(2) by auto
  then show ?thesis using n(1) assms(2) by (auto simp: get_drive_by_name_def find_Some_iff intro!: exI [of _ i])
qed

text \<open>
  C27. Detection finds exactly the drives that are there: over every two channels that follow the
  protocol, whose drives answer IDENTIFY within the timeout and of which no command is in progress,
  \<^verbatim>\<open>ata_detect_drives\<close> ends with a table that has one entry for each drive that answers with a valid
  identification, in the order primary master, primary slave, secondary master, secondary slave, and
  none for the others. Entry \<open>i\<close> has the ports and the position of its drive, its number of sectors, its
  model number without trailing spaces, no mount point and the name \<^verbatim>\<open>hdd\<close> followed by \<open>i\<close>, under which
  \<^verbatim>\<open>get_drive_by_name\<close> finds it.
\<close>

theorem ata_detect_drives_correct:
  assumes "ide_channels bus view latency ident" "latency \<le> ATA_DETECTION_TIMEOUT_MS b"
    and "settled (view ATA_PRIMARY_IO (hw s))" "settled (view ATA_SECONDARY_IO (hw s))"
  shows "\<exists>s'. run_state (ata_detect_drives b bus junk) s = ((), s') \<and> detected_drives s' = drives_from positions 0 ident junk
    \<and> (\<forall>i < length (detected_drives s'). get_drive_by_name (lit ''hdd'' @ [48 + of_nat i]) s' = Some i)"
proof -
  let ?s = "s\<lparr>detected_drives := []\<rparr>"
  let ?r = "run_state (detect_at positions b bus junk 0) ?s"
  have "detected_drives (snd ?r) = drives_from positions 0 ident junk"
    using ide_channels.detect_at_ok [OF assms(1,2), of positions ?s junk] assms(3,4)
    by (auto simp: positions_def simp del: detect_at.simps)
  moreover have "run_state (ata_detect_drives b bus junk) s = ((), snd ?r)"
    by (simp add: ata_detect_drives_def positions_def [symmetric] prod_eq_iff del: detect_at.simps)
  ultimately show ?thesis using get_drive_by_name_hdd by blast
qed

definition ide0 :: "(ata_view \<times> ata_view) ata" where
  "ide0 = \<lparr>hw = (\<lparr>regs = (\<lambda>_. 0), busy = 0, ata_phase = Idle, media = (\<lambda>_. disk7)\<rparr>, \<lparr>regs = (\<lambda>_. 0), busy = 0, ata_phase = Idle, media = (\<lambda>_. disk7)\<rparr>),
     detected_drives = [], consecutive_read_failures = 0, first_read_attempted = (False, False)\<rparr>"

lemma sample_words_ident: "valid_ident sample_words" "identify_sectors sample_words = 1000"
    "identify_model sample_words = [0x51, 0x44, 0x4B, 0x20, 0, 0, 0, 0, 0, 0, 0, 0, 0, 0, 0, 0, 0, 0, 0, 0, 0, 0, 0, 0, 0, 0, 0, 0, 0, 0, 0, 0, 0, 0, 0, 0, 0, 0, 0, 0]"
proof -
  show m: "identify_model sample_words = [0x51, 0x44, 0x4B, 0x20, 0, 0, 0, 0, 0, 0, 0, 0, 0, 0, 0, 0, 0, 0, 0, 0, 0, 0, 0, 0, 0, 0, 0, 0, 0, 0, 0, 0, 0, 0, 0, 0, 0, 0, 0, 0]"
    by (simp add: identify_model_def sample_words_def)
  show s: "identify_sectors sample_words = 1000" by (simp add: identify_sectors_def sample_words_def)
  show "valid_ident sample_words" unfolding valid_ident_def m s by (simp add: sample_words_def)
qed

theorem ata_detect_drives_correct_witness:
  "\<exists>s'. run_state (ata_detect_drives QEMU_BUILD (ide sample_ident) \<lparr>dr_type = DRIVE_TYPE_NONE, dr_base = 0, dr_is_master = False, dr_name = [], dr_model = [],
       dr_sectors = 0, dr_cylinder = 0, dr_head = 0, dr_sector = 0, dr_fdd_no = 0, mount_point = []\<rparr>) ide0 = ((), s')
     \<and> map (\<lambda>dr. (dr_base dr, dr_is_master dr, dr_name dr, dr_model dr, dr_sectors dr)) (detected_drives s')
       = [(ATA_SECONDARY_IO, False, lit ''hdd0'', lit ''QDK'', 1000)]"
proof -
  let ?junk = "\<lparr>dr_type = DRIVE_TYPE_NONE, dr_base = 0, dr_is_master = False, dr_name = [], dr_model = [],
       dr_sectors = 0, dr_cylinder = 0, dr_head = 0, dr_sector = 0, dr_fdd_no = 0, mount_point = []\<rparr>"
  have "map (\<lambda>dr. (dr_base dr, dr_is_master dr, dr_name dr, dr_model dr, dr_sectors dr)) (drives_from positions 0 sample_ident ?junk)
       = [(ATA_SECONDARY_IO, False, lit ''hdd0'', lit ''QDK'', 1000)]"
    using sample_words_ident by (simp add: positions_def sample_ident_def drive_entry_def lit_def) (simp add: valid_ident_def)
  moreover have "settled (ide_view base (hw ide0))" for base by (simp add: settled_def ide_view_def ide0_def)
  ultimately show ?thesis
    using ata_detect_drives_correct [OF ide_sample.ide_channels_axioms, of QEMU_BUILD ide0 ?junk] by auto
qed

end
