(* ===== verification/Automount.thy ===== *)
theory Automount
  imports Ata Vfs_Correct
begin

text \<open>
  Mounting all drives at boot (\<^verbatim>\<open>auto_mount_all_drives\<close> of \<^verbatim>\<open>fs/vfs/filesystem.c\<close>). The tables of the three file
  systems are parameters, as is the way their world shows the disks (\<open>disk_of\<close>) and keeps the global
  \<^verbatim>\<open>current_drive\<close> (\<open>set_current\<close>). \<open>None\<close> is a mount operation that does not end or leaves C.
\<close>

subsection \<open>The loop\<close>











subsection \<open>What it leaves\<close>











subsection \<open>The invariant of the loop\<close>











subsection \<open>Resolution after boot\<close>


subsection \<open>Which drives are mounted\<close>






























end
