(* ===== verification/Interrupts.thy ===== *)
theory Interrupts
  imports Ports Libc_Format
begin

text \<open>
  The tables of the processor and the dispatch of interrupts (\<^verbatim>\<open>arch/x86/cpu\<close>: \<^verbatim>\<open>gdt.c\<close>, \<^verbatim>\<open>tss.c\<close>, \<^verbatim>\<open>idt.c\<close>, \<^verbatim>\<open>irq.c\<close>,
  \<^verbatim>\<open>isr.c\<close>). The addresses of the entry points in assembler and of the tables are parameters. How the
  processor reads a descriptor (\<open>seg_base\<close>, \<open>seg_limit\<close>, \<open>gate_offset\<close>) is that of its manual. An index behind the end of a
  table is \<open>None\<close>.
\<close>

subsection \<open>Segments\<close>

record gdt_entry =
  limit_low :: u16
  base_low :: u16
  base_middle :: u8
  access :: u8
  granularity :: u8
  base_high :: u8

definition gdt_gate :: "u32 \<Rightarrow> u32 \<Rightarrow> u8 \<Rightarrow> u8 \<Rightarrow> gdt_entry" where
  "gdt_gate base limit acc gran = \<lparr>limit_low = ucast (limit AND 0xFFFF), base_low = ucast (base AND 0xFFFF),
     base_middle = ucast (drop_bit 16 base AND 0xFF), access = acc,
     granularity = ucast (drop_bit 16 limit AND 0x0F) OR (gran AND 0xF0), base_high = ucast (drop_bit 24 base AND 0xFF)\<rparr>"

definition gdt_set_gate :: "nat \<Rightarrow> u32 \<Rightarrow> u32 \<Rightarrow> u8 \<Rightarrow> u8 \<Rightarrow> gdt_entry list \<Rightarrow> gdt_entry list option" where
  "gdt_set_gate num base limit acc gran gdt = (if num < length gdt then Some (gdt[num := gdt_gate base limit acc gran]) else None)"

record tss_entry =
  esp0 :: u32
  ss0 :: u32
  tss_rest :: "u32 list"
  trap :: u16
  iomap_base :: u16

text \<open>The other 23 words of the structure are \<^verbatim>\<open>prev_tss\<close> and those between \<^verbatim>\<open>esp1\<close> and \<^verbatim>\<open>ldt\<close>.\<close>

definition tss_init :: "u32 \<Rightarrow> u32 \<Rightarrow> tss_entry" where
  "tss_init kernel_stack kernel_ss = \<lparr>esp0 = kernel_stack, ss0 = kernel_ss, tss_rest = replicate 23 0, trap = 0, iomap_base = 104\<rparr>"

definition tss_set_kernel_stack :: "u32 \<Rightarrow> tss_entry \<Rightarrow> tss_entry" where
  "tss_set_kernel_stack kernel_stack t = t\<lparr>esp0 := kernel_stack\<rparr>"

definition tss_get_limit :: u32 where "tss_get_limit = 104 - 1"

text \<open>The GDT and the limit of its register; \<open>tss_base\<close> is the address of the TSS.\<close>

definition gdt_install :: "u32 \<Rightarrow> gdt_entry list \<Rightarrow> (gdt_entry list \<times> u16) option" where
  "gdt_install tss_base gdt = do {
     gdt \<leftarrow> gdt_set_gate 0 0 0 0 0 gdt;
     gdt \<leftarrow> gdt_set_gate 1 0 0xFFFFFFFF 0x9A 0xCF gdt;
     gdt \<leftarrow> gdt_set_gate 2 0 0xFFFFFFFF 0x92 0xCF gdt;
     gdt \<leftarrow> gdt_set_gate 3 0 0xFFFFFFFF 0xFA 0xCF gdt;
     gdt \<leftarrow> gdt_set_gate 4 0 0xFFFFFFFF 0xF2 0xCF gdt;
     gdt \<leftarrow> gdt_set_gate 5 tss_base tss_get_limit 0x89 0x00 gdt;
     Some (gdt, 8 * 6 - 1) }"

definition seg_base :: "gdt_entry \<Rightarrow> u32" where
  "seg_base e = (ucast (base_low e) OR push_bit 16 (ucast (base_middle e))) OR push_bit 24 (ucast (base_high e))"

definition seg_limit :: "gdt_entry \<Rightarrow> u32" where
  "seg_limit e = (let l = ucast (limit_low e) OR push_bit 16 (ucast (granularity e AND 0x0F))
     in if granularity e AND 0x80 \<noteq> 0 then push_bit 12 l OR 0xFFF else l)"

subsection \<open>Gates\<close>

record idt_entry =
  offset_low :: u16
  selector :: u16
  idt_zero :: u8
  type_attr :: u8
  offset_high :: u16

definition gate :: "u32 \<Rightarrow> idt_entry" where
  "gate handler = \<lparr>offset_low = ucast (handler AND 0xFFFF), selector = 0x08, idt_zero = 0, type_attr = 0x8E,
     offset_high = ucast (drop_bit 16 handler AND 0xFFFF)\<rparr>"

definition null_gate :: idt_entry where
  "null_gate = \<lparr>offset_low = 0, selector = 0, idt_zero = 0, type_attr = 0, offset_high = 0\<rparr>"

definition set_idt_entry :: "nat \<Rightarrow> u32 \<Rightarrow> idt_entry list \<Rightarrow> idt_entry list" where
  "set_idt_entry vector handler idt = idt[vector := gate handler]"

definition idt_install :: "idt_entry list \<times> u16" where
  "idt_install = (replicate 256 null_gate, 8 * 256 - 1)"

definition gate_offset :: "idt_entry \<Rightarrow> u32" where
  "gate_offset e = ucast (offset_low e) OR push_bit 16 (ucast (offset_high e))"

definition gate_present :: "idt_entry \<Rightarrow> bool" where "gate_present e \<longleftrightarrow> type_attr e AND 0x80 \<noteq> 0"
definition gate_dpl :: "idt_entry \<Rightarrow> u8" where "gate_dpl e = drop_bit 5 (type_attr e) AND 3"

text \<open>A gate that disables interrupts and runs 32-bit code; the segment that a selector of ring 0 names in the GDT.\<close>

definition interrupt_gate :: "idt_entry \<Rightarrow> bool" where "interrupt_gate e \<longleftrightarrow> type_attr e AND 0x1F = 0x0E \<and> idt_zero e = 0"

definition segment_of :: "gdt_entry list \<Rightarrow> u16 \<Rightarrow> gdt_entry option" where
  "segment_of gdt sel = (if sel AND 7 = 0 \<and> 0 < sel \<and> unat (sel div 8) < length gdt then Some (gdt ! unat (sel div 8)) else None)"

text \<open>Executable, present, of ring 0, and all of the address space.\<close>

definition flat_kernel_code :: "gdt_entry \<Rightarrow> bool" where
  "flat_kernel_code e \<longleftrightarrow> access e AND 0x98 = 0x98 \<and> access e AND 0x60 = 0 \<and> seg_base e = 0 \<and> seg_limit e = 0xFFFFFFFF"

text \<open>The entry points: \<^verbatim>\<open>isr0\<close> to \<^verbatim>\<open>isr31\<close>, \<^verbatim>\<open>irq0\<close> to \<^verbatim>\<open>irq15\<close>, and the two others.\<close>

record entry_points =
  isr :: "nat \<Rightarrow> u32"
  irq :: "nat \<Rightarrow> u32"
  page_fault_handler_asm :: u32
  syscall_handler_asm :: u32

datatype handler = Generic | DivideByZero

text \<open>\<^verbatim>\<open>setup_exceptions\<close>: handler 0 is overridden, the others are the generic one.\<close>

definition setup_exceptions :: "handler list" where
  "setup_exceptions = (replicate 32 Generic)[0 := DivideByZero]"

definition isr_install :: "entry_points \<Rightarrow> idt_entry list \<Rightarrow> idt_entry list \<times> handler list" where
  "isr_install e idt =
     (let idt = fold (\<lambda>v. set_idt_entry v (isr e v)) ([0..<14] @ [15..<32]) idt
      in (set_idt_entry 14 (page_fault_handler_asm e) idt, setup_exceptions))"

definition irq_remap :: "'d bus \<Rightarrow> ('d, 'z, unit) io" where
  "irq_remap bus = do {
     outb bus 0x20 0x11; outb bus 0xA0 0x11;
     outb bus 0x21 0x20; outb bus 0xA1 0x28;
     outb bus 0x21 0x04; outb bus 0xA1 0x02;
     outb bus 0x21 0x01; outb bus 0xA1 0x01;
     outb bus 0x21 0x00; outb bus 0xA1 0x00 }"

record 'd irqs = "'d machine" +
  irq_routines :: "u32 list"
  idt_table :: "idt_entry list"

definition irq_install :: "'d bus \<Rightarrow> entry_points \<Rightarrow> ('d irqs, unit) state" where
  "irq_install bus e = do {
     irq_remap bus;
     modify (\<lambda>s. s\<lparr>idt_table := set_idt_entry 0x80 (syscall_handler_asm e)
       (fold (\<lambda>i. set_idt_entry (0x20 + i) (irq e i)) [0..<16] (idt_table s))\<rparr>) }"

subsection \<open>Dispatch\<close>

text \<open>\<^verbatim>\<open>irq_routines\<close> has 17 elements; an index outside is \<open>None\<close>.\<close>

definition register_interrupt_handler :: "int \<Rightarrow> u32 \<Rightarrow> ('d, 'z) irqs_scheme \<Rightarrow> ('d, 'z) irqs_scheme option" where
  "register_interrupt_handler i r s =
     (if 0 \<le> i \<and> nat i < length (irq_routines s) then Some (s\<lparr>irq_routines := (irq_routines s)[nat i := r]\<rparr>) else None)"

definition irq_uninstall_handler :: "int \<Rightarrow> ('d, 'z) irqs_scheme \<Rightarrow> ('d, 'z) irqs_scheme option" where
  "irq_uninstall_handler i s = register_interrupt_handler i 0 s"

text \<open>\<open>call\<close> runs the handler at an address.\<close>

definition irq_handler :: "'d bus \<Rightarrow> (u32 \<Rightarrow> ('d irqs, unit) state) \<Rightarrow> u32 \<Rightarrow> 'd irqs \<Rightarrow> 'd irqs option" where
  "irq_handler bus call irq_number s =
     (let i = irq_number - 32
      in if unat i < length (irq_routines s)
         then Some (snd (run_state (do {
                _ \<leftarrow> (if irq_routines s ! unat i \<noteq> 0 then call (irq_routines s ! unat i) else ret ());
                _ \<leftarrow> (if irq_number \<ge> 40 then outb bus 0xA0 0x20 else ret ());
                outb bus 0x20 0x20 }) s))
         else None)"

subsection \<open>Exceptions\<close>

definition exception_messages :: "cstring list" where
  "exception_messages = map lit [''Division By Zero'', ''Debug'', ''Non Maskable Interrupt'', ''Breakpoint'', ''Into Detected Overflow'',
     ''Out of Bounds'', ''Invalid Opcode'', ''No Coprocessor'', ''Double Fault'', ''Coprocessor Segment Overrun'', ''Bad TSS'',
     ''Segment Not Present'', ''Stack Fault'', ''General Protection Fault'', ''Page Fault'', ''Unknown Interrupt'', ''Coprocessor Fault'',
     ''Alignment Check'', ''Machine Check''] @ replicate 13 (lit ''Reserved'')"

text \<open>The kernel stops with a message, or stays in the loop behind the messages of a user process.\<close>

datatype outcome = Panic cstring | Stuck

definition panic_text :: "cstring \<Rightarrow> varg list \<Rightarrow> outcome option" where
  "panic_text fmt args = map_option (\<lambda>(buf, n). Panic (string_of buf)) (snprintf 128 fmt args)"

definition generic_exception_handler :: "u32 \<Rightarrow> u32 \<Rightarrow> u32 \<Rightarrow> outcome option" where
  "generic_exception_handler irq_number cs eip =
     (if unat irq_number \<ge> length exception_messages then None
      else if cs AND 3 = 0
      then panic_text (lit ''Kernel exception: %s (IRQ %d) at EIP=0x%08X'')
             [VStr (Some (exception_messages ! unat irq_number)), VInt irq_number, VInt eip]
      else Some Stuck)"

definition divide_by_zero_handler :: "u32 \<Rightarrow> u32 \<Rightarrow> outcome option" where
  "divide_by_zero_handler cs eip =
     (if cs AND 3 = 0 then panic_text (lit ''Kernel divide by zero at EIP=0x%08X'') [VInt eip] else Some Stuck)"

definition page_fault_handler :: "u32 \<Rightarrow> u32 \<Rightarrow> u32 \<Rightarrow> outcome option" where
  "page_fault_handler faulting_address error_code cs =
     (if cs AND 3 = 0
      then panic_text (lit ''Kernel page fault at address 0x%08X (error code: 0x%X)'') [VInt faulting_address, VInt error_code]
      else Some Stuck)"

text \<open>Above 31 the text of the message is read behind the end of the array.\<close>

definition exception_dispatcher :: "handler list \<Rightarrow> u32 \<Rightarrow> u32 \<Rightarrow> u32 \<Rightarrow> outcome option" where
  "exception_dispatcher handlers irq_number cs eip =
     (if irq_number < 32
      then case handlers ! unat irq_number of
             Generic \<Rightarrow> generic_exception_handler irq_number cs eip
           | DivideByZero \<Rightarrow> divide_by_zero_handler cs eip
      else generic_exception_handler irq_number cs eip)"

text \<open>\<^verbatim>\<open>fault_handler\<close> does nothing for numbers from 32.\<close>

definition fault_handler :: "u32 \<Rightarrow> u32 \<Rightarrow> u32 \<Rightarrow> outcome option option" where
  "fault_handler irq_number cs eip = (if irq_number < 32 then Some (generic_exception_handler irq_number cs eip) else None)"

subsection \<open>Descriptors\<close>

lemma seg_base_gate [simp]: "seg_base (gdt_gate base limit acc gran) = base"
proof -
  have m: "(0xFFFF :: u32) = mask 16" "(0xFF :: u32) = mask 8" by (simp_all add: mask_eq_exp_minus_1)
  show ?thesis unfolding seg_base_def gdt_gate_def gdt_entry.simps m
  proof (rule bit_word_eqI)
    fix n
    assume "n < LENGTH(32)"
    consider "n < 16" | "16 \<le> n \<and> n < 24" | "24 \<le> n" by linarith
    then show "bit ((ucast (ucast (base AND mask 16) :: u16) OR push_bit 16 (ucast (ucast (drop_bit 16 base AND mask 8) :: u8)))
        OR push_bit 24 (ucast (ucast (drop_bit 24 base AND mask 8) :: u8)) :: u32) n = bit base n"
      using \<open>n < LENGTH(32)\<close> by cases (auto simp: bit_simps)
  qed
qed

lemma gate_offset_gate [simp]: "gate_offset (gate h) = h"
proof -
  have m: "(0xFFFF :: u32) = mask 16" by (simp add: mask_eq_exp_minus_1)
  show ?thesis unfolding gate_offset_def gate_def idt_entry.simps m
  proof (rule bit_word_eqI)
    fix n
    assume "n < LENGTH(32)"
    consider "n < 16" | "16 \<le> n" by linarith
    then show "bit (ucast (ucast (h AND mask 16) :: u16) OR push_bit 16 (ucast (ucast (drop_bit 16 h AND mask 16) :: u16)) :: u32) n = bit h n"
      using \<open>n < LENGTH(32)\<close> by cases (auto simp: bit_simps)
  qed
qed

lemma gate_fields [simp]: "gate_present (gate h)" "gate_dpl (gate h) = 0" "selector (gate h) = 8" "\<not> gate_present null_gate" "interrupt_gate (gate h)"
  by (simp_all add: gate_present_def gate_dpl_def gate_def null_gate_def interrupt_gate_def)

lemma nth_fold_gates:
  "v < length idt \<Longrightarrow> distinct vs \<Longrightarrow> fold (\<lambda>i. set_idt_entry (b + i) (h i)) vs idt ! v
     = (if b \<le> v \<and> v - b \<in> set vs then gate (h (v - b)) else idt ! v)"
proof (induction vs arbitrary: idt)
  case (Cons i vs)
  then show ?case by (cases "v = b + i") (auto simp: set_idt_entry_def)
qed simp

lemma length_fold_gates [simp]: "length (fold (\<lambda>i. set_idt_entry (b + i) (h i)) vs idt) = length idt"
  by (induction vs arbitrary: idt) (auto simp: set_idt_entry_def)

text \<open>
  The processor sees the segments that were asked for: four flat segments of 4 GB, code and data for ring
  0 and ring 3, and the task state segment.
\<close>

lemma gdt_install_ok:
  assumes "length gdt = 6"
  shows "\<exists>g. gdt_install tss_base gdt = Some (g, 47) \<and> length g = 6 \<and> map access g = [0, 0x9A, 0x92, 0xFA, 0xF2, 0x89]
    \<and> list_all (\<lambda>e. seg_base e = 0 \<and> seg_limit e = 0xFFFFFFFF) [g ! 1, g ! 2, g ! 3, g ! 4]
    \<and> seg_base (g ! 5) = tss_base \<and> seg_limit (g ! 5) = 103"
proof -
  obtain a b c d e f where g: "gdt = [a, b, c, d, e, f]" using assms by (auto simp: length_Suc_conv numeral_eq_Suc)
  have l: "seg_limit (gdt_gate x 0xFFFFFFFF y 0xCF) = 0xFFFFFFFF" "seg_limit (gdt_gate x tss_get_limit y 0) = 103" "access (gdt_gate x z y w) = y" for x y z w
    by (simp_all add: seg_limit_def gdt_gate_def tss_get_limit_def)
  show ?thesis unfolding g by (simp add: gdt_install_def gdt_set_gate_def l numeral_eq_Suc)
qed

subsection \<open>Routing\<close>

text \<open>
  The interrupt controllers as the manual of the 8259 describes them: the first word of a sequence starts
  the initialisation, the next one on the data port is the vector of line 0, two more follow, and then a
  word on the data port is the mask.
\<close>

record pic =
  icw :: nat
  vector_base :: u8
  imr :: u8

definition pic_command :: "u8 \<Rightarrow> pic \<Rightarrow> pic" where
  "pic_command x p = (if x AND 0x10 \<noteq> 0 then p\<lparr>icw := 1\<rparr> else p)"

definition pic_data :: "u8 \<Rightarrow> pic \<Rightarrow> pic" where
  "pic_data x p = (if icw p = 1 then p\<lparr>vector_base := x, icw := 2\<rparr> else if icw p = 2 then p\<lparr>icw := 3\<rparr>
     else if icw p = 3 then p\<lparr>icw := 0\<rparr> else p\<lparr>imr := x\<rparr>)"

definition pic_bus :: "(pic \<times> pic) bus" where
  "pic_bus = \<lparr>in8 = (\<lambda>port d. (0, d)),
     out8 = (\<lambda>port x d. if port = 0x20 then apfst (pic_command x) d else if port = 0x21 then apfst (pic_data x) d
               else if port = 0xA0 then apsnd (pic_command x) d else if port = 0xA1 then apsnd (pic_data x) d else d),
     in16 = (\<lambda>port d. (0, d)), out16 = (\<lambda>port x d. d), in32 = (\<lambda>port d. (0, d)), out32 = (\<lambda>port x d. d), elapse = (\<lambda>ms d. d)\<rparr>"

definition irq_vector :: "pic \<times> pic \<Rightarrow> nat \<Rightarrow> nat" where
  "irq_vector d i = (if i < 8 then unat (vector_base (fst d)) + i else unat (vector_base (snd d)) + (i - 8))"

lemma irq_remap_pic:
  "run_state (irq_remap pic_bus) s = ((), s\<lparr>hw := (\<lparr>icw = 0, vector_base = 0x20, imr = 0\<rparr>, \<lparr>icw = 0, vector_base = 0x28, imr = 0\<rparr>)\<rparr>)"
  by (cases "hw s") (simp add: irq_remap_def run_port pic_bus_def pic_command_def pic_data_def)

definition boot_tables :: "entry_points \<Rightarrow> (pic \<times> pic) irqs \<Rightarrow> (pic \<times> pic) irqs" where
  "boot_tables e s = snd (run_state (irq_install pic_bus e) (s\<lparr>idt_table := fst (isr_install e (fst idt_install))\<rparr>))"

lemma boot_idt:
  assumes "v < 256"
  shows "idt_table (boot_tables e s) ! v =
    (if v = 14 then gate (page_fault_handler_asm e) else if v < 32 then gate (isr e v)
     else if v < 48 then gate (irq e (v - 32)) else if v = 0x80 then gate (syscall_handler_asm e) else null_gate)"
proof -
  define a where "a = fold (\<lambda>v. set_idt_entry (0 + v) (isr e v)) ([0..<14] @ [15..<32]) (replicate 256 null_gate)"
  define b where "b = a[14 := gate (page_fault_handler_asm e)]"
  have len: "length a = 256" "length b = 256" unfolding a_def b_def length_fold_gates length_list_update by simp_all
  have i: "fst (isr_install e (fst idt_install)) = b"
    unfolding b_def a_def by (simp add: isr_install_def idt_install_def set_idt_entry_def del: fold_append upt_rec_numeral)
  have t: "idt_table (boot_tables e s) = (fold (\<lambda>i. set_idt_entry (32 + i) (irq e i)) [0..<16] b)[0x80 := gate (syscall_handler_asm e)]"
    by (simp add: boot_tables_def irq_install_def irq_remap_pic i set_idt_entry_def del: fold_append upt_rec_numeral)
  have "a ! v = (if v < 32 \<and> v \<noteq> 14 then gate (isr e v) else null_gate)"
    unfolding a_def using assms nth_fold_gates [of v "replicate 256 null_gate" "[0..<14] @ [15..<32]" 0 "isr e"]
    by (auto simp del: fold_append upt_rec_numeral)
  then have bv: "b ! v = (if v = 14 then gate (page_fault_handler_asm e) else if v < 32 then gate (isr e v) else null_gate)"
    using len by (simp add: b_def nth_list_update)
  have "fold (\<lambda>i. set_idt_entry (32 + i) (irq e i)) [0..<16] b ! v = (if 32 \<le> v \<and> v < 48 then gate (irq e (v - 32)) else b ! v)"
    using assms len nth_fold_gates [of v b "[0..<16]" 32 "irq e"] by (auto simp del: fold_append upt_rec_numeral)
  then show ?thesis unfolding t using len bv assms by (auto simp: nth_list_update simp del: fold_append upt_rec_numeral)
qed

lemma gates_kernel_code:
  "\<exists>g. gdt_install tss_base [d0, d1, d2, d3, d4, d5] = Some (g, 47)
        \<and> list_all (\<lambda>v. interrupt_gate (idt_table (boot_tables e s) ! v)
             \<and> (\<exists>seg. segment_of g (selector (idt_table (boot_tables e s) ! v)) = Some seg \<and> flat_kernel_code seg)) ([0..<48] @ [0x80])"
proof -
  obtain g where g: "gdt_install tss_base [d0, d1, d2, d3, d4, d5] = Some (g, 47)" "length g = 6" "map access g = [0, 0x9A, 0x92, 0xFA, 0xF2, 0x89]"
      "seg_base (g ! 1) = 0" "seg_limit (g ! 1) = 0xFFFFFFFF"
    using gdt_install_ok [of "[d0, d1, d2, d3, d4, d5]" tss_base] by auto
  have "map access g ! 1 = 0x9A" by (simp add: g(3))
  then have "access (g ! 1) = 0x9A" using g(2) by simp
  then have seg: "segment_of g 8 = Some (g ! 1)" "flat_kernel_code (g ! 1)" using g by (simp_all add: segment_of_def flat_kernel_code_def)
  have gates: "idt_table (boot_tables e s) ! v = gate (if v = 14 then page_fault_handler_asm e else if v < 32 then isr e v
      else if v < 48 then irq e (v - 32) else syscall_handler_asm e)" if "v \<in> set ([0..<48] @ [0x80])" for v
  proof -
    have "v < 256" "v < 48 \<or> v = 0x80" using that by auto
    then show ?thesis using boot_idt [of v e s] by auto
  qed
  have "list_all (\<lambda>v. interrupt_gate (idt_table (boot_tables e s) ! v)
      \<and> (\<exists>seg. segment_of g (selector (idt_table (boot_tables e s) ! v)) = Some seg \<and> flat_kernel_code seg)) ([0..<48] @ [0x80])"
    unfolding list_all_iff using gates seg by simp
  then show ?thesis using g(1) by blast
qed

text \<open>
  C30. Interrupts reach their entry points: whatever the tables and the interrupt controllers held before,
  after \<^verbatim>\<open>gdt_install\<close>, \<^verbatim>\<open>idt_install\<close>, \<^verbatim>\<open>isr_install\<close> and \<^verbatim>\<open>irq_install\<close> the gate of exception \<open>v\<close> leads to \<^verbatim>\<open>isr\<close> \<open>v\<close> or to the page fault
  handler, hardware line \<open>i\<close> raises a vector whose gate leads to \<^verbatim>\<open>irq\<close> \<open>i\<close>, the gate of vector \<^verbatim>\<open>0x80\<close> leads to
  the system call, no line is masked, and no other gate is present. Each of these gates is a 32-bit interrupt gate, and its
  selector names the flat code segment of ring 0 in the GDT.
\<close>

theorem interrupts_routed:
  "list_all (\<lambda>v. gate_offset (idt_table (boot_tables e s) ! v) = (if v = 14 then page_fault_handler_asm e else isr e v)) [0..<32]
   \<and> list_all (\<lambda>i. gate_offset (idt_table (boot_tables e s) ! irq_vector (hw (boot_tables e s)) i) = irq e i) [0..<16]
   \<and> gate_offset (idt_table (boot_tables e s) ! 0x80) = syscall_handler_asm e
   \<and> imr (fst (hw (boot_tables e s))) = 0 \<and> imr (snd (hw (boot_tables e s))) = 0
   \<and> list_all (\<lambda>v. gate_present (idt_table (boot_tables e s) ! v) \<longleftrightarrow> v < 48 \<or> v = 0x80) [0..<256]
   \<and> (\<exists>g. gdt_install tss_base [d0, d1, d2, d3, d4, d5] = Some (g, 47)
        \<and> list_all (\<lambda>v. interrupt_gate (idt_table (boot_tables e s) ! v)
             \<and> (\<exists>seg. segment_of g (selector (idt_table (boot_tables e s) ! v)) = Some seg \<and> flat_kernel_code seg)) ([0..<48] @ [0x80]))"
proof -
  have hw: "hw (boot_tables e s) = (\<lparr>icw = 0, vector_base = 0x20, imr = 0\<rparr>, \<lparr>icw = 0, vector_base = 0x28, imr = 0\<rparr>)"
    by (simp add: boot_tables_def irq_install_def irq_remap_pic)
  have v: "irq_vector (hw (boot_tables e s)) i = 32 + i" if "i < 16" for i using that by (simp add: irq_vector_def hw)
  have "gate_offset (idt_table (boot_tables e s) ! irq_vector (hw (boot_tables e s)) i) = irq e i" if "i < 16" for i
    unfolding v [OF that] using that by (simp add: boot_idt)
  moreover have "gate_present (idt_table (boot_tables e s) ! v) \<longleftrightarrow> v < 48 \<or> v = 0x80" if "v < 256" for v
    using boot_idt [OF that, of e s] by simp
  ultimately have "list_all (\<lambda>v. gate_offset (idt_table (boot_tables e s) ! v) = (if v = 14 then page_fault_handler_asm e else isr e v)) [0..<32]
   \<and> list_all (\<lambda>i. gate_offset (idt_table (boot_tables e s) ! irq_vector (hw (boot_tables e s)) i) = irq e i) [0..<16]
   \<and> gate_offset (idt_table (boot_tables e s) ! 0x80) = syscall_handler_asm e
   \<and> imr (fst (hw (boot_tables e s))) = 0 \<and> imr (snd (hw (boot_tables e s))) = 0
   \<and> list_all (\<lambda>v. gate_present (idt_table (boot_tables e s) ! v) \<longleftrightarrow> v < 48 \<or> v = 0x80) [0..<256]"
    unfolding list_all_iff by (simp add: boot_idt hw del: upt_rec_numeral)
  then show ?thesis using gates_kernel_code [of tss_base d0 d1 d2 d3 d4 d5 e s] by (intro conjI) (blast | simp only:)+
qed

text \<open>
  A bus that records what is written: the handler runs first, then the interrupt is acknowledged, on the
  second controller too for its lines, and on every path exactly once.
\<close>

definition log_bus :: "(u16 \<times> u8) list bus" where
  "log_bus = \<lparr>in8 = (\<lambda>port d. (0, d)), out8 = (\<lambda>port x d. d @ [(port, x)]), in16 = (\<lambda>port d. (0, d)), out16 = (\<lambda>port x d. d),
     in32 = (\<lambda>port d. (0, d)), out32 = (\<lambda>port x d. d), elapse = (\<lambda>ms d. d)\<rparr>"

lemma irq_handler_acknowledges:
  assumes "length (irq_routines s) = 17" "32 \<le> n" "n < 48"
    and "h = irq_routines s ! unat (n - 32)" "s1 = (if h = 0 then s else snd (run_state (call h) s))"
  shows "irq_handler log_bus call n s = Some (s1\<lparr>hw := hw s1 @ (if n \<ge> 40 then [(0xA0, 0x20)] else []) @ [(0x20, 0x20)]\<rparr>)"
proof -
  have "unat (n - 32) = unat n - 32" using unat_sub [of 32 n] assms(2) by simp
  moreover have "unat n < 48" using assms(3) by (simp add: word_less_nat_alt)
  ultimately have i: "unat (n - 32) < 17" by simp
  show ?thesis using assms(1,4,5) i by (auto simp: irq_handler_def Let_def run_port log_bus_def split: prod.splits)
qed

text \<open>The gate of the system call has privilege 0: a program of ring 3 cannot use it.\<close>

lemma syscall_gate_dpl: "gate_dpl (idt_table (boot_tables e s) ! 0x80) = 0"
  by (simp add: boot_idt)

text \<open>The message of a panic does not tell the address, because \<^verbatim>\<open>snprintf\<close> does not know \<^verbatim>\<open>%08X\<close>.\<close>

lemma panic_without_address:
  "generic_exception_handler 13 8 0xDEADBEEF = Some (Panic (lit ''Kernel exception: General Protection Fault (IRQ 13) at EIP=0x8X''))"
  by code_simp

text \<open>An exception with a number above 31 reads behind the table of messages.\<close>

lemma exception_dispatcher_overrun: "32 \<le> n \<Longrightarrow> exception_dispatcher setup_exceptions n cs eip = None"
  by (simp add: exception_dispatcher_def generic_exception_handler_def exception_messages_def word_le_nat_alt word_less_nat_alt)

end
