(* ===== verification/Clock.thy ===== *)
theory Clock
  imports Interrupts "HOL-Library.Signed_Division"
begin

text \<open>
  The real time clock (\<^verbatim>\<open>drivers/char/rtc.c\<close>) and the interval timer (\<^verbatim>\<open>kernel/time/pit.c\<close>). What the clock chip
  does with its two ports is a locale; over it a date and a time that were written are read back. The
  delay loop runs against timer interrupts that arrive between its polls as they like; it ends after
  the number of ticks asked for, also when the counter wraps around.
\<close>

subsection \<open>The real time clock\<close>

abbreviation CMOS_ADDRESS :: u16 where "CMOS_ADDRESS \<equiv> 0x70"
abbreviation CMOS_DATA :: u16 where "CMOS_DATA \<equiv> 0x71"

definition cmos_update_in_progress :: "'d bus \<Rightarrow> ('d, 'z, bool) io" where
  "cmos_update_in_progress bus = do { outb bus CMOS_ADDRESS 0x0A; v \<leftarrow> inb bus CMOS_DATA; ret (v AND 0x80 \<noteq> 0) }"

definition bin_to_bcd :: "int \<Rightarrow> u8" where
  "bin_to_bcd v = word_of_int (v sdiv 10 * 16 + v smod 10)"

definition bcd_to_bin :: "int \<Rightarrow> int" where
  "bcd_to_bin v = v sdiv 16 * 10 + v smod 16"

definition readFromCMOS :: "'d bus \<Rightarrow> u8 \<Rightarrow> ('d, 'z, int) io" where
  "readFromCMOS bus reg = do { outb bus CMOS_ADDRESS reg; v \<leftarrow> inb bus CMOS_DATA; ret (uint v) }"

definition cmos_write :: "'d bus \<Rightarrow> u8 \<Rightarrow> int \<Rightarrow> ('d, 'z, unit) io" where
  "cmos_write bus reg v = do { outb bus CMOS_ADDRESS reg; outb bus CMOS_DATA (bin_to_bcd v) }"

text \<open>The loop in front of every access; \<open>None\<close> is a chip that never stops updating.\<close>

partial_function (option) cmos_wait :: "'d bus \<Rightarrow> ('d, 'z) machine_scheme \<Rightarrow> ('d, 'z) machine_scheme option" where
  "cmos_wait bus s = (case run_state (cmos_update_in_progress bus) s of (b, s') \<Rightarrow> if b then cmos_wait bus s' else Some s')"

definition read_date :: "'d bus \<Rightarrow> ('d, 'z) machine_scheme \<Rightarrow> ((int \<times> int \<times> int) \<times> ('d, 'z) machine_scheme) option" where
  "read_date bus s = map_option (run_state (do {
     y \<leftarrow> readFromCMOS bus 0x09;
     c \<leftarrow> readFromCMOS bus 0x32;
     m \<leftarrow> readFromCMOS bus 0x08;
     d \<leftarrow> readFromCMOS bus 0x07;
     ret (bcd_to_bin y + bcd_to_bin c * 100, bcd_to_bin m, bcd_to_bin d) })) (cmos_wait bus s)"

definition read_time :: "'d bus \<Rightarrow> ('d, 'z) machine_scheme \<Rightarrow> ((int \<times> int \<times> int) \<times> ('d, 'z) machine_scheme) option" where
  "read_time bus s = map_option (run_state (do {
     h \<leftarrow> readFromCMOS bus 0x04;
     m \<leftarrow> readFromCMOS bus 0x02;
     sec \<leftarrow> readFromCMOS bus 0x00;
     ret (bcd_to_bin h, bcd_to_bin m, bcd_to_bin sec) })) (cmos_wait bus s)"

definition write_date :: "'d bus \<Rightarrow> int \<Rightarrow> int \<Rightarrow> int \<Rightarrow> ('d, 'z) machine_scheme \<Rightarrow> ('d, 'z) machine_scheme option" where
  "write_date bus year month day s = map_option (\<lambda>s. snd (run_state (do {
     cmos_write bus 0x09 (year smod 100);
     cmos_write bus 0x32 (year sdiv 100);
     cmos_write bus 0x08 month;
     cmos_write bus 0x07 day }) s)) (cmos_wait bus s)"

definition write_time :: "'d bus \<Rightarrow> int \<Rightarrow> int \<Rightarrow> int \<Rightarrow> ('d, 'z) machine_scheme \<Rightarrow> ('d, 'z) machine_scheme option" where
  "write_time bus hours minutes seconds s = map_option (\<lambda>s. snd (run_state (do {
     cmos_write bus 0x04 hours;
     cmos_write bus 0x02 minutes;
     cmos_write bus 0x00 seconds }) s)) (cmos_wait bus s)"

subsection \<open>The interval timer\<close>

record 'd timer = "'d machine" +
  timer_tick_count :: u32

definition timer_irq_handler :: "'d bus \<Rightarrow> ('d timer, unit) state" where
  "timer_irq_handler bus = do { modify (\<lambda>s. s\<lparr>timer_tick_count := timer_tick_count s + 1\<rparr>); outb bus 0x20 0x20 }"

text \<open>A frequency of 0 is a division by zero.\<close>

definition init_pit :: "'d bus \<Rightarrow> u32 \<Rightarrow> ('d, 'z) machine_scheme \<Rightarrow> ('d, 'z) machine_scheme option" where
  "init_pit bus frequency s =
     (if frequency = 0 then None
      else let divisor = (ucast (1193182 div frequency) :: u16)
           in Some (snd (run_state (do {
                outb bus 0x43 0x36;
                outb bus 0x40 (ucast (divisor AND 0xFF));
                outb bus 0x40 (ucast (drop_bit 8 divisor AND 0xFF)) }) s)))"

text \<open>\<open>h\<close> is the address of the handler.\<close>

definition timer_install :: "'d bus \<Rightarrow> u32 \<Rightarrow> u8 \<Rightarrow> 'd irqs \<Rightarrow> 'd irqs option" where
  "timer_install bus h ms s =
     Option.bind (register_interrupt_handler 0 h s)
       (\<lambda>s. if ms = 0 then None else init_pit bus (1000 div ucast ms) s)"

definition read_pit_counter :: "'d bus \<Rightarrow> ('d, 'z, u16) io" where
  "read_pit_counter bus = do {
     outb bus 0x43 0x00;
     lo \<leftarrow> inb bus 0x40;
     hi \<leftarrow> inb bus 0x40;
     ret (ucast lo OR push_bit 8 (ucast hi)) }"

text \<open>
  The delay polls the counter that the interrupt handler increments: \<open>irqs i\<close> is the number of timer
  interrupts between poll \<open>i\<close> and the next. Without interrupts the loop does not end (\<open>None\<close>).
  The warning that is printed when the limit of 10000 ends a longer delay is left out.
\<close>

primrec timer_irqs :: "nat \<Rightarrow> 'd bus \<Rightarrow> 'd timer \<Rightarrow> 'd timer" where
  "timer_irqs 0 bus s = s"
| "timer_irqs (Suc n) bus s = timer_irqs n bus (snd (run_state (timer_irq_handler bus) s))"

partial_function (option) delay_loop :: "'d bus \<Rightarrow> (nat \<Rightarrow> nat) \<Rightarrow> u32 \<Rightarrow> u32 \<Rightarrow> nat \<Rightarrow> 'd timer \<Rightarrow> 'd timer option" where
  "delay_loop bus irqs start ms i s =
     (if ms \<le> timer_tick_count s - start then Some s
      else if 10000 \<le> timer_tick_count s - start then Some s
      else delay_loop bus irqs start ms (i + 1) (timer_irqs (irqs i) bus s))"

definition pit_delay_ticks :: "'d bus \<Rightarrow> (nat \<Rightarrow> nat) \<Rightarrow> u32 \<Rightarrow> 'd timer \<Rightarrow> 'd timer option" where
  "pit_delay_ticks bus irqs ms s = delay_loop bus irqs (timer_tick_count s) ms 0 s"

subsection \<open>The chip\<close>

record cmos_view =
  cmos_index :: u8
  cells :: "u8 \<Rightarrow> u8"
  updating :: nat
  window :: nat

text \<open>
  What the clock chip does: one port selects a cell, the other reads or writes it. The chip advances the
  cells by \<open>tick\<close> in update cycles. The top bit of status register A is set while a cycle runs, for
  \<open>updating\<close> polls, and when it is clear the data sheet promises that no cycle begins for 244 microseconds,
  which is time for at least eight accesses to the ports: \<open>window\<close> counts those that are left. Outside of
  this time cycles may pass or begin between two accesses, and nothing is known of the data port.
\<close>

locale rtc_chip =
  fixes bus :: "'d bus" and view :: "'d \<Rightarrow> cmos_view" and tick :: "(u8 \<Rightarrow> u8) \<Rightarrow> u8 \<Rightarrow> u8"
  assumes out_index: "0 < window (view d) \<or> 0 < updating (view d) \<Longrightarrow>
      view (out8 bus CMOS_ADDRESS v d) = (view d)\<lparr>cmos_index := v, window := window (view d) - 1\<rparr>"
    and out_index_later: "window (view d) = 0 \<Longrightarrow> updating (view d) = 0 \<Longrightarrow>
      \<exists>n k. view (out8 bus CMOS_ADDRESS v d) = (view d)\<lparr>cmos_index := v, cells := (tick ^^ n) (cells (view d)), updating := k\<rparr>"
    and in_status_clear: "cmos_index (view d) = 0x0A \<Longrightarrow> updating (view d) = 0 \<Longrightarrow>
      fst (in8 bus CMOS_DATA d) AND 0x80 = 0 \<and> (\<exists>w \<ge> 8. view (snd (in8 bus CMOS_DATA d)) = (view d)\<lparr>window := w\<rparr>)"
    and in_status_set: "cmos_index (view d) = 0x0A \<Longrightarrow> updating (view d) = Suc k \<Longrightarrow>
      fst (in8 bus CMOS_DATA d) AND 0x80 \<noteq> 0 \<and> (if k = 0
        then \<exists>w \<ge> 8. view (snd (in8 bus CMOS_DATA d)) = (view d)\<lparr>updating := 0, cells := tick (cells (view d)), window := w\<rparr>
        else view (snd (in8 bus CMOS_DATA d)) = (view d)\<lparr>updating := k\<rparr>)"
    and in_data: "0 < window (view d) \<Longrightarrow> cmos_index (view d) \<noteq> 0x0A \<Longrightarrow>
      fst (in8 bus CMOS_DATA d) = cells (view d) (cmos_index (view d)) \<and> view (snd (in8 bus CMOS_DATA d)) = (view d)\<lparr>window := window (view d) - 1\<rparr>"
    and out_data: "0 < window (view d) \<Longrightarrow>
      view (out8 bus CMOS_DATA v d) = (view d)\<lparr>cells := (cells (view d))(cmos_index (view d) := v), window := window (view d) - 1\<rparr>"
begin

text \<open>A poll of the status: the cycle that it sees, if any, comes closer to its end.\<close>

lemma update_poll:
  assumes "run_state (cmos_update_in_progress bus) s = (b, s')"
  shows "(\<exists>n. cells (view (hw s')) = (tick ^^ n) (cells (view (hw s)))) \<and> (\<not> b \<longrightarrow> 8 \<le> window (view (hw s')))
    \<and> (b \<longrightarrow> 0 < window (view (hw s')) \<or> 0 < updating (view (hw s')))
    \<and> (0 < window (view (hw s)) \<or> 0 < updating (view (hw s)) \<longrightarrow> updating (view (hw s')) = updating (view (hw s)) - 1
         \<and> (b \<longleftrightarrow> 0 < updating (view (hw s))))"
proof -
  let ?d = "out8 bus CMOS_ADDRESS 0x0A (hw s)"
  have r: "b = (fst (in8 bus CMOS_DATA ?d) AND 0x80 \<noteq> 0)" "hw s' = snd (in8 bus CMOS_DATA ?d)"
    using assms by (auto simp: cmos_update_in_progress_def run_port)
  obtain n k w where d: "view ?d = (view (hw s))\<lparr>cmos_index := 0x0A, cells := (tick ^^ n) (cells (view (hw s))), updating := k, window := w\<rparr>"
    and live: "0 < window (view (hw s)) \<or> 0 < updating (view (hw s)) \<longrightarrow> k = updating (view (hw s)) \<and> n = 0"
  proof (cases "0 < window (view (hw s)) \<or> 0 < updating (view (hw s))")
    case True
    from out_index [OF this] show thesis by (intro that [where n = 0 and k = "updating (view (hw s))" and w = "window (view (hw s)) - 1"]) simp_all
  next
    case False
    then obtain n k where "view ?d = (view (hw s))\<lparr>cmos_index := 0x0A, cells := (tick ^^ n) (cells (view (hw s))), updating := k\<rparr>"
      using out_index_later by blast
    then show thesis using False by (intro that [where n = n and k = k and w = "window (view (hw s))"]) simp_all
  qed
  show ?thesis
  proof (cases k)
    case 0
    have "cells (view (hw s')) = (tick ^^ n) (cells (view (hw s)))" using in_status_clear [of ?d] d r 0 by auto
    then show ?thesis using in_status_clear [of ?d] d r live 0 by auto
  next
    case (Suc j)
    have "cells (view (hw s')) = (tick ^^ (if j = 0 then Suc n else n)) (cells (view (hw s)))"
      using in_status_set [of ?d j] d r Suc by auto
    then have "\<exists>n. cells (view (hw s')) = (tick ^^ n) (cells (view (hw s)))" by blast
    moreover have "b" "updating (view (hw s')) = j" "0 < window (view (hw s')) \<or> 0 < updating (view (hw s'))"
      using in_status_set [of ?d j] d r Suc by (auto split: if_splits)
    ultimately show ?thesis using live Suc by (simp del: One_nat_def) (metis Suc_diff_1 diff_Suc_1 zero_less_Suc)
  qed
qed

lemma wait_live:
  "0 < window (view (hw s)) \<or> 0 < updating (view (hw s)) \<Longrightarrow>
   \<exists>s' n. cmos_wait bus s = Some s' \<and> cells (view (hw s')) = (tick ^^ n) (cells (view (hw s))) \<and> 8 \<le> window (view (hw s'))"
proof (induction "updating (view (hw s))" arbitrary: s)
  case 0
  obtain b s' where p: "run_state (cmos_update_in_progress bus) s = (b, s')" by fastforce
  then show ?case using update_poll [OF p] 0 by (subst cmos_wait.simps) auto
next
  case (Suc n)
  obtain b s' where p: "run_state (cmos_update_in_progress bus) s = (b, s')" by fastforce
  note u = update_poll [OF p]
  have b: "b" "updating (view (hw s')) = n" "0 < window (view (hw s')) \<or> 0 < updating (view (hw s'))" using u Suc.hyps(2) by auto
  obtain i where i: "cells (view (hw s')) = (tick ^^ i) (cells (view (hw s)))" using u by blast
  obtain t j where t: "cmos_wait bus s' = Some t" "cells (view (hw t)) = (tick ^^ j) (cells (view (hw s')))" "8 \<le> window (view (hw t))"
    using Suc.hyps(1) [of s'] b by blast
  have "cells (view (hw t)) = (tick ^^ (j + i)) (cells (view (hw s)))" using t(2) i by (simp add: funpow_add)
  then show ?case using p b(1) t by (subst cmos_wait.simps) auto
qed

lemma wait_ends:
  "\<exists>s' n. cmos_wait bus s = Some s' \<and> cells (view (hw s')) = (tick ^^ n) (cells (view (hw s))) \<and> 8 \<le> window (view (hw s'))"
proof -
  obtain b s' where p: "run_state (cmos_update_in_progress bus) s = (b, s')" by fastforce
  note u = update_poll [OF p]
  obtain i where i: "cells (view (hw s')) = (tick ^^ i) (cells (view (hw s)))" using u by blast
  show ?thesis
  proof (cases b)
    case True
    then obtain t j where t: "cmos_wait bus s' = Some t" "cells (view (hw t)) = (tick ^^ j) (cells (view (hw s')))" "8 \<le> window (view (hw t))"
      using u wait_live [of s'] by blast
    have "cells (view (hw t)) = (tick ^^ (j + i)) (cells (view (hw s)))" using t(2) i by (simp add: funpow_add)
    then show ?thesis using p True t by (subst cmos_wait.simps) auto
  next
    case False
    then show ?thesis using p u i by (subst cmos_wait.simps) auto
  qed
qed

text \<open>The accesses while the time after a clear status lasts.\<close>

lemma write_cell:
  "2 \<le> window (view (hw s)) \<Longrightarrow> cells (view (hw (snd (run_state (cmos_write bus r v) s)))) = (cells (view (hw s)))(r := bin_to_bcd v)
     \<and> window (view (hw (snd (run_state (cmos_write bus r v) s)))) = window (view (hw s)) - 2"
  by (simp add: cmos_write_def run_port out_index out_data)

lemma read_cell:
  "2 \<le> window (view (hw s)) \<Longrightarrow> r \<noteq> 0x0A \<Longrightarrow> fst (run_state (readFromCMOS bus r) s) = uint (cells (view (hw s)) r)
     \<and> cells (view (hw (snd (run_state (readFromCMOS bus r) s)))) = cells (view (hw s))
     \<and> window (view (hw (snd (run_state (readFromCMOS bus r) s)))) = window (view (hw s)) - 2"
  using in_data [of "out8 bus CMOS_ADDRESS r (hw s)"] by (simp add: readFromCMOS_def run_port out_index split_beta)

lemma write_date_cells:
  "\<exists>s' n. write_date bus y m d s = Some s' \<and> cells (view (hw s')) = ((tick ^^ n) (cells (view (hw s))))
     (0x09 := bin_to_bcd (y smod 100), 0x32 := bin_to_bcd (y sdiv 100), 0x08 := bin_to_bcd m, 0x07 := bin_to_bcd d)"
proof -
  obtain s1 n where "cmos_wait bus s = Some s1" "cells (view (hw s1)) = (tick ^^ n) (cells (view (hw s)))" "8 \<le> window (view (hw s1))"
    using wait_ends by blast
  then show ?thesis by (simp add: write_date_def split_beta write_cell) (rule exI [of _ n], simp)
qed

lemma write_time_cells:
  "\<exists>s' n. write_time bus h m sec s = Some s' \<and> cells (view (hw s')) = ((tick ^^ n) (cells (view (hw s))))
     (0x04 := bin_to_bcd h, 0x02 := bin_to_bcd m, 0x00 := bin_to_bcd sec)"
proof -
  obtain s1 n where "cmos_wait bus s = Some s1" "cells (view (hw s1)) = (tick ^^ n) (cells (view (hw s)))" "8 \<le> window (view (hw s1))"
    using wait_ends by blast
  then show ?thesis by (simp add: write_time_def split_beta write_cell) (rule exI [of _ n], simp)
qed

lemma read_date_cells:
  "\<exists>s' n. cells (view (hw s')) = (tick ^^ n) (cells (view (hw s))) \<and>
     read_date bus s = Some ((bcd_to_bin (uint (cells (view (hw s')) 0x09)) + bcd_to_bin (uint (cells (view (hw s')) 0x32)) * 100,
       bcd_to_bin (uint (cells (view (hw s')) 0x08)), bcd_to_bin (uint (cells (view (hw s')) 0x07))), s')"
proof -
  obtain s1 n where "cmos_wait bus s = Some s1" "cells (view (hw s1)) = (tick ^^ n) (cells (view (hw s)))" "8 \<le> window (view (hw s1))"
    using wait_ends by blast
  then show ?thesis by (simp add: read_date_def split_beta read_cell) (metis)
qed

lemma read_time_cells:
  "\<exists>s' n. cells (view (hw s')) = (tick ^^ n) (cells (view (hw s))) \<and>
     read_time bus s = Some ((bcd_to_bin (uint (cells (view (hw s')) 0x04)), bcd_to_bin (uint (cells (view (hw s')) 0x02)),
       bcd_to_bin (uint (cells (view (hw s')) 0x00))), s')"
proof -
  obtain s1 n where "cmos_wait bus s = Some s1" "cells (view (hw s1)) = (tick ^^ n) (cells (view (hw s)))" "8 \<le> window (view (hw s1))"
    using wait_ends by blast
  then show ?thesis by (simp add: read_time_def split_beta read_cell) (metis)
qed

end

text \<open>
  A chip that counts the seconds and begins a cycle of two polls whenever it may.
\<close>

definition next_second :: "(u8 \<Rightarrow> u8) \<Rightarrow> u8 \<Rightarrow> u8" where
  "next_second c = c(0 := if c 0 = 0x59 then 0 else if c 0 mod 16 = 9 then c 0 + 7 else c 0 + 1)"

definition cmos_bus :: "cmos_view bus" where
  "cmos_bus = \<lparr>in8 = (\<lambda>p d. if cmos_index d = 0x0A
         then if updating d = 0 then (0x26, d\<lparr>window := 8\<rparr>)
              else if updating d = 1 then (0xA6, d\<lparr>updating := 0, cells := next_second (cells d), window := 8\<rparr>)
              else (0xA6, d\<lparr>updating := updating d - 1\<rparr>)
         else (cells d (cmos_index d), d\<lparr>window := window d - 1\<rparr>)),
     out8 = (\<lambda>p v d. if p = CMOS_ADDRESS
         then if window d = 0 \<and> updating d = 0 then d\<lparr>cmos_index := v, updating := 2\<rparr> else d\<lparr>cmos_index := v, window := window d - 1\<rparr>
         else d\<lparr>cells := (cells d)(cmos_index d := v), window := window d - 1\<rparr>),
     in16 = (\<lambda>_ d. (0, d)), out16 = (\<lambda>_ _ d. d), in32 = (\<lambda>_ d. (0, d)), out32 = (\<lambda>_ _ d. d), elapse = (\<lambda>_ d. d)\<rparr>"

interpretation cmos: rtc_chip cmos_bus "\<lambda>d. d" next_second
proof (unfold_locales, goal_cases)
  case (2 d v)
  then show ?case by (intro exI [of _ 0] exI [of _ 2]) (simp add: cmos_bus_def)
qed (auto simp: cmos_bus_def)

subsection \<open>Date and time\<close>

lemma sdiv_smod_pos: "0 \<le> a \<Longrightarrow> 0 < b \<Longrightarrow> a sdiv b = a div b" "0 \<le> a \<Longrightarrow> 0 < b \<Longrightarrow> a smod b = a mod b" for a b :: int
  by (cases "a = 0"; simp add: signed_divide_int_def signed_modulo_int_def)+

lemma bcd_roundtrip: "0 \<le> v \<Longrightarrow> v < 100 \<Longrightarrow> bcd_to_bin (uint (bin_to_bcd v)) = v"
proof -
  assume v: "0 \<le> v" "v < 100"
  then have "v div 10 \<le> 9" "0 \<le> v div 10" "v mod 10 < 10" "0 \<le> v mod 10" by auto
  then have b: "0 \<le> v div 10 * 16 + v mod 10" "v div 10 * 16 + v mod 10 < 256"
    and d: "(v div 10 * 16 + v mod 10) div 16 = v div 10" "(v div 10 * 16 + v mod 10) mod 16 = v mod 10" by auto
  have c: "v sdiv 10 * 16 + v smod 10 = v div 10 * 16 + v mod 10" using v by (simp add: sdiv_smod_pos)
  have "uint (bin_to_bcd v) = v div 10 * 16 + v mod 10"
    unfolding bin_to_bcd_def c uint_word_of_int_eq using b by (simp add: take_bit_int_eq_self)
  then show ?thesis using b d by (simp add: bcd_to_bin_def sdiv_smod_pos)
qed

text \<open>The date and the time in the cells of the clock, two decimal digits in each.\<close>

definition bcd :: "u8 \<Rightarrow> int" where
  "bcd x = 10 * (uint x div 16) + uint x mod 16"

definition date_in :: "(u8 \<Rightarrow> u8) \<Rightarrow> int \<times> int \<times> int" where
  "date_in c = (100 * bcd (c 0x32) + bcd (c 0x09), bcd (c 0x08), bcd (c 0x07))"

definition time_in :: "(u8 \<Rightarrow> u8) \<Rightarrow> int \<times> int \<times> int" where
  "time_in c = (bcd (c 0x04), bcd (c 0x02), bcd (c 0x00))"

lemma bcd_to_bin_eq: "bcd_to_bin (uint x) = bcd x"
  by (simp add: bcd_to_bin_def bcd_def sdiv_smod_pos)

text \<open>
  C37. The clock runs on from what it is given: over every chip that behaves as documented, whatever update
  cycle is in progress and however many begin between the calls, setting a date and a time and reading
  them ends. Setting changes exactly the cells of the date, or of the time, in the cells of that moment,
  to the values given, and reading returns the date, or the time, of one moment: the cells that were set,
  advanced by the update cycles that have passed since. When none has passed between two calls, what was set is read back.
\<close>

theorem clock_roundtrip:
  assumes chip: "rtc_chip bus view tick"
    and date: "0 \<le> y" "y < 10000" "0 \<le> mo" "mo < 100" "0 \<le> d" "d < 100"
    and time: "0 \<le> h" "h < 100" "0 \<le> mi" "mi < 100" "0 \<le> sec" "sec < 100"
  shows "\<exists>s1 s2 s3 s4 i j k l c1 c2. write_date bus y mo d s = Some s1 \<and> cells (view (hw s1)) = c1
    \<and> date_in c1 = (y, mo, d) \<and> (\<forall>r. r \<notin> {0x09, 0x32, 0x08, 0x07} \<longrightarrow> c1 r = (tick ^^ i) (cells (view (hw s))) r)
    \<and> write_time bus h mi sec s1 = Some s2 \<and> cells (view (hw s2)) = c2
    \<and> time_in c2 = (h, mi, sec) \<and> (\<forall>r. r \<notin> {0x04, 0x02, 0x00} \<longrightarrow> c2 r = (tick ^^ j) c1 r)
    \<and> read_date bus s2 = Some (date_in ((tick ^^ k) c2), s3) \<and> cells (view (hw s3)) = (tick ^^ k) c2
    \<and> read_time bus s3 = Some (time_in ((tick ^^ l) ((tick ^^ k) c2)), s4)"
proof -
  obtain s1 i where s1: "write_date bus y mo d s = Some s1" "cells (view (hw s1)) = ((tick ^^ i) (cells (view (hw s))))
     (0x09 := bin_to_bcd (y smod 100), 0x32 := bin_to_bcd (y sdiv 100), 0x08 := bin_to_bcd mo, 0x07 := bin_to_bcd d)"
    using rtc_chip.write_date_cells [OF chip] by blast
  obtain s2 j where s2: "write_time bus h mi sec s1 = Some s2" "cells (view (hw s2)) = ((tick ^^ j) (cells (view (hw s1))))
     (0x04 := bin_to_bcd h, 0x02 := bin_to_bcd mi, 0x00 := bin_to_bcd sec)"
    using rtc_chip.write_time_cells [OF chip] by blast
  obtain s3 k where s3: "cells (view (hw s3)) = (tick ^^ k) (cells (view (hw s2)))" "read_date bus s2 = Some (date_in (cells (view (hw s3))), s3)"
    using rtc_chip.read_date_cells [OF chip, of s2] by (auto simp: bcd_to_bin_eq date_in_def add.commute mult.commute)
  obtain s4 l where s4: "cells (view (hw s4)) = (tick ^^ l) (cells (view (hw s3)))" "read_time bus s3 = Some (time_in (cells (view (hw s4))), s4)"
    using rtc_chip.read_time_cells [OF chip, of s3] by (auto simp: bcd_to_bin_eq time_in_def)
  have y: "y smod 100 = y mod 100" "y sdiv 100 = y div 100" using date by (simp_all add: sdiv_smod_pos)
  have "date_in (cells (view (hw s1))) = (y, mo, d)"
    using date by (simp add: s1(2) date_in_def bcd_to_bin_eq [symmetric] y bcd_roundtrip)
  moreover have "time_in (cells (view (hw s2))) = (h, mi, sec)"
    using time by (simp add: s2(2) time_in_def bcd_to_bin_eq [symmetric] bcd_roundtrip)
  moreover have "\<forall>r. r \<notin> {0x09, 0x32, 0x08, 0x07} \<longrightarrow> cells (view (hw s1)) r = (tick ^^ i) (cells (view (hw s))) r" by (simp add: s1(2))
  moreover have "\<forall>r. r \<notin> {0x04, 0x02, 0x00} \<longrightarrow> cells (view (hw s2)) r = (tick ^^ j) (cells (view (hw s1))) r" by (simp add: s2(2))
  ultimately show ?thesis using s1(1) s2(1) s3 s4 by metis
qed

theorem clock_roundtrip_witness:
  "\<exists>s1 s2 s3 c1. write_date cmos_bus 2024 2 29 \<lparr>hw = \<lparr>cmos_index = 0, cells = (\<lambda>_. 0), updating = 3, window = 0\<rparr>\<rparr> = Some s1
    \<and> cells (hw s1) = c1 \<and> date_in c1 = (2024, 2, 29)
    \<and> write_time cmos_bus 23 59 58 s1 = Some s2 \<and> time_in (cells (hw s2)) = (23, 59, 58)
    \<and> (\<exists>k. read_date cmos_bus s2 = Some (date_in ((next_second ^^ k) (cells (hw s2))), s3))"
  using clock_roundtrip [OF cmos.rtc_chip_axioms, of 2024 2 29 23 59 58 "\<lparr>hw = \<lparr>cmos_index = 0, cells = (\<lambda>_. 0), updating = 3, window = 0\<rparr>\<rparr>"]
  by simp blast

subsection \<open>Delays\<close>

lemma timer_irqs_count: "timer_tick_count (timer_irqs n bus s) = timer_tick_count s + of_nat n"
  by (induction n arbitrary: s) (simp_all add: timer_irq_handler_def run_port algebra_simps)

lemma delay_loop_ends:
  fixes ms :: u32
  defines "goal \<equiv> min (unat ms) 10000"
  assumes fair: "\<exists>k \<ge> i. goal \<le> w + sum irqs {i..<k}"
    and steps: "\<forall>i. irqs i \<le> 2 ^ 31"
    and w: "timer_tick_count s = start + of_nat w" "w < goal + 2 ^ 31"
  shows "\<exists>k s'. i \<le> k \<and> delay_loop bus irqs start ms i s = Some s' \<and> timer_tick_count s' = start + of_nat (w + sum irqs {i..<k})
    \<and> goal \<le> w + sum irqs {i..<k} \<and> (\<forall>j. i \<le> j \<and> j < k \<longrightarrow> w + sum irqs {i..<j} < goal)"
proof -
  obtain k where "i \<le> k" "goal \<le> w + sum irqs {i..<k}" using fair by blast
  then show ?thesis using w
  proof (induction "k - i" arbitrary: i w s)
    case 0
    then have "goal \<le> w" by simp
    moreover have "w < 2 ^ 32" using 0(5) by (simp add: goal_def)
    moreover have "unat (of_nat w :: u32) = w" using \<open>w < 2 ^ 32\<close> by (simp add: unat_of_nat_lt)
    ultimately have "ms \<le> of_nat w \<or> 10000 \<le> (of_nat w :: u32)" by (auto simp: goal_def word_le_nat_alt min_le_iff_disj)
    then have "delay_loop bus irqs start ms i s = Some s" using 0(4) by (subst delay_loop.simps) auto
    then show ?case using 0 \<open>goal \<le> w\<close> by (intro exI [of _ i]) simp
  next
    case (Suc n)
    have u: "unat (of_nat w :: u32) = w" using Suc.prems(4) by (simp add: goal_def unat_of_nat_lt)
    show ?case
    proof (cases "goal \<le> w")
      case True
      then have "ms \<le> of_nat w \<or> 10000 \<le> (of_nat w :: u32)" using u by (auto simp: goal_def word_le_nat_alt min_le_iff_disj)
      then have "delay_loop bus irqs start ms i s = Some s" using Suc.prems(3) by (subst delay_loop.simps) auto
      then show ?thesis using Suc.prems True by (intro exI [of _ i]) simp
    next
      case False
      then have no: "\<not> ms \<le> of_nat w" "\<not> 10000 \<le> (of_nat w :: u32)" using u by (auto simp: goal_def word_le_nat_alt)
      let ?s = "timer_irqs (irqs i) bus s"
      have i: "i < k" using Suc.hyps(2) by simp
      have sums: "sum irqs {i..<j} = irqs i + sum irqs {i + 1..<j}" if "i < j" for j using that by (simp add: sum.atLeast_Suc_lessThan)
      have "timer_tick_count ?s = start + of_nat (w + irqs i)" using Suc.prems(3) by (simp add: timer_irqs_count)
      moreover have "w + irqs i < goal + 2 ^ 31" using False steps [rule_format, of i] by simp
      moreover have "goal \<le> (w + irqs i) + sum irqs {i + 1..<k}" using Suc.prems(2) sums [OF i] by simp
      ultimately obtain j s' where j: "i + 1 \<le> j" "delay_loop bus irqs start ms (i + 1) ?s = Some s'"
          "timer_tick_count s' = start + of_nat ((w + irqs i) + sum irqs {i + 1..<j})" "goal \<le> (w + irqs i) + sum irqs {i + 1..<j}"
          "\<forall>l. i + 1 \<le> l \<and> l < j \<longrightarrow> (w + irqs i) + sum irqs {i + 1..<l} < goal"
        using Suc.hyps(1) [of "i + 1" "w + irqs i" ?s] Suc.hyps(2) i by force
      have "delay_loop bus irqs start ms i s = Some s'" using no Suc.prems(3) j(2) by (subst delay_loop.simps) simp
      moreover have "\<forall>l. i \<le> l \<and> l < j \<longrightarrow> w + sum irqs {i..<l} < goal"
      proof (intro allI impI)
        fix l assume l: "i \<le> l \<and> l < j"
        show "w + sum irqs {i..<l} < goal"
          using l j(5) [rule_format, of l] sums [of l] False by (cases "l = i") simp_all
      qed
      ultimately show ?thesis using j(1,3,4) sums [of j] by (intro exI [of _ j] exI [of _ s']) (simp add: add.assoc)
    qed
  qed
qed

text \<open>
  C40. A delay ends after the ticks asked for: if timer interrupts keep arriving, in whatever numbers between two
  polls, \<^verbatim>\<open>pit_delay\<close> returns at the first poll that sees at least the number of ticks asked for, or 10000 if
  that is less, also when the counter wraps around.
\<close>

theorem pit_delay_ends:
  fixes ms :: u32
  assumes fair: "\<forall>n. \<exists>k. n \<le> sum irqs {..<k}" and steps: "\<forall>i. irqs i \<le> 2 ^ 31"
  shows "\<exists>k s'. pit_delay_ticks bus irqs ms s = Some s' \<and> timer_tick_count s' = timer_tick_count s + of_nat (sum irqs {..<k})
    \<and> min (unat ms) 10000 \<le> sum irqs {..<k} \<and> (\<forall>j < k. sum irqs {..<j} < min (unat ms) 10000)"
proof -
  have "\<exists>k \<ge> 0. min (unat ms) 10000 \<le> 0 + sum irqs {0..<k}" using fair by (simp add: atLeast0LessThan)
  from delay_loop_ends [OF this steps, of s "timer_tick_count s" bus]
  show ?thesis unfolding pit_delay_ticks_def by (force simp: atLeast0LessThan)
qed

theorem pit_delay_ends_witness:
  "\<exists>k s'. pit_delay_ticks cmos_bus (\<lambda>i. i mod 2) 5 \<lparr>hw = \<lparr>cmos_index = 0, cells = (\<lambda>_. 0), updating = 0, window = 0\<rparr>, timer_tick_count = 0xFFFFFFFE\<rparr> = Some s'
    \<and> timer_tick_count s' = 0xFFFFFFFE + of_nat (\<Sum>i<k. i mod 2) \<and> 5 \<le> (\<Sum>i<k. i mod 2) \<and> (\<forall>j < k. (\<Sum>i<j. i mod 2) < 5)"
proof -
  have s: "(\<Sum>i<2 * n. i mod 2) = n" for n :: nat by (induction n) simp_all
  have "\<forall>n. \<exists>k. n \<le> (\<Sum>i<k. i mod (2 :: nat))"
  proof
    fix n show "\<exists>k. n \<le> (\<Sum>i<k. i mod (2 :: nat))" using s [of n] by (intro exI [of _ "2 * n"]) simp
  qed
  moreover have "\<forall>i. i mod 2 \<le> (2 :: nat) ^ 31"
  proof
    fix i :: nat
    have "i mod 2 < 2" by simp
    also have "(2 :: nat) \<le> 2 ^ 31" by simp
    finally show "i mod 2 \<le> 2 ^ 31" by simp
  qed
  ultimately show ?thesis
    using pit_delay_ends [of "\<lambda>i. i mod 2" cmos_bus 5 "\<lparr>hw = \<lparr>cmos_index = 0, cells = (\<lambda>_. 0), updating = 0, window = 0\<rparr>, timer_tick_count = 0xFFFFFFFE\<rparr>"] by simp
qed

text \<open>The divisor of the timer has 16 bits: an interval from 55 ms on is not the one asked for.\<close>

lemma long_interval_truncated: "unat (ucast (1193182 div (1000 div (ucast (55 :: u8) :: u32)) :: u32) :: u16) \<noteq> 1193182 div (1000 div 55)"
  by simp

end
