(* ===== verification/Pci.thy ===== *)
theory Pci
  imports Ports
begin

text \<open>
  The PCI bus (\<^verbatim>\<open>drivers/bus/pci.c\<close>): access to the configuration space through the ports \<^verbatim>\<open>0xCF8\<close> and \<^verbatim>\<open>0xCFC\<close>, the
  scan of bus 0, and the tables of devices and drivers. A driver's probe function is a parameter that acts
  on the whole state.
\<close>

subsection \<open>State\<close>

record pci_device =
  vendor_id :: u16
  device_id :: u16
  class_code :: u8
  subclass_code :: u8
  prog_if :: u8
  revision_id :: u8
  header_type :: u8
  irq_line :: u8
  pbus :: u8
  slot :: u8
  pfunction :: u8
  bar :: "u32 list"

record 'd pci = "'d machine" +
  pci_devices :: "pci_device list"
  pci_drivers :: "(u16 \<times> u16 \<times> nat) list"

abbreviation MAX_PCI_DRIVERS :: nat where "MAX_PCI_DRIVERS \<equiv> 32"
abbreviation PCI_CONFIG_ADDRESS :: u16 where "PCI_CONFIG_ADDRESS \<equiv> 0xCF8"
abbreviation PCI_CONFIG_DATA :: u16 where "PCI_CONFIG_DATA \<equiv> 0xCFC"

subsection \<open>Configuration space\<close>

definition config_address :: "u8 \<Rightarrow> u8 \<Rightarrow> u8 \<Rightarrow> u8 \<Rightarrow> u32" where
  "config_address bus dev function offset =
     (((push_bit 16 (ucast bus) OR push_bit 11 (ucast dev)) OR push_bit 8 (ucast function)) OR ucast (offset AND 0xFC)) OR 0x80000000"

definition pci_read :: "'d bus \<Rightarrow> u8 \<Rightarrow> u8 \<Rightarrow> u8 \<Rightarrow> u8 \<Rightarrow> ('d, 'z, u32) io" where
  "pci_read io bus dev function offset = do {
     outl io PCI_CONFIG_ADDRESS (config_address bus dev function offset);
     inl io PCI_CONFIG_DATA }"

definition pci_get_irq :: "'d bus \<Rightarrow> u8 \<Rightarrow> u8 \<Rightarrow> u8 \<Rightarrow> ('d, 'z, u8) io" where
  "pci_get_irq io bus dev function = do {
     data \<leftarrow> pci_read io bus dev function 0x3C;
     ret (ucast (data AND 0xFF)) }"

definition pci_set_irq :: "'d bus \<Rightarrow> u8 \<Rightarrow> u8 \<Rightarrow> u8 \<Rightarrow> u8 \<Rightarrow> ('d, 'z, unit) io" where
  "pci_set_irq io bus dev function irq = do {
     value \<leftarrow> pci_read io bus dev function 0x3C;
     outl io PCI_CONFIG_ADDRESS (config_address bus dev function 0x3C);
     outl io PCI_CONFIG_DATA ((value AND 0xFFFFFF00) OR ucast irq) }"

text \<open>\<^verbatim>\<open>pci_write\<close> has no parameter for the function.\<close>

definition pci_write :: "'d bus \<Rightarrow> u8 \<Rightarrow> u8 \<Rightarrow> u8 \<Rightarrow> u8 \<Rightarrow> u32 \<Rightarrow> ('d, 'z, unit) io" where
  "pci_write io bus slt offset sz value = do {
     outl io PCI_CONFIG_ADDRESS (config_address bus slt 0 offset);
     if sz = 1 then outb io (PCI_CONFIG_DATA + ucast (offset AND 3)) (ucast value)
     else if sz = 2 then outw io (PCI_CONFIG_DATA + ucast (offset AND 2)) (ucast value)
     else if sz = 4 then outl io PCI_CONFIG_DATA value
     else ret () }"

definition pci_set_bus_master :: "'d bus \<Rightarrow> u8 \<Rightarrow> u8 \<Rightarrow> bool \<Rightarrow> ('d, 'z, unit) io" where
  "pci_set_bus_master io bus slt enable = do {
     v \<leftarrow> pci_read io bus slt 4 2;
     let command = (ucast v :: u16);
     if enable
     then if command AND 4 = 0 then pci_write io bus slt 4 2 (ucast (command OR 4)) else ret ()
     else if command AND 4 \<noteq> 0 then pci_write io bus slt 4 2 (ucast (command AND NOT 4)) else ret () }"

definition get_io_base :: "'d bus \<Rightarrow> u8 \<Rightarrow> u8 \<Rightarrow> u8 \<Rightarrow> ('d, 'z, u32) io" where
  "get_io_base io bus dev function = do {
     bar0 \<leftarrow> pci_read io bus dev function 0x10;
     if bar0 AND 1 \<noteq> 0 then ret (bar0 AND NOT 3) else ret 0 }"

text \<open>The value is held in 16 bits between the read and the write.\<close>

definition merge_word :: "u8 \<Rightarrow> u32 \<Rightarrow> u16 \<Rightarrow> u16" where
  "merge_word offset v value =
     (let cur = ucast v :: u16
      in if offset AND 2 \<noteq> 0 then ucast ((ucast cur AND 0xFFFF) OR push_bit 16 (ucast value) :: u32)
         else ucast ((ucast cur AND 0xFFFF0000) OR ucast value :: u32))"

definition pci_write_config_word :: "'d bus \<Rightarrow> u8 \<Rightarrow> u8 \<Rightarrow> u8 \<Rightarrow> u8 \<Rightarrow> u16 \<Rightarrow> ('d, 'z, unit) io" where
  "pci_write_config_word io bus slt function offset value = do {
     outl io PCI_CONFIG_ADDRESS (config_address bus slt function offset);
     v \<leftarrow> inl io PCI_CONFIG_DATA;
     outl io PCI_CONFIG_DATA (ucast (merge_word offset v value)) }"

definition pci_read_config_dword :: "'d bus \<Rightarrow> u8 \<Rightarrow> u8 \<Rightarrow> u8 \<Rightarrow> u8 \<Rightarrow> ('d, 'z, u32) io" where
  "pci_read_config_dword io bus slt function offset = do {
     outl io PCI_CONFIG_ADDRESS (config_address bus slt function offset);
     inl io PCI_CONFIG_DATA }"

definition pci_read_config_word :: "'d bus \<Rightarrow> u8 \<Rightarrow> u8 \<Rightarrow> u8 \<Rightarrow> u8 \<Rightarrow> ('d, 'z, u16) io" where
  "pci_read_config_word io bus slt function offset = do {
     value \<leftarrow> pci_read_config_dword io bus slt function offset;
     ret (ucast (drop_bit (unat ((offset AND 2) * 8)) value AND 0xFFFF)) }"


subsection \<open>Scan\<close>








subsection \<open>Devices and drivers\<close>

definition pci_enable_device :: "'d bus \<Rightarrow> pci_device \<Rightarrow> ('d, 'z, unit) io" where
  "pci_enable_device io dev = do {
     command \<leftarrow> pci_read_config_word io (pbus dev) (slot dev) (pfunction dev) 0x04;
     pci_write_config_word io (pbus dev) (slot dev) (pfunction dev) 0x04 (command OR 7) }"

definition pci_read_bar :: "pci_device \<Rightarrow> u8 \<Rightarrow> u32" where
  "pci_read_bar dev bar_index = (if bar_index \<ge> 6 then 0 else bar dev ! unat bar_index)"

definition pci_configure_irq :: "pci_device \<Rightarrow> u8" where "pci_configure_irq dev = irq_line dev"

definition pci_register_driver :: "u16 \<Rightarrow> u16 \<Rightarrow> nat \<Rightarrow> ('d pci, unit) state" where
  "pci_register_driver vendor device probe =
     modify (\<lambda>s. if length (pci_drivers s) < MAX_PCI_DRIVERS then s\<lparr>pci_drivers := pci_drivers s @ [(vendor, device, probe)]\<rparr> else s)"

text \<open>The calls of probe functions, in order.\<close>

definition pci_probe_drivers :: "'d pci \<Rightarrow> (nat \<times> pci_device) list" where
  "pci_probe_drivers s = concat (map (\<lambda>dev. map (\<lambda>(v, d, probe). (probe, dev))
     (filter (\<lambda>(v, d, probe). vendor_id dev = v \<and> device_id dev = d) (pci_drivers s))) (pci_devices s))"


subsection \<open>What a scan finds\<close>















text \<open>
  Writing the upper half of a register is lost: the value in between has 16 bits, and the upper half
  is written as zero.
\<close>

lemma write_upper_lost: "offset AND 2 \<noteq> 0 \<Longrightarrow> merge_word offset v value = ucast v"
proof -
  assume "offset AND 2 \<noteq> 0"
  moreover have "(ucast ((ucast (ucast v :: u16) AND 0xFFFF) OR push_bit 16 (ucast value) :: u32) :: u16) = ucast v"
  proof -
    have m: "(0xFFFF :: u32) = mask 16" by (simp add: mask_eq_exp_minus_1)
    show ?thesis unfolding m by (rule bit_word_eqI) (auto simp: bit_simps)
  qed
  ultimately show ?thesis by (simp add: merge_word_def)
qed

text \<open>Bus mastering is decided on the identifier of function 4 instead of the command register.\<close>

lemma bus_master_wrong_register:
  "config_address bus slt 4 2 = config_address bus slt 4 0"
  by (simp add: config_address_def)

end
