(* ===== verification/Ne2000.thy ===== *)
theory Ne2000
  imports Interrupts Pci
begin

text \<open>
  The driver of the NE2000 network card (\<^verbatim>\<open>drivers/net/ne2000.c\<close>), the card the network stack runs on. The
  card has memory of its own, which the driver reads and writes through a data port after it has set
  up a remote DMA; received frames are in a ring of pages between \<^verbatim>\<open>BNRY\<close> and \<^verbatim>\<open>CURR\<close>. What the functions
  print is left out, not the registers they read for it.
\<close>

subsection \<open>Registers\<close>

abbreviation RX_START_PAGE :: u8 where "RX_START_PAGE \<equiv> 0x40"
abbreviation RX_STOP_PAGE :: u8 where "RX_STOP_PAGE \<equiv> 0x80"
abbreviation TX_START_PAGE :: u8 where "TX_START_PAGE \<equiv> 0x20"
abbreviation ISR_RDC :: u8 where "ISR_RDC \<equiv> 0x40"
abbreviation ISR_PTX :: u8 where "ISR_PTX \<equiv> 0x02"

text \<open>
  \<open>no_value\<close> is what \<^verbatim>\<open>ne2000_read\<close> returns when the base address is 0, where it has a \<^verbatim>\<open>return\<close> without a value.
\<close>

record 'd nic = "'d irqs" +
  io_base :: u16
  nic_mac :: "u8 list"
  ne2000_initialized :: bool
  no_value :: u8

type_synonym ('d, 'a) ne = "('d nic, 'a) state"

definition ne2000_write :: "'d bus \<Rightarrow> u8 \<Rightarrow> u8 \<Rightarrow> ('d, unit) ne" where
  "ne2000_write bus reg v = do { b \<leftarrow> asks io_base; if b = 0 then ret () else outb bus (b + ucast reg) v }"

definition ne2000_read :: "'d bus \<Rightarrow> u8 \<Rightarrow> ('d, u8) ne" where
  "ne2000_read bus reg = do { b \<leftarrow> asks io_base; if b = 0 then asks no_value else inb bus (b + ucast reg) }"

definition ne2000_enable_loopback :: "'d bus \<Rightarrow> u16 \<Rightarrow> ('d, 'z, unit) io" where
  "ne2000_enable_loopback bus base = do {
     cr \<leftarrow> inb bus base;
     outb bus base (cr OR 0x02);
     outb bus (base + 0x0D) 0x06 }"

definition ne2000_disable_loopback :: "'d bus \<Rightarrow> u16 \<Rightarrow> ('d, 'z, unit) io" where
  "ne2000_disable_loopback bus base = outb bus (base + 0x0D) 0x00"

text \<open>The wait for the end of the reset; \<open>None\<close> is a card that never ends it.\<close>

partial_function (option) reset_wait :: "'d bus \<Rightarrow> 'd nic \<Rightarrow> 'd nic option" where
  "reset_wait bus s = (case run_state (ne2000_read bus 0x07) s of (v, s') \<Rightarrow> if v AND 0x80 \<noteq> 0 then Some s' else reset_wait bus s')"

definition ne2000_reset :: "'d bus \<Rightarrow> 'd nic \<Rightarrow> 'd nic option" where
  "ne2000_reset bus s =
     map_option (\<lambda>s. snd (run_state (ne2000_write bus 0x07 0xFF) s))
       (reset_wait bus (snd (run_state (do { v \<leftarrow> ne2000_read bus 0x1F; ne2000_write bus 0x1F v }) s)))"

text \<open>
  \<^verbatim>\<open>while (!(isr & bit) && timeout-- > 0);\<close> followed by the test \<^verbatim>\<open>timeout <= 0\<close>: a flag that shows up at the
  last poll counts as a time out.
\<close>

primrec isr_wait :: "nat \<Rightarrow> 'd bus \<Rightarrow> u8 \<Rightarrow> ('d, bool) ne" where
  "isr_wait 0 bus flag = do { _ \<leftarrow> ne2000_read bus 0x07; ret False }"
| "isr_wait (Suc n) bus flag = do { v \<leftarrow> ne2000_read bus 0x07; if v AND flag \<noteq> 0 then ret True else isr_wait n bus flag }"

definition data_port :: "u16 \<Rightarrow> u16" where "data_port b = b + 0x10"

definition remote_dma :: "'d bus \<Rightarrow> u8 \<Rightarrow> u8 \<Rightarrow> u16 \<Rightarrow> ('d, unit) ne" where
  "remote_dma bus page offset len = do {
     ne2000_write bus 0x00 0x22;
     ne2000_write bus 0x0A (ucast (len AND 0xFF));
     ne2000_write bus 0x0B (ucast (drop_bit 8 len AND 0xFF));
     ne2000_write bus 0x08 offset;
     ne2000_write bus 0x09 page;
     ne2000_write bus 0x00 0x0A }"

definition read_words :: "'d bus \<Rightarrow> nat \<Rightarrow> ('d, u16 list) ne" where
  "read_words bus n = do { b \<leftarrow> asks io_base; insw bus (data_port b) n }"

subsection \<open>Sending\<close>

definition send_length :: "u8 list \<Rightarrow> u16" where
  "send_length data = (if length data < 60 then 60 else of_nat (length data))"

text \<open>The words of a frame: pairs of bytes, a last odd byte, and zeros.\<close>

definition frame_words :: "u8 list \<Rightarrow> u16 list" where
  "frame_words data = bytes_words data @ (if odd (length data) then [ucast (last data)] else [])
     @ replicate ((unat (send_length data) - length data + 1) div 2) 0"

definition ne2000_send_packet :: "'d bus \<Rightarrow> u8 list \<Rightarrow> ('d, unit) ne" where
  "ne2000_send_packet bus data =
     (if length data > 1500 then ret ()
      else do {
        let n = send_length data;
        ne2000_write bus 0x00 0x22;
        ne2000_write bus 0x0A (ucast (n AND 0xFF));
        ne2000_write bus 0x0B (ucast (drop_bit 8 n));
        ne2000_write bus 0x07 ISR_RDC;
        ne2000_write bus 0x08 0x00;
        ne2000_write bus 0x09 TX_START_PAGE;
        ne2000_write bus 0x00 0x12;
        b \<leftarrow> asks io_base;
        outsw bus (data_port b) (frame_words data);
        ok \<leftarrow> isr_wait 10000 bus ISR_RDC;
        if \<not> ok then ret ()
        else do {
          ne2000_write bus 0x07 ISR_RDC;
          ne2000_write bus 0x04 TX_START_PAGE;
          ne2000_write bus 0x05 (ucast (n AND 0xFF));
          ne2000_write bus 0x06 (ucast (drop_bit 8 n));
          ne2000_write bus 0x00 0x26;
          ok \<leftarrow> isr_wait 100000 bus ISR_PTX;
          if \<not> ok then do { _ \<leftarrow> ne2000_read bus 0x07; ret () }
          else do {
            ne2000_write bus 0x07 ISR_PTX;
            _ \<leftarrow> ne2000_read bus 0x04;
            ret () } } })"

text \<open>The answer to an ARP request for 10.0.2.15, the address the driver has built in.\<close>

definition arp_reply :: "u8 list \<Rightarrow> u8 list \<Rightarrow> u8 list" where
  "arp_reply mac request =
     take 6 (drop 6 request) @ mac @ [0x08, 0x06] @ [0x00, 0x01, 0x08, 0x00, 0x06, 0x04, 0x00, 0x02]
     @ mac @ [10, 0, 2, 15] @ take 6 (drop 22 request) @ take 4 (drop 28 request) @ replicate 18 0"

definition ne2000_send_arp_reply :: "'d bus \<Rightarrow> u8 list \<Rightarrow> ('d, unit) ne" where
  "ne2000_send_arp_reply bus request = do { mac \<leftarrow> asks nic_mac; ne2000_send_packet bus (arp_reply mac request) }"

subsection \<open>Receiving\<close>

definition page_after :: "u8 \<Rightarrow> u8" where
  "page_after p = (if p + 1 \<ge> RX_STOP_PAGE then RX_START_PAGE else p + 1)"

definition page_before :: "u8 \<Rightarrow> u8" where
  "page_before p = (if p - 1 < RX_START_PAGE then RX_STOP_PAGE - 1 else p - 1)"

definition read_header :: "'d bus \<Rightarrow> u8 \<Rightarrow> ('d, u8 list) ne" where
  "read_header bus page = do { remote_dma bus page 0 4; ws \<leftarrow> read_words bus 2; ret (word_bytes ws) }"

text \<open>Up to five pages whose header is zero are skipped.\<close>

primrec scan_pages :: "nat \<Rightarrow> 'd bus \<Rightarrow> u8 \<Rightarrow> u8 \<Rightarrow> ('d, u8) ne" where
  "scan_pages 0 bus current p = ret p"
| "scan_pages (Suc n) bus current p =
     (if p = current then ret p
      else do {
        h \<leftarrow> read_header bus p;
        _ \<leftarrow> isr_wait 10000 bus ISR_RDC;
        ne2000_write bus 0x07 ISR_RDC;
        if h = [0, 0, 0, 0] then scan_pages n bus current (page_after p) else ret p })"

text \<open>The result of a receive: a length or an error, and what was stored in the buffer.\<close>

type_synonym received = "int \<times> u8 list"

definition set_boundary :: "'d bus \<Rightarrow> u8 \<Rightarrow> ('d, unit) ne" where
  "set_boundary bus p = do { ne2000_write bus 0x00 0x22; ne2000_write bus 0x03 p }"

text \<open>A header with an impossible length: 64 bytes are searched for the type of a frame.\<close>

fun find_ethertype :: "nat list \<Rightarrow> u8 list \<Rightarrow> nat option" where
  "find_ethertype [] buf = None"
| "find_ethertype (i # is) buf =
     (let v = (push_bit 8 (ucast (buf ! i)) OR ucast (buf ! (i + 1)) :: u16)
      in if v \<in> {0x0800, 0x0806, 0x86DD} \<and> 8 \<le> i \<and> i < 22
         then Some (if i < 12 then 4 else i - 12)
         else find_ethertype is buf)"

definition recover_packet :: "'d bus \<Rightarrow> u8 \<Rightarrow> ('d, received) ne" where
  "recover_packet bus page = do {
     remote_dma bus page 0 64;
     ws \<leftarrow> read_words bus 32;
     _ \<leftarrow> isr_wait 10000 bus ISR_RDC;
     ne2000_write bus 0x07 ISR_RDC;
     let buf = word_bytes ws;
     set_boundary bus page;
     case find_ethertype [0..<20] buf of
       Some offset \<Rightarrow> ret (64 - int offset, drop offset buf @ drop (64 - offset) buf)
     | None \<Rightarrow> ret (-1, buf) }"

definition read_packet :: "'d bus \<Rightarrow> u8 \<Rightarrow> u8 \<Rightarrow> u16 \<Rightarrow> ('d, received) ne" where
  "read_packet bus page next_page packet_length = do {
     let n = packet_length - 4;
     remote_dma bus page 4 n;
     ws \<leftarrow> read_words bus ((unat n + 1) div 2);
     let buf = take (unat n) (word_bytes ws);
     ok \<leftarrow> isr_wait 10000 bus ISR_RDC;
     if \<not> ok then ret (-1, buf)
     else do {
       ne2000_write bus 0x07 ISR_RDC;
       set_boundary bus (page_before next_page);
       ret (int (unat n), buf) } }"

definition dump_page :: "'d bus \<Rightarrow> u8 \<Rightarrow> ('d, unit) ne" where
  "dump_page bus page = do {
     remote_dma bus page 0 64;
     b \<leftarrow> asks io_base;
     read_times 64 bus (data_port b);
     _ \<leftarrow> isr_wait 10000 bus ISR_RDC;
     ne2000_write bus 0x07 ISR_RDC }"

definition ne2000_dump_page :: "'d bus \<Rightarrow> u8 \<Rightarrow> u16 \<Rightarrow> ('d, unit) ne" where
  "ne2000_dump_page bus page len = do {
     let n = (if len > 256 then 256 else len);
     remote_dma bus page 0 n;
     b \<leftarrow> asks io_base;
     read_times (unat n) bus (data_port b);
     _ \<leftarrow> isr_wait 10000 bus ISR_RDC;
     ne2000_write bus 0x07 ISR_RDC }"

definition ne2000_receive_packet :: "'d bus \<Rightarrow> u16 \<Rightarrow> ('d, received) ne" where
  "ne2000_receive_packet bus buffer_size = do {
     ne2000_write bus 0x00 0x62;
     current \<leftarrow> ne2000_read bus 0x07;
     ne2000_write bus 0x00 0x22;
     boundary \<leftarrow> ne2000_read bus 0x03;
     let next_read = page_after boundary;
     if next_read = current then ret (0, [])
     else do {
       page \<leftarrow> scan_pages 5 bus current next_read;
       if page = current then ret (0, [])
       else do {
         h \<leftarrow> read_header bus page;
         ok \<leftarrow> isr_wait 10000 bus ISR_RDC;
         if \<not> ok then ret (-1, [])
         else do {
           ne2000_write bus 0x07 ISR_RDC;
           let status = h ! 0;
           let next_page = h ! 1;
           let packet_length = (ucast (h ! 2) OR push_bit 8 (ucast (h ! 3)) :: u16);
           _ \<leftarrow> (if packet_length > 1518 then dump_page bus page else ret ());
           if status AND 0x01 = 0
           then do {
             set_boundary bus (if RX_START_PAGE \<le> next_page \<and> next_page < RX_STOP_PAGE then page_before next_page else page);
             ret (-1, []) }
           else if next_page < RX_START_PAGE \<or> next_page \<ge> RX_STOP_PAGE
           then do { set_boundary bus page; ret (-1, []) }
           else if packet_length < 60 \<or> packet_length > 1518 then recover_packet bus page
           else if packet_length - 4 > buffer_size
           then do { set_boundary bus (next_page - 1); ret (-1, []) }
           else read_packet bus page next_page packet_length } } } }"

subsection \<open>Interrupts\<close>

definition overrun_reset :: "'d bus \<Rightarrow> ('d, unit) ne" where
  "overrun_reset bus = do {
     ne2000_write bus 0x00 0x21;
     ne2000_write bus 0x0A 0;
     ne2000_write bus 0x0B 0;
     ne2000_write bus 0x03 RX_START_PAGE;
     ne2000_write bus 0x00 0x62;
     ne2000_write bus 0x07 (RX_START_PAGE + 1);
     ne2000_write bus 0x00 0x22;
     ne2000_write bus 0x07 0x10 }"

definition arp_for_us :: "int \<Rightarrow> u8 list \<Rightarrow> bool" where
  "arp_for_us len p \<longleftrightarrow> 42 \<le> len \<and> p ! 12 = 0x08 \<and> p ! 13 = 0x06 \<and> p ! 20 = 0 \<and> p ! 21 = 1
     \<and> p ! 38 = 10 \<and> p ! 39 = 0 \<and> p ! 40 = 2 \<and> p ! 41 = 15"

primrec irq_packets :: "nat \<Rightarrow> 'd bus \<Rightarrow> u8 \<Rightarrow> ('d, unit) ne" where
  "irq_packets 0 bus st = ret ()"
| "irq_packets (Suc n) bus st =
     (if st AND 0x01 = 0 then ret ()
      else do {
        (len, packet) \<leftarrow> ne2000_receive_packet bus 1500;
        if len > 0 then do {
          _ \<leftarrow> (if arp_for_us len packet then ne2000_send_arp_reply bus packet else ret ());
          st \<leftarrow> ne2000_read bus 0x07;
          irq_packets n bus st }
        else ret () })"

definition ne2000_irq_handler :: "'d bus \<Rightarrow> ('d, unit) ne" where
  "ne2000_irq_handler bus = do {
     st \<leftarrow> ne2000_read bus 0x07;
     if st = 0 then ret ()
     else do {
       _ \<leftarrow> (if st AND 0x10 \<noteq> 0 then overrun_reset bus else ret ());
       irq_packets 5 bus st;
       ne2000_write bus 0x07 0xFF } }"

subsection \<open>Initialisation\<close>

primrec read_mac :: "nat \<Rightarrow> 'd bus \<Rightarrow> ('d, u8 list) ne" where
  "read_mac 0 bus = ret []"
| "read_mac (Suc n) bus = do {
     b \<leftarrow> asks io_base;
     v \<leftarrow> inb bus (data_port b);
     _ \<leftarrow> inb bus (data_port b);
     vs \<leftarrow> read_mac n bus;
     ret (v # vs) }"

primrec write_regs :: "'d bus \<Rightarrow> u8 \<Rightarrow> u8 list \<Rightarrow> ('d, unit) ne" where
  "write_regs bus reg [] = ret ()"
| "write_regs bus reg (v # vs) = do { ne2000_write bus reg v; write_regs bus (reg + 1) vs }"

definition init_registers :: "'d bus \<Rightarrow> ('d, unit) ne" where
  "init_registers bus = do {
     ne2000_write bus 0x00 0x21;
     ne2000_write bus 0x0E 0x49;
     ne2000_write bus 0x0A 0;
     ne2000_write bus 0x0B 0;
     ne2000_write bus 0x0C 0x20;
     ne2000_write bus 0x0D 0x02;
     ne2000_write bus 0x01 RX_START_PAGE;
     ne2000_write bus 0x02 RX_STOP_PAGE;
     ne2000_write bus 0x03 RX_START_PAGE;
     ne2000_write bus 0x07 0xFF;
     ne2000_write bus 0x0F 0x0F;
     ne2000_write bus 0x00 0x21;
     ne2000_write bus 0x0A 32;
     ne2000_write bus 0x0B 0;
     ne2000_write bus 0x08 0;
     ne2000_write bus 0x09 0;
     ne2000_write bus 0x00 0x0A;
     mac \<leftarrow> read_mac 6 bus;
     ok \<leftarrow> isr_wait 10000 bus ISR_RDC;
     modify (\<lambda>s. s\<lparr>nic_mac := if ok then mac else [0x52, 0x54, 0x00, 0x12, 0x34, 0x56]\<rparr>);
     ne2000_write bus 0x07 ISR_RDC;
     ne2000_write bus 0x00 0x61;
     mac \<leftarrow> asks nic_mac;
     write_regs bus 0x01 mac;
     write_regs bus 0x08 (replicate 8 0xFF);
     ne2000_write bus 0x07 (RX_START_PAGE + 1);
     ne2000_write bus 0x00 0x22;
     ne2000_write bus 0x0C 0x04;
     ne2000_write bus 0x0D 0x00 }"

text \<open>\<open>h\<close> is the address of the interrupt handler.\<close>

definition ne2000_init :: "'d bus \<Rightarrow> u32 \<Rightarrow> 'd nic \<Rightarrow> 'd nic option" where
  "ne2000_init bus h s =
     Option.bind (ne2000_reset bus s) (\<lambda>s.
       map_option (\<lambda>s. s\<lparr>ne2000_initialized := True\<rparr>)
         (register_interrupt_handler 11 h (snd (run_state (init_registers bus) s))))"

definition ne2000_is_initialized :: "'d nic \<Rightarrow> bool" where "ne2000_is_initialized s = ne2000_initialized s"
definition ne2000_get_mac_address :: "'d nic \<Rightarrow> u8 list" where "ne2000_get_mac_address s = nic_mac s"

definition read_curr :: "'d bus \<Rightarrow> ('d, u8) ne" where
  "read_curr bus = do { ne2000_write bus 0x00 0x62; v \<leftarrow> ne2000_read bus 0x07; ne2000_write bus 0x00 0x22; ret v }"

definition ne2000_validate_init :: "'d bus \<Rightarrow> ('d, unit) ne" where
  "ne2000_validate_init bus = do {
     _ \<leftarrow> ne2000_read bus 0x01;
     _ \<leftarrow> ne2000_read bus 0x02;
     _ \<leftarrow> ne2000_read bus 0x03;
     _ \<leftarrow> ne2000_read bus 0x04;
     ret () }"

definition ne2000_print_status :: "'d bus \<Rightarrow> ('d, unit) ne" where
  "ne2000_print_status bus = do {
     ready \<leftarrow> asks ne2000_initialized;
     if \<not> ready then ret ()
     else do {
       ne2000_validate_init bus;
       _ \<leftarrow> ne2000_read bus 0x07;
       _ \<leftarrow> ne2000_read bus 0x0F;
       _ \<leftarrow> read_curr bus;
       ret () } }"

text \<open>
  The search on all PCI buses; it stops at the first card. The result says whether the search is over.
\<close>

fun detect_functions :: "u8 list \<Rightarrow> 'd bus \<Rightarrow> u32 \<Rightarrow> u8 \<Rightarrow> u8 \<Rightarrow> 'd nic \<Rightarrow> (bool \<times> 'd nic) option" where
  "detect_functions [] bus h b d s = Some (False, s)"
| "detect_functions (f # fs) bus h b d s =
     (let (id, s) = run_state (pci_read bus b d f 0) s
      in if id AND 0xFFFF = 0x10EC \<and> drop_bit 16 id AND 0xFFFF = 0x8029
         then let (base, s) = run_state (get_io_base bus b d f) s; s = s\<lparr>io_base := ucast base\<rparr>
              in if io_base s = 0 then Some (True, s) else map_option (\<lambda>s. (True, snd (run_state (ne2000_validate_init bus) s))) (ne2000_init bus h s)
         else detect_functions fs bus h b d s)"

fun detect_devices :: "(u8 \<times> u8) list \<Rightarrow> 'd bus \<Rightarrow> u32 \<Rightarrow> 'd nic \<Rightarrow> 'd nic option" where
  "detect_devices [] bus h s = Some s"
| "detect_devices ((b, d) # ds) bus h s =
     (let (id, s) = run_state (pci_read bus b d 0 0) s
      in if id AND 0xFFFF = 0xFFFF then detect_devices ds bus h s
         else let (v, s) = run_state (pci_read bus b d 0 0x0C) s;
                  fs = (if drop_bit 16 v AND 0x80 \<noteq> 0 then [0, 1, 2, 3, 4, 5, 6, 7] else [0])
              in case detect_functions fs bus h b d s of
                   None \<Rightarrow> None
                 | Some (found, s) \<Rightarrow> if found then Some s else detect_devices ds bus h s)"

definition ne2000_detect :: "'d bus \<Rightarrow> u32 \<Rightarrow> 'd nic \<Rightarrow> 'd nic option" where
  "ne2000_detect bus h s = detect_devices [(of_nat b, of_nat d). b \<leftarrow> [0..<256], d \<leftarrow> [0..<32]] bus h s"

subsection \<open>Tests of the card\<close>

definition test_packet :: "u8 list" where
  "test_packet = [0xFF, 0xFF, 0xFF, 0xFF, 0xFF, 0xFF, 0x00, 0x01, 0x02, 0x03, 0x04, 0x05, 0x08, 0x00,
     0x45, 0x00, 0x00, 0x54, 0x00, 0x01, 0xDE, 0xAD, 0xBE, 0xEF]"

definition test_ne2000_loopback :: "'d bus \<Rightarrow> ('d, received) ne" where
  "test_ne2000_loopback bus = do {
     ne2000_write bus 0x0C 0x10;
     ne2000_write bus 0x0D 0x00;
     ne2000_write bus 0x07 0xFF;
     _ \<leftarrow> read_curr bus;
     _ \<leftarrow> ne2000_read bus 0x03;
     _ \<leftarrow> ne2000_read bus 0x07;
     ne2000_send_packet bus test_packet;
     _ \<leftarrow> ne2000_read bus 0x07;
     _ \<leftarrow> read_curr bus;
     _ \<leftarrow> ne2000_read bus 0x03;
     r \<leftarrow> ne2000_receive_packet bus 1500;
     ne2000_write bus 0x0C 0x04;
     ret r }"

definition ne2000_test_send :: "'d bus \<Rightarrow> ('d, unit) ne" where
  "ne2000_test_send bus = do {
     mac \<leftarrow> asks nic_mac;
     ne2000_send_packet bus (replicate 6 0xFF @ mac @ [0x08, 0x00] @ [0x54, 0x45, 0x53, 0x54, 0xDE, 0xAD, 0xBE, 0xEF]) }"

end
