(* ===== verification/Ne2000_Card.thy ===== *)
theory Ne2000_Card
  imports Ne2000
begin

text \<open>
  The card the driver of the NE2000 talks to, as its data sheet describes it: the registers, its memory behind
  the data port, and the ring of received pages. The locale \<open>dp8390\<close> says that a machine has such a card; a
  program that uses only its ports acts as it does on the card alone. On the card, sending puts the padded
  frame on the wire and a remote read fetches the bytes of the ring.
\<close>

subsection \<open>The card\<close>

text \<open>
  \<open>c_pending\<close> is a flag of the interrupt status register that will show up after a number of polls, \<open>c_latency\<close>
  the number of polls the card takes for its operations.
\<close>

record card =
  c_cr :: u8
  c_mem :: "nat \<Rightarrow> u8"
  c_curr :: u8
  c_bnry :: u8
  c_addr :: nat
  c_count :: nat
  c_tpage :: u8
  c_tcount :: nat
  c_isr :: u8
  c_pending :: "nat \<times> u8"
  c_latency :: nat
  c_sent :: "u8 list list"

definition transmit :: "card \<Rightarrow> card" where
  "transmit c = c\<lparr>c_sent := c_sent c @ [map (\<lambda>i. c_mem c (unat (c_tpage c) * 256 + i)) [0..<c_tcount c]], c_pending := (c_latency c, ISR_PTX)\<rparr>"

definition card_out :: "u8 \<Rightarrow> u8 \<Rightarrow> card \<Rightarrow> card" where
  "card_out r v c =
     (if r = 0 then (if v AND 0x04 \<noteq> 0 then transmit (c\<lparr>c_cr := v\<rparr>) else c\<lparr>c_cr := v\<rparr>)
      else if c_cr c AND 0x40 \<noteq> 0 then (if r = 7 then c\<lparr>c_curr := v\<rparr> else c)
      else if r = 3 then c\<lparr>c_bnry := v\<rparr>
      else if r = 4 then c\<lparr>c_tpage := v\<rparr>
      else if r = 5 then c\<lparr>c_tcount := c_tcount c div 256 * 256 + unat v\<rparr>
      else if r = 6 then c\<lparr>c_tcount := unat v * 256 + c_tcount c mod 256\<rparr>
      else if r = 7 then c\<lparr>c_isr := c_isr c AND NOT v\<rparr>
      else if r = 8 then c\<lparr>c_addr := c_addr c div 256 * 256 + unat v\<rparr>
      else if r = 9 then c\<lparr>c_addr := unat v * 256 + c_addr c mod 256\<rparr>
      else if r = 10 then c\<lparr>c_count := c_count c div 256 * 256 + unat v\<rparr>
      else if r = 11 then c\<lparr>c_count := unat v * 256 + c_count c mod 256\<rparr>
      else c)"

definition poll_isr :: "card \<Rightarrow> u8 \<times> card" where
  "poll_isr c = (case c_pending c of
     (0, f) \<Rightarrow> (c_isr c OR f, c\<lparr>c_isr := c_isr c OR f, c_pending := (0, 0)\<rparr>)
   | (Suc n, f) \<Rightarrow> (c_isr c, c\<lparr>c_pending := (n, f)\<rparr>))"

text \<open>A word moves the address on, around the end of the ring; the last one ends the transfer.\<close>

definition dma_step :: "card \<Rightarrow> card" where
  "dma_step c = (if c_count c = 0 then c
     else c\<lparr>c_addr := (if c_addr c + 2 = 0x8000 then 0x4000 else c_addr c + 2), c_count := c_count c - 2,
            c_pending := (if c_count c \<le> 2 then (c_latency c, ISR_RDC) else c_pending c)\<rparr>)"

text \<open>The registers, and the data port read as a byte: the card is in word mode, so this is the low half of a word.\<close>

definition card_in :: "u8 \<Rightarrow> card \<Rightarrow> u8 \<times> card" where
  "card_in r c =
     (if r = 0x10 then (c_mem c (c_addr c), dma_step c)
      else if c_cr c AND 0x40 \<noteq> 0 then (if r = 7 then c_curr c else 0, c)
      else if r = 3 then (c_bnry c, c)
      else if r = 7 then poll_isr c
      else (0, c))"

definition card_write :: "u16 \<Rightarrow> card \<Rightarrow> card" where
  "card_write w c = dma_step (if c_count c = 0 then c
     else c\<lparr>c_mem := (c_mem c)(c_addr c := ucast w, c_addr c + 1 := ucast (drop_bit 8 w))\<rparr>)"

definition card_read :: "card \<Rightarrow> u16 \<times> card" where
  "card_read c = (ucast (c_mem c (c_addr c)) OR push_bit 8 (ucast (c_mem c (c_addr c + 1))), dma_step c)"

text \<open>A machine with the card at a base address: every access acts on the card as above.\<close>

locale dp8390 =
  fixes bus :: "'d bus" and base :: u16 and view :: "'d \<Rightarrow> card"
  assumes base: "base \<noteq> 0"
    and out_reg: "r < 0x10 \<Longrightarrow> view (out8 bus (base + ucast r) v d) = card_out r v (view d)"
    and in_reg: "r \<le> 0x10 \<Longrightarrow> fst (in8 bus (base + ucast r) d) = fst (card_in r (view d)) \<and> view (snd (in8 bus (base + ucast r) d)) = snd (card_in r (view d))"
    and out_data: "view (out16 bus (base + 0x10) w d) = card_write w (view d)"
    and in_data: "fst (in16 bus (base + 0x10) d) = fst (card_read (view d)) \<and> view (snd (in16 bus (base + 0x10) d)) = snd (card_read (view d))"
begin

text \<open>
  What a program does on the machine is what it does on the card alone: it has the same result, leaves
  the card the same, and changes nothing else.
\<close>

definition sim :: "('d, 'a) ne \<Rightarrow> (card, 'a) ne \<Rightarrow> bool" where
  "sim m m' \<longleftrightarrow> (\<forall>s s'. io_base s = base \<and> io_base s' = base \<and> nic_mac s' = nic_mac s \<and> hw s' = view (hw s)
     \<longrightarrow> (\<exists>x d. run_state m s = (x, s\<lparr>hw := d\<rparr>) \<and> run_state m' s' = (x, s'\<lparr>hw := view d\<rparr>)))"

lemma simI:
  "(\<And>s s'. io_base s = base \<Longrightarrow> io_base s' = base \<Longrightarrow> nic_mac s' = nic_mac s \<Longrightarrow> hw s' = view (hw s) \<Longrightarrow>
      \<exists>x d. run_state m s = (x, s\<lparr>hw := d\<rparr>) \<and> run_state m' s' = (x, s'\<lparr>hw := view d\<rparr>)) \<Longrightarrow> sim m m'"
  by (simp add: sim_def)

named_theorems sim_intros \<open>programs that act on the card alone\<close>

lemma keep_hw: "(s :: ('c, 'z) machine_scheme) = s\<lparr>hw := hw s\<rparr>" by simp

lemma sim_ret [sim_intros]: "sim (ret x) (ret x)"
  by (rule simI) (metis keep_hw run_state_return)

lemma sim_base [sim_intros]: "sim (asks io_base) (asks io_base)"
  by (rule simI) (metis keep_hw run_asks)

lemma sim_mac [sim_intros]: "sim (asks nic_mac) (asks nic_mac)"
  by (rule simI) (metis keep_hw run_asks)

lemma sim_bind [sim_intros]:
  assumes "sim m m'" "\<And>x. sim (k x) (k' x)"
  shows "sim (State_Monad.bind m k) (State_Monad.bind m' k')"
proof (rule simI)
  fix s :: "'d nic" and s' :: "card nic"
  assume s: "io_base s = base" "io_base s' = base" "nic_mac s' = nic_mac s" "hw s' = view (hw s)"
  obtain x d where d: "run_state m s = (x, s\<lparr>hw := d\<rparr>)" "run_state m' s' = (x, s'\<lparr>hw := view d\<rparr>)"
    using assms(1) s unfolding sim_def by blast
  obtain y e where "run_state (k x) (s\<lparr>hw := d\<rparr>) = (y, s\<lparr>hw := d\<rparr>\<lparr>hw := e\<rparr>)" "run_state (k' x) (s'\<lparr>hw := view d\<rparr>) = (y, s'\<lparr>hw := view d\<rparr>\<lparr>hw := view e\<rparr>)"
    using assms(2) [of x, unfolded sim_def, rule_format, of "s\<lparr>hw := d\<rparr>" "s'\<lparr>hw := view d\<rparr>"] s by auto
  then show "\<exists>x d. run_state (State_Monad.bind m k) s = (x, s\<lparr>hw := d\<rparr>) \<and> run_state (State_Monad.bind m' k') s' = (x, s'\<lparr>hw := view d\<rparr>)"
    using d by auto
qed

lemma sim_access:
  assumes "\<And>s. io_base s = base \<Longrightarrow> run_state m s = (fst (f (hw s)), s\<lparr>hw := snd (f (hw s))\<rparr>)"
    and "\<And>s. io_base s = base \<Longrightarrow> run_state m' s = (fst (g (hw s)), s\<lparr>hw := snd (g (hw s))\<rparr>)"
    and "\<And>d. fst (g (view d)) = fst (f d) \<and> snd (g (view d)) = view (snd (f d))"
  shows "sim m m'"
  by (rule simI) (use assms in force)

lemma sim_if [sim_intros]: "(b \<Longrightarrow> sim m m') \<Longrightarrow> (\<not> b \<Longrightarrow> sim n n') \<Longrightarrow> sim (if b then m else n) (if b then m' else n')"
  by simp

end

definition card_bus :: "u16 \<Rightarrow> card bus" where
  "card_bus b = \<lparr>in8 = (\<lambda>p c. card_in (ucast (p - b)) c), out8 = (\<lambda>p v c. card_out (ucast (p - b)) v c),
     in16 = (\<lambda>_ c. card_read c), out16 = (\<lambda>_ w c. card_write w c), in32 = (\<lambda>_ c. (0, c)), out32 = (\<lambda>_ _ c. c), elapse = (\<lambda>_ c. c)\<rparr>"

lemma ucast_u8 [simp]: "ucast (ucast r :: u16) = (r :: u8)"
  by (rule bit_word_eqI) (simp add: bit_simps)

lemma card_regs [simp]:
  "in8 (card_bus b) (b + ucast r) c = card_in r c" "out8 (card_bus b) (b + ucast r) v c = card_out r v c"
  "in16 (card_bus b) p c = card_read c" "out16 (card_bus b) p w c = card_write w c"
  by (simp_all add: card_bus_def)

interpretation ne: dp8390 "card_bus 0xC000" "0xC000" "\<lambda>c. c"
  by unfold_locales simp_all

context dp8390
begin

lemma sim_write [sim_intros]: "r < 0x10 \<Longrightarrow> sim (ne2000_write bus r v) (ne2000_write (card_bus base) r v)"
  by (rule sim_access [of _ "\<lambda>d. ((), out8 bus (base + ucast r) v d)" _ "\<lambda>c. ((), card_out r v c)"])
    (use base out_reg [of r v] in \<open>simp_all add: ne2000_write_def run_port\<close>)

lemma sim_read [sim_intros]: "r \<le> 0x10 \<Longrightarrow> sim (ne2000_read bus r) (ne2000_read (card_bus base) r)"
  by (rule sim_access [of _ "in8 bus (base + ucast r)" _ "card_in r"])
    (use base in_reg [of r] in \<open>simp_all add: ne2000_read_def run_port\<close>)

lemma sim_inb [sim_intros]: "sim (inb bus (data_port base)) (inb (card_bus base) (data_port base))"
  by (rule sim_access [of _ "in8 bus (base + ucast (0x10 :: u8))" _ "card_in 0x10"])
    (use in_reg [of "0x10"] card_regs(1) [of base "0x10"] in \<open>simp_all add: data_port_def run_port\<close>)

lemma sim_inw [sim_intros]: "sim (inw bus (data_port base)) (inw (card_bus base) (data_port base))"
  by (rule sim_access [of _ "in16 bus (base + 0x10)" _ card_read]) (use in_data in \<open>simp_all add: data_port_def run_port\<close>)

lemma sim_outw [sim_intros]: "sim (outw bus (data_port base) w) (outw (card_bus base) (data_port base) w)"
  by (rule sim_access [of _ "\<lambda>d. ((), out16 bus (base + 0x10) w d)" _ "\<lambda>c. ((), card_write w c)"])
    (use out_data in \<open>simp_all add: data_port_def run_port\<close>)

lemma sim_insw [sim_intros]: "sim (insw bus (data_port base) n) (insw (card_bus base) (data_port base) n)"
  by (induction n) (auto intro!: sim_intros)

lemma sim_outsw [sim_intros]: "sim (outsw bus (data_port base) ws) (outsw (card_bus base) (data_port base) ws)"
  by (induction ws) (auto intro!: sim_intros)

text \<open>The base address that the variable holds is the one of the card.\<close>

lemma sim_at_base [sim_intros]:
  "sim (m base) (m' base) \<Longrightarrow> sim (State_Monad.bind (asks io_base) m) (State_Monad.bind (asks io_base) m')"
  unfolding sim_def by (simp add: split_beta)

lemma sim_isr_wait [sim_intros]: "sim (isr_wait n bus flag) (isr_wait n (card_bus base) flag)"
  by (induction n) (auto intro!: sim_intros)

lemma sim_remote_dma [sim_intros]: "sim (remote_dma bus page off len) (remote_dma (card_bus base) page off len)"
  unfolding remote_dma_def by (auto intro!: sim_intros)

lemma sim_read_words [sim_intros]: "sim (read_words bus n) (read_words (card_bus base) n)"
  unfolding read_words_def by (rule sim_at_base, rule sim_insw)

lemma sim_send: "sim (ne2000_send_packet bus data) (ne2000_send_packet (card_bus base) data)"
  unfolding ne2000_send_packet_def Let_def by (intro sim_intros | simp)+

lemma sim_read_times [sim_intros]: "sim (read_times n bus (data_port base)) (read_times n (card_bus base) (data_port base))"
  by (induction n) (auto intro!: sim_intros)

lemma sim_read_header [sim_intros]: "sim (read_header bus page) (read_header (card_bus base) page)"
  unfolding read_header_def by (intro sim_intros)

lemma sim_scan_pages [sim_intros]: "sim (scan_pages n bus current p) (scan_pages n (card_bus base) current p)"
  by (induction n arbitrary: p) (auto intro!: sim_intros)

lemma sim_set_boundary [sim_intros]: "sim (set_boundary bus p) (set_boundary (card_bus base) p)"
  unfolding set_boundary_def by (auto intro!: sim_intros)

lemma sim_recover_packet [sim_intros]: "sim (recover_packet bus page) (recover_packet (card_bus base) page)"
  unfolding recover_packet_def Let_def by (intro sim_intros | simp split: option.split | rule conjI | rule impI | rule allI)+

lemma sim_read_packet [sim_intros]: "sim (read_packet bus page nx n) (read_packet (card_bus base) page nx n)"
  unfolding read_packet_def Let_def by (intro sim_intros | simp)+

lemma sim_dump_page [sim_intros]: "sim (dump_page bus page) (dump_page (card_bus base) page)"
  unfolding dump_page_def by (rule sim_intros | simp)+

lemma sim_receive: "sim (ne2000_receive_packet bus n) (ne2000_receive_packet (card_bus base) n)"
  unfolding ne2000_receive_packet_def Let_def by (intro sim_intros | simp)+

end

subsection \<open>Operations of the card\<close>

lemma run_card_write: "io_base s = b \<Longrightarrow> b \<noteq> 0 \<Longrightarrow> run_state (ne2000_write (card_bus b) r v) s = ((), s\<lparr>hw := card_out r v (hw s)\<rparr>)"
  by (simp add: ne2000_write_def run_port)

lemma run_card_read: "io_base s = b \<Longrightarrow> b \<noteq> 0 \<Longrightarrow> run_state (ne2000_read (card_bus b) r) s = (fst (card_in r (hw s)), s\<lparr>hw := snd (card_in r (hw s))\<rparr>)"
  by (simp add: ne2000_read_def run_port)

lemma card_wait:
  assumes "io_base s = b" "b \<noteq> 0" "c_cr (hw s) AND 0x40 = 0" "c_isr (hw s) AND flag = 0" "snd (c_pending (hw s)) AND flag \<noteq> 0" "fst (c_pending (hw s)) < n"
  shows "run_state (isr_wait n (card_bus b) flag) s = (True, s\<lparr>hw := (hw s)\<lparr>c_isr := c_isr (hw s) OR snd (c_pending (hw s)), c_pending := (0, 0)\<rparr>\<rparr>)"
  using assms
proof (induction n arbitrary: s)
  case (Suc n)
  obtain k f where p: "c_pending (hw s) = (k, f)" by fastforce
  show ?case
  proof (cases k)
    case 0
    then have "(c_isr (hw s) OR f) AND flag \<noteq> 0" using Suc.prems p by (simp add: bit.conj_disj_distrib2)
    then show ?thesis using Suc.prems p 0 by (simp add: run_card_read card_in_def poll_isr_def)
  next
    case (Suc j)
    let ?s = "s\<lparr>hw := (hw s)\<lparr>c_pending := (j, f)\<rparr>\<rparr>"
    have "run_state (isr_wait n (card_bus b) flag) ?s = (True, ?s\<lparr>hw := (hw ?s)\<lparr>c_isr := c_isr (hw ?s) OR snd (c_pending (hw ?s)), c_pending := (0, 0)\<rparr>\<rparr>)"
      using Suc.prems p Suc by (intro Suc.IH) simp_all
    then show ?thesis using Suc.prems p Suc by (simp add: run_card_read card_in_def poll_isr_def)
  qed
qed simp

lemma run_card_outsw: "run_state (outsw (card_bus b) p ws) s = ((), s\<lparr>hw := fold card_write ws (hw s)\<rparr>)"
  by (induction ws arbitrary: s) (simp_all add: run_port)

lemma word_bytes_Cons: "word_bytes (w # ws) = ucast w # ucast (drop_bit 8 w) # word_bytes ws"
  by (simp add: word_bytes_def)

lemma card_write_done: "c_count c = 0 \<Longrightarrow> fold card_write ws c = c"
  by (induction ws) (simp_all add: card_write_def dma_step_def)

lemma card_writes:
  assumes "c_count c = n" "0 < n" "n \<le> 2 * length ws" "c_addr c + 2 * length ws < 0x8000"
  shows "\<exists>m a. fold card_write ws c = c\<lparr>c_mem := m, c_addr := a, c_count := 0, c_pending := (c_latency c, ISR_RDC)\<rparr>
    \<and> (\<forall>i < n. m (c_addr c + i) = word_bytes ws ! i) \<and> (\<forall>j. j < c_addr c \<or> c_addr c + 2 * length ws \<le> j \<longrightarrow> m j = c_mem c j)"
  using assms
proof (induction ws arbitrary: c n)
  case (Cons w ws)
  let ?c = "c\<lparr>c_mem := (c_mem c)(c_addr c := ucast w, c_addr c + 1 := ucast (drop_bit 8 w))\<rparr>"
  show ?case
  proof (cases "n \<le> 2")
    case True
    then have w: "card_write w c = ?c\<lparr>c_addr := c_addr c + 2, c_count := 0, c_pending := (c_latency c, ISR_RDC)\<rparr>"
      using Cons.prems by (simp add: card_write_def dma_step_def)
    have "\<forall>i < n. c_mem ?c (c_addr c + i) = word_bytes (w # ws) ! i"
    proof (intro allI impI)
      fix i assume "i < n"
      then have "i = 0 \<or> i = 1" using True by auto
      then show "c_mem ?c (c_addr c + i) = word_bytes (w # ws) ! i" by (auto simp: word_bytes_Cons)
    qed
    moreover have "\<forall>j. j < c_addr c \<or> c_addr c + 2 * length (w # ws) \<le> j \<longrightarrow> c_mem ?c j = c_mem c j" by auto
    moreover have "fold card_write (w # ws) c = c\<lparr>c_mem := c_mem ?c, c_addr := c_addr c + 2, c_count := 0, c_pending := (c_latency c, ISR_RDC)\<rparr>"
      using w by (simp add: card_write_done)
    ultimately show ?thesis by blast
  next
    case False
    let ?d = "?c\<lparr>c_addr := c_addr c + 2, c_count := n - 2\<rparr>"
    have w: "card_write w c = ?d" using False Cons.prems by (simp add: card_write_def dma_step_def)
    have "c_count ?d = n - 2" "0 < n - 2" "n - 2 \<le> 2 * length ws" "c_addr ?d + 2 * length ws < 0x8000" using Cons.prems False by auto
    from Cons.IH [OF this] obtain m a where "fold card_write ws ?d = ?d\<lparr>c_mem := m, c_addr := a, c_count := 0, c_pending := (c_latency ?d, ISR_RDC)\<rparr>"
        "\<forall>i < n - 2. m (c_addr ?d + i) = word_bytes ws ! i"
        "\<forall>j. j < c_addr ?d \<or> c_addr ?d + 2 * length ws \<le> j \<longrightarrow> m j = c_mem ?d j" by blast
    then have m: "fold card_write ws ?d = ?d\<lparr>c_mem := m, c_addr := a, c_count := 0, c_pending := (c_latency c, ISR_RDC)\<rparr>"
        "\<forall>i < n - 2. m (c_addr c + 2 + i) = word_bytes ws ! i"
        "\<forall>j. j < c_addr c + 2 \<or> c_addr c + 2 + 2 * length ws \<le> j \<longrightarrow> m j = c_mem ?c j" by simp_all
    have "\<forall>i < n. m (c_addr c + i) = word_bytes (w # ws) ! i"
    proof (intro allI impI)
      fix i assume i: "i < n"
      show "m (c_addr c + i) = word_bytes (w # ws) ! i"
      proof (cases "i < 2")
        case True
        then have i: "i = 0 \<or> i = 1" by auto
        have "m (c_addr c + i) = c_mem ?c (c_addr c + i)" using m(3) True by simp
        then show ?thesis using i by (auto simp: word_bytes_Cons)
      next
        case False
        then obtain j where j: "i = Suc (Suc j)" by (metis add_2_eq_Suc le_add_diff_inverse not_less)
        then show ?thesis using m(2) [rule_format, of j] i by (simp add: word_bytes_Cons)
      qed
    qed
    moreover have "\<forall>j. j < c_addr c \<or> c_addr c + 2 * length (w # ws) \<le> j \<longrightarrow> m j = c_mem c j" using m(3) by auto
    ultimately show ?thesis using w m(1) by (intro exI [of _ m] exI [of _ a]) simp
  qed
qed simp

definition ring_addr :: "nat \<Rightarrow> nat \<Rightarrow> nat" where
  "ring_addr a i = (if a + i < 0x8000 then a + i else a + i - 0x4000)"

definition ring_bytes :: "(nat \<Rightarrow> u8) \<Rightarrow> nat \<Rightarrow> nat \<Rightarrow> u8 list" where
  "ring_bytes m a n = map (\<lambda>i. m (ring_addr a i)) [0..<n]"

lemma run_card_insw:
  assumes "c_count (hw s) = n" "0 < n" "k = (n + 1) div 2" "even (c_addr (hw s))" "0x4000 \<le> c_addr (hw s)" "c_addr (hw s) < 0x8000" "n < 0x4000"
  shows "\<exists>a. run_state (insw (card_bus b) p k) s = (bytes_words (ring_bytes (c_mem (hw s)) (c_addr (hw s)) (2 * k)),
    s\<lparr>hw := (hw s)\<lparr>c_addr := a, c_count := 0, c_pending := (c_latency (hw s), ISR_RDC)\<rparr>\<rparr>)"
  using assms
proof (induction k arbitrary: s n)
  case (Suc k)
  let ?c = "hw s" and ?a = "c_addr (hw s)"
  define a' where "a' = (if ?a + 2 = 0x8000 then 0x4000 else ?a + 2)"
  have bytes: "ring_bytes (c_mem ?c) ?a (2 * Suc k) = c_mem ?c ?a # c_mem ?c (?a + 1) # ring_bytes (c_mem ?c) a' (2 * k)"
  proof -
    have a: "?a + 1 < 0x8000" using Suc.prems(4,6) by presburger
    have e: "?a + 2 \<le> 0x8000" using Suc.prems(4,6) by presburger
    have "ring_addr ?a (Suc (Suc i)) = ring_addr a' i" if "i < 2 * k" for i
      using that Suc.prems(3,5-7) e by (auto simp: ring_addr_def a'_def)
    moreover have "[0..<2 * Suc k] = 0 # 1 # map (\<lambda>i. Suc (Suc i)) [0..<2 * k]"
      by (rule nth_equalityI) (auto simp: nth_Cons' simp del: upt_Suc)
    moreover have "ring_addr ?a 0 = ?a" "ring_addr ?a 1 = ?a + 1" using a by (auto simp: ring_addr_def)
    ultimately show ?thesis by (simp add: ring_bytes_def del: upt_Suc)
  qed
  show ?case
  proof (cases "n \<le> 2")
    case True
    then have "k = 0" using Suc.prems(2,3) by simp
    moreover have "run_state (inw (card_bus b) p) s = (ucast (c_mem ?c ?a) OR push_bit 8 (ucast (c_mem ?c (?a + 1))),
        s\<lparr>hw := ?c\<lparr>c_addr := a', c_count := 0, c_pending := (c_latency ?c, ISR_RDC)\<rparr>\<rparr>)"
      using True Suc.prems(1,2) by (simp add: run_port card_read_def dma_step_def a'_def)
    ultimately show ?thesis unfolding bytes by (intro exI [of _ a']) (simp add: ring_bytes_def)
  next
    case False
    let ?s = "s\<lparr>hw := ?c\<lparr>c_addr := a', c_count := n - 2\<rparr>\<rparr>"
    have a': "even a'" "0x4000 \<le> a'" "a' < 0x8000" using Suc.prems(4-6) by (auto simp: a'_def)
    have i: "c_count (hw ?s) = n - 2" "0 < n - 2" "k = (n - 2 + 1) div 2" using False Suc.prems(2,3) by auto
    have n2: "n - 2 < 0x4000" using Suc.prems(7) by simp
    have r: "run_state (inw (card_bus b) p) s = (ucast (c_mem ?c ?a) OR push_bit 8 (ucast (c_mem ?c (?a + 1))), ?s)"
      using False Suc.prems(1) by (simp add: run_port card_read_def dma_step_def a'_def)
    obtain a where "run_state (insw (card_bus b) p k) ?s = (bytes_words (ring_bytes (c_mem ?c) a' (2 * k)),
        ?s\<lparr>hw := (hw ?s)\<lparr>c_addr := a, c_count := 0, c_pending := (c_latency ?c, ISR_RDC)\<rparr>\<rparr>)"
      using Suc.IH [OF i(1-3)] a' n2 by auto
    then show ?thesis unfolding bytes using r by (intro exI [of _ a]) simp
  qed
qed simp

subsection \<open>Sending\<close>

lemma split16: "unat (ucast (n AND 0xFF) :: u8) = unat n mod 256" "unat (ucast (drop_bit 8 n) :: u8) = unat n div 256"
  "unat (ucast (drop_bit 8 n AND 0xFF) :: u8) = unat n div 256" for n :: u16
proof -
  have m: "n AND 0xFF = take_bit 8 n" "drop_bit 8 n AND 0xFF = take_bit 8 (drop_bit 8 n)" for n :: u16
    by (simp_all add: take_bit_eq_mask mask_numeral)
  have "unat n < 2 ^ LENGTH(16)" by (rule unsigned_less)
  then have "unat n div 256 < 256" by (simp add: less_mult_imp_div_less)
  then show "unat (ucast (n AND 0xFF) :: u8) = unat n mod 256" "unat (ucast (drop_bit 8 n) :: u8) = unat n div 256"
    "unat (ucast (drop_bit 8 n AND 0xFF) :: u8) = unat n div 256"
    by (simp_all add: m unsigned_ucast_eq take_bit_eq_mod drop_bit_eq_div unat_div unat_mod)
qed

definition idle :: "card \<Rightarrow> bool" where
  "idle c \<longleftrightarrow> c_pending c = (0, 0) \<and> c_isr c AND 0x42 = 0 \<and> c_latency c < 10000"

lemma unat_send_length: "length data \<le> 1500 \<Longrightarrow> unat (send_length data) = max 60 (length data)"
  by (simp add: send_length_def unat_of_nat_lt)

definition padded :: "u8 list \<Rightarrow> u8 list" where
  "padded data = data @ replicate (60 - length data) 0"

lemma word_bytes_append: "word_bytes (a @ b) = word_bytes a @ word_bytes b" by (simp add: word_bytes_def)

lemma word_bytes_zeros: "word_bytes (replicate k 0) = replicate (2 * k) 0"
  by (induction k) (simp_all add: word_bytes_def)

lemma word_bytes_odd: "odd (length bs) \<Longrightarrow> word_bytes (bytes_words bs) @ [last bs] = bs"
proof (induction bs rule: bytes_words.induct)
  case (1 a b bs)
  then have "bs \<noteq> []" by auto
  have "word_bytes (bytes_words (a # b # bs)) = a # b # word_bytes (bytes_words bs)"
    using word_bytes_bytes_words [of "[a, b]"] by (simp add: word_bytes_Cons)
  then show ?case using 1 \<open>bs \<noteq> []\<close> by simp
qed (simp_all add: word_bytes_def)

lemma frame_bytes:
  assumes "length data \<le> 1500"
  shows "take (unat (send_length data)) (word_bytes (frame_words data)) = padded data" "unat (send_length data) \<le> 2 * length (frame_words data)"
    "length (frame_words data) \<le> 751"
proof -
  let ?k = "(max 60 (length data) - length data + 1) div 2"
  have w: "word_bytes (frame_words data) = data @ (if odd (length data) then [0] else []) @ replicate (2 * ?k) 0"
  proof (cases "odd (length data)")
    case True
    have "word_bytes [ucast (last data)] = [last data, 0]"
      by (simp add: word_bytes_def) (rule bit_word_eqI, auto simp: bit_simps dest: bit_imp_le_length)
    moreover have "frame_words data = bytes_words data @ [ucast (last data)] @ replicate ?k 0"
      using True assms by (simp add: frame_words_def unat_send_length)
    ultimately have "word_bytes (frame_words data) = (word_bytes (bytes_words data) @ [last data]) @ [0] @ replicate (2 * ?k) 0"
      by (simp only: word_bytes_append word_bytes_zeros) simp
    then show ?thesis using word_bytes_odd [OF True] True by simp
  next
    case False
    then show ?thesis using assms word_bytes_bytes_words [of data]
      by (simp add: frame_words_def word_bytes_append word_bytes_zeros unat_send_length)
  qed
  have "take (max 60 (length data)) (word_bytes (frame_words data)) = padded data"
  proof (cases "length data < 60")
    case True
    let ?j = "(if odd (length data) then 1 else 0) + 2 * ?k"
    have "(if odd (length data) then [0] else []) @ replicate (2 * ?k) 0 = replicate ?j (0 :: u8)" by simp
    moreover have "60 - length data \<le> ?j" using True by auto
    ultimately show ?thesis unfolding w padded_def using True by (simp add: max_def min_def)
  next
    case False
    then show ?thesis unfolding w padded_def by (simp add: max_def)
  qed
  then show "take (unat (send_length data)) (word_bytes (frame_words data)) = padded data" using assms by (simp add: unat_send_length)
  show "unat (send_length data) \<le> 2 * length (frame_words data)" "length (frame_words data) \<le> 751"
    using assms by (auto simp: unat_send_length frame_words_def max_def)
qed

lemma card_send:
  assumes s: "io_base s = b" "b \<noteq> 0" and len: "length data \<le> 1500" and idle: "idle (hw s)"
  shows "\<exists>c. run_state (ne2000_send_packet (card_bus b) data) s = ((), s\<lparr>hw := c\<rparr>) \<and> c_sent c = c_sent (hw s) @ [padded data] \<and> idle c
    \<and> c_curr c = c_curr (hw s) \<and> c_bnry c = c_bnry (hw s) \<and> (\<forall>j \<ge> 0x4000. c_mem c j = c_mem (hw s) j)
    \<and> c_isr c = c_isr (hw s) \<and> c_cr c AND 0x40 = 0"
proof -
  let ?n = "send_length data" and ?c = "hw s"
  have n: "0 < unat ?n" "unat ?n \<le> 1500" using len by (auto simp: unat_send_length)
  define j where "j = c_isr ?c AND NOT ISR_RDC"
  define c1 where "c1 = ?c\<lparr>c_cr := 0x12, c_count := unat ?n, c_isr := j, c_addr := 0x2000\<rparr>"
  have c1: "c_count c1 = unat ?n" "c_addr c1 = 0x2000" by (simp_all add: c1_def)
  have "c_addr c1 + 2 * length (frame_words data) < 0x8000" using frame_bytes(3) [OF len] c1(2) by simp
  from card_writes [OF c1(1) n(1) frame_bytes(2) [OF len] this]
  obtain m a where m: "fold card_write (frame_words data) c1 = c1\<lparr>c_mem := m, c_addr := a, c_count := 0, c_pending := (c_latency c1, ISR_RDC)\<rparr>"
      "\<forall>i < unat ?n. m (0x2000 + i) = word_bytes (frame_words data) ! i"
      "\<forall>j. j < 0x2000 \<or> 0x2000 + 2 * length (frame_words data) \<le> j \<longrightarrow> m j = c_mem c1 j"
    unfolding c1(2) by blast
  define c2 where "c2 = c1\<lparr>c_mem := m, c_addr := a, c_count := 0, c_pending := (c_latency ?c, ISR_RDC)\<rparr>"
  define c3 where "c3 = c2\<lparr>c_isr := j, c_pending := (0, 0), c_tpage := 0x20, c_tcount := unat ?n, c_cr := 0x26\<rparr>"
  define c4 where "c4 = c3\<lparr>c_sent := c_sent ?c @ [padded data], c_pending := (c_latency ?c, ISR_PTX)\<rparr>"
  define c5 where "c5 = c4\<lparr>c_isr := j, c_pending := (0, 0)\<rparr>"
  have frame: "map (\<lambda>i. m (0x2000 + i)) [0..<unat ?n] = padded data"
    unfolding frame_bytes(1) [OF len, symmetric] using m(2) frame_bytes(2) [OF len] by (intro nth_equalityI) auto
  have su: "card_out 0 0x12 (card_out 9 0x20 (card_out 8 0 (card_out 7 ISR_RDC (card_out 11 (ucast (drop_bit 8 ?n))
      (card_out 10 (ucast (?n AND 0xFF)) (card_out 0 0x22 ?c)))))) = c1"
    by (simp add: card_out_def c1_def j_def split16)
  have "c_isr ?c AND 2 = (c_isr ?c AND 0x42) AND 2" by (simp add: and.assoc)
  then have z: "c_isr ?c AND 2 = 0" using idle by (simp add: idle_def)
  have j: "j AND ISR_RDC = 0" "j AND ISR_PTX = 0" "j AND 0x42 = 0" using z idle by (simp_all add: j_def idle_def and.assoc)
  have clear: "(v OR f) AND NOT f = v" if "v AND f = 0" for v f :: u8
    using that by (simp add: bit_eq_iff) (auto simp: bit_simps)
  note j' = clear [OF j(1), simplified] clear [OF j(2), simplified]
  have tx: "card_out 0 0x26 (card_out 6 (ucast (drop_bit 8 ?n)) (card_out 5 (ucast (?n AND 0xFF)) (card_out 4 0x20 (card_out 7 ISR_RDC
      (c2\<lparr>c_isr := j OR ISR_RDC, c_pending := (0, 0)\<rparr>))))) = c4"
    using frame by (simp add: card_out_def transmit_def c4_def c3_def c2_def c1_def split16 j')
  have w1: "run_state (isr_wait 10000 (card_bus b) ISR_RDC) (s\<lparr>hw := c2\<rparr>) = (True, s\<lparr>hw := c2\<lparr>c_isr := j OR ISR_RDC, c_pending := (0, 0)\<rparr>\<rparr>)"
    using s idle j by (subst card_wait) (simp_all add: c2_def c1_def idle_def)
  have w2: "run_state (isr_wait 100000 (card_bus b) ISR_PTX) (s\<lparr>hw := c4\<rparr>) = (True, s\<lparr>hw := c4\<lparr>c_isr := j OR ISR_PTX, c_pending := (0, 0)\<rparr>\<rparr>)"
    using s idle j by (subst card_wait) (simp_all add: c4_def c3_def c2_def c1_def idle_def)
  have e: "card_out 7 ISR_PTX (c4\<lparr>c_isr := j OR ISR_PTX, c_pending := (0, 0)\<rparr>) = c5"
    by (simp add: card_out_def c5_def c4_def c3_def c2_def c1_def j')
  have r: "card_in 4 c5 = (0, c5)" by (simp add: card_in_def c5_def c4_def c3_def)
  have w: "fold card_write (frame_words data) c1 = c2" using m(1) by (simp add: c2_def c1_def)
  have "run_state (ne2000_send_packet (card_bus b) data) s = ((), s\<lparr>hw := c5\<rparr>)"
    using len s by (simp add: ne2000_send_packet_def Let_def run_card_write run_card_read run_card_outsw su w w1 tx w2 e r)
  moreover have "\<forall>j \<ge> 0x4000. c_mem c5 j = c_mem ?c j"
    using m(3) frame_bytes(3) [OF len] by (simp add: c5_def c4_def c3_def c2_def c1_def)
  moreover have "idle c5" using idle j by (simp add: idle_def c5_def c4_def c3_def c2_def c1_def)
  moreover have "c_isr c5 = c_isr ?c"
  proof -
    have "c_isr ?c AND ISR_RDC = (c_isr ?c AND 0x42) AND ISR_RDC" by (simp add: and.assoc)
    then have "c_isr ?c AND ISR_RDC = 0" using idle by (simp add: idle_def)
    then have "j = c_isr ?c" by (simp add: j_def bit_eq_iff) (auto simp: bit_simps)
    then show ?thesis by (simp add: c5_def)
  qed
  ultimately show ?thesis by (intro exI [of _ c5]) (simp add: c5_def c4_def c3_def c2_def c1_def)
qed

subsection \<open>Receiving\<close>

lemma run_card_dma:
  "io_base s = b \<Longrightarrow> b \<noteq> 0 \<Longrightarrow> run_state (remote_dma (card_bus b) page off n) s =
     ((), s\<lparr>hw := (hw s)\<lparr>c_cr := 0x0A, c_count := unat n, c_addr := unat page * 256 + unat off\<rparr>\<rparr>)"
  using split16 [of n] unat_lt_8 [of off] by (simp add: remote_dma_def run_card_write card_out_def)

definition in_ring :: "u8 \<Rightarrow> bool" where
  "in_ring p \<longleftrightarrow> RX_START_PAGE \<le> p \<and> p < RX_STOP_PAGE"

text \<open>A remote read: the words, the end of the transfer, and the flag cleared.\<close>

lemma card_fetch:
  assumes s: "io_base s = b" "b \<noteq> 0" and idle: "idle (hw s)" and p: "in_ring page" and off: "off = 0 \<or> off = 4" and n: "0 < unat n" "unat n < 0x4000"
  obtains a c1 where
    "run_state (remote_dma (card_bus b) page off n) s = ((), s\<lparr>hw := (hw s)\<lparr>c_cr := 0x0A, c_count := unat n, c_addr := unat page * 256 + unat off\<rparr>\<rparr>)"
    "run_state (read_words (card_bus b) ((unat n + 1) div 2)) (s\<lparr>hw := (hw s)\<lparr>c_cr := 0x0A, c_count := unat n, c_addr := unat page * 256 + unat off\<rparr>\<rparr>)
       = (bytes_words (ring_bytes (c_mem (hw s)) (unat page * 256 + unat off) (2 * ((unat n + 1) div 2))), s\<lparr>hw := c1\<rparr>)"
    "run_state (isr_wait 10000 (card_bus b) ISR_RDC) (s\<lparr>hw := c1\<rparr>) = (True, s\<lparr>hw := c1\<lparr>c_isr := c_isr (hw s) OR ISR_RDC, c_pending := (0, 0)\<rparr>\<rparr>)"
    "card_out 7 ISR_RDC (c1\<lparr>c_isr := c_isr (hw s) OR ISR_RDC, c_pending := (0, 0)\<rparr>) = (hw s)\<lparr>c_cr := 0x0A, c_addr := a, c_count := 0\<rparr>"
proof -
  let ?s = "s\<lparr>hw := (hw s)\<lparr>c_cr := 0x0A, c_count := unat n, c_addr := unat page * 256 + unat off\<rparr>\<rparr>"
  have pg: "64 \<le> unat page" "unat page < 128" using p by (simp_all add: in_ring_def word_le_nat_alt word_less_nat_alt)
  have a: "even (c_addr (hw ?s))" "0x4000 \<le> c_addr (hw ?s)" "c_addr (hw ?s) < 0x8000" using pg off by auto
  obtain a where w: "run_state (insw (card_bus b) (data_port b) ((unat n + 1) div 2)) ?s =
      (bytes_words (ring_bytes (c_mem (hw ?s)) (c_addr (hw ?s)) (2 * ((unat n + 1) div 2))),
       ?s\<lparr>hw := (hw ?s)\<lparr>c_addr := a, c_count := 0, c_pending := (c_latency (hw ?s), ISR_RDC)\<rparr>\<rparr>)"
    using run_card_insw [OF _ n(1) refl a n(2)] by auto
  define c1 where "c1 = (hw s)\<lparr>c_cr := 0x0A, c_addr := a, c_count := 0, c_pending := (c_latency (hw s), ISR_RDC)\<rparr>"
  have "c_isr (hw s) AND ISR_RDC = (c_isr (hw s) AND 0x42) AND ISR_RDC" by (simp add: and.assoc)
  then have z: "c_isr (hw s) AND ISR_RDC = 0" using idle by (simp add: idle_def)
  have "(c_isr (hw s) OR ISR_RDC) AND NOT ISR_RDC = c_isr (hw s)" using z by (simp add: bit_eq_iff) (auto simp: bit_simps)
  then have "card_out 7 ISR_RDC (c1\<lparr>c_isr := c_isr (hw s) OR ISR_RDC, c_pending := (0, 0)\<rparr>) = (hw s)\<lparr>c_cr := 0x0A, c_addr := a, c_count := 0\<rparr>"
    using idle by (simp add: card_out_def c1_def idle_def)
  moreover have "run_state (isr_wait 10000 (card_bus b) ISR_RDC) (s\<lparr>hw := c1\<rparr>) = (True, s\<lparr>hw := c1\<lparr>c_isr := c_isr (hw s) OR ISR_RDC, c_pending := (0, 0)\<rparr>\<rparr>)"
    using s idle z by (subst card_wait) (simp_all add: c1_def idle_def)
  moreover have "run_state (read_words (card_bus b) ((unat n + 1) div 2)) ?s
       = (bytes_words (ring_bytes (c_mem (hw s)) (unat page * 256 + unat off) (2 * ((unat n + 1) div 2))), s\<lparr>hw := c1\<rparr>)"
    using w s by (simp add: read_words_def c1_def)
  ultimately show thesis using that run_card_dma [OF s] by blast
qed

text \<open>The frames that lie in the ring from a page on, up to the page that is written next.\<close>

fun ring_at :: "card \<Rightarrow> u8 \<Rightarrow> u8 list list \<Rightarrow> bool" where
  "ring_at c p [] = (p = c_curr c)"
| "ring_at c p (f # fs) = (p \<noteq> c_curr c \<and> in_ring p \<and> 56 \<le> length f \<and> length f \<le> 1514
     \<and> (\<exists>status next lo hi. ring_bytes (c_mem c) (unat p * 256) (4 + length f) = [status, next, lo, hi] @ f
          \<and> status AND 1 \<noteq> 0 \<and> unat (ucast lo OR push_bit 8 (ucast hi) :: u16) = length f + 4 \<and> in_ring next \<and> ring_at c next fs))"

lemma ring_at_cong: "c_mem c' = c_mem c \<Longrightarrow> c_curr c' = c_curr c \<Longrightarrow> ring_at c' p fs = ring_at c p fs"
  by (induction fs arbitrary: p) auto

lemma page_after_before: "in_ring p \<Longrightarrow> page_after (page_before p) = p"
proof (cases "p = 0x40")
  case False
  assume p: "in_ring p"
  then have "0x40 < p" using False by (simp add: in_ring_def order.strict_iff_order)
  then have u: "64 < unat p" "unat p < 128" using p by (simp_all add: in_ring_def word_less_nat_alt)
  then have "1 \<le> p" by (simp add: word_le_nat_alt)
  then have "unat (p - 1) = unat p - 1" by (simp add: unat_sub)
  then have "\<not> p - 1 < 0x40" "\<not> 0x80 \<le> p" using u by (simp_all add: word_less_nat_alt word_le_nat_alt)
  then show ?thesis by (simp add: page_after_def page_before_def)
qed (simp add: page_after_def page_before_def)

lemma ring_bytes_split:
  "a + 4 < 0x8000 \<Longrightarrow> 0x4000 \<le> a \<Longrightarrow> ring_bytes m a (4 + n) = ring_bytes m a 4 @ ring_bytes m (a + 4) n"
proof -
  assume a: "a + 4 < 0x8000" "0x4000 \<le> a"
  have "[0..<4 + n] = [0..<4] @ map (\<lambda>i. i + 4) [0..<n]" by (rule nth_equalityI) (auto simp: nth_append simp del: upt_rec_numeral)
  then show ?thesis using a by (simp add: ring_bytes_def ring_addr_def add.commute add.left_commute del: upt_rec_numeral)
qed

lemma fetch_bytes: "take n (word_bytes (bytes_words (ring_bytes m a (2 * ((n + 1) div 2))))) = ring_bytes m a n"
  by (simp add: word_bytes_bytes_words ring_bytes_def take_map)

lemma idle_upd: "idle c \<Longrightarrow> idle (c\<lparr>c_cr := v, c_addr := a, c_count := n\<rparr>)" by (simp add: idle_def)

lemma card_header:
  assumes "io_base s = b" "b \<noteq> 0" "idle (hw s)" "in_ring page"
  obtains a c1 where "run_state (read_header (card_bus b) page) s = (ring_bytes (c_mem (hw s)) (unat page * 256) 4, s\<lparr>hw := c1\<rparr>)"
    "run_state (isr_wait 10000 (card_bus b) ISR_RDC) (s\<lparr>hw := c1\<rparr>) = (True, s\<lparr>hw := c1\<lparr>c_isr := c_isr (hw s) OR ISR_RDC, c_pending := (0, 0)\<rparr>\<rparr>)"
    "card_out 7 ISR_RDC (c1\<lparr>c_isr := c_isr (hw s) OR ISR_RDC, c_pending := (0, 0)\<rparr>) = (hw s)\<lparr>c_cr := 0x0A, c_addr := a, c_count := 0\<rparr>"
proof (rule card_fetch [OF assms, of 0 4])
  fix a c1
  assume r: "run_state (remote_dma (card_bus b) page 0 4) s = ((), s\<lparr>hw := (hw s)\<lparr>c_cr := 0x0A, c_count := unat (4 :: u16), c_addr := unat page * 256 + unat (0 :: u8)\<rparr>\<rparr>)"
    "run_state (read_words (card_bus b) ((unat (4 :: u16) + 1) div 2)) (s\<lparr>hw := (hw s)\<lparr>c_cr := 0x0A, c_count := unat (4 :: u16), c_addr := unat page * 256 + unat (0 :: u8)\<rparr>\<rparr>)
       = (bytes_words (ring_bytes (c_mem (hw s)) (unat page * 256 + unat (0 :: u8)) (2 * ((unat (4 :: u16) + 1) div 2))), s\<lparr>hw := c1\<rparr>)"
    and w: "run_state (isr_wait 10000 (card_bus b) ISR_RDC) (s\<lparr>hw := c1\<rparr>) = (True, s\<lparr>hw := c1\<lparr>c_isr := c_isr (hw s) OR ISR_RDC, c_pending := (0, 0)\<rparr>\<rparr>)"
    "card_out 7 ISR_RDC (c1\<lparr>c_isr := c_isr (hw s) OR ISR_RDC, c_pending := (0, 0)\<rparr>) = (hw s)\<lparr>c_cr := 0x0A, c_addr := a, c_count := 0\<rparr>"
  have "run_state (read_header (card_bus b) page) s = (ring_bytes (c_mem (hw s)) (unat page * 256) 4, s\<lparr>hw := c1\<rparr>)"
    using r by (simp add: read_header_def word_bytes_bytes_words ring_bytes_def del: upt_rec_numeral)
  then show thesis using that w by blast
qed simp_all

lemma card_read_packet:
  assumes s: "io_base s = b" "b \<noteq> 0" "idle (hw s)" "in_ring page" and n: "0 < unat (len - 4)" "unat (len - 4) < 0x4000"
  shows "\<exists>a. run_state (read_packet (card_bus b) page next len) s =
    ((int (unat (len - 4)), ring_bytes (c_mem (hw s)) (unat page * 256 + 4) (unat (len - 4))),
     s\<lparr>hw := (hw s)\<lparr>c_cr := 0x22, c_addr := a, c_count := 0, c_bnry := page_before next\<rparr>\<rparr>)"
proof (rule card_fetch [OF s, of 4 "len - 4"])
  fix a c1
  let ?n = "len - 4" and ?s1 = "s\<lparr>hw := (hw s)\<lparr>c_cr := 0x0A, c_count := unat (len - 4), c_addr := unat page * 256 + unat (4 :: u8)\<rparr>\<rparr>"
  assume r: "run_state (remote_dma (card_bus b) page 4 ?n) s = ((), ?s1)"
    "run_state (read_words (card_bus b) ((unat ?n + 1) div 2)) ?s1
       = (bytes_words (ring_bytes (c_mem (hw s)) (unat page * 256 + unat (4 :: u8)) (2 * ((unat ?n + 1) div 2))), s\<lparr>hw := c1\<rparr>)"
    "run_state (isr_wait 10000 (card_bus b) ISR_RDC) (s\<lparr>hw := c1\<rparr>) = (True, s\<lparr>hw := c1\<lparr>c_isr := c_isr (hw s) OR ISR_RDC, c_pending := (0, 0)\<rparr>\<rparr>)"
    "card_out 7 ISR_RDC (c1\<lparr>c_isr := c_isr (hw s) OR ISR_RDC, c_pending := (0, 0)\<rparr>) = (hw s)\<lparr>c_cr := 0x0A, c_addr := a, c_count := 0\<rparr>"
  have e: "card_out 3 (page_before next) (card_out 0 0x22 ((hw s)\<lparr>c_cr := 0x0A, c_addr := a, c_count := 0\<rparr>)) =
      (hw s)\<lparr>c_cr := 0x22, c_addr := a, c_count := 0, c_bnry := page_before next\<rparr>" by (simp add: card_out_def)
  note run = r(1) r(2) r(3) r(4) e fetch_bytes
  have "run_state (read_packet (card_bus b) page next len) s =
    ((int (unat ?n), ring_bytes (c_mem (hw s)) (unat page * 256 + 4) (unat ?n)),
     s\<lparr>hw := (hw s)\<lparr>c_cr := 0x22, c_addr := a, c_count := 0, c_bnry := page_before next\<rparr>\<rparr>)"
    using s(1,2) run fetch_bytes [of "unat ?n" "c_mem (hw s)" "unat page * 256 + 4"]
    by (simp add: read_packet_def Let_def set_boundary_def run_card_write)
  then show ?thesis by blast
qed (use n in simp_all)

end
