(* ===== verification/Ne2000_Correct.thy ===== *)
theory Ne2000_Correct
  imports Ne2000_Card
begin

text \<open>
  What the driver of the NE2000 achieves over the card: a frame that is sent is on the wire as it was given,
  padded with zeros; the ring of received pages is a queue, of which a receive takes the first frame; an
  interrupt takes up to five frames and answers the ARP requests among them; initialisation leaves an empty queue
  and an idle card.
\<close>

subsection \<open>Taking a frame from the ring\<close>

lemma card_scan:
  assumes s: "io_base s = b" "b \<noteq> 0" "idle (hw s)" "in_ring p" and "p \<noteq> current" "ring_bytes (c_mem (hw s)) (unat p * 256) 4 \<noteq> [0, 0, 0, 0]"
  shows "\<exists>a. run_state (scan_pages (Suc n) (card_bus b) current p) s = (p, s\<lparr>hw := (hw s)\<lparr>c_cr := 0x0A, c_addr := a, c_count := 0\<rparr>\<rparr>)"
proof (rule card_header [OF s])
  fix a c1
  assume r: "run_state (read_header (card_bus b) p) s = (ring_bytes (c_mem (hw s)) (unat p * 256) 4, s\<lparr>hw := c1\<rparr>)"
    "run_state (isr_wait 10000 (card_bus b) ISR_RDC) (s\<lparr>hw := c1\<rparr>) = (True, s\<lparr>hw := c1\<lparr>c_isr := c_isr (hw s) OR ISR_RDC, c_pending := (0, 0)\<rparr>\<rparr>)"
    "card_out 7 ISR_RDC (c1\<lparr>c_isr := c_isr (hw s) OR ISR_RDC, c_pending := (0, 0)\<rparr>) = (hw s)\<lparr>c_cr := 0x0A, c_addr := a, c_count := 0\<rparr>"
  have "run_state (scan_pages (Suc n) (card_bus b) current p) s = (p, s\<lparr>hw := (hw s)\<lparr>c_cr := 0x0A, c_addr := a, c_count := 0\<rparr>\<rparr>)"
    using assms by (simp add: r run_card_write)
  then show ?thesis by blast
qed

text \<open>The first steps of a receive find the page where the next frame is to be.\<close>

lemma card_pages:
  "card_out 0 0x62 c = c\<lparr>c_cr := 0x62\<rparr>"
  "card_in 7 (c\<lparr>c_cr := 0x62\<rparr>) = (c_curr c, c\<lparr>c_cr := 0x62\<rparr>)"
  "card_out 0 0x22 c = c\<lparr>c_cr := 0x22\<rparr>"
  "card_in 3 (c\<lparr>c_cr := 0x22\<rparr>) = (c_bnry c, c\<lparr>c_cr := 0x22\<rparr>)"
  by (simp_all add: card_out_def card_in_def)

lemma card_receive_empty:
  assumes "io_base s = b" "b \<noteq> 0" "ring_at (hw s) (page_after (c_bnry (hw s))) []"
  shows "run_state (ne2000_receive_packet (card_bus b) n) s = ((0, []), s\<lparr>hw := (hw s)\<lparr>c_cr := 0x22\<rparr>\<rparr>)"
  using assms by (simp add: ne2000_receive_packet_def run_card_write run_card_read card_pages Let_def)

lemma card_receive:
  assumes s: "io_base s = b" "b \<noteq> 0" "idle (hw s)" and ring: "ring_at (hw s) (page_after (c_bnry (hw s))) (f # fs)" and f: "length f \<le> unat n"
  shows "\<exists>c. run_state (ne2000_receive_packet (card_bus b) n) s = ((int (length f), f), s\<lparr>hw := c\<rparr>) \<and> idle c
    \<and> ring_at c (page_after (c_bnry c)) fs \<and> c_sent c = c_sent (hw s) \<and> c_isr c = c_isr (hw s) \<and> c_cr c AND 0x40 = 0"
proof -
  let ?c = "hw s" and ?p = "page_after (c_bnry (hw s))"
  obtain st nx lo hi where h: "ring_bytes (c_mem ?c) (unat ?p * 256) (4 + length f) = [st, nx, lo, hi] @ f" "st AND 1 \<noteq> 0"
      "unat (ucast lo OR push_bit 8 (ucast hi) :: u16) = length f + 4" "in_ring nx" "ring_at ?c nx fs"
    and p: "?p \<noteq> c_curr ?c" "in_ring ?p" and len: "56 \<le> length f" "length f \<le> 1514"
    using ring by auto
  define L :: u16 where "L = ucast lo OR push_bit 8 (ucast hi)"
  have L: "unat L = length f + 4" using h(3) by (simp add: L_def)
  have "4 \<le> L" using L by (simp add: word_le_nat_alt)
  then have L4: "unat (L - 4) = length f" using L by (simp add: unat_sub)
  have tests: "\<not> L < 60" "\<not> 1518 < L" "\<not> n < L - 4" using L L4 len f by (simp_all add: word_less_nat_alt)
  have nx: "\<not> nx < RX_START_PAGE" "\<not> RX_STOP_PAGE \<le> nx" using h(4) by (simp_all add: in_ring_def not_less not_le)
  have u: "64 \<le> unat ?p" "unat ?p < 128" using p(2) by (simp_all add: in_ring_def word_le_nat_alt word_less_nat_alt)
  have split: "ring_bytes (c_mem ?c) (unat ?p * 256) (4 + length f) = ring_bytes (c_mem ?c) (unat ?p * 256) 4 @ ring_bytes (c_mem ?c) (unat ?p * 256 + 4) (length f)"
    using u by (intro ring_bytes_split) auto
  have lens: "length (ring_bytes m a k) = k" for m a k by (simp add: ring_bytes_def del: upt_rec_numeral)
  have "ring_bytes (c_mem ?c) (unat ?p * 256) 4 @ ring_bytes (c_mem ?c) (unat ?p * 256 + 4) (length f) = [st, nx, lo, hi] @ f" using h(1) split by simp
  then have hd: "ring_bytes (c_mem ?c) (unat ?p * 256) 4 = [st, nx, lo, hi]" and body: "ring_bytes (c_mem ?c) (unat ?p * 256 + 4) (length f) = f"
    by (subst (asm) append_eq_append_conv; simp add: lens)+
  define s1 where "s1 = s\<lparr>hw := ?c\<lparr>c_cr := 0x22\<rparr>\<rparr>"
  have s1: "io_base s1 = b" "idle (hw s1)" "c_mem (hw s1) = c_mem ?c" using s by (simp_all add: s1_def idle_def)
  have "ring_bytes (c_mem (hw s1)) (unat ?p * 256) 4 \<noteq> [0, 0, 0, 0]" using hd h(2) s1 by auto
  from card_scan [OF s1(1) s(2) s1(2) p(2) p(1) this, of 4] obtain a where
    sc: "run_state (scan_pages 5 (card_bus b) (c_curr ?c) ?p) s1 = (?p, s1\<lparr>hw := (hw s1)\<lparr>c_cr := 0x0A, c_addr := a, c_count := 0\<rparr>\<rparr>)"
    by (auto simp: numeral_eq_Suc)
  define s2 where "s2 = s1\<lparr>hw := (hw s1)\<lparr>c_cr := 0x0A, c_addr := a, c_count := 0\<rparr>\<rparr>"
  have s2: "io_base s2 = b" "idle (hw s2)" "c_mem (hw s2) = c_mem ?c" using s1 by (simp_all add: s2_def idle_def)
  obtain a' c1 where r: "run_state (read_header (card_bus b) ?p) s2 = ([st, nx, lo, hi], s2\<lparr>hw := c1\<rparr>)"
      "run_state (isr_wait 10000 (card_bus b) ISR_RDC) (s2\<lparr>hw := c1\<rparr>) = (True, s2\<lparr>hw := c1\<lparr>c_isr := c_isr (hw s2) OR ISR_RDC, c_pending := (0, 0)\<rparr>\<rparr>)"
      "card_out 7 ISR_RDC (c1\<lparr>c_isr := c_isr (hw s2) OR ISR_RDC, c_pending := (0, 0)\<rparr>) = (hw s2)\<lparr>c_cr := 0x0A, c_addr := a', c_count := 0\<rparr>"
    using card_header [OF s2(1) s(2) s2(2) p(2)] unfolding s2(3) hd by blast
  define s3 where "s3 = s2\<lparr>hw := (hw s2)\<lparr>c_cr := 0x0A, c_addr := a', c_count := 0\<rparr>\<rparr>"
  have s3: "io_base s3 = b" "idle (hw s3)" "c_mem (hw s3) = c_mem ?c" using s2 by (simp_all add: s3_def idle_def)
  have "0 < unat (L - 4)" "unat (L - 4) < 0x4000" unfolding L4 using len by linarith+
  from card_read_packet [OF s3(1) s(2) s3(2) p(2) this, of nx] obtain a'' where
    rp: "run_state (read_packet (card_bus b) ?p nx L) s3 = ((int (length f), f), s3\<lparr>hw := (hw s3)\<lparr>c_cr := 0x22, c_addr := a'', c_count := 0, c_bnry := page_before nx\<rparr>\<rparr>)"
    unfolding L4 s3(3) body by blast
  define c where "c = ?c\<lparr>c_cr := 0x22, c_addr := a'', c_count := 0, c_bnry := page_before nx\<rparr>"
  have cr: "run_state (ne2000_write (card_bus b) 0x07 ISR_RDC) (s2\<lparr>hw := c1\<lparr>c_isr := c_isr (hw s2) OR ISR_RDC, c_pending := (0, 0)\<rparr>\<rparr>) = ((), s3)"
    using s2(1) s(2) by (simp add: run_card_write r(3) s3_def)
  have rb: "run_state (ne2000_read (card_bus b) 3) s1 = (c_bnry ?c, s1)"
    using s(1,2) by (simp add: run_card_read s1_def card_pages)
  have "run_state (ne2000_receive_packet (card_bus b) n) s = ((int (length f), f), s3\<lparr>hw := (hw s3)\<lparr>c_cr := 0x22, c_addr := a'', c_count := 0, c_bnry := page_before nx\<rparr>\<rparr>)"
    using s(1,2) p(1) h(2) tests nx
    by (simp add: ne2000_receive_packet_def run_card_write run_card_read card_pages Let_def
        s1_def [symmetric] rb sc s2_def [symmetric] r(1) r(2) cr L_def [symmetric] rp del: not_less)
  moreover have "s3\<lparr>hw := (hw s3)\<lparr>c_cr := 0x22, c_addr := a'', c_count := 0, c_bnry := page_before nx\<rparr>\<rparr> = s\<lparr>hw := c\<rparr>"
    by (simp add: s3_def s2_def s1_def c_def)
  moreover have "idle c" using s(3) by (simp add: idle_def c_def)
  moreover have "ring_at c (page_after (c_bnry c)) fs"
    using h(4,5) by (simp add: c_def page_after_before ring_at_cong [of "?c\<lparr>c_cr := 0x22, c_addr := a'', c_count := 0, c_bnry := page_before nx\<rparr>" ?c])
  ultimately show ?thesis by (intro exI [of _ c]) (simp add: c_def)
qed


subsection \<open>Initialisation\<close>

lemma dma_steps: "2 * k < c_count c \<Longrightarrow> \<exists>a. (dma_step ^^ k) c = c\<lparr>c_addr := a, c_count := c_count c - 2 * k\<rparr>"
proof (induction k)
  case (Suc k)
  then obtain a where a: "(dma_step ^^ k) c = c\<lparr>c_addr := a, c_count := c_count c - 2 * k\<rparr>" by auto
  have "\<exists>a'. dma_step (c\<lparr>c_addr := a, c_count := c_count c - 2 * k\<rparr>) = c\<lparr>c_addr := a', c_count := c_count c - 2 * Suc k\<rparr>"
    using Suc.prems by (intro exI [of _ "if a + 2 = 0x8000 then 0x4000 else a + 2"]) (simp add: dma_step_def)
  then show ?case by (simp add: a)
qed (auto intro: exI [of _ "c_addr c"])

lemma run_card_data: "run_state (inb (card_bus b) (data_port b)) s = (c_mem (hw s) (c_addr (hw s)), s\<lparr>hw := dma_step (hw s)\<rparr>)"
  using card_regs(1) [of b "0x10"] by (simp add: data_port_def run_port card_in_def)

lemma run_read_mac: "io_base s = b \<Longrightarrow> \<exists>vs. run_state (read_mac n (card_bus b)) s = (vs, s\<lparr>hw := (dma_step ^^ (2 * n)) (hw s)\<rparr>)"
proof (induction n arbitrary: s)
  case (Suc n)
  let ?s = "s\<lparr>hw := dma_step (dma_step (hw s))\<rparr>"
  obtain vs where "run_state (read_mac n (card_bus b)) ?s = (vs, ?s\<lparr>hw := (dma_step ^^ (2 * n)) (hw ?s)\<rparr>)" using Suc.IH [of ?s] Suc.prems by auto
  then show ?case using Suc.prems by (simp add: run_card_data funpow_swap1)
qed simp

lemma card_no_flag:
  assumes "io_base s = b" "b \<noteq> 0" "c_cr (hw s) AND 0x40 = 0" "c_isr (hw s) AND flag = 0" "c_pending (hw s) = (0, 0)"
  shows "run_state (isr_wait n (card_bus b) flag) s = (False, s)"
proof -
  have "run_state (ne2000_read (card_bus b) 7) s = (c_isr (hw s), s)" using assms by (simp add: run_card_read card_in_def poll_isr_def)
  then show ?thesis using assms(4) by (induction n) simp_all
qed

lemma card_init:
  assumes s: "io_base s = b" "b \<noteq> 0" and idle: "idle (hw s)"
  obtains a where "run_state (init_registers (card_bus b)) s =
    ((), s\<lparr>hw := (hw s)\<lparr>c_cr := 0x22, c_bnry := 0x40, c_curr := 0x41, c_isr := 0, c_count := 8, c_addr := a\<rparr>,
           nic_mac := [0x52, 0x54, 0x00, 0x12, 0x34, 0x56]\<rparr>)"
proof -
  let ?c = "hw s"
  define c1 where "c1 = ?c\<lparr>c_cr := 0x0A, c_bnry := 0x40, c_isr := 0, c_count := 32, c_addr := 0\<rparr>"
  have "(- 256 :: u8) = 0" by transfer simp
  then have z: "c_isr ?c AND - 256 = 0" by (metis bit.conj_zero_right)
  have su: "card_out 0 0x0A (card_out 9 0 (card_out 8 0 (card_out 11 0 (card_out 10 0x20 (card_out 0 0x21 (card_out 15 0x0F (card_out 7 0xFF
      (card_out 3 0x40 (card_out 2 0x80 (card_out 1 0x40 (card_out 13 2 (card_out 12 0x20 (card_out 11 0 (card_out 10 0 (card_out 14 0x49 (card_out 0 0x21 ?c)))))))))))))))) = c1"
    by (simp add: card_out_def c1_def z)
  obtain a where a: "(dma_step ^^ 12) c1 = c1\<lparr>c_addr := a, c_count := 8\<rparr>"
    using dma_steps [of 12 c1] by (auto simp: c1_def)
  obtain vs where m: "run_state (read_mac 6 (card_bus b)) (s\<lparr>hw := c1\<rparr>) = (vs, s\<lparr>hw := c1\<lparr>c_addr := a, c_count := 8\<rparr>\<rparr>)"
    using run_read_mac [of "s\<lparr>hw := c1\<rparr>" b 6] s(1) a by auto
  define s2 where "s2 = s\<lparr>hw := c1\<lparr>c_addr := a, c_count := 8\<rparr>\<rparr>"
  have w: "run_state (isr_wait 10000 (card_bus b) ISR_RDC) s2 = (False, s2)"
    using s idle by (intro card_no_flag) (simp_all add: s2_def c1_def idle_def)
  define c3 where "c3 = c1\<lparr>c_addr := a, c_count := 8, c_cr := 0x61\<rparr>"
  have e: "card_out 0 0x61 (card_out 7 ISR_RDC (hw s2)) = c3" by (simp add: card_out_def s2_def c1_def c3_def)
  have page1: "card_out r v c3 = c3" if "r \<noteq> 0" "r \<noteq> 7" for r v using that by (simp add: card_out_def c3_def)
  have f: "card_out 13 0 (card_out 12 4 (card_out 0 0x22 (card_out 7 0x41 c3))) = ?c\<lparr>c_cr := 0x22, c_bnry := 0x40, c_curr := 0x41, c_isr := 0, c_count := 8, c_addr := a\<rparr>"
    by (simp add: card_out_def c3_def c1_def)
  have ff: "replicate 8 (0xFF :: u8) = [0xFF, 0xFF, 0xFF, 0xFF, 0xFF, 0xFF, 0xFF, 0xFF]" by (simp add: numeral_eq_Suc)
  have b2: "io_base s2 = b" using s by (simp add: s2_def)
  have "run_state (init_registers (card_bus b)) s = ((), s2\<lparr>nic_mac := [0x52, 0x54, 0x00, 0x12, 0x34, 0x56],
      hw := ?c\<lparr>c_cr := 0x22, c_bnry := 0x40, c_curr := 0x41, c_isr := 0, c_count := 8, c_addr := a\<rparr>\<rparr>)"
    unfolding init_registers_def ff using s b2 by (simp add: run_card_write su m s2_def [symmetric] w e page1 f)
  then show thesis using that [of a] by (simp add: s2_def)
qed


subsection \<open>Interrupts\<close>

definition rx_queue :: "card \<Rightarrow> u8 list list \<Rightarrow> bool" where
  "rx_queue c fs \<longleftrightarrow> ring_at c (page_after (c_bnry c)) fs"

lemma ring_at_mem:
  assumes "\<forall>j \<ge> 0x4000. c_mem c' j = c_mem c j" "c_curr c' = c_curr c"
  shows "ring_at c' p fs = ring_at c p fs"
proof (induction fs arbitrary: p)
  case (Cons f fs)
  have "ring_bytes (c_mem c') (unat p * 256) n = ring_bytes (c_mem c) (unat p * 256) n" if "in_ring p" for n
  proof -
    have "64 \<le> unat p" using that by (simp add: in_ring_def word_le_nat_alt)
    then have "0x4000 \<le> ring_addr (unat p * 256) i" for i by (simp add: ring_addr_def not_less le_diff_conv2)
    then show ?thesis using assms(1) by (simp add: ring_bytes_def)
  qed
  then show ?case by (cases "in_ring p") (simp_all add: Cons assms(2))
qed (use assms in simp)

lemma arp_reply_length: "length mac = 6 \<Longrightarrow> length (arp_reply mac f) \<le> 1500" by (simp add: arp_reply_def)

definition arp_replies :: "u8 list \<Rightarrow> u8 list list \<Rightarrow> u8 list list" where
  "arp_replies mac fs = map (\<lambda>f. padded (arp_reply mac f)) (filter (\<lambda>f. arp_for_us (int (length f)) f) fs)"

lemma read_isr:
  "io_base s = b \<Longrightarrow> b \<noteq> 0 \<Longrightarrow> idle (hw s) \<Longrightarrow> c_cr (hw s) AND 0x40 = 0 \<Longrightarrow> run_state (ne2000_read (card_bus b) 7) s = (c_isr (hw s), s)"
  by (simp add: run_card_read card_in_def poll_isr_def idle_def)

text \<open>One frame of the queue is taken and answered if it asks for the address.\<close>

lemma card_answer:
  assumes s: "io_base s = b" "b \<noteq> 0" "length (nic_mac s) = 6" "idle (hw s)" "c_cr (hw s) AND 0x40 = 0"
  shows "\<exists>c. run_state (if arp_for_us (int (length f)) f then ne2000_send_arp_reply (card_bus b) f else ret ()) s = ((), s\<lparr>hw := c\<rparr>)
    \<and> idle c \<and> (\<forall>fs. rx_queue (hw s) fs \<longrightarrow> rx_queue c fs) \<and> c_sent c = c_sent (hw s) @ arp_replies (nic_mac s) [f] \<and> c_isr c = c_isr (hw s) \<and> c_cr c AND 0x40 = 0"
proof (cases "arp_for_us (int (length f)) f")
  case True
  from card_send [OF s(1,2) arp_reply_length [OF s(3)] s(4), of f] obtain c where
    c: "run_state (ne2000_send_packet (card_bus b) (arp_reply (nic_mac s) f)) s = ((), s\<lparr>hw := c\<rparr>)" "c_sent c = c_sent (hw s) @ [padded (arp_reply (nic_mac s) f)]"
      "idle c" "c_curr c = c_curr (hw s)" "c_bnry c = c_bnry (hw s)" "\<forall>j \<ge> 0x4000. c_mem c j = c_mem (hw s) j" "c_isr c = c_isr (hw s)" "c_cr c AND 0x40 = 0"
    by blast
  then show ?thesis using True ring_at_mem [OF c(6) c(4)]
    by (intro exI [of _ c]) (simp add: ne2000_send_arp_reply_def arp_replies_def rx_queue_def)
next
  case False
  then show ?thesis using s by (intro exI [of _ "hw s"]) (simp add: arp_replies_def)
qed

lemma card_irq_packets:
  assumes "io_base s = b" "b \<noteq> 0" "length (nic_mac s) = 6" "idle (hw s)" "c_cr (hw s) AND 0x40 = 0" "c_isr (hw s) AND 1 \<noteq> 0" "st AND 1 \<noteq> 0"
    and "rx_queue (hw s) fs" "\<forall>f \<in> set fs. length f \<le> 1500"
  shows "\<exists>c. run_state (irq_packets n (card_bus b) st) s = ((), s\<lparr>hw := c\<rparr>) \<and> idle c \<and> rx_queue c (drop n fs)
    \<and> c_sent c = c_sent (hw s) @ arp_replies (nic_mac s) (take n fs) \<and> c_cr c AND 0x40 = 0"
  using assms
proof (induction n arbitrary: s st fs)
  case 0
  then show ?case by (intro exI [of _ "hw s"]) (simp add: arp_replies_def)
next
  case (Suc n)
  note s = Suc.prems
  show ?case
  proof (cases fs)
    case Nil
    then have "ring_at (hw s) (page_after (c_bnry (hw s))) []" using s(8) by (simp add: rx_queue_def)
    then have "run_state (irq_packets (Suc n) (card_bus b) st) s = ((), s\<lparr>hw := (hw s)\<lparr>c_cr := 0x22\<rparr>\<rparr>)"
      using s(7) by (simp add: card_receive_empty [OF s(1,2)])
    then show ?thesis using s(4,8) Nil by (intro exI [of _ "(hw s)\<lparr>c_cr := 0x22\<rparr>"]) (simp add: idle_def rx_queue_def arp_replies_def)
  next
    case (Cons f fs')
    have ring: "ring_at (hw s) (page_after (c_bnry (hw s))) (f # fs')" using s(8) Cons by (simp add: rx_queue_def)
    have len: "length f \<le> unat (1500 :: u16)" "0 < int (length f)" using s(9) Cons ring by auto
    from card_receive [OF s(1,2,4) ring len(1)] obtain c1 where
      c1: "run_state (ne2000_receive_packet (card_bus b) 1500) s = ((int (length f), f), s\<lparr>hw := c1\<rparr>)" "idle c1" "rx_queue c1 fs'"
        "c_sent c1 = c_sent (hw s)" "c_isr c1 = c_isr (hw s)" "c_cr c1 AND 0x40 = 0"
      unfolding rx_queue_def by blast
    have "io_base (s\<lparr>hw := c1\<rparr>) = b" "length (nic_mac (s\<lparr>hw := c1\<rparr>)) = 6" "idle (hw (s\<lparr>hw := c1\<rparr>))" "c_cr (hw (s\<lparr>hw := c1\<rparr>)) AND 0x40 = 0" using s(1,3) c1 by simp_all
    from card_answer [OF this(1) s(2) this(2-4), of f] obtain c2 where
      c2: "run_state (if arp_for_us (int (length f)) f then ne2000_send_arp_reply (card_bus b) f else ret ()) (s\<lparr>hw := c1\<rparr>) = ((), s\<lparr>hw := c2\<rparr>)"
        "idle c2" "rx_queue c2 fs'" "c_sent c2 = c_sent (hw s) @ arp_replies (nic_mac s) [f]" "c_isr c2 = c_isr (hw s)" "c_cr c2 AND 0x40 = 0"
      using c1 by auto
    let ?s = "s\<lparr>hw := c2\<rparr>"
    have s2: "io_base ?s = b" "length (nic_mac ?s) = 6" "idle (hw ?s)" "c_cr (hw ?s) AND 0x40 = 0" "c_isr (hw ?s) AND 1 \<noteq> 0" "rx_queue (hw ?s) fs'" "\<forall>f \<in> set fs'. length f \<le> 1500"
      using s c2 Cons by simp_all
    from Suc.IH [OF s2(1) s(2) s2(2-5) s2(5) s2(6,7)] obtain c where
      c: "run_state (irq_packets n (card_bus b) (c_isr c2)) ?s = ((), s\<lparr>hw := c\<rparr>)" "idle c" "rx_queue c (drop n fs')" "c_cr c AND 0x40 = 0"
        "c_sent c = c_sent c2 @ arp_replies (nic_mac s) (take n fs')" by auto
    have i: "run_state (ne2000_read (card_bus b) 7) ?s = (c_isr c2, ?s)" using read_isr [OF s2(1) s(2) s2(3,4)] by simp
    have "run_state (irq_packets (Suc n) (card_bus b) st) s = ((), s\<lparr>hw := c\<rparr>)"
      using s(7) len(2) c2(1) by (cases "arp_for_us (int (length f)) f") (simp_all add: c1(1) i c(1))
    then show ?thesis using c Cons c2(4) by (intro exI [of _ c]) (simp add: arp_replies_def)
  qed
qed


lemma card_overrun:
  assumes "io_base s = b" "b \<noteq> 0" "idle (hw s)"
  shows "\<exists>c. run_state (overrun_reset (card_bus b)) s = ((), s\<lparr>hw := c\<rparr>) \<and> idle c \<and> rx_queue c [] \<and> c_sent c = c_sent (hw s)
    \<and> c_cr c AND 0x40 = 0 \<and> c_isr c AND 1 = c_isr (hw s) AND 1"
proof -
  let ?c = "(hw s)\<lparr>c_cr := 0x22, c_count := 0, c_bnry := 0x40, c_curr := 0x41, c_isr := c_isr (hw s) AND NOT 0x10\<rparr>"
  have "run_state (overrun_reset (card_bus b)) s = ((), s\<lparr>hw := ?c\<rparr>)"
    using assms by (simp add: overrun_reset_def run_card_write card_out_def)
  moreover have "idle ?c" using assms(3) by (simp add: idle_def and.assoc and.left_commute)
  moreover have "c_isr ?c AND 1 = c_isr (hw s) AND 1" by (simp add: and.assoc)
  ultimately show ?thesis by (intro exI [of _ ?c]) (simp add: rx_queue_def page_after_def)
qed

lemma card_irq:
  assumes s: "io_base s = b" "b \<noteq> 0" "length (nic_mac s) = 6" "idle (hw s)" "c_cr (hw s) AND 0x40 = 0" "c_isr (hw s) AND 1 \<noteq> 0"
    and q: "rx_queue (hw s) fs" "\<forall>f \<in> set fs. length f \<le> 1500"
    and fs': "fs' = (if c_isr (hw s) AND 0x10 = 0 then fs else [])"
  shows "\<exists>c. run_state (ne2000_irq_handler (card_bus b)) s = ((), s\<lparr>hw := c\<rparr>) \<and> idle c \<and> c_isr c = 0 \<and> rx_queue c (drop 5 fs')
    \<and> c_sent c = c_sent (hw s) @ arp_replies (nic_mac s) (take 5 fs')"
proof -
  let ?st = "c_isr (hw s)"
  obtain c1 where c1: "run_state (if ?st AND 0x10 \<noteq> 0 then overrun_reset (card_bus b) else ret ()) s = ((), s\<lparr>hw := c1\<rparr>)" "idle c1" "rx_queue c1 fs'"
      "c_sent c1 = c_sent (hw s)" "c_cr c1 AND 0x40 = 0" "c_isr c1 AND 1 = ?st AND 1"
  proof (cases "?st AND 0x10 = 0")
    case True
    then show thesis using that [of "hw s"] s q fs' by simp
  next
    case False
    then show thesis using that card_overrun [OF s(1,2,4)] fs' by auto
  qed
  let ?s = "s\<lparr>hw := c1\<rparr>"
  have s1: "io_base ?s = b" "length (nic_mac ?s) = 6" "idle (hw ?s)" "c_cr (hw ?s) AND 0x40 = 0" "c_isr (hw ?s) AND 1 \<noteq> 0" "rx_queue (hw ?s) fs'" "\<forall>f \<in> set fs'. length f \<le> 1500"
    using s c1 q(2) fs' by simp_all
  from card_irq_packets [OF s1(1) s(2) s1(2-5) s(6) s1(6,7), of 5] obtain c2 where
    c2: "run_state (irq_packets 5 (card_bus b) ?st) ?s = ((), s\<lparr>hw := c2\<rparr>)" "idle c2" "rx_queue c2 (drop 5 fs')"
      "c_sent c2 = c_sent (hw s) @ arp_replies (nic_mac s) (take 5 fs')" "c_cr c2 AND 0x40 = 0" using c1(4) by auto
  have "(- 256 :: u8) = 0" by transfer simp
  then have "c_isr c2 AND - 256 = 0" by (metis bit.conj_zero_right)
  then have e: "card_out 7 0xFF c2 = c2\<lparr>c_isr := 0\<rparr>" using c2(5) by (simp add: card_out_def)
  have "?st \<noteq> 0" using s(6) by auto
  have "run_state (irq_packets 5 (card_bus b) ?st) s = ((), s\<lparr>hw := c2\<rparr>)" if "?st AND 0x10 = 0"
    using c2(1) c1(1) that by simp
  then have "run_state (ne2000_irq_handler (card_bus b)) s = ((), s\<lparr>hw := c2\<lparr>c_isr := 0\<rparr>\<rparr>)"
    using s(1,2) c1(1) c2(1) \<open>?st \<noteq> 0\<close> by (cases "?st AND 0x10 = 0") (simp_all add: ne2000_irq_handler_def read_isr [OF s(1,2,4,5)] run_card_write e)
  moreover have "rx_queue (c2\<lparr>c_isr := 0\<rparr>) (drop 5 fs')"
    using c2(3) by (simp add: rx_queue_def ring_at_cong [of "c2\<lparr>c_isr := 0\<rparr>" c2])
  ultimately show ?thesis using c2(2,4) by (intro exI [of _ "c2\<lparr>c_isr := 0\<rparr>"]) (simp add: idle_def)
qed

context dp8390
begin

lemma sim_send_arp_reply [sim_intros]: "sim (ne2000_send_arp_reply bus f) (ne2000_send_arp_reply (card_bus base) f)"
  unfolding ne2000_send_arp_reply_def by (intro sim_intros sim_send)

lemma sim_irq_packets [sim_intros]: "sim (irq_packets n bus st) (irq_packets n (card_bus base) st)"
  by (induction n arbitrary: st) (auto intro!: sim_intros sim_receive simp: split_beta)

lemma sim_irq_handler: "sim (ne2000_irq_handler bus) (ne2000_irq_handler (card_bus base))"
  unfolding ne2000_irq_handler_def overrun_reset_def by (intro sim_intros | simp)+

text \<open>What holds of a program on the card alone holds on the machine.\<close>

lemma sim_result:
  assumes "sim m m'" "io_base s = base"
    and "\<And>s'. io_base s' = base \<Longrightarrow> nic_mac s' = nic_mac s \<Longrightarrow> hw s' = view (hw s) \<Longrightarrow> \<exists>c. run_state m' s' = (x, s'\<lparr>hw := c\<rparr>) \<and> P c"
  shows "\<exists>d. run_state m s = (x, s\<lparr>hw := d\<rparr>) \<and> P (view d)"
proof -
  let ?s = "undefined\<lparr>hw := view (hw s), io_base := base, nic_mac := nic_mac s\<rparr> :: card nic"
  obtain c where c: "run_state m' ?s = (x, ?s\<lparr>hw := c\<rparr>)" "P c" using assms(3) [of ?s] by auto
  have "io_base s = base \<and> io_base ?s = base \<and> nic_mac ?s = nic_mac s \<and> hw ?s = view (hw s)" using assms(2) by simp
  then obtain y d where d: "run_state m s = (y, s\<lparr>hw := d\<rparr>)" "run_state m' ?s = (y, ?s\<lparr>hw := view d\<rparr>)" using assms(1) unfolding sim_def by blast
  have "hw (?s\<lparr>hw := c\<rparr>) = hw (?s\<lparr>hw := view d\<rparr>)" "x = y" using c(1) d(2) by (metis prod.inject)+
  then show ?thesis using c(2) d(1) by auto
qed

end

subsection \<open>The driver over every machine with the card\<close>

definition sample_request :: "u8 list" where
  "sample_request = replicate 6 0xFF @ [0x52, 0x55, 0x0A, 0x00, 0x02, 0x02] @ [0x08, 0x06]
     @ [0x00, 0x01, 0x08, 0x00, 0x06, 0x04, 0x00, 0x01] @ [0x52, 0x55, 0x0A, 0x00, 0x02, 0x02] @ [10, 0, 2, 2]
     @ replicate 6 0 @ [10, 0, 2, 15] @ replicate 18 0"

definition sample_card :: card where
  "sample_card = \<lparr>c_cr = 0x22, c_mem = (\<lambda>i. if 0x4100 \<le> i \<and> i < 0x4140 then ([1, 0x42, 64, 0] @ sample_request) ! (i - 0x4100) else 0),
     c_curr = 0x42, c_bnry = 0x40, c_addr = 0, c_count = 0, c_tpage = 0, c_tcount = 0, c_isr = 1, c_pending = (0, 0), c_latency = 3, c_sent = []\<rparr>"

definition sample_nic :: "card nic" where
  "sample_nic = \<lparr>hw = sample_card, irq_routines = [], idt_table = [], io_base = 0xC000, nic_mac = [0x52, 0x54, 0, 0x12, 0x34, 0x56],
     ne2000_initialized = True, no_value = 0\<rparr>"

lemma sample_request_length [simp]: "length sample_request = 60" by (simp add: sample_request_def)

lemma sample_queue: "rx_queue sample_card [sample_request]"
proof -
  have "ring_bytes (c_mem sample_card) 0x4100 64 = [1, 0x42, 64, 0] @ sample_request"
    by (rule nth_equalityI) (simp_all add: ring_bytes_def ring_addr_def sample_card_def del: upt_rec_numeral)
  moreover have "unat (ucast (64 :: u8) OR push_bit 8 (ucast (0 :: u8)) :: u16) = length sample_request + 4" by simp
  moreover have "page_after (c_bnry sample_card) = 0x41" "c_curr sample_card = 0x42" by (simp_all add: page_after_def sample_card_def)
  ultimately have "ring_at sample_card (page_after (c_bnry sample_card)) [sample_request]"
    by (simp add: in_ring_def)
  then show ?thesis by (simp add: rx_queue_def)
qed

lemma sample_idle: "idle sample_card" by (simp add: idle_def sample_card_def)

text \<open>
  C32. A frame that is sent is on the wire: over every machine with an idle card, \<^verbatim>\<open>ne2000_send_packet\<close> of a frame of
  at most 1500 bytes ends with exactly that frame, padded with zeros to 60 bytes, added to what the card has
  transmitted; the card is idle again, and the ring of received frames, its pointers and the rest of the
  driver's state are as before.
\<close>

theorem ne2000_send_correct:
  assumes "dp8390 bus base view" "io_base s = base" "length data \<le> 1500" "idle (view (hw s))"
  shows "\<exists>d. run_state (ne2000_send_packet bus data) s = ((), s\<lparr>hw := d\<rparr>) \<and> c_sent (view d) = c_sent (view (hw s)) @ [padded data]
    \<and> idle (view d) \<and> (\<forall>fs. rx_queue (view (hw s)) fs \<longrightarrow> rx_queue (view d) fs)"
proof -
  have "base \<noteq> 0" using dp8390.base [OF assms(1)] .
  then show ?thesis
  proof (intro dp8390.sim_result [OF assms(1) dp8390.sim_send [OF assms(1)] assms(2)])
    fix s' :: "card nic" assume s': "io_base s' = base" "hw s' = view (hw s)"
    have "idle (hw s')" using assms(4) s' by simp
    from card_send [OF s'(1) \<open>base \<noteq> 0\<close> assms(3) this] obtain c where c: "run_state (ne2000_send_packet (card_bus base) data) s' = ((), s'\<lparr>hw := c\<rparr>)"
        "c_sent c = c_sent (hw s') @ [padded data]" "idle c" "c_curr c = c_curr (hw s')" "c_bnry c = c_bnry (hw s')" "\<forall>j \<ge> 0x4000. c_mem c j = c_mem (hw s') j" by blast
    then show "\<exists>c. run_state (ne2000_send_packet (card_bus base) data) s' = ((), s'\<lparr>hw := c\<rparr>)
        \<and> c_sent c = c_sent (view (hw s)) @ [padded data] \<and> idle c \<and> (\<forall>fs. rx_queue (view (hw s)) fs \<longrightarrow> rx_queue c fs)"
      using s'(2) ring_at_mem [OF c(6) c(4)] by (auto simp: rx_queue_def)
  qed
qed

theorem ne2000_send_correct_witness:
  "\<exists>d. run_state (ne2000_send_packet (card_bus 0xC000) [1, 2, 3]) sample_nic = ((), sample_nic\<lparr>hw := d\<rparr>) \<and> c_sent d = [[1, 2, 3] @ replicate 57 0]
    \<and> rx_queue d [sample_request]"
proof -
  have "padded [1, 2, 3] = [1, 2, 3] @ replicate 57 0" by (simp add: padded_def)
  then show ?thesis
    using ne2000_send_correct [OF ne.dp8390_axioms, of sample_nic "[1, 2, 3]"] sample_idle sample_queue
    by (auto simp: sample_nic_def sample_card_def)
qed

text \<open>
  C31. The ring is a queue: over every machine with an idle card whose ring holds the frames \<open>fs\<close>,
  \<^verbatim>\<open>ne2000_receive_packet\<close> returns 0 when there is none, and else the length and the bytes of the first one,
  across the end of the ring too, and leaves the others in the ring in their order; nothing is sent and nothing
  else changes.
\<close>

theorem ne2000_receive_correct:
  assumes "dp8390 bus base view" "io_base s = base" "idle (view (hw s))" "rx_queue (view (hw s)) fs" "\<forall>f \<in> set fs. length f \<le> unat n"
  shows "\<exists>d. run_state (ne2000_receive_packet bus n) s = ((case fs of [] \<Rightarrow> (0, []) | f # _ \<Rightarrow> (int (length f), f)), s\<lparr>hw := d\<rparr>)
    \<and> idle (view d) \<and> rx_queue (view d) (tl fs) \<and> c_sent (view d) = c_sent (view (hw s))"
proof -
  have "base \<noteq> 0" using dp8390.base [OF assms(1)] .
  then show ?thesis
  proof (intro dp8390.sim_result [OF assms(1) dp8390.sim_receive [OF assms(1)] assms(2)])
    fix s' :: "card nic" assume s': "io_base s' = base" "hw s' = view (hw s)"
    have i: "idle (hw s')" using assms(3) s' by simp
    have q: "ring_at (hw s') (page_after (c_bnry (hw s'))) fs" using assms(4) s'(2) by (simp add: rx_queue_def)
    show "\<exists>c. run_state (ne2000_receive_packet (card_bus base) n) s' = ((case fs of [] \<Rightarrow> (0, []) | f # _ \<Rightarrow> (int (length f), f)), s'\<lparr>hw := c\<rparr>)
        \<and> idle c \<and> rx_queue c (tl fs) \<and> c_sent c = c_sent (view (hw s))"
    proof (cases fs)
      case Nil
      then show ?thesis using card_receive_empty [OF s'(1) \<open>base \<noteq> 0\<close>] q i s'(2)
        by (intro exI [of _ "(hw s')\<lparr>c_cr := 0x22\<rparr>"]) (simp add: rx_queue_def idle_def)
    next
      case (Cons f fs')
      then show ?thesis using card_receive [OF s'(1) \<open>base \<noteq> 0\<close> i q [unfolded Cons]] assms(5) s'(2) by (auto simp: rx_queue_def)
    qed
  qed
qed

theorem ne2000_receive_correct_witness:
  "\<exists>d. run_state (ne2000_receive_packet (card_bus 0xC000) 1500) sample_nic = ((60, sample_request), sample_nic\<lparr>hw := d\<rparr>) \<and> rx_queue d []"
  using ne2000_receive_correct [OF ne.dp8390_axioms, of sample_nic "[sample_request]" 1500] sample_idle sample_queue
  by (auto simp: sample_nic_def sample_request_def)

text \<open>
  C33. An interrupt serves the queue: over every machine with an idle card that signals a received frame,
  \<^verbatim>\<open>ne2000_irq_handler\<close> takes up to five frames from the ring, sends for each ARP request for 10.0.2.15 among
  them, in their order, the reply that \<^verbatim>\<open>ne2000_send_arp_reply\<close> builds, and clears the flags; when the card signals
  that the ring has overrun, the frames in it are dropped and none is answered.
\<close>

theorem ne2000_irq_correct:
  assumes "dp8390 bus base view" "io_base s = base" "length (nic_mac s) = 6"
    and "idle (view (hw s))" "c_cr (view (hw s)) AND 0x40 = 0" "c_isr (view (hw s)) AND 1 \<noteq> 0"
    and "rx_queue (view (hw s)) fs" "\<forall>f \<in> set fs. length f \<le> 1500" "fs' = (if c_isr (view (hw s)) AND 0x10 = 0 then fs else [])"
  shows "\<exists>d. run_state (ne2000_irq_handler bus) s = ((), s\<lparr>hw := d\<rparr>) \<and> idle (view d) \<and> c_isr (view d) = 0
    \<and> rx_queue (view d) (drop 5 fs') \<and> c_sent (view d) = c_sent (view (hw s)) @ arp_replies (nic_mac s) (take 5 fs')"
proof -
  have "base \<noteq> 0" using dp8390.base [OF assms(1)] .
  then show ?thesis
  proof (intro dp8390.sim_result [OF assms(1) dp8390.sim_irq_handler [OF assms(1)] assms(2)])
    fix s' :: "card nic" assume s': "io_base s' = base" "nic_mac s' = nic_mac s" "hw s' = view (hw s)"
    show "\<exists>c. run_state (ne2000_irq_handler (card_bus base)) s' = ((), s'\<lparr>hw := c\<rparr>) \<and> idle c \<and> c_isr c = 0
        \<and> rx_queue c (drop 5 fs') \<and> c_sent c = c_sent (view (hw s)) @ arp_replies (nic_mac s) (take 5 fs')"
      using card_irq [of s' base fs fs'] \<open>base \<noteq> 0\<close> assms s' by simp
  qed
qed

theorem ne2000_irq_correct_witness:
  "\<exists>d. run_state (ne2000_irq_handler (card_bus 0xC000)) sample_nic = ((), sample_nic\<lparr>hw := d\<rparr>) \<and> rx_queue d []
    \<and> c_sent d = [arp_reply (nic_mac sample_nic) sample_request]"
proof -
  have "arp_replies (nic_mac sample_nic) [sample_request] = [arp_reply (nic_mac sample_nic) sample_request]"
    by (simp add: arp_replies_def padded_def arp_reply_def sample_request_def sample_nic_def arp_for_us_def numeral_eq_Suc)
  then show ?thesis
    using ne2000_irq_correct [OF ne.dp8390_axioms, of sample_nic "[sample_request]"] sample_idle sample_queue
    by (auto simp: sample_nic_def sample_card_def sample_request_def)
qed

text \<open>
  Initialisation leaves an idle card with an empty queue, whatever the ring held before. The address that
  the card's PROM holds is never used: 32 bytes are asked for and 12 words read, so the transfer does not end, the
  wait for its end times out, and the driver's address is the built-in 52:54:00:12:34:56.
\<close>

theorem ne2000_init_correct:
  assumes "io_base s = b" "b \<noteq> 0" "idle (hw s)"
  shows "\<exists>c. run_state (init_registers (card_bus b)) s = ((), s\<lparr>hw := c, nic_mac := [0x52, 0x54, 0x00, 0x12, 0x34, 0x56]\<rparr>)
    \<and> idle c \<and> rx_queue c [] \<and> c_mem c = c_mem (hw s) \<and> c_sent c = c_sent (hw s)"
proof -
  obtain a where "run_state (init_registers (card_bus b)) s =
    ((), s\<lparr>hw := (hw s)\<lparr>c_cr := 0x22, c_bnry := 0x40, c_curr := 0x41, c_isr := 0, c_count := 8, c_addr := a\<rparr>,
           nic_mac := [0x52, 0x54, 0x00, 0x12, 0x34, 0x56]\<rparr>)" using card_init [OF assms] .
  then show ?thesis using assms(3)
    by (intro exI [of _ "(hw s)\<lparr>c_cr := 0x22, c_bnry := 0x40, c_curr := 0x41, c_isr := 0, c_count := 8, c_addr := a\<rparr>"])
      (simp add: idle_def rx_queue_def page_after_def)
qed

theorem ne2000_init_correct_witness:
  "\<exists>c. run_state (init_registers (card_bus 0xC000)) sample_nic = ((), sample_nic\<lparr>hw := c, nic_mac := [0x52, 0x54, 0x00, 0x12, 0x34, 0x56]\<rparr>) \<and> rx_queue c []"
  using ne2000_init_correct [of sample_nic "0xC000"] sample_idle by (auto simp: sample_nic_def)

end
