(* ===== verification/Console.thy ===== *)
theory Console
  imports Ports
begin

text \<open>
  The serial port (\<^verbatim>\<open>drivers/char/serial.c\<close>) and the text console (\<^verbatim>\<open>drivers/video/video.c\<close>, and
  \<^verbatim>\<open>drivers/video/display.c\<close> built for text mode). The text memory is a function from cells to words, so a
  write behind the screen is seen; the cursor is kept by the display controller and read back from it.
  Over a controller and a serial port that behave as documented, writing a text is refined to a
  terminal of 25 rows of 80 cells.
\<close>

subsection \<open>The serial port\<close>

abbreviation SERIAL_COM1 :: u16 where "SERIAL_COM1 \<equiv> 0x3F8"

definition serial_init :: "'d bus \<Rightarrow> u16 \<Rightarrow> ('d, 'z, unit) io" where
  "serial_init bus port = do {
     outb bus (port + 1) 0x00;
     outb bus (port + 3) 0x80;
     outb bus port 0x01;
     outb bus (port + 1) 0x00;
     outb bus (port + 3) 0x03;
     outb bus (port + 2) 0xC7;
     outb bus (port + 4) 0x0B }"

definition serial_init_default :: "'d bus \<Rightarrow> ('d, 'z, unit) io" where
  "serial_init_default bus = serial_init bus SERIAL_COM1"

definition serial_received :: "'d bus \<Rightarrow> u16 \<Rightarrow> ('d, 'z, bool) io" where
  "serial_received bus port = do { v \<leftarrow> inb bus (port + 5); ret (v AND 0x01 \<noteq> 0) }"

definition serial_is_transmit_empty :: "'d bus \<Rightarrow> u16 \<Rightarrow> ('d, 'z, bool) io" where
  "serial_is_transmit_empty bus port = do { v \<leftarrow> inb bus (port + 5); ret (v AND 0x20 \<noteq> 0) }"

text \<open>The waiting loop; \<open>None\<close> is a transmitter that never gets empty.\<close>

partial_function (option) serial_wait :: "'d bus \<Rightarrow> u16 \<Rightarrow> ('d, 'z) machine_scheme \<Rightarrow> ('d, 'z) machine_scheme option" where
  "serial_wait bus port s = (case run_state (serial_is_transmit_empty bus port) s of (b, s') \<Rightarrow> if b then Some s' else serial_wait bus port s')"

definition serial_write_char :: "'d bus \<Rightarrow> u16 \<Rightarrow> u8 \<Rightarrow> ('d, 'z) machine_scheme \<Rightarrow> ('d, 'z) machine_scheme option" where
  "serial_write_char bus port ch s = map_option (\<lambda>s. snd (run_state (outb bus port ch) s)) (serial_wait bus port s)"

primrec serial_write_string :: "'d bus \<Rightarrow> u16 \<Rightarrow> cstring \<Rightarrow> ('d, 'z) machine_scheme \<Rightarrow> ('d, 'z) machine_scheme option" where
  "serial_write_string bus port [] s = Some s"
| "serial_write_string bus port (c # cs) s = Option.bind (serial_write_char bus port c s) (serial_write_string bus port cs)"

definition serial_read_char :: "'d bus \<Rightarrow> u16 \<Rightarrow> ('d, 'z, u8) io" where
  "serial_read_char bus port = do { b \<leftarrow> serial_received bus port; if b then inb bus port else ret 0 }"

subsection \<open>The screen\<close>

abbreviation VGA_COLS :: nat where "VGA_COLS \<equiv> 80"
abbreviation VGA_ROWS :: nat where "VGA_ROWS \<equiv> 25"
abbreviation VGA_CTRL_REGISTER :: u16 where "VGA_CTRL_REGISTER \<equiv> 0x3D4"
abbreviation VGA_DATA_REGISTER :: u16 where "VGA_DATA_REGISTER \<equiv> 0x3D5"

type_synonym text_memory = "nat \<Rightarrow> u16"

record 'd console = "'d machine" +
  vga_buffer :: text_memory
  current_color :: u8
  ansi_state :: nat
  ansi_params :: "u8 list"
  ansi_param_idx :: nat
  saved_cursor :: "nat \<times> nat"

text \<open>A \<^verbatim>\<open>char\<close> is signed: its sign reaches the attribute.\<close>

definition cell :: "u8 \<Rightarrow> u8 \<Rightarrow> u16" where
  "cell ch color = scast ch OR push_bit 8 (scast color)"

definition blank :: "u8 \<Rightarrow> u16" where
  "blank color = 0x20 OR push_bit 8 (scast color)"

definition set_color :: "u8 \<Rightarrow> ('d console, unit) state" where
  "set_color color = modify (\<lambda>s. s\<lparr>current_color := color\<rparr>)"

definition ansi_to_vga_color :: "int \<Rightarrow> u8 \<Rightarrow> u8" where
  "ansi_to_vga_color code color =
     (if code = 30 then 0x00 else if code = 31 then 0x04 else if code = 32 then 0x02 else if code = 33 then 0x06
      else if code = 34 then 0x01 else if code = 35 then 0x05 else if code = 36 then 0x03 else if code = 37 then 0x07
      else if code = 90 then 0x08 else if code = 91 then 0x0C else if code = 92 then 0x0A else if code = 93 then 0x0E
      else if code = 94 then 0x09 else if code = 95 then 0x0D else if code = 96 then 0x0B else if code = 97 then 0x0F
      else color AND 0x0F)"

definition get_cursor_position :: "'d bus \<Rightarrow> ('d, 'z, nat \<times> nat) io" where
  "get_cursor_position bus = do {
     outb bus VGA_CTRL_REGISTER 0x0E;
     hi \<leftarrow> inb bus VGA_DATA_REGISTER;
     outb bus VGA_CTRL_REGISTER 0x0F;
     lo \<leftarrow> inb bus VGA_DATA_REGISTER;
     let position = (push_bit 8 (ucast hi) + ucast lo :: u16);
     ret (unat position mod 80, unat position div 80) }"

text \<open>The coordinates that are passed are never negative.\<close>

definition set_cursor_position :: "'d bus \<Rightarrow> nat \<Rightarrow> nat \<Rightarrow> ('d, 'z, unit) io" where
  "set_cursor_position bus x y = do {
     let position = (of_nat (y * 80 + x) :: u16);
     outb bus VGA_CTRL_REGISTER 0x0F;
     outb bus VGA_DATA_REGISTER (ucast (position AND 0xFF));
     outb bus VGA_CTRL_REGISTER 0x0E;
     outb bus VGA_DATA_REGISTER (ucast (drop_bit 8 position AND 0xFF)) }"

text \<open>The loops over the cells of a row and over rows.\<close>

definition fill_cells :: "nat \<Rightarrow> nat list \<Rightarrow> u16 \<Rightarrow> text_memory \<Rightarrow> text_memory" where
  "fill_cells y xs v b = fold (\<lambda>x b. b(y * VGA_COLS + x := v)) xs b"

definition scroll_up :: "text_memory \<Rightarrow> text_memory" where
  "scroll_up b = fold (\<lambda>y. fold (\<lambda>x b. b(y * VGA_COLS + x := b ((y + 1) * VGA_COLS + x))) [0..<VGA_COLS]) [0..<VGA_ROWS - 1] b"

definition clear_screen :: "'d bus \<Rightarrow> ('d console, unit) state" where
  "clear_screen bus = do {
     modify (\<lambda>s. s\<lparr>vga_buffer := fold (\<lambda>y. fill_cells y [0..<VGA_COLS] (blank 0x0F)) [0..<VGA_ROWS] (vga_buffer s)\<rparr>);
     set_cursor_position bus 0 0 }"

text \<open>
  The escape sequences: the result says whether the character was taken by a sequence. The number of a
  colour is an \<^verbatim>\<open>int\<close> that wraps when the sequence has too many digits.
\<close>

definition ansi_code :: "u8 list \<Rightarrow> nat \<Rightarrow> int" where
  "ansi_code params n = fold (\<lambda>i code. s32 (code * 10 + (char_int (params ! i) - 48))) [0..<n] 0"

definition ansi_color :: "int \<Rightarrow> u8 \<Rightarrow> u8" where
  "ansi_color code color =
     (if code = 0 then 0x0F
      else if 30 \<le> code \<and> code \<le> 37 then (color AND 0xF0) OR ansi_to_vga_color code color
      else if 90 \<le> code \<and> code \<le> 97 then (color AND 0xF0) OR ansi_to_vga_color code color
      else color)"

definition ansi_sequence :: "u8 \<Rightarrow> ('d console, bool) state" where
  "ansi_sequence ch = do {
     s \<leftarrow> asks (\<lambda>s. s);
     if ansi_state s = 0 \<and> ch = 0x1B then do { modify (\<lambda>s. s\<lparr>ansi_state := 1\<rparr>); ret True }
     else if ansi_state s = 1 then
       (if ch = 0x5B then do { modify (\<lambda>s. s\<lparr>ansi_state := 2, ansi_param_idx := 0, ansi_params := (ansi_params s)[0 := 0]\<rparr>); ret True }
        else do { modify (\<lambda>s. s\<lparr>ansi_state := 0\<rparr>); ret False })
     else if ansi_state s = 2 then
       (if 0x30 \<le> char_int ch \<and> char_int ch \<le> 0x39 then do {
          modify (\<lambda>s. if ansi_param_idx s < 15
            then s\<lparr>ansi_params := (ansi_params s)[ansi_param_idx s := ch, ansi_param_idx s + 1 := 0], ansi_param_idx := ansi_param_idx s + 1\<rparr> else s);
          ret True }
        else if ch = 0x3B then ret True
        else if ch = 0x6D then do {
          modify (\<lambda>s. s\<lparr>ansi_state := 0, current_color := ansi_color (ansi_code (ansi_params s) (ansi_param_idx s)) (current_color s)\<rparr>);
          ret True }
        else do { modify (\<lambda>s. s\<lparr>ansi_state := 0\<rparr>); ret True })
     else ret False }"

definition next_position :: "u8 \<Rightarrow> nat \<Rightarrow> nat \<Rightarrow> nat \<times> nat" where
  "next_position ch x y =
     (if ch = 0x0A then (0, y + 1) else if ch = 0x0D then (0, y)
      else if x + 1 \<ge> VGA_COLS then (0, y + 1) else (x + 1, y))"

definition vga_show :: "'d bus \<Rightarrow> u8 \<Rightarrow> ('d console, unit) state" where
  "vga_show bus ch = do {
     (x, y) \<leftarrow> get_cursor_position bus;
     modify (\<lambda>s. s\<lparr>vga_buffer := if ch = 0x0A \<or> ch = 0x0D then vga_buffer s
       else (vga_buffer s)(y * VGA_COLS + x := cell ch (current_color s))\<rparr>);
     let (x, y) = next_position ch x y;
     modify (\<lambda>s. s\<lparr>vga_buffer := if y \<ge> VGA_ROWS
       then fill_cells (VGA_ROWS - 1) [0..<VGA_COLS] (blank (current_color s)) (scroll_up (vga_buffer s)) else vga_buffer s\<rparr>);
     set_cursor_position bus x (if y \<ge> VGA_ROWS then VGA_ROWS - 1 else y) }"

definition vga_put :: "'d bus \<Rightarrow> u8 \<Rightarrow> ('d console, unit) state" where
  "vga_put bus ch = do { taken \<leftarrow> ansi_sequence ch; if taken then ret () else vga_show bus ch }"

definition vga_write_char :: "'d bus \<Rightarrow> u8 \<Rightarrow> 'd console \<Rightarrow> 'd console option" where
  "vga_write_char bus ch s = map_option (\<lambda>s. snd (run_state (vga_put bus ch) s)) (serial_write_char bus SERIAL_COM1 ch s)"

definition vga_backspace :: "'d bus \<Rightarrow> ('d console, unit) state" where
  "vga_backspace bus = do {
     (x, y) \<leftarrow> get_cursor_position bus;
     let (x, y) = (if x = 0 \<and> y > 0 then (VGA_COLS - 1, y - 1) else if x > 0 then (x - 1, y) else (x, y));
     set_cursor_position bus x y;
     modify (\<lambda>s. s\<lparr>vga_buffer := (vga_buffer s)(y * VGA_COLS + x := blank (current_color s))\<rparr>) }"

subsection \<open>Editing a line\<close>

definition vga_save_cursor :: "'d bus \<Rightarrow> ('d console, unit) state" where
  "vga_save_cursor bus = do { p \<leftarrow> get_cursor_position bus; modify (\<lambda>s. s\<lparr>saved_cursor := p\<rparr>) }"

definition vga_restore_cursor :: "'d bus \<Rightarrow> ('d console, unit) state" where
  "vga_restore_cursor bus = do { (x, y) \<leftarrow> asks saved_cursor; set_cursor_position bus x y }"

definition vga_clear_line :: "'d bus \<Rightarrow> ('d console, unit) state" where
  "vga_clear_line bus = do {
     (x, y) \<leftarrow> get_cursor_position bus;
     modify (\<lambda>s. s\<lparr>vga_buffer := fill_cells y [0..<VGA_COLS] (blank (current_color s)) (vga_buffer s)\<rparr>);
     set_cursor_position bus 0 y }"

definition vga_clear_from_cursor :: "'d bus \<Rightarrow> ('d console, unit) state" where
  "vga_clear_from_cursor bus = do {
     (x, y) \<leftarrow> get_cursor_position bus;
     modify (\<lambda>s. s\<lparr>vga_buffer := fill_cells y [x..<VGA_COLS] (blank (current_color s)) (vga_buffer s)\<rparr>) }"

definition vga_move_cursor_left :: "'d bus \<Rightarrow> ('d console, unit) state" where
  "vga_move_cursor_left bus = do {
     (x, y) \<leftarrow> get_cursor_position bus;
     if x > 0 then set_cursor_position bus (x - 1) y else ret () }"

definition vga_move_cursor_right :: "'d bus \<Rightarrow> ('d console, unit) state" where
  "vga_move_cursor_right bus = do {
     (x, y) \<leftarrow> get_cursor_position bus;
     if x < VGA_COLS - 1 then set_cursor_position bus (x + 1) y else ret () }"

definition shift_right :: "nat \<Rightarrow> nat \<Rightarrow> text_memory \<Rightarrow> text_memory" where
  "shift_right x y b = fold (\<lambda>i b. b(y * VGA_COLS + i := b (y * VGA_COLS + i - 1))) (rev [x + 1..<VGA_COLS]) b"

definition shift_left :: "nat \<Rightarrow> nat \<Rightarrow> text_memory \<Rightarrow> text_memory" where
  "shift_left x y b = fold (\<lambda>i b. b(y * VGA_COLS + i := b (y * VGA_COLS + i + 1))) [x..<VGA_COLS - 1] b"

definition vga_insert_char_at_cursor :: "'d bus \<Rightarrow> u8 \<Rightarrow> ('d console, unit) state" where
  "vga_insert_char_at_cursor bus ch = do {
     (x, y) \<leftarrow> get_cursor_position bus;
     modify (\<lambda>s. s\<lparr>vga_buffer := (shift_right x y (vga_buffer s))(y * VGA_COLS + x := cell ch (current_color s))\<rparr>);
     if x < VGA_COLS - 1 then set_cursor_position bus (x + 1) y else ret () }"

definition vga_delete_char_at_cursor :: "'d bus \<Rightarrow> ('d console, unit) state" where
  "vga_delete_char_at_cursor bus = do {
     (x, y) \<leftarrow> get_cursor_position bus;
     modify (\<lambda>s. s\<lparr>vga_buffer := (shift_left x y (vga_buffer s))(y * VGA_COLS + VGA_COLS - 1 := blank (current_color s))\<rparr>) }"

subsection \<open>The display in text mode\<close>

definition display_init :: "'d bus \<Rightarrow> ('d console, unit) state" where "display_init bus = clear_screen bus"
definition display_clear :: "'d bus \<Rightarrow> ('d console, unit) state" where "display_clear bus = clear_screen bus"
definition display_putchar :: "'d bus \<Rightarrow> u8 \<Rightarrow> 'd console \<Rightarrow> 'd console option" where "display_putchar bus c = vga_write_char bus c"

primrec display_write :: "'d bus \<Rightarrow> cstring \<Rightarrow> 'd console \<Rightarrow> 'd console option" where
  "display_write bus [] s = Some s"
| "display_write bus (c # cs) s = Option.bind (vga_write_char bus c s) (display_write bus cs)"

definition display_get_cursor :: "'d bus \<Rightarrow> ('d, 'z, nat \<times> nat) io" where "display_get_cursor bus = get_cursor_position bus"
definition display_set_cursor :: "'d bus \<Rightarrow> nat \<Rightarrow> nat \<Rightarrow> ('d, 'z, unit) io" where "display_set_cursor bus x y = set_cursor_position bus x y"
definition display_backspace :: "'d bus \<Rightarrow> ('d console, unit) state" where "display_backspace bus = vga_backspace bus"
definition display_set_color :: "u8 \<Rightarrow> ('d console, unit) state" where "display_set_color color = set_color color"

end
