(* ===== verification/Console_Correct.thy ===== *)
theory Console_Correct
  imports Console
begin

text \<open>
  The console refines a terminal of rows. What the display controller and the serial port do with their
  ports is a locale, interpreted by a small machine; the terminal is the specification.
\<close>

subsection \<open>The terminal\<close>

datatype escape = Plain | Esc | Csi "u8 list"

record terminal =
  screen :: "u16 list list"
  cur_x :: nat
  cur_y :: nat
  colour :: u8
  esc :: escape

definition line_feed :: "terminal \<Rightarrow> terminal" where
  "line_feed t = (if cur_y t < 24 then t\<lparr>cur_x := 0, cur_y := cur_y t + 1\<rparr>
     else t\<lparr>cur_x := 0, screen := tl (screen t) @ [replicate 80 (blank (colour t))]\<rparr>)"

definition show_char :: "u8 \<Rightarrow> terminal \<Rightarrow> terminal" where
  "show_char ch t =
     (if ch = 0x0A then line_feed t
      else if ch = 0x0D then t\<lparr>cur_x := 0\<rparr>
      else let t = t\<lparr>screen := (screen t)[cur_y t := (screen t ! cur_y t)[cur_x t := cell ch (colour t)]]\<rparr>
           in if cur_x t < 79 then t\<lparr>cur_x := cur_x t + 1\<rparr> else line_feed t)"

definition digits_code :: "u8 list \<Rightarrow> int" where
  "digits_code ds = fold (\<lambda>d code. s32 (code * 10 + (char_int d - 48))) ds 0"

definition term_char :: "u8 \<Rightarrow> terminal \<Rightarrow> terminal" where
  "term_char ch t = (case esc t of
     Plain \<Rightarrow> if ch = 0x1B then t\<lparr>esc := Esc\<rparr> else show_char ch t
   | Esc \<Rightarrow> if ch = 0x5B then t\<lparr>esc := Csi []\<rparr> else show_char ch (t\<lparr>esc := Plain\<rparr>)
   | Csi ds \<Rightarrow>
       if 0x30 \<le> char_int ch \<and> char_int ch \<le> 0x39 then t\<lparr>esc := Csi (take 15 (ds @ [ch]))\<rparr>
       else if ch = 0x3B then t
       else if ch = 0x6D then t\<lparr>esc := Plain, colour := ansi_color (digits_code ds) (colour t)\<rparr>
       else t\<lparr>esc := Plain\<rparr>)"

subsection \<open>Text memory as rows\<close>

definition rows :: "text_memory \<Rightarrow> u16 list list" where
  "rows b = map (\<lambda>y. map (\<lambda>x. b (y * 80 + x)) [0..<80]) [0..<25]"

lemma cell_index_eq: "x < 80 \<Longrightarrow> x' < 80 \<Longrightarrow> y * 80 + x = y' * 80 + x' \<longleftrightarrow> y = y' \<and> x = (x' :: nat)"
proof -
  assume x: "x < 80" "x' < 80"
  have "y = (y * 80 + x) div 80" "y' = (y' * 80 + x') div 80" using x by auto
  then show ?thesis by (metis add_left_cancel)
qed

lemma length_rows [simp]: "length (rows b) = 25" by (simp add: rows_def del: upt_rec_numeral)

lemma nth_rows: "y < 25 \<Longrightarrow> rows b ! y = map (\<lambda>x. b (y * 80 + x)) [0..<80]"
  by (simp add: rows_def del: upt_rec_numeral)

lemma rows_upd:
  assumes "x < 80" "y < 25"
  shows "rows (b(y * 80 + x := v)) = (rows b)[y := (rows b ! y)[x := v]]"
proof (rule nth_equalityI)
  fix i assume "i < length (rows (b(y * 80 + x := v)))"
  then have i: "i < 25" by simp
  show "rows (b(y * 80 + x := v)) ! i = (rows b)[y := (rows b ! y)[x := v]] ! i"
    by (rule nth_equalityI)
      (use i assms in \<open>auto simp: nth_rows nth_list_update cell_index_eq simp del: upt_rec_numeral\<close>)
qed simp

lemma fill_cells_eq: "fill_cells y [a..<n] v b = (\<lambda>i. if y * 80 + a \<le> i \<and> i < y * 80 + n then v else b i)"
proof (induction n)
  case (Suc n)
  then show ?case by (cases "a \<le> n") (auto simp: fill_cells_def fun_eq_iff)
qed (auto simp: fill_cells_def fun_eq_iff)

lemma scroll_row:
  "n \<le> 80 \<Longrightarrow> fold (\<lambda>x b. b(y * 80 + x := b ((y + 1) * 80 + x))) [0..<n] b =
     (\<lambda>i. if y * 80 \<le> i \<and> i < y * 80 + n then b (i + 80) else b i)"
proof (induction n)
  case (Suc n)
  then show ?case by (auto simp: fun_eq_iff algebra_simps)
qed (auto simp: fun_eq_iff)

lemma scroll_up_eq: "scroll_up b = (\<lambda>i. if i < 1920 then b (i + 80) else b i)"
proof -
  let ?row = "\<lambda>y. fold (\<lambda>x b. b(y * 80 + x := b ((y + 1) * 80 + x))) [0..<80]"
  have "fold ?row [0..<m] b = (\<lambda>i. if i < m * 80 then b (i + 80) else b i)" for m
  proof (induction m)
    case (Suc m)
    have "fold ?row [0..<Suc m] b = ?row m (fold ?row [0..<m] b)" by (simp del: upt_rec_numeral)
    also have "\<dots> = (\<lambda>i. if i < Suc m * 80 then b (i + 80) else b i)"
      unfolding scroll_row [OF order_refl] Suc by (auto simp: fun_eq_iff)
    finally show ?case .
  qed simp
  from this [of 24] show ?thesis by (simp add: scroll_up_def del: upt_rec_numeral)
qed

lemma rows_scrolled: "rows (fill_cells 24 [0..<80] v (scroll_up b)) = tl (rows b) @ [replicate 80 v]"
proof (rule nth_equalityI)
  show "length (rows (fill_cells 24 [0..<80] v (scroll_up b))) = length (tl (rows b) @ [replicate 80 v])" by simp
  fix i assume "i < length (rows (fill_cells 24 [0..<80] v (scroll_up b)))"
  then have i: "i < 25" by simp
  show "rows (fill_cells 24 [0..<80] v (scroll_up b)) ! i = (tl (rows b) @ [replicate 80 v]) ! i"
  proof (cases "i = 24")
    case True
    then show ?thesis by (intro nth_equalityI) (simp_all add: nth_rows fill_cells_eq nth_append nth_tl del: upt_rec_numeral)
  next
    case False
    then show ?thesis using i
      by (intro nth_equalityI) (simp_all add: nth_rows fill_cells_eq scroll_up_eq nth_append nth_tl algebra_simps del: upt_rec_numeral)
  qed
qed

subsection \<open>The hardware\<close>

record vga_view =
  crtc_index :: u8
  crtc_regs :: "u8 \<Rightarrow> u8"
  sent :: cstring
  tx_busy :: nat

definition cursor :: "vga_view \<Rightarrow> nat" where
  "cursor v = unat (push_bit 8 (ucast (crtc_regs v 0x0E)) + ucast (crtc_regs v 0x0F) :: u16)"

lemma join_bytes: "push_bit 8 (ucast (ucast (drop_bit 8 p AND 0xFF) :: u8)) + ucast (ucast (p AND 0xFF) :: u8) = (p :: u16)"
proof -
  have m: "(0xFF :: u16) = mask 8" by (simp add: mask_eq_exp_minus_1)
  let ?hi = "push_bit 8 (ucast (ucast (drop_bit 8 p AND 0xFF) :: u8)) :: u16" and ?lo = "ucast (ucast (p AND 0xFF) :: u8) :: u16"
  have "?hi AND ?lo = 0" unfolding m by (rule bit_word_eqI) (auto simp: bit_simps)
  moreover have "?hi OR ?lo = p" unfolding m by (rule bit_word_eqI) (auto simp: bit_simps)
  ultimately show ?thesis by (simp add: disjunctive_add_eq_or)
qed

text \<open>The invariant: the cursor is on the screen, the buffer of the escape sequence is within its array.\<close>

definition console_ok :: "('d \<Rightarrow> vga_view) \<Rightarrow> 'd console \<Rightarrow> bool" where
  "console_ok view s \<longleftrightarrow> cursor (view (hw s)) < 2000 \<and> length (ansi_params s) = 16 \<and> ansi_param_idx s \<le> 15 \<and> ansi_state s \<le> 2"

definition abs_terminal :: "('d \<Rightarrow> vga_view) \<Rightarrow> 'd console \<Rightarrow> terminal" where
  "abs_terminal view s = \<lparr>screen = rows (vga_buffer s), cur_x = cursor (view (hw s)) mod 80, cur_y = cursor (view (hw s)) div 80,
     colour = current_color s,
     esc = (if ansi_state s = 0 then Plain else if ansi_state s = 1 then Esc else Csi (take (ansi_param_idx s) (ansi_params s)))\<rparr>"

text \<open>
  The display controller holds what is written to its registers. The serial port is busy for a number of
  polls after each character, and sends what is written when it is not.
\<close>

locale text_hardware =
  fixes bus :: "'d bus" and view :: "'d \<Rightarrow> vga_view"
  assumes out_ctrl: "view (out8 bus 0x3D4 v d) = (view d)\<lparr>crtc_index := v\<rparr>"
    and out_data: "view (out8 bus 0x3D5 v d) = (view d)\<lparr>crtc_regs := (crtc_regs (view d))(crtc_index (view d) := v)\<rparr>"
    and in_data: "fst (in8 bus 0x3D5 d) = crtc_regs (view d) (crtc_index (view d))" "view (snd (in8 bus 0x3D5 d)) = view d"
    and in_status: "fst (in8 bus 0x3FD d) AND 0x20 \<noteq> 0 \<longleftrightarrow> tx_busy (view d) = 0"
      "view (snd (in8 bus 0x3FD d)) = (view d)\<lparr>tx_busy := tx_busy (view d) - 1\<rparr>"
    and send: "tx_busy (view d) = 0 \<Longrightarrow> \<exists>n. view (out8 bus 0x3F8 v d) = (view d)\<lparr>sent := sent (view d) @ [v], tx_busy := n\<rparr>"
begin

lemma get_cursor:
  "\<exists>d. run_state (get_cursor_position bus) s = ((cursor (view (hw s)) mod 80, cursor (view (hw s)) div 80), s\<lparr>hw := d\<rparr>)
     \<and> cursor (view d) = cursor (view (hw s)) \<and> sent (view d) = sent (view (hw s))"
  unfolding get_cursor_position_def cursor_def
  by (simp add: run_port in_data out_ctrl Let_def) (intro exI conjI, rule refl, simp_all add: in_data out_ctrl)

lemma set_cursor:
  assumes "y * 80 + x < 65536"
  shows "\<exists>d. run_state (set_cursor_position bus x y) s = ((), s\<lparr>hw := d\<rparr>) \<and> cursor (view d) = y * 80 + x \<and> sent (view d) = sent (view (hw s))"
proof -
  have "unat (of_nat (y * 80 + x) :: u16) = y * 80 + x" using assms by (intro unat_of_nat_lt) simp
  then show ?thesis
    unfolding set_cursor_position_def cursor_def
    by (simp add: run_port Let_def del: of_nat_add of_nat_mult)
      (intro exI conjI, rule refl, simp_all add: out_ctrl out_data join_bytes del: of_nat_add of_nat_mult)
qed

lemma serial_wait_ends: "\<exists>d. serial_wait bus 0x3F8 s = Some (s\<lparr>hw := d\<rparr>) \<and> view d = (view (hw s))\<lparr>tx_busy := 0\<rparr>"
proof (induction "tx_busy (view (hw s))" arbitrary: s)
  case 0
  then show ?case
    by (subst serial_wait.simps) (auto simp: serial_is_transmit_empty_def run_port in_status split_beta)
next
  case (Suc n)
  let ?s = "s\<lparr>hw := snd (in8 bus 0x3FD (hw s))\<rparr>"
  have "tx_busy (view (hw ?s)) = n" using Suc.hyps(2) by (simp add: in_status)
  then obtain d where "serial_wait bus 0x3F8 ?s = Some (?s\<lparr>hw := d\<rparr>)" "view d = (view (hw ?s))\<lparr>tx_busy := 0\<rparr>"
    using Suc.hyps(1) [of ?s] by auto
  then show ?case using Suc.hyps(2)
    by (subst serial_wait.simps) (auto simp: serial_is_transmit_empty_def run_port in_status split_beta)
qed

lemma serial_char:
  "\<exists>d. serial_write_char bus 0x3F8 ch s = Some (s\<lparr>hw := d\<rparr>) \<and> cursor (view d) = cursor (view (hw s)) \<and> sent (view d) = sent (view (hw s)) @ [ch]"
proof -
  obtain d where d: "serial_wait bus 0x3F8 s = Some (s\<lparr>hw := d\<rparr>)" "view d = (view (hw s))\<lparr>tx_busy := 0\<rparr>" using serial_wait_ends by blast
  moreover obtain n where "view (out8 bus 0x3F8 ch d) = (view d)\<lparr>sent := sent (view d) @ [ch], tx_busy := n\<rparr>" using send [of d ch] d(2) by auto
  ultimately show ?thesis by (auto simp: serial_write_char_def run_port cursor_def)
qed

lemma sequence_step:
  assumes ok: "console_ok view s"
  shows "\<exists>b s'. run_state (ansi_sequence ch) s = (b, s') \<and> hw s' = hw s \<and> vga_buffer s' = vga_buffer s \<and> console_ok view s'
    \<and> (if b then abs_terminal view s' = term_char ch (abs_terminal view s)
       else esc (abs_terminal view s') = Plain \<and> term_char ch (abs_terminal view s) = show_char ch (abs_terminal view s'))"
proof -
  let ?p = "ansi_params s" and ?n = "ansi_param_idx s"
  have n: "?n \<le> 15" "length ?p = 16" "ansi_state s \<in> {0, 1, 2}" using ok by (auto simp: console_ok_def)
  have code: "ansi_code ?p ?n = digits_code (take ?n ?p)"
  proof -
    have "take ?n ?p = map ((!) ?p) [0..<?n]" using n by (intro nth_equalityI) auto
    then show ?thesis by (simp add: ansi_code_def digits_code_def fold_map comp_def)
  qed
  have digit: "take (Suc ?n) (?p[?n := ch, Suc ?n := 0]) = take 15 (take ?n ?p @ [ch])" if "?n < 15"
    using n that by (intro nth_equalityI) (auto simp: nth_append nth_list_update less_Suc_eq)
  have full: "take ?n ?p = take 15 (take ?n ?p @ [ch])" if "\<not> ?n < 15"
    using n that by simp
  have c: "char_int 0x3B = 59" "char_int 0x6D = 109" by (simp_all add: char_int_def)
  consider "ansi_state s = 0" | "ansi_state s = 1" | "ansi_state s = 2" using n(3) by auto
  then show ?thesis
  proof cases
    case 1
    then show ?thesis using ok
      by (cases "ch = 0x1B") (auto simp: ansi_sequence_def abs_terminal_def term_char_def console_ok_def)
  next
    case 2
    then show ?thesis using ok
      by (cases "ch = 0x5B") (auto simp: ansi_sequence_def abs_terminal_def term_char_def console_ok_def)
  next
    case 3
    consider (digit) "0x30 \<le> char_int ch \<and> char_int ch \<le> 0x39" | (semi) "\<not> (0x30 \<le> char_int ch \<and> char_int ch \<le> 0x39)" "ch = 0x3B"
      | (m) "\<not> (0x30 \<le> char_int ch \<and> char_int ch \<le> 0x39)" "ch \<noteq> 0x3B" "ch = 0x6D"
      | (other) "\<not> (0x30 \<le> char_int ch \<and> char_int ch \<le> 0x39)" "ch \<noteq> 0x3B" "ch \<noteq> 0x6D" by blast
    then show ?thesis
    proof cases
      case digit
      then show ?thesis using 3 ok \<open>?n < 15 \<Longrightarrow> _\<close> full
        by (cases "?n < 15") (auto intro!: exI [of _ True] simp: ansi_sequence_def abs_terminal_def term_char_def console_ok_def)
    next
      case semi
      then show ?thesis using 3 ok by (auto intro!: exI [of _ True] simp: ansi_sequence_def abs_terminal_def term_char_def c)
    next
      case m
      then show ?thesis using 3 ok code by (auto intro!: exI [of _ True] simp: ansi_sequence_def abs_terminal_def term_char_def console_ok_def c)
    next
      case other
      then show ?thesis using 3 ok by (auto intro!: exI [of _ True] simp: ansi_sequence_def abs_terminal_def term_char_def console_ok_def)
    qed
  qed
qed

lemma show_step:
  assumes ok: "console_ok view s"
  shows "\<exists>s'. run_state (vga_show bus ch) s = ((), s') \<and> console_ok view s' \<and> abs_terminal view s' = show_char ch (abs_terminal view s)
    \<and> sent (view (hw s')) = sent (view (hw s)) \<and> (\<forall>i \<ge> 2000. vga_buffer s' i = vga_buffer s i)"
proof -
  define x y where "x = cursor (view (hw s)) mod 80" and "y = cursor (view (hw s)) div 80"
  have xy: "x < 80" "y < 25" using ok by (auto simp: x_def y_def console_ok_def)
  obtain d where d: "run_state (get_cursor_position bus) s = ((x, y), s\<lparr>hw := d\<rparr>)" "sent (view d) = sent (view (hw s))"
    using get_cursor unfolding x_def y_def by blast
  define b where "b = (if ch = 0x0A \<or> ch = 0x0D then vga_buffer s else (vga_buffer s)(y * 80 + x := cell ch (current_color s)))"
  obtain x' y' where n: "next_position ch x y = (x', y')" by fastforce
  have xy': "x' < 80" "y' \<le> 25" using n xy by (auto simp: next_position_def split: if_splits)
  define b' where "b' = (if y' \<ge> 25 then fill_cells 24 [0..<80] (blank (current_color s)) (scroll_up b) else b)"
  let ?y = "if y' \<ge> 25 then 24 else y'" and ?s = "s\<lparr>hw := d, vga_buffer := b'\<rparr>"
  have bnd: "?y * 80 + x' < 2000" using xy' by auto
  then have "?y * 80 + x' < 65536" by simp
  from set_cursor [OF this, of ?s]
  obtain d' where d': "run_state (set_cursor_position bus x' ?y) ?s = ((), ?s\<lparr>hw := d'\<rparr>)" "cursor (view d') = ?y * 80 + x'"
      "sent (view d') = sent (view (hw ?s))"
    by blast
  have r: "run_state (vga_show bus ch) s = ((), ?s\<lparr>hw := d'\<rparr>)"
    using d'(1) by (simp add: vga_show_def d(1) n b_def b'_def Let_def cong: if_cong split del: if_split)
  have frame: "\<forall>i \<ge> 2000. b' i = vga_buffer s i" using xy by (auto simp: b'_def b_def fill_cells_eq scroll_up_eq)
  have rb: "rows b = (if ch = 0x0A \<or> ch = 0x0D then rows (vga_buffer s) else (rows (vga_buffer s))[y := (rows (vga_buffer s) ! y)[x := cell ch (current_color s)]])"
    using rows_upd [OF xy] by (simp add: b_def)
  have rb': "rows b' = (if y' \<ge> 25 then tl (rows b) @ [replicate 80 (blank (current_color s))] else rows b)"
    by (simp add: b'_def rows_scrolled)
  have "abs_terminal view (?s\<lparr>hw := d'\<rparr>) = show_char ch (abs_terminal view s)"
    using n xy d'(2) unfolding abs_terminal_def show_char_def line_feed_def Let_def x_def [symmetric] y_def [symmetric]
    by (auto simp: next_position_def rb rb' split: if_splits)
  then show ?thesis using r frame ok bnd d(2) d'(2,3) by (auto simp: console_ok_def)
qed

lemma put_step:
  assumes ok: "console_ok view s"
  shows "\<exists>s'. vga_write_char bus ch s = Some s' \<and> console_ok view s' \<and> abs_terminal view s' = term_char ch (abs_terminal view s)
    \<and> sent (view (hw s')) = sent (view (hw s)) @ [ch] \<and> (\<forall>i \<ge> 2000. vga_buffer s' i = vga_buffer s i)"
proof -
  obtain d where d: "serial_write_char bus 0x3F8 ch s = Some (s\<lparr>hw := d\<rparr>)" "cursor (view d) = cursor (view (hw s))" "sent (view d) = sent (view (hw s)) @ [ch]"
    using serial_char by blast
  let ?s = "s\<lparr>hw := d\<rparr>"
  have ok': "console_ok view ?s" "abs_terminal view ?s = abs_terminal view s" using ok d(2) by (simp_all add: console_ok_def abs_terminal_def)
  obtain b s1 where s1: "run_state (ansi_sequence ch) ?s = (b, s1)" "hw s1 = d" "vga_buffer s1 = vga_buffer s" "console_ok view s1"
      "if b then abs_terminal view s1 = term_char ch (abs_terminal view ?s) else term_char ch (abs_terminal view ?s) = show_char ch (abs_terminal view s1)"
    using sequence_step [OF ok'(1), of ch] by fastforce
  show ?thesis
  proof (cases b)
    case True
    then show ?thesis using s1 d ok' by (simp add: vga_write_char_def vga_put_def)
  next
    case False
    then show ?thesis using s1 d ok' show_step [OF s1(4), of ch] by (auto simp: vga_write_char_def vga_put_def)
  qed
qed

lemma write_ok:
  "console_ok view s \<Longrightarrow> \<exists>s'. display_write bus str s = Some s' \<and> console_ok view s' \<and> abs_terminal view s' = fold term_char str (abs_terminal view s)
    \<and> sent (view (hw s')) = sent (view (hw s)) @ str \<and> (\<forall>i \<ge> 2000. vga_buffer s' i = vga_buffer s i)"
proof (induction str arbitrary: s)
  case (Cons ch str)
  obtain s1 where "vga_write_char bus ch s = Some s1" "console_ok view s1" "abs_terminal view s1 = term_char ch (abs_terminal view s)"
      "sent (view (hw s1)) = sent (view (hw s)) @ [ch]" "\<forall>i \<ge> 2000. vga_buffer s1 i = vga_buffer s i"
    using put_step [OF Cons.prems] by blast
  then show ?case using Cons.IH [of s1] by auto
qed simp

end

text \<open>A machine whose transmitter is busy for three polls after each character.\<close>

definition vga_bus :: "vga_view bus" where
  "vga_bus = \<lparr>in8 = (\<lambda>p d. if p = 0x3D5 then (crtc_regs d (crtc_index d), d)
       else if p = 0x3FD then (if tx_busy d = 0 then 0x60 else 0, d\<lparr>tx_busy := tx_busy d - 1\<rparr>) else (0, d)),
     out8 = (\<lambda>p v d. if p = 0x3D4 then d\<lparr>crtc_index := v\<rparr>
       else if p = 0x3D5 then d\<lparr>crtc_regs := (crtc_regs d)(crtc_index d := v)\<rparr>
       else if p = 0x3F8 then d\<lparr>sent := sent d @ [v], tx_busy := 3\<rparr> else d),
     in16 = (\<lambda>_ d. (0, d)), out16 = (\<lambda>_ _ d. d), in32 = (\<lambda>_ d. (0, d)), out32 = (\<lambda>_ _ d. d), elapse = (\<lambda>_ d. d)\<rparr>"

interpretation vga: text_hardware vga_bus "\<lambda>d. d"
  by unfold_locales (auto simp: vga_bus_def)

subsection \<open>Writing\<close>

text \<open>
  C36. The console is a terminal: over every display controller and serial port that behave as documented,
  writing any text ends, shows on the 25 rows of 80 cells what the terminal shows for the text, with
  its line feeds, scrolling, wrapping at the end of a row and colour sequences, leaves the cursor on the
  screen, writes no cell behind the screen, and sends the whole text over the serial port.
\<close>

theorem display_write_refines:
  assumes "text_hardware bus view" and "console_ok view s"
  shows "\<exists>s'. display_write bus str s = Some s' \<and> console_ok view s' \<and> abs_terminal view s' = fold term_char str (abs_terminal view s)
    \<and> sent (view (hw s')) = sent (view (hw s)) @ str \<and> (\<forall>i \<ge> 2000. vga_buffer s' i = vga_buffer s i)"
  by (rule text_hardware.write_ok [OF assms])

definition console0 :: "vga_view console" where
  "console0 = \<lparr>hw = \<lparr>crtc_index = 0, crtc_regs = (\<lambda>r. if r = 0x0E then 7 else if r = 0x0F then 0xCF else 0), sent = [], tx_busy = 1\<rparr>,
     vga_buffer = (\<lambda>_. 0), current_color = 0x0F, ansi_state = 0, ansi_params = replicate 16 0, ansi_param_idx = 0, saved_cursor = (0, 0)\<rparr>"

theorem display_write_refines_witness:
  "\<exists>s'. display_write vga_bus [0x1B, 0x5B, 0x33, 0x31, 0x6D, 0x41] console0 = Some s'
    \<and> abs_terminal (\<lambda>d. d) s' = fold term_char [0x1B, 0x5B, 0x33, 0x31, 0x6D, 0x41] (abs_terminal (\<lambda>d. d) console0)
    \<and> sent (hw s') = [0x1B, 0x5B, 0x33, 0x31, 0x6D, 0x41]"
proof -
  have "console_ok (\<lambda>d. d) console0" by (simp add: console_ok_def console0_def cursor_def)
  moreover have "sent (hw console0) = []" by (simp add: console0_def)
  ultimately show ?thesis
    using display_write_refines [OF vga.text_hardware_axioms, of console0 "[0x1B, 0x5B, 0x33, 0x31, 0x6D, 0x41]"] by auto
qed

subsection \<open>Editing\<close>

lemma shift_right_eq: "x < 80 \<Longrightarrow> shift_right x y b = (\<lambda>i. if y * 80 + x < i \<and> i < y * 80 + 80 then b (i - 1) else b i)"
proof -
  assume x: "x < 80"
  have "n < 80 \<Longrightarrow> fold (\<lambda>i b. b(y * 80 + i := b (y * 80 + i - 1))) (rev [n + 1..<80]) b
      = (\<lambda>i. if y * 80 + n < i \<and> i < y * 80 + 80 then b (i - 1) else b i)" for n
  proof (induction "79 - n" arbitrary: n)
    case 0
    then have "[n + 1..<80] = []" by simp
    then show ?case using 0 by (auto simp: fun_eq_iff simp del: upt_rec_numeral)
  next
    case (Suc k)
    then have n: "n < 79" by simp
    then have "rev [n + 1..<80] = rev [(n + 1) + 1..<80] @ [n + 1]" by (simp add: upt_conv_Cons)
    moreover have "k = 79 - (n + 1)" using Suc by simp
    ultimately show ?case using Suc.hyps(1) [of "n + 1"] n by (auto simp: fun_eq_iff simp del: upt_rec_numeral)
  qed
  then show ?thesis using x by (simp add: shift_right_def del: upt_rec_numeral)
qed

lemma shift_left_eq: "x < 80 \<Longrightarrow> shift_left x y b = (\<lambda>i. if y * 80 + x \<le> i \<and> i < y * 80 + 79 then b (i + 1) else b i)"
proof -
  have "n \<le> 79 \<Longrightarrow> fold (\<lambda>i b. b(y * 80 + i := b (y * 80 + i + 1))) [x..<n] b
      = (\<lambda>i. if y * 80 + x \<le> i \<and> i < y * 80 + n then b (i + 1) else b i)" for n
  proof (induction n)
    case (Suc n)
    then show ?case by (cases "x \<le> n") (auto simp: fun_eq_iff)
  qed (auto simp: fun_eq_iff)
  then show ?thesis by (simp add: shift_left_def del: upt_rec_numeral)
qed

text \<open>
  Inserting moves the rest of the row to the right and loses its last cell; deleting at the same place
  brings it back.
\<close>

lemma insert_row:
  assumes "x < 80" "y < 25"
  shows "rows ((shift_right x y b)(y * 80 + x := v)) = (rows b)[y := take x (rows b ! y) @ v # take (79 - x) (drop x (rows b ! y))]"
proof (rule nth_equalityI)
  fix i assume "i < length (rows ((shift_right x y b)(y * 80 + x := v)))"
  then have i: "i < 25" by simp
  show "rows ((shift_right x y b)(y * 80 + x := v)) ! i = (rows b)[y := take x (rows b ! y) @ v # take (79 - x) (drop x (rows b ! y))] ! i"
  proof (cases "i = y")
    case True
    then show ?thesis using assms i
      by (intro nth_equalityI) (auto simp: nth_rows shift_right_eq nth_append nth_Cons' min_def simp del: upt_rec_numeral)
  next
    case False
    have "(shift_right x y b) (i * 80 + j) = b (i * 80 + j)" "i * 80 + j \<noteq> y * 80 + x" if "j < 80" for j
      using False assms(1) that by (auto simp: shift_right_eq cell_index_eq)
    then show ?thesis using False assms i by (intro nth_equalityI) (auto simp: nth_rows simp del: upt_rec_numeral)
  qed
qed simp

lemma delete_after_insert:
  assumes "x < 80"
  shows "(shift_left x y ((shift_right x y b)(y * 80 + x := v)))(y * 80 + 79 := b (y * 80 + 79)) = b"
  using assms by (auto simp: shift_left_eq shift_right_eq fun_eq_iff)

text \<open>The sign of a character above 127 fills the attribute: it is shown white on white, blinking, whatever the colour.\<close>

lemma high_character_attribute: "cell 0xE4 0x07 = 0xFFE4"
  by (simp add: cell_def)

end
