(* ===== verification/Multiboot.thy ===== *)
theory Multiboot
  imports Prelude
begin

text \<open>
  What the kernel takes from the boot loader (\<^verbatim>\<open>arch/x86/boot/multiboot_parser.c\<close>): the total amount of usable
  memory. Both parsers follow sizes found in memory, so a loop over a broken list may not end, which is
  \<open>None\<close>; everything else the parsers do is output.
\<close>

definition load64 :: "mem \<Rightarrow> addr \<Rightarrow> u64" where
  "load64 m p = ucast (load32 m p) OR push_bit 32 (ucast (load32 m (p + 4)))"

subsection \<open>Multiboot 1\<close>

definition mb_flags :: "mem \<Rightarrow> addr \<Rightarrow> u32" where "mb_flags m p = load32 m p"
definition mb_mmap_length :: "mem \<Rightarrow> addr \<Rightarrow> u32" where "mb_mmap_length m p = load32 m (p + 44)"
definition mb_mmap_addr :: "mem \<Rightarrow> addr \<Rightarrow> u32" where "mb_mmap_addr m p = load32 m (p + 48)"

partial_function (option) mmap_loop :: "mem \<Rightarrow> addr \<Rightarrow> addr \<Rightarrow> u64 \<Rightarrow> u64 option" where
  "mmap_loop m mmap_end p tot =
     (if p < mmap_end
      then mmap_loop m mmap_end (p + load32 m p + 4) (if load32 m (p + 20) = 1 then tot + load64 m (p + 12) else tot)
      else Some tot)"

definition parse_multiboot1_info :: "mem \<Rightarrow> addr \<Rightarrow> u64 \<Rightarrow> u64 option" where
  "parse_multiboot1_info m mb_info total_memory =
     (if mb_flags m mb_info AND 0x40 \<noteq> 0
      then mmap_loop m (mb_mmap_addr m mb_info + mb_mmap_length m mb_info) (mb_mmap_addr m mb_info) total_memory
      else Some total_memory)"

subsection \<open>Multiboot 2\<close>

partial_function (option) mmap2_loop :: "mem \<Rightarrow> addr \<Rightarrow> u32 \<Rightarrow> addr \<Rightarrow> u64 \<Rightarrow> u64 option" where
  "mmap2_loop m tag_end entry_size p tot =
     (if p < tag_end
      then mmap2_loop m tag_end entry_size (p + entry_size) (if load32 m (p + 16) = 1 then tot + load64 m (p + 8) else tot)
      else Some tot)"

partial_function (option) tags_loop :: "mem \<Rightarrow> addr \<Rightarrow> u64 \<Rightarrow> u64 option" where
  "tags_loop m tag tot =
     (if load32 m tag = 0 then Some tot
      else Option.bind (if load32 m tag = 6 then mmap2_loop m (tag + load32 m (tag + 4)) (load32 m (tag + 8)) (tag + 16) tot else Some tot)
             (tags_loop m (tag + load32 m (tag + 4))))"

definition compute_total_memory :: "mem \<Rightarrow> addr \<Rightarrow> u64 option" where
  "compute_total_memory m mb_info = tags_loop m (mb_info + 8) 0"

subsection \<open>The memory map\<close>

record region =
  region_size :: u32
  region_length :: u64
  region_type :: u32

fun map_at :: "mem \<Rightarrow> addr \<Rightarrow> region list \<Rightarrow> bool" where
  "map_at m p [] = True"
| "map_at m p (r # rs) = (load32 m p = region_size r \<and> load64 m (p + 12) = region_length r \<and> load32 m (p + 20) = region_type r
     \<and> map_at m (p + region_size r + 4) rs)"

definition map_bytes :: "region list \<Rightarrow> nat" where
  "map_bytes rs = sum_list (map (\<lambda>r. unat (region_size r) + 4) rs)"

definition usable :: "region list \<Rightarrow> u64" where
  "usable rs = sum_list (map region_length (filter (\<lambda>r. region_type r = 1) rs))"

lemma mmap_loop_ok:
  assumes "map_at m p rs" "unat p + map_bytes rs < 2 ^ 32" "unat mmap_end = unat p + map_bytes rs"
  shows "mmap_loop m mmap_end p tot = Some (tot + usable rs)"
  using assms
proof (induction rs arbitrary: p tot)
  case Nil
  then have "\<not> p < mmap_end" by (simp add: word_less_nat_alt map_bytes_def)
  then show ?case by (subst mmap_loop.simps) (simp add: usable_def)
next
  case (Cons r rs)
  let ?q = "p + region_size r + 4"
  have q: "unat ?q = unat p + (unat (region_size r) + 4)"
    using Cons.prems(2) by (simp add: map_bytes_def unat_word_ariths)
  have "p < mmap_end" using Cons.prems(3) by (simp add: word_less_nat_alt map_bytes_def)
  moreover have "mmap_loop m mmap_end ?q t = Some (t + usable rs)" for t
    using Cons.prems q by (intro Cons.IH) (simp_all add: map_bytes_def)
  ultimately show ?case using Cons.prems(1) by (subst mmap_loop.simps) (simp add: usable_def add.assoc)
qed

text \<open>
  The kernel learns how much memory there is: for a memory map laid out as the boot protocol says, with
  entries of whatever sizes, the parser ends and adds the lengths of the usable regions.
\<close>

theorem parse_multiboot1_info_correct:
  assumes "mb_flags m mb AND 0x40 \<noteq> 0" "map_at m (mb_mmap_addr m mb) rs" "unat (mb_mmap_length m mb) = map_bytes rs"
    and "unat (mb_mmap_addr m mb) + map_bytes rs < 2 ^ 32"
  shows "parse_multiboot1_info m mb tot = Some (tot + usable rs)"
proof -
  have "unat (mb_mmap_addr m mb + mb_mmap_length m mb) = unat (mb_mmap_addr m mb) + map_bytes rs"
    using assms(3,4) by (simp add: unat_word_ariths)
  then show ?thesis using assms mmap_loop_ok [OF assms(2,4)] by (simp add: parse_multiboot1_info_def)
qed

definition boot_mem :: mem where
  "boot_mem a = (if a = 0 then 0x40 else if a = 44 then 48 else if a = 49 then 2
     else if a = 0x200 \<or> a = 0x218 then 20 else if a = 0x20D then 0xFC else if a = 0x214 then 1
     else if a = 0x226 then 0x10 else if a = 0x22C then 1 else 0)"

theorem parse_multiboot1_info_correct_witness:
  "parse_multiboot1_info boot_mem 0 0 = Some (0xFC00 + 0x100000)"
proof -
  let ?rs = "[\<lparr>region_size = 20, region_length = 0xFC00, region_type = 1\<rparr>, \<lparr>region_size = 20, region_length = 0x100000, region_type = 1\<rparr>]"
  have "mb_flags boot_mem 0 AND 0x40 \<noteq> 0" "map_at boot_mem (mb_mmap_addr boot_mem 0) ?rs"
      "unat (mb_mmap_length boot_mem 0) = map_bytes ?rs" "unat (mb_mmap_addr boot_mem 0) + map_bytes ?rs < 2 ^ 32"
    by (simp_all add: mb_flags_def mb_mmap_addr_def mb_mmap_length_def load64_def load32_def word32_def boot_mem_def map_bytes_def)
  from parse_multiboot1_info_correct [OF this, of 0] show ?thesis by (simp add: usable_def)
qed

end
