(* ===== verification/Shell.thy ===== *)
theory Shell
  imports Ata Keyboard
begin

text \<open>
  The shell (\<^verbatim>\<open>kernel/shell/command.c\<close>): the line editor, the history, the splitting of a line into a command
  and its arguments, the switch of drives and the dispatch over the table of commands. What the commands do
  is a parameter, by their position in the table. The heap is seen through the outcomes of the allocations of a
  line only, so that \<^verbatim>\<open>free_arguments\<close>, which releases the words when the command has returned, has no effect
  on the state of the model. The screen is the sequence of operations on it; \<open>None\<close> is a
  call that does not return.
\<close>

subsection \<open>State\<close>

datatype screen_op =
  Putc u8 | Text cstring | MoveLeft | MoveRight | Backspace | ClearLine | ClearFromCursor | ClearScreen | SaveCursor

text \<open>\<open>history_current\<close> is \<open>None\<close> for -1; \<open>sh_mallocs\<close> are the outcomes of the next allocations.\<close>

record 'w shell =
  sh_kbd :: kbd
  sh_ata :: "'w ata"
  sh_drive :: "nat option"
  current_path :: cstring
  input :: "u8 list"
  buffer_index :: nat
  cursor_pos :: nat
  history_buffer :: "cstring list"
  history_count :: nat
  history_index :: nat
  history_current :: "nat option"
  command_names :: "cstring list"
  sh_mallocs :: "bool list"
  screen :: "screen_op list"

type_synonym 'w command = "nat \<Rightarrow> cstring list \<Rightarrow> 'w shell \<Rightarrow> 'w shell option"

abbreviation HISTORY_SIZE :: nat where "HISTORY_SIZE \<equiv> 50"
abbreviation KEY_UP :: u8 where "KEY_UP \<equiv> 0x48"
abbreviation KEY_DOWN :: u8 where "KEY_DOWN \<equiv> 0x50"
abbreviation KEY_LEFT :: u8 where "KEY_LEFT \<equiv> 0x4B"
abbreviation KEY_RIGHT :: u8 where "KEY_RIGHT \<equiv> 0x4D"
abbreviation KEY_HOME :: u8 where "KEY_HOME \<equiv> 0x47"
abbreviation KEY_END :: u8 where "KEY_END \<equiv> 0x4F"
abbreviation KEY_DELETE :: u8 where "KEY_DELETE \<equiv> 0x53"

definition command_table :: "cstring list" where
  "command_table = map lit [''help'', ''clear'', ''echo'', ''mem'', ''dump'', ''cls'', ''ls'', ''cd'', ''drives'', ''mount'',
     ''mkdir'', ''rmdir'', ''mkfile'', ''rmfile'', ''run'', ''exec'', ''kill'', ''sys'', ''open'', ''datetime'', ''settime'',
     ''setdate'', ''irq'', ''sleep'', ''exit'', ''fdd'', ''hdd'', ''beep'', ''wait'', ''pid'', ''rtask'', ''net'', ''ifconfig'',
     ''ping'', ''arp'', ''history'', ''basic'', ''pci'', ''getip'']"

definition emit :: "screen_op list \<Rightarrow> 'w shell \<Rightarrow> 'w shell" where
  "emit ops s = s\<lparr>screen := screen s @ ops\<rparr>"

definition lower :: "cstring \<Rightarrow> cstring" where "lower = map (\<lambda>c. word_of_int (tolower (char_int c)))"
definition upper :: "cstring \<Rightarrow> cstring" where "upper = map (\<lambda>c. word_of_int (toupper (char_int c)))"

subsection \<open>Drives\<close>

definition drive_prefix :: "cstring \<Rightarrow> bool" where
  "drive_prefix p \<longleftrightarrow> take 3 p = lit ''hdd'' \<or> take 3 p = lit ''fdd''"

text \<open>The name of the drive and what \<^verbatim>\<open>path_out\<close> then points to.\<close>

definition extract_drive_from_path :: "cstring \<Rightarrow> (cstring \<times> cstring) option" where
  "extract_drive_from_path path =
     (let name = takeWhile (\<lambda>c. c \<noteq> 47) (drop 1 path); next_slash = dropWhile (\<lambda>c. c \<noteq> 47) (drop 1 path)
      in if path \<noteq> [] \<and> path ! 0 = 47 \<and> length name = 4 \<and> drive_prefix name
         then Some (lower name, if next_slash \<noteq> [] then next_slash else lit ''/'')
         else if length path \<ge> 5 \<and> path ! 4 = 58 \<and> drive_prefix path
         then Some (lower (take 4 path), if drop 5 path = [] then lit ''/'' else drop 5 path)
         else None)"

definition try_switch_drive :: "cstring \<Rightarrow> 'w shell \<Rightarrow> 'w shell \<times> bool" where
  "try_switch_drive name s =
     (let name = lower (take 15 name)
      in if drive_prefix name \<and> length name = 4 \<and> 48 \<le> name ! 3 \<and> name ! 3 \<le> 57
         then (case get_drive_by_name name (sh_ata s) of
                 Some i \<Rightarrow> (emit [Text (lit ''Switched to drive '' @ dr_name (detected_drives (sh_ata s) ! i) @ [10])]
                              (s\<lparr>sh_drive := Some i, current_path := lit ''/''\<rparr>), True)
               | None \<Rightarrow> (emit [Text (lit ''Drive '' @ name @ lit '' not found or not mounted'' @ [10])] s, True))
         else (s, False))"

subsection \<open>Splitting a line\<close>

definition skip_spaces :: "u8 list \<Rightarrow> u8 list" where
  "skip_spaces = dropWhile (\<lambda>c. c = 32)"

text \<open>A word of at most \<open>n\<close> characters and the rest.\<close>

fun copy_word :: "nat \<Rightarrow> u8 list \<Rightarrow> u8 list \<times> u8 list" where
  "copy_word 0 cs = ([], cs)"
| "copy_word (Suc n) [] = ([], [])"
| "copy_word (Suc n) (c # cs) = (if c = 32 then ([], c # cs) else case copy_word n cs of (w, r) \<Rightarrow> (c # w, r))"

text \<open>
  \<open>k\<close> is how many arguments are still accepted; \<open>Inl j\<close> is -1, with the number of the argument for which the
  allocation failed.
\<close>

fun split_args :: "nat \<Rightarrow> nat \<Rightarrow> u8 list \<Rightarrow> bool list \<Rightarrow> (nat + cstring list) \<times> bool list" where
  "split_args 0 max_length cs ms = (Inr [], ms)"
| "split_args (Suc k) max_length cs ms =
     (if cs = [] then (Inr [], ms)
      else if ms \<noteq> [] \<and> \<not> hd ms then (Inl 0, tl ms)
      else case copy_word (max_length - 1) cs of (w, r) \<Rightarrow>
        (case split_args k max_length (skip_spaces r) (tl ms) of
           (Inl j, ms) \<Rightarrow> (Inl (Suc j), ms)
         | (Inr args, ms) \<Rightarrow> (Inr (w # args), ms)))"

definition split_input :: "cstring \<Rightarrow> nat \<Rightarrow> nat \<Rightarrow> bool list \<Rightarrow> cstring \<times> (nat + cstring list) \<times> bool list" where
  "split_input cs max_length max_args ms =
     (case copy_word (max_length - 1) (skip_spaces cs) of (command, r) \<Rightarrow>
        (command, split_args max_args max_length (skip_spaces r) ms))"

subsection \<open>Commands\<close>

text \<open>The search through the table, which turns the names it passes to upper case.\<close>

fun run_table :: "'w command \<Rightarrow> cstring \<Rightarrow> cstring list \<Rightarrow> nat list \<Rightarrow> 'w shell \<Rightarrow> 'w shell option" where
  "run_table exec command args [] s = Some (emit [Text ([10] @ lit ''Unknown command: '' @ command @ [10])] s)"
| "run_table exec command args (i # is) s =
     (let s = s\<lparr>command_names := (command_names s)[i := upper (command_names s ! i)]\<rparr>
      in if command = command_names s ! i then exec i args s else run_table exec command args is s)"

definition process_command :: "'w command \<Rightarrow> cstring \<Rightarrow> 'w shell \<Rightarrow> 'w shell option" where
  "process_command exec cs s =
     (case split_input cs 64 10 (sh_mallocs s) of (command, args, ms) \<Rightarrow>
        let s = s\<lparr>sh_mallocs := ms\<rparr>
        in case args of
             Inl j \<Rightarrow> Some (emit [Text (lit ''Error: Memory allocation failed for argument '' @ [48 + of_nat j] @ [10]),
                                  Text (lit ''Error: Failed to parse command arguments'' @ [10])] s)
           | Inr args \<Rightarrow>
               if command = [] then Some s
               else (case try_switch_drive command s of (s, consumed) \<Rightarrow>
                 if consumed then Some s
                 else run_table exec (upper command) args [0..<length (command_names s)] s))"

subsection \<open>History\<close>

definition history_add :: "cstring \<Rightarrow> 'w shell \<Rightarrow> 'w shell" where
  "history_add cmd s =
     (if cmd = [] then s
      else if history_count s > 0 \<and> history_buffer s ! ((history_index s + HISTORY_SIZE - 1) mod HISTORY_SIZE) = cmd then s
      else s\<lparr>history_buffer := (history_buffer s)[history_index s := take 255 cmd],
             history_index := (history_index s + 1) mod HISTORY_SIZE,
             history_count := (if history_count s < HISTORY_SIZE then history_count s + 1 else history_count s),
             history_current := None\<rparr>)"

definition history_get_prev :: "'w shell \<Rightarrow> 'w shell \<times> cstring option" where
  "history_get_prev s =
     (if history_count s = 0 then (s, None)
      else case history_current s of
        None \<Rightarrow> let c = (history_index s + HISTORY_SIZE - 1) mod HISTORY_SIZE
                in (s\<lparr>history_current := Some c\<rparr>, Some (history_buffer s ! c))
      | Some c \<Rightarrow>
          if c = (history_index s + HISTORY_SIZE - history_count s) mod HISTORY_SIZE then (s, None)
          else let c = (c + HISTORY_SIZE - 1) mod HISTORY_SIZE
               in (s\<lparr>history_current := Some c\<rparr>, Some (history_buffer s ! c)))"

definition history_get_next :: "'w shell \<Rightarrow> 'w shell \<times> cstring option" where
  "history_get_next s =
     (case history_current s of
        None \<Rightarrow> (s, None)
      | Some c \<Rightarrow>
          if history_count s = 0 then (s, None)
          else if c = (history_index s + HISTORY_SIZE - 1) mod HISTORY_SIZE then (s\<lparr>history_current := None\<rparr>, Some [])
          else let c = (c + 1) mod HISTORY_SIZE in (s\<lparr>history_current := Some c\<rparr>, Some (history_buffer s ! c)))"

definition history_reset :: "'w shell \<Rightarrow> 'w shell" where
  "history_reset s = s\<lparr>history_current := None\<rparr>"

text \<open>The entries in the order \<^verbatim>\<open>history_list\<close> prints them.\<close>

definition history_list :: "'w shell \<Rightarrow> cstring list" where
  "history_list s = map (\<lambda>i. history_buffer s ! (((history_index s + HISTORY_SIZE - history_count s) mod HISTORY_SIZE + i) mod HISTORY_SIZE)) [0..<history_count s]"

subsection \<open>The line editor\<close>

definition prompt_name :: "'w shell \<Rightarrow> cstring option" where
  "prompt_name s = (case sh_drive s of
     None \<Rightarrow> None
   | Some i \<Rightarrow> let n = dr_name (detected_drives (sh_ata s) ! i) in if n \<noteq> [] then Some n else None)"

text \<open>Without a drive that has a name, the prompt calls itself.\<close>

partial_function (option) show_prompt :: "'w shell \<Rightarrow> 'w shell option" where
  "show_prompt s = (case prompt_name s of Some n \<Rightarrow> Some (emit [Text (n @ lit ''> '')] s) | None \<Rightarrow> show_prompt s)"

definition store_string :: "cstring \<Rightarrow> u8 list \<Rightarrow> u8 list" where
  "store_string cs buf = cs @ [0] @ drop (length cs + 1) buf"

definition replace_current_line :: "cstring \<Rightarrow> 'w shell \<Rightarrow> 'w shell option" where
  "replace_current_line new s = do {
     s \<leftarrow> show_prompt (emit [SaveCursor, ClearLine] s);
     let cs = take 127 new;
     Some (emit (map Putc cs) (s\<lparr>input := store_string cs (input s), cursor_pos := length cs, buffer_index := length cs\<rparr>)) }"

text \<open>\<^verbatim>\<open>for (i = a; i < b; i++) buffer[i] = buffer[i + 1]\<close> and \<^verbatim>\<open>for (i = b; i > a; i--) buffer[i] = buffer[i - 1]\<close>.\<close>

definition move_down :: "nat \<Rightarrow> nat \<Rightarrow> u8 list \<Rightarrow> u8 list" where
  "move_down a b buf = fold (\<lambda>i buf. buf[i := buf ! (i + 1)]) [a..<b] buf"

definition move_up :: "nat \<Rightarrow> nat \<Rightarrow> u8 list \<Rightarrow> u8 list" where
  "move_up a b buf = foldr (\<lambda>i buf. buf[i + 1 := buf ! i]) [a..<b] buf"

text \<open>What is displayed from a position on.\<close>

definition shown :: "nat \<Rightarrow> 'w shell \<Rightarrow> screen_op list" where
  "shown i s = map (\<lambda>i. Putc (input s ! i)) [i..<buffer_index s]"

text \<open>A character is removed: those from \<open>c\<close> up to \<open>m\<close> move down, and the line is one shorter.\<close>

definition remove_char :: "nat \<Rightarrow> nat \<Rightarrow> 'w shell \<Rightarrow> 'w shell" where
  "remove_char c m s = s\<lparr>input := (move_down c m (input s))[buffer_index s - 1 := 0], buffer_index := buffer_index s - 1, cursor_pos := c\<rparr>"

definition delete_at_cursor :: "'w shell \<Rightarrow> 'w shell" where
  "delete_at_cursor s =
     (if cursor_pos s < buffer_index s
      then let s = remove_char (cursor_pos s) (buffer_index s - 1) s
           in emit (shown (cursor_pos s) s @ [Putc 32] @ replicate (buffer_index s - cursor_pos s + 1) MoveLeft) s
      else s)"

definition handle_escape_sequence :: "'w shell \<Rightarrow> ('w shell \<times> bool) option" where
  "handle_escape_sequence s = do {
     (k, seq1) \<leftarrow> input_queue_pop (sh_kbd s);
     let s = s\<lparr>sh_kbd := k\<rparr>;
     if seq1 = 0 \<or> seq1 \<noteq> 91 then Some (s, False)
     else do {
       (k, key) \<leftarrow> input_queue_pop (sh_kbd s);
       let s = s\<lparr>sh_kbd := k\<rparr>;
       if key = 0 then Some (s, False)
       else if key = KEY_UP then
         (case history_get_prev s of
            (s, None) \<Rightarrow> Some (s, True)
          | (s, Some prev) \<Rightarrow> map_option (\<lambda>s. (s, True)) (replace_current_line prev s))
       else if key = KEY_DOWN then
         (case history_get_next s of
            (s, None) \<Rightarrow> Some (s, True)
          | (s, Some nxt) \<Rightarrow> map_option (\<lambda>s. (s, True)) (replace_current_line nxt s))
       else if key = KEY_LEFT then
         Some (if cursor_pos s > 0 then emit [MoveLeft] (s\<lparr>cursor_pos := cursor_pos s - 1\<rparr>) else s, True)
       else if key = KEY_RIGHT then
         Some (if cursor_pos s < buffer_index s then emit [MoveRight] (s\<lparr>cursor_pos := cursor_pos s + 1\<rparr>) else s, True)
       else if key = KEY_HOME then
         Some (emit (replicate (cursor_pos s) MoveLeft) (s\<lparr>cursor_pos := 0\<rparr>), True)
       else if key = KEY_END then
         Some (emit (replicate (buffer_index s - cursor_pos s) MoveRight) (s\<lparr>cursor_pos := max (cursor_pos s) (buffer_index s)\<rparr>), True)
       else if key = KEY_DELETE then Some (delete_at_cursor s, True)
       else Some (s, False) } }"

definition clear_input :: "'w shell \<Rightarrow> 'w shell" where
  "clear_input s = s\<lparr>input := (input s)[0 := 0], buffer_index := 0, cursor_pos := 0\<rparr>"

definition handle_ctrl_key :: "u8 \<Rightarrow> 'w shell \<Rightarrow> ('w shell \<times> bool) option" where
  "handle_ctrl_key ch s =
     (if ch = 0x03 then
        map_option (\<lambda>s. (s, True)) (show_prompt (history_reset (clear_input (emit [Text (lit ''^C'' @ [10])] s))))
      else if ch = 0x04 then
        (if buffer_index s = 0
         then map_option (\<lambda>s. (s, True)) (show_prompt (emit [Text (lit ''^D'' @ [10] @ lit ''(Ctrl+D pressed - use '' @ [39] @ lit ''exit'' @ [39] @ lit '' to quit)'' @ [10])] s))
         else Some (s, False))
      else if ch = 0x0C then
        map_option (\<lambda>s. (emit (shown 0 s @ replicate (buffer_index s - cursor_pos s) MoveLeft) s, True)) (show_prompt (emit [ClearScreen] s))
      else if ch = 0x15 then
        map_option (\<lambda>s. (clear_input s, True)) (show_prompt (emit [ClearLine] s))
      else if ch = 0x0B then
        Some (emit [ClearFromCursor] (s\<lparr>input := (input s)[cursor_pos s := 0], buffer_index := cursor_pos s\<rparr>), True)
      else Some (s, False))"

definition enter_line :: "'w command \<Rightarrow> 'w shell \<Rightarrow> 'w shell option" where
  "enter_line exec s = do {
     let s = emit [Text [10]] (s\<lparr>input := (input s)[buffer_index s := 0]\<rparr>);
     s \<leftarrow> (if buffer_index s > 0
          then process_command exec (string_of (input s)) (history_add (string_of (input s)) s)
          else Some s);
     show_prompt (history_reset (clear_input s)) }"

definition delete_before_cursor :: "'w shell \<Rightarrow> 'w shell" where
  "delete_before_cursor s =
     (if cursor_pos s > 0
      then let s = emit [Backspace] (remove_char (cursor_pos s - 1) (buffer_index s) s)
           in emit (shown (cursor_pos s) s @ [Putc 32] @ replicate (buffer_index s - cursor_pos s + 1) MoveLeft) s
      else s)"

definition add_char :: "u8 \<Rightarrow> 'w shell \<Rightarrow> 'w shell" where
  "add_char ch s = s\<lparr>input := ((move_up (cursor_pos s) (buffer_index s) (input s))[cursor_pos s := ch])[buffer_index s + 1 := 0],
     buffer_index := buffer_index s + 1, cursor_pos := cursor_pos s + 1\<rparr>"

definition insert_at_cursor :: "u8 \<Rightarrow> 'w shell \<Rightarrow> 'w shell" where
  "insert_at_cursor ch s =
     (if buffer_index s < 255
      then let s = add_char ch s
           in if cursor_pos s = buffer_index s then emit [Putc ch] s
              else emit (shown (cursor_pos s - 1) s @ replicate (buffer_index s - cursor_pos s) MoveLeft) s
      else s)"

text \<open>One turn of the loop: the character that was read.\<close>

definition handle_char :: "'w command \<Rightarrow> u8 \<Rightarrow> 'w shell \<Rightarrow> 'w shell option" where
  "handle_char exec ch s =
     (if ch \<noteq> 0
      then if ch = 0 then map_option fst (handle_escape_sequence s)
           else if char_int ch < 0x20 \<and> ch \<noteq> 10 \<and> ch \<noteq> 9 \<and> ch \<noteq> 8 then map_option fst (handle_ctrl_key ch s)
           else if ch = 10 then enter_line exec s
           else if ch = 8 then Some (delete_before_cursor s)
           else if ch = 9 then Some s
           else if 0x20 \<le> char_int ch \<and> char_int ch < 0x7F then Some (insert_at_cursor ch s)
           else Some s
      else Some s)"

fun shell_loop :: "'w command \<Rightarrow> poll list \<Rightarrow> 'w shell \<Rightarrow> 'w shell option" where
  "shell_loop exec [] s = Some s"
| "shell_loop exec ((irqs, serial_ch) # polls) s = do {
     k \<leftarrow> kb_run irqs (sh_kbd s);
     (k, ch) \<leftarrow> getchar_nonblocking serial_ch k;
     s \<leftarrow> handle_char exec ch (s\<lparr>sh_kbd := k\<rparr>);
     shell_loop exec polls s }"

text \<open>The contents of the new block are \<open>junk\<close>.\<close>

definition command_loop :: "'w command \<Rightarrow> u8 list \<Rightarrow> poll list \<Rightarrow> 'w shell \<Rightarrow> 'w shell option" where
  "command_loop exec junk polls s = do {
     s \<leftarrow> show_prompt (emit [Text (lit ''+++Enhanced shell with line editing and history started'' @ [10])] s);
     (if sh_mallocs s \<noteq> [] \<and> \<not> hd (sh_mallocs s)
      then Some (emit [Text (lit ''Failed to allocate memory for input buffer'' @ [10])] (s\<lparr>sh_mallocs := tl (sh_mallocs s)\<rparr>))
      else shell_loop exec polls (s\<lparr>sh_mallocs := tl (sh_mallocs s), input := junk[0 := 0], buffer_index := 0, cursor_pos := 0\<rparr>)) }"

end
