(* ===== verification/Shell_Commands.thy ===== *)
theory Shell_Commands
  imports Shell
begin

text \<open>
  A line is split at its blanks into a command and up to ten arguments; a command runs the entry of the table
  with its name; the ring of the history is the list of the last fifty commands.
\<close>

subsection \<open>Characters\<close>

lemma uint_lt_256: "0 \<le> uint (c :: u8) \<and> uint c < 256"
  using unsigned_less [of c] by simp

lemma char_int_uint: "char_int c = (if uint c < 128 then uint c else uint c - 256)"
proof -
  have e: "char_int c = (uint c + 128) mod 256 - 128"
    by (simp add: char_int_def sint_uint signed_take_bit_eq_take_bit_shift take_bit_eq_mod)
  show ?thesis
  proof (cases "uint c < 128")
    case False
    have "(uint c - 128 + 256) mod 256 = (uint c - 128) mod 256" by (rule mod_add_self2)
    moreover have "uint c - 128 + 256 = uint c + 128" by simp
    ultimately have "(uint c + 128) mod 256 = uint c - 128" using False uint_lt_256 [of c] by (simp add: mod_pos_pos_trivial)
    then show ?thesis using e False by simp
  qed (use e uint_lt_256 [of c] in \<open>simp add: mod_pos_pos_trivial\<close>)
qed

lemma word_of_char_int: "word_of_int (char_int c) = c"
  by (simp add: char_int_def)

lemma upper_char: "word_of_int (toupper (char_int c)) = (if 97 \<le> c \<and> c \<le> 122 then c - 32 else c)"
proof (cases "97 \<le> c \<and> c \<le> 122")
  case True
  then have "97 \<le> uint c" "uint c \<le> 122" by (simp_all add: word_le_def)
  then have "toupper (char_int c) = char_int c - 32" "char_int c = uint c" by (simp_all add: toupper_def char_int_uint)
  then show ?thesis using True by simp
next
  case False
  then have "\<not> (97 \<le> uint c \<and> uint c \<le> 122)" by (simp add: word_le_def)
  then have "toupper (char_int c) = char_int c" using uint_lt_256 [of c] by (auto simp: toupper_def char_int_uint)
  then show ?thesis unfolding word_of_char_int if_not_P [OF False] by (simp add: word_of_char_int)
qed

lemma lower_char: "word_of_int (tolower (char_int c)) = (if 65 \<le> c \<and> c \<le> 90 then c + 32 else c)"
proof (cases "65 \<le> c \<and> c \<le> 90")
  case True
  then have "65 \<le> uint c" "uint c \<le> 90" by (simp_all add: word_le_def)
  then have "tolower (char_int c) = char_int c + 32" "char_int c = uint c" by (simp_all add: tolower_def char_int_uint)
  then show ?thesis using True by simp
next
  case False
  then have "\<not> (65 \<le> uint c \<and> uint c \<le> 90)" by (simp add: word_le_def)
  then have "tolower (char_int c) = char_int c" using uint_lt_256 [of c] by (auto simp: tolower_def char_int_uint)
  then show ?thesis unfolding word_of_char_int if_not_P [OF False] by (simp add: word_of_char_int)
qed

lemma lower_upper: "lower (upper cs) = lower cs"
proof -
  have "word_of_int (tolower (char_int (word_of_int (toupper (char_int c))))) = (word_of_int (tolower (char_int c)) :: u8)" for c
  proof (cases "97 \<le> c \<and> c \<le> 122")
    case True
    then have u: "97 \<le> unat c" "unat c \<le> 122" by (simp_all add: word_le_nat_alt)
    have "32 \<le> c" using u by (simp add: word_le_nat_alt)
    then have "unat (c - 32) = unat c - 32" by (simp add: unat_sub)
    then have "65 \<le> c - 32" "c - 32 \<le> 90" "\<not> c \<le> 90" using u by (simp_all add: word_le_nat_alt)
    then show ?thesis using True by (simp add: upper_char lower_char)
  next
    case False
    then show ?thesis by (simp only: upper_char if_False)
  qed
  then show ?thesis by (simp add: lower_def upper_def)
qed

lemma upper_upper: "upper (upper cs) = upper cs"
proof -
  have "word_of_int (toupper (char_int (word_of_int (toupper (char_int c))))) = (word_of_int (toupper (char_int c)) :: u8)" for c
  proof (cases "97 \<le> c \<and> c \<le> 122")
    case True
    then have u: "97 \<le> unat c" "unat c \<le> 122" by (simp_all add: word_le_nat_alt)
    have "32 \<le> c" using u by (simp add: word_le_nat_alt)
    then have "unat (c - 32) = unat c - 32" by (simp add: unat_sub)
    then have "\<not> 97 \<le> c - 32" using u by (simp add: word_le_nat_alt)
    then show ?thesis using True by (simp add: upper_char)
  next
    case False
    then show ?thesis by (simp only: upper_char if_False)
  qed
  then show ?thesis by (simp add: upper_def)
qed

subsection \<open>Splitting a line\<close>

lemma copy_word_eq: "copy_word n cs = (take n (takeWhile (\<lambda>c. c \<noteq> 32) cs), drop (length (take n (takeWhile (\<lambda>c. c \<noteq> 32) cs))) cs)"
  by (induction n cs rule: copy_word.induct) auto

text \<open>The words of a line, and a word in pieces of \<open>n\<close> characters.\<close>

function words_of :: "u8 list \<Rightarrow> cstring list" where
  "words_of cs = (case skip_spaces cs of [] \<Rightarrow> [] | c # r \<Rightarrow> takeWhile (\<lambda>c. c \<noteq> 32) (c # r) # words_of (dropWhile (\<lambda>c. c \<noteq> 32) (c # r)))"
  by auto
termination
proof (relation "measure length")
  fix cs r :: "u8 list" and c :: u8
  assume h: "skip_spaces cs = c # r"
  then have "c \<noteq> 32" unfolding skip_spaces_def by (metis (full_types) hd_dropWhile list.distinct(1) list.sel(1))
  moreover have "length (c # r) \<le> length cs" using h length_dropWhile_le [of "\<lambda>c. c = 32" cs] by (simp add: skip_spaces_def)
  moreover have "length (dropWhile (\<lambda>c. c \<noteq> 32) r) \<le> length r" by (rule length_dropWhile_le)
  ultimately show "(dropWhile (\<lambda>c. c \<noteq> 32) (c # r), cs) \<in> measure length" by simp
qed simp

declare words_of.simps [simp del]

function chunks :: "nat \<Rightarrow> cstring \<Rightarrow> cstring list" where
  "chunks n w = (if w = [] \<or> n = 0 then [] else take n w # chunks n (drop n w))"
  by auto
termination by (relation "measure (length \<circ> snd)") auto

declare chunks.simps [simp del]

definition tokens :: "nat \<Rightarrow> cstring \<Rightarrow> cstring list" where
  "tokens n cs = concat (map (chunks n) (words_of cs))"

lemma skip_spaces_twice [simp]: "skip_spaces (skip_spaces cs) = skip_spaces cs"
  by (simp add: skip_spaces_def dropWhile_idem)

lemma words_of_skip [simp]: "words_of (skip_spaces cs) = words_of cs"
  by (subst (1 2) words_of.simps) simp

lemma tokens_skip [simp]: "tokens n (skip_spaces cs) = tokens n cs"
  by (simp add: tokens_def)

lemma skip_spaces_word: "cs \<noteq> [] \<Longrightarrow> hd cs \<noteq> 32 \<Longrightarrow> skip_spaces cs = cs"
  by (cases cs) (simp_all add: skip_spaces_def)

lemma takeWhile_dropWhile: "takeWhile P (dropWhile P xs) = []"
  by (induction xs) simp_all

lemma tokens_step:
  assumes n: "0 < n" and cs: "skip_spaces cs \<noteq> []"
  shows "tokens n cs = fst (copy_word n (skip_spaces cs)) # tokens n (snd (copy_word n (skip_spaces cs)))"
proof -
  let ?cs = "skip_spaces cs"
  let ?w = "takeWhile (\<lambda>c. c \<noteq> 32) ?cs"
  have h: "hd ?cs \<noteq> 32" using hd_dropWhile [of "\<lambda>c. c = 32" cs] cs by (simp add: skip_spaces_def)
  then have w: "?w \<noteq> []" using cs by (cases ?cs) auto
  have words: "words_of cs = ?w # words_of (dropWhile (\<lambda>c. c \<noteq> 32) ?cs)"
    using cs by (simp add: words_of.simps [of cs] split: list.split)
  have c: "chunks n ?w = take n ?w # chunks n (drop n ?w)" using w n by (subst chunks.simps) simp
  show ?thesis
  proof (cases "length ?w \<le> n")
    case True
    then have "drop (length (take n ?w)) ?cs = dropWhile (\<lambda>c. c \<noteq> 32) ?cs" by (simp add: dropWhile_eq_drop)
    moreover have "chunks n (drop n ?w) = []" using True by (subst chunks.simps) simp
    ultimately show ?thesis using c by (simp add: tokens_def words copy_word_eq)
  next
    case False
    then have l: "length (take n ?w) = n" by simp
    let ?r = "drop n ?cs"
    have dw: "takeWhile (\<lambda>c. c \<noteq> 32) ?r = drop n ?w" "dropWhile (\<lambda>c. c \<noteq> 32) ?r = dropWhile (\<lambda>c. c \<noteq> 32) ?cs"
    proof -
      have "drop n (?w @ dropWhile (\<lambda>c. c \<noteq> 32) ?cs) = drop n ?w @ dropWhile (\<lambda>c. c \<noteq> 32) ?cs" using False by (simp del: takeWhile_dropWhile_id)
      then have r: "?r = drop n ?w @ dropWhile (\<lambda>c. c \<noteq> 32) ?cs" unfolding takeWhile_dropWhile_id .
      have a: "\<forall>x \<in> set (drop n ?w). x \<noteq> 32" by (auto dest!: in_set_dropD set_takeWhileD)
      have "takeWhile (\<lambda>c. c \<noteq> 32) (drop n ?w @ dropWhile (\<lambda>c. c \<noteq> 32) ?cs) = drop n ?w @ takeWhile (\<lambda>c. c \<noteq> 32) (dropWhile (\<lambda>c. c \<noteq> 32) ?cs)"
        by (rule takeWhile_append2) (rule a [rule_format])
      then show "takeWhile (\<lambda>c. c \<noteq> 32) ?r = drop n ?w" unfolding r takeWhile_dropWhile append_Nil2 .
      have "dropWhile (\<lambda>c. c \<noteq> 32) (drop n ?w @ dropWhile (\<lambda>c. c \<noteq> 32) ?cs) = dropWhile (\<lambda>c. c \<noteq> 32) (dropWhile (\<lambda>c. c \<noteq> 32) ?cs)"
        by (rule dropWhile_append2) (rule a [rule_format])
      then show "dropWhile (\<lambda>c. c \<noteq> 32) ?r = dropWhile (\<lambda>c. c \<noteq> 32) ?cs" unfolding r dropWhile_idem .
    qed
    have ne: "drop n ?w \<noteq> []" using False by simp
    have "takeWhile (\<lambda>c. c \<noteq> 32) ?r \<noteq> []" unfolding dw(1) by (rule ne)
    then have "?r \<noteq> []" "hd ?r \<noteq> 32" by (auto simp: takeWhile_eq_Nil_iff)
    then have "skip_spaces ?r = ?r" by (rule skip_spaces_word)
    then have "words_of ?r = drop n ?w # words_of (dropWhile (\<lambda>c. c \<noteq> 32) ?cs)"
      unfolding words_of.simps [of ?r] dw(1) [symmetric] dw(2) [symmetric] using \<open>?r \<noteq> []\<close> by (simp split: list.split)
    then show ?thesis using c l by (simp add: tokens_def words copy_word_eq)
  qed
qed

lemma tokens_Nil: "skip_spaces cs = [] \<Longrightarrow> tokens n cs = []"
  by (simp add: tokens_def) (subst words_of.simps, simp)

lemma tokens_empty_iff: "0 < n \<Longrightarrow> tokens n cs = [] \<longleftrightarrow> skip_spaces cs = []"
  using tokens_Nil tokens_step by (metis list.distinct(1))

lemma split_args_eq:
  "0 < n \<Longrightarrow> split_args k (Suc n) (skip_spaces cs) ms =
     (let m = min k (length (tokens n cs)) in
      if list_all id (take m ms) then (Inr (take k (tokens n cs)), drop m ms)
      else (Inl (length (takeWhile id ms)), tl (dropWhile id ms)))"
proof (induction k arbitrary: cs ms)
  case (Suc k)
  show ?case
  proof (cases "skip_spaces cs = []")
    case True
    then show ?thesis by (simp add: tokens_Nil)
  next
    case False
    let ?w = "fst (copy_word n (skip_spaces cs))" and ?r = "snd (copy_word n (skip_spaces cs))"
    have t: "tokens n cs = ?w # tokens n ?r" using tokens_step [OF Suc.prems False] .
    show ?thesis
    proof (cases ms)
      case Nil
      then show ?thesis using Suc.IH [OF Suc.prems, of ?r "[]"] False t by (simp add: split_beta Let_def)
    next
      case (Cons b bs)
      then show ?thesis using Suc.IH [OF Suc.prems, of ?r bs] False t by (cases b) (simp_all add: split_beta Let_def)
    qed
  qed
qed simp

lemma split_input_eq:
  "split_input cs 64 10 ms =
     (case tokens 63 cs of
        [] \<Rightarrow> ([], Inr [], ms)
      | c # args \<Rightarrow>
          (c, if list_all id (take (min 10 (length args)) ms) then (Inr (take 10 args), drop (min 10 (length args)) ms)
              else (Inl (length (takeWhile id ms)), tl (dropWhile id ms))))"
proof (cases "skip_spaces cs = []")
  case True
  have "skip_spaces [] = []" by (simp add: skip_spaces_def)
  then show ?thesis using split_args_eq [of 63 10 "[]" ms] True by (simp add: split_input_def tokens_Nil copy_word_eq)
next
  case False
  let ?w = "fst (copy_word 63 (skip_spaces cs))" and ?r = "snd (copy_word 63 (skip_spaces cs))"
  have "tokens 63 cs = ?w # tokens 63 ?r" by (rule tokens_step [OF _ False]) simp
  moreover have "split_args 10 64 (skip_spaces ?r) ms =
      (if list_all id (take (min 10 (length (tokens 63 ?r))) ms) then (Inr (take 10 (tokens 63 ?r)), drop (min 10 (length (tokens 63 ?r))) ms)
       else (Inl (length (takeWhile id ms)), tl (dropWhile id ms)))"
    using split_args_eq [of 63 10 ?r ms] by (simp add: Let_def)
  ultimately show ?thesis by (simp add: split_input_def split_beta)
qed

subsection \<open>The table of commands\<close>

lemma run_table_eq:
  assumes "length (command_names s) = n" "j \<le> n"
  shows "run_table exec c args [j..<n] s =
    (case find (\<lambda>i. upper (command_names s ! i) = c) [j..<n] of
       Some i \<Rightarrow> exec i args (s\<lparr>command_names := take j (command_names s) @ map upper (drop j (take (Suc i) (command_names s))) @ drop (Suc i) (command_names s)\<rparr>)
     | None \<Rightarrow> Some (emit [Text ([10] @ lit ''Unknown command: '' @ c @ [10])] (s\<lparr>command_names := take j (command_names s) @ map upper (drop j (command_names s))\<rparr>)))"
  using assms
proof (induction "n - j" arbitrary: j s)
  case (Suc k)
  then have j: "j < n" "[j..<n] = j # [Suc j..<n]" by (simp_all add: upt_conv_Cons)
  let ?N = "command_names s"
  let ?s = "s\<lparr>command_names := ?N[j := upper (?N ! j)]\<rparr>"
  have u: "?N[j := upper (?N ! j)] = take j ?N @ upper (?N ! j) # drop (Suc j) ?N" using j Suc.prems by (simp add: upd_conv_take_nth_drop)
  have nj: "(take j ?N @ x # r) ! j = x" for x r using j Suc.prems by (simp add: nth_append)
  show ?case
  proof (cases "upper (?N ! j) = c")
    case True
    have "drop j (take (Suc j) ?N) = [?N ! j]" using j Suc.prems by (simp add: take_Suc_conv_app_nth)
    then show ?thesis using j True Suc.prems u by (simp add: Let_def nj)
  next
    case False
    have f: "find (\<lambda>i. upper (command_names ?s ! i) = c) [Suc j..<n] = find (\<lambda>i. upper (?N ! i) = c) [Suc j..<n]"
      by (rule find_cong) (simp_all add: nth_list_update)
    have t: "take (Suc j) (command_names ?s) = take j ?N @ [upper (?N ! j)]" using j Suc.prems by (simp add: u take_Suc_conv_app_nth)
    have d: "drop j (take (Suc i) ?N) = ?N ! j # drop (Suc j) (take (Suc i) ?N)" if "j < i" for i
      using that j Suc.prems by (simp add: Cons_nth_drop_Suc [symmetric])
    have e: "drop j ?N = ?N ! j # drop (Suc j) ?N" using j Suc.prems by (simp add: Cons_nth_drop_Suc)
    have i: "j < i" if "find (\<lambda>i. upper (?N ! i) = c) [Suc j..<n] = Some i" for i
      using that by (auto simp: find_Some_iff)
    have "run_table exec c args [Suc j..<n] ?s = (case find (\<lambda>i. upper (?N ! i) = c) [Suc j..<n] of
       Some i \<Rightarrow> exec i args (?s\<lparr>command_names := take (Suc j) (command_names ?s) @ map upper (drop (Suc j) (take (Suc i) (command_names ?s))) @ drop (Suc i) (command_names ?s)\<rparr>)
     | None \<Rightarrow> Some (emit [Text ([10] @ lit ''Unknown command: '' @ c @ [10])] (?s\<lparr>command_names := take (Suc j) (command_names ?s) @ map upper (drop (Suc j) (command_names ?s))\<rparr>)))"
      using Suc.hyps(1) [of "Suc j" ?s] Suc.hyps(2) Suc.prems j(1) unfolding f by auto
    moreover have "drop (Suc j) (take (Suc i) (command_names ?s)) = drop (Suc j) (take (Suc i) ?N)" "drop (Suc i) (command_names ?s) = drop (Suc i) ?N" if "j < i" for i
      using that by (simp_all add: drop_take)
    ultimately show ?thesis using j False Suc.prems t d i e by (auto simp: Let_def split: option.splits)
  qed
qed simp

lemma command_table_facts:
  "length command_table = 39" "distinct (map upper command_table)"
  "list_all (\<lambda>n. \<not> (drive_prefix (lower n) \<and> length n = 4) \<and> n \<noteq> [] \<and> length n \<le> 15) command_table"
  by code_simp+

lemma length_upper [simp]: "length (upper cs) = length cs" "length (lower cs) = length cs"
  by (simp_all add: upper_def lower_def)

lemma try_switch_command:
  assumes "i < length command_table" "upper c = upper (command_table ! i)"
  shows "try_switch_drive c s = (s, False)" "c \<noteq> []"
proof -
  have l: "lower c = lower (command_table ! i)" using assms(2) lower_upper by metis
  have n: "length c = length (command_table ! i)" using assms(2) length_upper(1) by metis
  have "\<not> (drive_prefix (lower (command_table ! i)) \<and> length (command_table ! i) = 4)" "command_table ! i \<noteq> []" "length (command_table ! i) \<le> 15"
    using command_table_facts(3) assms(1) by (auto simp: list_all_length)
  then show "try_switch_drive c s = (s, False)" "c \<noteq> []" using l n by (auto simp: try_switch_drive_def Let_def)
qed

definition sample_commands :: "unit shell" where
  "sample_commands = \<lparr>sh_kbd = undefined, sh_ata = \<lparr>hw = (), detected_drives = [], consecutive_read_failures = 0, first_read_attempted = (False, False)\<rparr>,
     sh_drive = None, current_path = lit ''/'', input = replicate 256 0, buffer_index = 0, cursor_pos = 0, history_buffer = replicate 50 [],
     history_count = 0, history_index = 0, history_current = None, command_names = command_table, sh_mallocs = [True, True, False], screen = []\<rparr>"

text \<open>
  C35. A command runs: the line is split at its blanks, a word of more than 63 characters in pieces, and whatever
  the case of the first word, the command of the table with this name gets the next ten words.
\<close>

theorem process_command_runs:
  assumes "tokens 63 cs = c # args" "list_all id (take (min 10 (length args)) (sh_mallocs s))"
    and names: "map upper (command_names s) = map upper command_table" and i: "i < length command_table" "upper c = upper (command_table ! i)"
  shows "\<exists>names. map upper names = map upper command_table \<and>
    process_command exec cs s = exec i (take 10 args) (s\<lparr>sh_mallocs := drop (min 10 (length args)) (sh_mallocs s), command_names := names\<rparr>)"
proof -
  let ?N = "command_names s" and ?s = "s\<lparr>sh_mallocs := drop (min 10 (length args)) (sh_mallocs s)\<rparr>"
  have n: "length ?N = length command_table" using names map_eq_imp_length_eq by blast
  have nth: "upper (?N ! j) = upper (command_table ! j)" if "j < length command_table" for j
    using arg_cong [OF names, of "\<lambda>l. l ! j"] that n by simp
  have uniq: "j = i" if "j < length command_table" "upper (?N ! j) = upper c" for j
    using command_table_facts(2) that nth [OF that(1)] i by (simp add: distinct_conv_nth) (metis nth_map)
  have "upper (?N ! j) \<noteq> upper c" if "j < i" for j using uniq [of j] that i(1) by (metis less_irrefl order.strict_trans)
  then have "find (\<lambda>j. upper (?N ! j) = upper c) [0..<length ?N] = Some i"
    unfolding find_Some_iff using i n nth [OF i(1)] by (intro exI [of _ i]) (auto dest: order.strict_trans)
  then have "run_table exec (upper c) (take 10 args) [0..<length ?N] ?s = exec i (take 10 args) (?s\<lparr>command_names := map upper (take (Suc i) ?N) @ drop (Suc i) ?N\<rparr>)"
    using run_table_eq [of ?s "length ?N" 0 exec "upper c" "take 10 args"] by simp
  then have "process_command exec cs s = exec i (take 10 args) (?s\<lparr>command_names := map upper (take (Suc i) ?N) @ drop (Suc i) ?N\<rparr>)"
    using assms(1,2) by (simp add: process_command_def split_input_eq try_switch_command [OF i])
  moreover have "map upper (map upper (take (Suc i) ?N) @ drop (Suc i) ?N) = map upper command_table"
  proof -
    have "map upper (map upper (take (Suc i) ?N) @ drop (Suc i) ?N) = map upper (take (Suc i) ?N @ drop (Suc i) ?N)"
      unfolding map_append map_map by (simp add: upper_upper comp_def)
    then show ?thesis using names by simp
  qed
  ultimately show ?thesis by blast
qed

theorem process_command_runs_witness:
  "\<exists>names. process_command (\<lambda>i args s. if i = 2 then Some (emit (map Text args) s) else None) (lit ''  EcHo one  two '') sample_commands
    = Some (emit (map Text [lit ''one'', lit ''two'']) (sample_commands\<lparr>sh_mallocs := [False], command_names := names\<rparr>))"
proof -
  have "tokens 63 (lit ''  EcHo one  two '') = lit ''EcHo'' # [lit ''one'', lit ''two'']" by code_simp
  moreover have "list_all id (take (min 10 (length [lit ''one'', lit ''two''])) (sh_mallocs sample_commands))" by (simp add: sample_commands_def)
  moreover have "map upper (command_names sample_commands) = map upper command_table" by (simp add: sample_commands_def)
  moreover have "2 < length command_table" "upper (lit ''EcHo'') = upper (command_table ! 2)" by code_simp+
  ultimately show ?thesis
    using process_command_runs [of "lit ''  EcHo one  two ''" "lit ''EcHo''" "[lit ''one'', lit ''two'']" sample_commands 2
        "\<lambda>i args s. if i = 2 then Some (emit (map Text args) s) else None"]
    by (auto simp: sample_commands_def)
qed

subsection \<open>The history\<close>

definition history_ok :: "'w shell \<Rightarrow> bool" where
  "history_ok s \<longleftrightarrow> length (history_buffer s) = HISTORY_SIZE \<and> history_index s < HISTORY_SIZE \<and> history_count s \<le> HISTORY_SIZE"

lemma mod50: "m < 100 \<Longrightarrow> m mod 50 = (if m < 50 then m else m - 50 :: nat)"
  by (simp add: mod_if)

text \<open>The slot of the command \<open>k\<close> steps back, and the list by steps back.\<close>

definition slot_back :: "'w shell \<Rightarrow> nat \<Rightarrow> nat" where
  "slot_back s k = (history_index s + 49 - k) mod HISTORY_SIZE"

lemma slot_back_eq:
  assumes "history_index s < 50" "k < 50"
  shows "slot_back s k = (if k < history_index s then history_index s - 1 - k else history_index s + 49 - k)"
proof (cases "k < history_index s")
  case True
  then have "history_index s + 49 - k = history_index s - 1 - k + 50" by simp
  then have "slot_back s k = (history_index s - 1 - k) mod 50" by (simp only: slot_back_def mod_add_self2)
  then show ?thesis using True assms(1) by simp
next
  case False
  then have "history_index s + 49 - k < 50" using assms by simp
  then show ?thesis using False by (simp add: slot_back_def)
qed

lemma history_list_back:
  assumes "history_ok s" "k < history_count s"
  shows "history_list s ! (history_count s - 1 - k) = history_buffer s ! slot_back s k"
proof -
  have h: "history_index s < 50" "history_count s \<le> 50" using assms(1) by (simp_all add: history_ok_def)
  have "((history_index s + 50 - history_count s) mod 50 + (history_count s - 1 - k)) mod 50 = (history_index s + 50 - history_count s + (history_count s - 1 - k)) mod 50"
    by (rule mod_add_left_eq)
  moreover have "history_index s + 50 - history_count s + (history_count s - 1 - k) = history_index s + 49 - k" using h assms(2) by simp
  ultimately show ?thesis using assms(2) by (simp add: history_list_def slot_back_def)
qed

lemma length_history_list [simp]: "length (history_list s) = history_count s"
  by (simp add: history_list_def)

lemma history_list_ext:
  assumes "length l = history_count s" "\<And>k. k < history_count s \<Longrightarrow> l ! (history_count s - 1 - k) = history_list s ! (history_count s - 1 - k)"
  shows "history_list s = l"
proof (rule nth_equalityI)
  fix i assume "i < length (history_list s)"
  then have i: "i < history_count s" by simp
  have "history_count s - 1 - (history_count s - 1 - i) = i" using i by simp
  then show "history_list s ! i = l ! i" using assms(2) [of "history_count s - 1 - i"] i by simp
qed (use assms in simp)

text \<open>
  The ring is the list of the last fifty commands: a command is appended unless it is empty or the last one again,
  and the oldest goes when there are fifty.
\<close>

lemma history_add_ok:
  assumes s: "history_ok s" and cmd: "length cmd \<le> 255"
  shows "history_ok (history_add cmd s)"
    "history_list (history_add cmd s) =
      (if cmd = [] \<or> history_list s \<noteq> [] \<and> last (history_list s) = cmd then history_list s
       else drop (length (history_list s) + 1 - HISTORY_SIZE) (history_list s) @ [cmd])"
proof -
  have h: "length (history_buffer s) = 50" "history_index s < 50" "history_count s \<le> 50" using s by (simp_all add: history_ok_def)
  have same: "history_list s \<noteq> [] \<and> last (history_list s) = cmd \<longleftrightarrow> history_count s > 0 \<and> history_buffer s ! ((history_index s + 50 - 1) mod 50) = cmd"
  proof (cases "history_count s > 0")
    case True
    then have "history_list s \<noteq> []" by (metis length_history_list length_greater_0_conv)
    moreover from this have "last (history_list s) = history_buffer s ! slot_back s 0"
      using history_list_back [OF s True] by (simp add: last_conv_nth)
    ultimately show ?thesis using True by (simp add: slot_back_def add.commute)
  qed (metis length_0_conv length_history_list not_gr_zero)
  show ok: "history_ok (history_add cmd s)" using h by (simp add: history_add_def history_ok_def)
  show "history_list (history_add cmd s) =
      (if cmd = [] \<or> history_list s \<noteq> [] \<and> last (history_list s) = cmd then history_list s
       else drop (length (history_list s) + 1 - HISTORY_SIZE) (history_list s) @ [cmd])"
  proof (cases "cmd = [] \<or> history_list s \<noteq> [] \<and> last (history_list s) = cmd")
    case True
    then have "history_add cmd s = s" using same by (auto simp: history_add_def)
    then show ?thesis using True by simp
  next
    case False
    let ?s = "history_add cmd s" and ?n = "history_count s"
    let ?l = "drop (?n + 1 - 50) (history_list s) @ [cmd]"
    have e: "history_buffer ?s = (history_buffer s)[history_index s := cmd]" "history_index ?s = (history_index s + 1) mod 50"
      "history_count ?s = min 50 (?n + 1)"
      using False same cmd h by (auto simp: history_add_def)
    have "history_list ?s = ?l"
    proof (rule history_list_ext)
      show "length ?l = history_count ?s" using h by (simp add: e(3) min_def)
      fix k assume k: "k < history_count ?s"
      show "?l ! (history_count ?s - 1 - k) = history_list ?s ! (history_count ?s - 1 - k)"
        unfolding history_list_back [OF ok k]
      proof (cases k)
        case 0
        have "slot_back ?s 0 = history_index s" using h by (simp add: slot_back_def e(2) mod50)
        moreover have "?l ! (history_count ?s - 1) = cmd" using h by (simp add: e(3) nth_append min_def)
        ultimately show "?l ! (history_count ?s - 1 - k) = history_buffer ?s ! slot_back ?s k" using 0 h by (simp add: e(1))
      next
        case (Suc j)
        have j: "j < ?n" "j < 49" using k Suc h by (simp_all add: e(3))
        have "slot_back ?s k = slot_back s j" using h j e(2) by (cases "history_index s = 49") (simp_all add: Suc slot_back_eq add.commute)
        moreover have "slot_back s j \<noteq> history_index s" using h(2) j(2) by (auto simp: slot_back_eq)
        ultimately have "history_buffer ?s ! slot_back ?s k = history_list s ! (?n - 1 - j)"
          using history_list_back [OF s j(1)] by (simp add: e(1))
        moreover have "?l ! (history_count ?s - 1 - k) = history_list s ! (?n - 1 - j)"
          using Suc j h by (auto simp: e(3) nth_append min_def)
        ultimately show "?l ! (history_count ?s - 1 - k) = history_buffer ?s ! slot_back ?s k" by simp
      qed
    qed
    then show ?thesis unfolding if_not_P [OF False] by simp
  qed
qed

text \<open>Browsing: \<open>pos\<close> is how many steps back the line shown is, \<open>None\<close> the line being edited.\<close>

definition browsing :: "nat option \<Rightarrow> 'w shell \<Rightarrow> bool" where
  "browsing pos s \<longleftrightarrow> history_ok s \<and> history_current s = map_option (slot_back s) pos \<and> (\<forall>k. pos = Some k \<longrightarrow> k < history_count s)"

definition steps_back :: "'w shell \<Rightarrow> nat \<Rightarrow> cstring" where
  "steps_back s k = rev (history_list s) ! k"

lemma steps_back_eq: "history_ok s \<Longrightarrow> k < history_count s \<Longrightarrow> steps_back s k = history_buffer s ! slot_back s k"
  using history_list_back [of s k] by (simp add: steps_back_def rev_nth)

lemma slot_back_inj: "history_index s < 50 \<Longrightarrow> j < 50 \<Longrightarrow> k < 50 \<Longrightarrow> slot_back s j = slot_back s k \<longleftrightarrow> j = k"
  by (auto simp: slot_back_eq split: if_splits)

text \<open>
  The keys for up and down walk through the commands from the newest to the oldest and back: each step up shows the
  command before, none before the oldest; a step down from the newest leaves an empty line.
\<close>

lemma history_get_prev_eq:
  assumes "browsing pos s" "k = (case pos of None \<Rightarrow> 0 | Some j \<Rightarrow> Suc j)"
  shows "history_get_prev s =
    (if k < history_count s then (s\<lparr>history_current := Some (slot_back s k)\<rparr>, Some (steps_back s k)) else (s, None))"
proof -
  have h: "history_ok s" "history_index s < 50" "history_count s \<le> 50" using assms(1) by (simp_all add: browsing_def history_ok_def)
  show ?thesis
  proof (cases pos)
    case None
    then have "(history_index s + 50 - 1) mod 50 = slot_back s k" using assms(2) by (simp add: slot_back_def add.commute)
    then show ?thesis using None assms steps_back_eq [OF h(1), of k] by (auto simp: history_get_prev_def browsing_def Let_def)
  next
    case (Some j)
    then have j: "j < history_count s" "history_current s = Some (slot_back s j)" "k = Suc j" using assms by (simp_all add: browsing_def)
    have "(history_index s + 50 - history_count s) mod 50 = slot_back s (history_count s - 1)" using j(1) h(3) by (simp add: slot_back_def add.commute)
    then have o: "slot_back s j = (history_index s + 50 - history_count s) mod 50 \<longleftrightarrow> j = history_count s - 1"
      using slot_back_inj [OF h(2), of j "history_count s - 1"] j(1) h(3) by simp
    have "(slot_back s j + 50 - 1) mod 50 = slot_back s (Suc j)" if "Suc j < history_count s"
      using that h slot_back_eq [OF h(2), of j] slot_back_eq [OF h(2), of "Suc j"] by (auto simp: mod50)
    then show ?thesis using o j steps_back_eq [OF h(1), of k] by (auto simp: history_get_prev_def Let_def)
  qed
qed

lemma history_get_next_eq:
  assumes "browsing pos s"
  shows "history_get_next s =
    (case pos of
       None \<Rightarrow> (s, None)
     | Some 0 \<Rightarrow> (s\<lparr>history_current := None\<rparr>, Some [])
     | Some (Suc k) \<Rightarrow> (s\<lparr>history_current := Some (slot_back s k)\<rparr>, Some (steps_back s k)))"
proof -
  have h: "history_ok s" "history_index s < 50" "history_count s \<le> 50" using assms by (simp_all add: browsing_def history_ok_def)
  show ?thesis
  proof (cases pos)
    case None
    then show ?thesis using assms by (simp add: history_get_next_def browsing_def)
  next
    case (Some j)
    then have j: "j < history_count s" "history_current s = Some (slot_back s j)" using assms by (simp_all add: browsing_def)
    have "(history_index s + 50 - 1) mod 50 = slot_back s 0" by (simp add: slot_back_def add.commute)
    then have n: "slot_back s j = (history_index s + 50 - 1) mod 50 \<longleftrightarrow> j = 0" using slot_back_inj [OF h(2), of j 0] j(1) h(3) by simp
    show ?thesis
    proof (cases j)
      case 0
      then show ?thesis using Some j n by (simp add: history_get_next_def)
    next
      case (Suc k)
      then have "(slot_back s j + 1) mod 50 = slot_back s k"
        using j h slot_back_eq [OF h(2), of j] slot_back_eq [OF h(2), of k] by (auto simp: mod50)
      then show ?thesis using Some Suc j n steps_back_eq [OF h(1), of k] by (simp add: history_get_next_def Let_def)
    qed
  qed
qed

lemma browsing_at:
  assumes "history_ok s" "k < history_count s"
  shows "browsing (Some k) (s\<lparr>history_current := Some (slot_back s k)\<rparr>)" "browsing None (s\<lparr>history_current := None\<rparr>)"
  using assms by (simp_all add: browsing_def slot_back_def history_ok_def)

end
