(* ===== verification/Shell_Correct.thy ===== *)
theory Shell_Correct
  imports Shell_Commands
begin

text \<open>
  The line editor of the shell: with the keys that its documentation lists and that reach it, it is an
  editor of a text with a cursor, and Enter runs that text. The arrow keys, Home, End and Delete do not
  reach it. What is written to the screen is recorded and not interpreted here.
\<close>

subsection \<open>The line\<close>

definition line :: "'w shell \<Rightarrow> cstring" where
  "line s = take (buffer_index s) (input s)"

definition printable :: "u8 \<Rightarrow> bool" where
  "printable c \<longleftrightarrow> 32 \<le> c \<and> c < 127"

definition editor_ok :: "'w shell \<Rightarrow> bool" where
  "editor_ok s \<longleftrightarrow> length (input s) = 256 \<and> cursor_pos s \<le> buffer_index s \<and> buffer_index s \<le> 255
     \<and> input s ! buffer_index s = 0 \<and> (\<forall>c \<in> set (line s). printable c)"

definition prompt :: "'w shell \<Rightarrow> cstring" where
  "prompt s = (case prompt_name s of None \<Rightarrow> [] | Some n \<Rightarrow> n @ lit ''> '')"

subsection \<open>Moving the characters of the buffer\<close>

lemma move_down_nth:
  "a \<le> b \<Longrightarrow> b < length buf \<Longrightarrow> length (move_down a b buf) = length buf \<and> (\<forall>j < length buf. move_down a b buf ! j = buf ! (if a \<le> j \<and> j < b then j + 1 else j))"
proof (induction b)
  case (Suc b)
  show ?case
  proof (cases "a = Suc b")
    case False
    then have "move_down a (Suc b) buf = (move_down a b buf)[b := move_down a b buf ! (b + 1)]" using Suc.prems by (simp add: move_down_def)
    then show ?thesis using Suc False by (auto simp: nth_list_update less_Suc_eq)
  qed (auto simp: move_down_def)
qed (simp add: move_down_def)

lemma move_up_nth:
  "a \<le> b \<Longrightarrow> b < length buf \<Longrightarrow> length (move_up a b buf) = length buf \<and> (\<forall>j < length buf. move_up a b buf ! j = buf ! (if a < j \<and> j \<le> b then j - 1 else j))"
proof (induction "b - a" arbitrary: a)
  case (Suc k)
  then have "a < b" by simp
  then have "move_up a b buf = (move_up (Suc a) b buf)[a + 1 := move_up (Suc a) b buf ! a]" by (simp add: move_up_def upt_conv_Cons)
  moreover have "length (move_up (Suc a) b buf) = length buf \<and> (\<forall>j < length buf. move_up (Suc a) b buf ! j = buf ! (if Suc a < j \<and> j \<le> b then j - 1 else j))"
    using Suc by (intro Suc.hyps(1)) auto
  ultimately show ?case using Suc.prems Suc.hyps(2) by (auto simp: nth_list_update)
qed (auto simp: move_up_def)

subsection \<open>Characters\<close>

lemma printable_iff: "printable c \<longleftrightarrow> 32 \<le> char_int c \<and> char_int c < 127"
  using uint_lt_256 [of c] by (auto simp: printable_def char_int_uint word_le_def word_less_def)

lemma control_iff: "char_int c < 32 \<longleftrightarrow> c < 32 \<or> 128 \<le> c"
  using uint_lt_256 [of c] by (auto simp: char_int_uint word_le_def word_less_def)

subsection \<open>The editor\<close>

definition edit_key :: "u8 \<Rightarrow> cstring \<times> nat \<Rightarrow> cstring \<times> nat" where
  "edit_key ch e = (case e of (t, c) \<Rightarrow>
     if ch = 8 then (if c > 0 then (take (c - 1) t @ drop c t, c - 1) else (t, c))
     else if ch = 0x03 \<or> ch = 0x15 then ([], 0)
     else if ch = 0x0B then (take c t, c)
     else if printable ch \<and> length t < 255 then (take c t @ ch # drop c t, c + 1)
     else (t, c))"

definition editor :: "'w shell \<Rightarrow> cstring \<times> nat" where
  "editor s = (line s, cursor_pos s)"

lemma length_line: "editor_ok s \<Longrightarrow> length (line s) = buffer_index s"
  by (simp add: line_def editor_ok_def)

lemma shown_line: "editor_ok s \<Longrightarrow> shown i s = map Putc (drop i (line s))"
  by (rule nth_equalityI) (auto simp: shown_def line_def editor_ok_def)

lemma line_no_newline: "editor_ok s \<Longrightarrow> 10 \<notin> set (line s)"
  by (auto simp: editor_ok_def printable_def)


lemma emit_simps [simp]:
  "input (emit ops s) = input s" "buffer_index (emit ops s) = buffer_index s" "cursor_pos (emit ops s) = cursor_pos s"
  "screen (emit ops s) = screen s @ ops" "line (emit ops s) = line s" "editor_ok (emit ops s) = editor_ok s"
  "prompt_name (emit ops s) = prompt_name s" "prompt (emit ops s) = prompt s" "editor (emit ops s) = editor s"
  by (simp_all add: emit_def line_def editor_ok_def prompt_name_def prompt_def editor_def split: option.split)

lemma run_prompt: "prompt_name s = Some n \<Longrightarrow> show_prompt s = Some (emit [Text (prompt s)] s)"
  by (subst show_prompt.simps) (simp add: prompt_def)

lemma show_prompt_diverges: "prompt_name s = None \<Longrightarrow> show_prompt s = None"
proof (rule ccontr)
  assume n: "prompt_name s = None" and "show_prompt s \<noteq> None"
  then obtain s' where s': "show_prompt s = Some s'" by auto
  have "prompt_name s \<noteq> None" by (rule show_prompt.raw_induct [of "\<lambda>s _. prompt_name s \<noteq> None", OF _ s']) (fastforce split: option.splits)
  then show False using n by simp
qed

lemma add_char_ok:
  assumes s: "editor_ok s" and n: "buffer_index s < 255" and ch: "printable ch"
  shows "line (add_char ch s) = take (cursor_pos s) (line s) @ ch # drop (cursor_pos s) (line s)"
    and "editor_ok (add_char ch s)" "input (add_char ch s) ! cursor_pos s = ch"
proof -
  let ?c = "cursor_pos s" and ?n = "buffer_index s" and ?t = "take (cursor_pos s) (line s) @ ch # drop (cursor_pos s) (line s)"
  let ?buf = "(move_up ?c ?n (input s))[?c := ch, Suc ?n := 0]"
  have c: "?c \<le> ?n" "length (input s) = 256" using s by (simp_all add: editor_ok_def)
  have m: "length (move_up ?c ?n (input s)) = 256 \<and> (\<forall>j < 256. move_up ?c ?n (input s) ! j = input s ! (if ?c < j \<and> j \<le> ?n then j - 1 else j))"
    using move_up_nth [of ?c ?n "input s"] c n by simp
  have "take (Suc ?n) ?buf = ?t"
    by (rule nth_equalityI) (use m c n in \<open>auto simp: line_def nth_append nth_Cons' nth_list_update\<close>)
  then show l: "line (add_char ch s) = ?t" by (simp add: line_def add_char_def)
  have b: "length ?buf = 256" "?buf ! Suc ?n = 0" "?buf ! ?c = ch" using m c n by simp_all
  then show "input (add_char ch s) ! ?c = ch" by (simp add: add_char_def)
  have "\<forall>x \<in> set ?t. printable x" using s ch by (auto simp: editor_ok_def dest: in_set_takeD in_set_dropD)
  then show "editor_ok (add_char ch s)" unfolding editor_ok_def l using b n c by (simp add: add_char_def)
qed

lemma add_char_simps [simp]:
  "cursor_pos (add_char ch s) = cursor_pos s + 1" "buffer_index (add_char ch s) = buffer_index s + 1" "screen (add_char ch s) = screen s"
  "prompt_name (add_char ch s) = prompt_name s" "prompt (add_char ch s) = prompt s"
  by (simp_all add: add_char_def prompt_def prompt_name_def split: option.split)

lemma insert_ok:
  assumes s: "editor_ok s" and n: "buffer_index s < 255" and ch: "printable ch"
  shows "editor (insert_at_cursor ch s) = (take (cursor_pos s) (line s) @ ch # drop (cursor_pos s) (line s), cursor_pos s + 1)"
    and "editor_ok (insert_at_cursor ch s)"
  using add_char_ok [OF s n ch] n by (simp_all add: insert_at_cursor_def Let_def editor_def)

text \<open>The line without the character at a position, which both ways to delete leave.\<close>

lemma take_delete:
  assumes "length buf = 256" "c < n" "n \<le> 255" "\<forall>j < 256. b ! j = buf ! (if c \<le> j \<and> j < m then j + 1 else j)" "length b = 256" "n - 1 \<le> m"
  shows "take (n - 1) (b[n - 1 := 0]) = take c (take n buf) @ drop (c + 1) (take n buf)"
  by (rule nth_equalityI) (use assms in \<open>auto simp: nth_append\<close>)

lemma remove_char_ok:
  assumes s: "editor_ok s" and c: "c < buffer_index s" and m: "m = buffer_index s \<or> m = buffer_index s - 1"
  shows "line (remove_char c m s) = take c (line s) @ drop (c + 1) (line s)" "editor_ok (remove_char c m s)"
proof -
  let ?n = "buffer_index s" and ?s = "remove_char c m s"
  have n: "length (input s) = 256" "?n \<le> 255" using s by (simp_all add: editor_ok_def)
  have d: "length (move_down c m (input s)) = 256" "\<forall>j < 256. move_down c m (input s) ! j = input s ! (if c \<le> j \<and> j < m then j + 1 else j)"
    using move_down_nth [of c m "input s"] n c m by auto
  have "?n - 1 \<le> m" using m by auto
  from take_delete [OF n(1) c n(2) d(2,1) this] show l: "line ?s = take c (line s) @ drop (c + 1) (line s)"
    by (simp add: remove_char_def line_def)
  have "\<forall>x \<in> set (take c (line s) @ drop (c + 1) (line s)). printable x" using s by (auto simp: editor_ok_def dest: in_set_takeD in_set_dropD)
  moreover have "length (input ?s) = 256" "input ?s ! buffer_index ?s = 0" using d(1) n c by (simp_all add: remove_char_def)
  moreover have "c \<le> ?n - 1" "?n - 1 \<le> 255" using c n by linarith+
  ultimately show "editor_ok ?s" unfolding editor_ok_def l by (simp add: remove_char_def)
qed

lemma remove_char_simps [simp]:
  "cursor_pos (remove_char c m s) = c" "buffer_index (remove_char c m s) = buffer_index s - 1" "screen (remove_char c m s) = screen s"
  "prompt_name (remove_char c m s) = prompt_name s" "prompt (remove_char c m s) = prompt s"
  by (simp_all add: remove_char_def prompt_def prompt_name_def split: option.split)

lemma backspace_ok:
  assumes s: "editor_ok s" and c: "cursor_pos s > 0"
  shows "editor (delete_before_cursor s) = (take (cursor_pos s - 1) (line s) @ drop (cursor_pos s) (line s), cursor_pos s - 1)"
    and "editor_ok (delete_before_cursor s)"
proof -
  have "cursor_pos s \<le> buffer_index s" using s by (simp add: editor_ok_def)
  then have "cursor_pos s - 1 < buffer_index s" using c by linarith
  from remove_char_ok [OF s this, of "buffer_index s"] c
  show "editor (delete_before_cursor s) = (take (cursor_pos s - 1) (line s) @ drop (cursor_pos s) (line s), cursor_pos s - 1)"
      "editor_ok (delete_before_cursor s)"
    by (simp_all add: delete_before_cursor_def Let_def editor_def)
qed

lemma delete_key_ok:
  assumes s: "editor_ok s" and c: "cursor_pos s < buffer_index s"
  shows "editor (delete_at_cursor s) = (take (cursor_pos s) (line s) @ drop (cursor_pos s + 1) (line s), cursor_pos s)"
    and "editor_ok (delete_at_cursor s)"
  using remove_char_ok [OF s c, of "buffer_index s - 1"] c by (simp_all add: delete_at_cursor_def Let_def editor_def)

subsection \<open>Keys\<close>

text \<open>The shell is ready for a key: there is a drive with a name for the prompt.\<close>

definition shell_ok :: "'w shell \<Rightarrow> bool" where
  "shell_ok s \<longleftrightarrow> editor_ok s \<and> prompt_name s \<noteq> None"

lemma clear_input_simps [simp]:
  "line (clear_input s) = []" "cursor_pos (clear_input s) = 0" "buffer_index (clear_input s) = 0" "screen (clear_input s) = screen s"
  "prompt_name (clear_input s) = prompt_name s" "prompt (clear_input s) = prompt s"
  "length (input s) = 256 \<Longrightarrow> editor_ok (clear_input s)"
  by (simp_all add: clear_input_def line_def prompt_name_def prompt_def editor_ok_def split: option.split)

lemma history_reset_simps [simp]:
  "line (history_reset s) = line s" "cursor_pos (history_reset s) = cursor_pos s" "screen (history_reset s) = screen s"
  "prompt_name (history_reset s) = prompt_name s" "prompt (history_reset s) = prompt s" "editor_ok (history_reset s) = editor_ok s"
  by (simp_all add: history_reset_def line_def prompt_name_def prompt_def editor_ok_def split: option.split)

lemma ctrl_key_ok:
  assumes s: "shell_ok s" and ch: "ch \<noteq> 8" "ch \<noteq> 10" "\<not> printable ch"
  shows "\<exists>s' b. handle_ctrl_key ch s = Some (s', b) \<and> shell_ok s' \<and> editor s' = edit_key ch (editor s) \<and> prompt_name s' = prompt_name s"
proof -
  have ok: "editor_ok s" "length (input s) = 256" using s by (simp_all add: shell_ok_def editor_ok_def)
  obtain n where n: "prompt_name s = Some n" using s by (auto simp: shell_ok_def)
  consider "ch = 0x03" | "ch = 0x04" "buffer_index s = 0" | "ch = 0x0C" | "ch = 0x15" | "ch = 0x0B"
    | "ch \<noteq> 0x03" "ch \<noteq> 0x0C" "ch \<noteq> 0x15" "ch \<noteq> 0x0B" "ch \<noteq> 0x04 \<or> buffer_index s \<noteq> 0" by blast
  then show ?thesis
  proof cases
    case 1
    then show ?thesis using ok n by (simp add: handle_ctrl_key_def edit_key_def run_prompt shell_ok_def editor_def ex_bool_eq)
  next
    case 2
    then show ?thesis using ok n ch by (simp add: handle_ctrl_key_def edit_key_def run_prompt shell_ok_def editor_def ex_bool_eq)
  next
    case 3
    then show ?thesis using ok n ch by (simp add: handle_ctrl_key_def edit_key_def run_prompt shell_ok_def editor_def ex_bool_eq)
  next
    case 4
    then show ?thesis using ok n by (simp add: handle_ctrl_key_def edit_key_def run_prompt shell_ok_def editor_def ex_bool_eq)
  next
    case 5
    let ?c = "cursor_pos s"
    let ?s = "s\<lparr>input := (input s)[?c := 0], buffer_index := ?c\<rparr>"
    have c: "?c \<le> buffer_index s" "buffer_index s \<le> 255" using ok(1) by (simp_all add: editor_ok_def)
    have l: "line ?s = take ?c (line s)" using c by (simp add: line_def min_absorb1)
    have p: "prompt_name ?s = prompt_name s" by (simp add: prompt_name_def split: option.split)
    have "\<forall>x \<in> set (line ?s). printable x" unfolding l using ok(1) by (auto simp: editor_ok_def dest: in_set_takeD)
    then have "editor_ok ?s" unfolding editor_ok_def using ok(2) c by simp
    then show ?thesis using 5 s l p by (simp add: handle_ctrl_key_def edit_key_def shell_ok_def editor_def ex_bool_eq)
  next
    case 6
    then show ?thesis using s ch by (auto simp: handle_ctrl_key_def edit_key_def editor_def)
  qed
qed

lemma handle_char_ok:
  assumes s: "shell_ok s" and ch: "ch \<noteq> 10"
  shows "\<exists>s'. handle_char exec ch s = Some s' \<and> shell_ok s' \<and> editor s' = edit_key ch (editor s) \<and> prompt_name s' = prompt_name s"
proof -
  have ok: "editor_ok s" "prompt_name s \<noteq> None" using s by (simp_all add: shell_ok_def)
  have del: "ch = 127" if "\<not> char_int ch < 32" "\<not> printable ch"
  proof -
    have "char_int ch = 127" using that char_int_range [of ch] by (simp add: printable_iff)
    then have "char_int ch = char_int 127" by (simp add: char_int_uint)
    then show ?thesis by simp
  qed
  consider "ch = 8" | "printable ch" "ch \<noteq> 8" | "\<not> printable ch" "ch = 0 \<or> ch = 9 \<or> ch = 127" | "\<not> printable ch" "char_int ch < 32" "ch \<noteq> 0" "ch \<noteq> 9" "ch \<noteq> 8"
    using del by blast
  then show ?thesis
  proof cases
    case 1
    show ?thesis
    proof (cases "cursor_pos s > 0")
      case True
      have "prompt_name (delete_before_cursor s) = prompt_name s" "prompt (delete_before_cursor s) = prompt s"
        by (simp_all add: delete_before_cursor_def Let_def)
      then show ?thesis using 1 True ok backspace_ok [OF ok(1) True] by (simp add: handle_char_def edit_key_def editor_def shell_ok_def)
    next
      case False
      then show ?thesis using 1 s by (simp add: handle_char_def edit_key_def editor_def delete_before_cursor_def)
    qed
  next
    case 2
    then have k: "\<not> char_int ch < 32" "32 \<le> char_int ch" "char_int ch < 127" "ch \<noteq> 0" "ch \<noteq> 9" "ch \<noteq> 3" "ch \<noteq> 21" "ch \<noteq> 11"
      by (auto simp: printable_iff char_int_uint)
    have e: "handle_char exec ch s = Some (insert_at_cursor ch s)" using k 2 ch by (simp add: handle_char_def)
    show ?thesis
    proof (cases "buffer_index s < 255")
      case True
      have "prompt_name (insert_at_cursor ch s) = prompt_name s" "prompt (insert_at_cursor ch s) = prompt s"
        by (simp_all add: insert_at_cursor_def Let_def)
      then show ?thesis unfolding e using 2 k True ok insert_ok [OF ok(1) True 2(1)] length_line [OF ok(1)]
        by (simp add: edit_key_def editor_def shell_ok_def)
    next
      case False
      then show ?thesis unfolding e using 2 k s length_line [OF ok(1)] by (simp add: edit_key_def editor_def insert_at_cursor_def)
    qed
  next
    case 3
    then have "handle_char exec ch s = Some s" by (auto simp: handle_char_def char_int_uint)
    moreover have "edit_key ch (editor s) = editor s" using 3 by (auto simp: edit_key_def editor_def)
    ultimately show ?thesis using s by simp
  next
    case 4
    from ctrl_key_ok [OF s 4(5) ch 4(1)] obtain s' b where "handle_ctrl_key ch s = Some (s', b)" "shell_ok s'" "editor s' = edit_key ch (editor s)" "prompt_name s' = prompt_name s" by blast
    then show ?thesis using 4 ch by (simp add: handle_char_def)
  qed
qed

text \<open>A list of characters, one after the other.\<close>

fun handle_chars :: "'w command \<Rightarrow> u8 list \<Rightarrow> 'w shell \<Rightarrow> 'w shell option" where
  "handle_chars exec [] s = Some s"
| "handle_chars exec (ch # chs) s = Option.bind (handle_char exec ch s) (handle_chars exec chs)"

lemma handle_chars_ok:
  "shell_ok s \<Longrightarrow> 10 \<notin> set chs \<Longrightarrow>
   \<exists>s'. handle_chars exec chs s = Some s' \<and> shell_ok s' \<and> editor s' = fold edit_key chs (editor s) \<and> prompt_name s' = prompt_name s"
proof (induction chs arbitrary: s)
  case (Cons ch chs)
  from handle_char_ok [OF Cons.prems(1), of ch exec] Cons.prems(2) obtain s1 where
    s1: "handle_char exec ch s = Some s1" "shell_ok s1" "editor s1 = edit_key ch (editor s)" "prompt_name s1 = prompt_name s" by auto
  have "10 \<notin> set chs" using Cons.prems(2) by simp
  from Cons.IH [OF s1(2) this] s1 show ?case by auto
qed simp


text \<open>
  The keys of an escape sequence, for which \<^verbatim>\<open>handle_escape_sequence\<close> is written. The loop calls it for a
  character that is 0, which it has excluded before; an arrow key, which the keyboard sends as ESC, [ and a code,
  is typed into the line as two characters.
\<close>

definition escape_key :: "u8 \<Rightarrow> cstring \<times> nat \<Rightarrow> cstring \<times> nat" where
  "escape_key key e = (case e of (t, c) \<Rightarrow>
     if key = KEY_LEFT then (t, c - 1)
     else if key = KEY_RIGHT then (t, min (c + 1) (length t))
     else if key = KEY_HOME then (t, 0)
     else if key = KEY_END then (t, length t)
     else if key = KEY_DELETE then (take c t @ drop (c + 1) t, c)
     else (t, c))"

lemma move_ok:
  assumes "editor_ok s" "c \<le> buffer_index s"
  shows "editor_ok (s\<lparr>cursor_pos := c\<rparr>)" "line (s\<lparr>cursor_pos := c\<rparr>) = line s" "prompt_name (s\<lparr>cursor_pos := c\<rparr>) = prompt_name s"
  using assms by (simp_all add: line_def prompt_name_def editor_ok_def split: option.split)

lemma escape_ok:
  assumes s: "shell_ok s" and q: "input_queue_pop (sh_kbd s) = Some (k1, 91)" "input_queue_pop k1 = Some (k2, key)"
    and key: "key \<in> {KEY_LEFT, KEY_RIGHT, KEY_HOME, KEY_END, KEY_DELETE}"
  shows "\<exists>s'. handle_escape_sequence s = Some (s', True) \<and> shell_ok s' \<and> editor s' = escape_key key (editor s)"
proof -
  let ?s = "s\<lparr>sh_kbd := k2\<rparr>"
  have f: "editor ?s = editor s" "line ?s = line s" "prompt_name ?s = prompt_name s" "editor_ok ?s = editor_ok s"
    by (simp_all add: editor_def line_def prompt_name_def editor_ok_def split: option.split)
  have ok: "editor_ok ?s" "prompt_name ?s \<noteq> None" "cursor_pos s \<le> buffer_index s" using s f by (simp_all add: shell_ok_def editor_ok_def)
  have n: "length (line s) = buffer_index s" using length_line [OF ok(1)] f by simp
  consider "key = KEY_LEFT" "cursor_pos s > 0" | "key = KEY_LEFT" "cursor_pos s = 0" | "key = KEY_RIGHT" "cursor_pos s < buffer_index s"
    | "key = KEY_RIGHT" "cursor_pos s = buffer_index s" | "key = KEY_HOME" | "key = KEY_END"
    | "key = KEY_DELETE" "cursor_pos s < buffer_index s" | "key = KEY_DELETE" "cursor_pos s = buffer_index s"
    using key ok(3) by force
  then show ?thesis
  proof cases
    case 7
    then have d: "cursor_pos ?s < buffer_index ?s" by simp
    have "prompt_name (delete_at_cursor ?s) = prompt_name ?s" by (simp add: delete_at_cursor_def Let_def)
    then show ?thesis using 7 q ok f delete_key_ok [OF ok(1) d] by (auto simp: handle_escape_sequence_def shell_ok_def escape_key_def editor_def)
  qed (use q ok f n move_ok [OF ok(1)] in \<open>auto simp: handle_escape_sequence_def shell_ok_def escape_key_def editor_def delete_at_cursor_def max_absorb2\<close>)
qed

lemma arrow_keys_type_text:
  assumes "shell_ok s" "length (line s) < 254"
  shows "\<exists>s1. handle_chars exec [27, 91, KEY_UP] s = Some s1
    \<and> line s1 = take (cursor_pos s) (line s) @ [91, KEY_UP] @ drop (cursor_pos s) (line s)"
proof -
  have c: "cursor_pos s \<le> length (line s)" using assms(1) length_line [of s] by (simp add: shell_ok_def editor_ok_def)
  have "fold edit_key [27, 91, KEY_UP] (editor s) = (take (cursor_pos s) (line s) @ [91, KEY_UP] @ drop (cursor_pos s) (line s), cursor_pos s + 2)"
    using assms(2) c by (simp add: edit_key_def editor_def printable_def min_def)
  then show ?thesis using handle_chars_ok [OF assms(1), of "[27, 91, KEY_UP]" exec] by (auto simp: editor_def)
qed








end
