(* ===== verification/Spec2Isabelle.thy ===== *)
theory Spec2Isabelle
  imports Libc_Format Kmalloc_Safety Paging Program Syscall Keyboard Netstack_Correct Fat32_Typed Fat32_Vfs Fat12_Vfs Ext2_Vfs
    Fdd Ata_Detect Automount Clock Ne2000_Correct Console_Correct Multiboot Shell_Correct
begin

text \<open>
  A model of the x86 microkernel and the theorems that make its parts correct.

  \<^bold>\<open>The program.\<close> A 32-bit kernel for one processor: a C library (\<^verbatim>\<open>lib/libc\<close>), a heap and frame
  allocator (\<^verbatim>\<open>mm/kmalloc.c\<close>), paging (\<^verbatim>\<open>arch/x86/mm/paging.c\<close>), a round robin scheduler driven
  by the timer interrupt (\<^verbatim>\<open>kernel/sched\<close>), processes and program loading (\<^verbatim>\<open>kernel/proc\<close>), system calls
  (\<^verbatim>\<open>kernel/syscall\<close>), a keyboard driver (\<^verbatim>\<open>drivers/char/kb.c\<close>), a network stack
  (\<^verbatim>\<open>drivers/net/netstack.c\<close>) and file systems (\<^verbatim>\<open>fs\<close>). Processes get their stacks from the
  heap and their tasks from the scheduler; the allocation wrappers of the C library go through the
  system calls to the heap; file systems and network stack use the string and memory routines.

  \<^bold>\<open>Modelling.\<close> Integers have their width: \<open>u8\<close>, \<open>u16\<close>, \<open>u32\<close>, \<open>u64\<close> are words and arithmetic
  wraps as in C; \<open>int\<close> values that cannot overflow are integers. Memory is a function from 32-bit
  addresses to bytes; structures that the kernel reaches through typed pointers (block headers, page
  tables, tasks) are records in a table of their own. Global variables of a file are the fields of a
  record that is passed through its functions. Errors are values: \<open>None\<close> is NULL or a failed search
  where a function returns a pointer, and it is a loop that does not end, or behaviour outside C,
  where the model returns a state; the text of each theory says which. Loops are structural
  recursion where they run over a range, \<open>function\<close> with a measure where they consume their input,
  and \<open>partial_function (option)\<close> where they follow pointers or clusters and may not end: then the
  theorems prove that they do end (\<open>\<exists>r. \<dots> = Some r\<close>). No fuel is used, apart from the number of
  polls that \<^verbatim>\<open>netstack_receive_udp_low\<close> itself counts. Output on the screen is left out unless it is
  the result of the function, as in \<^verbatim>\<open>printf\<close>.

  \<^bold>\<open>Theories.\<close>
  \<^item> \<open>Prelude\<close>: word widths, flat memory, byte lists in memory, little endian fields, and the lemmas
    on words that all theories share.
  \<^item> \<open>Libc_Memory\<close>, \<open>Libc_String\<close>, \<open>Libc_Stdlib\<close>, \<open>Libc_Format\<close>: \<^verbatim>\<open>string.c\<close>, \<^verbatim>\<open>stdlib.c\<close>, \<^verbatim>\<open>stdio.c\<close>.
    Overlapping moves are correct in both directions; tokenising, searching and comparing agree with
    their list specifications; the 64-bit division routines divide; number conversions round trip;
    \<^verbatim>\<open>snprintf\<close> is the truncation of \<^verbatim>\<open>sprintf\<close>.
  \<^item> \<open>Bitmap\<close>: the interface of a bitmap allocator as a locale, interpreted by the frame bitmap and the
    page bitmap.
  \<^item> \<open>Kmalloc\<close>, \<open>Kmalloc_Correct\<close>, \<open>Kmalloc_Safety\<close>: \<^verbatim>\<open>kmalloc.c\<close>. The block list refines first fit
    with coalescing on a list of chunks that tile the heap; releasing undoes allocating; and every run
    of releases and of allocations that the block list satisfies or refuses hands out disjoint blocks of
    the heap. The growth of the heap by page frames is modelled and shown to leave the heap
    (\<open>heap_frames_not_reserved\<close>), so it is outside the statements on safety.
  \<^item> \<open>Paging\<close>: \<^verbatim>\<open>paging.c\<close>. What \<^verbatim>\<open>init_paging\<close> sets up is read with the walk of the processor: the
    first 4 MB are mapped identically. \<^verbatim>\<open>map_page\<close> uses bit-fields with another layout, and what
    it stores is characterised in that layout only (\<open>entry_layout_mismatch\<close>).
  \<^item> \<open>Scheduler\<close>, \<open>Process\<close>: the timer interrupt, the context switch of \<^verbatim>\<open>switch.asm\<close>, creation and
    exit as a transition system; round robin, freedom from starvation, an invariant of the reachable
    states, and process identifiers that stay distinct.
  \<^item> \<open>Syscall\<close>: the dispatch table and the handler, and the allocation wrappers of the C library, which go
    through it: an aligned allocation returns an aligned block inside the one it took from the heap.
  \<^item> \<open>Keyboard\<close>: the scan code state machine and the ring buffer, which refines a bounded queue (a
    locale); the line that a user types on a keyboard with the US layout, presses, releases, Shift and
    Caps Lock included, is read in full under every interleaving of interrupts and polls.
  \<^item> \<open>Netstack\<close>, \<open>Netstack_Correct\<close>: \<^verbatim>\<open>netstack.c\<close>. The ARP cache as an interpretation of an address
    cache, checksums, ARP requests that are answered, echo requests and DHCP; an invariant for every received
    frame. Headers are checked in the wrong byte order (\<open>header_checksum_byte_order\<close>).
  \<^item> \<open>Disk\<close>: a block device whose sectors may fail to be read or written, as a locale: what is read
    behind a write of other bytes of the device.
  \<^item> \<open>Fat32\<close>, \<open>Fat32_Correct\<close>, \<open>Fat32_Names\<close>, \<open>Fat32_Directory\<close>, \<open>Fat32_Typed\<close>: the FAT32 file system
    over a disk whose sectors may fail. The table as a map that updates change at one point in all
    copies, allocation, chains, file contents, 8.3 names, creation of files, and what holds on a
    drive that fails or loses writes.
  \<^item> \<open>Vfs\<close>, \<open>Vfs_Correct\<close>, \<open>Fat32_Vfs\<close>: \<^verbatim>\<open>vfs.c\<close> over arbitrary tables of operations, what it needs of a
    file system as a locale, the FAT32 adapter \<^verbatim>\<open>fat32_vfs_adapter.c\<close> as an interpretation. Paths
    resolve to the longest mount point, mounting and unmounting are inverse, and files of a mounted
    FAT32 drive are read through the virtual file system.
  \<^item> \<open>Fat12\<close>, \<open>Fat12_Correct\<close>, \<open>Fat12_Vfs\<close>: \<^verbatim>\<open>fat12.c\<close> and its adapter. Sector addresses stay within the
    geometry, initialisation leaves the volume of the floppy with its whole table or nothing, and files of
    the root directory are read in the order of the chain that the format defines, as far as the
    clusters to be followed are ones whose table entry the code reads correctly.
  \<^item> \<open>Ext2\<close>, \<open>Ext2_Correct\<close>, \<open>Ext2_Directory\<close>, \<open>Ext2_Vfs\<close>: \<^verbatim>\<open>ext2.c\<close> and its adapter. What
    initialisation accepts, inodes that are read back as written, files at any offset, directories
    as laid out up to the first unused entry of a block, and files of an ext2 mount through the virtual file system.

  \<^item> \<open>Ports\<close>: the port instructions of \<^verbatim>\<open>io.h\<close> over an arbitrary bus, as state transformers; the drivers
    below are programs over it, so they are proved against what a device does and not against a
    fixed trace.
  \<^item> \<open>Ata\<close>, \<open>Ata_Correct\<close>, \<open>Ata_Detect\<close>: \<^verbatim>\<open>ata.c\<close> in its four build variants. What a controller does with its registers
    is a locale, interpreted by a drive that takes time and may fail; over it reading and writing a
    sector are the operations of the disk that the file systems use; detection fills the table with
    exactly the drives that are attached to the two channels (a locale).
  \<^item> \<open>Fdd\<close>: \<^verbatim>\<open>fdd.c\<close> with its interrupt arriving at any delay; what detection adds to the table.
  \<^item> \<open>Automount\<close>: \<^verbatim>\<open>auto_mount_all_drives\<close> over the virtual file system with arbitrary drivers: which drives are
    mounted, where and with which file system.
  \<^item> \<open>Program\<close>: \<^verbatim>\<open>prg.c\<close> and the loading part of \<^verbatim>\<open>process.c\<close>: relocation, ELF segments, processes for files.
  \<^item> \<open>Interrupts\<close>: \<^verbatim>\<open>gdt.c\<close>, \<^verbatim>\<open>tss.c\<close>, \<^verbatim>\<open>idt.c\<close>, \<^verbatim>\<open>irq.c\<close>, \<^verbatim>\<open>isr.c\<close>. The tables as the processor reads
    them lead every vector to its entry point; interrupts are acknowledged.
  \<^item> \<open>Pci\<close>: \<^verbatim>\<open>pci.c\<close> over a configuration space (a locale, interpreted by a host bridge): the scan
    finds the functions that are there.
  \<^item> \<open>Ne2000\<close>, \<open>Ne2000_Card\<close>, \<open>Ne2000_Correct\<close>: \<^verbatim>\<open>ne2000.c\<close> over a card (a locale: its registers, its memory
    behind the data port, flags that show up after some polls). Frames are on the wire as they were given,
    the ring of received pages is a queue, interrupts answer ARP requests.
  \<^item> \<open>Clock\<close>: \<^verbatim>\<open>rtc.c\<close> over a clock chip (a locale) whose update cycles advance it, and \<^verbatim>\<open>pit.c\<close>: what is
    set is read back, advanced by the update cycles that have passed; delays end.
  \<^item> \<open>Console\<close>, \<open>Console_Correct\<close>: \<^verbatim>\<open>serial.c\<close>, \<^verbatim>\<open>video.c\<close> and \<^verbatim>\<open>display.c\<close>: over a display controller and a
    serial port (a locale) the text console refines a terminal of rows.
  \<^item> \<open>Multiboot\<close>: the usable memory in the map of the boot loader, \<^verbatim>\<open>multiboot_parser.c\<close>.

  \<^item> \<open>Shell\<close>, \<open>Shell_Commands\<close>, \<open>Shell_Correct\<close>: the line editor, history and dispatch of \<^verbatim>\<open>command.c\<close>. The editor
    refines a text with a cursor, the history ring a list of the last commands, and a
    line runs the command it names.

  \<^bold>\<open>Not modelled.\<close> The drivers of the other network cards (\<^verbatim>\<open>e1000.c\<close>, \<^verbatim>\<open>rtl8139.c\<close>, \<^verbatim>\<open>vmxnet3.c\<close>), the timers of the
  processor and USB: the network stack sees a card as a log and a queue, and the drivers see time as an
  effect of the bus. The framebuffer, the boot banner and the individual commands of the shell are output;
  the BASIC interpreter and the other user programs are not part of the kernel.
\<close>

end
